(* ===== verification/Disc_Prelude.thy ===== *)
theory Disc_Prelude
  imports Main "HOL-Library.Word" "HOL-Library.Monad_Syntax"
begin

text \<open>
  Shared vocabulary of the development: the C integer types as words, byte buffers and the
  macros that read and write integers in them, checked reads and writes of a buffer
  (the value None stands for an access outside the buffer, which the C code must never
  make), the shared-memory allocator as an oracle, and the generic lemmas that the
  components use.
\<close>

unbundle bit_operations_syntax

named_theorems c_int \<comment> \<open>facts that move word arithmetic to nat\<close>
named_theorems buf_simps \<comment> \<open>lengths, reads and writes of byte buffers\<close>

type_synonym u8 = "8 word"
type_synonym u16 = "16 word"
type_synonym u32 = "32 word"
type_synonym bytes = "u8 list"
type_synonym ptr = nat \<comment> \<open>an address; 0 is the null pointer\<close>

abbreviation (input) NULL :: ptr where "NULL \<equiv> 0"

section \<open>Integers in memory\<close>

text \<open>
  The wire format is big-endian: \<open>htonl\<close> on the little-endian host followed by a store is
  \<open>be32\<close>; storing an integer without conversion is \<open>le32\<close> (peer.c and message.c store the
  hop-by-hop and end-to-end identifiers that way). The source refuses to compile on a
  big-endian host.
\<close>

definition be32 :: "u32 \<Rightarrow> bytes" where
  "be32 w = [ucast (drop_bit 24 w), ucast (drop_bit 16 w), ucast (drop_bit 8 w), ucast w]"

definition le32 :: "u32 \<Rightarrow> bytes" where
  "le32 w = rev (be32 w)"

definition of_be32 :: "u8 \<Rightarrow> u8 \<Rightarrow> u8 \<Rightarrow> u8 \<Rightarrow> u32" where
  "of_be32 a b c d =
     push_bit 24 (ucast a) OR push_bit 16 (ucast b) OR push_bit 8 (ucast c) OR ucast d"

text \<open>A checked read and a checked write: None is an access outside the buffer.\<close>

definition peek :: "bytes \<Rightarrow> nat \<Rightarrow> u8 option" where
  "peek b i = (if i < length b then Some (b ! i) else None)"

definition peek4 :: "bytes \<Rightarrow> nat \<Rightarrow> u32 option" where
  "peek4 b i = (if i + 4 \<le> length b
     then Some (of_be32 (b ! i) (b ! (i + 1)) (b ! (i + 2)) (b ! (i + 3))) else None)"

definition peek4le :: "bytes \<Rightarrow> nat \<Rightarrow> u32 option" where
  "peek4le b i = (if i + 4 \<le> length b
     then Some (of_be32 (b ! (i + 3)) (b ! (i + 2)) (b ! (i + 1)) (b ! i)) else None)"

definition peekn :: "bytes \<Rightarrow> nat \<Rightarrow> nat \<Rightarrow> bytes option" where
  "peekn b i n = (if i + n \<le> length b then Some (take n (drop i b)) else None)"

definition poke :: "nat \<Rightarrow> bytes \<Rightarrow> bytes \<Rightarrow> bytes option" where
  "poke i d b = (if i + length d \<le> length b
     then Some (take i b @ d @ drop (i + length d) b) else None)"

section \<open>Comparing strings\<close>

text \<open>The bytes of a string literal.\<close>

definition asc :: "string \<Rightarrow> bytes" where
  "asc s = map (\<lambda>c. of_nat (of_char c)) s"

text \<open>\<open>tolower\<close> in the C locale.\<close>

definition to_lower :: "u8 \<Rightarrow> u8" where
  "to_lower c = (if 65 \<le> c \<and> c \<le> 90 then c + 32 else c)"

text \<open>\<open>strncasecmp\<close> on two areas of the compared length gives 0: it stops at a null byte in both.\<close>

definition strncasecmp_eq :: "bytes \<Rightarrow> bytes \<Rightarrow> bool" where
  "strncasecmp_eq a b \<longleftrightarrow> map to_lower (takeWhile (\<lambda>c. c \<noteq> 0) a) = map to_lower (takeWhile (\<lambda>c. c \<noteq> 0) b)"

section \<open>Words\<close>

lemma of_be32_be32:
  "of_be32 (ucast (drop_bit 24 w)) (ucast (drop_bit 16 w)) (ucast (drop_bit 8 w)) (ucast w) = w"
  unfolding of_be32_def
proof (rule bit_word_eqI)
  fix n :: nat
  assume "n < LENGTH(32)"
  then consider "n < 8" | "8 \<le> n" "n < 16" | "16 \<le> n" "n < 24" | "24 \<le> n" "n < 32"
    by fastforce
  then show "bit (push_bit 24 (ucast (ucast (drop_bit 24 w) :: u8)) OR
      push_bit 16 (ucast (ucast (drop_bit 16 w) :: u8)) OR
      push_bit 8 (ucast (ucast (drop_bit 8 w) :: u8)) OR ucast (ucast w :: u8) :: u32) n = bit w n"
    by cases (auto simp: bit_simps)
qed

lemma length_be32 [simp]: "length (be32 w) = 4"
  by (simp add: be32_def)

lemma length_le32 [simp]: "length (le32 w) = 4"
  by (simp add: le32_def)

lemma be32_inject [simp]: "be32 v = be32 w \<longleftrightarrow> v = w"
proof
  assume "be32 v = be32 w"
  then show "v = w"
    unfolding be32_def by (metis list.inject of_be32_be32)
qed simp

lemma be32_of_be32 [simp]: "be32 (of_be32 a b c d) = [a, b, c, d]"
proof -
  have "ucast (drop_bit 24 (of_be32 a b c d)) = a"
    and "ucast (drop_bit 16 (of_be32 a b c d)) = b"
    and "ucast (drop_bit 8 (of_be32 a b c d)) = c"
    and "ucast (of_be32 a b c d) = d"
    unfolding of_be32_def
    by (rule bit_word_eqI; auto simp: bit_simps dest: bit_imp_le_length)+
  then show ?thesis by (simp add: be32_def)
qed

text \<open>Three bytes carry the value modulo \<open>2 ^ 24\<close>.\<close>

lemma of_be32_three:
  "of_be32 0 (ucast (drop_bit 16 w)) (ucast (drop_bit 8 w)) (ucast w) = take_bit 24 w"
proof -
  have "of_be32 (ucast (drop_bit 24 (take_bit 24 w))) (ucast (drop_bit 16 (take_bit 24 w)))
      (ucast (drop_bit 8 (take_bit 24 w))) (ucast (take_bit 24 w)) = take_bit 24 w"
    by (rule of_be32_be32)
  moreover have "(ucast (drop_bit 24 (take_bit 24 w)) :: u8) = 0"
    and "(ucast (drop_bit 16 (take_bit 24 w)) :: u8) = ucast (drop_bit 16 w)"
    and "(ucast (drop_bit 8 (take_bit 24 w)) :: u8) = ucast (drop_bit 8 w)"
    and "(ucast (take_bit 24 w) :: u8) = ucast w"
    by (rule bit_word_eqI; auto simp: bit_simps)+
  ultimately show ?thesis by simp
qed

lemma take_bit_24_id: "unat w < 2 ^ 24 \<Longrightarrow> take_bit 24 (w :: u32) = w"
  by (rule word_unat_eq_iff [THEN iffD2]) (simp add: unsigned_take_bit_eq take_bit_nat_eq_self)

lemma unat_take_bit_24 [c_int]: "unat (take_bit 24 (w :: u32)) < 2 ^ 24"
  unfolding unsigned_take_bit_eq by (rule take_bit_nat_less_exp)

lemma unat_of_nat_u32 [c_int]: "n < 2 ^ 32 \<Longrightarrow> unat (of_nat n :: u32) = n"
  by (simp add: unat_of_nat take_bit_nat_eq_self)

section \<open>Buffers\<close>

lemma length_poke [buf_simps]: "poke i d b = Some b' \<Longrightarrow> length b' = length b"
  by (auto simp: poke_def split: if_splits)

lemma poke_None_iff [buf_simps]: "poke i d b = None \<longleftrightarrow> length b < i + length d"
  by (auto simp: poke_def)

text \<open>Writing at the end of what is already written into a zeroed buffer.\<close>

lemma poke_append_zeros [buf_simps]:
  "i = length xs \<Longrightarrow> length d \<le> n \<Longrightarrow>
   poke i d (xs @ replicate n 0) = Some (xs @ d @ replicate (n - length d) 0)"
  by (simp add: poke_def)

lemma poke_append_middle [buf_simps]:
  "i = length xs \<Longrightarrow> length d = length ys \<Longrightarrow> poke i d (xs @ ys @ zs) = Some (xs @ d @ zs)"
  by (simp add: poke_def)

lemma peek_append [buf_simps]: "i = length xs \<Longrightarrow> peek (xs @ y # ys) i = Some y"
  by (simp add: peek_def nth_append)

lemma peek4_append [buf_simps]: "i = length xs \<Longrightarrow> peek4 (xs @ be32 w @ ys) i = Some w"
  by (simp add: peek4_def nth_append be32_def of_be32_be32)

lemma peek4le_append [buf_simps]: "i = length xs \<Longrightarrow> peek4le (xs @ le32 w @ ys) i = Some w"
  by (simp add: peek4le_def nth_append le32_def be32_def of_be32_be32)

lemma peekn_append [buf_simps]:
  "i = length xs \<Longrightarrow> n = length d \<Longrightarrow> peekn (xs @ d @ ys) i n = Some d"
  by (simp add: peekn_def)

lemma peek_Some [buf_simps]: "i < length b \<Longrightarrow> peek b i = Some (b ! i)"
  by (simp add: peek_def)

lemma peek4_Some [buf_simps]:
  "i + 4 \<le> length b \<Longrightarrow>
   peek4 b i = Some (of_be32 (b ! i) (b ! (i + 1)) (b ! (i + 2)) (b ! (i + 3)))"
  by (simp add: peek4_def)

lemma peekn_Some [buf_simps]: "i + n \<le> length b \<Longrightarrow> peekn b i n = Some (take n (drop i b))"
  by (simp add: peekn_def)

section \<open>Sorted lists\<close>

lemma set_insert_at: "set (takeWhile P xs @ n # dropWhile P xs) = insert n (set xs)"
  by (metis (no_types) Un_insert_right list.simps(15) set_append takeWhile_dropWhile_id)

lemma sorted_insert_at:
  fixes f :: "'a \<Rightarrow> 'b::linorder"
  assumes "sorted (map f xs)"
  shows "sorted (map f (takeWhile (\<lambda>x. f x < f n) xs @ n # dropWhile (\<lambda>x. f x < f n) xs))"
  using assms
proof (induction xs)
  case Nil
  then show ?case by simp
next
  case (Cons x xs)
  let ?ys = "takeWhile (\<lambda>x. f x < f n) xs @ n # dropWhile (\<lambda>x. f x < f n) xs"
  show ?case
  proof (cases "f x < f n")
    case True
    then have "\<forall>y \<in> set ?ys. f x \<le> f y" using Cons.prems
      by (auto dest: set_takeWhileD set_dropWhileD)
    moreover have "sorted (map f ?ys)" using Cons by simp
    ultimately have "sorted (map f (x # ?ys))" by auto
    then show ?thesis using True by simp
  next
    case False
    then show ?thesis using Cons.prems by fastforce
  qed
qed

lemma takeWhile_sorted:
  fixes f :: "'a \<Rightarrow> 'b::linorder"
  shows "sorted (map f xs) \<Longrightarrow> set (takeWhile (\<lambda>x. f x \<le> b) xs) = {x \<in> set xs. f x \<le> b}"
  by (induction xs) auto

lemma dropWhile_sorted:
  fixes f :: "'a \<Rightarrow> 'b::linorder"
  shows "sorted (map f xs) \<Longrightarrow> set (dropWhile (\<lambda>x. f x \<le> b) xs) = {x \<in> set xs. b < f x}"
  by (induction xs) (auto simp: not_le)

section \<open>Shared memory\<close>

text \<open>
  The components call \<open>shm_malloc\<close> and \<open>shm_free\<close> of mem/shm\_mem.h. What they rely on is the
  contract of an allocator: a request either fails (null) or gives a block that is not in
  use. The contract is the locale \<open>allocator\<close>; the model of the calls below lets an oracle
  \<open>ok\<close> decide which of the requests, counted from 0, succeed, so that a theorem for every
  oracle covers every sequence of failures. \<open>shm_live\<close> lists the blocks in use, newest first.
\<close>

record shm =
  shm_calls :: nat
  shm_live :: "ptr list"

definition shm_malloc :: "(nat \<Rightarrow> bool) \<Rightarrow> shm \<Rightarrow> ptr \<times> shm" where
  "shm_malloc ok m =
     (let n = shm_calls m; m' = m\<lparr>shm_calls := Suc n\<rparr>
      in if ok n then (Suc n, m'\<lparr>shm_live := Suc n # shm_live m\<rparr>) else (NULL, m'))"

definition shm_free :: "ptr \<Rightarrow> shm \<Rightarrow> shm" where
  "shm_free p m = m\<lparr>shm_live := remove1 p (shm_live m)\<rparr>"

definition shm_init :: shm where
  "shm_init = \<lparr>shm_calls = 0, shm_live = []\<rparr>"

definition shm_wf :: "shm \<Rightarrow> bool" where
  "shm_wf m \<longleftrightarrow> distinct (shm_live m) \<and> (\<forall>p \<in> set (shm_live m). 0 < p \<and> p \<le> shm_calls m)"

locale allocator =
  fixes malloc :: "'m \<Rightarrow> ptr \<times> 'm"
    and free :: "ptr \<Rightarrow> 'm \<Rightarrow> 'm"
    and live :: "'m \<Rightarrow> ptr set"
    and wf :: "'m \<Rightarrow> bool"
  assumes malloc_fail: "wf m \<Longrightarrow> malloc m = (NULL, m') \<Longrightarrow> live m' = live m"
    and malloc_fresh: "wf m \<Longrightarrow> malloc m = (p, m') \<Longrightarrow> p \<noteq> NULL \<Longrightarrow> p \<notin> live m"
    and malloc_live: "wf m \<Longrightarrow> malloc m = (p, m') \<Longrightarrow> p \<noteq> NULL \<Longrightarrow> live m' = insert p (live m)"
    and free_live: "wf m \<Longrightarrow> live (free p m) = live m - {p}"
    and malloc_wf: "wf m \<Longrightarrow> malloc m = (p, m') \<Longrightarrow> wf m'"
    and free_wf: "wf m \<Longrightarrow> wf (free p m)"
begin

text \<open>A block that is allocated and freed again leaves the live blocks as they were.\<close>

lemma malloc_then_free:
  assumes "wf m" and "malloc m = (p, m')" and "p \<noteq> NULL"
  shows "live (free p m') = live m"
  using assms malloc_fresh malloc_live malloc_wf free_live by auto

text \<open>Two requests never give the same block while the first is in use.\<close>

lemma malloc_distinct:
  assumes "wf m" and "malloc m = (p, m')" and "malloc m' = (q, m'')" and "p \<noteq> NULL" and "q \<noteq> NULL"
  shows "p \<noteq> q"
proof
  assume "p = q"
  moreover have "p \<in> live m'" using assms malloc_live by auto
  moreover have "q \<notin> live m'" using assms malloc_fresh malloc_wf by blast
  ultimately show False by simp
qed

end

interpretation shm: allocator "shm_malloc ok" shm_free "\<lambda>m. set (shm_live m)" shm_wf
  for ok
proof
qed (auto simp: shm_malloc_def shm_free_def shm_wf_def Let_def le_Suc_eq split: if_splits)

end
