(* ===== verification/Utils.thy ===== *)
theory Utils
  imports Disc_Prelude
begin

text \<open>
  The conversions of utils.h: decimal and hexadecimal printing of an unsigned int into a
  bounded buffer, hexadecimal reading, rounding to a multiple of four and trimming. Text is a
  byte list. The lemmas show that what is printed reads back to the number that was printed.
\<close>

section \<open>Definitions\<close>

abbreviation chr_0 :: u8 where "chr_0 \<equiv> 48"
abbreviation chr_dot :: u8 where "chr_dot \<equiv> 46"
abbreviation chr_semicolon :: u8 where "chr_semicolon \<equiv> 59"
abbreviation chr_space :: u8 where "chr_space \<equiv> 32"

definition to_32x_len :: "u32 \<Rightarrow> u32" where
  "to_32x_len len = len + (if len AND 3 \<noteq> 0 then 4 - (len AND 3) else 0)"

definition set_bit_in_mask :: "u32 \<Rightarrow> nat \<Rightarrow> u32" where
  "set_bit_in_mask m pos = m OR push_bit pos 1"

text \<open>
  \<open>trim_lr\<close> moves the start over leading blanks and the length back over trailing ones. The
  loops have no length test: on a text of blanks only the first runs past its end, which is
  the value None here.
\<close>

definition trim_lr :: "bytes \<Rightarrow> bytes option" where
  "trim_lr s = (if \<forall>c \<in> set s. c = chr_space then None
     else Some (rev (dropWhile (\<lambda>c. c = chr_space) (rev (dropWhile (\<lambda>c. c = chr_space) s)))))"

text \<open>
  \<open>int2str\<close>: one digit per power of ten; \<open>buf_len\<close> advances once a digit other than 0 has been
  written, so \<open>out\<close> holds the text without leading zeros. For the number 0 the text is the one
  digit left in \<open>buf[0]\<close>.
\<close>

function int2str_loop :: "nat \<Rightarrow> nat \<Rightarrow> bytes \<Rightarrow> nat \<Rightarrow> bytes" where
  "int2str_loop n l out max_len =
     (if n \<noteq> 0 \<and> length out < max_len
      then (let c = of_nat (l div n) + chr_0
            in int2str_loop (n div 10) (l mod n)
                 (if c \<noteq> chr_0 \<or> out \<noteq> [] then out @ [c] else out) max_len)
      else out)"
  by pat_completeness auto
termination
  by (relation "measure (\<lambda>(n, l, out, m). n)") auto

definition int2str :: "u32 \<Rightarrow> nat \<Rightarrow> bytes" where
  "int2str l max_len =
     (let out = int2str_loop 1000000000 (unat l) [] max_len
      in if out \<noteq> [] then out else [chr_0])"

definition hex_digit :: "u8 \<Rightarrow> u8" where
  "hex_digit c = c + (if c < 10 then chr_0 else 65 - 10)"

text \<open>\<open>int2hexstr\<close>: the shift counts are 28, 24, ..., 0.\<close>

fun int2hexstr_loop :: "nat list \<Rightarrow> u32 \<Rightarrow> bytes \<Rightarrow> nat \<Rightarrow> bytes" where
  "int2hexstr_loop [] l out max_len = out"
| "int2hexstr_loop (n # ns) l out max_len =
     (if length out < max_len
      then (let c = hex_digit (ucast (drop_bit n l AND 15))
            in int2hexstr_loop ns l (if c \<noteq> chr_0 \<or> out \<noteq> [] then out @ [c] else out) max_len)
      else out)"

definition hex_shifts :: "nat list" where
  "hex_shifts = [28, 24, 20, 16, 12, 8, 4, 0]"

definition int2hexstr :: "u32 \<Rightarrow> nat \<Rightarrow> bytes" where
  "int2hexstr l max_len =
     (let out = int2hexstr_loop hex_shifts l [] max_len
      in if out \<noteq> [] then out else [chr_0])"

text \<open>\<open>hexchar2int\<close> gives -1 for a character that is no hexadecimal digit.\<close>

definition hexchar2int :: "u8 \<Rightarrow> int" where
  "hexchar2int c =
     (if 48 \<le> c \<and> c \<le> 57 then uint c - 48
      else if 65 \<le> c \<and> c \<le> 70 then 10 + uint c - 65
      else if 97 \<le> c \<and> c \<le> 102 then 10 + uint c - 97
      else - 1)"

fun hexstr2int_loop :: "bytes \<Rightarrow> u32 \<Rightarrow> u32" where
  "hexstr2int_loop [] n = n"
| "hexstr2int_loop (c # cs) n =
     (if hexchar2int c = - 1 then - 1
      else hexstr2int_loop cs (push_bit 4 n + word_of_int (hexchar2int c)))"

definition hexstr2int :: "bytes \<Rightarrow> u32" where
  "hexstr2int buf = hexstr2int_loop buf 0"

section \<open>Rounding to a multiple of four\<close>

lemma and_3_mod: "unat (len AND 3 :: u32) = unat len mod 4"
proof -
  have "len AND 3 = take_bit 2 len"
    by (simp add: take_bit_eq_mask mask_eq_decr_exp)
  then have "unat (len AND 3) = take_bit 2 (unat len)"
    by (simp only: unsigned_take_bit_eq)
  then show ?thesis by (simp add: take_bit_eq_mod)
qed

lemma unat_to_32x_len [c_int]:
  assumes "unat len \<le> 2 ^ 32 - 4"
  shows "unat (to_32x_len len) = (unat len + 3) div 4 * 4"
proof (cases "len AND 3 = 0")
  case True
  then have "unat len mod 4 = 0" using and_3_mod [of len] by simp
  with True show ?thesis by (simp add: to_32x_len_def) presburger
next
  case False
  let ?r = "unat len mod 4"
  have r: "0 < ?r" "?r < 4"
    using False and_3_mod [of len] by (simp_all add: unat_gt_0 [symmetric] del: unat_gt_0)
  have s: "unat (4 - (len AND 3) :: u32) = 4 - ?r"
    using r by (simp add: unat_sub word_le_nat_alt and_3_mod)
  have "unat len + (4 - ?r) < 2 ^ 32" using assms r by presburger
  then have "unat (to_32x_len len) = unat len + (4 - ?r)"
    using False s by (simp add: to_32x_len_def unat_word_ariths)
  also have "\<dots> = (unat len + 3) div 4 * 4" using r by presburger
  finally show ?thesis .
qed

section \<open>Decimal text\<close>

declare int2str_loop.simps [simp del]

fun dec_val :: "bytes \<Rightarrow> nat" where
  "dec_val [] = 0"
| "dec_val (c # cs) = (unat c - 48) * 10 ^ length cs + dec_val cs"

lemma dec_val_append [simp]: "dec_val (xs @ ys) = dec_val xs * 10 ^ length ys + dec_val ys"
  by (induction xs) (auto simp: algebra_simps power_add)

lemma unat_digit: "d < 10 \<Longrightarrow> unat (of_nat d + chr_0 :: u8) = d + 48"
  by (simp add: unat_word_ariths unat_of_nat take_bit_eq_mod)

lemma digit_zero_iff: "d < 10 \<Longrightarrow> (of_nat d + chr_0 = (chr_0 :: u8)) = (d = 0)"
  using unat_digit [of d] by auto

lemma of_nat_digit_zero: "d < 10 \<Longrightarrow> ((of_nat d :: u8) = 0) = (d = 0)"
  by (metis digit_zero_iff add_0 add_right_cancel)

lemma int2str_loop_step:
  "length out < m \<Longrightarrow>
   int2str_loop (10 ^ k) l out m =
     int2str_loop (10 ^ k div 10) (l mod 10 ^ k)
       (if of_nat (l div 10 ^ k) + chr_0 \<noteq> (chr_0 :: u8) \<or> out \<noteq> []
        then out @ [of_nat (l div 10 ^ k) + chr_0] else out) m"
  by (subst int2str_loop.simps) (simp add: Let_def)

lemma int2str_loop_stop: "int2str_loop 0 l out m = out"
  by (subst int2str_loop.simps) simp

definition digits_only :: "bytes \<Rightarrow> bool" where
  "digits_only xs \<longleftrightarrow> (\<forall>c \<in> set xs. 48 \<le> c \<and> c \<le> 57)"

lemma digit_range: "d < 10 \<Longrightarrow> (48 :: u8) \<le> of_nat d + chr_0 \<and> of_nat d + chr_0 \<le> (57 :: u8)"
  using unat_digit [of d] by (simp add: word_le_nat_alt)

lemma int2str_loop_spec:
  assumes "l < 10 ^ Suc k" and "length out + k < m" and "digits_only out"
  shows "dec_val (int2str_loop (10 ^ k) l out m) = dec_val out * 10 ^ Suc k + l
    \<and> digits_only (int2str_loop (10 ^ k) l out m)
    \<and> (l \<noteq> 0 \<or> out \<noteq> [] \<longrightarrow> int2str_loop (10 ^ k) l out m \<noteq> [])
    \<and> length (int2str_loop (10 ^ k) l out m) \<le> length out + Suc k"
  using assms
proof (induction k arbitrary: l out)
  case 0
  then have "l < 10" by simp
  with 0 show ?case
    using int2str_loop_step [of out m 0 l] digit_range [of l]
    by (auto simp: int2str_loop_stop of_nat_digit_zero digits_only_def unat_digit)
next
  case (Suc k)
  let ?d = "l div 10 ^ Suc k" and ?r = "l mod 10 ^ Suc k"
  let ?c = "of_nat ?d + chr_0 :: u8"
  let ?out = "if ?c \<noteq> chr_0 \<or> out \<noteq> [] then out @ [?c] else out"
  have d: "?d < 10" using Suc.prems(1) by (simp add: less_mult_imp_div_less)
  have step: "int2str_loop (10 ^ Suc k) l out m = int2str_loop (10 ^ k) ?r ?out m"
    using Suc.prems int2str_loop_step [of out m "Suc k" l] by simp
  have "dec_val ?out * 10 ^ Suc k + ?r = dec_val out * 10 ^ Suc (Suc k) + l"
  proof (cases "?d = 0 \<and> out = []")
    case True
    then have "l < 10 ^ Suc k" by (simp add: div_eq_0_iff)
    with True show ?thesis by simp
  next
    case False
    then have "?out = out @ [?c]" using digit_zero_iff [OF d] by auto
    then show ?thesis using unat_digit [OF d] div_mult_mod_eq [of l "10 ^ Suc k"]
      by (simp add: algebra_simps)
  qed
  moreover have "l \<noteq> 0 \<or> out \<noteq> [] \<Longrightarrow> ?r \<noteq> 0 \<or> ?out \<noteq> []"
    using digit_zero_iff [OF d] by (auto simp: div_eq_0_iff) 
  moreover have "length ?out + k < m" "digits_only ?out"
    using Suc.prems digit_range [OF d] by (auto simp: digits_only_def)
  ultimately show ?case
    using Suc.IH [of ?r ?out] step Suc.prems by (auto split: if_splits)
qed

lemma int2str_spec:
  assumes "10 \<le> m"
  shows "dec_val (int2str l m) = unat l" and "digits_only (int2str l m)"
    and "int2str l m \<noteq> []" and "length (int2str l m) \<le> 10"
proof -
  have "unat l < 2 ^ 32" using unsigned_less [of l] by simp
  then have l: "unat l < 10 ^ Suc 9" by simp
  note spec = int2str_loop_spec [OF l, of "[]" m]
  have "dec_val (int2str l m) = unat l \<and> digits_only (int2str l m)
    \<and> int2str l m \<noteq> [] \<and> length (int2str l m) \<le> 10"
    using spec assms by (auto simp: int2str_def Let_def digits_only_def)
  then show "dec_val (int2str l m) = unat l" and "digits_only (int2str l m)"
    and "int2str l m \<noteq> []" and "length (int2str l m) \<le> 10" by blast+
qed

lemma int2str_inject: "10 \<le> m \<Longrightarrow> int2str v m = int2str w m \<longleftrightarrow> v = w"
  by (metis int2str_spec(1) word_unat_eq_iff)

section \<open>Hexadecimal text\<close>

definition hex_only :: "bytes \<Rightarrow> bool" where
  "hex_only xs \<longleftrightarrow> (\<forall>c \<in> set xs. hexchar2int c \<noteq> - 1)"

lemma hex_only_simps [simp]:
  "hex_only []" "hex_only (c # cs) \<longleftrightarrow> hexchar2int c \<noteq> - 1 \<and> hex_only cs"
  "hex_only (xs @ ys) \<longleftrightarrow> hex_only xs \<and> hex_only ys" "hex_only (rev xs) = hex_only xs"
  by (auto simp: hex_only_def)

lemma hexchar2int_dot [simp]: "hexchar2int chr_dot = - 1"
  by (simp add: hexchar2int_def)

lemma uint_hex_digit:
  "uint c < 16 \<Longrightarrow> uint (hex_digit c) = (if uint c < 10 then uint c + 48 else uint c + 55)"
  using unsigned_greater_eq [of c]
  by (simp add: hex_digit_def uint_word_ariths word_less_def)

lemma hexchar2int_hex_digit: "uint c < 16 \<Longrightarrow> hexchar2int (hex_digit c) = uint c"
  using uint_hex_digit [of c] unsigned_greater_eq [of c, where 'a = int]
  by (simp add: hexchar2int_def word_le_def)

lemma hex_digit_zero: "hex_digit 0 = chr_0"
  by (simp add: hex_digit_def)

abbreviation (input) nibble :: "nat \<Rightarrow> u32 \<Rightarrow> u8" where
  "nibble n l \<equiv> ucast (drop_bit n l AND 15)"

lemma and_15_take_bit: "w AND 15 = take_bit 4 (w :: u32)"
  by (simp add: take_bit_eq_mask mask_eq_decr_exp)

lemma uint_nibble: "uint (nibble n l) = uint (drop_bit n l AND 15)"
proof -
  have "take_bit 8 (uint (take_bit 4 (drop_bit n l))) = uint (take_bit 4 (drop_bit n l))"
    by (simp add: unsigned_take_bit_eq)
  then show ?thesis by (simp add: and_15_take_bit unsigned_ucast_eq)
qed

lemma uint_nibble_bound: "uint (nibble n l) < 16"
  unfolding uint_nibble and_15_take_bit unsigned_take_bit_eq
  using take_bit_int_less_exp [of 4] by simp

lemma hexchar2int_nibble [simp]:
  "word_of_int (hexchar2int (hex_digit (nibble n l))) = (drop_bit n l AND 15 :: u32)"
  "hexchar2int (hex_digit (nibble n l)) \<noteq> - 1"
proof -
  have h: "hexchar2int (hex_digit (nibble n l)) = uint (drop_bit n l AND 15)"
    using hexchar2int_hex_digit [OF uint_nibble_bound [of n l]] by (simp only: uint_nibble)
  show "word_of_int (hexchar2int (hex_digit (nibble n l))) = (drop_bit n l AND 15 :: u32)"
    unfolding h by (rule word_of_int_uint)
  have "0 \<le> uint (drop_bit n l AND 15)" by (rule unsigned_greater_eq)
  then show "hexchar2int (hex_digit (nibble n l)) \<noteq> - 1" unfolding h by linarith
qed

lemma hexstr2int_loop_append:
  "hex_only xs \<Longrightarrow> hexstr2int_loop (xs @ ys) n = hexstr2int_loop ys (hexstr2int_loop xs n)"
  by (induction xs arbitrary: n) auto

lemma drop_bit_nibble:
  "push_bit 4 (drop_bit (n + 4) l) + (drop_bit n l AND 15) = drop_bit n (l :: u32)"
proof -
  have "push_bit 4 (drop_bit 4 (drop_bit n l)) + take_bit 4 (drop_bit n l) = drop_bit n l"
    by (rule bits_ident)
  then show ?thesis by (simp add: and_15_take_bit drop_bit_drop_bit add.commute)
qed

text \<open>
  After the shift counts above \<open>4 * k\<close> the digits written so far denote the number without its
  \<open>k\<close> low digits; no digit is lost when a leading zero is skipped.
\<close>

lemma int2hexstr_loop_spec:
  assumes "hexstr2int out = drop_bit (4 * k) l" and "hex_only out" and "length out + k \<le> m"
  shows "hexstr2int (int2hexstr_loop (rev (map ((*) 4) [0..<k])) l out m) = l
    \<and> hex_only (int2hexstr_loop (rev (map ((*) 4) [0..<k])) l out m)
    \<and> length (int2hexstr_loop (rev (map ((*) 4) [0..<k])) l out m) \<le> length out + k"
  using assms
proof (induction k arbitrary: out)
  case 0
  then show ?case by simp
next
  case (Suc k)
  let ?c = "hex_digit (nibble (4 * k) l)"
  let ?out = "if ?c \<noteq> chr_0 \<or> out \<noteq> [] then out @ [?c] else out"
  have "hexstr2int (out @ [?c]) = drop_bit (4 * k) l"
    using Suc.prems drop_bit_nibble [of "4 * k" l]
    by (simp add: hexstr2int_def hexstr2int_loop_append add.commute)
  moreover have "hexstr2int (out @ [?c]) = hexstr2int out" if "?c = chr_0" "out = []"
    using that by (simp add: hexstr2int_def hexchar2int_def)
  ultimately have "hexstr2int ?out = drop_bit (4 * k) l" by auto
  moreover have "hex_only ?out" "length ?out + k \<le> m" using Suc.prems by auto
  ultimately show ?case using Suc.IH [of ?out] Suc.prems by (auto split: if_splits)
qed

lemma hex_shifts_eq: "hex_shifts = rev (map ((*) 4) [0..<8])"
  by (simp add: hex_shifts_def upt_rec)

lemma int2hexstr_spec:
  assumes "8 \<le> m"
  shows "hexstr2int (int2hexstr l m) = l" and "hex_only (int2hexstr l m)"
    and "int2hexstr l m \<noteq> []" and "length (int2hexstr l m) \<le> 8"
proof -
  have "drop_bit 32 l = 0" by (rule bit_word_eqI) (auto simp: bit_simps dest: bit_imp_le_length)
  then have "hexstr2int [] = drop_bit (4 * 8) l" by (simp add: hexstr2int_def)
  note spec = int2hexstr_loop_spec [OF this, of m, folded hex_shifts_eq]
  have "hexstr2int [chr_0] = 0" by (simp add: hexstr2int_def hexchar2int_def)
  moreover have "hexstr2int [] = 0" by (simp add: hexstr2int_def)
  ultimately have "hexstr2int (int2hexstr l m) = l \<and> hex_only (int2hexstr l m)
    \<and> int2hexstr l m \<noteq> [] \<and> length (int2hexstr l m) \<le> 8"
    using spec assms by (auto simp: int2hexstr_def Let_def hexchar2int_def)
  then show "hexstr2int (int2hexstr l m) = l" and "hex_only (int2hexstr l m)"
    and "int2hexstr l m \<noteq> []" and "length (int2hexstr l m) \<le> 8" by blast+
qed

end
