(* ===== verification/List_Head.thy ===== *)
theory List_Head
  imports Disc_Prelude
begin

text \<open>
  The intrusive doubly linked lists of list.h on an explicit store of \<open>next\<close> and \<open>prev\<close> fields:
  every assignment of the C functions is one update of the store, in the order of the code. A
  list is a ring through its head. The predicate \<open>ring\<close> relates the store to the sequence of
  its entries, and the lemmas show what each operation does to that sequence; the locale
  \<open>entry_list\<close> is the interface the hash table, the peer table and the list of active peers
  rely on, where a list is used as a sequence of entries.
\<close>

section \<open>The store and the operations\<close>

record list_store =
  lh_next :: "ptr \<Rightarrow> ptr"
  lh_prev :: "ptr \<Rightarrow> ptr"

definition set_next :: "ptr \<Rightarrow> ptr \<Rightarrow> 'a list_store_scheme \<Rightarrow> 'a list_store_scheme" where
  "set_next p v h = h\<lparr>lh_next := (lh_next h)(p := v)\<rparr>"

definition set_prev :: "ptr \<Rightarrow> ptr \<Rightarrow> 'a list_store_scheme \<Rightarrow> 'a list_store_scheme" where
  "set_prev p v h = h\<lparr>lh_prev := (lh_prev h)(p := v)\<rparr>"

definition INIT_LIST_HEAD :: "ptr \<Rightarrow> 'a list_store_scheme \<Rightarrow> 'a list_store_scheme" where
  "INIT_LIST_HEAD p h = set_prev p p (set_next p p h)"

definition ZERO_LIST_HEAD :: "ptr \<Rightarrow> 'a list_store_scheme \<Rightarrow> 'a list_store_scheme" where
  "ZERO_LIST_HEAD p h = set_prev p NULL (set_next p NULL h)"

definition list_add_between :: "ptr \<Rightarrow> ptr \<Rightarrow> ptr \<Rightarrow> 'a list_store_scheme \<Rightarrow> 'a list_store_scheme" where
  "list_add_between new_entry prev next h =
     set_next prev new_entry (set_prev new_entry prev
       (set_next new_entry next (set_prev next new_entry h)))"

definition list_add :: "ptr \<Rightarrow> ptr \<Rightarrow> 'a list_store_scheme \<Rightarrow> 'a list_store_scheme" where
  "list_add new_entry head h = list_add_between new_entry head (lh_next h head) h"

definition list_add_tail :: "ptr \<Rightarrow> ptr \<Rightarrow> 'a list_store_scheme \<Rightarrow> 'a list_store_scheme" where
  "list_add_tail new_entry head h = list_add_between new_entry (lh_prev h head) head h"

definition list_del_between :: "ptr \<Rightarrow> ptr \<Rightarrow> 'a list_store_scheme \<Rightarrow> 'a list_store_scheme" where
  "list_del_between prev next h = set_next prev next (set_prev next prev h)"

definition list_del :: "ptr \<Rightarrow> 'a list_store_scheme \<Rightarrow> 'a list_store_scheme" where
  "list_del entry h = list_del_between (lh_prev h entry) (lh_next h entry) h"

definition list_del_init :: "ptr \<Rightarrow> 'a list_store_scheme \<Rightarrow> 'a list_store_scheme" where
  "list_del_init entry h = INIT_LIST_HEAD entry (list_del entry h)"

definition list_del_zero :: "ptr \<Rightarrow> 'a list_store_scheme \<Rightarrow> 'a list_store_scheme" where
  "list_del_zero entry h = ZERO_LIST_HEAD entry (list_del entry h)"

definition list_empty :: "ptr \<Rightarrow> 'a list_store_scheme \<Rightarrow> bool" where
  "list_empty head h \<longleftrightarrow> lh_next h head = head"

definition list_splice :: "ptr \<Rightarrow> ptr \<Rightarrow> 'a list_store_scheme \<Rightarrow> 'a list_store_scheme" where
  "list_splice list head h =
     (let first = lh_next h list
      in if first \<noteq> list
         then (let last = lh_prev h list; at = lh_next h head
               in set_prev at last (set_next last at (set_next head first (set_prev first head h))))
         else h)"

text \<open>
  \<open>list_for_each\<close> visits the entries from \<open>pos\<close> until it is back at the head. The loop does not
  end on a store that is no ring, so it takes fuel, and None means that the fuel ran out.
\<close>

fun list_for_each :: "nat \<Rightarrow> ptr \<Rightarrow> ptr \<Rightarrow> 'a list_store_scheme \<Rightarrow> ptr list option" where
  "list_for_each 0 pos head h = None"
| "list_for_each (Suc fuel) pos head h =
     (if pos = head then Some []
      else map_option ((#) pos) (list_for_each fuel (lh_next h pos) head h))"

definition list_entries :: "nat \<Rightarrow> ptr \<Rightarrow> 'a list_store_scheme \<Rightarrow> ptr list option" where
  "list_entries fuel head h = list_for_each fuel (lh_next h head) head h"

definition list_get_first :: "ptr \<Rightarrow> 'a list_store_scheme \<Rightarrow> ptr" where
  "list_get_first head h = (if lh_next h head = head then NULL else lh_next h head)"

definition list_get_last :: "ptr \<Rightarrow> 'a list_store_scheme \<Rightarrow> ptr" where
  "list_get_last head h = (if lh_prev h head = head then NULL else lh_prev h head)"

lemmas store_defs [simp] =
  set_next_def set_prev_def

lemmas list_op_defs =
  INIT_LIST_HEAD_def ZERO_LIST_HEAD_def list_add_between_def list_add_def list_add_tail_def
  list_del_between_def list_del_def list_del_init_def list_del_zero_def list_empty_def
  list_splice_def list_get_first_def list_get_last_def

section \<open>Segments and rings\<close>

text \<open>\<open>seg h a xs b\<close>: from \<open>a\<close> the entries \<open>xs\<close> lead to \<open>b\<close>, linked in both directions.\<close>

fun seg :: "'a list_store_scheme \<Rightarrow> ptr \<Rightarrow> ptr list \<Rightarrow> ptr \<Rightarrow> bool" where
  "seg h a [] b \<longleftrightarrow> lh_next h a = b \<and> lh_prev h b = a"
| "seg h a (x # xs) b \<longleftrightarrow> lh_next h a = x \<and> lh_prev h x = a \<and> seg h x xs b"

definition ring :: "'a list_store_scheme \<Rightarrow> ptr \<Rightarrow> ptr list \<Rightarrow> bool" where
  "ring h head xs \<longleftrightarrow> distinct (head # xs) \<and> NULL \<notin> set (head # xs) \<and> seg h head xs head"

lemma seg_append [simp]: "seg h a (xs @ y # ys) b \<longleftrightarrow> seg h a xs y \<and> seg h y ys b"
  by (induction xs arbitrary: a) auto

lemma seg_snoc: "seg h a (xs @ [y]) b \<longleftrightarrow> seg h a xs y \<and> lh_next h y = b \<and> lh_prev h b = y"
  by simp

text \<open>A segment only reads \<open>next\<close> at its entries but the last and \<open>prev\<close> at all but the first.\<close>

lemma seg_frame:
  assumes "seg h a xs b"
    and "\<And>x. x \<in> set (a # xs) \<Longrightarrow> lh_next h' x = lh_next h x"
    and "\<And>x. x \<in> set (xs @ [b]) \<Longrightarrow> lh_prev h' x = lh_prev h x"
  shows "seg h' a xs b"
  using assms by (induction xs arbitrary: a) auto

lemma seg_same: "lh_next h' = lh_next h \<Longrightarrow> lh_prev h' = lh_prev h \<Longrightarrow> seg h' a xs b = seg h a xs b"
  by (induction xs arbitrary: a) auto

lemma seg_first: "seg h a xs b \<Longrightarrow> lh_next h a = hd (xs @ [b])"
  by (cases xs) auto

lemma seg_last: "seg h a xs b \<Longrightarrow> lh_prev h b = last (a # xs)"
  by (induction xs arbitrary: a) auto

lemma seg_mid:
  assumes "seg h a (xs @ ys) b"
  shows "lh_prev h (hd (ys @ [b])) = last (a # xs)" and "lh_next h (last (a # xs)) = hd (ys @ [b])"
  using assms by (induction xs arbitrary: a; cases ys; auto)+

lemma ring_first: "ring h head xs \<Longrightarrow> lh_next h head = hd (xs @ [head])"
  by (simp add: ring_def seg_first)

lemma ring_last: "ring h head xs \<Longrightarrow> lh_prev h head = last (head # xs)"
  unfolding ring_def using seg_last by blast

lemma ring_entry:
  assumes "ring h head (xs @ e # ys)"
  shows "lh_prev h e = last (head # xs)" and "lh_next h e = hd (ys @ [head])"
  using assms seg_last seg_first unfolding ring_def seg_append by blast+

text \<open>Updates away from a ring leave it alone.\<close>

lemma ring_frame:
  assumes "ring h head xs"
    and "\<And>x. x \<in> set (head # xs) \<Longrightarrow> lh_next h' x = lh_next h x \<and> lh_prev h' x = lh_prev h x"
  shows "ring h' head xs"
  using assms unfolding ring_def by (auto intro: seg_frame)

section \<open>What the operations do to a ring\<close>

lemma seg_insert:
  assumes "seg h a (xs @ ys) b" and "distinct (a # xs @ ys)" and "b \<notin> set (xs @ ys)"
    and "new \<notin> set (a # b # xs @ ys)"
  shows "seg (list_add_between new (last (a # xs)) (hd (ys @ [b])) h) a (xs @ new # ys) b"
  using assms
proof (induction xs arbitrary: a)
  case Nil
  show ?case
  proof (cases ys)
    case Nil
    with Nil.prems show ?thesis by (auto simp: list_add_between_def)
  next
    case (Cons y ys')
    with Nil.prems have "seg h y ys' b" by simp
    then have "seg (list_add_between new a y h) y ys' b"
      by (rule seg_frame) (use Nil.prems Cons in \<open>auto simp: list_add_between_def\<close>)
    with Nil.prems Cons show ?thesis by (auto simp: list_add_between_def)
  qed
next
  case (Cons x xs)
  then have "seg (list_add_between new (last (x # xs)) (hd (ys @ [b])) h) x (xs @ new # ys) b"
    by auto
  moreover have "a \<noteq> last (x # xs)" "x \<noteq> hd (ys @ [b])"
    using Cons.prems by (auto simp: hd_append split: if_splits)
  ultimately show ?case using Cons.prems by (auto simp: list_add_between_def)
qed

lemma seg_delete:
  assumes "seg h a (xs @ e # ys) b" and "distinct (a # xs @ e # ys)" and "b \<notin> set (xs @ e # ys)"
  shows "seg (list_del_between (last (a # xs)) (hd (ys @ [b])) h) a (xs @ ys) b"
  using assms
proof (induction xs arbitrary: a)
  case Nil
  show ?case
  proof (cases ys)
    case Nil
    then show ?thesis by (simp add: list_del_between_def)
  next
    case (Cons y ys')
    with Nil.prems have "seg h y ys' b" by simp
    then have "seg (list_del_between a y h) y ys' b"
      by (rule seg_frame) (use Nil.prems Cons in \<open>auto simp: list_del_between_def\<close>)
    with Cons show ?thesis by (auto simp: list_del_between_def)
  qed
next
  case (Cons x xs)
  then have "seg (list_del_between (last (x # xs)) (hd (ys @ [b])) h) x (xs @ ys) b"
    by auto
  moreover have "a \<noteq> last (x # xs)" "x \<noteq> hd (ys @ [b])"
    using Cons.prems by (auto simp: hd_append split: if_splits)
  ultimately show ?case using Cons.prems by (auto simp: list_del_between_def)
qed

lemma ring_init: "p \<noteq> NULL \<Longrightarrow> ring (INIT_LIST_HEAD p h) p []"
  by (simp add: ring_def INIT_LIST_HEAD_def)

lemma ring_add:
  assumes "ring h head xs" and "e \<notin> set (head # xs)" and "e \<noteq> NULL"
  shows "ring (list_add e head h) head (e # xs)"
  using assms seg_insert [of h head "[]" xs head e] ring_first [OF assms(1)]
  by (auto simp: ring_def list_add_def)

lemma ring_add_tail:
  assumes "ring h head xs" and "e \<notin> set (head # xs)" and "e \<noteq> NULL"
  shows "ring (list_add_tail e head h) head (xs @ [e])"
  using assms seg_insert [of h head xs "[]" head e] ring_last [OF assms(1)]
  by (auto simp: ring_def list_add_tail_def)

lemma ring_del:
  assumes "ring h head (xs @ e # ys)"
  shows "ring (list_del e h) head (xs @ ys)"
  using assms seg_delete [of h head xs e ys head] ring_entry [OF assms]
  by (auto simp: ring_def list_del_def)

lemma ring_del_zero:
  assumes "ring h head (xs @ e # ys)"
  shows "ring (list_del_zero e h) head (xs @ ys)"
    and "lh_next (list_del_zero e h) e = NULL" and "lh_prev (list_del_zero e h) e = NULL"
proof -
  show "ring (list_del_zero e h) head (xs @ ys)"
    unfolding list_del_zero_def
    by (rule ring_frame [OF ring_del [OF assms]])
      (use assms in \<open>auto simp: ring_def ZERO_LIST_HEAD_def\<close>)
qed (simp_all add: list_del_zero_def ZERO_LIST_HEAD_def)

lemma ring_empty: "ring h head xs \<Longrightarrow> list_empty head h \<longleftrightarrow> xs = []"
  using ring_first [of h head xs]
  by (cases xs) (auto simp: list_empty_def ring_def)

lemma ring_get_first: "ring h head xs \<Longrightarrow> list_get_first head h = (if xs = [] then NULL else hd xs)"
  using ring_first [of h head xs]
  by (cases xs) (auto simp: list_get_first_def ring_def)

lemma ring_get_last: "ring h head xs \<Longrightarrow> list_get_last head h = (if xs = [] then NULL else last xs)"
  using ring_last [of h head xs]
  by (cases xs rule: rev_cases) (auto simp: list_get_last_def ring_def)

text \<open>The traversal ends on a ring and gives its entries in order.\<close>

lemma list_for_each_seg:
  assumes "seg h a xs head" and "head \<notin> set xs" and "length xs < fuel"
  shows "list_for_each fuel (lh_next h a) head h = Some xs"
  using assms
proof (induction xs arbitrary: a fuel)
  case Nil
  then show ?case by (cases fuel) auto
next
  case (Cons x xs)
  then show ?case by (cases fuel) auto
qed

lemma ring_entries: "ring h head xs \<Longrightarrow> length xs < fuel \<Longrightarrow> list_entries fuel head h = Some xs"
  unfolding ring_def list_entries_def by (auto intro: list_for_each_seg)

lemma ring_unique:
  assumes "ring h head xs" and "ring h head ys"
  shows "xs = ys"
proof -
  let ?f = "Suc (max (length xs) (length ys))"
  have "list_entries ?f head h = Some xs" "list_entries ?f head h = Some ys"
    using assms by (auto intro!: ring_entries)
  then show ?thesis by simp
qed

text \<open>Joining two lists: the end of the first is linked to the start of the second.\<close>

lemma seg_retarget:
  assumes "seg h a xs b" and "distinct (a # xs)" and "c \<notin> set (a # xs)"
  shows "seg (set_prev c (last (a # xs)) (set_next (last (a # xs)) c h)) a xs c"
  using assms
proof (induction xs arbitrary: a)
  case Nil
  then show ?case by simp
next
  case (Cons x xs)
  then have "seg (set_prev c (last (x # xs)) (set_next (last (x # xs)) c h)) x xs c" by auto
  moreover have "a \<noteq> last (x # xs)" using Cons.prems by auto
  ultimately show ?case using Cons.prems by auto
qed

lemma ring_splice:
  assumes l: "ring h list xs" and r: "ring h head ys"
    and dis: "set (list # xs) \<inter> set (head # ys) = {}"
  shows "ring (list_splice list head h) head (xs @ ys)"
proof (cases xs)
  case Nil
  with l r show ?thesis by (auto simp: list_splice_def ring_def)
next
  case (Cons x xs')
  let ?at = "hd (ys @ [head])" and ?last = "last (x # xs')"
  let ?h' = "set_prev ?at ?last (set_next ?last ?at h)"
  let ?h = "list_splice list head h"
  have h: "?h = set_prev ?at ?last (set_next ?last ?at (set_next head x (set_prev x head h)))"
    using l ring_first [OF l] ring_last [OF l] ring_first [OF r] Cons
    by (auto simp: list_splice_def Let_def ring_def)
  have at: "?at \<in> set (head # ys)" by (cases ys) auto
  have la: "?last \<in> set xs" unfolding Cons by (rule last_in_set) simp
  have "seg ?h' x xs' ?at"
    using l Cons dis at by (intro seg_retarget [of _ _ _ list]) (auto simp: ring_def)
  then have mid: "seg ?h x xs' ?at"
    by (rule seg_frame) (use l r dis at la Cons in \<open>auto simp: ring_def h\<close>)
  moreover have "seg ?h head [] x" using l r dis at la Cons by (auto simp: ring_def h)
  moreover have "ys = y # ys' \<Longrightarrow> seg ?h y ys' head" for y ys'
    by (rule seg_frame [of h]) (use l r dis la Cons in \<open>auto simp: ring_def h\<close>)
  ultimately have "seg ?h head (xs @ ys) head" using Cons by (cases ys) auto
  then show ?thesis using l r dis by (auto simp: ring_def)
qed

section \<open>The interface\<close>

text \<open>
  What a client of list.h relies on: \<open>lst s head xs\<close> says that the list at \<open>head\<close> holds the
  entries \<open>xs\<close>; adding at the tail, deleting, the emptiness test and the traversal follow the
  sequence.
\<close>

locale entry_list =
  fixes lst :: "'s \<Rightarrow> ptr \<Rightarrow> ptr list \<Rightarrow> bool"
    and init :: "ptr \<Rightarrow> 's \<Rightarrow> 's"
    and add_tail :: "ptr \<Rightarrow> ptr \<Rightarrow> 's \<Rightarrow> 's"
    and del :: "ptr \<Rightarrow> 's \<Rightarrow> 's"
    and is_empty :: "ptr \<Rightarrow> 's \<Rightarrow> bool"
    and entries :: "nat \<Rightarrow> ptr \<Rightarrow> 's \<Rightarrow> ptr list option"
  assumes lst_distinct: "lst s head xs \<Longrightarrow> distinct (head # xs) \<and> NULL \<notin> set (head # xs)"
    and lst_init: "head \<noteq> NULL \<Longrightarrow> lst (init head s) head []"
    and lst_add_tail: "lst s head xs \<Longrightarrow> e \<notin> set (head # xs) \<Longrightarrow> e \<noteq> NULL \<Longrightarrow>
      lst (add_tail e head s) head (xs @ [e])"
    and lst_del: "lst s head (xs @ e # ys) \<Longrightarrow> lst (del e s) head (xs @ ys)"
    and lst_is_empty: "lst s head xs \<Longrightarrow> is_empty head s \<longleftrightarrow> xs = []"
    and lst_entries: "lst s head xs \<Longrightarrow> length xs < fuel \<Longrightarrow> entries fuel head s = Some xs"
begin

text \<open>Entries added one after the other come out in the order in which they went in.\<close>

lemma lst_add_all:
  assumes "lst s head xs" and "distinct (head # xs @ es)" and "NULL \<notin> set es"
  shows "lst (fold (\<lambda>e. add_tail e head) es s) head (xs @ es)"
  using assms
proof (induction es arbitrary: s xs)
  case Nil
  then show ?case by simp
next
  case (Cons e es)
  then have "lst (add_tail e head s) head (xs @ [e])" by (auto intro: lst_add_tail)
  then show ?case using Cons.IH [of "add_tail e head s" "xs @ [e]"] Cons.prems by simp
qed

text \<open>Deleting an entry is removing it from the sequence.\<close>

lemma lst_del_remove1:
  assumes "lst s head xs" and "e \<in> set xs"
  shows "lst (del e s) head (remove1 e xs)"
proof -
  from assms(2) obtain ys zs where xs: "xs = ys @ e # zs" and "e \<notin> set ys"
    by (meson split_list_first)
  then have "remove1 e xs = ys @ zs" by (simp add: remove1_append)
  with xs assms(1) show ?thesis by (auto intro: lst_del)
qed

lemma lst_add_then_del:
  assumes "lst s head xs" and "e \<notin> set (head # xs)" and "e \<noteq> NULL"
  shows "lst (del e (add_tail e head s)) head xs"
  using lst_del [of _ head xs e "[]"] lst_add_tail [OF assms] by simp

end

interpretation lh: entry_list ring INIT_LIST_HEAD list_add_tail list_del_zero list_empty list_entries
proof (unfold_locales, goal_cases)
  case (1 s head xs)
  then show ?case by (simp add: ring_def)
next
  case (2 head s)
  then show ?case by (rule ring_init)
next
  case (3 s head xs e)
  then show ?case by (rule ring_add_tail)
next
  case (4 s head xs e ys)
  then show ?case by (rule ring_del_zero)
next
  case (5 s head xs)
  then show ?case by (rule ring_empty)
next
  case (6 s head xs fuel)
  then show ?case by (rule ring_entries)
qed

section \<open>Properties\<close>

text \<open>
  (C9) Pointer lists behave as queues: entries added by \<open>list_add_tail\<close> to a fresh head are
  visited by \<open>list_for_each\<close> in the order in which they were added, the traversal ends, and
  deleting any of them with \<open>list_del_zero\<close> removes exactly that entry and leaves its own links
  null, which is how the code later recognises an entry that is in no list.
\<close>

theorem list_head_queue:
  assumes "distinct (head # es)" and "NULL \<notin> set (head # es)" and "e \<in> set es"
  shows "list_entries (Suc (length es)) head
      (fold (\<lambda>e. list_add_tail e head) es (INIT_LIST_HEAD head h)) = Some es
    \<and> list_entries (Suc (length es)) head
      (list_del_zero e (fold (\<lambda>e. list_add_tail e head) es (INIT_LIST_HEAD head h)))
        = Some (remove1 e es)
    \<and> lh_next (list_del_zero e (fold (\<lambda>e. list_add_tail e head) es (INIT_LIST_HEAD head h))) e = NULL"
proof -
  let ?s = "fold (\<lambda>e. list_add_tail e head) es (INIT_LIST_HEAD head h)"
  have r: "ring ?s head es"
    using lh.lst_add_all [of "INIT_LIST_HEAD head h" head "[]" es] lh.lst_init [of head h] assms
    by auto
  have "list_entries (Suc (length es)) head ?s = Some es"
    using lh.lst_entries [OF r] by simp
  moreover have "list_entries (Suc (length es)) head (list_del_zero e ?s) = Some (remove1 e es)"
    using lh.lst_entries [OF lh.lst_del_remove1 [OF r assms(3)]]
    by (simp add: length_remove1 assms(3))
  moreover have "lh_next (list_del_zero e ?s) e = NULL"
    by (simp add: list_del_zero_def ZERO_LIST_HEAD_def)
  ultimately show ?thesis by blast
qed

theorem list_head_queue_witness:
  "list_entries 4 1 (list_del_zero 3 (fold (\<lambda>e. list_add_tail e 1) [2, 3, 4]
     (INIT_LIST_HEAD 1 \<lparr>lh_next = (\<lambda>_. 0), lh_prev = (\<lambda>_. 0)\<rparr>))) = Some [2, 4]"
  using list_head_queue [of 1 "[2, 3, 4]" 3 "\<lparr>lh_next = (\<lambda>_. 0), lh_prev = (\<lambda>_. 0)\<rparr>"]
  by (simp add: numeral_eq_Suc)

end
