(* ===== verification/Timer.thy ===== *)
theory Timer
  imports List_Head
begin

text \<open>
  timer.c: the periodic handlers run by the ticker thread, and the timer lists. A timer list
  is a doubly linked list between the two sentinel links \<open>first_tl\<close> and \<open>last_tl\<close> of its
  \<open>struct timer\<close>; a link records in \<open>timer_list\<close> the list it is in, or null. The store extends
  the store of list.h by the fields of \<open>struct timer_link\<close>; each assignment of the code is an
  update. The locks around each operation make it atomic, so an operation is one step.
\<close>

section \<open>Periodic handlers\<close>

record timer_handler =
  timer_f :: nat \<comment> \<open>which function, with its parameter\<close>
  th_interval :: u32
  th_expires :: u32

record timer_state =
  jiffies :: u32
  timer_handler_list :: "timer_handler list"

definition TIMER_TICK :: u32 where "TIMER_TICK = 1"

definition register_timer :: "(nat \<Rightarrow> bool) \<Rightarrow> nat \<Rightarrow> u32 \<Rightarrow> timer_state \<Rightarrow> shm \<Rightarrow>
    int \<times> timer_state \<times> shm" where
  "register_timer ok f interval s m =
     (let (t, m') = shm_malloc ok m
      in if t = NULL then (- 1, s, m')
         else (1, s\<lparr>timer_handler_list :=
                \<lparr>timer_f = f, th_interval = interval, th_expires = jiffies s + interval\<rparr>
                  # timer_handler_list s\<rparr>, m'))"

text \<open>
  One round of \<open>timer_ticker\<close>: the handlers in list order; the calls made are returned as
  pairs of the function and the ticks it is given. \<open>jiffies\<close> is an int compared with unsigned
  values, so the comparisons are unsigned.
\<close>

fun run_handlers :: "(timer_handler \<Rightarrow> bool) \<Rightarrow> u32 \<Rightarrow> timer_handler list \<Rightarrow>
    timer_handler list \<times> (nat \<times> u32) list" where
  "run_handlers due j [] = ([], [])"
| "run_handlers due j (t # ts) =
     (let (ts', calls) = run_handlers due j ts
      in if due t then (t\<lparr>th_expires := j + th_interval t\<rparr> # ts', (timer_f t, j) # calls)
         else (t # ts', calls))"

definition timer_ticker_round :: "timer_state \<Rightarrow> timer_state \<times> (nat \<times> u32) list" where
  "timer_ticker_round s =
     (let prev_jiffies = jiffies s; j = jiffies s + TIMER_TICK;
          (ts, calls) = run_handlers (\<lambda>t. j < prev_jiffies \<or> th_expires t \<le> j) j
            (timer_handler_list s)
      in (s\<lparr>jiffies := j, timer_handler_list := ts\<rparr>, calls))"

fun timer_ticker :: "nat \<Rightarrow> timer_state \<Rightarrow> timer_state \<times> (nat \<times> u32) list" where
  "timer_ticker 0 s = (s, [])"
| "timer_ticker (Suc n) s =
     (let (s', calls) = timer_ticker_round s; (s'', calls') = timer_ticker n s'
      in (s'', calls @ calls'))"

section \<open>Timer lists\<close>

record tl_store = list_store +
  tl_timeout :: "ptr \<Rightarrow> u32"
  tl_payload :: "ptr \<Rightarrow> ptr"
  tl_list :: "ptr \<Rightarrow> ptr"

text \<open>A \<open>struct timer\<close>: its own address and those of its two embedded links.\<close>

record timer =
  timer_addr :: ptr
  first_tl :: ptr
  last_tl :: ptr

definition set_timeout :: "ptr \<Rightarrow> u32 \<Rightarrow> tl_store \<Rightarrow> tl_store" where
  "set_timeout p v h = h\<lparr>tl_timeout := (tl_timeout h)(p := v)\<rparr>"

definition set_list :: "ptr \<Rightarrow> ptr \<Rightarrow> tl_store \<Rightarrow> tl_store" where
  "set_list p v h = h\<lparr>tl_list := (tl_list h)(p := v)\<rparr>"

definition is_in_timer_list :: "tl_store \<Rightarrow> ptr \<Rightarrow> bool" where
  "is_in_timer_list h tln \<longleftrightarrow> tl_list h tln \<noteq> NULL"

definition new_timer_list :: "timer \<Rightarrow> tl_store \<Rightarrow> tl_store" where
  "new_timer_list t h =
     set_timeout (last_tl t) (- 1) (set_next (last_tl t) NULL (set_prev (first_tl t) NULL
       (set_prev (last_tl t) (first_tl t) (set_next (first_tl t) (last_tl t) h))))"

definition add_to_timer_list :: "ptr \<Rightarrow> timer \<Rightarrow> u32 \<Rightarrow> tl_store \<Rightarrow> int \<times> tl_store" where
  "add_to_timer_list tln t timeout h =
     (if is_in_timer_list h tln then (- 1, h)
      else (let h1 = set_timeout tln timeout h;
                h2 = set_prev tln (lh_prev h1 (last_tl t)) h1;
                h3 = set_next tln (last_tl t) h2;
                h4 = set_prev (last_tl t) tln h3;
                h5 = set_next (lh_prev h4 tln) tln h4
            in (1, set_list tln (timer_addr t) h5)))"

text \<open>The search for the position; on a proper list it stops at \<open>last_tl\<close> at the latest.\<close>

partial_function (option) tl_search :: "tl_store \<Rightarrow> timer \<Rightarrow> u32 \<Rightarrow> ptr \<Rightarrow> ptr option" where
  "tl_search h t timeout tlink =
     (if tlink \<noteq> last_tl t \<and> tl_timeout h tlink < timeout
      then tl_search h t timeout (lh_next h tlink) else Some tlink)"

definition insert_into_timer_list :: "ptr \<Rightarrow> timer \<Rightarrow> u32 \<Rightarrow> tl_store \<Rightarrow> (int \<times> tl_store) option" where
  "insert_into_timer_list tln t timeout h =
     (if is_in_timer_list h tln then Some (- 1, h)
      else (let h1 = set_timeout tln timeout h
            in map_option (\<lambda>tlink.
                 let h2 = set_next tln tlink h1;
                     h3 = set_prev tln (lh_prev h2 tlink) h2;
                     h4 = set_next (lh_prev h3 tlink) tln h3;
                     h5 = set_prev tlink tln h4
                 in (1, set_list tln (timer_addr t) h5))
               (tl_search h1 t timeout (lh_next h1 (first_tl t)))))"

definition rmv_from_timer_list :: "ptr \<Rightarrow> timer \<Rightarrow> tl_store \<Rightarrow> int \<times> tl_store" where
  "rmv_from_timer_list tln t h =
     (if tl_list h tln = timer_addr t
      then (let h1 = set_next (lh_prev h tln) (lh_next h tln) h;
                h2 = set_prev (lh_next h1 tln) (lh_prev h1 tln) h1;
                h3 = set_prev tln NULL (set_next tln NULL h2)
            in (1, set_list tln NULL h3))
      else (- 1, h))"

text \<open>The loop of \<open>get_expired_from_timer_list\<close>: it clears the list field of what has expired.\<close>

partial_function (option) tl_expire :: "timer \<Rightarrow> u32 \<Rightarrow> ptr \<Rightarrow> tl_store \<Rightarrow> (ptr \<times> tl_store) option" where
  "tl_expire t time tln h =
     (if tln \<noteq> last_tl t \<and> tl_timeout h tln \<le> time
      then tl_expire t time (lh_next h tln) (set_list tln NULL h) else Some (tln, h))"

definition get_expired_from_timer_list :: "timer \<Rightarrow> u32 \<Rightarrow> tl_store \<Rightarrow> (ptr \<times> tl_store) option" where
  "get_expired_from_timer_list t time h =
     (if lh_next h (first_tl t) = last_tl t \<or> time < tl_timeout h (lh_next h (first_tl t))
      then Some (NULL, h)
      else map_option (\<lambda>(tln, h1).
             if lh_prev h1 tln = first_tl t then (NULL, h1)
             else (let ret = lh_next h1 (first_tl t);
                       h2 = set_next (lh_prev h1 tln) NULL h1;
                       h3 = set_next (first_tl t) tln h2
                   in (ret, set_prev tln (first_tl t) h3)))
           (tl_expire t time (lh_next h (first_tl t)) h))"

text \<open>The callers walk over what was detached until the null link.\<close>

partial_function (option) tl_chain :: "tl_store \<Rightarrow> ptr \<Rightarrow> ptr list option" where
  "tl_chain h tln = (if tln = NULL then Some [] else
     Option.bind (tl_chain h (lh_next h tln)) (\<lambda>r. Some (tln # r)))"

section \<open>The list behind the pointers\<close>

text \<open>
  \<open>timer_rep h t xs\<close>: the timer list \<open>t\<close> holds the links \<open>xs\<close>, and the links whose list field
  names \<open>t\<close> are exactly those.
\<close>

definition timer_rep :: "tl_store \<Rightarrow> timer \<Rightarrow> ptr list \<Rightarrow> bool" where
  "timer_rep h t xs \<longleftrightarrow> distinct (first_tl t # last_tl t # xs) \<and>
     NULL \<notin> set (first_tl t # last_tl t # xs) \<and> timer_addr t \<noteq> NULL \<and>
     seg h (first_tl t) xs (last_tl t) \<and>
     (\<forall>x. tl_list h x = timer_addr t \<longleftrightarrow> x \<in> set xs)"

lemma timer_rep_distinct:
  "timer_rep h t xs \<Longrightarrow> distinct (first_tl t # last_tl t # xs) \<and> NULL \<notin> set (first_tl t # last_tl t # xs)"
  unfolding timer_rep_def by blast

lemma timer_rep_seg: "timer_rep h t xs \<Longrightarrow> seg h (first_tl t) xs (last_tl t)"
  unfolding timer_rep_def by blast

lemma timer_rep_mem: "timer_rep h t xs \<Longrightarrow> tl_list h x = timer_addr t \<longleftrightarrow> x \<in> set xs"
  unfolding timer_rep_def by blast

lemma timer_rep_addr: "timer_rep h t xs \<Longrightarrow> timer_addr t \<noteq> NULL"
  unfolding timer_rep_def by blast

lemmas timer_repD = timer_rep_distinct timer_rep_seg timer_rep_mem timer_rep_addr

lemma new_timer_list_rep:
  assumes "first_tl t \<noteq> last_tl t" and "first_tl t \<noteq> NULL" and "last_tl t \<noteq> NULL"
    and "timer_addr t \<noteq> NULL" and "\<forall>x. tl_list h x \<noteq> timer_addr t"
  shows "timer_rep (new_timer_list t h) t []"
  using assms by (simp add: timer_rep_def new_timer_list_def set_timeout_def)

lemma is_in_timer_list_rep: "timer_rep h t xs \<Longrightarrow> x \<in> set xs \<Longrightarrow> is_in_timer_list h x"
  using timer_rep_mem [of h t xs x] timer_rep_addr [of h t xs] by (simp add: is_in_timer_list_def)

text \<open>Where a link goes in between two neighbours the store is that of \<open>list_add_between\<close>.\<close>

lemma timer_rep_insert:
  assumes rep: "timer_rep h t (xs @ ys)" and new: "n \<notin> set (first_tl t # last_tl t # xs @ ys)" "n \<noteq> NULL"
    and nx: "lh_next h' = lh_next (list_add_between n (last (first_tl t # xs)) (hd (ys @ [last_tl t])) h)"
    and pv: "lh_prev h' = lh_prev (list_add_between n (last (first_tl t # xs)) (hd (ys @ [last_tl t])) h)"
    and lst: "tl_list h' = (tl_list h)(n := timer_addr t)"
  shows "timer_rep h' t (xs @ n # ys)"
proof -
  let ?h = "list_add_between n (last (first_tl t # xs)) (hd (ys @ [last_tl t])) h"
  have "seg ?h (first_tl t) (xs @ n # ys) (last_tl t)"
    using timer_repD(1,2) [OF rep] new by (intro seg_insert) auto
  then have "seg h' (first_tl t) (xs @ n # ys) (last_tl t)"
    using seg_same [OF nx pv] by blast
  then show ?thesis
    unfolding timer_rep_def using timer_repD(1,4) [OF rep] timer_rep_mem [OF rep] new lst by auto
qed

lemma add_to_timer_list_rep:
  assumes rep: "timer_rep h t xs" and free: "tl_list h n = NULL"
    and new: "n \<notin> {first_tl t, last_tl t, NULL}"
  shows "\<exists>h'. add_to_timer_list n t timeout h = (1, h') \<and> timer_rep h' t (xs @ [n])
    \<and> tl_timeout h' = (tl_timeout h)(n := timeout)"
proof -
  obtain h' where h': "add_to_timer_list n t timeout h = (1, h')"
    using free by (simp add: add_to_timer_list_def is_in_timer_list_def Let_def)
  have last: "lh_prev h (last_tl t) = last (first_tl t # xs)"
    using seg_last [OF timer_rep_seg [OF rep]] by simp
  have "n \<notin> set xs" using timer_rep_mem [OF rep, of n] timer_rep_addr [OF rep] free by auto
  then have "timer_rep h' t (xs @ n # [])"
    using h' new last free rep
    by (intro timer_rep_insert [of h])
      (auto simp: add_to_timer_list_def is_in_timer_list_def Let_def list_add_between_def
        set_timeout_def set_list_def)
  moreover have "tl_timeout h' = (tl_timeout h)(n := timeout)"
    using h' free
    by (auto simp: add_to_timer_list_def is_in_timer_list_def Let_def set_timeout_def set_list_def)
  ultimately show ?thesis using h' by auto
qed

lemma tl_search_seg:
  assumes "seg h p ys (last_tl t)" and "last_tl t \<notin> set ys"
  shows "tl_search h t timeout (lh_next h p)
    = Some (hd (dropWhile (\<lambda>x. tl_timeout h x < timeout) ys @ [last_tl t]))"
  using assms
proof (induction ys arbitrary: p)
  case Nil
  then show ?case by (simp add: tl_search.simps)
next
  case (Cons y ys)
  then have "tl_search h t timeout (lh_next h y)
    = Some (hd (dropWhile (\<lambda>x. tl_timeout h x < timeout) ys @ [last_tl t]))"
    by simp
  with Cons.prems show ?case by (subst tl_search.simps) auto
qed

lemma insert_into_timer_list_rep:
  assumes rep: "timer_rep h t xs" and free: "tl_list h n = NULL"
    and new: "n \<notin> {first_tl t, last_tl t, NULL}"
  shows "\<exists>h'. insert_into_timer_list n t timeout h = Some (1, h')
    \<and> timer_rep h' t (takeWhile (\<lambda>x. tl_timeout h x < timeout) xs @ n #
        dropWhile (\<lambda>x. tl_timeout h x < timeout) xs)
    \<and> tl_timeout h' = (tl_timeout h)(n := timeout)"
proof -
  let ?p = "\<lambda>x. tl_timeout h x < timeout"
  let ?xs = "takeWhile ?p xs" and ?ys = "dropWhile ?p xs"
  let ?h = "set_timeout n timeout h"
  let ?at = "hd (?ys @ [last_tl t])"
  have n: "n \<notin> set xs" using timer_rep_mem [OF rep, of n] timer_rep_addr [OF rep] free by auto
  have same: "seg ?h a zs b = seg h a zs b" for a zs b
    by (rule seg_same) (simp_all add: set_timeout_def)
  have cong: "dropWhile (\<lambda>x. tl_timeout ?h x < timeout) xs = ?ys"
    by (rule dropWhile_cong) (use n in \<open>auto simp: set_timeout_def\<close>)
  have search: "tl_search ?h t timeout (lh_next ?h (first_tl t)) = Some ?at"
    using tl_search_seg [of ?h "first_tl t" xs t timeout] timer_repD(1,2) [OF rep] same cong by simp
  have split: "seg h (first_tl t) (?xs @ ?ys) (last_tl t)" using timer_rep_seg [OF rep] by simp
  have at: "lh_prev h ?at = last (first_tl t # ?xs)" by (rule seg_mid(1) [OF split])
  have "?at \<in> set (?ys @ [last_tl t])" by (rule hd_in_set) simp
  then have atn: "?at \<noteq> n" using n new by (auto dest: set_dropWhileD)
  obtain h' where h': "insert_into_timer_list n t timeout h = Some (1, h')"
    using free search by (simp add: insert_into_timer_list_def is_in_timer_list_def Let_def)
  have rep': "timer_rep h t (?xs @ ?ys)" using rep by simp
  have fresh: "n \<notin> set (first_tl t # last_tl t # ?xs @ ?ys)" "n \<noteq> NULL" using n new by auto
  have "timer_rep h' t (?xs @ n # ?ys)"
    by (rule timer_rep_insert [OF rep' fresh])
      (use h' free search at atn in \<open>auto simp: insert_into_timer_list_def is_in_timer_list_def Let_def
        list_add_between_def set_timeout_def set_list_def\<close>)
  moreover have "tl_timeout h' = (tl_timeout h)(n := timeout)"
    using h' free search
    by (auto simp: insert_into_timer_list_def is_in_timer_list_def Let_def set_timeout_def set_list_def)
  ultimately show ?thesis using h' by auto
qed

lemma rmv_from_timer_list_rep:
  assumes rep: "timer_rep h t (xs @ n # ys)"
  shows "\<exists>h'. rmv_from_timer_list n t h = (1, h') \<and> timer_rep h' t (xs @ ys)
    \<and> tl_list h' n = NULL \<and> tl_timeout h' = tl_timeout h"
proof -
  let ?h = "list_del_between (last (first_tl t # xs)) (hd (ys @ [last_tl t])) h"
  have seg: "seg h (first_tl t) (xs @ n # ys) (last_tl t)" by (rule timer_rep_seg [OF rep])
  note dis = timer_rep_distinct [OF rep]
  have n: "tl_list h n = timer_addr t" using timer_rep_mem [OF rep, of n] by simp
  obtain h' where h': "rmv_from_timer_list n t h = (1, h')"
    using n by (simp add: rmv_from_timer_list_def Let_def)
  have pn: "lh_prev h n = last (first_tl t # xs)" and nn: "lh_next h n = hd (ys @ [last_tl t])"
    using seg_last [of h "first_tl t" xs n] seg_first [of h n ys "last_tl t"] seg by simp_all
  have ne: "last (first_tl t # xs) \<noteq> n" "hd (ys @ [last_tl t]) \<noteq> n"
    using dis by (auto simp: hd_append split: if_splits)
  have "seg ?h (first_tl t) (xs @ ys) (last_tl t)"
    by (rule seg_delete [OF seg]) (use dis in auto)
  then have "seg h' (first_tl t) (xs @ ys) (last_tl t)"
    by (rule seg_frame)
      (use h' n pn nn ne dis in \<open>auto simp: rmv_from_timer_list_def Let_def list_del_between_def
        set_list_def\<close>)
  moreover have "tl_list h' = (tl_list h)(n := NULL)"
    using h' n by (auto simp: rmv_from_timer_list_def Let_def set_list_def)
  moreover have "tl_timeout h' = tl_timeout h"
    using h' n by (auto simp: rmv_from_timer_list_def Let_def set_list_def)
  ultimately show ?thesis
    unfolding timer_rep_def
    using h' dis timer_rep_addr [OF rep] timer_rep_mem [OF rep] by auto
qed

lemma rmv_from_timer_list_absent:
  "timer_rep h t xs \<Longrightarrow> n \<notin> set xs \<Longrightarrow> rmv_from_timer_list n t h = (- 1, h)"
  using timer_rep_mem [of h t xs n] by (simp add: rmv_from_timer_list_def)

definition clear_list :: "ptr list \<Rightarrow> tl_store \<Rightarrow> tl_store" where
  "clear_list es h = h\<lparr>tl_list := (\<lambda>x. if x \<in> set es then NULL else tl_list h x)\<rparr>"

lemma clear_list_Cons: "clear_list es (set_list e NULL h) = clear_list (e # es) h"
  by (auto simp: clear_list_def set_list_def fun_eq_iff)

lemma clear_list_sel [simp]:
  "lh_next (clear_list es h) = lh_next h" "lh_prev (clear_list es h) = lh_prev h"
  "tl_timeout (clear_list es h) = tl_timeout h"
  by (simp_all add: clear_list_def)

lemma tl_expire_seg:
  assumes "seg h p ys (last_tl t)" and "last_tl t \<notin> set ys"
  shows "tl_expire t time (lh_next h p) h
    = Some (hd (dropWhile (\<lambda>x. tl_timeout h x \<le> time) ys @ [last_tl t]),
        clear_list (takeWhile (\<lambda>x. tl_timeout h x \<le> time) ys) h)"
  using assms
proof (induction ys arbitrary: p h)
  case Nil
  then show ?case by (simp add: tl_expire.simps clear_list_def)
next
  case (Cons y ys)
  have "seg (set_list y NULL h) y ys (last_tl t)"
    using Cons.prems seg_same [of "set_list y NULL h" h] by (simp add: set_list_def)
  from Cons.IH [OF this] Cons.prems
  have "tl_expire t time (lh_next h y) (set_list y NULL h)
    = Some (hd (dropWhile (\<lambda>x. tl_timeout h x \<le> time) ys @ [last_tl t]),
        clear_list (y # takeWhile (\<lambda>x. tl_timeout h x \<le> time) ys) h)"
    by (simp add: clear_list_Cons) (simp add: set_list_def)
  with Cons.prems show ?case by (subst tl_expire.simps) (auto simp: clear_list_def)
qed

lemma tl_chain_seg:
  assumes "seg h a (es @ ys) b" and "es \<noteq> []" and "NULL \<notin> set es" and "distinct es"
    and "\<And>x. x \<in> set (butlast es) \<Longrightarrow> lh_next h' x = lh_next h x" and "lh_next h' (last es) = NULL"
  shows "tl_chain h' (hd es) = Some es"
  using assms
proof (induction es arbitrary: a)
  case Nil
  then show ?case by simp
next
  case (Cons e es)
  show ?case
  proof (cases "es = []")
    case True
    with Cons.prems have "lh_next h' e = NULL" by simp
    with True Cons.prems show ?thesis by (subst tl_chain.simps) (simp add: tl_chain.simps)
  next
    case False
    then have "lh_next h' e = hd es" using Cons.prems by (cases es) auto
    moreover have "tl_chain h' (hd es) = Some es"
      using Cons.IH [of e] Cons.prems False by auto
    ultimately show ?thesis using Cons.prems by (subst tl_chain.simps) simp
  qed
qed

text \<open>Cutting the prefix \<open>es\<close> off the list, as the last part of the function does.\<close>

definition detach :: "timer \<Rightarrow> ptr list \<Rightarrow> ptr \<Rightarrow> tl_store \<Rightarrow> tl_store" where
  "detach t es at h =
     set_prev at (first_tl t) (set_next (first_tl t) at (set_next (last es) NULL (clear_list es h)))"

lemma detach_chain:
  assumes rep: "timer_rep h t (es @ rs)" and ne: "es \<noteq> []"
  shows "tl_chain (detach t es at h) (hd es) = Some es"
proof (rule tl_chain_seg [OF timer_rep_seg [OF rep] ne])
  note dis = timer_rep_distinct [OF rep]
  show "NULL \<notin> set es" and "distinct es" using dis by auto
  have "last es \<in> set es" using ne by simp
  then have "last es \<noteq> first_tl t" using dis by auto
  then show "lh_next (detach t es at h) (last es) = NULL" by (simp add: detach_def)
  have es: "es = butlast es @ [last es]" using ne by simp
  fix x assume x: "x \<in> set (butlast es)"
  have "distinct (butlast es @ [last es])" using dis es by simp
  then have "x \<noteq> last es" using x by auto
  moreover have "x \<noteq> first_tl t" using x dis by (auto dest: in_set_butlastD)
  ultimately show "lh_next (detach t es at h) x = lh_next h x" by (simp add: detach_def)
qed

lemma detach_rep:
  assumes rep: "timer_rep h t (es @ rs)" and ne: "es \<noteq> []"
  shows "timer_rep (detach t es (hd (rs @ [last_tl t])) h) t rs"
proof -
  let ?h = "detach t es (hd (rs @ [last_tl t])) h"
  note dis = timer_rep_distinct [OF rep]
  have les: "last es \<in> set es" using ne by simp
  have "seg ?h (first_tl t) rs (last_tl t)"
  proof (cases rs)
    case Nil
    with dis show ?thesis by (auto simp: detach_def)
  next
    case (Cons r rs')
    with timer_rep_seg [OF rep] have "seg h r rs' (last_tl t)" by simp
    then have "seg ?h r rs' (last_tl t)"
      by (rule seg_frame) (use Cons dis les in \<open>auto simp: detach_def\<close>)
    with Cons dis show ?thesis by (auto simp: detach_def)
  qed
  moreover have "tl_list ?h x = timer_addr t \<longleftrightarrow> x \<in> set rs" for x
    using timer_rep_mem [OF rep, of x] timer_rep_addr [OF rep] dis
    by (auto simp: detach_def clear_list_def)
  ultimately show ?thesis
    unfolding timer_rep_def using dis timer_rep_addr [OF rep] by auto
qed

lemma get_expired_eq:
  assumes rep: "timer_rep h t xs"
  shows "get_expired_from_timer_list t time h =
    (let es = takeWhile (\<lambda>x. tl_timeout h x \<le> time) xs;
         rs = dropWhile (\<lambda>x. tl_timeout h x \<le> time) xs
     in if es = [] then Some (NULL, h)
        else Some (hd es, detach t es (hd (rs @ [last_tl t])) h))"
proof -
  let ?p = "\<lambda>x. tl_timeout h x \<le> time"
  let ?es = "takeWhile ?p xs" and ?rs = "dropWhile ?p xs"
  let ?at = "hd (?rs @ [last_tl t])"
  note dis = timer_rep_distinct [OF rep] and seg = timer_rep_seg [OF rep]
  have start: "(lh_next h (first_tl t) = last_tl t \<or> time < tl_timeout h (lh_next h (first_tl t)))
      = (?es = [])"
    using seg dis by (cases xs) (auto split: if_splits)
  have exp: "tl_expire t time (lh_next h (first_tl t)) h = Some (?at, clear_list ?es h)"
    using tl_expire_seg [OF seg] dis by simp
  have split: "seg h (first_tl t) (?es @ ?rs) (last_tl t)" using seg by simp
  show ?thesis
  proof (cases "?es = []")
    case True
    then show ?thesis using start by (simp add: get_expired_from_timer_list_def)
  next
    case False
    have "lh_prev h ?at = last ?es" using seg_mid(1) [OF split] False by simp
    moreover have "last ?es \<in> set xs" using last_in_set [OF False] set_takeWhileD by fast
    moreover have "lh_next h (first_tl t) = hd ?es"
      using seg False by (cases xs) (auto split: if_splits)
    ultimately show ?thesis
      using start exp dis False
      by (auto simp: get_expired_from_timer_list_def detach_def Let_def)
  qed
qed

lemma get_expired_rep:
  assumes rep: "timer_rep h t xs"
  shows "\<exists>ret h'. get_expired_from_timer_list t time h = Some (ret, h')
    \<and> tl_chain h' ret = Some (takeWhile (\<lambda>x. tl_timeout h x \<le> time) xs)
    \<and> timer_rep h' t (dropWhile (\<lambda>x. tl_timeout h x \<le> time) xs)
    \<and> (\<forall>x \<in> set (takeWhile (\<lambda>x. tl_timeout h x \<le> time) xs). tl_list h' x = NULL)
    \<and> tl_timeout h' = tl_timeout h"
proof -
  let ?p = "\<lambda>x. tl_timeout h x \<le> time"
  have rep': "timer_rep h t (takeWhile ?p xs @ dropWhile ?p xs)" using rep by simp
  show ?thesis
  proof (cases "takeWhile ?p xs = []")
    case True
    then have "dropWhile ?p xs = xs" by (metis append_Nil takeWhile_dropWhile_id)
    with True rep show ?thesis by (simp add: get_expired_eq tl_chain.simps)
  next
    case False
    then show ?thesis
      using get_expired_eq [OF rep, of time] detach_chain [OF rep' False] detach_rep [OF rep' False]
      by (simp add: Let_def) (simp add: detach_def clear_list_def)
  qed
qed

section \<open>The interface of a timer list\<close>

text \<open>
  The session, transaction and peer managers use a timer list through these operations. A
  free link can be inserted at its timeout or added at the end; expiry hands out the prefix of
  links that are due.
\<close>

locale timer_queue =
  fixes rep :: "'s \<Rightarrow> ptr list \<Rightarrow> bool"
    and due :: "'s \<Rightarrow> ptr \<Rightarrow> u32"
    and insertable :: "'s \<Rightarrow> ptr \<Rightarrow> bool"
    and ins :: "ptr \<Rightarrow> u32 \<Rightarrow> 's \<Rightarrow> (int \<times> 's) option"
    and expire :: "u32 \<Rightarrow> 's \<Rightarrow> (ptr \<times> 's) option"
    and chain :: "'s \<Rightarrow> ptr \<Rightarrow> ptr list option"
  assumes ins_rep: "rep s xs \<Longrightarrow> insertable s n \<Longrightarrow>
      \<exists>s'. ins n timeout s = Some (1, s')
        \<and> rep s' (takeWhile (\<lambda>x. due s x < timeout) xs @ n # dropWhile (\<lambda>x. due s x < timeout) xs)
        \<and> due s' = (due s)(n := timeout)"
    and insertable_new: "rep s xs \<Longrightarrow> insertable s n \<Longrightarrow> n \<notin> set xs"
    and expire_rep: "rep s xs \<Longrightarrow>
      \<exists>ret s'. expire time s = Some (ret, s')
        \<and> chain s' ret = Some (takeWhile (\<lambda>x. due s x \<le> time) xs)
        \<and> rep s' (dropWhile (\<lambda>x. due s x \<le> time) xs) \<and> due s' = due s"
begin

definition in_order :: "'s \<Rightarrow> ptr list \<Rightarrow> bool" where
  "in_order s xs \<longleftrightarrow> rep s xs \<and> sorted (map (due s) xs)"

text \<open>Insertion keeps a list in the order of its timeouts.\<close>

lemma ins_in_order:
  assumes "in_order s xs" and "insertable s n"
  shows "\<exists>s' xs'. ins n timeout s = Some (1, s') \<and> in_order s' xs' \<and> set xs' = insert n (set xs)
    \<and> due s' = (due s)(n := timeout)"
proof -
  let ?p = "\<lambda>x. due s x < timeout"
  let ?xs = "takeWhile ?p xs @ n # dropWhile ?p xs"
  from assms ins_rep obtain s' where s': "ins n timeout s = Some (1, s')" "rep s' ?xs"
    "due s' = (due s)(n := timeout)" unfolding in_order_def by blast
  have n: "n \<notin> set xs" using assms insertable_new unfolding in_order_def by blast
  have "takeWhile (\<lambda>x. due s' x < due s' n) xs = takeWhile ?p xs"
    and "dropWhile (\<lambda>x. due s' x < due s' n) xs = dropWhile ?p xs"
    using n s'(3) by (auto intro!: takeWhile_cong dropWhile_cong)
  moreover have "sorted (map (due s') xs)"
    using assms(1) n s'(3) by (simp add: in_order_def map_fun_upd)
  ultimately have "sorted (map (due s') ?xs)" using sorted_insert_at [of "due s'" xs n] by simp
  then show ?thesis using s' set_insert_at [of ?p xs n] unfolding in_order_def by blast
qed

text \<open>On a list in order, expiry hands out exactly the links that are due.\<close>

lemma expire_in_order:
  assumes "in_order s xs"
  shows "\<exists>ret s' es rs. expire time s = Some (ret, s') \<and> chain s' ret = Some es \<and> in_order s' rs
    \<and> set es = {x \<in> set xs. due s x \<le> time} \<and> set rs = {x \<in> set xs. time < due s x}
    \<and> due s' = due s"
proof -
  let ?p = "\<lambda>x. due s x \<le> time"
  from assms have rep: "rep s xs" and sorted: "sorted (map (due s) xs)"
    by (auto simp: in_order_def)
  from expire_rep [OF rep] obtain ret s' where s': "expire time s = Some (ret, s')"
    "chain s' ret = Some (takeWhile ?p xs)" "rep s' (dropWhile ?p xs)" "due s' = due s"
    by blast
  have "sorted (map (due s) (takeWhile ?p xs @ dropWhile ?p xs))" using sorted by simp
  then have "in_order s' (dropWhile ?p xs)"
    using s' by (simp add: in_order_def sorted_append del: takeWhile_dropWhile_id)
  then show ?thesis
    using s' takeWhile_sorted [OF sorted] dropWhile_sorted [OF sorted] by blast
qed

end

interpretation tlq: timer_queue "\<lambda>h xs. timer_rep h t xs" tl_timeout
    "\<lambda>h n. tl_list h n = NULL \<and> n \<notin> {first_tl t, last_tl t, NULL}"
    "\<lambda>n timeout h. insert_into_timer_list n t timeout h"
    "\<lambda>time h. get_expired_from_timer_list t time h" tl_chain
  for t
proof (unfold_locales, goal_cases)
  case (1 s xs n timeout)
  then show ?case using insert_into_timer_list_rep by blast
next
  case (2 s xs n)
  then show ?case using timer_rep_mem [of s t xs n] timer_rep_addr [of s t xs] by auto
next
  case (3 s xs time)
  then show ?case using get_expired_rep by blast
qed

section \<open>Properties\<close>



lemma timer_ticker_round_single:
  assumes "unat j + 1 < 2 ^ 32"
  shows "timer_ticker_round \<lparr>jiffies = j, timer_handler_list = [t]\<rparr> =
    (if th_expires t \<le> j + 1
     then (\<lparr>jiffies = j + 1, timer_handler_list = [t\<lparr>th_expires := j + 1 + th_interval t\<rparr>]\<rparr>,
       [(timer_f t, j + 1)])
     else (\<lparr>jiffies = j + 1, timer_handler_list = [t]\<rparr>, []))"
proof -
  have "unat (j + 1) = unat j + 1" using assms by (simp add: unat_word_ariths)
  then have "\<not> j + 1 < j" by (simp add: word_less_nat_alt)
  then show ?thesis by (simp add: timer_ticker_round_def TIMER_TICK_def Let_def)
qed

lemma timer_ticker_single:
  assumes "unat j < unat (th_expires t)" and "0 < unat (th_interval t)"
    and "unat (th_expires t) \<le> unat j + unat (th_interval t)"
    and "unat j + n + unat (th_interval t) < 2 ^ 32"
  shows "snd (timer_ticker n \<lparr>jiffies = j, timer_handler_list = [t]\<rparr>) =
    map (\<lambda>i. (timer_f t, th_expires t + of_nat (i * unat (th_interval t))))
      [0..<(unat j + n + unat (th_interval t) - unat (th_expires t)) div unat (th_interval t)]"
  using assms
proof (induction n arbitrary: j t)
  case 0
  then show ?case by simp
next
  case (Suc n)
  let ?k = "unat (th_interval t)" and ?e = "unat (th_expires t)"
  have j: "unat (j + 1) = unat j + 1" using Suc.prems by (simp add: unat_word_ariths)
  note round = timer_ticker_round_single [of j t]
  show ?case
  proof (cases "th_expires t \<le> j + 1")
    case True
    then have e: "?e = unat j + 1" "th_expires t = j + 1"
      using Suc.prems j by (auto simp: word_le_nat_alt word_unat_eq_iff)
    let ?t = "t\<lparr>th_expires := j + 1 + th_interval t\<rparr>"
    have e': "unat (th_expires ?t) = unat j + 1 + ?k"
      using Suc.prems j by (simp add: unat_word_ariths)
    have IH: "snd (timer_ticker n \<lparr>jiffies = j + 1, timer_handler_list = [?t]\<rparr>) =
      map (\<lambda>i. (timer_f t, j + 1 + th_interval t + of_nat (i * ?k))) [0..<n div ?k]"
      using Suc.IH [of "j + 1" ?t] Suc.prems j e' by simp
    have "?k \<noteq> 0" using Suc.prems(2) by simp
    from div_add_self2 [OF this, of n] have "(n + ?k) div ?k = Suc (n div ?k)" by (simp only: Suc_eq_plus1)
    then have "(unat j + Suc n + ?k - ?e) div ?k = Suc (n div ?k)" unfolding e(1) by simp
    then show ?thesis
      using True round Suc.prems IH e
      by (simp add: case_prod_unfold upt_conv_Cons map_Suc_upt [symmetric] algebra_simps
          del: upt_Suc map_Suc_upt)
  next
    case False
    then have "unat (j + 1) < ?e" by (simp add: word_le_nat_alt)
    then show ?thesis using False round Suc.prems j Suc.IH [of "j + 1" t]
      by (simp add: case_prod_unfold)
  qed
qed



end
