(* ===== verification/Hash_Table.thy ===== *)
theory Hash_Table
  imports Disc_Prelude
begin

text \<open>
  hash\_table.c and hash\_table.h: tables of cells addressed by a hash code and a label. Every
  entry hands out its own labels from a counter that is never reset. The lists of an entry are
  the lists of list.h, used here as sequences (see List\_Head for the pointers); a cell is
  identified by its address. Reading an entry outside the array is the value None.
\<close>

section \<open>Data and operations\<close>

record h_link =
  hl_addr :: ptr
  hl_label :: u32
  hl_hash_code :: u32

record h_entry =
  he_lh :: "h_link list"
  he_next_label :: u32

record h_table =
  hash_size :: u32
  entrys :: "h_entry list"

text \<open>
  \<open>seed i\<close> is what \<open>time\<close> and \<open>rand\<close> give for entry \<open>i\<close>; \<open>locks\<close> tells whether \<open>create_locks\<close>
  succeeds. On a failure the C code returns 0 and keeps what it has allocated.
\<close>

definition build_htable :: "(nat \<Rightarrow> bool) \<Rightarrow> bool \<Rightarrow> (nat \<Rightarrow> u32 \<times> u32) \<Rightarrow> u32 \<Rightarrow> shm \<Rightarrow>
    h_table option \<times> shm" where
  "build_htable ok locks seed sz m =
     (let (table, m1) = shm_malloc ok m
      in if table = NULL then (None, m1)
         else let (es, m2) = shm_malloc ok m1
              in if es = NULL then (None, m2)
                 else if \<not> locks then (None, m2)
                 else (Some \<lparr>hash_size = sz, entrys = map (\<lambda>i.
                         \<lparr>he_lh = [], he_next_label =
                            push_bit 20 (fst (seed i)) OR drop_bit 12 (snd (seed i))\<rparr>)
                         [0..<unat sz]\<rparr>, m2))"

definition add_cell_to_htable :: "h_table \<Rightarrow> h_link \<Rightarrow> (int \<times> h_table \<times> h_link) option" where
  "add_cell_to_htable table link =
     (if hash_size table - 1 < hl_hash_code link then Some (- 1, table, link)
      else let i = unat (hl_hash_code link)
           in if length (entrys table) \<le> i then None
              else let e = entrys table ! i;
                       link' = link\<lparr>hl_label := he_next_label e\<rparr>;
                       e' = e\<lparr>he_lh := he_lh e @ [link'], he_next_label := he_next_label e + 1\<rparr>
                   in Some (1, table\<lparr>entrys := (entrys table)[i := e']\<rparr>, link'))"

text \<open>
  A cell that is in no list has null links; at this level, its address is in no entry.
\<close>

definition cell_in :: "h_table \<Rightarrow> ptr \<Rightarrow> bool" where
  "cell_in table a \<longleftrightarrow> (\<exists>e \<in> set (entrys table). \<exists>l \<in> set (he_lh e). hl_addr l = a)"

definition remove_cell_from_htable :: "h_table \<Rightarrow> ptr \<Rightarrow> int \<times> h_table" where
  "remove_cell_from_htable table a =
     (if \<not> cell_in table a then (- 1, table)
      else (1, table\<lparr>entrys := map (\<lambda>e. e\<lparr>he_lh := filter (\<lambda>l. hl_addr l \<noteq> a) (he_lh e)\<rparr>)
                (entrys table)\<rparr>))"

definition cell_lookup :: "h_table \<Rightarrow> u32 \<Rightarrow> u32 \<Rightarrow> h_link option option" where
  "cell_lookup table code lab =
     (if length (entrys table) \<le> unat code then None
      else Some (find (\<lambda>l. hl_label l = lab) (he_lh (entrys table ! unat code))))"

fun take_first :: "('a \<Rightarrow> bool) \<Rightarrow> 'a list \<Rightarrow> 'a option \<times> 'a list" where
  "take_first P [] = (None, [])"
| "take_first P (x # xs) =
     (if P x then (Some x, xs) else let (r, ys) = take_first P xs in (r, x # ys))"

definition cell_lookup_and_remove :: "h_table \<Rightarrow> u32 \<Rightarrow> u32 \<Rightarrow> (h_link option \<times> h_table) option" where
  "cell_lookup_and_remove table code lab =
     (if length (entrys table) \<le> unat code then None
      else let e = entrys table ! unat code;
               (r, ls) = take_first (\<lambda>l. hl_label l = lab) (he_lh e)
           in Some (r, table\<lparr>entrys := (entrys table)[unat code := e\<lparr>he_lh := ls\<rparr>]\<rparr>))"

text \<open>
  The hash function. Plain \<open>char\<close> is signed on the host, so every byte is sign extended before
  it is shifted.
\<close>

definition h_inc :: "u32 \<Rightarrow> u32 \<Rightarrow> u32" where
  "h_inc h v = h + (v XOR drop_bit 3 v)"

definition chr2u32 :: "u8 \<Rightarrow> u32" where
  "chr2u32 c = scast c"

fun hash_groups :: "bytes \<Rightarrow> u32 \<Rightarrow> u32 \<times> bytes" where
  "hash_groups (a # b # c # d # rest) h =
     hash_groups rest (h_inc h (push_bit 24 (chr2u32 a) + push_bit 16 (chr2u32 b) +
       push_bit 8 (chr2u32 c) + chr2u32 d))"
| "hash_groups rest h = (h, rest)"

definition hash :: "bytes \<Rightarrow> u32 \<Rightarrow> u32" where
  "hash s sz =
     (let (h1, rest) = hash_groups s 0;
          v = fold (\<lambda>c v. push_bit 8 v + chr2u32 c) rest 0;
          h2 = h_inc h1 v;
          h3 = (h2 + drop_bit 11 h2) + (drop_bit 13 h2 + drop_bit 23 h2)
      in h3 AND (sz - 1))"

section \<open>Well-formed tables\<close>

text \<open>
  \<open>entry_wf code n e\<close>: the cells of the entry carry its hash code and distinct labels among the
  last \<open>n\<close> labels handed out; addresses are distinct. While \<open>n\<close> is below \<open>2 ^ 32\<close> the next label
  is new.
\<close>

definition recent :: "nat \<Rightarrow> u32 \<Rightarrow> u32 \<Rightarrow> bool" where
  "recent n nxt lab \<longleftrightarrow> (\<exists>i. 0 < i \<and> i \<le> n \<and> lab = nxt - of_nat i)"

definition entry_wf :: "u32 \<Rightarrow> nat \<Rightarrow> h_entry \<Rightarrow> bool" where
  "entry_wf code n e \<longleftrightarrow>
     distinct (map hl_label (he_lh e)) \<and> distinct (map hl_addr (he_lh e)) \<and>
     (\<forall>l \<in> set (he_lh e). hl_hash_code l = code \<and> recent n (he_next_label e) (hl_label l))"

definition htable_wf :: "nat \<Rightarrow> h_table \<Rightarrow> bool" where
  "htable_wf n t \<longleftrightarrow> length (entrys t) = unat (hash_size t) \<and>
     (\<forall>i < length (entrys t). entry_wf (of_nat i) n (entrys t ! i))"

lemma htable_wf_entry: "htable_wf n t \<Longrightarrow> i < length (entrys t) \<Longrightarrow> entry_wf (of_nat i) n (entrys t ! i)"
  by (simp add: htable_wf_def)

lemma htable_wf_code:
  "htable_wf n t \<Longrightarrow> unat code < length (entrys t) \<Longrightarrow> entry_wf code n (entrys t ! unat code)"
  using htable_wf_entry [of n t "unat code"] by simp

lemma recent_mono: "recent n nxt lab \<Longrightarrow> n \<le> n' \<Longrightarrow> recent n' nxt lab"
  unfolding recent_def using le_trans by blast

lemma recent_step: "recent n nxt lab \<Longrightarrow> recent (Suc n) (nxt + 1) lab"
  unfolding recent_def by (erule exE, rule_tac x = "Suc i" in exI) simp

lemma recent_new: "recent (Suc n) (nxt + 1) nxt"
  unfolding recent_def by (rule exI [of _ 1]) simp

lemma recent_neq:
  assumes "recent n nxt lab" and "n < 2 ^ 32"
  shows "lab \<noteq> nxt"
proof
  assume "lab = nxt"
  moreover from assms obtain i where i: "0 < i" "i \<le> n" "lab = nxt - of_nat i"
    unfolding recent_def by blast
  ultimately have "(of_nat i :: u32) = 0" by simp
  moreover have "unat (of_nat i :: u32) = i" using i assms(2) by (intro unat_of_nat_u32) simp
  ultimately show False using i(1) by simp
qed

lemma entry_wf_mono: "entry_wf code n e \<Longrightarrow> n \<le> n' \<Longrightarrow> entry_wf code n' e"
  unfolding entry_wf_def using recent_mono by blast

lemma htable_wf_mono: "htable_wf n t \<Longrightarrow> n \<le> n' \<Longrightarrow> htable_wf n' t"
  unfolding htable_wf_def using entry_wf_mono by blast

lemma build_htable_wf: "build_htable ok locks seed sz m = (Some t, m') \<Longrightarrow> htable_wf 0 t \<and> hash_size t = sz"
  by (auto simp: build_htable_def htable_wf_def entry_wf_def Let_def split: prod.splits if_splits)

text \<open>The next label differs from the labels in use.\<close>

lemma next_label_fresh:
  "entry_wf code n e \<Longrightarrow> n < 2 ^ 32 \<Longrightarrow> l \<in> set (he_lh e) \<Longrightarrow> hl_label l \<noteq> he_next_label e"
  unfolding entry_wf_def using recent_neq by blast

lemma entry_wf_add:
  assumes "entry_wf code n e" and "n < 2 ^ 32" and "hl_addr l \<notin> hl_addr ` set (he_lh e)"
    and "hl_hash_code l = code"
  shows "entry_wf code (Suc n)
    (e\<lparr>he_lh := he_lh e @ [l\<lparr>hl_label := he_next_label e\<rparr>], he_next_label := he_next_label e + 1\<rparr>)"
proof -
  have "he_next_label e \<notin> hl_label ` set (he_lh e)"
    using next_label_fresh [OF assms(1,2)] by (metis imageE)
  then show ?thesis
    using assms recent_step recent_new by (auto simp: entry_wf_def)
qed

lemma entry_wf_subseq:
  assumes "entry_wf code n e" and "set ls \<subseteq> set (he_lh e)"
    and "distinct (map hl_label ls)" and "distinct (map hl_addr ls)"
  shows "entry_wf code n (e\<lparr>he_lh := ls\<rparr>)"
  using assms unfolding entry_wf_def by auto

lemma entry_wf_filter: "entry_wf code n e \<Longrightarrow> entry_wf code n (e\<lparr>he_lh := filter P (he_lh e)\<rparr>)"
  by (rule entry_wf_subseq) (auto simp: entry_wf_def distinct_map_filter)

lemma take_first_find: "fst (take_first P xs) = find P xs"
  by (induction xs) (auto simp: case_prod_unfold)

lemma take_first_filter:
  "distinct (map f xs) \<Longrightarrow> snd (take_first (\<lambda>x. f x = v) xs) = filter (\<lambda>x. f x \<noteq> v) xs"
proof (induction xs)
  case Nil
  then show ?case by simp
next
  case (Cons x xs)
  then have "f x = v \<Longrightarrow> filter (\<lambda>x. f x \<noteq> v) xs = xs"
    by (metis (mono_tags, lifting) distinct.simps(2) filter_True image_eqI list.set_map list.simps(9))
  with Cons show ?case by (auto simp: case_prod_unfold)
qed

lemma find_filter_neq: "v \<noteq> w \<Longrightarrow> find (\<lambda>x. f x = v) (filter (\<lambda>x. f x \<noteq> w) xs) = find (\<lambda>x. f x = v) xs"
  by (induction xs) auto

lemma find_filter_self: "find (\<lambda>x. f x = v) (filter (\<lambda>x. f x \<noteq> v) xs) = None"
  by (auto simp: find_None_iff)

lemma find_append: "find P (xs @ ys) = (case find P xs of None \<Rightarrow> find P ys | Some x \<Rightarrow> Some x)"
  by (induction xs) auto

section \<open>Codes, adding and removing\<close>

text \<open>A hash code computed for the size of the table is an index of the table.\<close>

lemma hash_less: "0 < sz \<Longrightarrow> hash s sz < sz"
proof -
  assume "0 < sz"
  then have "unat (sz - 1) = unat sz - 1" "0 < unat sz"
    by (auto simp: unat_minus_one unat_gt_0 word_gt_0)
  then have "sz - 1 < sz" unfolding word_less_nat_alt by linarith
  moreover have "x AND (sz - 1) \<le> sz - 1" for x by (rule word_and_le1)
  ultimately show ?thesis by (auto simp: hash_def Let_def case_prod_unfold intro: le_less_trans)
qed

abbreviation (input) valid_code :: "h_table \<Rightarrow> u32 \<Rightarrow> bool" where
  "valid_code t code \<equiv> unat code < length (entrys t)"

lemma valid_code_guard:
  assumes "htable_wf n t" and "valid_code t code"
  shows "\<not> hash_size t - 1 < code"
proof -
  have "unat code < unat (hash_size t)" using assms by (simp add: htable_wf_def)
  moreover from this have "hash_size t \<noteq> 0" by auto
  ultimately have "unat code \<le> unat (hash_size t - 1)" by (simp add: unat_minus_one)
  then show ?thesis by (simp add: word_less_nat_alt)
qed

lemma hash_valid_code: "htable_wf n t \<Longrightarrow> hash_size t \<noteq> 0 \<Longrightarrow> valid_code t (hash s (hash_size t))"
  using hash_less [of "hash_size t" s] unfolding htable_wf_def word_less_nat_alt word_gt_0
  by (simp add: unat_gt_0)

lemma add_cell_eq:
  assumes "htable_wf n t" and "valid_code t (hl_hash_code l)"
  shows "add_cell_to_htable t l =
    (let i = unat (hl_hash_code l); e = entrys t ! i; l' = l\<lparr>hl_label := he_next_label e\<rparr>
     in Some (1, t\<lparr>entrys := (entrys t)[i := e\<lparr>he_lh := he_lh e @ [l'],
          he_next_label := he_next_label e + 1\<rparr>]\<rparr>, l'))"
  using assms valid_code_guard [OF assms] by (simp add: add_cell_to_htable_def Let_def)

lemma add_cell_size: "add_cell_to_htable t l = Some (r, t', l') \<Longrightarrow> hash_size t' = hash_size t"
  by (auto simp: add_cell_to_htable_def Let_def split: if_splits)

lemma htable_wf_update:
  assumes "htable_wf n t" and "n \<le> n'" and "valid_code t code" and "entry_wf code n' e"
  shows "htable_wf n' (t\<lparr>entrys := (entrys t)[unat code := e]\<rparr>)"
  using assms htable_wf_mono [OF assms(1,2)] by (auto simp: htable_wf_def nth_list_update)

lemma add_cell_wf:
  assumes "htable_wf n t" and "n < 2 ^ 32" and "valid_code t (hl_hash_code l)"
    and "\<not> cell_in t (hl_addr l)" and "add_cell_to_htable t l = Some (r, t', l')"
  shows "htable_wf (Suc n) t'"
proof -
  let ?e = "entrys t ! unat (hl_hash_code l)"
  have "hl_addr l \<notin> hl_addr ` set (he_lh ?e)"
    using assms(3,4) unfolding cell_in_def by fastforce
  then show ?thesis
    using assms(5) add_cell_eq [OF assms(1,3)]
      htable_wf_update [OF assms(1) _ assms(3) entry_wf_add [OF htable_wf_code [OF assms(1,3)] assms(2)]]
    by (auto simp: Let_def)
qed

lemma add_cell_lookup:
  assumes "htable_wf n t" and "n < 2 ^ 32" and "valid_code t (hl_hash_code l)"
    and "add_cell_to_htable t l = Some (r, t', l')"
  shows "r = 1" and "hl_addr l' = hl_addr l" and "hl_hash_code l' = hl_hash_code l"
    and "cell_lookup t (hl_hash_code l) (hl_label l') = Some None"
    and "cell_lookup t' (hl_hash_code l) (hl_label l') = Some (Some l')"
    and "(code, lab) \<noteq> (hl_hash_code l, hl_label l') \<Longrightarrow> cell_lookup t' code lab = cell_lookup t code lab"
proof -
  let ?i = "unat (hl_hash_code l)"
  let ?e = "entrys t ! ?i"
  have l': "l' = l\<lparr>hl_label := he_next_label ?e\<rparr>" and r: "r = 1"
    and t': "t' = t\<lparr>entrys := (entrys t)[?i := ?e\<lparr>he_lh := he_lh ?e @ [l'],
        he_next_label := he_next_label ?e + 1\<rparr>]\<rparr>"
    using assms(4) add_cell_eq [OF assms(1,3)] by (auto simp: Let_def)
  have none: "find (\<lambda>x. hl_label x = he_next_label ?e) (he_lh ?e) = None"
    using next_label_fresh [OF htable_wf_code [OF assms(1,3)] assms(2)] by (auto simp: find_None_iff)
  show "r = 1" by (fact r)
  show "hl_addr l' = hl_addr l" and "hl_hash_code l' = hl_hash_code l" by (simp_all add: l')
  show "cell_lookup t (hl_hash_code l) (hl_label l') = Some None"
    using assms(3) none by (simp add: cell_lookup_def l')
  show "cell_lookup t' (hl_hash_code l) (hl_label l') = Some (Some l')"
    using assms(3) none by (simp add: cell_lookup_def t' l' find_append)
  show "cell_lookup t' code lab = cell_lookup t code lab"
    if "(code, lab) \<noteq> (hl_hash_code l, hl_label l')"
    using that assms(3)
    by (auto simp: cell_lookup_def t' l' find_append nth_list_update word_unat_eq_iff
        split: option.splits)
qed

lemma lookup_and_remove_eq:
  assumes "htable_wf n t" and "valid_code t code"
  shows "cell_lookup_and_remove t code lab =
    (let e = entrys t ! unat code
     in Some (find (\<lambda>l. hl_label l = lab) (he_lh e),
          t\<lparr>entrys := (entrys t)[unat code := e\<lparr>he_lh := filter (\<lambda>l. hl_label l \<noteq> lab) (he_lh e)\<rparr>]\<rparr>))"
proof -
  have "distinct (map hl_label (he_lh (entrys t ! unat code)))"
    using htable_wf_code [OF assms] by (simp add: entry_wf_def)
  from take_first_filter [OF this, of lab] show ?thesis
    using assms(2) take_first_find [of "\<lambda>l. hl_label l = lab" "he_lh (entrys t ! unat code)"]
    by (simp add: cell_lookup_and_remove_def case_prod_unfold Let_def)
qed

lemma lookup_and_remove:
  assumes "htable_wf n t" and "valid_code t code"
    and "cell_lookup_and_remove t code lab = Some (r, t')"
  shows "cell_lookup t code lab = Some r" and "htable_wf n t'"
    and "cell_lookup t' code lab = Some None"
    and "(code', lab') \<noteq> (code, lab) \<Longrightarrow> cell_lookup t' code' lab' = cell_lookup t code' lab'"
proof -
  let ?e = "entrys t ! unat code"
  have r: "r = find (\<lambda>l. hl_label l = lab) (he_lh ?e)"
    and t': "t' = t\<lparr>entrys := (entrys t)[unat code := ?e\<lparr>he_lh := filter (\<lambda>l. hl_label l \<noteq> lab) (he_lh ?e)\<rparr>]\<rparr>"
    using assms(3) lookup_and_remove_eq [OF assms(1,2)] by (auto simp: Let_def)
  show "cell_lookup t code lab = Some r" using assms(2) by (simp add: cell_lookup_def r)
  show "htable_wf n t'"
    unfolding t'
    by (rule htable_wf_update [OF assms(1) _ assms(2) entry_wf_filter [OF htable_wf_code [OF assms(1,2)]]]) simp
  show "cell_lookup t' code lab = Some None"
    using assms(2) by (simp add: cell_lookup_def t' find_filter_self)
  show "cell_lookup t' code' lab' = cell_lookup t code' lab'" if "(code', lab') \<noteq> (code, lab)"
    using that assms(2)
    by (auto simp: cell_lookup_def t' nth_list_update word_unat_eq_iff find_filter_neq)
qed

lemma remove_cell_wf:
  assumes "htable_wf n t"
  shows "htable_wf n (snd (remove_cell_from_htable t a))"
  using assms entry_wf_filter
  by (auto simp: htable_wf_def remove_cell_from_htable_def)

lemma remove_cell_gone: "\<not> cell_in (snd (remove_cell_from_htable t a)) a"
  by (auto simp: remove_cell_from_htable_def cell_in_def)

section \<open>The interface\<close>

text \<open>
  Sessions and transactions are kept in a store of cells: adding a cell under a hash code
  gives it a label; code and label find it again; taking it out finds it and removes it in
  one step. \<open>wf n\<close> says that the store is well-formed and has handed out at most \<open>n\<close> labels
  per entry.
\<close>

locale cell_store =
  fixes wf :: "nat \<Rightarrow> 't \<Rightarrow> bool"
    and valid :: "'t \<Rightarrow> u32 \<Rightarrow> bool"
    and present :: "'t \<Rightarrow> ptr \<Rightarrow> bool"
    and add :: "'t \<Rightarrow> h_link \<Rightarrow> (int \<times> 't \<times> h_link) option"
    and look :: "'t \<Rightarrow> u32 \<Rightarrow> u32 \<Rightarrow> h_link option option"
    and take_out :: "'t \<Rightarrow> u32 \<Rightarrow> u32 \<Rightarrow> (h_link option \<times> 't) option"
  assumes add_total: "wf n t \<Longrightarrow> valid t (hl_hash_code l) \<Longrightarrow> \<exists>t' l'. add t l = Some (1, t', l')"
    and add_wf: "wf n t \<Longrightarrow> n < 2 ^ 32 \<Longrightarrow> valid t (hl_hash_code l) \<Longrightarrow> \<not> present t (hl_addr l) \<Longrightarrow>
      add t l = Some (r, t', l') \<Longrightarrow> wf (Suc n) t'"
    and add_valid: "wf n t \<Longrightarrow> add t l = Some (r, t', l') \<Longrightarrow> valid t' = valid t"
    and add_link: "wf n t \<Longrightarrow> valid t (hl_hash_code l) \<Longrightarrow> add t l = Some (r, t', l') \<Longrightarrow>
      hl_addr l' = hl_addr l \<and> hl_hash_code l' = hl_hash_code l"
    and add_look: "wf n t \<Longrightarrow> n < 2 ^ 32 \<Longrightarrow> valid t (hl_hash_code l) \<Longrightarrow> add t l = Some (r, t', l') \<Longrightarrow>
      look t' code lab = (if (code, lab) = (hl_hash_code l, hl_label l') then Some (Some l')
        else look t code lab)"
    and take_total: "wf n t \<Longrightarrow> valid t code \<Longrightarrow> \<exists>x t'. take_out t code lab = Some (x, t')"
    and take_wf: "wf n t \<Longrightarrow> valid t code \<Longrightarrow> take_out t code lab = Some (x, t') \<Longrightarrow> wf n t'"
    and take_valid: "take_out t code lab = Some (x, t') \<Longrightarrow> valid t' = valid t"
    and take_look: "wf n t \<Longrightarrow> valid t code \<Longrightarrow> take_out t code lab = Some (x, t') \<Longrightarrow> look t code lab = Some x"
    and take_gone: "wf n t \<Longrightarrow> valid t code \<Longrightarrow> take_out t code lab = Some (x, t') \<Longrightarrow>
      look t' code' lab' = (if (code', lab') = (code, lab) then Some None else look t code' lab')"
begin

text \<open>What was added is taken out exactly once.\<close>

lemma add_take_once:
  assumes "wf n t" and "n < 2 ^ 32" and "valid t (hl_hash_code l)" and "\<not> present t (hl_addr l)"
  shows "\<exists>t1 l' t2 t3. add t l = Some (1, t1, l') \<and> hl_addr l' = hl_addr l
    \<and> take_out t1 (hl_hash_code l) (hl_label l') = Some (Some l', t2)
    \<and> take_out t2 (hl_hash_code l) (hl_label l') = Some (None, t3)"
proof -
  let ?c = "hl_hash_code l"
  from add_total assms obtain t1 l' where a: "add t l = Some (1, t1, l')" by blast
  have w1: "wf (Suc n) t1" and v1: "valid t1 ?c" and l': "hl_addr l' = hl_addr l"
    using add_wf [OF assms a] add_valid [OF assms(1) a] add_link [OF assms(1,3) a] assms(3) by auto
  from take_total [OF w1 v1] obtain r t2 where t2: "take_out t1 ?c (hl_label l') = Some (r, t2)"
    by blast
  have r: "r = Some l'"
    using take_look [OF w1 v1 t2] add_look [OF assms(1-3) a, of ?c "hl_label l'"] by simp
  have w2: "wf (Suc n) t2" and v2: "valid t2 ?c"
    using take_wf [OF w1 v1 t2] take_valid [OF t2] v1 by auto
  from take_total [OF w2 v2] obtain q t3 where t3: "take_out t2 ?c (hl_label l') = Some (q, t3)"
    by blast
  have "q = None"
    using take_look [OF w2 v2 t3] take_gone [OF w1 v1 t2, of ?c "hl_label l'"] by simp
  with a l' t2 r t3 show ?thesis by blast
qed

text \<open>Cells added under other keys stay where they are.\<close>

lemma add_keeps:
  assumes "wf n t" and "n < 2 ^ 32" and "valid t (hl_hash_code l)" and "look t code lab = Some (Some x)"
    and "look t (hl_hash_code l) (hl_label l') = Some None" and "add t l = Some (r, t', l')"
  shows "look t' code lab = Some (Some x)"
  using add_look [OF assms(1-3,6), of code lab] assms(4,5) by auto

end

interpretation ht: cell_store htable_wf "\<lambda>t c. unat c < length (entrys t)" cell_in
  add_cell_to_htable cell_lookup cell_lookup_and_remove
proof (unfold_locales, goal_cases)
  case (1 n t l)
  then show ?case by (simp add: add_cell_eq Let_def)
next
  case (2 n t l r t' l')
  then show ?case by (rule add_cell_wf)
next
  case (3 n t l r t' l')
  then show ?case by (auto simp: add_cell_to_htable_def Let_def split: if_splits)
next
  case (4 n t l r t' l')
  then show ?case using add_cell_eq [of n t l] by (auto simp: Let_def)
next
  case (5 n t l r t' l' code lab)
  then show ?case
    using add_cell_lookup(5) [of n t l r t' l'] add_cell_lookup(6) [of n t l r t' l' code lab] by auto
next
  case (6 n t code lab)
  then show ?case by (simp add: lookup_and_remove_eq Let_def)
next
  case (7 n t code lab r t')
  then show ?case by (rule lookup_and_remove)
next
  case (8 t code lab r t')
  then show ?case
    by (auto simp: cell_lookup_and_remove_def Let_def case_prod_unfold split: if_splits)
next
  case (9 n t code lab r t')
  then show ?case by (rule lookup_and_remove)
next
  case (10 n t code lab r t' code' lab')
  then show ?case
    using lookup_and_remove(3) [of n t code lab r t']
      lookup_and_remove(4) [of n t code lab r t' code' lab'] by auto
qed

section \<open>Properties\<close>

text \<open>
  (C5) The hash table delivers every cell exactly once: a cell whose code is the hash of some
  text for the size of the table is always accepted, gets a label that no cell of its entry
  carries, and the first \<open>cell_lookup_and_remove\<close> with its code and label returns that very
  cell while a second one returns nothing. This holds as long as the label counter of the
  entry has not run through all \<open>2 ^ 32\<close> values.
\<close>

theorem htable_cell_once:
  assumes "htable_wf n t" and "hash_size t \<noteq> 0" and "n < 2 ^ 32" and "\<not> cell_in t a"
  shows "\<exists>t1 l t2 t3.
    add_cell_to_htable t \<lparr>hl_addr = a, hl_label = 0, hl_hash_code = hash s (hash_size t)\<rparr> = Some (1, t1, l)
    \<and> hl_addr l = a \<and> cell_lookup t (hash s (hash_size t)) (hl_label l) = Some None
    \<and> cell_lookup_and_remove t1 (hash s (hash_size t)) (hl_label l) = Some (Some l, t2)
    \<and> cell_lookup_and_remove t2 (hash s (hash_size t)) (hl_label l) = Some (None, t3)"
proof -
  let ?l = "\<lparr>hl_addr = a, hl_label = 0, hl_hash_code = hash s (hash_size t)\<rparr>"
  have v: "unat (hl_hash_code ?l) < length (entrys t)"
    using hash_valid_code [OF assms(1,2)] by simp
  from ht.add_take_once [OF assms(1,3) v] assms(4) obtain t1 l t2 t3 where
    ts: "add_cell_to_htable t ?l = Some (1, t1, l)" "hl_addr l = a"
      "cell_lookup_and_remove t1 (hash s (hash_size t)) (hl_label l) = Some (Some l, t2)"
      "cell_lookup_and_remove t2 (hash s (hash_size t)) (hl_label l) = Some (None, t3)"
    by auto
  moreover have "cell_lookup t (hash s (hash_size t)) (hl_label l) = Some None"
    using add_cell_lookup(4) [OF assms(1,3) v ts(1)] by simp
  ultimately show ?thesis by blast
qed

theorem htable_cell_once_witness:
  "\<exists>t1 l t2 t3.
    add_cell_to_htable \<lparr>hash_size = 2, entrys = [\<lparr>he_lh = [], he_next_label = 7\<rparr>, \<lparr>he_lh = [], he_next_label = - 1\<rparr>]\<rparr>
      \<lparr>hl_addr = 5, hl_label = 0, hl_hash_code = hash [1, 2, 3, 4, 255] 2\<rparr> = Some (1, t1, l)
    \<and> hl_addr l = 5
    \<and> cell_lookup_and_remove t1 (hash [1, 2, 3, 4, 255] 2) (hl_label l) = Some (Some l, t2)
    \<and> cell_lookup_and_remove t2 (hash [1, 2, 3, 4, 255] 2) (hl_label l) = Some (None, t3)"
proof -
  let ?t = "\<lparr>hash_size = 2, entrys = [\<lparr>he_lh = [], he_next_label = 7\<rparr>, \<lparr>he_lh = [], he_next_label = - 1\<rparr>]\<rparr> :: h_table"
  have "htable_wf 0 ?t"
    by (auto simp: htable_wf_def entry_wf_def nth_Cons')
  then show ?thesis
    using htable_cell_once [of 0 ?t 5 "[1, 2, 3, 4, 255]"] by (auto simp: cell_in_def)
qed

end
