(* ===== verification/Diameter_Msg.thy ===== *)
theory Diameter_Msg
  imports Utils
begin

text \<open>
  diameter\_msg.h and avp.c: the types of Diameter messages and the operations on AVPs and on
  the AVP list of a message. A list is the sequence of its AVPs from head to tail; Avp\_List
  relates it to the \<open>next\<close> and \<open>prev\<close> pointers. An AVP carries its address, which is what the
  shortcuts of a message and the \<open>position\<close> parameters hold. A pointer parameter that the code
  compares with null is an option, or an address where only the address is used. The AVP's
  \<open>str data\<close> is the address and the bytes found there.
\<close>

section \<open>Types and constants of diameter\_msg.h\<close>

type_synonym AAAReturnCode = int
type_synonym AAA_AVPCode = u32
type_synonym AAAVendorId = u32

abbreviation (input) AAA_ERR_NOT_FOUND :: int where "AAA_ERR_NOT_FOUND \<equiv> - 2"
abbreviation (input) AAA_ERR_FAILURE :: int where "AAA_ERR_FAILURE \<equiv> - 1"
abbreviation (input) AAA_ERR_SUCCESS :: int where "AAA_ERR_SUCCESS \<equiv> 0"
abbreviation (input) AAA_ERR_NOMEM :: int where "AAA_ERR_NOMEM \<equiv> 1"
abbreviation (input) AAA_ERR_PROTO :: int where "AAA_ERR_PROTO \<equiv> 2"
abbreviation (input) AAA_ERR_PARAMETER :: int where "AAA_ERR_PARAMETER \<equiv> 4"

datatype AAA_AVPDataType =
    AAA_AVP_DATA_TYPE
  | AAA_AVP_STRING_TYPE
  | AAA_AVP_ADDRESS_TYPE
  | AAA_AVP_INTEGER32_TYPE
  | AAA_AVP_INTEGER64_TYPE
  | AAA_AVP_TIME_TYPE

datatype AAASearchType = AAA_FORWARD_SEARCH | AAA_BACKWARD_SEARCH

datatype AVPDataStatus = AVP_DUPLICATE_DATA | AVP_DONT_FREE_DATA | AVP_FREE_DATA

datatype packet_type = AAA_RADIUS | AAA_DIAMETER

abbreviation AAA_AVP_FLAG_VENDOR_SPECIFIC :: u32 where "AAA_AVP_FLAG_VENDOR_SPECIFIC \<equiv> 0x80"

abbreviation AAA_SUCCESS :: u32 where "AAA_SUCCESS \<equiv> 2001"

abbreviation AVP_Session_Id :: u32 where "AVP_Session_Id \<equiv> 263"
abbreviation AVP_Origin_Host :: u32 where "AVP_Origin_Host \<equiv> 264"
abbreviation AVP_Result_Code :: u32 where "AVP_Result_Code \<equiv> 268"
abbreviation AVP_Auth_Session_State :: u32 where "AVP_Auth_Session_State \<equiv> 277"
abbreviation AVP_Destination_Realm :: u32 where "AVP_Destination_Realm \<equiv> 283"
abbreviation AVP_Proxy_Info :: u32 where "AVP_Proxy_Info \<equiv> 284"
abbreviation AVP_Destination_Host :: u32 where "AVP_Destination_Host \<equiv> 293"
abbreviation AVP_Origin_Realm :: u32 where "AVP_Origin_Realm \<equiv> 296"

definition AAA_MSG_HDR_SIZE :: nat where
  "AAA_MSG_HDR_SIZE = 1 + 3 + 1 + 3 + 4 + 4 + 4"

definition AVP_HDR_SIZE :: "u32 \<Rightarrow> nat" where
  "AVP_HDR_SIZE fl = 4 + 1 + 3 + (if fl AND AAA_AVP_FLAG_VENDOR_SPECIFIC \<noteq> 0 then 4 else 0)"

record AAA_AVP =
  avp_addr :: ptr
  packetType :: packet_type
  avp_code :: AAA_AVPCode
  avp_flags :: u32
  avp_type :: AAA_AVPDataType
  avp_vendorId :: AAAVendorId
  avp_data_s :: ptr
  avp_data :: bytes
  free_it :: bool

record AAAMessage =
  msg_addr :: ptr
  msg_flags :: u8
  commandCode :: u32
  applicationId :: u32
  endtoendId :: u32
  hopbyhopId :: u32
  sId :: ptr
  msg_sessionId :: ptr
  orig_host :: ptr
  orig_realm :: ptr
  dest_host :: ptr
  dest_realm :: ptr
  res_code :: ptr
  auth_ses_state :: ptr
  avpList :: "AAA_AVP list"
  buf_s :: ptr
  msg_buf :: bytes
  in_peer :: ptr

definition is_req :: "AAAMessage \<Rightarrow> bool" where
  "is_req msg \<longleftrightarrow> msg_flags msg AND 0x80 \<noteq> 0"

text \<open>A structure after \<open>memset(msg,0,sizeof(AAAMessage))\<close>.\<close>

definition zero_msg :: "ptr \<Rightarrow> AAAMessage" where
  "zero_msg a = \<lparr>msg_addr = a, msg_flags = 0, commandCode = 0, applicationId = 0, endtoendId = 0,
     hopbyhopId = 0, sId = NULL, msg_sessionId = NULL, orig_host = NULL, orig_realm = NULL,
     dest_host = NULL, dest_realm = NULL, res_code = NULL, auth_ses_state = NULL, avpList = [],
     buf_s = NULL, msg_buf = [], in_peer = NULL\<rparr>"

section \<open>Operations of avp.c\<close>

definition set_avp_fields :: "u32 \<Rightarrow> AAA_AVP \<Rightarrow> AAA_AVP" where
  "set_avp_fields code avp =
     (if code \<in> {1, 25, 263, 283, 293, 264, 296} then
        avp\<lparr>avp_flags := 0x40 OR (0x20 AND avp_flags avp), avp_type := AAA_AVP_STRING_TYPE\<rparr>
      else if code \<in> {27, 258, 262, 265, 266, 268, 270, 276, 278, 291} then
        avp\<lparr>avp_flags := 0x40 OR (0x20 AND avp_flags avp), avp_type := AAA_AVP_INTEGER32_TYPE\<rparr>
      else if code = 33 then avp\<lparr>avp_flags := 0x40, avp_type := AAA_AVP_STRING_TYPE\<rparr>
      else if code = 257 then
        avp\<lparr>avp_flags := 0x40 OR (0x20 AND avp_flags avp), avp_type := AAA_AVP_ADDRESS_TYPE\<rparr>
      else if code = 269 then avp\<lparr>avp_flags := 0x00, avp_type := AAA_AVP_STRING_TYPE\<rparr>
      else if code = 281 then
        avp\<lparr>avp_flags := 0x20 AND avp_flags avp, avp_type := AAA_AVP_STRING_TYPE\<rparr>
      else avp\<lparr>avp_type := AAA_AVP_DATA_TYPE\<rparr>)"

text \<open>
  \<open>data_s\<close> is the pointer passed as \<open>data\<close>, \<open>data\<close> the \<open>length\<close> bytes it points to. When the
  duplicate cannot be allocated the code returns null and keeps the AVP structure.
\<close>

definition AAACreateAVP :: "(nat \<Rightarrow> bool) \<Rightarrow> u32 \<Rightarrow> u32 \<Rightarrow> u32 \<Rightarrow> ptr \<Rightarrow> bytes \<Rightarrow> AVPDataStatus \<Rightarrow> shm \<Rightarrow>
    AAA_AVP option \<times> shm" where
  "AAACreateAVP ok code fl vendorId data_s data data_status m =
     (if data_s = NULL \<or> length data = 0 then (None, m)
      else let (a, m1) = shm_malloc ok m
        in if a = NULL then (None, m1)
           else let avp = set_avp_fields code \<lparr>avp_addr = a, packetType = AAA_DIAMETER,
                  avp_code = code, avp_flags = fl, avp_type = AAA_AVP_DATA_TYPE,
                  avp_vendorId = vendorId, avp_data_s = NULL, avp_data = [], free_it = False\<rparr>
             in if data_status = AVP_DUPLICATE_DATA then
                  (let (d, m2) = shm_malloc ok m1
                   in if d = NULL then (None, m2)
                      else (Some (avp\<lparr>avp_data_s := d, avp_data := data, free_it := True\<rparr>), m2))
                else (Some (avp\<lparr>avp_data_s := data_s, avp_data := data,
                        free_it := (data_status = AVP_FREE_DATA)\<rparr>), m1))"

definition set_shortcut :: "u32 \<Rightarrow> ptr \<Rightarrow> AAAMessage \<Rightarrow> AAAMessage" where
  "set_shortcut code p msg =
     (if code = AVP_Session_Id then msg\<lparr>msg_sessionId := p\<rparr>
      else if code = AVP_Origin_Host then msg\<lparr>orig_host := p\<rparr>
      else if code = AVP_Origin_Realm then msg\<lparr>orig_realm := p\<rparr>
      else if code = AVP_Destination_Host then msg\<lparr>dest_host := p\<rparr>
      else if code = AVP_Destination_Realm then msg\<lparr>dest_realm := p\<rparr>
      else if code = AVP_Result_Code then msg\<lparr>res_code := p\<rparr>
      else if code = AVP_Auth_Session_State then msg\<lparr>auth_ses_state := p\<rparr>
      else msg)"

fun insert_after :: "ptr \<Rightarrow> AAA_AVP \<Rightarrow> AAA_AVP list \<Rightarrow> AAA_AVP list option" where
  "insert_after position avp [] = None"
| "insert_after position avp (x # xs) =
     (if avp_addr x = position then Some (x # avp # xs)
      else map_option ((#) x) (insert_after position avp xs))"

definition AAAAddAVPToMessage :: "AAAMessage option \<Rightarrow> AAA_AVP option \<Rightarrow> ptr \<Rightarrow>
    AAAReturnCode \<times> AAAMessage option" where
  "AAAAddAVPToMessage msg avp position =
     (case (msg, avp) of
        (Some m, Some a) \<Rightarrow>
          (if position = NULL then
             (AAA_ERR_SUCCESS, Some (set_shortcut (avp_code a) (avp_addr a) (m\<lparr>avpList := a # avpList m\<rparr>)))
           else case insert_after position a (avpList m) of
               None \<Rightarrow> (AAA_ERR_PARAMETER, msg)
             | Some l \<Rightarrow> (AAA_ERR_SUCCESS, Some (set_shortcut (avp_code a) (avp_addr a) (m\<lparr>avpList := l\<rparr>))))
      | _ \<Rightarrow> (AAA_ERR_PARAMETER, msg))"

text \<open>The tail pointer of the list, as passed for \<open>position\<close> to append.\<close>

definition avp_tail :: "AAAMessage \<Rightarrow> ptr" where
  "avp_tail msg = (if avpList msg = [] then NULL else avp_addr (last (avpList msg)))"

fun avps_from :: "ptr \<Rightarrow> AAA_AVP list \<Rightarrow> AAA_AVP list option" where
  "avps_from p [] = None"
| "avps_from p (x # xs) = (if avp_addr x = p then Some (x # xs) else avps_from p xs)"

definition AAAFindMatchingAVP :: "AAAMessage option \<Rightarrow> ptr \<Rightarrow> u32 \<Rightarrow> u32 \<Rightarrow> AAASearchType \<Rightarrow>
    AAA_AVP option" where
  "AAAFindMatchingAVP msg startAvp avpCode vendorId searchType =
     (case msg of
        None \<Rightarrow> None
      | Some m \<Rightarrow>
          let l = (if searchType = AAA_FORWARD_SEARCH then avpList m else rev (avpList m));
              matches = (\<lambda>a. avp_code a = avpCode \<and> avp_vendorId a = vendorId)
          in if startAvp = NULL then find matches l
             else case avps_from startAvp l of
                 None \<Rightarrow> None
               | Some xs \<Rightarrow> find matches xs)"

definition AAARemoveAVPFromMessage :: "AAAMessage option \<Rightarrow> AAA_AVP option \<Rightarrow>
    AAAReturnCode \<times> AAAMessage option" where
  "AAARemoveAVPFromMessage msg avp =
     (case (msg, avp) of
        (Some m, Some a) \<Rightarrow>
          (if avps_from (avp_addr a) (avpList m) = None then (AAA_ERR_PARAMETER, msg)
           else (AAA_ERR_SUCCESS, Some (set_shortcut (avp_code a) NULL
             (m\<lparr>avpList := filter (\<lambda>x. avp_addr x \<noteq> avp_addr a) (avpList m)\<rparr>))))
      | _ \<Rightarrow> (AAA_ERR_PARAMETER, msg))"

definition AAAFreeAVP :: "AAA_AVP option \<Rightarrow> shm \<Rightarrow> AAAReturnCode \<times> shm" where
  "AAAFreeAVP avp m =
     (case avp of
        None \<Rightarrow> (AAA_ERR_PARAMETER, m)
      | Some a \<Rightarrow>
          (let m1 = (if free_it a \<and> avp_data_s a \<noteq> NULL then shm_free (avp_data_s a) m else m)
           in (AAA_ERR_SUCCESS, shm_free (avp_addr a) m1)))"

definition AAAGetFirstAVP :: "AAA_AVP list \<Rightarrow> AAA_AVP option" where
  "AAAGetFirstAVP l = (if l = [] then None else Some (hd l))"

definition AAAGetLastAVP :: "AAA_AVP list \<Rightarrow> AAA_AVP option" where
  "AAAGetLastAVP l = (if l = [] then None else Some (last l))"

fun AAAGetNextAVP :: "AAA_AVP list \<Rightarrow> ptr \<Rightarrow> AAA_AVP option" where
  "AAAGetNextAVP (x # y # l) a = (if avp_addr x = a then Some y else AAAGetNextAVP (y # l) a)"
| "AAAGetNextAVP _ a = None"

definition AAAGetPrevAVP :: "AAA_AVP list \<Rightarrow> ptr \<Rightarrow> AAA_AVP option" where
  "AAAGetPrevAVP l a = AAAGetNextAVP (rev l) a"

definition AAACloneAVP :: "(nat \<Rightarrow> bool) \<Rightarrow> AAA_AVP option \<Rightarrow> bool \<Rightarrow> shm \<Rightarrow> AAA_AVP option \<times> shm" where
  "AAACloneAVP ok avp clone_data m =
     (case avp of
        None \<Rightarrow> (None, m)
      | Some a \<Rightarrow>
          if avp_data_s a = NULL \<or> length (avp_data a) = 0 then (None, m)
          else let (n, m1) = shm_malloc ok m
            in if n = NULL then (None, m1)
               else if clone_data then
                 (let (d, m2) = shm_malloc ok m1
                  in if d = NULL then (None, shm_free n m2)
                     else (Some (a\<lparr>avp_addr := n, avp_data_s := d, free_it := True\<rparr>), m2))
               else (Some (a\<lparr>avp_addr := n, free_it := False\<rparr>), m1))"


section \<open>Lists with a marked position\<close>

lemma insert_after_append:
  "position \<notin> avp_addr ` set xs \<Longrightarrow>
   insert_after position a (xs @ ys) = map_option ((@) xs) (insert_after position a ys)"
  by (induction xs) (cases "insert_after position a ys"; auto)+

lemma insert_after_None: "insert_after position a xs = None \<longleftrightarrow> position \<notin> avp_addr ` set xs"
  by (induction xs) auto

lemma insert_after_set: "insert_after position a xs = Some ys \<Longrightarrow> set ys = insert a (set xs)"
  by (induction xs arbitrary: ys) (auto split: if_splits)

lemma insert_after_distinct:
  "insert_after position a xs = Some ys \<Longrightarrow> distinct (map avp_addr xs) \<Longrightarrow>
   avp_addr a \<notin> avp_addr ` set xs \<Longrightarrow> distinct (map avp_addr ys)"
proof (induction xs arbitrary: ys)
  case (Cons x xs)
  show ?case
  proof (cases "avp_addr x = position")
    case False
    then obtain zs where "ys = x # zs" "insert_after position a xs = Some zs"
      using Cons.prems(1) by auto
    then show ?thesis using Cons insert_after_set [of position a xs zs] by auto
  qed (use Cons.prems in auto)
qed simp

lemma avps_from_append:
  "p \<notin> avp_addr ` set xs \<Longrightarrow> avps_from p (xs @ ys) = avps_from p ys"
  by (induction xs) auto

lemma avps_from_None: "avps_from p xs = None \<longleftrightarrow> p \<notin> avp_addr ` set xs"
  by (induction xs) auto

lemma insert_after_last:
  "distinct (map avp_addr xs) \<Longrightarrow> xs \<noteq> [] \<Longrightarrow> insert_after (avp_addr (last xs)) a xs = Some (xs @ [a])"
  by (induction xs) auto

section \<open>Well-formed messages\<close>

text \<open>
  The AVPs of a message have different addresses, and every shortcut is null or points to an
  AVP of the list with the shortcut's code.
\<close>

definition shortcut_codes :: "u32 list" where
  "shortcut_codes = [AVP_Session_Id, AVP_Origin_Host, AVP_Origin_Realm, AVP_Destination_Host,
     AVP_Destination_Realm, AVP_Result_Code, AVP_Auth_Session_State]"

definition shortcut :: "u32 \<Rightarrow> AAAMessage \<Rightarrow> ptr" where
  "shortcut c m =
     (if c = AVP_Session_Id then msg_sessionId m else if c = AVP_Origin_Host then orig_host m
      else if c = AVP_Origin_Realm then orig_realm m else if c = AVP_Destination_Host then dest_host m
      else if c = AVP_Destination_Realm then dest_realm m else if c = AVP_Result_Code then res_code m
      else if c = AVP_Auth_Session_State then auth_ses_state m else NULL)"

definition avps_wf :: "AAA_AVP list \<Rightarrow> bool" where
  "avps_wf l \<longleftrightarrow> distinct (map avp_addr l) \<and> NULL \<notin> avp_addr ` set l"

definition msg_wf :: "AAAMessage \<Rightarrow> bool" where
  "msg_wf m \<longleftrightarrow> avps_wf (avpList m) \<and> (\<forall>c. shortcut c m = NULL \<or>
     (\<exists>a \<in> set (avpList m). avp_addr a = shortcut c m \<and> avp_code a = c))"

lemma shortcut_avpList [simp]: "shortcut c (m\<lparr>avpList := l\<rparr>) = shortcut c m"
  by (simp add: shortcut_def)

lemma shortcut_set_shortcut:
  "shortcut c (set_shortcut d p m) = (if c = d \<and> c \<in> set shortcut_codes then p else shortcut c m)"
  by (auto simp: shortcut_def set_shortcut_def shortcut_codes_def)

lemma shortcut_unknown: "c \<notin> set shortcut_codes \<Longrightarrow> shortcut c m = NULL"
  by (auto simp: shortcut_def shortcut_codes_def)

lemma avpList_set_shortcut [simp]: "avpList (set_shortcut c p m) = avpList m"
  by (simp add: set_shortcut_def)

lemma set_shortcut_other [simp]:
  "msg_addr (set_shortcut c p m) = msg_addr m" "msg_flags (set_shortcut c p m) = msg_flags m"
  "commandCode (set_shortcut c p m) = commandCode m"
  "applicationId (set_shortcut c p m) = applicationId m"
  "endtoendId (set_shortcut c p m) = endtoendId m" "hopbyhopId (set_shortcut c p m) = hopbyhopId m"
  "sId (set_shortcut c p m) = sId m" "buf_s (set_shortcut c p m) = buf_s m"
  "msg_buf (set_shortcut c p m) = msg_buf m" "in_peer (set_shortcut c p m) = in_peer m"
  by (simp_all add: set_shortcut_def)

lemma set_shortcut_avpList: "set_shortcut c p (m\<lparr>avpList := l\<rparr>) = (set_shortcut c p m)\<lparr>avpList := l\<rparr>"
  by (simp add: set_shortcut_def)

lemma msg_wf_zero [simp]: "msg_wf (zero_msg a)"
  by (simp add: msg_wf_def avps_wf_def zero_msg_def shortcut_def)

lemma msg_wf_shortcut:
  assumes "msg_wf m" and "shortcut c m \<noteq> NULL"
  obtains a where "a \<in> set (avpList m)" and "avp_addr a = shortcut c m" and "avp_code a = c"
  using assms unfolding msg_wf_def by metis

lemma msg_wf_update:
  assumes "msg_wf m" and "set (avpList m) \<subseteq> set l" and "avps_wf l" and "a \<in> set l"
  shows "msg_wf (set_shortcut (avp_code a) (avp_addr a) (m\<lparr>avpList := l\<rparr>))"
  unfolding msg_wf_def
proof (intro conjI allI)
  show "avps_wf (avpList (set_shortcut (avp_code a) (avp_addr a) (m\<lparr>avpList := l\<rparr>)))"
    using assms(3) by simp
  fix c
  show "shortcut c (set_shortcut (avp_code a) (avp_addr a) (m\<lparr>avpList := l\<rparr>)) = NULL \<or>
    (\<exists>x \<in> set (avpList (set_shortcut (avp_code a) (avp_addr a) (m\<lparr>avpList := l\<rparr>))).
      avp_addr x = shortcut c (set_shortcut (avp_code a) (avp_addr a) (m\<lparr>avpList := l\<rparr>)) \<and> avp_code x = c)"
    using assms by (cases "shortcut c m = NULL")
      (auto simp: shortcut_set_shortcut elim: msg_wf_shortcut [of m c])
qed

section \<open>What the operations do\<close>

lemma add_avp_result:
  assumes "AAAAddAVPToMessage (Some m) (Some a) position = (AAA_ERR_SUCCESS, Some m')"
  obtains l where "m' = set_shortcut (avp_code a) (avp_addr a) (m\<lparr>avpList := l\<rparr>)"
    and "position = NULL \<and> l = a # avpList m \<or> position \<noteq> NULL \<and> insert_after position a (avpList m) = Some l"
  using assms by (auto simp: AAAAddAVPToMessage_def split: if_splits option.splits)

lemma add_avp_wf:
  assumes "msg_wf m" and "avp_addr a \<noteq> NULL" and "avp_addr a \<notin> avp_addr ` set (avpList m)"
    and "AAAAddAVPToMessage (Some m) (Some a) position = (AAA_ERR_SUCCESS, Some m')"
  shows "msg_wf m'"
proof -
  from assms(4) obtain l where m': "m' = set_shortcut (avp_code a) (avp_addr a) (m\<lparr>avpList := l\<rparr>)"
    and l: "position = NULL \<and> l = a # avpList m \<or> position \<noteq> NULL \<and> insert_after position a (avpList m) = Some l"
    by (rule add_avp_result)
  have set_l: "set l = insert a (set (avpList m))" using l by (auto dest: insert_after_set)
  have "distinct (map avp_addr l)"
    using l assms(1,3) insert_after_distinct by (auto simp: msg_wf_def avps_wf_def)
  then have "avps_wf l" using set_l assms(1,2) by (auto simp: msg_wf_def avps_wf_def)
  with set_l msg_wf_update [OF assms(1), of l a] show ?thesis by (auto simp: m')
qed

lemma add_avp_tail:
  assumes "avps_wf (avpList m)"
  shows "AAAAddAVPToMessage (Some m) (Some a) (avp_tail m) =
    (AAA_ERR_SUCCESS, Some (set_shortcut (avp_code a) (avp_addr a) (m\<lparr>avpList := avpList m @ [a]\<rparr>)))"
  using assms insert_after_last [of "avpList m" a]
  by (cases "avpList m = []") (auto simp: AAAAddAVPToMessage_def avp_tail_def avps_wf_def)

lemma remove_avp_wf:
  assumes "msg_wf m" and "a \<in> set (avpList m)"
    and "AAARemoveAVPFromMessage (Some m) (Some a) = (r, Some m')"
  shows "r = AAA_ERR_SUCCESS" and "msg_wf m'"
    and "avpList m' = filter (\<lambda>x. avp_addr x \<noteq> avp_addr a) (avpList m)"
proof -
  have "avps_from (avp_addr a) (avpList m) \<noteq> None" using assms(2) by (auto simp: avps_from_None)
  then have m': "m' = set_shortcut (avp_code a) NULL
      (m\<lparr>avpList := filter (\<lambda>x. avp_addr x \<noteq> avp_addr a) (avpList m)\<rparr>)" and r: "r = AAA_ERR_SUCCESS"
    using assms(3) by (auto simp: AAARemoveAVPFromMessage_def)
  show "r = AAA_ERR_SUCCESS" by (fact r)
  show l: "avpList m' = filter (\<lambda>x. avp_addr x \<noteq> avp_addr a) (avpList m)" by (simp add: m')
  have wf: "avps_wf (avpList m')"
    using assms(1) by (auto simp: l msg_wf_def avps_wf_def distinct_map_filter)
  have "shortcut c m' = NULL \<or> (\<exists>x \<in> set (avpList m'). avp_addr x = shortcut c m' \<and> avp_code x = c)" for c
  proof (cases "shortcut c m' = NULL")
    case False
    then have c: "shortcut c m' = shortcut c m" "avp_code a \<noteq> c"
      using False shortcut_unknown [of c m] by (auto simp: m' shortcut_set_shortcut split: if_splits)
    with False obtain x where x: "x \<in> set (avpList m)" "avp_addr x = shortcut c m" "avp_code x = c"
      using assms(1) by (metis msg_wf_shortcut)
    moreover have "avp_addr x \<noteq> avp_addr a"
      using x(1,3) c(2) assms(1,2) unfolding msg_wf_def avps_wf_def distinct_map
      by (metis inj_on_contraD)
    ultimately show ?thesis using c by (auto simp: l)
  qed simp
  with wf show "msg_wf m'" unfolding msg_wf_def by blast
qed

lemma find_avp_forward:
  "AAAFindMatchingAVP (Some m) NULL c v AAA_FORWARD_SEARCH =
   find (\<lambda>a. avp_code a = c \<and> avp_vendorId a = v) (avpList m)"
  by (simp add: AAAFindMatchingAVP_def Let_def)

text \<open>Creating an AVP: what a success gives, and what is in use afterwards.\<close>

lemma set_avp_fields_other [simp]:
  "avp_addr (set_avp_fields c a) = avp_addr a" "avp_code (set_avp_fields c a) = avp_code a"
  "avp_vendorId (set_avp_fields c a) = avp_vendorId a" "avp_data_s (set_avp_fields c a) = avp_data_s a"
  "avp_data (set_avp_fields c a) = avp_data a" "free_it (set_avp_fields c a) = free_it a"
  "packetType (set_avp_fields c a) = packetType a"
  by (simp_all add: set_avp_fields_def)

lemma mandatory_idem:
  "0x40 OR (0x20 AND (0x40 OR (0x20 AND x))) = 0x40 OR (0x20 AND (x :: u32))"
  "0x20 AND (0x20 AND x) = 0x20 AND (x :: u32)"
  by (simp_all add: bit.conj_disj_distrib flip: and.assoc)

lemma set_avp_fields_idem: "set_avp_fields c (set_avp_fields c a) = set_avp_fields c a"
  by (simp add: set_avp_fields_def mandatory_idem)

section \<open>The interface\<close>

text \<open>
  What message.c, the session code and the modules use of a message: a sequence of AVPs to
  which an AVP can be added in front, that can be searched by code and vendor, and from which
  an AVP can be removed. \<open>known\<close> says that the state holds the AVP at its address.
\<close>

definition avp_ptr :: "AAA_AVP option \<Rightarrow> ptr" where
  "avp_ptr a = (case a of None \<Rightarrow> NULL | Some x \<Rightarrow> avp_addr x)"

locale avp_sequence =
  fixes avps :: "'s \<Rightarrow> AAA_AVP list \<Rightarrow> bool"
    and known :: "'s \<Rightarrow> AAA_AVP \<Rightarrow> bool"
    and add :: "'s \<Rightarrow> AAA_AVP \<Rightarrow> (AAAReturnCode \<times> 's) option"
    and look :: "'s \<Rightarrow> u32 \<Rightarrow> u32 \<Rightarrow> ptr option"
    and del :: "'s \<Rightarrow> AAA_AVP \<Rightarrow> (AAAReturnCode \<times> 's) option"
  assumes avps_wf: "avps s l \<Longrightarrow> avps_wf l"
    and add_first: "avps s l \<Longrightarrow> known s a \<Longrightarrow> avp_addr a \<noteq> NULL \<Longrightarrow> avp_addr a \<notin> avp_addr ` set l \<Longrightarrow>
      \<exists>s'. add s a = Some (AAA_ERR_SUCCESS, s') \<and> avps s' (a # l)"
    and look_find: "avps s l \<Longrightarrow>
      look s c v = Some (avp_ptr (find (\<lambda>a. avp_code a = c \<and> avp_vendorId a = v) l))"
    and del_filter: "avps s l \<Longrightarrow> a \<in> set l \<Longrightarrow>
      \<exists>s'. del s a = Some (AAA_ERR_SUCCESS, s') \<and> avps s' (filter (\<lambda>x. avp_addr x \<noteq> avp_addr a) l)"
begin

text \<open>An added AVP is found by its code and vendor; removing it gives the sequence back.\<close>

lemma add_look_del:
  assumes "avps s l" and "known s a" and "avp_addr a \<noteq> NULL" and "avp_addr a \<notin> avp_addr ` set l"
  shows "\<exists>s1 s2. add s a = Some (AAA_ERR_SUCCESS, s1)
    \<and> look s1 (avp_code a) (avp_vendorId a) = Some (avp_addr a)
    \<and> del s1 a = Some (AAA_ERR_SUCCESS, s2) \<and> avps s2 l"
proof -
  from add_first [OF assms] obtain s1 where s1: "add s a = Some (AAA_ERR_SUCCESS, s1)" "avps s1 (a # l)"
    by blast
  from del_filter [OF s1(2), of a] obtain s2 where
    s2: "del s1 a = Some (AAA_ERR_SUCCESS, s2)" "avps s2 (filter (\<lambda>x. avp_addr x \<noteq> avp_addr a) (a # l))"
    by auto
  have "filter (\<lambda>x. avp_addr x \<noteq> avp_addr a) (a # l) = l"
    using assms(4) by (auto simp: filter_id_conv intro: rev_image_eqI)
  with s2 have "avps s2 l" by simp
  moreover have "look s1 (avp_code a) (avp_vendorId a) = Some (avp_addr a)"
    using look_find [OF s1(2)] by (simp add: avp_ptr_def)
  ultimately show ?thesis using s1(1) s2(1) by blast
qed

text \<open>A search fails exactly when no AVP matches.\<close>

lemma look_null:
  assumes "avps s l"
  shows "look s c v = Some NULL \<longleftrightarrow> (\<forall>a \<in> set l. \<not> (avp_code a = c \<and> avp_vendorId a = v))"
proof (cases "find (\<lambda>a. avp_code a = c \<and> avp_vendorId a = v) l")
  case None
  then have "look s c v = Some NULL" using look_find [OF assms, of c v] by (simp add: avp_ptr_def)
  then show ?thesis using None unfolding find_None_iff by blast
next
  case (Some x)
  then have x: "x \<in> set l" "avp_code x = c" "avp_vendorId x = v" by (auto simp: find_Some_iff)
  then have "avp_addr x \<noteq> NULL" using avps_wf [OF assms] unfolding avps_wf_def by (metis imageI)
  with x show ?thesis using look_find [OF assms, of c v] Some by (auto simp: avp_ptr_def)
qed

end

interpretation msg_avps: avp_sequence "\<lambda>m l. msg_wf m \<and> avpList m = l" "\<lambda>_ _. True"
  "\<lambda>m a. (case AAAAddAVPToMessage (Some m) (Some a) NULL of (r, Some m') \<Rightarrow> Some (r, m') | _ \<Rightarrow> None)"
  "\<lambda>m c v. Some (avp_ptr (AAAFindMatchingAVP (Some m) NULL c v AAA_FORWARD_SEARCH))"
  "\<lambda>m a. (case AAARemoveAVPFromMessage (Some m) (Some a) of (r, Some m') \<Rightarrow> Some (r, m') | _ \<Rightarrow> None)"
proof (unfold_locales, goal_cases)
  case (1 m l)
  then show ?case by (auto simp: msg_wf_def)
next
  case (2 m l a)
  let ?m = "set_shortcut (avp_code a) (avp_addr a) (m\<lparr>avpList := a # avpList m\<rparr>)"
  have add: "AAAAddAVPToMessage (Some m) (Some a) NULL = (AAA_ERR_SUCCESS, Some ?m)"
    by (simp add: AAAAddAVPToMessage_def)
  then have "msg_wf ?m" using add_avp_wf [OF _ _ _ add] 2 by blast
  then show ?case using add 2 by auto
next
  case (3 m l c v)
  then show ?case by (simp add: find_avp_forward)
next
  case (4 m l a)
  then obtain r m' where rm: "AAARemoveAVPFromMessage (Some m) (Some a) = (r, Some m')"
    by (cases "avps_from (avp_addr a) (avpList m)") (auto simp: AAARemoveAVPFromMessage_def)
  then show ?case using remove_avp_wf [OF _ _ rm] 4 by auto
qed

end
