(* ===== verification/Avp_List.thy ===== *)
theory Avp_List
  imports Diameter_Msg List_Head
begin

text \<open>
  The AVP list of a message at the level of pointers: avp.c links AVPs through their \<open>next\<close> and
  \<open>prev\<close> fields between the \<open>head\<close> and \<open>tail\<close> fields of the message, with null at both ends.
  Every assignment of the C functions is one update of the store. The loops follow \<open>next\<close>
  until they meet null, so they are partial functions: None is a loop that never ends. The
  refinement lemmas show that on a properly linked list the loops end and the operations do
  what Diameter\_Msg says on sequences.
\<close>

section \<open>The store and the operations\<close>

record avp_store = list_store +
  av_obj :: "ptr \<Rightarrow> AAA_AVP"
  al_head :: ptr
  al_tail :: ptr
  al_msg :: AAAMessage

partial_function (option) avp_walk :: "avp_store \<Rightarrow> ptr \<Rightarrow> ptr \<Rightarrow> ptr option" where
  "avp_walk s stop avp_t =
     (if avp_t \<noteq> NULL \<and> avp_t \<noteq> stop then avp_walk s stop (lh_next s avp_t) else Some avp_t)"

definition update_shortcut :: "u32 \<Rightarrow> ptr \<Rightarrow> avp_store \<Rightarrow> avp_store" where
  "update_shortcut code p s = s\<lparr>al_msg := set_shortcut code p (al_msg s)\<rparr>"

definition avp_link_first :: "ptr \<Rightarrow> avp_store \<Rightarrow> avp_store" where
  "avp_link_first avp s =
     (let s1 = set_next avp (al_head s) s;
          s2 = set_prev avp NULL s1;
          s3 = s2\<lparr>al_head := avp\<rparr>
      in if lh_next s3 avp \<noteq> NULL then set_prev (lh_next s3 avp) avp s3 else s3\<lparr>al_tail := avp\<rparr>)"

definition avp_link_after :: "ptr \<Rightarrow> ptr \<Rightarrow> avp_store \<Rightarrow> avp_store" where
  "avp_link_after avp position s =
     (let s1 = set_next avp (lh_next s position) s;
          s2 = set_next position avp s1;
          s3 = (if lh_next s2 avp \<noteq> NULL then set_prev (lh_next s2 avp) avp s2 else s2\<lparr>al_tail := avp\<rparr>)
      in set_prev avp position s3)"

definition add_avp :: "ptr \<Rightarrow> ptr \<Rightarrow> avp_store \<Rightarrow> (AAAReturnCode \<times> avp_store) option" where
  "add_avp avp position s =
     (if avp = NULL then Some (AAA_ERR_PARAMETER, s)
      else if position = NULL then
        Some (AAA_ERR_SUCCESS, update_shortcut (avp_code (av_obj s avp)) avp (avp_link_first avp s))
      else do {
        avp_t \<leftarrow> avp_walk s position (al_head s);
        Some (if avp_t = NULL then (AAA_ERR_PARAMETER, s)
          else (AAA_ERR_SUCCESS,
            update_shortcut (avp_code (av_obj s avp)) avp (avp_link_after avp position s)))
      })"

partial_function (option) avp_search :: "avp_store \<Rightarrow> u32 \<Rightarrow> u32 \<Rightarrow> AAASearchType \<Rightarrow> ptr \<Rightarrow> ptr option" where
  "avp_search s avpCode vendorId searchType avp_t =
     (if avp_t = NULL then Some NULL
      else if avp_code (av_obj s avp_t) = avpCode \<and> avp_vendorId (av_obj s avp_t) = vendorId
      then Some avp_t
      else avp_search s avpCode vendorId searchType
        (if searchType = AAA_FORWARD_SEARCH then lh_next s avp_t else lh_prev s avp_t))"

definition find_avp :: "ptr \<Rightarrow> u32 \<Rightarrow> u32 \<Rightarrow> AAASearchType \<Rightarrow> avp_store \<Rightarrow> ptr option" where
  "find_avp startAvp avpCode vendorId searchType s =
     (if startAvp \<noteq> NULL then do {
        avp_t \<leftarrow> avp_walk s startAvp (al_head s);
        if avp_t = NULL then Some NULL else avp_search s avpCode vendorId searchType startAvp
      }
      else avp_search s avpCode vendorId searchType
        (if searchType = AAA_FORWARD_SEARCH then al_head s else al_tail s))"

definition avp_unlink :: "ptr \<Rightarrow> avp_store \<Rightarrow> avp_store" where
  "avp_unlink avp s =
     (let s1 = (if al_head s = avp then s\<lparr>al_head := lh_next s avp\<rparr>
                else set_next (lh_prev s avp) (lh_next s avp) s);
          s2 = (if lh_next s1 avp \<noteq> NULL then set_prev (lh_next s1 avp) (lh_prev s1 avp) s1
                else s1\<lparr>al_tail := lh_prev s1 avp\<rparr>)
      in set_next avp NULL (set_prev avp NULL s2))"

definition remove_avp :: "ptr \<Rightarrow> avp_store \<Rightarrow> (AAAReturnCode \<times> avp_store) option" where
  "remove_avp avp s =
     (if avp = NULL then Some (AAA_ERR_PARAMETER, s)
      else do {
        avp_t \<leftarrow> avp_walk s avp (al_head s);
        Some (if avp_t = NULL then (AAA_ERR_PARAMETER, s)
          else (AAA_ERR_SUCCESS, update_shortcut (avp_code (av_obj s avp)) NULL (avp_unlink avp s)))
      })"

section \<open>Representation\<close>

text \<open>
  The head and tail fields play the part of the links of address 0: with them the list is a
  segment from 0 to 0, and the lemmas on segments of List\_Head apply.
\<close>

definition avp_view :: "avp_store \<Rightarrow> avp_store" where
  "avp_view s = s\<lparr>lh_next := (lh_next s)(NULL := al_head s), lh_prev := (lh_prev s)(NULL := al_tail s)\<rparr>"

definition avp_rep :: "avp_store \<Rightarrow> ptr list \<Rightarrow> bool" where
  "avp_rep s xs \<longleftrightarrow> distinct xs \<and> NULL \<notin> set xs \<and> seg (avp_view s) NULL xs NULL \<and>
     (\<forall>x. x \<noteq> NULL \<longrightarrow> avp_addr (av_obj s x) = x)"

definition abs_msg :: "avp_store \<Rightarrow> ptr list \<Rightarrow> AAAMessage" where
  "abs_msg s xs = (al_msg s)\<lparr>avpList := map (av_obj s) xs\<rparr>"

lemma avp_view_sel [simp]:
  "lh_next (avp_view s) = (lh_next s)(NULL := al_head s)"
  "lh_prev (avp_view s) = (lh_prev s)(NULL := al_tail s)"
  by (simp_all add: avp_view_def)

lemma avp_rep_addr: "avp_rep s xs \<Longrightarrow> x \<noteq> NULL \<Longrightarrow> avp_addr (av_obj s x) = x"
  unfolding avp_rep_def by blast

lemma avp_rep_seg:
  "avp_rep s xs \<Longrightarrow> distinct xs" "avp_rep s xs \<Longrightarrow> NULL \<notin> set xs"
  "avp_rep s xs \<Longrightarrow> seg (avp_view s) NULL xs NULL"
  unfolding avp_rep_def by blast+

lemma avp_rep_addrs: "avp_rep s zs \<Longrightarrow> NULL \<notin> set xs \<Longrightarrow> map avp_addr (map (av_obj s) xs) = xs"
  unfolding map_map by (rule map_idI) (metis avp_rep_addr comp_apply)

lemma avp_addr_image: "avp_rep s zs \<Longrightarrow> NULL \<notin> set xs \<Longrightarrow> avp_addr ` set (map (av_obj s) xs) = set xs"
  using avp_rep_addrs [of s zs xs] by (metis list.set_map)

text \<open>The loops end, and they find what is in the list.\<close>

lemma avp_walk_seg:
  assumes "seg (avp_view s) a xs NULL" and "NULL \<notin> set xs"
  shows "avp_walk s stop (hd (xs @ [NULL])) = Some (if stop \<in> set xs then stop else NULL)"
  using assms
proof (induction xs arbitrary: a)
  case Nil
  then show ?case by (simp add: avp_walk.simps)
next
  case (Cons x xs)
  then have "avp_walk s stop (hd (xs @ [NULL])) = Some (if stop \<in> set xs then stop else NULL)"
    by auto
  moreover have "lh_next s x = hd (xs @ [NULL])"
    using Cons.prems seg_first [of "avp_view s" x xs NULL] by auto
  ultimately show ?case using Cons.prems by (auto simp: avp_walk.simps [of s stop x])
qed

lemma avp_rep_head: "avp_rep s xs \<Longrightarrow> al_head s = hd (xs @ [NULL])"
  unfolding avp_rep_def using seg_first [of "avp_view s" NULL xs NULL] by simp

lemma avp_rep_tail: "avp_rep s xs \<Longrightarrow> al_tail s = last (NULL # xs)"
  unfolding avp_rep_def using seg_last [of "avp_view s" NULL xs NULL] by simp

lemma avp_walk_rep:
  assumes "avp_rep s xs"
  shows "avp_walk s stop (al_head s) = Some (if stop \<in> set xs then stop else NULL)"
  unfolding avp_rep_head [OF assms] by (rule avp_walk_seg [OF avp_rep_seg(3,2) [OF assms]])

lemma avp_rep_mid:
  assumes "avp_rep s (xs @ p # ys)"
  shows "lh_next s p = hd (ys @ [NULL])" and "lh_prev s p = last (NULL # xs)"
proof -
  have "p \<noteq> NULL" and sg: "seg (avp_view s) NULL xs p" "seg (avp_view s) p ys NULL"
    using assms by (auto simp: avp_rep_def)
  then show "lh_next s p = hd (ys @ [NULL])" "lh_prev s p = last (NULL # xs)"
    using seg_first [OF sg(2)] seg_last [OF sg(1)] by simp_all
qed

section \<open>Adding\<close>

lemma link_first_view:
  assumes "avp \<noteq> NULL" and "al_head s \<noteq> avp"
  shows "lh_next (avp_view (avp_link_first avp s)) =
      lh_next (list_add_between avp NULL (al_head s) (avp_view s))"
    and "lh_prev (avp_view (avp_link_first avp s)) =
      lh_prev (list_add_between avp NULL (al_head s) (avp_view s))"
  using assms by (auto simp: avp_link_first_def list_add_between_def Let_def fun_eq_iff)

lemma link_after_view:
  assumes "avp \<noteq> NULL" and "position \<noteq> NULL" and "avp \<noteq> position" and "lh_next s position \<noteq> avp"
  shows "lh_next (avp_view (avp_link_after avp position s)) =
      lh_next (list_add_between avp position (lh_next s position) (avp_view s))"
    and "lh_prev (avp_view (avp_link_after avp position s)) =
      lh_prev (list_add_between avp position (lh_next s position) (avp_view s))"
  using assms by (auto simp: avp_link_after_def list_add_between_def Let_def fun_eq_iff)

lemma avp_links_obj [simp]:
  "av_obj (avp_link_first avp s) = av_obj s" "al_msg (avp_link_first avp s) = al_msg s"
  "av_obj (avp_link_after avp p s) = av_obj s" "al_msg (avp_link_after avp p s) = al_msg s"
  "av_obj (avp_unlink avp s) = av_obj s" "al_msg (avp_unlink avp s) = al_msg s"
  "av_obj (update_shortcut c p s) = av_obj s" "al_msg (update_shortcut c p s) = set_shortcut c p (al_msg s)"
  by (simp_all add: avp_link_first_def avp_link_after_def avp_unlink_def update_shortcut_def Let_def)

lemma avp_rep_update_shortcut [simp]: "avp_rep (update_shortcut c p s) xs = avp_rep s xs"
  using seg_same [of "avp_view (update_shortcut c p s)" "avp_view s" NULL xs NULL]
  by (simp add: avp_rep_def update_shortcut_def)

lemma avp_rep_link:
  assumes "avp_rep s (xs @ ys)" and "avp \<noteq> NULL" and "avp \<notin> set (xs @ ys)"
    and "lh_next (avp_view s') = lh_next (list_add_between avp (last (NULL # xs)) (hd (ys @ [NULL])) (avp_view s))"
    and "lh_prev (avp_view s') = lh_prev (list_add_between avp (last (NULL # xs)) (hd (ys @ [NULL])) (avp_view s))"
    and "av_obj s' = av_obj s"
  shows "avp_rep s' (xs @ avp # ys)"
proof -
  note rep = avp_rep_seg [OF assms(1)]
  have "seg (list_add_between avp (last (NULL # xs)) (hd (ys @ [NULL])) (avp_view s)) NULL (xs @ avp # ys) NULL"
    by (rule seg_insert [OF rep(3)]) (use rep assms(2,3) in auto)
  then have "seg (avp_view s') NULL (xs @ avp # ys) NULL"
    using seg_same [OF assms(4,5)] by blast
  then show ?thesis
    using rep assms(2,3,6) avp_rep_addr [OF assms(1)] unfolding avp_rep_def by auto
qed

lemma add_first_refines:
  assumes "avp_rep s xs" and "avp \<noteq> NULL" and "avp \<notin> set xs"
  shows "avp_rep (avp_link_first avp s) (avp # xs)"
proof -
  have "al_head s \<noteq> avp"
    using assms(2,3) unfolding avp_rep_head [OF assms(1)] by (cases xs) auto
  then have "avp_rep (avp_link_first avp s) ([] @ avp # xs)"
    using assms link_first_view [of avp s] avp_rep_head [OF assms(1)] by (intro avp_rep_link [of s]) auto
  then show ?thesis by simp
qed

lemma add_after_refines:
  assumes "avp_rep s (xs @ p # ys)" and "avp \<noteq> NULL" and "avp \<notin> set (xs @ p # ys)"
  shows "avp_rep (avp_link_after avp p s) (xs @ p # avp # ys)"
proof -
  note nx = avp_rep_mid(1) [OF assms(1)]
  have p: "avp \<noteq> p" "p \<noteq> NULL" using assms avp_rep_seg(2) [OF assms(1)] by auto
  have "lh_next s p \<noteq> avp"
    using assms(2,3) unfolding nx by (cases ys) auto
  then have "avp_rep (avp_link_after avp p s) ((xs @ [p]) @ avp # ys)"
    using assms link_after_view [of avp p s] p nx by (intro avp_rep_link [of s]) auto
  then show ?thesis by simp
qed

lemma add_avp_refines:
  assumes "avp_rep s xs" and "avp \<noteq> NULL" and "avp \<notin> set xs"
  shows "\<exists>r s' xs'. add_avp avp position s = Some (r, s') \<and> avp_rep s' xs' \<and>
    AAAAddAVPToMessage (Some (abs_msg s xs)) (Some (av_obj s avp)) position = (r, Some (abs_msg s' xs'))"
proof -
  note addr = avp_rep_addr [OF assms(1,2)]
  consider (first) "position = NULL" | (missing) "position \<noteq> NULL" "position \<notin> set xs"
    | (after) "position \<noteq> NULL" "position \<in> set xs" by blast
  then show ?thesis
  proof cases
    case first
    then have "add_avp avp position s = Some (AAA_ERR_SUCCESS,
        update_shortcut (avp_code (av_obj s avp)) avp (avp_link_first avp s))"
      using assms(2) by (simp add: add_avp_def)
    moreover have "AAAAddAVPToMessage (Some (abs_msg s xs)) (Some (av_obj s avp)) position =
        (AAA_ERR_SUCCESS, Some (abs_msg (update_shortcut (avp_code (av_obj s avp)) avp
          (avp_link_first avp s)) (avp # xs)))"
      using first addr by (simp add: AAAAddAVPToMessage_def abs_msg_def set_shortcut_avpList)
    ultimately show ?thesis using add_first_refines [OF assms] by (metis avp_rep_update_shortcut)
  next
    case missing
    then have "insert_after position (av_obj s avp) (map (av_obj s) xs) = None"
      unfolding insert_after_None avp_addr_image [OF assms(1) avp_rep_seg(2) [OF assms(1)]] by simp
    then have "AAAAddAVPToMessage (Some (abs_msg s xs)) (Some (av_obj s avp)) position =
        (AAA_ERR_PARAMETER, Some (abs_msg s xs))"
      using missing(1) by (simp add: AAAAddAVPToMessage_def abs_msg_def)
    moreover have "add_avp avp position s = Some (AAA_ERR_PARAMETER, s)"
      using missing assms(2) avp_walk_rep [OF assms(1), of position] by (simp add: add_avp_def)
    ultimately show ?thesis using assms(1) by blast
  next
    case after
    then obtain as bs where xs: "xs = as @ position # bs" by (meson split_list)
    let ?s = "update_shortcut (avp_code (av_obj s avp)) avp (avp_link_after avp position s)"
    have "position \<notin> set as" "NULL \<notin> set as"
      using avp_rep_seg [OF assms(1)] unfolding xs by auto
    then have "position \<notin> avp_addr ` set (map (av_obj s) as)"
      using avp_addr_image [OF assms(1)] by blast
    then have "insert_after position (av_obj s avp) (map (av_obj s) xs) =
        Some (map (av_obj s) (as @ position # avp # bs))"
      using avp_rep_addr [OF assms(1) after(1)] by (simp add: xs insert_after_append)
    then have "AAAAddAVPToMessage (Some (abs_msg s xs)) (Some (av_obj s avp)) position =
        (AAA_ERR_SUCCESS, Some (abs_msg ?s (as @ position # avp # bs)))"
      using after(1) addr by (simp add: AAAAddAVPToMessage_def abs_msg_def set_shortcut_avpList)
    moreover have "add_avp avp position s = Some (AAA_ERR_SUCCESS, ?s)"
      using after assms(2) avp_walk_rep [OF assms(1), of position] by (simp add: add_avp_def)
    moreover have "avp_rep ?s (as @ position # avp # bs)"
      using add_after_refines [of s as position bs avp] assms unfolding xs by simp
    ultimately show ?thesis by blast
  qed
qed

section \<open>Finding\<close>

lemma avp_search_forward:
  assumes "seg (avp_view s) a xs NULL" and "NULL \<notin> set xs"
  shows "avp_search s c v AAA_FORWARD_SEARCH (hd (xs @ [NULL])) =
    Some (case find (\<lambda>x. avp_code (av_obj s x) = c \<and> avp_vendorId (av_obj s x) = v) xs of
      None \<Rightarrow> NULL | Some x \<Rightarrow> x)"
  using assms
proof (induction xs arbitrary: a)
  case Nil
  then show ?case by (simp add: avp_search.simps)
next
  case (Cons x xs)
  moreover have "lh_next s x = hd (xs @ [NULL])"
    using Cons.prems seg_first [of "avp_view s" x xs NULL] by auto
  ultimately show ?case by (auto simp: avp_search.simps [of s c v AAA_FORWARD_SEARCH x])
qed

lemma avp_search_backward:
  assumes "seg (avp_view s) NULL xs b" and "NULL \<notin> set xs"
  shows "avp_search s c v AAA_BACKWARD_SEARCH (last (NULL # xs)) =
    Some (case find (\<lambda>x. avp_code (av_obj s x) = c \<and> avp_vendorId (av_obj s x) = v) (rev xs) of
      None \<Rightarrow> NULL | Some x \<Rightarrow> x)"
  using assms
proof (induction xs arbitrary: b rule: rev_induct)
  case Nil
  then show ?case by (simp add: avp_search.simps)
next
  case (snoc x xs)
  moreover have "lh_prev s x = last (NULL # xs)"
    using snoc.prems seg_last [of "avp_view s" NULL xs x] by auto
  ultimately show ?case by (auto simp: avp_search.simps [of s c v AAA_BACKWARD_SEARCH x])
qed

lemma find_map: "find P (map f xs) = map_option f (find (P \<circ> f) xs)"
  by (induction xs) auto

lemma avp_ptr_find:
  assumes "avp_rep s zs" and "NULL \<notin> set xs"
  shows "avp_ptr (find P (map (av_obj s) xs)) = (case find (P \<circ> av_obj s) xs of None \<Rightarrow> NULL | Some x \<Rightarrow> x)"
proof (cases "find (P \<circ> av_obj s) xs")
  case (Some x)
  then have "x \<noteq> NULL" using assms(2) by (metis find_Some_iff nth_mem)
  then show ?thesis using Some avp_rep_addr [OF assms(1)] by (simp add: find_map avp_ptr_def)
qed (simp add: find_map avp_ptr_def)

lemma find_avp_start:
  assumes "avp_rep s (as @ p # bs)"
  shows "find_avp p c v AAA_FORWARD_SEARCH s =
      Some (avp_ptr (find (\<lambda>a. avp_code a = c \<and> avp_vendorId a = v) (map (av_obj s) (p # bs))))"
    and "find_avp p c v AAA_BACKWARD_SEARCH s =
      Some (avp_ptr (find (\<lambda>a. avp_code a = c \<and> avp_vendorId a = v) (map (av_obj s) (rev (as @ [p])))))"
proof -
  note rep = avp_rep_seg [OF assms]
  have null: "p \<noteq> NULL" "NULL \<notin> set (p # bs)" "NULL \<notin> set (as @ [p])"
    "NULL \<notin> set (rev (as @ [p]))" using rep by auto
  have walk: "avp_walk s p (al_head s) = Some p" using avp_walk_rep [OF assms, of p] by simp
  have "seg (avp_view s) (last (NULL # as)) (p # bs) NULL"
    using rep(3) seg_last [of "avp_view s" NULL as p] seg_mid(2) [of "avp_view s" NULL as "p # bs" NULL] by auto
  from avp_search_forward [OF this null(2), of c v] show "find_avp p c v AAA_FORWARD_SEARCH s =
      Some (avp_ptr (find (\<lambda>a. avp_code a = c \<and> avp_vendorId a = v) (map (av_obj s) (p # bs))))"
    unfolding avp_ptr_find [OF assms null(2)] using walk null by (simp add: find_avp_def comp_def)
  have "seg (avp_view s) NULL (as @ [p]) (hd (bs @ [NULL]))"
    using rep(3) seg_first [of "avp_view s" p bs NULL] seg_mid(1) [of "avp_view s" NULL "as @ [p]" bs NULL] by auto
  from avp_search_backward [OF this null(3), of c v] show "find_avp p c v AAA_BACKWARD_SEARCH s =
      Some (avp_ptr (find (\<lambda>a. avp_code a = c \<and> avp_vendorId a = v) (map (av_obj s) (rev (as @ [p])))))"
    unfolding avp_ptr_find [OF assms null(4)] using walk null by (simp add: find_avp_def comp_def)
qed

lemma find_avp_refines:
  assumes "avp_rep s xs"
  shows "find_avp p c v d s = Some (avp_ptr (AAAFindMatchingAVP (Some (abs_msg s xs)) p c v d))"
proof -
  note rep = avp_rep_seg [OF assms]
  consider (ends) "p = NULL" | (missing) "p \<noteq> NULL" "p \<notin> set xs" | (start) "p \<noteq> NULL" "p \<in> set xs"
    by blast
  then show ?thesis
  proof cases
    case ends
    have null: "NULL \<notin> set (rev xs)" using rep by simp
    show ?thesis
      using ends avp_search_forward [OF rep(3,2), of c v] avp_search_backward [OF rep(3,2), of c v]
        avp_ptr_find [OF assms rep(2)] avp_ptr_find [OF assms null]
        avp_rep_head [OF assms] avp_rep_tail [OF assms]
      by (cases d) (simp_all add: find_avp_def AAAFindMatchingAVP_def abs_msg_def comp_def rev_map)
  next
    case missing
    then have "avps_from p (map (av_obj s) xs) = None" "avps_from p (map (av_obj s) (rev xs)) = None"
      using avp_addr_image [OF assms rep(2)] by (auto simp: avps_from_None)
    then show ?thesis using missing avp_walk_rep [OF assms, of p]
      by (cases d) (simp_all add: find_avp_def AAAFindMatchingAVP_def abs_msg_def avp_ptr_def rev_map)
  next
    case start
    then obtain as bs where xs: "xs = as @ p # bs" by (meson split_list)
    have "p \<notin> set as" "p \<notin> set (rev bs)" "NULL \<notin> set as" "NULL \<notin> set (rev bs)"
      using rep unfolding xs by auto
    then have "p \<notin> avp_addr ` set (map (av_obj s) as)" "p \<notin> avp_addr ` set (map (av_obj s) (rev bs))"
      using avp_addr_image [OF assms] by blast+
    then have "avps_from p (map (av_obj s) xs) = Some (map (av_obj s) (p # bs))"
      "avps_from p (map (av_obj s) (rev xs)) = Some (map (av_obj s) (rev (as @ [p])))"
      using avp_rep_addr [OF assms start(1)] by (simp_all add: xs avps_from_append)
    then show ?thesis using start find_avp_start [OF assms [unfolded xs], of c v]
      by (cases d) (simp_all add: AAAFindMatchingAVP_def abs_msg_def rev_map)
  qed
qed

section \<open>Removing\<close>

lemma unlink_view:
  assumes "avp_rep s (xs @ avp # ys)" and "x \<noteq> avp"
  shows "lh_next (avp_view (avp_unlink avp s)) x =
      lh_next (list_del_between (last (NULL # xs)) (hd (ys @ [NULL])) (avp_view s)) x"
    and "lh_prev (avp_view (avp_unlink avp s)) x =
      lh_prev (list_del_between (last (NULL # xs)) (hd (ys @ [NULL])) (avp_view s)) x"
proof -
  note rep = avp_rep_seg [OF assms(1)] and mid = avp_rep_mid [OF assms(1)]
  have n: "avp \<noteq> NULL" using rep by simp
  have hd: "al_head s = avp \<longleftrightarrow> xs = []"
    using rep avp_rep_head [OF assms(1)] by (cases xs) auto
  have l: "if xs = [] then lh_prev s avp = NULL else lh_prev s avp \<noteq> NULL \<and> lh_prev s avp \<noteq> avp"
    using rep mid(2) by (cases xs rule: rev_cases) auto
  show "lh_next (avp_view (avp_unlink avp s)) x =
      lh_next (list_del_between (last (NULL # xs)) (hd (ys @ [NULL])) (avp_view s)) x"
    using n hd l assms(2) unfolding mid [symmetric]
    by (cases "xs = []") (auto simp: avp_unlink_def list_del_between_def Let_def)
  show "lh_prev (avp_view (avp_unlink avp s)) x =
      lh_prev (list_del_between (last (NULL # xs)) (hd (ys @ [NULL])) (avp_view s)) x"
    using n hd l assms(2) unfolding mid [symmetric]
    by (cases "xs = []") (auto simp: avp_unlink_def list_del_between_def Let_def)
qed

lemma avp_rep_unlink:
  assumes "avp_rep s (xs @ avp # ys)"
  shows "avp_rep (avp_unlink avp s) (xs @ ys)"
proof -
  note rep = avp_rep_seg [OF assms]
  have "seg (list_del_between (last (NULL # xs)) (hd (ys @ [NULL])) (avp_view s)) NULL (xs @ ys) NULL"
    by (rule seg_delete [OF rep(3)]) (use rep in auto)
  then have "seg (avp_view (avp_unlink avp s)) NULL (xs @ ys) NULL"
    by (rule seg_frame) (use rep in \<open>intro unlink_view [OF assms]; auto\<close>)+
  then show ?thesis using rep avp_rep_addr [OF assms] unfolding avp_rep_def by auto
qed

lemma remove_avp_refines:
  assumes "avp_rep s xs" and "avp \<noteq> NULL"
  shows "\<exists>r s' xs'. remove_avp avp s = Some (r, s') \<and> avp_rep s' xs' \<and>
    AAARemoveAVPFromMessage (Some (abs_msg s xs)) (Some (av_obj s avp)) = (r, Some (abs_msg s' xs'))"
proof (cases "avp \<in> set xs")
  case False
  then have "avps_from avp (map (av_obj s) xs) = None"
    using avp_addr_image [OF assms(1) avp_rep_seg(2) [OF assms(1)]] by (auto simp: avps_from_None)
  then have "AAARemoveAVPFromMessage (Some (abs_msg s xs)) (Some (av_obj s avp)) =
      (AAA_ERR_PARAMETER, Some (abs_msg s xs))"
    using avp_rep_addr [OF assms] by (simp add: AAARemoveAVPFromMessage_def abs_msg_def)
  moreover have "remove_avp avp s = Some (AAA_ERR_PARAMETER, s)"
    using False assms(2) avp_walk_rep [OF assms(1), of avp] by (simp add: remove_avp_def)
  ultimately show ?thesis using assms(1) by blast
next
  case True
  then obtain as bs where xs: "xs = as @ avp # bs" by (meson split_list)
  let ?s = "update_shortcut (avp_code (av_obj s avp)) NULL (avp_unlink avp s)"
  note rep = avp_rep_seg [OF assms(1)]
  have "avp_addr (av_obj s x) \<noteq> avp" if "x \<in> set as \<union> set bs" for x
  proof -
    have "x \<noteq> NULL" "x \<noteq> avp" using that rep unfolding xs by auto
    then show ?thesis using avp_rep_addr [OF assms(1)] by simp
  qed
  then have "filter (\<lambda>x. avp_addr x \<noteq> avp) (map (av_obj s) xs) = map (av_obj s) (as @ bs)"
    using avp_rep_addr [OF assms] by (simp add: xs filter_map comp_def)
  moreover have "avps_from avp (map (av_obj s) xs) \<noteq> None"
    using True avp_addr_image [OF assms(1) rep(2)] by (auto simp: avps_from_None)
  ultimately have "AAARemoveAVPFromMessage (Some (abs_msg s xs)) (Some (av_obj s avp)) =
      (AAA_ERR_SUCCESS, Some (abs_msg ?s (as @ bs)))"
    using avp_rep_addr [OF assms]
    by (simp add: AAARemoveAVPFromMessage_def abs_msg_def set_shortcut_avpList del: not_None_eq)
  moreover have "remove_avp avp s = Some (AAA_ERR_SUCCESS, ?s)"
    using True assms(2) avp_walk_rep [OF assms(1), of avp] by (simp add: remove_avp_def)
  moreover have "avp_rep ?s (as @ bs)" using avp_rep_unlink [OF assms(1) [unfolded xs]] by simp
  ultimately show ?thesis by blast
qed

section \<open>The interface on pointers\<close>

definition avps_at :: "avp_store \<Rightarrow> AAA_AVP list \<Rightarrow> bool" where
  "avps_at s l \<longleftrightarrow> (\<exists>xs. avp_rep s xs \<and> l = map (av_obj s) xs)"

lemma avps_at_wf: "avps_at s l \<Longrightarrow> avps_wf l"
proof -
  assume "avps_at s l"
  then obtain xs where xs: "avp_rep s xs" "l = map (av_obj s) xs" unfolding avps_at_def by blast
  note rep = avp_rep_seg [OF xs(1)]
  show "avps_wf l"
    using rep avp_rep_addrs [OF xs(1) rep(2)] avp_addr_image [OF xs(1) rep(2)]
    by (simp add: avps_wf_def xs(2))
qed

interpretation ptr_avps: avp_sequence avps_at "\<lambda>s a. av_obj s (avp_addr a) = a"
  "\<lambda>s a. add_avp (avp_addr a) NULL s" "\<lambda>s c v. find_avp NULL c v AAA_FORWARD_SEARCH s"
  "\<lambda>s a. remove_avp (avp_addr a) s"
proof (unfold_locales, goal_cases)
  case (1 s l)
  then show ?case by (rule avps_at_wf)
next
  case (2 s l a)
  then obtain xs where xs: "avp_rep s xs" "l = map (av_obj s) xs" unfolding avps_at_def by blast
  have "avp_addr a \<notin> set xs" using 2 xs avp_addr_image [OF xs(1) avp_rep_seg(2) [OF xs(1)]] by blast
  then have "avp_rep (avp_link_first (avp_addr a) s) (avp_addr a # xs)"
    using add_first_refines [OF xs(1)] 2 by blast
  then show ?case using 2 xs unfolding avps_at_def add_avp_def
    by (intro exI [of _ "update_shortcut (avp_code a) (avp_addr a) (avp_link_first (avp_addr a) s)"] conjI
        exI [of _ "avp_addr a # xs"]) simp_all
next
  case (3 s l c v)
  then obtain xs where "avp_rep s xs" "l = map (av_obj s) xs" unfolding avps_at_def by blast
  then show ?case using find_avp_refines [of s xs NULL c v AAA_FORWARD_SEARCH]
    by (simp add: find_avp_forward abs_msg_def)
next
  case (4 s l a)
  then obtain xs where xs: "avp_rep s xs" "l = map (av_obj s) xs" unfolding avps_at_def by blast
  obtain x where x: "x \<in> set xs" "a = av_obj s x" using 4 xs by auto
  then have ax: "avp_addr a = x" "x \<noteq> NULL" using xs avp_rep_addr avp_rep_seg(2) by metis+
  from remove_avp_refines [OF xs(1) ax(2)] obtain r s' xs' where
    rm: "remove_avp x s = Some (r, s')" "avp_rep s' xs'"
      "AAARemoveAVPFromMessage (Some (abs_msg s xs)) (Some a) = (r, Some (abs_msg s' xs'))"
    unfolding x(2) by blast
  have "avps_from (avp_addr a) (map (av_obj s) xs) \<noteq> None"
    using 4 xs by (auto simp: avps_from_None)
  then have "r = AAA_ERR_SUCCESS"
    and "map (av_obj s') xs' = filter (\<lambda>y. avp_addr y \<noteq> avp_addr a) (map (av_obj s) xs)"
    using rm(3) by (auto simp: AAARemoveAVPFromMessage_def abs_msg_def dest!: arg_cong [of _ _ avpList])
  then show ?case using rm ax xs unfolding avps_at_def by metis
qed

section \<open>Properties\<close>

text \<open>
  (C6) The pointer manipulations of avp.c implement the operations on sequences: on a properly
  linked list, \<open>AAAAddAVPToMessage\<close> with a new AVP and any position, \<open>AAAFindMatchingAVP\<close> with any
  start and direction, and \<open>AAARemoveAVPFromMessage\<close> all end, leave a properly linked list, and
  return and store exactly what the operations on sequences do, error cases included.
\<close>

theorem avp_pointers_refine:
  assumes "avp_rep s xs" and "avp \<noteq> NULL"
  shows "(avp \<notin> set xs \<longrightarrow> (\<exists>r s' xs'. add_avp avp position s = Some (r, s') \<and> avp_rep s' xs' \<and>
      AAAAddAVPToMessage (Some (abs_msg s xs)) (Some (av_obj s avp)) position = (r, Some (abs_msg s' xs'))))
    \<and> find_avp position c v d s = Some (avp_ptr (AAAFindMatchingAVP (Some (abs_msg s xs)) position c v d))
    \<and> (\<exists>r s' xs'. remove_avp avp s = Some (r, s') \<and> avp_rep s' xs' \<and>
      AAARemoveAVPFromMessage (Some (abs_msg s xs)) (Some (av_obj s avp)) = (r, Some (abs_msg s' xs')))"
  using add_avp_refines [OF assms] find_avp_refines [OF assms(1)] remove_avp_refines [OF assms] by blast

definition sample_store :: avp_store where
  "sample_store = \<lparr>lh_next = (\<lambda>_. NULL)(3 := 5), lh_prev = (\<lambda>_. NULL)(5 := 3),
     av_obj = (\<lambda>p. \<lparr>avp_addr = p, packetType = AAA_DIAMETER, avp_code = of_nat p, avp_flags = 0,
       avp_type = AAA_AVP_DATA_TYPE, avp_vendorId = 0, avp_data_s = 1, avp_data = [1], free_it = False\<rparr>),
     al_head = 3, al_tail = 5, al_msg = zero_msg 9\<rparr>"

theorem avp_pointers_refine_witness:
  "\<exists>s' xs'. add_avp 7 3 sample_store = Some (AAA_ERR_SUCCESS, s') \<and> avp_rep s' xs' \<and>
    map avp_addr (avpList (abs_msg s' xs')) = [3, 7, 5]"
proof -
  have "avp_rep sample_store [3, 5]" by (simp add: avp_rep_def sample_store_def)
  from avp_pointers_refine [OF this, of 7 3 0 0 AAA_FORWARD_SEARCH] obtain r s' xs' where
    s': "add_avp 7 3 sample_store = Some (r, s')" "avp_rep s' xs'"
      "AAAAddAVPToMessage (Some (abs_msg sample_store [3, 5])) (Some (av_obj sample_store 7)) 3 =
        (r, Some (abs_msg s' xs'))"
    by auto
  have "AAAAddAVPToMessage (Some (abs_msg sample_store [3, 5])) (Some (av_obj sample_store 7)) 3 =
      (AAA_ERR_SUCCESS, Some (set_shortcut 7 7 ((abs_msg sample_store [3, 5])\<lparr>avpList :=
        map (av_obj sample_store) [3, 7, 5]\<rparr>)))"
    by (simp add: AAAAddAVPToMessage_def abs_msg_def sample_store_def)
  with s'(3) have "r = AAA_ERR_SUCCESS" "avpList (abs_msg s' xs') = map (av_obj sample_store) [3, 7, 5]"
    by (auto dest!: arg_cong [of _ _ avpList])
  then show ?thesis using s'(1,2) by (auto simp: sample_store_def)
qed

text \<open>
  A message is a searchable bag of AVPs, on the pointers of avp.c: an AVP that is added in
  front is what a search for its code and vendor returns, removing it succeeds and leaves the
  sequence of AVPs that was there before; and a search returns null exactly when no AVP of the
  message has the code and the vendor.
\<close>

lemma avp_add_find_remove:
  assumes "avps_at s l" and "av_obj s (avp_addr a) = a" and "avp_addr a \<noteq> NULL"
    and "avp_addr a \<notin> avp_addr ` set l"
  shows "(\<exists>s1 s2. add_avp (avp_addr a) NULL s = Some (AAA_ERR_SUCCESS, s1)
      \<and> find_avp NULL (avp_code a) (avp_vendorId a) AAA_FORWARD_SEARCH s1 = Some (avp_addr a)
      \<and> remove_avp (avp_addr a) s1 = Some (AAA_ERR_SUCCESS, s2) \<and> avps_at s2 l)
    \<and> (find_avp NULL c v AAA_FORWARD_SEARCH s = Some NULL \<longleftrightarrow>
        (\<forall>x \<in> set l. \<not> (avp_code x = c \<and> avp_vendorId x = v)))"
  using ptr_avps.add_look_del [OF assms] ptr_avps.look_null [OF assms(1), of c v] by blast

end
