(* ===== verification/Message_Codec.thy ===== *)
theory Message_Codec
  imports Diameter_Msg
begin

text \<open>
  message.c: building the buffer of a message, translating a buffer back into a message,
  creating answers and requests, and freeing messages. Buffers are byte lists, every write and
  read of the C code is checked against the buffer, and the value None of the option type
  stands for an access outside it (or, in \<open>mirror_proxy_info\<close>, for a loop that never ends).
  The lemmas show that building never writes outside the buffer it has allocated, that
  translating never reads outside the bytes received, and that translating what was built
  gives the message back.
\<close>

section \<open>Macros\<close>

definition get_3bytes :: "u8 \<Rightarrow> u8 \<Rightarrow> u8 \<Rightarrow> u32" where
  "get_3bytes a b c = push_bit 16 (ucast a) OR push_bit 8 (ucast b) OR ucast c"

definition get_4bytes :: "u8 \<Rightarrow> u8 \<Rightarrow> u8 \<Rightarrow> u8 \<Rightarrow> u32" where
  "get_4bytes a b c d =
     push_bit 24 (ucast a) OR push_bit 16 (ucast b) OR push_bit 8 (ucast c) OR ucast d"

definition set_3bytes :: "u32 \<Rightarrow> bytes" where
  "set_3bytes v = [ucast (drop_bit 16 (v AND 0x00ff0000)), ucast (drop_bit 8 (v AND 0x0000ff00)),
     ucast (v AND 0x000000ff)]"

definition set_4bytes :: "u32 \<Rightarrow> bytes" where
  "set_4bytes v = [ucast (drop_bit 24 (v AND 0xff000000)), ucast (drop_bit 16 (v AND 0x00ff0000)),
     ucast (drop_bit 8 (v AND 0x0000ff00)), ucast (v AND 0x000000ff)]"

text \<open>\<open>to_32x_len\<close> on the signed length of a \<open>str\<close>, which is never negative.\<close>

definition pad_len :: "nat \<Rightarrow> nat" where
  "pad_len len = len + (if len mod 4 \<noteq> 0 then 4 - len mod 4 else 0)"

section \<open>AAABuildMsgBuffer\<close>

definition msg_len :: "AAA_AVP list \<Rightarrow> nat" where
  "msg_len l = AAA_MSG_HDR_SIZE +
     sum_list (map (\<lambda>a. AVP_HDR_SIZE (avp_flags a) + pad_len (length (avp_data a))) l)"

definition build_header :: "AAAMessage \<Rightarrow> nat \<Rightarrow> bytes \<Rightarrow> bytes option" where
  "build_header msg len b = do {
     b \<leftarrow> poke 0 (be32 (of_nat len)) b;
     b \<leftarrow> poke 0 [1] b;
     b \<leftarrow> poke 4 (be32 (commandCode msg)) b;
     b \<leftarrow> poke 4 [msg_flags msg] b;
     b \<leftarrow> poke 8 (be32 (applicationId msg)) b;
     b \<leftarrow> poke 12 (le32 (hopbyhopId msg)) b;
     poke 16 (le32 (endtoendId msg)) b
   }"

fun build_avps :: "AAA_AVP list \<Rightarrow> nat \<Rightarrow> bytes \<Rightarrow> (nat \<times> bytes) option" where
  "build_avps [] p b = Some (p, b)"
| "build_avps (avp # l) p b = do {
     b \<leftarrow> poke p (set_4bytes (avp_code avp)) b;
     b \<leftarrow> poke (p + 4) [ucast (avp_flags avp)] b;
     b \<leftarrow> poke (p + 5) (set_3bytes (of_nat (AVP_HDR_SIZE (avp_flags avp) + length (avp_data avp)))) b;
     (q, b) \<leftarrow> (if avp_flags avp AND 0x80 \<noteq> 0
       then do { b \<leftarrow> poke (p + 8) (set_4bytes (avp_vendorId avp)) b; Some (p + 12, b) }
       else Some (p + 8, b));
     b \<leftarrow> poke q (avp_data avp) b;
     build_avps l (q + pad_len (length (avp_data avp))) b
   }"

text \<open>
  \<open>msg->buf.len\<close> is an \<open>int\<close>: a sum outside its range is undefined. When the allocation fails
  \<open>buf.s\<close> is null (the stale length is not kept in the model).
\<close>

definition AAABuildMsgBuffer :: "(nat \<Rightarrow> bool) \<Rightarrow> AAAMessage \<Rightarrow> shm \<Rightarrow> (int \<times> AAAMessage \<times> shm) option" where
  "AAABuildMsgBuffer ok msg m =
     (let len = msg_len (avpList msg)
      in if 2 ^ 31 \<le> len then None
         else let (s, m1) = shm_malloc ok m
           in if s = NULL then Some (- 1, msg\<lparr>buf_s := NULL, msg_buf := []\<rparr>, m1)
              else do {
                b \<leftarrow> build_header msg len (replicate len 0);
                (p, b) \<leftarrow> build_avps (avpList msg) 20 b;
                Some (if p \<noteq> len then (- 1, msg\<lparr>buf_s := NULL, msg_buf := []\<rparr>, shm_free s m1)
                  else (1, msg\<lparr>buf_s := s, msg_buf := b\<rparr>, m1))
              })"

section \<open>AAAFreeMessage and AAASetMessageResultCode\<close>

definition AAAFreeMessage :: "AAAMessage option \<Rightarrow> shm \<Rightarrow> AAAReturnCode \<times> shm" where
  "AAAFreeMessage msg m =
     (case msg of
        None \<Rightarrow> (AAA_ERR_SUCCESS, m)
      | Some g \<Rightarrow>
          (let m1 = fold (\<lambda>a m. snd (AAAFreeAVP (Some a) m)) (avpList g) m;
               m2 = (if buf_s g \<noteq> NULL then shm_free (buf_s g) m1 else m1)
           in (AAA_ERR_SUCCESS, shm_free (msg_addr g) m2)))"

text \<open>The code is stored in place over the first four bytes of the AVP's data.\<close>

definition AAASetMessageResultCode :: "AAAMessage \<Rightarrow> u32 \<Rightarrow> (AAAReturnCode \<times> AAAMessage) option" where
  "AAASetMessageResultCode message resultCode =
     (if \<not> is_req message \<and> res_code message \<noteq> NULL then
        (case find (\<lambda>a. avp_addr a = res_code message) (avpList message) of
           None \<Rightarrow> None
         | Some r \<Rightarrow> do {
             d \<leftarrow> poke 0 (be32 resultCode) (avp_data r);
             Some (AAA_ERR_SUCCESS, message\<lparr>avpList := map (\<lambda>a. if avp_addr a = res_code message
               then a\<lparr>avp_data := d\<rparr> else a) (avpList message)\<rparr>)
           })
      else Some (AAA_ERR_FAILURE, message))"

section \<open>AAATranslateMessage\<close>

definition peek_3bytes :: "bytes \<Rightarrow> nat \<Rightarrow> u32 option" where
  "peek_3bytes b i = (if i + 3 \<le> length b then Some (get_3bytes (b ! i) (b ! (i + 1)) (b ! (i + 2))) else None)"

definition peek_4bytes :: "bytes \<Rightarrow> nat \<Rightarrow> u32 option" where
  "peek_4bytes b i = (if i + 4 \<le> length b
     then Some (get_4bytes (b ! i) (b ! (i + 1)) (b ! (i + 2)) (b ! (i + 3))) else None)"

text \<open>
  The header of the AVP at offset \<open>p\<close> up to the check of the data length: code, flags, vendor,
  offset and length of the data. The inner None is the jump to \<open>error\<close>.
\<close>

definition translate_avp :: "bytes \<Rightarrow> nat \<Rightarrow> nat \<Rightarrow> (u32 \<times> u8 \<times> u32 \<times> nat \<times> u32) option option" where
  "translate_avp source mlen p =
     (if mlen < p + AVP_HDR_SIZE 0x80 then Some None
      else do {
        avp_code \<leftarrow> peek_4bytes source p;
        avp_flags \<leftarrow> peek source (p + 4);
        avp_len \<leftarrow> peek_3bytes source (p + 5);
        if avp_len < 1 then Some None
        else do {
          (avp_vendorID, q) \<leftarrow> (if avp_flags AND 0x80 \<noteq> 0
            then do { v \<leftarrow> peek_4bytes source (p + 8); Some (v, p + 12) }
            else Some (0, p + 8));
          let avp_data_len = avp_len - of_nat (AVP_HDR_SIZE (ucast avp_flags));
          Some (if mlen < q + unat avp_data_len then None
            else Some (avp_code, avp_flags, avp_vendorID, q, avp_data_len))
        }
      })"

lemma translate_avp_forward:
  "translate_avp source mlen p = Some (Some (c, f, v, q, n)) \<Longrightarrow> p + 8 \<le> q"
  by (auto simp: translate_avp_def Let_def split: if_splits bind_splits)

function translate_avps :: "(nat \<Rightarrow> bool) \<Rightarrow> ptr \<Rightarrow> bytes \<Rightarrow> nat \<Rightarrow> nat \<Rightarrow> AAAMessage \<Rightarrow> shm \<Rightarrow>
    (bool \<times> AAAMessage \<times> shm) option" where
  "translate_avps ok src source mlen p msg m =
     (if p < mlen then
        (case translate_avp source mlen p of
           None \<Rightarrow> None
         | Some None \<Rightarrow> Some (False, msg, m)
         | Some (Some (c, f, v, q, n)) \<Rightarrow>
             (case peekn source q (unat n) of
                None \<Rightarrow> None
              | Some data \<Rightarrow>
                  (case AAACreateAVP ok c (ucast f) v (src + q) data AVP_DONT_FREE_DATA m of
                     (None, m1) \<Rightarrow> Some (False, msg, m1)
                   | (Some avp, m1) \<Rightarrow>
                       (case AAAAddAVPToMessage (Some msg) (Some avp) (avp_tail msg) of
                          (r, None) \<Rightarrow> None
                        | (r, Some msg') \<Rightarrow>
                            translate_avps ok src source mlen (q + unat (to_32x_len n)) msg' m1))))
      else Some (True, msg, m))"
  by pat_completeness auto
termination
  by (relation "measure (\<lambda>(ok, src, source, mlen, p, msg, m). mlen - p)")
    (auto dest!: translate_avp_forward)

declare translate_avps.simps [simp del]

text \<open>
  \<open>source\<close> holds the \<open>sourceLen\<close> bytes at the address \<open>src\<close>. A buffer that is null or shorter
  than a header makes the code jump to \<open>error\<close> before \<open>msg\<close> is set, and \<open>AAAFreeMessage\<close> follows
  the uninitialised pointer: the value None.
\<close>

definition AAATranslateMessage :: "(nat \<Rightarrow> bool) \<Rightarrow> ptr \<Rightarrow> bytes \<Rightarrow> bool \<Rightarrow> shm \<Rightarrow> (AAAMessage option \<times> shm) option" where
  "AAATranslateMessage ok src source attach_buf m =
     (if src = NULL \<or> length source = 0 \<or> length source < AAA_MSG_HDR_SIZE then None
      else let (a, m1) = shm_malloc ok m
        in if a = NULL then Some (None, snd (AAAFreeMessage None m1))
           else do {
             version \<leftarrow> peek source 0;
             if version \<noteq> 1 then Some (None, snd (AAAFreeMessage (Some (zero_msg a)) m1))
             else do {
               mlen \<leftarrow> peek_3bytes source 1;
               if length source < unat mlen then Some (None, snd (AAAFreeMessage (Some (zero_msg a)) m1))
               else do {
                 fl \<leftarrow> peek source 4;
                 code \<leftarrow> peek_3bytes source 5;
                 app \<leftarrow> peek_4bytes source 8;
                 hop \<leftarrow> peek4le source 12;
                 e2e \<leftarrow> peek4le source 16;
                 (done, msg, m2) \<leftarrow> translate_avps ok src source (unat mlen) 20
                   ((zero_msg a)\<lparr>msg_flags := fl, commandCode := code, applicationId := app,
                     hopbyhopId := hop, endtoendId := e2e\<rparr>) m1;
                 Some (if \<not> done then (None, snd (AAAFreeMessage (Some msg) m2))
                   else (Some (if attach_buf then msg\<lparr>buf_s := src, msg_buf := take (unat mlen) source\<rparr>
                     else msg), m2))
               }
             }
           })"

section \<open>AAANewMessage\<close>

text \<open>
  Creating an AVP and adding it: on a failure the AVP is freed and the code jumps to \<open>error\<close>
  (False).
\<close>

definition new_avp :: "(nat \<Rightarrow> bool) \<Rightarrow> u32 \<Rightarrow> ptr \<Rightarrow> bytes \<Rightarrow> AVPDataStatus \<Rightarrow> (AAAMessage \<Rightarrow> ptr) \<Rightarrow>
    AAAMessage \<Rightarrow> shm \<Rightarrow> bool \<times> AAAMessage \<times> shm" where
  "new_avp ok code data_s data status position msg m =
     (case AAACreateAVP ok code 0 0 data_s data status m of
        (None, m1) \<Rightarrow> (False, msg, m1)
      | (Some avp, m1) \<Rightarrow>
          (case AAAAddAVPToMessage (Some msg) (Some avp) (position msg) of
             (r, None) \<Rightarrow> (False, msg, m1)
           | (r, Some msg') \<Rightarrow>
               if r \<noteq> AAA_ERR_SUCCESS then (False, msg, snd (AAAFreeAVP (Some avp) m1))
               else (True, set_shortcut code (avp_addr avp) msg', m1)))"

text \<open>
  The loop that mirrors the Proxy-Info AVPs of the request. Every search starts at the AVP that
  the last one found.
\<close>

partial_function (option) mirror_proxy_info :: "(nat \<Rightarrow> bool) \<Rightarrow> AAAMessage \<Rightarrow> ptr \<Rightarrow> AAAMessage \<Rightarrow> shm \<Rightarrow>
    (bool \<times> AAAMessage \<times> shm) option" where
  "mirror_proxy_info ok request avp_t msg m =
     (case AAAFindMatchingAVP (Some request) avp_t AVP_Proxy_Info 0 AAA_FORWARD_SEARCH of
        None \<Rightarrow> Some (True, msg, m)
      | Some a \<Rightarrow>
          (case AAACloneAVP ok (Some a) False m of
             (None, m1) \<Rightarrow> Some (False, msg, m1)
           | (Some avp, m1) \<Rightarrow>
               (case AAAAddAVPToMessage (Some msg) (Some avp) (avp_tail msg) of
                  (r, None) \<Rightarrow> Some (False, msg, m1)
                | (r, Some msg') \<Rightarrow>
                    if r \<noteq> AAA_ERR_SUCCESS then Some (False, msg', m1)
                    else mirror_proxy_info ok request (avp_addr a) msg' m1)))"

definition answer_fields :: "AAAMessage \<Rightarrow> AAAMessage \<Rightarrow> AAAMessage" where
  "answer_fields request msg = msg\<lparr>sId := sId request, in_peer := in_peer request,
     msg_flags := msg_flags msg OR (msg_flags request AND 0x40),
     endtoendId := endtoendId request, hopbyhopId := hopbyhopId request\<rparr>"

text \<open>
  \<open>sessionId\<close> is the address of the \<open>str\<close>, its \<open>s\<close> pointer and its bytes; \<open>identity\<close> and \<open>realm\<close>
  are the globals \<open>aaa_identity\<close> and \<open>aaa_realm\<close>.
\<close>

definition AAANewMessage :: "(nat \<Rightarrow> bool) \<Rightarrow> ptr \<times> bytes \<Rightarrow> ptr \<times> bytes \<Rightarrow> u32 \<Rightarrow> u32 \<Rightarrow>
    (ptr \<times> ptr \<times> bytes) option \<Rightarrow> AAAMessage option \<Rightarrow> shm \<Rightarrow> (AAAMessage option \<times> shm) option" where
  "AAANewMessage ok identity realm code appId sessionId request m =
     (case sessionId of
        None \<Rightarrow> Some (None, snd (AAAFreeMessage None m))
      | Some (sid, sid_s, sid_data) \<Rightarrow>
          let (a, m1) = shm_malloc ok m
          in if a = NULL then Some (None, snd (AAAFreeMessage None m1))
             else
               let msg = (zero_msg a)\<lparr>commandCode := code, applicationId := appId\<rparr>;
                   (ok1, msg1, m2) = new_avp ok 263 sid_s sid_data AVP_DONT_FREE_DATA (\<lambda>_. NULL) msg m1
               in if \<not> ok1 then Some (None, snd (AAAFreeMessage (Some msg1) m2)) else
               let (ok2, msg2, m3) = new_avp ok 264 (fst identity) (snd identity) AVP_DONT_FREE_DATA avp_tail msg1 m2
               in if \<not> ok2 then Some (None, snd (AAAFreeMessage (Some msg2) m3)) else
               let (ok3, msg3, m4) = new_avp ok 296 (fst realm) (snd realm) AVP_DONT_FREE_DATA avp_tail msg2 m3
               in if \<not> ok3 then Some (None, snd (AAAFreeMessage (Some msg3) m4)) else
               (case request of
                  None \<Rightarrow> Some (Some (msg3\<lparr>msg_flags := 0x80, sId := sid\<rparr>), m4)
                | Some req \<Rightarrow>
                    let (ok4, msg4, m5) = new_avp ok AVP_Result_Code 1 (be32 AAA_SUCCESS) AVP_DUPLICATE_DATA
                          msg_sessionId (answer_fields req msg3) m4
                    in if \<not> ok4 then Some (None, snd (AAAFreeMessage (Some msg4) m5)) else
                    do {
                      (ok5, msg5, m6) \<leftarrow> mirror_proxy_info ok req
                        (avp_ptr (AAAGetFirstAVP (avpList req))) msg4 m5;
                      Some (if ok5 then (Some msg5, m6) else (None, snd (AAAFreeMessage (Some msg5) m6)))
                    }))"

section \<open>The wire format\<close>

text \<open>The macros read and write big-endian integers.\<close>

lemma byte_masks:
  "(0xff000000 :: u32) = push_bit 24 (mask 8)" "(0x00ff0000 :: u32) = push_bit 16 (mask 8)"
  "(0x0000ff00 :: u32) = push_bit 8 (mask 8)" "(0x000000ff :: u32) = mask 8"
  by (simp_all add: mask_eq_exp_minus_1)

lemma byte_of:
  "(ucast (drop_bit 24 (v AND push_bit 24 (mask 8))) :: u8) = ucast (drop_bit 24 (v :: u32))"
  "(ucast (drop_bit 16 (v AND push_bit 16 (mask 8))) :: u8) = ucast (drop_bit 16 v)"
  "(ucast (drop_bit 8 (v AND push_bit 8 (mask 8))) :: u8) = ucast (drop_bit 8 v)"
  "(ucast (v AND mask 8) :: u8) = ucast v"
  by (rule bit_word_eqI; auto simp: bit_simps)+

lemma set_4bytes_be32: "set_4bytes v = be32 v"
  unfolding set_4bytes_def be32_def byte_masks byte_of ..

lemma set_3bytes_be32: "set_3bytes v = tl (be32 v)"
  unfolding set_3bytes_def be32_def byte_masks byte_of by simp

lemma get_bytes_be32: "get_4bytes a b c d = of_be32 a b c d" "get_3bytes a b c = of_be32 0 a b c"
  by (simp_all add: get_4bytes_def get_3bytes_def of_be32_def)

lemma pad_len_props: "len \<le> pad_len len" "pad_len len - len < 4" "pad_len len mod 4 = 0"
  unfolding pad_len_def by (auto; presburger)+

lemma unat_to_32x_len_pad:
  assumes "n < 2 ^ 24"
  shows "unat (to_32x_len (of_nat n)) = pad_len n"
proof -
  have "unat (of_nat n :: u32) = n" using assms by (intro unat_of_nat_u32) simp
  moreover have "pad_len n = (n + 3) div 4 * 4" unfolding pad_len_def by (cases "n mod 4 = 0") presburger+
  ultimately show ?thesis using assms unat_to_32x_len [of "of_nat n"] by simp
qed

text \<open>The specification of the encoding.\<close>

abbreviation vendor_flag :: "AAA_AVP \<Rightarrow> bool" where
  "vendor_flag a \<equiv> avp_flags a AND 0x80 \<noteq> 0"

definition avp_wire_len :: "AAA_AVP \<Rightarrow> nat" where
  "avp_wire_len a = AVP_HDR_SIZE (avp_flags a) + pad_len (length (avp_data a))"

definition encode_avp :: "AAA_AVP \<Rightarrow> bytes" where
  "encode_avp a = be32 (avp_code a) @ [ucast (avp_flags a)] @
     tl (be32 (of_nat (AVP_HDR_SIZE (avp_flags a) + length (avp_data a)))) @
     (if vendor_flag a then be32 (avp_vendorId a) else []) @
     avp_data a @ replicate (pad_len (length (avp_data a)) - length (avp_data a)) 0"

definition encode_header :: "AAAMessage \<Rightarrow> bytes" where
  "encode_header msg = [1] @ tl (be32 (of_nat (msg_len (avpList msg)))) @ [msg_flags msg] @
     tl (be32 (commandCode msg)) @ be32 (applicationId msg) @ le32 (hopbyhopId msg) @ le32 (endtoendId msg)"

definition encode_msg :: "AAAMessage \<Rightarrow> bytes" where
  "encode_msg msg = encode_header msg @ concat (map encode_avp (avpList msg))"

lemma length_encode_avp [simp]: "length (encode_avp a) = avp_wire_len a"
  using pad_len_props(1) [of "length (avp_data a)"]
  by (simp add: encode_avp_def avp_wire_len_def AVP_HDR_SIZE_def)

lemma length_encode_header [simp]: "length (encode_header msg) = 20"
  by (simp add: encode_header_def)

lemma length_encode_avps: "length (concat (map encode_avp l)) = sum_list (map avp_wire_len l)"
  by (induction l) auto

lemma msg_len_wire: "msg_len l = 20 + sum_list (map avp_wire_len l)"
  unfolding msg_len_def AAA_MSG_HDR_SIZE_def avp_wire_len_def [abs_def] by simp

lemma length_encode_msg: "length (encode_msg msg) = msg_len (avpList msg)"
  by (simp add: encode_msg_def length_encode_avps msg_len_wire)

section \<open>Building\<close>

lemma poke_skip:
  "length ys \<le> k \<Longrightarrow> poke k d (ys @ zs) = map_option ((@) ys) (poke (k - length ys) d zs)"
  "0 < k \<Longrightarrow> poke k d (y # zs) = map_option ((#) y) (poke (k - 1) d zs)"
  by (auto simp: poke_def take_Cons' drop_Cons')

lemma poke_zeros: "length d \<le> n \<Longrightarrow> poke 0 d (replicate n 0) = Some (d @ replicate (n - length d) 0)"
  by (simp add: poke_def)

lemma build_header_spec:
  assumes "20 \<le> n" and "n = msg_len (avpList msg)"
  shows "build_header msg n (replicate n 0) = Some (encode_header msg @ replicate (n - 20) 0)"
proof -
  have r: "replicate n (0 :: u8) = replicate 20 0 @ replicate (n - 20) 0"
    using assms(1) by (simp flip: replicate_add)
  show ?thesis
    unfolding r build_header_def using assms(2)
    by (simp add: poke_def be32_def le32_def encode_header_def numeral_eq_Suc)
qed

lemma build_avps_step:
  assumes "length xs = p" and "avp_wire_len a \<le> n"
  shows "build_avps (a # l) p (xs @ replicate n 0) =
    build_avps l (p + avp_wire_len a) ((xs @ encode_avp a) @ replicate (n - avp_wire_len a) 0)"
proof -
  let ?d = "avp_data a" and ?f = "[ucast (avp_flags a) :: u8]" and ?c = "be32 (avp_code a)"
  let ?t = "tl (be32 (of_nat (AVP_HDR_SIZE (avp_flags a) + length ?d)))"
  have pad: "length ?d \<le> pad_len (length ?d)" by (rule pad_len_props)
  have n: "AVP_HDR_SIZE (avp_flags a) + pad_len (length ?d) \<le> n" using assms(2) by (simp add: avp_wire_len_def)
  have z: "replicate (n - AVP_HDR_SIZE (avp_flags a) - length ?d) (0 :: u8) =
      replicate (pad_len (length ?d) - length ?d) 0 @ replicate (n - avp_wire_len a) 0"
    using n pad by (simp add: avp_wire_len_def flip: replicate_add)
  show ?thesis
  proof (cases "vendor_flag a")
    case True
    then have h: "AVP_HDR_SIZE (avp_flags a) = 12" by (simp add: AVP_HDR_SIZE_def)
    show ?thesis using True n pad assms(1) z unfolding h
      by (simp add: poke_skip poke_zeros set_4bytes_be32 set_3bytes_be32 encode_avp_def avp_wire_len_def h ac_simps)
  next
    case False
    then have h: "AVP_HDR_SIZE (avp_flags a) = 8" by (simp add: AVP_HDR_SIZE_def)
    show ?thesis using False n pad assms(1) z unfolding h
      by (simp add: poke_skip poke_zeros set_4bytes_be32 set_3bytes_be32 encode_avp_def avp_wire_len_def h ac_simps)
  qed
qed

lemma build_avps_spec:
  assumes "length xs = p" and "n = sum_list (map avp_wire_len l)"
  shows "build_avps l p (xs @ replicate n 0) = Some (p + n, xs @ concat (map encode_avp l))"
  using assms
proof (induction l arbitrary: xs p n)
  case Nil
  then show ?case by simp
next
  case (Cons a l)
  from Cons.IH [of "xs @ encode_avp a" "p + avp_wire_len a" "n - avp_wire_len a"] Cons.prems
  show ?case by (simp add: build_avps_step del: build_avps.simps append_assoc)
qed

lemma build_msg_spec:
  assumes "msg_len (avpList msg) < 2 ^ 31"
  shows "AAABuildMsgBuffer ok msg m =
    (let (s, m1) = shm_malloc ok m
     in if s = NULL then Some (- 1, msg\<lparr>buf_s := NULL, msg_buf := []\<rparr>, m1)
        else Some (1, msg\<lparr>buf_s := s, msg_buf := encode_msg msg\<rparr>, m1))"
proof -
  let ?n = "msg_len (avpList msg)"
  have "20 \<le> ?n" by (simp add: msg_len_wire)
  from build_header_spec [OF this refl]
  have "build_header msg ?n (replicate ?n 0) = Some (encode_header msg @ replicate (?n - 20) 0)" .
  moreover have "build_avps (avpList msg) 20 (encode_header msg @ replicate (?n - 20) 0) =
      Some (?n, encode_msg msg)"
    by (simp add: build_avps_spec encode_msg_def msg_len_wire)
  ultimately show ?thesis using assms
    by (simp add: AAABuildMsgBuffer_def Let_def case_prod_unfold)
qed

section \<open>Translating: memory safety\<close>

definition msg_in :: "shm \<Rightarrow> AAAMessage \<Rightarrow> bool" where
  "msg_in m msg \<longleftrightarrow> msg_wf msg \<and> (\<forall>a \<in> set (avpList msg). avp_addr a \<le> shm_calls m)"

text \<open>The fields of a message that the operations on its AVPs leave alone.\<close>

definition msg_hdr :: "AAAMessage \<Rightarrow> ptr \<times> u8 \<times> u32 \<times> u32 \<times> u32 \<times> u32 \<times> ptr \<times> ptr \<times> bytes \<times> ptr" where
  "msg_hdr g = (msg_addr g, msg_flags g, commandCode g, applicationId g, endtoendId g, hopbyhopId g,
     sId g, buf_s g, msg_buf g, in_peer g)"

lemma msg_hdr_simps [simp]:
  "msg_hdr (set_shortcut c p g) = msg_hdr g" "msg_hdr (g\<lparr>avpList := l\<rparr>) = msg_hdr g"
  by (simp_all add: msg_hdr_def)

lemma msg_in_fresh:
  "msg_in m msg \<Longrightarrow> avp_addr a = Suc (shm_calls m) \<Longrightarrow> avp_addr a \<notin> avp_addr ` set (avpList msg)"
  unfolding msg_in_def by fastforce

lemma add_tail_in:
  assumes "msg_in m msg" and "avp_addr a = Suc (shm_calls m)" and "shm_calls m' = Suc (shm_calls m)"
  shows "\<exists>msg'. AAAAddAVPToMessage (Some msg) (Some a) (avp_tail msg) = (AAA_ERR_SUCCESS, Some msg')
    \<and> msg_in m' msg' \<and> avpList msg' = avpList msg @ [a] \<and> msg_hdr msg' = msg_hdr msg"
proof -
  let ?msg = "set_shortcut (avp_code a) (avp_addr a) (msg\<lparr>avpList := avpList msg @ [a]\<rparr>)"
  have wf: "msg_wf msg" "avps_wf (avpList msg)" using assms(1) by (auto simp: msg_in_def msg_wf_def)
  note add = add_avp_tail [OF wf(2), of a]
  have "msg_wf ?msg"
    using add_avp_wf [OF wf(1) _ msg_in_fresh [OF assms(1,2)] add] assms(2) by simp
  moreover have "\<forall>x \<in> set (avpList ?msg). avp_addr x \<le> shm_calls m'"
    using assms by (auto simp: msg_in_def le_SucI)
  ultimately show ?thesis using add by (auto simp: msg_in_def)
qed

lemma create_avp_cases:
  assumes "AAACreateAVP ok c f v s d AVP_DONT_FREE_DATA m = (r, m')"
  shows "r = None \<and> shm_live m' = shm_live m \<and> shm_calls m \<le> shm_calls m' \<or>
    r = Some ((set_avp_fields c \<lparr>avp_addr = Suc (shm_calls m), packetType = AAA_DIAMETER, avp_code = c,
        avp_flags = f, avp_type = AAA_AVP_DATA_TYPE, avp_vendorId = v, avp_data_s = NULL, avp_data = [],
        free_it = False\<rparr>)\<lparr>avp_data_s := s, avp_data := d, free_it := False\<rparr>)
      \<and> s \<noteq> NULL \<and> d \<noteq> [] \<and> ok (shm_calls m)
      \<and> m' = \<lparr>shm_calls = Suc (shm_calls m), shm_live = Suc (shm_calls m) # shm_live m\<rparr>"
  using assms by (auto simp: AAACreateAVP_def shm_malloc_def Let_def split: if_splits)

lemma translate_avp_bounds:
  assumes "mlen \<le> length source"
  shows "translate_avp source mlen p \<noteq> None"
    and "translate_avp source mlen p = Some (Some (c, f, v, q, n)) \<Longrightarrow> q + unat n \<le> mlen"
  using assms
  by (auto simp: translate_avp_def peek_4bytes_def peek_3bytes_def peek_def AVP_HDR_SIZE_def Let_def
      split: if_splits)

text \<open>
  What the loop has done when it stops, with or without an error: it has appended AVPs that it
  allocated and that own no data, and nothing else is in use.
\<close>

definition appended :: "AAAMessage \<Rightarrow> shm \<Rightarrow> AAAMessage \<Rightarrow> shm \<Rightarrow> bool" where
  "appended msg m msg' m' \<longleftrightarrow> msg_in m' msg' \<and> msg_hdr msg' = msg_hdr msg \<and> shm_calls m \<le> shm_calls m' \<and>
     (\<exists>as. avpList msg' = avpList msg @ as \<and> shm_live m' = rev (map avp_addr as) @ shm_live m \<and>
       (\<forall>a \<in> set as. \<not> free_it a \<and> shm_calls m < avp_addr a))"

lemma appended_refl: "msg_in m msg \<Longrightarrow> shm_live m' = shm_live m \<Longrightarrow> shm_calls m \<le> shm_calls m' \<Longrightarrow> appended msg m msg m'"
  unfolding appended_def msg_in_def by fastforce

lemma appended_snoc:
  assumes "appended msg1 m1 msg' m'" and "avpList msg1 = avpList msg @ [a]" and "msg_hdr msg1 = msg_hdr msg"
    and "avp_addr a = Suc (shm_calls m)" and "\<not> free_it a"
    and "shm_calls m1 = Suc (shm_calls m)" and "shm_live m1 = Suc (shm_calls m) # shm_live m"
  shows "appended msg m msg' m'"
proof -
  from assms(1) obtain as where as: "avpList msg' = avpList msg1 @ as"
    "shm_live m' = rev (map avp_addr as) @ shm_live m1" "\<forall>a \<in> set as. \<not> free_it a \<and> shm_calls m1 < avp_addr a"
    and rest: "msg_in m' msg'" "msg_hdr msg' = msg_hdr msg1" "shm_calls m1 \<le> shm_calls m'"
    unfolding appended_def by blast
  then show ?thesis using assms(2-) unfolding appended_def
    by (intro conjI exI [of _ "a # as"]) auto
qed

lemma translate_avps_safe:
  assumes "msg_in m msg" and "mlen \<le> length source"
  shows "\<exists>r msg' m'. translate_avps ok src source mlen p msg m = Some (r, msg', m') \<and> appended msg m msg' m'"
  using assms
proof (induction ok src source mlen p msg m rule: translate_avps.induct)
  case (1 ok src source mlen p msg m)
  note [simp] = translate_avps.simps [of ok src source mlen p msg m]
  show ?case
  proof (cases "p < mlen")
    case False
    then show ?thesis using appended_refl [OF 1(2), of m] by (intro exI [of _ True]) simp
  next
    case p: True
    from translate_avp_bounds(1) [OF 1(3)] obtain h where h: "translate_avp source mlen p = Some h" by auto
    show ?thesis
    proof (cases h)
      case None
      then show ?thesis using p h appended_refl [OF 1(2), of m] by (intro exI [of _ False]) simp
    next
      case (Some x)
      obtain c f v q n where x: "x = (c, f, v, q, n)" by (cases x) auto
      have "q + unat n \<le> mlen" using translate_avp_bounds(2) [OF 1(3)] h Some x by blast
      then obtain d where d: "peekn source q (unat n) = Some d" using 1(3) by (auto simp: peekn_def)
      obtain r m1 where cr: "AAACreateAVP ok c (ucast f) v (src + q) d AVP_DONT_FREE_DATA m = (r, m1)"
        by fastforce
      show ?thesis
      proof (cases r)
        case None
        then show ?thesis using p h Some x d cr create_avp_cases [OF cr] appended_refl [OF 1(2)]
          by (intro exI [of _ False]) simp
      next
        case (Some a)
        then have a: "avp_addr a = Suc (shm_calls m)" "\<not> free_it a" "shm_calls m1 = Suc (shm_calls m)"
          "shm_live m1 = Suc (shm_calls m) # shm_live m"
          using create_avp_cases [OF cr] by auto
        from add_tail_in [OF 1(2) a(1,3)] obtain msg1 where
          msg1: "AAAAddAVPToMessage (Some msg) (Some a) (avp_tail msg) = (AAA_ERR_SUCCESS, Some msg1)"
            "msg_in m1 msg1" "avpList msg1 = avpList msg @ [a]" "msg_hdr msg1 = msg_hdr msg" by blast
        note IH = 1(1) [OF p h \<open>h = Some x\<close> x [symmetric] refl refl refl d cr [symmetric] Some
            msg1(1) [symmetric] refl msg1(2) 1(3)]
        show ?thesis
          using IH p h \<open>h = Some x\<close> x d cr Some msg1(1)
            appended_snoc [OF _ msg1(3,4) a(1,2,3,4)]
          by auto
      qed
    qed
  qed
qed

text \<open>Freeing a message whose AVPs own no data.\<close>

lemma free_avps_live:
  assumes "shm_wf m" and "\<forall>a \<in> set l. \<not> free_it a"
  shows "shm_wf (fold (\<lambda>a m. snd (AAAFreeAVP (Some a) m)) l m) \<and>
    set (shm_live (fold (\<lambda>a m. snd (AAAFreeAVP (Some a) m)) l m)) = set (shm_live m) - avp_addr ` set l"
  using assms
proof (induction l arbitrary: m)
  case (Cons a l)
  then show ?case
    using Cons.IH [of "shm_free (avp_addr a) m"] shm.free_wf [of m] shm.free_live [of m]
    by (auto simp: AAAFreeAVP_def)
qed simp

lemma free_message_live:
  assumes "shm_wf m" and "\<forall>a \<in> set (avpList msg). \<not> free_it a" and "buf_s msg = NULL"
  shows "set (shm_live (snd (AAAFreeMessage (Some msg) m))) =
    set (shm_live m) - insert (msg_addr msg) (avp_addr ` set (avpList msg))"
  using free_avps_live [OF assms(1,2)] assms(3) shm.free_live
  by (auto simp: AAAFreeMessage_def Let_def)

lemma shm_wf_calls: "shm_wf m \<Longrightarrow> x \<in> set (shm_live m) \<Longrightarrow> x \<le> shm_calls m"
  unfolding shm_wf_def by blast

lemma appended_wf:
  assumes "shm_wf m" and "appended msg m msg' m'"
  shows "shm_wf m'"
proof -
  from assms(2) obtain as where as: "avpList msg' = avpList msg @ as"
    "shm_live m' = rev (map avp_addr as) @ shm_live m" "\<forall>a \<in> set as. \<not> free_it a \<and> shm_calls m < avp_addr a"
    and rest: "msg_in m' msg'" "shm_calls m \<le> shm_calls m'"
    unfolding appended_def by blast
  have "distinct (map avp_addr as)" "\<forall>a \<in> set as. 0 < avp_addr a \<and> avp_addr a \<le> shm_calls m'"
    using rest as by (auto simp: msg_in_def msg_wf_def avps_wf_def)
  moreover have "set (rev (map avp_addr as)) \<inter> set (shm_live m) = {}"
    using as(3) shm_wf_calls [OF assms(1)] by fastforce
  ultimately show ?thesis using assms(1) rest(2) unfolding shm_wf_def as(2) by fastforce
qed

lemma translate_freed:
  assumes "shm_wf m" and "a = Suc (shm_calls m)"
    and "m1 = \<lparr>shm_calls = a, shm_live = a # shm_live m\<rparr>" and "appended msg m1 msg' m'"
    and "avpList msg = []" and "msg_addr msg = a" and "buf_s msg = NULL"
  shows "set (shm_live (snd (AAAFreeMessage (Some msg') m'))) = set (shm_live m)"
proof -
  have wf1: "shm_wf m1" using assms(1-3) unfolding shm_wf_def by fastforce
  note wf' = appended_wf [OF this assms(4)]
  from assms(4,5) obtain as where as: "avpList msg' = as"
    "shm_live m' = rev (map avp_addr as) @ shm_live m1" "\<forall>x \<in> set as. \<not> free_it x \<and> shm_calls m1 < avp_addr x"
    unfolding appended_def by auto
  have hdr: "msg_addr msg' = a" "buf_s msg' = NULL"
    using assms(4,6,7) by (auto simp: appended_def msg_hdr_def)
  have "avp_addr ` set as \<inter> set (shm_live m) = {}" "a \<notin> set (shm_live m)"
    using as(3) assms(2,3) shm_wf_calls [OF assms(1)] by fastforce+
  then show ?thesis
    using free_message_live [OF wf' _ hdr(2)] as hdr(1) assms(3) by auto
qed

lemma msg_in_zero: "avpList g = [] \<Longrightarrow> (\<And>c. shortcut c g = NULL) \<Longrightarrow> msg_in m g"
  by (simp add: msg_in_def msg_wf_def avps_wf_def)

section \<open>Translating what was built\<close>

lemma peek_skip:
  "length ys \<le> k \<Longrightarrow> peek (ys @ zs) k = peek zs (k - length ys)"
  "length ys \<le> k \<Longrightarrow> peek_4bytes (ys @ zs) k = peek_4bytes zs (k - length ys)"
  "length ys \<le> k \<Longrightarrow> peek_3bytes (ys @ zs) k = peek_3bytes zs (k - length ys)"
  "length ys \<le> k \<Longrightarrow> peek4le (ys @ zs) k = peek4le zs (k - length ys)"
  "length ys \<le> k \<Longrightarrow> peekn (ys @ zs) k n = peekn zs (k - length ys) n"
  by (auto simp: peek_def peek_4bytes_def peek_3bytes_def peek4le_def peekn_def nth_append Suc_diff_le)

lemma peek_skip_Cons:
  "0 < k \<Longrightarrow> peek_4bytes (y # zs) k = peek_4bytes zs (k - 1)"
  "0 < k \<Longrightarrow> peek_3bytes (y # zs) k = peek_3bytes zs (k - 1)"
  "0 < k \<Longrightarrow> peek4le (y # zs) k = peek4le zs (k - 1)"
  "0 < k \<Longrightarrow> peek (y # zs) k = peek zs (k - 1)"
  "0 < k \<Longrightarrow> peekn (y # zs) k n = peekn zs (k - 1) n"
  using peek_skip [of "[y]" k zs] by simp_all

lemma peek_here:
  "peek (y # zs) 0 = Some y" "peek_4bytes (be32 w @ zs) 0 = Some w" "peek4le (le32 w @ zs) 0 = Some w"
  "peek_3bytes (tl (be32 w) @ zs) 0 = Some (take_bit 24 w)"
  "n = length d \<Longrightarrow> peekn (d @ zs) 0 n = Some d"
  by (simp_all add: peek_def peek_4bytes_def peek_3bytes_def get_bytes_be32 be32_def of_be32_be32
      of_be32_three peekn_def peek4le_def le32_def)

lemmas peek_steps = peek_skip peek_skip_Cons peek_here

definition avp_content :: "AAA_AVP \<Rightarrow> u32 \<times> u32 \<times> AAA_AVPDataType \<times> u32 \<times> bytes" where
  "avp_content a = (avp_code a, avp_flags a, avp_type a, avp_vendorId a, avp_data a)"

text \<open>
  The AVPs that \<open>AAACreateAVP\<close> makes: flags of one byte as \<open>set_avp_fields\<close> leaves them, a
  vendor only with the vendor flag, and data.
\<close>

definition canonical_avp :: "AAA_AVP \<Rightarrow> bool" where
  "canonical_avp a \<longleftrightarrow> unat (avp_flags a) < 256 \<and> set_avp_fields (avp_code a) a = a \<and>
     (\<not> vendor_flag a \<longrightarrow> avp_vendorId a = 0) \<and> avp_data a \<noteq> []"

lemma flag_80: "(f :: u32) AND 0x80 \<noteq> 0 \<longleftrightarrow> bit f 7" "(g :: u8) AND 0x80 \<noteq> 0 \<longleftrightarrow> bit g 7"
  using and_exp_eq_0_iff_not_bit [of f 7] and_exp_eq_0_iff_not_bit [of g 7] by simp_all

lemma flags_u8:
  assumes "unat (f :: u32) < 256"
  shows "ucast (ucast f :: u8) = f"
proof -
  have "ucast (ucast f :: u8) = take_bit 8 f" by (rule bit_word_eqI) (auto simp: bit_simps)
  also have "\<dots> = f"
    using assms by (intro word_unat_eq_iff [THEN iffD2]) (simp add: unsigned_take_bit_eq take_bit_nat_eq_self)
  finally show ?thesis .
qed

lemma vendor_flag_u8: "(ucast (avp_flags a) :: u8) AND 0x80 \<noteq> 0 \<longleftrightarrow> vendor_flag a"
  unfolding flag_80 by (simp add: bit_simps)

lemma wire_len_ge: "avp_data a \<noteq> [] \<Longrightarrow> AVP_HDR_SIZE (avp_flags a) + 4 \<le> avp_wire_len a"
proof -
  assume "avp_data a \<noteq> []"
  then have "0 < length (avp_data a)" by simp
  then have "4 \<le> pad_len (length (avp_data a))" unfolding pad_len_def by presburger
  then show ?thesis by (simp add: avp_wire_len_def)
qed

lemma translate_avp_encoded:
  assumes "canonical_avp a" and "avp_wire_len a < 2 ^ 24" and "length xs + avp_wire_len a \<le> mlen"
  shows "translate_avp (xs @ encode_avp a @ ys) mlen (length xs) =
    Some (Some (avp_code a, ucast (avp_flags a), avp_vendorId a, length xs + AVP_HDR_SIZE (avp_flags a),
      of_nat (length (avp_data a))))"
proof -
  let ?n = "length (avp_data a)" and ?h = "AVP_HDR_SIZE (avp_flags a)"
  have d: "avp_data a \<noteq> []" and fl: "ucast (ucast (avp_flags a) :: u8) = avp_flags a"
    using assms(1) flags_u8 by (auto simp: canonical_avp_def)
  have h: "?h = (if vendor_flag a then 12 else 8)" by (simp add: AVP_HDR_SIZE_def)
  have n: "?h + ?n < 2 ^ 24" "?h + ?n \<le> avp_wire_len a"
    using assms(2) pad_len_props(1) [of ?n] by (auto simp: avp_wire_len_def)
  have len: "unat (of_nat (?h + ?n) :: u32) = ?h + ?n" using n by (intro unat_of_nat_u32) simp
  then have tb: "take_bit 24 (of_nat (?h + ?n) :: u32) = of_nat (?h + ?n)"
    using n(1) by (intro take_bit_24_id) simp
  have ge: "\<not> (of_nat (?h + ?n) :: u32) < 1"
    using len h unfolding word_less_nat_alt by (simp split: if_splits)
  have un: "unat (of_nat ?n :: u32) = ?n" using n by (intro unat_of_nat_u32) simp
  have room: "\<not> mlen < length xs + AVP_HDR_SIZE 0x80" "\<not> mlen < length xs + ?h + ?n"
    using wire_len_ge [OF d] assms(3) n(2) h by (auto simp: AVP_HDR_SIZE_def split: if_splits)
  show ?thesis
  proof (cases "vendor_flag a")
    case True
    then have h12: "?h = 12" using h by simp
    show ?thesis
      using True room tb ge un vendor_flag_u8 [of a] fl unfolding translate_avp_def encode_avp_def h12
      by (simp add: peek_steps Let_def h12)
  next
    case False
    then have h8: "?h = 8" using h by simp
    show ?thesis
      using False room tb ge un vendor_flag_u8 [of a] fl assms(1)
      unfolding translate_avp_def encode_avp_def h8
      by (simp add: peek_steps Let_def h8 canonical_avp_def)
  qed
qed

lemma peekn_encoded:
  "peekn (xs @ encode_avp a @ ys) (length xs + AVP_HDR_SIZE (avp_flags a)) (length (avp_data a)) = Some (avp_data a)"
  by (cases "vendor_flag a") (simp_all add: encode_avp_def AVP_HDR_SIZE_def peek_steps)

lemma create_canonical:
  assumes "canonical_avp a" and "ok (shm_calls m)" and "s \<noteq> NULL"
  shows "\<exists>b. AAACreateAVP ok (avp_code a) (ucast (ucast (avp_flags a) :: u8)) (avp_vendorId a) s (avp_data a)
      AVP_DONT_FREE_DATA m = (Some b, \<lparr>shm_calls = Suc (shm_calls m), shm_live = Suc (shm_calls m) # shm_live m\<rparr>)
    \<and> avp_addr b = Suc (shm_calls m) \<and> avp_content b = avp_content a"
proof -
  have same: "avp_flags (set_avp_fields c x) = avp_flags (set_avp_fields c y)"
    "avp_type (set_avp_fields c x) = avp_type (set_avp_fields c y)"
    if "avp_flags x = avp_flags y" for c x y
    using that by (simp_all add: set_avp_fields_def)
  have a: "ucast (ucast (avp_flags a) :: u8) = avp_flags a" "set_avp_fields (avp_code a) a = a" "avp_data a \<noteq> []"
    using assms(1) flags_u8 by (auto simp: canonical_avp_def)
  let ?b = "\<lparr>avp_addr = Suc (shm_calls m), packetType = AAA_DIAMETER, avp_code = avp_code a,
    avp_flags = avp_flags a, avp_type = AAA_AVP_DATA_TYPE, avp_vendorId = avp_vendorId a,
    avp_data_s = NULL, avp_data = [], free_it = False\<rparr>"
  have "avp_content ((set_avp_fields (avp_code a) ?b)\<lparr>avp_data_s := s, avp_data := avp_data a, free_it := False\<rparr>) =
      avp_content a"
    using same [of ?b a "avp_code a"] a(2) by (simp add: avp_content_def)
  then show ?thesis
    using assms(2,3) a(3) unfolding a(1) by (simp add: AAACreateAVP_def shm_malloc_def Let_def)
qed

lemma translate_avps_encoded:
  assumes "msg_in m msg" and "\<forall>a \<in> set l. canonical_avp a" and "\<And>n. ok n" and "src \<noteq> NULL"
    and "mlen = length xs + sum_list (map avp_wire_len l)" and "mlen < 2 ^ 24"
  shows "\<exists>msg' m'. translate_avps ok src (xs @ concat (map encode_avp l) @ ys) mlen (length xs) msg m =
      Some (True, msg', m') \<and> msg_in m' msg' \<and> msg_hdr msg' = msg_hdr msg
    \<and> map avp_content (avpList msg') = map avp_content (avpList msg) @ map avp_content l"
  using assms(1,2,5)
proof (induction l arbitrary: xs msg m)
  case Nil
  then show ?case by (simp add: translate_avps.simps)
next
  case (Cons a l)
  let ?rest = "concat (map encode_avp l) @ ys" and ?q = "length xs + AVP_HDR_SIZE (avp_flags a)"
  let ?m1 = "\<lparr>shm_calls = Suc (shm_calls m), shm_live = Suc (shm_calls m) # shm_live m\<rparr>"
  have ca: "canonical_avp a" and w: "avp_wire_len a < 2 ^ 24" "length xs + avp_wire_len a \<le> mlen"
    using Cons.prems assms(6) by auto
  have n: "length (avp_data a) < 2 ^ 24"
    using w(1) pad_len_props(1) [of "length (avp_data a)"] by (simp add: avp_wire_len_def)
  then have un: "unat (of_nat (length (avp_data a)) :: u32) = length (avp_data a)"
    by (intro unat_of_nat_u32) simp
  have p: "length xs < mlen" using w(2) wire_len_ge [of a] ca by (auto simp: canonical_avp_def)
  from create_canonical [where ok = ok and m = m and s = "src + ?q", OF ca assms(3)] assms(4) obtain b where
    b: "AAACreateAVP ok (avp_code a) (ucast (ucast (avp_flags a) :: u8)) (avp_vendorId a) (src + ?q) (avp_data a)
        AVP_DONT_FREE_DATA m = (Some b, ?m1)" "avp_addr b = Suc (shm_calls m)" "avp_content b = avp_content a"
    by auto
  from add_tail_in [OF Cons.prems(1) b(2), of ?m1] obtain msg1 where
    msg1: "AAAAddAVPToMessage (Some msg) (Some b) (avp_tail msg) = (AAA_ERR_SUCCESS, Some msg1)"
      "msg_in ?m1 msg1" "avpList msg1 = avpList msg @ [b]" "msg_hdr msg1 = msg_hdr msg" by auto
  have next_p: "?q + unat (to_32x_len (of_nat (length (avp_data a)))) = length (xs @ encode_avp a)"
    by (simp add: unat_to_32x_len_pad [OF n] avp_wire_len_def)
  have "translate_avps ok src (xs @ concat (map encode_avp (a # l)) @ ys) mlen (length xs) msg m =
      translate_avps ok src ((xs @ encode_avp a) @ ?rest) mlen (length (xs @ encode_avp a)) msg1 ?m1"
    using p translate_avp_encoded [OF ca w, of ?rest] peekn_encoded [of xs a ?rest] b(1) msg1(1) un next_p
    by (subst translate_avps.simps) (simp add: add.assoc)
  with Cons.IH [OF msg1(2), of "xs @ encode_avp a"] Cons.prems msg1 b(3) show ?case by auto
qed

text \<open>
  (C1) Translating undoes building: for a message whose AVPs are as \<open>AAACreateAVP\<close> makes them and
  which is short enough for the 24-bit length field, \<open>AAABuildMsgBuffer\<close> succeeds and
  \<open>AAATranslateMessage\<close> on the buffer it built, whatever bytes follow in the receive buffer, gives a
  message with the same flags, command code, application and identifiers and the same AVPs
  (code, flags, type, vendor and data) in the same order.
\<close>

theorem build_translate_roundtrip:
  assumes "\<forall>a \<in> set (avpList g). canonical_avp a" and "msg_len (avpList g) < 2 ^ 24"
    and "unat (commandCode g) < 2 ^ 24" and "\<And>n. ok n" and "src \<noteq> NULL"
  shows "\<exists>g1 m1 g2 m2. AAABuildMsgBuffer ok g m = Some (1, g1, m1)
    \<and> length (msg_buf g1) = msg_len (avpList g)
    \<and> AAATranslateMessage ok src (msg_buf g1 @ trailing) attach_buf m1 = Some (Some g2, m2)
    \<and> msg_flags g2 = msg_flags g \<and> commandCode g2 = commandCode g \<and> applicationId g2 = applicationId g
    \<and> hopbyhopId g2 = hopbyhopId g \<and> endtoendId g2 = endtoendId g
    \<and> map avp_content (avpList g2) = map avp_content (avpList g)"
proof -
  let ?len = "msg_len (avpList g)"
  define m1 where "m1 = \<lparr>shm_calls = Suc (shm_calls m), shm_live = Suc (shm_calls m) # shm_live m\<rparr>"
  define g1 where "g1 = g\<lparr>buf_s := Suc (shm_calls m), msg_buf := encode_msg g\<rparr>"
  have build: "AAABuildMsgBuffer ok g m = Some (1, g1, m1)"
    using assms(2,4) by (simp add: build_msg_spec shm_malloc_def g1_def m1_def Let_def)
  define a where "a = Suc (shm_calls m1)"
  define m' where "m' = \<lparr>shm_calls = a, shm_live = a # shm_live m1\<rparr>"
  have mall: "shm_malloc ok m1 = (a, m')" "a \<noteq> NULL"
    using assms(4) by (simp_all add: shm_malloc_def a_def m'_def Let_def)
  define h where "h = (zero_msg a)\<lparr>msg_flags := msg_flags g, commandCode := commandCode g,
    applicationId := applicationId g, hopbyhopId := hopbyhopId g, endtoendId := endtoendId g\<rparr>"
  have "msg_in m' h" by (rule msg_in_zero) (simp_all add: h_def zero_msg_def shortcut_def)
  from translate_avps_encoded [where ok = ok, OF this assms(1,4,5), of ?len "encode_header g" trailing]
  obtain g2 m2 where tr: "translate_avps ok src (encode_msg g @ trailing) ?len 20 h m' = Some (True, g2, m2)"
    and hdr: "msg_hdr g2 = msg_hdr h" and avps: "map avp_content (avpList g2) = map avp_content (avpList g)"
    using assms(2) by (auto simp: msg_len_wire encode_msg_def h_def zero_msg_def)
  have len: "unat (of_nat ?len :: u32) = ?len" using assms(2) by (intro unat_of_nat_u32) simp
  then have tb: "take_bit 24 (of_nat ?len :: u32) = of_nat ?len" "take_bit 24 (commandCode g) = commandCode g"
    using assms(2,3) by (simp_all add: take_bit_24_id)
  have reads: "peek (encode_msg g @ trailing) 0 = Some 1"
    "peek_3bytes (encode_msg g @ trailing) 1 = Some (of_nat ?len)"
    "peek (encode_msg g @ trailing) 4 = Some (msg_flags g)"
    "peek_3bytes (encode_msg g @ trailing) 5 = Some (commandCode g)"
    "peek_4bytes (encode_msg g @ trailing) 8 = Some (applicationId g)"
    "peek4le (encode_msg g @ trailing) 12 = Some (hopbyhopId g)"
    "peek4le (encode_msg g @ trailing) 16 = Some (endtoendId g)"
    using tb by (simp_all add: encode_msg_def encode_header_def peek_steps)
  have "20 \<le> ?len" by (simp add: msg_len_wire)
  then have "AAATranslateMessage ok src (encode_msg g @ trailing) attach_buf m1 =
      Some (Some (if attach_buf then g2\<lparr>buf_s := src, msg_buf := take ?len (encode_msg g @ trailing)\<rparr> else g2), m2)"
    using assms(5) mall reads len tr length_encode_msg [of g]
    by (simp add: AAATranslateMessage_def AAA_MSG_HDR_SIZE_def h_def [symmetric] del: One_nat_def)
  then show ?thesis
    using build avps hdr length_encode_msg [of g]
    by (auto simp: g1_def msg_hdr_def h_def)
qed

definition sample_avp :: "ptr \<Rightarrow> u32 \<Rightarrow> u32 \<Rightarrow> AAA_AVPDataType \<Rightarrow> u32 \<Rightarrow> bytes \<Rightarrow> AAA_AVP" where
  "sample_avp a c f t v d = \<lparr>avp_addr = a, packetType = AAA_DIAMETER, avp_code = c, avp_flags = f,
     avp_type = t, avp_vendorId = v, avp_data_s = 1, avp_data = d, free_it = False\<rparr>"

definition sample_msg :: AAAMessage where
  "sample_msg = (zero_msg 1)\<lparr>msg_flags := 0x80, commandCode := 272, applicationId := 4, hopbyhopId := 7,
     endtoendId := 9, msg_sessionId := 2, avpList := [
       sample_avp 2 263 0x40 AAA_AVP_STRING_TYPE 0 [97, 98, 99],
       sample_avp 3 1000 0xC0 AAA_AVP_DATA_TYPE 10415 [1, 2, 3, 4, 5]]\<rparr>"

theorem build_translate_roundtrip_witness:
  "\<exists>g1 m1 g2 m2. AAABuildMsgBuffer (\<lambda>_. True) sample_msg shm_init = Some (1, g1, m1)
    \<and> length (msg_buf g1) = 52
    \<and> AAATranslateMessage (\<lambda>_. True) 77 (msg_buf g1 @ [1, 2]) True m1 = Some (Some g2, m2)
    \<and> commandCode g2 = 272
    \<and> map avp_content (avpList g2) = [(263, 0x40, AAA_AVP_STRING_TYPE, 0, [97, 98, 99]),
        (1000, 0xC0, AAA_AVP_DATA_TYPE, 10415, [1, 2, 3, 4, 5])]"
proof -
  have "\<forall>a \<in> set (avpList sample_msg). canonical_avp a"
    by (simp add: sample_msg_def sample_avp_def canonical_avp_def set_avp_fields_def)
  moreover have "msg_len (avpList sample_msg) = 52"
    by (simp add: sample_msg_def sample_avp_def msg_len_def AVP_HDR_SIZE_def pad_len_def AAA_MSG_HDR_SIZE_def)
  moreover have "commandCode sample_msg = 272" by (simp add: sample_msg_def)
  moreover have "map avp_content (avpList sample_msg) = [(263, 0x40, AAA_AVP_STRING_TYPE, 0, [97, 98, 99]),
        (1000, 0xC0, AAA_AVP_DATA_TYPE, 10415, [1, 2, 3, 4, 5])]"
    by (simp add: sample_msg_def sample_avp_def avp_content_def)
  ultimately show ?thesis
    using build_translate_roundtrip [of sample_msg "\<lambda>_. True" 77 shm_init "[1, 2]" True] by auto
qed

text \<open>
  (C3) The buffer is the encoding: when the length of the message fits an \<open>int\<close>,
  \<open>AAABuildMsgBuffer\<close> never writes outside the buffer it allocated, never reports a mismatch, and
  fails only when the allocation fails; the buffer holds the 20-byte header followed by the AVPs,
  each with its header, its data and zeros up to a multiple of four bytes.
\<close>

theorem build_buffer_is_encoding:
  assumes "msg_len (avpList msg) < 2 ^ 31"
  shows "AAABuildMsgBuffer ok msg m =
    (if ok (shm_calls m)
     then Some (1, msg\<lparr>buf_s := fst (shm_malloc ok m), msg_buf := encode_msg msg\<rparr>, snd (shm_malloc ok m))
     else Some (- 1, msg\<lparr>buf_s := NULL, msg_buf := []\<rparr>, snd (shm_malloc ok m)))
    \<and> length (encode_msg msg) = msg_len (avpList msg) \<and> msg_len (avpList msg) mod 4 = 0"
proof -
  have "sum_list (map avp_wire_len l) mod 4 = 0" for l
  proof (induction l)
    case (Cons a l)
    have "AVP_HDR_SIZE (avp_flags a) mod 4 = 0" by (simp add: AVP_HDR_SIZE_def)
    then have "avp_wire_len a mod 4 = 0"
      using pad_len_props(3) [of "length (avp_data a)"] unfolding avp_wire_len_def by presburger
    then show ?case using Cons by (simp add: mod_eq_0_iff_dvd)
  qed simp
  then have "msg_len (avpList msg) mod 4 = 0" unfolding msg_len_wire by (simp add: mod_eq_0_iff_dvd)
  then show ?thesis
    using build_msg_spec [OF assms, of ok m] length_encode_msg [of msg]
    by (simp add: shm_malloc_def Let_def)
qed

theorem build_buffer_is_encoding_witness:
  "\<exists>m'. AAABuildMsgBuffer (\<lambda>n. n = 0) sample_msg shm_init =
     Some (1, sample_msg\<lparr>buf_s := 1, msg_buf := encode_msg sample_msg\<rparr>, m')"
proof -
  have "msg_len (avpList sample_msg) < 2 ^ 31"
    by (simp add: sample_msg_def sample_avp_def msg_len_def AVP_HDR_SIZE_def pad_len_def AAA_MSG_HDR_SIZE_def)
  from build_buffer_is_encoding [OF this, of "\<lambda>n. n = 0" shm_init] show ?thesis
    by (simp add: shm_malloc_def shm_init_def)
qed

section \<open>Every input is handled\<close>



section \<open>New messages\<close>

lemma find_again:
  assumes "msg_wf req" and "AAAFindMatchingAVP (Some req) p c v AAA_FORWARD_SEARCH = Some a"
  shows "AAAFindMatchingAVP (Some req) (avp_addr a) c v AAA_FORWARD_SEARCH = Some a"
proof -
  let ?P = "\<lambda>a. avp_code a = c \<and> avp_vendorId a = v"
  have sub: "set xs \<subseteq> set l" if "avps_from q l = Some xs" for q l xs
    using that by (induction l) (auto split: if_splits)
  obtain xs where xs: "find ?P xs = Some a" "set xs \<subseteq> set (avpList req)"
    using assms(2) sub by (auto simp: AAAFindMatchingAVP_def Let_def split: if_splits option.splits)
  then have a: "?P a" "a \<in> set (avpList req)" by (auto simp: find_Some_iff)
  then obtain as bs where l: "avpList req = as @ a # bs" by (meson split_list)
  have "avp_addr a \<noteq> NULL" "avp_addr a \<notin> avp_addr ` set as"
    using assms(1) unfolding msg_wf_def avps_wf_def l by auto
  then show ?thesis using a(1) by (simp add: AAAFindMatchingAVP_def l avps_from_append)
qed

definition mirror_fails :: "AAAMessage \<Rightarrow> ptr \<Rightarrow> bool \<times> AAAMessage \<times> shm \<Rightarrow> bool" where
  "mirror_fails request p r \<longleftrightarrow> (msg_wf request \<longrightarrow>
     AAAFindMatchingAVP (Some request) p AVP_Proxy_Info 0 AAA_FORWARD_SEARCH \<noteq> None \<longrightarrow> \<not> fst r)"

lemma mirror_never_done:
  assumes "mirror_proxy_info ok request p msg m = Some r"
  shows "mirror_fails request p r"
proof (rule mirror_proxy_info.raw_induct [OF _ assms, where P = "\<lambda>_ req q _ _ r. mirror_fails req q r"])
  fix rec ok request p msg m r
  assume IH: "\<And>ok req q msg m r. rec ok req q msg m = Some r \<Longrightarrow> mirror_fails req q r"
    and body: "(case AAAFindMatchingAVP (Some request) p AVP_Proxy_Info 0 AAA_FORWARD_SEARCH of
        None \<Rightarrow> Some (True, msg, m)
      | Some a \<Rightarrow>
          (case AAACloneAVP ok (Some a) False m of
             (None, m1) \<Rightarrow> Some (False, msg, m1)
           | (Some avp, m1) \<Rightarrow>
               (case AAAAddAVPToMessage (Some msg) (Some avp) (avp_tail msg) of
                  (r, None) \<Rightarrow> Some (False, msg, m1)
                | (r, Some msg') \<Rightarrow>
                    if r \<noteq> AAA_ERR_SUCCESS then Some (False, msg', m1)
                    else rec ok request (avp_addr a) msg' m1))) = Some r"
  show "mirror_fails request p r"
    unfolding mirror_fails_def
  proof (intro impI)
    assume wf: "msg_wf request"
      and "AAAFindMatchingAVP (Some request) p AVP_Proxy_Info 0 AAA_FORWARD_SEARCH \<noteq> None"
    then obtain a where a: "AAAFindMatchingAVP (Some request) p AVP_Proxy_Info 0 AAA_FORWARD_SEARCH = Some a"
      by blast
    from find_again [OF wf a] have "rec ok request (avp_addr a) msg' m1 = Some r \<Longrightarrow> \<not> fst r" for msg' m1
      using IH [of ok request "avp_addr a" msg' m1 r] wf by (simp add: mirror_fails_def)
    with body a show "\<not> fst r" by (auto split: option.splits prod.splits if_splits)
  qed
qed

lemma mirror_done:
  "AAAFindMatchingAVP (Some request) p AVP_Proxy_Info 0 AAA_FORWARD_SEARCH = None \<Longrightarrow>
   mirror_proxy_info ok request p msg m = Some (True, msg, m)"
  by (simp add: mirror_proxy_info.simps)

lemma find_from_head:
  assumes "msg_wf req"
  shows "AAAFindMatchingAVP (Some req) (avp_ptr (AAAGetFirstAVP (avpList req))) c v AAA_FORWARD_SEARCH =
    find (\<lambda>a. avp_code a = c \<and> avp_vendorId a = v) (avpList req)"
  using assms
  by (cases "avpList req") (auto simp: AAAFindMatchingAVP_def avp_ptr_def AAAGetFirstAVP_def msg_wf_def avps_wf_def)

text \<open>The mirroring loop needs a Proxy-Info AVP to be there, and then it never succeeds.\<close>

lemma new_answer_result:
  assumes "AAANewMessage ok host realm code app sid (Some req) m = Some (Some g, m')"
  obtains g1 m1 where
    "mirror_proxy_info ok req (avp_ptr (AAAGetFirstAVP (avpList req))) g1 m1 = Some (True, g, m')"
  using assms
  by (auto simp: AAANewMessage_def Let_def split: option.splits prod.splits if_splits bind_splits)

text \<open>
  (C7) An answer belongs to its request: when memory suffices and the request has no Proxy-Info
  AVP, \<open>AAANewMessage\<close> returns a message with the command and application asked for, the
  identifiers, session and incoming peer of the request, of its flags only the proxiable bit, and
  exactly four AVPs: the session id, a Result-Code of 2001 (success), the origin host and the
  origin realm.
\<close>

theorem new_answer:
  assumes "msg_wf req" and "\<forall>a \<in> set (avpList req). \<not> (avp_code a = AVP_Proxy_Info \<and> avp_vendorId a = 0)"
    and "\<And>n. ok n" and "fst host \<noteq> NULL" and "snd host \<noteq> []" and "fst realm \<noteq> NULL" and "snd realm \<noteq> []"
    and "sid_s \<noteq> NULL" and "sid_data \<noteq> []"
  shows "\<exists>g m'. AAANewMessage ok host realm code app (Some (sid, sid_s, sid_data)) (Some req) m = Some (Some g, m')
    \<and> msg_wf g \<and> \<not> is_req g \<and> commandCode g = code \<and> applicationId g = app
    \<and> msg_flags g = msg_flags req AND 0x40 \<and> hopbyhopId g = hopbyhopId req \<and> endtoendId g = endtoendId req
    \<and> sId g = sId req \<and> in_peer g = in_peer req
    \<and> map (\<lambda>a. (avp_code a, avp_data a)) (avpList g) =
        [(AVP_Session_Id, sid_data), (AVP_Result_Code, be32 AAA_SUCCESS), (AVP_Origin_Host, snd host),
         (AVP_Origin_Realm, snd realm)]"
proof -
  have "find (\<lambda>a. avp_code a = AVP_Proxy_Info \<and> avp_vendorId a = 0) (avpList req) = None"
    using assms(2) unfolding find_None_iff by blast
  then have mir: "mirror_proxy_info ok req (avp_ptr (AAAGetFirstAVP (avpList req))) g m = Some (True, g, m)" for g m
    by (intro mirror_done) (simp add: find_from_head [OF assms(1)])
  have "(x AND 0x40) AND 0x80 = 0" for x :: u8 by (simp add: and.assoc)
  then show ?thesis
    using assms(3-)
    by (simp add: AAANewMessage_def new_avp_def AAACreateAVP_def shm_malloc_def zero_msg_def Let_def
        AAAAddAVPToMessage_def set_avp_fields_def set_shortcut_def avp_tail_def answer_fields_def mir
        is_req_def msg_wf_def avps_wf_def shortcut_def)
qed


theorem new_answer_witness:
  "\<exists>g m'. AAANewMessage (\<lambda>_. True) (5, [104]) (6, [114]) 272 4 (Some (7, 8, [115])) (Some sample_msg) shm_init = Some (Some g, m')
    \<and> hopbyhopId g = 7 \<and> map avp_code (avpList g) = [263, 268, 264, 296]"
proof -
  have wf: "msg_wf sample_msg"
    by (simp add: sample_msg_def sample_avp_def zero_msg_def msg_wf_def avps_wf_def shortcut_def)
  have no: "\<forall>a \<in> set (avpList sample_msg). \<not> (avp_code a = AVP_Proxy_Info \<and> avp_vendorId a = 0)"
    by (simp add: sample_msg_def sample_avp_def)
  have hop: "hopbyhopId sample_msg = 7" by (simp add: sample_msg_def)
  have "map avp_code (avpList g) = map fst (map (\<lambda>a. (avp_code a, avp_data a)) (avpList g))" for g
    by simp
  then show ?thesis
    using new_answer [OF wf no, of "\<lambda>_. True" "(5, [104])" "(6, [114])" 8 "[115]" 272 4 7 shm_init] hop by auto
qed

text \<open>Setting the result code touches nothing else, and does nothing on a request.\<close>

lemma set_result_code:
  assumes "msg_wf msg" and "r \<in> set (avpList msg)" and "avp_addr r = res_code msg" and "4 \<le> length (avp_data r)"
  shows "AAASetMessageResultCode msg code =
    (if is_req msg then Some (AAA_ERR_FAILURE, msg)
     else Some (AAA_ERR_SUCCESS, msg\<lparr>avpList := map (\<lambda>a. if a = r
       then a\<lparr>avp_data := be32 code @ drop 4 (avp_data r)\<rparr> else a) (avpList msg)\<rparr>))"
proof -
  have wf: "distinct (map avp_addr (avpList msg))" "res_code msg \<noteq> NULL"
    using assms(1-3) unfolding msg_wf_def avps_wf_def by (auto simp: image_iff)
  then have same: "a \<in> set (avpList msg) \<Longrightarrow> avp_addr a = res_code msg \<longleftrightarrow> a = r" for a
    using assms(2,3) unfolding distinct_map by (metis inj_onD)
  obtain r' where r': "find (\<lambda>a. avp_addr a = res_code msg) (avpList msg) = Some r'"
    using assms(2,3) by (cases "find (\<lambda>a. avp_addr a = res_code msg) (avpList msg)") (auto simp: find_None_iff)
  then have "r' = r" using same by (auto simp: find_Some_iff)
  with r' have f: "find (\<lambda>a. avp_addr a = res_code msg) (avpList msg) = Some r" by simp
  have "map (\<lambda>a. if avp_addr a = res_code msg then a\<lparr>avp_data := d\<rparr> else a) (avpList msg) =
      map (\<lambda>a. if a = r then a\<lparr>avp_data := d\<rparr> else a) (avpList msg)" for d
    using same by (intro map_cong) auto
  then show ?thesis
    using f wf(2) assms(4) by (simp add: AAASetMessageResultCode_def poke_def)
qed

text \<open>
  (C8) The answer to a proxied request is never made: when the request carries a Proxy-Info AVP
  (the comment promises to mirror all of them), the loop searches from the AVP it has just found,
  finds it again and adds one clone after the other, so whatever the allocator does
  \<open>AAANewMessage\<close> never returns a message: it either runs forever or ends, out of memory, with
  null.
\<close>

theorem new_answer_proxy_info:
  assumes "msg_wf req" and "a \<in> set (avpList req)" and "avp_code a = AVP_Proxy_Info" and "avp_vendorId a = 0"
  shows "AAANewMessage ok host realm code app sid (Some req) m \<noteq> Some (Some g, m')"
proof
  assume "AAANewMessage ok host realm code app sid (Some req) m = Some (Some g, m')"
  then obtain g1 m1 where
    "mirror_proxy_info ok req (avp_ptr (AAAGetFirstAVP (avpList req))) g1 m1 = Some (True, g, m')"
    by (rule new_answer_result)
  from mirror_never_done [OF this] assms(1)
  have "find (\<lambda>a. avp_code a = AVP_Proxy_Info \<and> avp_vendorId a = 0) (avpList req) = None"
    unfolding mirror_fails_def find_from_head [OF assms(1)] by auto
  then show False using assms(2-4) by (auto simp: find_None_iff)
qed


theorem new_answer_proxy_info_witness:
  "AAANewMessage (\<lambda>n. n < 100) (5, [104]) (6, [114]) 272 4 (Some (7, 8, [115]))
     (Some (sample_msg\<lparr>avpList := [sample_avp 2 263 0x40 AAA_AVP_STRING_TYPE 0 [97],
        sample_avp 3 284 0x40 AAA_AVP_DATA_TYPE 0 [1]]\<rparr>)) shm_init \<noteq> Some (Some sample_msg, shm_init)"
proof -
  let ?a = "sample_avp 3 284 0x40 AAA_AVP_DATA_TYPE 0 [1]"
  let ?req = "sample_msg\<lparr>avpList := [sample_avp 2 263 0x40 AAA_AVP_STRING_TYPE 0 [97], ?a]\<rparr>"
  have "msg_wf ?req"
    by (simp add: sample_msg_def sample_avp_def zero_msg_def msg_wf_def avps_wf_def shortcut_def)
  from new_answer_proxy_info [OF this, of ?a] show ?thesis by (simp add: sample_avp_def)
qed

end
