(* ===== verification/Session_Id.thy ===== *)
theory Session_Id
  imports Utils Hash_Table Diameter_Msg
begin

text \<open>
  Session identifiers (diameter\_api/session.c and session.h): the 64-bit counter behind them,
  how a new identifier is generated, how the hash code and the label of a session are appended
  to it and read back, and how a session is started and found again. The name of a session is
  text in a buffer of fixed size; every write is checked against it. The lemmas show that the
  buffer is large enough, that the identifier of a session leads back to that session, and that
  no identifier is generated twice.
\<close>

section \<open>Definitions\<close>

text \<open>
  \<open>AAA_SERVER\<close> and \<open>AAA_SERVER_STATELESS\<close> are the same number in the enumeration.
\<close>

type_synonym aaa_status = u16

abbreviation AAA_CLIENT :: aaa_status where "AAA_CLIENT \<equiv> 1"
abbreviation AAA_SERVER :: aaa_status where "AAA_SERVER \<equiv> 2"
abbreviation AAA_SERVER_STATELESS :: aaa_status where "AAA_SERVER_STATELESS \<equiv> 2"
abbreviation AAA_SERVER_STATEFULL :: aaa_status where "AAA_SERVER_STATEFULL \<equiv> 3"

datatype ses_state =
    AAA_IDLE_STATE
  | AAA_PENDING_STATE
  | AAA_OPEN_STATE
  | AAA_DISCON_STATE
  | AAA_TO_DESTROY_STATE

record session =
  ses_linker :: h_link
  ses_mutex :: u32
  peer_identity :: aaa_status
  ses_sID_s :: ptr
  ses_sID :: bytes
  app_ref :: ptr
  ses_context :: ptr
  ses_st :: ses_state
  prev_state :: ses_state
  pending_accts :: u32

text \<open>\<open>monoton_sID[0]\<close> is the low, \<open>monoton_sID[1]\<close> the high half of the counter.\<close>

record session_manager =
  monoton_lo :: u32
  monoton_hi :: u32
  ses_table :: h_table
  nr_shared_mutexes :: u32
  shared_mutexes_counter :: u32

text \<open>
  \<open>now\<close> is \<open>time(0)\<close>; the parameter \<open>ses_hash_size\<close> of the function is not used, the table has
  1024 entries. The timer list of the manager is in Session\_Machine.
\<close>

definition init_session_manager :: "(nat \<Rightarrow> bool) \<Rightarrow> bool \<Rightarrow> bool \<Rightarrow> (nat \<Rightarrow> u32 \<times> u32) \<Rightarrow> u32 \<Rightarrow> u32 \<Rightarrow> u32 \<Rightarrow> shm \<Rightarrow>
    session_manager option \<times> shm" where
  "init_session_manager ok locks1 locks2 seed now ses_hash_size nr m =
     (if \<not> locks1 then (None, m)
      else case build_htable ok locks2 seed 1024 m of
        (None, m1) \<Rightarrow> (None, m1)
      | (Some t, m1) \<Rightarrow> (Some \<lparr>monoton_lo = 0, monoton_hi = now, ses_table = t, nr_shared_mutexes = nr,
          shared_mutexes_counter = 0\<rparr>, m1))"

definition get_shared_mutex :: "session_manager \<Rightarrow> u32 \<times> session_manager" where
  "get_shared_mutex mgr =
     (shared_mutexes_counter mgr AND (nr_shared_mutexes mgr - 1),
      mgr\<lparr>shared_mutexes_counter := shared_mutexes_counter mgr + 1\<rparr>)"

definition inc_64biti :: "session_manager \<Rightarrow> session_manager" where
  "inc_64biti mgr =
     (let lo = monoton_lo mgr + 1
      in mgr\<lparr>monoton_lo := lo, monoton_hi := monoton_hi mgr + (if lo = 0 then 1 else 0)\<rparr>)"

text \<open>A write at the end of the text that is already in a buffer of \<open>cap\<close> bytes.\<close>

definition put :: "nat \<Rightarrow> bytes \<Rightarrow> bytes \<Rightarrow> bytes option" where
  "put cap d out = (if length out + length d \<le> cap then Some (out @ d) else None)"

definition sID_len :: "bytes \<Rightarrow> nat \<Rightarrow> nat" where
  "sID_len identity end_pad_len = length identity + 1 + 10 + 1 + 10 + 1 + 8 + end_pad_len"

text \<open>
  The result is the return code, the address of the buffer and the text written so far; \<open>rnd\<close> is
  what \<open>rand\<close> returns.
\<close>

definition generate_sessionID :: "(nat \<Rightarrow> bool) \<Rightarrow> u32 \<Rightarrow> bytes \<Rightarrow> nat \<Rightarrow> session_manager \<Rightarrow> shm \<Rightarrow>
    (int \<times> ptr \<times> bytes \<times> session_manager \<times> shm) option" where
  "generate_sessionID ok rnd identity end_pad_len mgr m =
     (let cap = sID_len identity end_pad_len; (s, m1) = shm_malloc ok m
      in if s = NULL then Some (- 1, NULL, [], mgr, m1)
         else do {
           out \<leftarrow> put cap identity [];
           out \<leftarrow> put cap [chr_semicolon] out;
           out \<leftarrow> put cap (int2str (monoton_hi mgr) 10) out;
           out \<leftarrow> put cap [chr_semicolon] out;
           out \<leftarrow> put cap (int2str (monoton_lo mgr) 10) out;
           out \<leftarrow> put cap [chr_semicolon] out;
           out \<leftarrow> put cap (int2hexstr rnd 8) out;
           Some (1, s, out, inc_64biti mgr, m1)
         })"

text \<open>
  Reading a hexadecimal number backwards from the end of a text, given reversed; the inner None
  is the jump to \<open>error\<close>. A shift by 32 or more is undefined: the outer None.
\<close>

fun scan_hex :: "bytes \<Rightarrow> nat \<Rightarrow> u32 \<Rightarrow> (u32 \<times> bytes) option option" where
  "scan_hex [] rang u = Some (Some (u, []))"
| "scan_hex (c # r) rang u =
     (if c = chr_dot then Some (Some (u, c # r))
      else if hexchar2int c = - 1 then Some None
      else if 32 \<le> rang then None
      else scan_hex r (rang + 4) (u + push_bit rang (word_of_int (hexchar2int c))))"

text \<open>Hash code and label; \<open>length r \<le> 1\<close> is \<open>p <= s\<close>.\<close>

definition parse_sessionID :: "bytes \<Rightarrow> (u32 \<times> u32) option option" where
  "parse_sessionID sID = do {
     x \<leftarrow> scan_hex (rev sID) 0 0;
     case x of
       None \<Rightarrow> Some None
     | Some (label, r) \<Rightarrow>
         if length r \<le> 1 then Some None
         else do {
           y \<leftarrow> scan_hex (tl r) 0 0;
           case y of
             None \<Rightarrow> Some None
           | Some (hash_code, r') \<Rightarrow>
               if length r' \<le> 1 then Some None else Some (Some (hash_code, label))
         }
   }"

text \<open>The linker carries the address of the session.\<close>

definition session_lookup :: "h_table \<Rightarrow> bytes \<Rightarrow> h_link option option" where
  "session_lookup table sID = do {
     x \<leftarrow> parse_sessionID sID;
     case x of
       None \<Rightarrow> Some None
     | Some (hash_code, label) \<Rightarrow> cell_lookup table hash_code label
   }"

definition create_session :: "(nat \<Rightarrow> bool) \<Rightarrow> aaa_status \<Rightarrow> session_manager \<Rightarrow> shm \<Rightarrow>
    session option \<times> session_manager \<times> shm" where
  "create_session ok peer_id mgr m =
     (let (a, m1) = shm_malloc ok m
      in if a = NULL then (None, mgr, m1)
         else let (mutex, mgr1) = get_shared_mutex mgr
           in (Some \<lparr>ses_linker = \<lparr>hl_addr = a, hl_label = 0, hl_hash_code = 0\<rparr>, ses_mutex = mutex,
                 peer_identity = peer_id, ses_sID_s = NULL, ses_sID = [], app_ref = NULL, ses_context = NULL,
                 ses_st = AAA_IDLE_STATE, prev_state = AAA_IDLE_STATE, pending_accts = 0\<rparr>, mgr1, m1))"

text \<open>
  The code inserts the session into the table with the hash code of the identifier as generated
  and then appends hash code and label. A null \<open>sessionId\<close> parameter is followed on the error
  path. When no identifier can be generated the session structure stays allocated.
\<close>

definition AAAStartSession :: "(nat \<Rightarrow> bool) \<Rightarrow> u32 \<Rightarrow> bytes \<Rightarrow> ptr \<Rightarrow> ptr \<Rightarrow> ptr \<Rightarrow> session_manager \<Rightarrow> shm \<Rightarrow>
    (AAAReturnCode \<times> session option \<times> session_manager \<times> shm) option" where
  "AAAStartSession ok rnd identity sessionId appReference context mgr m =
     (if sessionId = NULL then None
      else if appReference = NULL then Some (AAA_ERR_NOMEM, None, mgr, m)
      else case create_session ok AAA_SERVER mgr m of
        (None, mgr1, m1) \<Rightarrow> Some (AAA_ERR_NOMEM, None, mgr1, m1)
      | (Some ses, mgr1, m1) \<Rightarrow> do {
          (r, s, txt_id, mgr2, m2) \<leftarrow> generate_sessionID ok rnd identity (2 * 9) mgr1 m1;
          if r \<noteq> 1 then Some (AAA_ERR_NOMEM, None, mgr2, m2)
          else do {
            let link = (ses_linker ses)\<lparr>hl_hash_code := hash txt_id (hash_size (ses_table mgr2))\<rparr>;
            (r2, table, link2) \<leftarrow> add_cell_to_htable (ses_table mgr2) link;
            let cap = sID_len identity (2 * 9);
            out \<leftarrow> put cap [chr_dot] txt_id;
            out \<leftarrow> put cap (int2hexstr (hl_hash_code link2) 8) out;
            out \<leftarrow> put cap [chr_dot] out;
            out \<leftarrow> put cap (int2hexstr (hl_label link2) 8) out;
            Some (AAA_ERR_SUCCESS, Some (ses\<lparr>ses_context := context, app_ref := appReference,
                ses_linker := link2, ses_sID_s := s, ses_sID := out\<rparr>), mgr2\<lparr>ses_table := table\<rparr>, m2)
          }
        })"

section \<open>Reading an identifier back\<close>

lemma hexstr2int_snoc:
  "hex_only xs \<Longrightarrow> hexchar2int c \<noteq> - 1 \<Longrightarrow>
   hexstr2int (xs @ [c]) = push_bit 4 (hexstr2int xs) + word_of_int (hexchar2int c)"
  by (simp add: hexstr2int_def hexstr2int_loop_append)

lemma hexchar2int_not_dot: "hexchar2int c \<noteq> - 1 \<Longrightarrow> c \<noteq> chr_dot"
  by auto

lemma scan_hex_append:
  assumes "hex_only xs" and "rang + 4 * length xs \<le> 32" and "rest = [] \<or> hd rest = chr_dot"
  shows "scan_hex (rev xs @ rest) rang u = Some (Some (u + push_bit rang (hexstr2int xs), rest))"
  using assms
proof (induction xs arbitrary: rang u rule: rev_induct)
  case Nil
  then show ?case by (cases rest) (auto simp: hexstr2int_def)
next
  case (snoc c xs)
  then have "hexchar2int c \<noteq> - 1" "hex_only xs" "rang + 4 + 4 * length xs \<le> 32" by auto
  with snoc show ?case
    by (simp add: hexchar2int_not_dot hexstr2int_snoc push_bit_add push_bit_push_bit ac_simps)
qed

lemma scan_int2hexstr:
  "scan_hex (rev (int2hexstr w 8) @ chr_dot # rest) 0 0 = Some (Some (w, chr_dot # rest))"
  using scan_hex_append [of "int2hexstr w 8" 0 "chr_dot # rest" 0] int2hexstr_spec [of 8 w] by simp

lemma parse_appended:
  assumes "txt_id \<noteq> []"
  shows "parse_sessionID (txt_id @ [chr_dot] @ int2hexstr c 8 @ [chr_dot] @ int2hexstr l 8) = Some (Some (c, l))"
proof -
  obtain x xs where "rev txt_id = x # xs" using assms by (cases "rev txt_id") auto
  then show ?thesis using scan_int2hexstr [of l] scan_int2hexstr [of c] by (simp add: parse_sessionID_def)
qed

section \<open>The text that is generated\<close>

definition sID_text :: "bytes \<Rightarrow> u32 \<Rightarrow> u32 \<Rightarrow> u32 \<Rightarrow> bytes" where
  "sID_text identity hi lo rnd = identity @ [chr_semicolon] @ int2str hi 10 @ [chr_semicolon] @
     int2str lo 10 @ [chr_semicolon] @ int2hexstr rnd 8"

lemma length_sID_text: "length (sID_text identity hi lo rnd) + pad \<le> sID_len identity pad"
  using int2str_spec(4) [of 10 hi] int2str_spec(4) [of 10 lo] int2hexstr_spec(4) [of 8 rnd]
  by (simp add: sID_text_def sID_len_def)

lemma generate_eq:
  "generate_sessionID ok rnd identity pad mgr m =
   (let (s, m1) = shm_malloc ok m
    in Some (if s = NULL then (- 1, NULL, [], mgr, m1)
       else (1, s, sID_text identity (monoton_hi mgr) (monoton_lo mgr) rnd, inc_64biti mgr, m1)))"
  using int2str_spec(4) [of 10 "monoton_hi mgr"] int2str_spec(4) [of 10 "monoton_lo mgr"]
    int2hexstr_spec(4) [of 8 rnd]
  by (simp add: generate_sessionID_def put_def sID_len_def sID_text_def Let_def case_prod_unfold)

lemma inc_64biti_other [simp]:
  "ses_table (inc_64biti mgr) = ses_table mgr" "nr_shared_mutexes (inc_64biti mgr) = nr_shared_mutexes mgr"
  by (simp_all add: inc_64biti_def Let_def)

lemma get_shared_mutex_other [simp]:
  "ses_table (snd (get_shared_mutex mgr)) = ses_table mgr"
  "monoton_hi (snd (get_shared_mutex mgr)) = monoton_hi mgr"
  "monoton_lo (snd (get_shared_mutex mgr)) = monoton_lo mgr"
  by (simp_all add: get_shared_mutex_def)

text \<open>Starting a session, step by step, when memory suffices.\<close>

lemma start_session_eq:
  assumes "ok (shm_calls m)" and "ok (Suc (shm_calls m))" and "sid \<noteq> NULL" and "app \<noteq> NULL"
    and "add_cell_to_htable (ses_table mgr) \<lparr>hl_addr = Suc (shm_calls m), hl_label = 0, hl_hash_code =
      hash (sID_text identity (monoton_hi mgr) (monoton_lo mgr) rnd) (hash_size (ses_table mgr))\<rparr> = Some (r, t, l)"
  shows "\<exists>ses mgr' m'. AAAStartSession ok rnd identity sid app ctx mgr m = Some (AAA_ERR_SUCCESS, Some ses, mgr', m')
    \<and> ses_linker ses = l \<and> ses_table mgr' = t \<and> app_ref ses = app \<and> ses_context ses = ctx
    \<and> ses_st ses = AAA_IDLE_STATE \<and> pending_accts ses = 0 \<and> peer_identity ses = AAA_SERVER_STATELESS
    \<and> ses_sID ses = sID_text identity (monoton_hi mgr) (monoton_lo mgr) rnd @ [chr_dot] @
        int2hexstr (hl_hash_code l) 8 @ [chr_dot] @ int2hexstr (hl_label l) 8
    \<and> monoton_hi mgr' = monoton_hi (inc_64biti mgr) \<and> monoton_lo mgr' = monoton_lo (inc_64biti mgr)"
proof -
  let ?txt_id = "sID_text identity (monoton_hi mgr) (monoton_lo mgr) rnd"
  have "length ?txt_id + 18 \<le> sID_len identity 18" by (rule length_sID_text)
  then show ?thesis
    using assms int2hexstr_spec(4) [of 8 "hl_hash_code l"] int2hexstr_spec(4) [of 8 "hl_label l"]
    by (simp add: AAAStartSession_def create_session_def get_shared_mutex_def shm_malloc_def generate_eq
        put_def Let_def inc_64biti_def)
qed

section \<open>The counter\<close>

definition sid_count :: "session_manager \<Rightarrow> nat" where
  "sid_count mgr = unat (monoton_hi mgr) * 2 ^ 32 + unat (monoton_lo mgr)"

lemma sid_count_less: "sid_count mgr < 2 ^ 64"
proof -
  have "unat (monoton_hi mgr) < 2 ^ 32" "unat (monoton_lo mgr) < 2 ^ 32"
    using unsigned_less [where 'b = 32] by auto
  then show ?thesis unfolding sid_count_def by simp
qed

lemma unat_inc: "unat (w + 1 :: u32) = (if w + 1 = 0 then 0 else unat w + 1)"
  by (metis Suc_eq_plus1 add.commute unatSuc unat_0)

lemma max_u32: "w + 1 = (0 :: u32) \<Longrightarrow> unat w = 2 ^ 32 - 1"
proof -
  assume "w + 1 = 0"
  then have "w = - 1" by (simp add: eq_neg_iff_add_eq_0)
  then show ?thesis by (simp add: unsigned_minus_1_eq_mask mask_eq_exp_minus_1)
qed

lemma sid_count_inc: "sid_count (inc_64biti mgr) = (sid_count mgr + 1) mod 2 ^ 64"
proof (cases "monoton_lo mgr + 1 = 0")
  case False
  then have c: "sid_count (inc_64biti mgr) = sid_count mgr + 1"
    using unat_inc [of "monoton_lo mgr"] by (simp add: sid_count_def inc_64biti_def Let_def)
  then show ?thesis using sid_count_less [of "inc_64biti mgr"] by simp
next
  case lo: True
  show ?thesis
  proof (cases "monoton_hi mgr + 1 = 0")
    case True
    then show ?thesis using lo max_u32 [OF lo] max_u32 [OF True]
      by (simp add: sid_count_def inc_64biti_def Let_def)
  next
    case False
    have c: "sid_count (inc_64biti mgr) = sid_count mgr + 1"
      using lo False max_u32 [OF lo] unat_inc [of "monoton_hi mgr"]
      by (simp add: sid_count_def inc_64biti_def Let_def)
    then show ?thesis using sid_count_less [of "inc_64biti mgr"] by simp
  qed
qed

lemma sid_count_inject:
  "sid_count a = sid_count b \<Longrightarrow> monoton_hi a = monoton_hi b \<and> monoton_lo a = monoton_lo b"
proof -
  assume eq: "sid_count a = sid_count b"
  have lt: "unat (monoton_lo a) < 2 ^ 32" "unat (monoton_lo b) < 2 ^ 32"
    using unsigned_less [where 'b = 32] by auto
  have "unat (monoton_hi a) = sid_count a div 2 ^ 32" "unat (monoton_hi b) = sid_count b div 2 ^ 32"
    "unat (monoton_lo a) = sid_count a mod 2 ^ 32" "unat (monoton_lo b) = sid_count b mod 2 ^ 32"
    using lt by (simp_all add: sid_count_def)
  with eq show ?thesis by (simp add: word_unat_eq_iff)
qed

section \<open>Identifiers tell the counter\<close>

lemma semicolon_not_digit: "digits_only xs \<Longrightarrow> chr_semicolon \<notin> set xs"
  by (auto simp: digits_only_def)

lemma split_at_first:
  "x \<notin> set xs \<Longrightarrow> x \<notin> set xs' \<Longrightarrow> xs @ x # ys = xs' @ x # ys' \<longleftrightarrow> xs = xs' \<and> ys = ys'"
proof (induction xs arbitrary: xs')
  case Nil
  then show ?case by (cases xs') auto
next
  case (Cons a xs)
  then show ?case by (cases xs') auto
qed

lemma sID_text_inject:
  assumes "sID_text identity hi lo rnd @ xs = sID_text identity hi' lo' rnd' @ xs'"
  shows "hi = hi' \<and> lo = lo'"
proof -
  have n: "chr_semicolon \<notin> set (int2str w 10)" for w
    using semicolon_not_digit int2str_spec(2) [of 10 w] by simp
  from assms have "int2str hi 10 @ chr_semicolon # int2str lo 10 @ chr_semicolon # int2hexstr rnd 8 @ xs =
      int2str hi' 10 @ chr_semicolon # int2str lo' 10 @ chr_semicolon # int2hexstr rnd' 8 @ xs'"
    by (simp add: sID_text_def)
  then have "int2str hi 10 = int2str hi' 10 \<and> int2str lo 10 = int2str lo' 10"
    using n by (simp add: split_at_first)
  then show ?thesis by (simp add: int2str_inject)
qed

lemma add_mod_inject: "(c + i) mod n = (c + j) mod n \<Longrightarrow> i < n \<Longrightarrow> j < n \<Longrightarrow> i = (j :: nat)"
proof (induction i j rule: linorder_wlog)
  case (le i j)
  then have "n dvd (c + j) - (c + i)" using mod_eq_dvd_iff_nat [of "c + i" "c + j" n] by simp
  then have "n dvd j - i" by simp
  then show ?case using le by (metis diff_is_0_eq dvd_imp_le le_antisym less_imp_diff_less not_less zero_less_iff_neq_zero)
qed simp

section \<open>Runs\<close>

text \<open>
  What a call of \<open>AAAStartSession\<close> does to the counter and to the table, whether it succeeds or
  not.
\<close>

lemma start_session_cases:
  assumes "AAAStartSession ok rnd identity sid app ctx mgr m = Some (r, s, mgr', m')"
  shows "s = None \<and> sid_count mgr' = sid_count mgr \<and> ses_table mgr' = ses_table mgr \<or>
    (\<exists>ses l. s = Some ses \<and> r = AAA_ERR_SUCCESS \<and> sid_count mgr' = (sid_count mgr + 1) mod 2 ^ 64
      \<and> ses_linker ses = l
      \<and> add_cell_to_htable (ses_table mgr) \<lparr>hl_addr = Suc (shm_calls m), hl_label = 0, hl_hash_code =
          hash (sID_text identity (monoton_hi mgr) (monoton_lo mgr) rnd) (hash_size (ses_table mgr))\<rparr>
        = Some (fst (the (add_cell_to_htable (ses_table mgr) \<lparr>hl_addr = Suc (shm_calls m), hl_label = 0, hl_hash_code =
          hash (sID_text identity (monoton_hi mgr) (monoton_lo mgr) rnd) (hash_size (ses_table mgr))\<rparr>)), ses_table mgr', l)
      \<and> ses_sID ses = sID_text identity (monoton_hi mgr) (monoton_lo mgr) rnd @ [chr_dot] @
          int2hexstr (hl_hash_code l) 8 @ [chr_dot] @ int2hexstr (hl_label l) 8)"
proof (cases "sid \<noteq> NULL \<and> app \<noteq> NULL \<and> ok (shm_calls m) \<and> ok (Suc (shm_calls m))")
  case False
  then show ?thesis using assms
    by (auto simp: AAAStartSession_def create_session_def get_shared_mutex_def shm_malloc_def generate_eq
        sid_count_def Let_def split: if_splits)
next
  case True
  let ?link = "\<lparr>hl_addr = Suc (shm_calls m), hl_label = 0, hl_hash_code =
    hash (sID_text identity (monoton_hi mgr) (monoton_lo mgr) rnd) (hash_size (ses_table mgr))\<rparr>"
  obtain r1 t l where add: "add_cell_to_htable (ses_table mgr) ?link = Some (r1, t, l)"
    using True assms
    by (cases "add_cell_to_htable (ses_table mgr) ?link")
      (auto simp: AAAStartSession_def create_session_def get_shared_mutex_def shm_malloc_def generate_eq Let_def
        inc_64biti_def)
  from start_session_eq [OF _ _ _ _ add, of ok sid app ctx] True assms
  have "s \<noteq> None" "r = AAA_ERR_SUCCESS" "ses_linker (the s) = l" "ses_table mgr' = t"
    "ses_sID (the s) = sID_text identity (monoton_hi mgr) (monoton_lo mgr) rnd @ [chr_dot] @
        int2hexstr (hl_hash_code l) 8 @ [chr_dot] @ int2hexstr (hl_label l) 8"
    "sid_count mgr' = sid_count (inc_64biti mgr)"
    by (auto simp: sid_count_def)
  then show ?thesis using add by (auto simp: sid_count_inc)
qed

fun start_sessions :: "(nat \<Rightarrow> bool) \<Rightarrow> bytes \<Rightarrow> ptr \<Rightarrow> (u32 \<times> ptr \<times> ptr) list \<Rightarrow> session_manager \<Rightarrow> shm \<Rightarrow>
    (session list \<times> session_manager \<times> shm) option" where
  "start_sessions ok identity sid [] mgr m = Some ([], mgr, m)"
| "start_sessions ok identity sid ((rnd, app, ctx) # calls) mgr m = do {
     (r, s, mgr1, m1) \<leftarrow> AAAStartSession ok rnd identity sid app ctx mgr m;
     (ss, mgr2, m2) \<leftarrow> start_sessions ok identity sid calls mgr1 m1;
     Some (case s of None \<Rightarrow> ss | Some ses \<Rightarrow> ses # ss, mgr2, m2)
   }"

text \<open>The identifiers of a run carry the counter values of the calls that succeeded.\<close>

definition id_at :: "bytes \<Rightarrow> nat \<Rightarrow> session \<Rightarrow> bool" where
  "id_at identity c ses \<longleftrightarrow> (\<exists>mgr rnd xs. sid_count mgr = c \<and>
     ses_sID ses = sID_text identity (monoton_hi mgr) (monoton_lo mgr) rnd @ xs)"

lemma id_at_inject: "id_at identity c a \<Longrightarrow> id_at identity d b \<Longrightarrow> ses_sID a = ses_sID b \<Longrightarrow> c = d"
  unfolding id_at_def sid_count_def using sID_text_inject by metis

lemma start_sessions_ids:
  assumes "start_sessions ok identity sid calls mgr m = Some (ss, mgr', m')"
  shows "length ss \<le> length calls \<and>
    (\<forall>i < length ss. id_at identity ((sid_count mgr + i) mod 2 ^ 64) (ss ! i))"
  using assms
proof (induction ok identity sid calls mgr m arbitrary: ss mgr' m' rule: start_sessions.induct)
  case (2 ok identity sid rnd app ctx calls mgr m)
  from 2(2) obtain r s mgr1 m1 ss1 where
    st: "AAAStartSession ok rnd identity sid app ctx mgr m = Some (r, s, mgr1, m1)"
    and rest: "start_sessions ok identity sid calls mgr1 m1 = Some (ss1, mgr', m')"
    and ss: "ss = (case s of None \<Rightarrow> ss1 | Some ses \<Rightarrow> ses # ss1)"
    by (auto split: bind_splits)
  have IH: "length ss1 \<le> length calls \<and>
      (\<forall>i < length ss1. id_at identity ((sid_count mgr1 + i) mod 2 ^ 64) (ss1 ! i))"
    using 2(1) [OF st _ _ _ rest] by simp
  from start_session_cases [OF st] show ?case
  proof
    assume "s = None \<and> sid_count mgr1 = sid_count mgr \<and> ses_table mgr1 = ses_table mgr"
    then show ?thesis using IH ss by simp
  next
    assume "\<exists>ses l. s = Some ses \<and> r = AAA_ERR_SUCCESS \<and> sid_count mgr1 = (sid_count mgr + 1) mod 2 ^ 64
      \<and> ses_linker ses = l
      \<and> add_cell_to_htable (ses_table mgr) \<lparr>hl_addr = Suc (shm_calls m), hl_label = 0, hl_hash_code =
          hash (sID_text identity (monoton_hi mgr) (monoton_lo mgr) rnd) (hash_size (ses_table mgr))\<rparr>
        = Some (fst (the (add_cell_to_htable (ses_table mgr) \<lparr>hl_addr = Suc (shm_calls m), hl_label = 0, hl_hash_code =
          hash (sID_text identity (monoton_hi mgr) (monoton_lo mgr) rnd) (hash_size (ses_table mgr))\<rparr>)), ses_table mgr1, l)
      \<and> ses_sID ses = sID_text identity (monoton_hi mgr) (monoton_lo mgr) rnd @ [chr_dot] @
          int2hexstr (hl_hash_code l) 8 @ [chr_dot] @ int2hexstr (hl_label l) 8"
    then obtain ses where ses: "s = Some ses" "sid_count mgr1 = (sid_count mgr + 1) mod 2 ^ 64"
      "id_at identity (sid_count mgr) ses"
      unfolding id_at_def by blast
    have "id_at identity ((sid_count mgr + i) mod 2 ^ 64) (ss ! i)" if "i < length ss" for i
    proof (cases i)
      case 0
      then show ?thesis using ses ss sid_count_less [of mgr] by simp
    next
      case (Suc k)
      then have "id_at identity ((sid_count mgr1 + k) mod 2 ^ 64) (ss1 ! k)" using IH that ses ss by simp
      then show ?thesis using Suc ses ss by (simp add: mod_simps)
    qed
    then show ?thesis using IH ses ss by simp
  qed
qed simp

section \<open>Properties\<close>

text \<open>
  (C13) Session identifiers are unique: in any run of at most \<open>2 ^ 64\<close> calls of \<open>AAAStartSession\<close>,
  from any state of the manager, with any random numbers, applications and allocation failures,
  the sessions that were created have pairwise different identifiers.
\<close>

theorem session_ids_unique:
  assumes "start_sessions ok identity sid calls mgr m = Some (ss, mgr', m')" and "length calls \<le> 2 ^ 64"
  shows "distinct (map ses_sID ss)"
proof -
  have ids: "length ss \<le> 2 ^ 64" "\<And>i. i < length ss \<Longrightarrow> id_at identity ((sid_count mgr + i) mod 2 ^ 64) (ss ! i)"
    using start_sessions_ids [OF assms(1)] assms(2) by auto
  have "i = j" if "i < length ss" "j < length ss" "ses_sID (ss ! i) = ses_sID (ss ! j)" for i j
  proof -
    have "(sid_count mgr + i) mod 2 ^ 64 = (sid_count mgr + j) mod 2 ^ 64"
      using id_at_inject [OF ids(2) [OF that(1)] ids(2) [OF that(2)] that(3)] .
    from add_mod_inject [OF this] show ?thesis using that ids(1) by simp
  qed
  then show ?thesis by (auto simp: distinct_conv_nth)
qed


definition sample_mgr :: session_manager where
  "sample_mgr = \<lparr>monoton_lo = - 1, monoton_hi = 5, ses_table = \<lparr>hash_size = 2,
     entrys = [\<lparr>he_lh = [], he_next_label = 7\<rparr>, \<lparr>he_lh = [], he_next_label = 171\<rparr>]\<rparr>,
     nr_shared_mutexes = 512, shared_mutexes_counter = 0\<rparr>"

lemma sample_mgr_wf: "htable_wf 0 (ses_table sample_mgr)" "hash_size (ses_table sample_mgr) \<noteq> 0"
  by (auto simp: sample_mgr_def htable_wf_def entry_wf_def nth_Cons')

text \<open>
  Every code that the table's own hash function gives is an index of the table: the session is
  always accepted.
\<close>

lemma start_session_succeeds:
  assumes "htable_wf n (ses_table mgr)" and "hash_size (ses_table mgr) \<noteq> 0"
    and "ok (shm_calls m)" and "ok (Suc (shm_calls m))" and "sid \<noteq> NULL" and "app \<noteq> NULL"
  shows "\<exists>ses mgr' m'. AAAStartSession ok rnd identity sid app ctx mgr m = Some (AAA_ERR_SUCCESS, Some ses, mgr', m')"
proof -
  let ?link = "\<lparr>hl_addr = Suc (shm_calls m), hl_label = 0, hl_hash_code =
    hash (sID_text identity (monoton_hi mgr) (monoton_lo mgr) rnd) (hash_size (ses_table mgr))\<rparr>"
  have "unat (hl_hash_code ?link) < length (entrys (ses_table mgr))"
    using hash_valid_code [OF assms(1,2)] by simp
  from ht.add_total [OF assms(1) this] obtain t l where
    "add_cell_to_htable (ses_table mgr) ?link = Some (1, t, l)" by blast
  from start_session_eq [OF assms(3-6) this] show ?thesis by blast
qed

text \<open>A successful start in terms of the table: the session's cell was added.\<close>

lemma start_session_added:
  assumes "htable_wf n (ses_table mgr)" and "hash_size (ses_table mgr) \<noteq> 0"
    and "AAAStartSession ok rnd identity sid app ctx mgr m = Some (r, Some ses, mgr', m')"
  obtains link where "unat (hl_hash_code link) < length (entrys (ses_table mgr))"
    and "add_cell_to_htable (ses_table mgr) link = Some (1, ses_table mgr', ses_linker ses)"
    and "hl_addr link = Suc (shm_calls m)"
    and "parse_sessionID (ses_sID ses) = Some (Some (hl_hash_code link, hl_label (ses_linker ses)))"
proof -
  let ?link = "\<lparr>hl_addr = Suc (shm_calls m), hl_label = 0, hl_hash_code =
    hash (sID_text identity (monoton_hi mgr) (monoton_lo mgr) rnd) (hash_size (ses_table mgr))\<rparr>"
  have v: "unat (hl_hash_code ?link) < length (entrys (ses_table mgr))"
    using hash_valid_code [OF assms(1,2)] by simp
  from start_session_cases [OF assms(3)] obtain r1 where
    a: "add_cell_to_htable (ses_table mgr) ?link = Some (r1, ses_table mgr', ses_linker ses)"
    and idt: "ses_sID ses = sID_text identity (monoton_hi mgr) (monoton_lo mgr) rnd @ [chr_dot] @
          int2hexstr (hl_hash_code (ses_linker ses)) 8 @ [chr_dot] @ int2hexstr (hl_label (ses_linker ses)) 8"
    by blast
  have "r1 = 1" using ht.add_total [OF assms(1) v] a by auto
  moreover have "hl_hash_code (ses_linker ses) = hl_hash_code ?link"
    using ht.add_link [OF assms(1) v a] by simp
  moreover have "sID_text identity (monoton_hi mgr) (monoton_lo mgr) rnd \<noteq> []" by (simp add: sID_text_def)
  ultimately show ?thesis using that [OF v] a idt parse_appended by simp
qed

text \<open>
  (C14) The identifier of a session leads back to it: for a session that \<open>AAAStartSession\<close> has
  created, \<open>session_lookup\<close> with its identifier finds exactly its cell, at once and also after
  any further session has been started (as long as no label counter has run through all
  \<open>2 ^ 32\<close> values); and starting succeeds whenever its two allocations do.
\<close>

theorem session_id_leads_back:
  assumes "htable_wf n (ses_table mgr)" and "hash_size (ses_table mgr) \<noteq> 0" and "n + 1 < 2 ^ 32"
    and "\<not> cell_in (ses_table mgr) (Suc (shm_calls m))"
    and "AAAStartSession ok rnd identity sid app ctx mgr m = Some (r, Some ses, mgr1, m1)"
    and "AAAStartSession ok rnd' identity sid app' ctx' mgr1 m1 = Some (r', ses', mgr2, m2)"
  shows "session_lookup (ses_table mgr1) (ses_sID ses) = Some (Some (ses_linker ses))
    \<and> hl_addr (ses_linker ses) = Suc (shm_calls m)
    \<and> session_lookup (ses_table mgr2) (ses_sID ses) = Some (Some (ses_linker ses))"
proof -
  from start_session_added [OF assms(1,2,5)] obtain link where
    v: "unat (hl_hash_code link) < length (entrys (ses_table mgr))"
    and a: "add_cell_to_htable (ses_table mgr) link = Some (1, ses_table mgr1, ses_linker ses)"
    and ad: "hl_addr link = Suc (shm_calls m)"
    and ps: "parse_sessionID (ses_sID ses) = Some (Some (hl_hash_code link, hl_label (ses_linker ses)))" .
  let ?c = "hl_hash_code link" and ?l = "hl_label (ses_linker ses)"
  have n: "n < 2 ^ 32" using assms(3) by simp
  have wf1: "htable_wf (Suc n) (ses_table mgr1)" using ht.add_wf [OF assms(1) n v _ a] assms(4) ad by simp
  have sz: "hash_size (ses_table mgr1) \<noteq> 0"
    using add_cell_size [OF a] assms(2) by simp
  have look1: "cell_lookup (ses_table mgr1) ?c ?l = Some (Some (ses_linker ses))"
    using ht.add_look [OF assms(1) n v a, of ?c ?l] by simp
  have "cell_lookup (ses_table mgr2) ?c ?l = Some (Some (ses_linker ses))"
  proof (cases ses')
    case None
    then show ?thesis using look1 start_session_cases [OF assms(6)] by auto
  next
    case (Some s2)
    from start_session_added [OF wf1 sz assms(6) [unfolded Some]] obtain link2 where
      v2: "unat (hl_hash_code link2) < length (entrys (ses_table mgr1))"
      and a2: "add_cell_to_htable (ses_table mgr1) link2 = Some (1, ses_table mgr2, ses_linker s2)"
      by metis
    have n1: "Suc n < 2 ^ 32" using assms(3) by simp
    from ht.add_keeps [OF wf1 n1 v2 look1 add_cell_lookup(4) [OF wf1 n1 v2 a2] a2] show ?thesis .
  qed
  then show ?thesis
    using look1 ps ht.add_link [OF assms(1) v a] ad by (simp add: session_lookup_def)
qed

theorem session_id_leads_back_witness:
  "\<exists>ses mgr1 m1. AAAStartSession (\<lambda>_. True) 99 [104] 1 2 3 sample_mgr shm_init = Some (AAA_ERR_SUCCESS, Some ses, mgr1, m1)
    \<and> session_lookup (ses_table mgr1) (ses_sID ses) = Some (Some (ses_linker ses))"
proof -
  note wf = sample_mgr_wf
  from start_session_succeeds [OF wf, of "\<lambda>_. True" shm_init 1 2 99 "[104]" 3] obtain ses mgr1 m1 where
    st: "AAAStartSession (\<lambda>_. True) 99 [104] 1 2 3 sample_mgr shm_init = Some (AAA_ERR_SUCCESS, Some ses, mgr1, m1)"
    by auto
  have "\<not> cell_in (ses_table sample_mgr) (Suc (shm_calls shm_init))"
    by (simp add: sample_mgr_def cell_in_def)
  moreover have "AAAStartSession (\<lambda>_. True) 99 [104] 1 0 3 mgr1 m1 = Some (AAA_ERR_NOMEM, None, mgr1, m1)"
    by (simp add: AAAStartSession_def)
  ultimately show ?thesis using session_id_leads_back [OF wf _ _ st] st by auto
qed

theorem session_ids_unique_witness:
  "\<exists>ss mgr m. start_sessions (\<lambda>_. True) [104] 1 [(99, 2, 3), (99, 2, 3)] sample_mgr shm_init = Some (ss, mgr, m)
    \<and> distinct (map ses_sID ss)"
proof -
  note wf = sample_mgr_wf
  from start_session_succeeds [OF wf, of "\<lambda>_. True" shm_init 1 2 99 "[104]" 3] obtain s1 mgr1 m1 where
    st: "AAAStartSession (\<lambda>_. True) 99 [104] 1 2 3 sample_mgr shm_init = Some (AAA_ERR_SUCCESS, Some s1, mgr1, m1)"
    by auto
  from start_session_added [OF wf st] obtain link where
    v: "unat (hl_hash_code link) < length (entrys (ses_table sample_mgr))"
    and a: "add_cell_to_htable (ses_table sample_mgr) link = Some (1, ses_table mgr1, ses_linker s1)"
    and ad: "hl_addr link = Suc (shm_calls shm_init)" by metis
  have "\<not> cell_in (ses_table sample_mgr) (hl_addr link)" by (simp add: sample_mgr_def cell_in_def)
  then have wf1: "htable_wf (Suc 0) (ses_table mgr1)" using ht.add_wf [OF wf(1) _ v _ a] by simp
  have "hash_size (ses_table mgr1) \<noteq> 0"
    using add_cell_size [OF a] wf(2) by simp
  from start_session_succeeds [OF wf1 this, of "\<lambda>_. True" m1 1 2 99 "[104]" 3] st
  have ex: "\<exists>ss mgr m. start_sessions (\<lambda>_. True) [104] 1 [(99, 2, 3), (99, 2, 3)] sample_mgr shm_init = Some (ss, mgr, m)"
    by auto
  then show ?thesis
    using session_ids_unique [of "\<lambda>_. True" "[104]" 1 "[(99, 2, 3), (99, 2, 3)]" sample_mgr shm_init] by auto
qed

text \<open>
  Reading an identifier is undefined for foreign identifiers: when the last part of a
  received session identifier has more than eight hexadecimal digits, \<open>parse_sessionID\<close> shifts a
  32-bit value by 32 or more; and an identifier that parses to a hash code beyond the table makes
  \<open>session_lookup\<close> read outside the array of entries.
\<close>

lemma foreign_session_id:
  assumes "hex_only xs" and "8 < length xs" and "id_text \<noteq> []" and "length (entrys t) \<le> unat code"
  shows "parse_sessionID (id_text @ [chr_dot] @ xs) = None
    \<and> session_lookup t (id_text @ [chr_dot] @ int2hexstr code 8 @ [chr_dot] @ int2hexstr lab 8) = None"
proof -
  have "scan_hex (rev xs @ rest) rang u = None"
    if "32 < rang + 4 * length xs" "rang \<le> 32" "rang mod 4 = 0" for rang u rest
    using assms(1) that
  proof (induction xs arbitrary: rang u rule: rev_induct)
    case (snoc c xs)
    have m4: "(rang + 4) mod 4 = 0" using snoc.prems(4) by presburger
    have "rang < 32 \<Longrightarrow> rang + 4 \<le> 32" using snoc.prems(4) by presburger
    then have "rang < 32 \<Longrightarrow> scan_hex (rev xs @ rest) (rang + 4) v = None" for v
      using snoc.IH [of "rang + 4" v] snoc.prems(1,2) m4 by simp
    then show ?case using snoc.prems by (auto simp: hexchar2int_not_dot)
  qed simp
  from this [of 0 "chr_dot # rev id_text" 0] assms(2) have "parse_sessionID (id_text @ [chr_dot] @ xs) = None"
    by (simp add: parse_sessionID_def)
  moreover have "session_lookup t (id_text @ [chr_dot] @ int2hexstr code 8 @ [chr_dot] @ int2hexstr lab 8) = None"
    using parse_appended [OF assms(3)] assms(4) by (simp add: session_lookup_def cell_lookup_def)
  ultimately show ?thesis by blast
qed

end
