(* ===== verification/Session_Machine.thy ===== *)
theory Session_Machine
  imports Session_Id Timer
begin

text \<open>
  The sessions of diameter\_api/session.c: the session state machine with every event, the API
  functions that start and stop the timer of a session and end it, and the timer handler. The
  world holds the sessions by address, the timer list with its links (the link of a session is
  addressed by the session), the session manager and the allocator. A use of a session that has
  been freed is the value None, and so is following a null pointer. A run of a client is the
  step relation \<open>life_step\<close>; its invariant shows that a session lives exactly as long as somebody
  waits for an answer or has not ended it.
\<close>

section \<open>Definitions\<close>

datatype AAA_EVENTS =
    AAA_AcctR_RECEIVED | AAA_AcctA_RECEIVED | AAA_SENDING_AcctR | AAA_SENDING_AcctA
  | AAA_AuthA_RECEIVED | AAA_AuthR_RECEIVED | AAA_SENDING_AuthR | AAA_SENDING_AuthA
  | AAA_ASR_RECEIVED | AAA_ASA_RECEIVED | AAA_SENDING_ASR | AAA_SENDING_ASA
  | AAA_RAR_RECEIVED | AAA_RAA_RECEIVED | AAA_SENDING_RAR | AAA_SENDING_RAA
  | AAA_STR_RECEIVED | AAA_STA_RECEIVED | AAA_SENDING_STR | AAA_SENDING_STA
  | AAA_SESSION_REQ_TIMEOUT | AAA_SEND_FAILED

record ses_world =
  sw_sessions :: "ptr \<Rightarrow> session option"
  sw_tl :: tl_store
  sw_timer :: timer
  sw_mgr :: session_manager
  sw_shm :: shm

definition avp2int :: "AAAMessage \<Rightarrow> ptr \<Rightarrow> u32 option" where
  "avp2int msg p =
     (if p = NULL then None
      else case find (\<lambda>a. avp_addr a = p) (avpList msg) of
        None \<Rightarrow> None
      | Some a \<Rightarrow> peek4 (avp_data a) 0)"

text \<open>
  One event for a client of a stateless server, lines 386 to 549. The outcomes are: return 1,
  return -1 with the number of the message, destroy the session and return 0, and a null
  pointer or an AVP that is too short.
\<close>

datatype sm_outcome = SM_ok session | SM_error session nat | SM_abort session | SM_fault

definition sm_sending_AuthR :: "session \<Rightarrow> sm_outcome" where
  "sm_sending_AuthR ses =
     (if ses_st ses = AAA_IDLE_STATE \<or> ses_st ses = AAA_OPEN_STATE
      then SM_ok (ses\<lparr>prev_state := ses_st ses, ses_st := AAA_PENDING_STATE\<rparr>)
      else SM_error ses 1)"

definition sm_sending_AcctR :: "session \<Rightarrow> sm_outcome" where
  "sm_sending_AcctR ses =
     (if ses_st ses = AAA_DISCON_STATE \<or> ses_st ses = AAA_TO_DESTROY_STATE then SM_error ses 1
      else SM_ok (ses\<lparr>pending_accts := pending_accts ses + 1\<rparr>))"

definition sm_AuthA_received :: "session \<Rightarrow> AAAMessage option \<Rightarrow> sm_outcome" where
  "sm_AuthA_received ses msg =
     (case ses_st ses of
        AAA_PENDING_STATE \<Rightarrow>
          (case msg of
             None \<Rightarrow> SM_fault
           | Some g \<Rightarrow>
               (case (if auth_ses_state g \<noteq> NULL then avp2int g (auth_ses_state g) else Some 1) of
                  None \<Rightarrow> SM_fault
                | Some st \<Rightarrow>
                    let ses1 = (if st = 0 then ses\<lparr>peer_identity := AAA_SERVER_STATEFULL\<rparr> else ses)
                    in (case avp2int g (res_code g) of
                          None \<Rightarrow> SM_fault
                        | Some rc \<Rightarrow>
                            SM_ok (ses1\<lparr>ses_st := (if rc = AAA_SUCCESS then AAA_OPEN_STATE else prev_state ses1)\<rparr>))))
      | AAA_TO_DESTROY_STATE \<Rightarrow>
          if prev_state ses \<noteq> AAA_PENDING_STATE then SM_error ses 1
          else let ses1 = ses\<lparr>prev_state := AAA_DISCON_STATE\<rparr>
            in if pending_accts ses1 = 0 then SM_abort ses1 else SM_ok ses1
      | _ \<Rightarrow> SM_error ses 1)"

definition sm_acct_done :: "session \<Rightarrow> sm_outcome" where
  "sm_acct_done ses =
     (let ses1 = ses\<lparr>pending_accts := pending_accts ses - 1\<rparr>
      in if ses_st ses1 = AAA_TO_DESTROY_STATE then
           (if pending_accts ses1 + (if prev_state ses1 = AAA_PENDING_STATE then 1 else 0) = 0
            then SM_abort ses1 else SM_ok ses1)
         else SM_ok ses1)"

definition sm_AcctA_received :: "session \<Rightarrow> sm_outcome" where
  "sm_AcctA_received ses = (if pending_accts ses = 0 then SM_error ses 1 else sm_acct_done ses)"

definition sm_req_failed :: "session \<Rightarrow> AAAMessage option \<Rightarrow> sm_outcome" where
  "sm_req_failed ses msg =
     (case msg of
        None \<Rightarrow> SM_fault
      | Some g \<Rightarrow>
          if commandCode g = 271 then sm_acct_done ses
          else (case ses_st ses of
              AAA_PENDING_STATE \<Rightarrow> SM_ok (ses\<lparr>ses_st := prev_state ses\<rparr>)
            | AAA_TO_DESTROY_STATE \<Rightarrow>
                let ses1 = ses\<lparr>prev_state := AAA_DISCON_STATE\<rparr>
                in if pending_accts ses1 = 0 then SM_abort ses1 else SM_ok ses1
            | _ \<Rightarrow> SM_error ses 1))"

definition sm_stateless :: "session \<Rightarrow> AAA_EVENTS \<Rightarrow> AAAMessage option \<Rightarrow> sm_outcome" where
  "sm_stateless ses event msg =
     (case event of
        AAA_SENDING_AuthR \<Rightarrow> sm_sending_AuthR ses
      | AAA_SENDING_AcctR \<Rightarrow> sm_sending_AcctR ses
      | AAA_AuthA_RECEIVED \<Rightarrow> sm_AuthA_received ses msg
      | AAA_AcctA_RECEIVED \<Rightarrow> sm_AcctA_received ses
      | AAA_SESSION_REQ_TIMEOUT \<Rightarrow> sm_req_failed ses msg
      | AAA_SEND_FAILED \<Rightarrow> sm_req_failed ses msg
      | _ \<Rightarrow> SM_error ses 2)"

definition destroy_session :: "ptr \<Rightarrow> ses_world \<Rightarrow> ses_world option" where
  "destroy_session a w =
     (case sw_sessions w a of
        None \<Rightarrow> None
      | Some ses \<Rightarrow>
          let m1 = (if ses_sID_s ses \<noteq> NULL then shm_free (ses_sID_s ses) (sw_shm w) else sw_shm w);
              tls = (if tl_list (sw_tl w) a \<noteq> NULL then snd (rmv_from_timer_list a (sw_timer w) (sw_tl w))
                    else sw_tl w)
          in Some (w\<lparr>sw_sessions := (sw_sessions w)(a := None), sw_tl := tls, sw_shm := shm_free a m1\<rparr>))"

definition set_session :: "ptr \<Rightarrow> session \<Rightarrow> ses_world \<Rightarrow> ses_world" where
  "set_session a ses w = w\<lparr>sw_sessions := (sw_sessions w)(a \<mapsto> ses)\<rparr>"

definition session_state_machine :: "ptr \<Rightarrow> AAA_EVENTS \<Rightarrow> AAAMessage option \<Rightarrow> ses_world \<Rightarrow>
    (int \<times> ses_world) option" where
  "session_state_machine a event msg w =
     (case sw_sessions w a of
        None \<Rightarrow> None
      | Some ses \<Rightarrow>
          if peer_identity ses = AAA_CLIENT then Some (1, w)
          else if peer_identity ses = AAA_SERVER_STATELESS then
            (case sm_stateless ses event msg of
               SM_ok ses1 \<Rightarrow> Some (1, set_session a ses1 w)
             | SM_error ses1 n \<Rightarrow> Some (- 1, set_session a ses1 w)
             | SM_abort ses1 \<Rightarrow> map_option (Pair 0) (destroy_session a (set_session a ses1 w))
             | SM_fault \<Rightarrow> None)
          else if peer_identity ses = AAA_SERVER_STATEFULL then Some (1, w)
          else Some (- 1, w))"

definition AAASessionTimerStart :: "ptr \<Rightarrow> u32 \<Rightarrow> u32 \<Rightarrow> ses_world \<Rightarrow> (AAAReturnCode \<times> ses_world) option" where
  "AAASessionTimerStart a ticks timeout w = do {
     (r, h) \<leftarrow> insert_into_timer_list a (sw_timer w) (ticks + timeout) (sw_tl w);
     Some (AAA_ERR_SUCCESS, w\<lparr>sw_tl := h\<rparr>)
   }"

definition AAASessionTimerStop :: "ptr \<Rightarrow> ses_world \<Rightarrow> AAAReturnCode \<times> ses_world" where
  "AAASessionTimerStop a w = (AAA_ERR_SUCCESS, w\<lparr>sw_tl := snd (rmv_from_timer_list a (sw_timer w) (sw_tl w))\<rparr>)"

definition AAAEndSession :: "ptr \<Rightarrow> ses_world \<Rightarrow> (AAAReturnCode \<times> ses_world) option" where
  "AAAEndSession a w =
     (case sw_sessions w a of
        None \<Rightarrow> None
      | Some ses \<Rightarrow>
          if peer_identity ses = AAA_SERVER_STATEFULL then Some (AAA_ERR_SUCCESS, w)
          else
            let (_, t) = remove_cell_from_htable (ses_table (sw_mgr w)) a;
                w1 = w\<lparr>sw_mgr := (sw_mgr w)\<lparr>ses_table := t\<rparr>\<rparr>
            in if ses_st ses = AAA_PENDING_STATE \<or> pending_accts ses \<noteq> 0
               then Some (AAA_ERR_SUCCESS, set_session a (ses\<lparr>prev_state := ses_st ses,
                      ses_st := AAA_TO_DESTROY_STATE\<rparr>) w1)
               else map_option (Pair AAA_ERR_SUCCESS) (destroy_session a w1))"

text \<open>
  The handler runs the timeout function of the application for every expired link; \<open>tout\<close> is that
  function, called with the application, the session and its context, and it may change the
  world. The payload of a link is the session's address.
\<close>

fun run_touts :: "(ptr \<Rightarrow> ptr \<Rightarrow> ptr \<Rightarrow> ses_world \<Rightarrow> ses_world) \<Rightarrow> ptr list \<Rightarrow> ses_world \<Rightarrow> ses_world option" where
  "run_touts tout [] w = Some w"
| "run_touts tout (a # as) w =
     (case sw_sessions w a of
        None \<Rightarrow> None
      | Some ses \<Rightarrow> run_touts tout as (tout (app_ref ses) a (ses_context ses) w))"

definition ses_timer_handler :: "(ptr \<Rightarrow> ptr \<Rightarrow> ptr \<Rightarrow> ses_world \<Rightarrow> ses_world) \<Rightarrow> u32 \<Rightarrow> ses_world \<Rightarrow> ses_world option" where
  "ses_timer_handler tout ticks w = do {
     (first, h) \<leftarrow> get_expired_from_timer_list (sw_timer w) ticks (sw_tl w);
     links \<leftarrow> tl_chain h first;
     run_touts tout links (w\<lparr>sw_tl := h\<rparr>)
   }"

section \<open>The life of a session\<close>

text \<open>
  \<open>waiting_auth\<close> says that an authorization request of the session is under way, \<open>waiting_acct\<close>
  counts its accounting requests under way, \<open>ended\<close> says that the application has called
  \<open>AAAEndSession\<close>. These are what the environment knows; the code only has the session.
\<close>

record life =
  lf_world :: ses_world
  waiting_auth :: bool
  waiting_acct :: nat
  ended :: bool

definition stateless_answer :: "AAAMessage \<Rightarrow> bool" where
  "stateless_answer g \<longleftrightarrow> avp2int g (res_code g) \<noteq> None \<and>
     (auth_ses_state g = NULL \<or> (\<exists>v. avp2int g (auth_ses_state g) = Some v \<and> v \<noteq> 0))"

text \<open>
  The steps: the application sends a request (only before it has ended the session), the answer
  comes or the request fails or times out, and the application ends the session once.
\<close>

inductive life_step :: "ptr \<Rightarrow> life \<Rightarrow> life \<Rightarrow> bool" for a where
  send_auth: "\<not> ended l \<Longrightarrow> session_state_machine a AAA_SENDING_AuthR msg (lf_world l) = Some (1, w) \<Longrightarrow>
    life_step a l (l\<lparr>lf_world := w, waiting_auth := True\<rparr>)"
| send_acct: "\<not> ended l \<Longrightarrow> Suc (waiting_acct l) < 2 ^ 32 \<Longrightarrow>
    session_state_machine a AAA_SENDING_AcctR msg (lf_world l) = Some (1, w) \<Longrightarrow>
    life_step a l (l\<lparr>lf_world := w, waiting_acct := Suc (waiting_acct l)\<rparr>)"
| refused: "\<not> ended l \<Longrightarrow> e \<in> {AAA_SENDING_AuthR, AAA_SENDING_AcctR} \<Longrightarrow>
    session_state_machine a e msg (lf_world l) = Some (- 1, w) \<Longrightarrow> life_step a l (l\<lparr>lf_world := w\<rparr>)"
| auth_answer: "waiting_auth l \<Longrightarrow> stateless_answer g \<Longrightarrow>
    session_state_machine a AAA_AuthA_RECEIVED (Some g) (lf_world l) = Some (r, w) \<Longrightarrow>
    life_step a l (l\<lparr>lf_world := w, waiting_auth := False\<rparr>)"
| acct_answer: "waiting_acct l = Suc n \<Longrightarrow>
    session_state_machine a AAA_AcctA_RECEIVED (Some g) (lf_world l) = Some (r, w) \<Longrightarrow>
    life_step a l (l\<lparr>lf_world := w, waiting_acct := n\<rparr>)"
| auth_failed: "waiting_auth l \<Longrightarrow> e \<in> {AAA_SESSION_REQ_TIMEOUT, AAA_SEND_FAILED} \<Longrightarrow> commandCode g \<noteq> 271 \<Longrightarrow>
    session_state_machine a e (Some g) (lf_world l) = Some (r, w) \<Longrightarrow>
    life_step a l (l\<lparr>lf_world := w, waiting_auth := False\<rparr>)"
| acct_failed: "waiting_acct l = Suc n \<Longrightarrow> e \<in> {AAA_SESSION_REQ_TIMEOUT, AAA_SEND_FAILED} \<Longrightarrow> commandCode g = 271 \<Longrightarrow>
    session_state_machine a e (Some g) (lf_world l) = Some (r, w) \<Longrightarrow>
    life_step a l (l\<lparr>lf_world := w, waiting_acct := n\<rparr>)"
| end_session: "\<not> ended l \<Longrightarrow> AAAEndSession a (lf_world l) = Some (r, w) \<Longrightarrow>
    life_step a l (l\<lparr>lf_world := w, ended := True\<rparr>)"

inductive life_reach :: "ptr \<Rightarrow> life \<Rightarrow> bool" for a where
  life_init: "sw_sessions w a = Some ses \<Longrightarrow> peer_identity ses = AAA_SERVER_STATELESS \<Longrightarrow>
    ses_st ses = AAA_IDLE_STATE \<Longrightarrow> pending_accts ses = 0 \<Longrightarrow>
    life_reach a \<lparr>lf_world = w, waiting_auth = False, waiting_acct = 0, ended = False\<rparr>"
| life_next: "life_reach a l \<Longrightarrow> life_step a l l' \<Longrightarrow> life_reach a l'"

section \<open>The invariant\<close>

definition ses_inv :: "session \<Rightarrow> life \<Rightarrow> bool" where
  "ses_inv ses l \<longleftrightarrow> peer_identity ses = AAA_SERVER_STATELESS \<and>
     unat (pending_accts ses) = waiting_acct l \<and> waiting_acct l < 2 ^ 32 \<and>
     (if ended l
      then ses_st ses = AAA_TO_DESTROY_STATE \<and> (prev_state ses = AAA_PENDING_STATE \<longleftrightarrow> waiting_auth l)
      else (ses_st ses = AAA_PENDING_STATE \<longleftrightarrow> waiting_auth l) \<and> ses_st ses \<noteq> AAA_TO_DESTROY_STATE \<and>
        ses_st ses \<noteq> AAA_DISCON_STATE \<and>
        (ses_st ses = AAA_PENDING_STATE \<longrightarrow> prev_state ses = AAA_IDLE_STATE \<or> prev_state ses = AAA_OPEN_STATE))"

definition needed :: "life \<Rightarrow> bool" where
  "needed l \<longleftrightarrow> \<not> ended l \<or> waiting_auth l \<or> waiting_acct l \<noteq> 0"

definition life_inv :: "ptr \<Rightarrow> life \<Rightarrow> bool" where
  "life_inv a l \<longleftrightarrow>
     (if needed l then \<exists>ses. sw_sessions (lf_world l) a = Some ses \<and> ses_inv ses l
      else sw_sessions (lf_world l) a = None)"

definition outcome_inv :: "sm_outcome \<Rightarrow> life \<Rightarrow> bool" where
  "outcome_inv out l \<longleftrightarrow>
     (case out of
        SM_ok ses \<Rightarrow> needed l \<and> ses_inv ses l
      | SM_error ses n \<Rightarrow> False
      | SM_abort ses \<Rightarrow> \<not> needed l
      | SM_fault \<Rightarrow> False)"

lemma ses_inv_world [simp]: "ses_inv ses (l\<lparr>lf_world := w\<rparr>) = ses_inv ses l"
  by (simp add: ses_inv_def)

lemma needed_world [simp]: "needed (l\<lparr>lf_world := w\<rparr>) = needed l"
  by (simp add: needed_def)

lemma unat_pred: "unat (p :: u32) = Suc n \<Longrightarrow> unat (p - 1) = n"
proof -
  assume "unat p = Suc n"
  moreover from this have "p \<noteq> 0" by auto
  ultimately show ?thesis by (simp add: unat_minus_one)
qed

lemma u32_zero: "(p :: u32) = 0 \<longleftrightarrow> unat p = 0"
  by (simp add: word_unat_eq_iff)

lemma acct_done_inv:
  assumes "ses_inv ses l" and "waiting_acct l = Suc n"
  shows "outcome_inv (sm_acct_done ses) (l\<lparr>waiting_acct := n\<rparr>)"
proof -
  have u: "unat (pending_accts ses - 1) = n"
    using assms by (intro unat_pred) (simp add: ses_inv_def)
  have "unat (pending_accts ses - 1 + 1) = Suc n" using assms by (simp add: ses_inv_def)
  then have z: "pending_accts ses - 1 + 1 \<noteq> 0" by auto
  show ?thesis
    using assms u z
    by (auto simp: sm_acct_done_def outcome_inv_def ses_inv_def needed_def u32_zero Let_def split: if_splits)
qed

lemma AcctA_inv:
  "ses_inv ses l \<Longrightarrow> waiting_acct l = Suc n \<Longrightarrow> outcome_inv (sm_AcctA_received ses) (l\<lparr>waiting_acct := n\<rparr>)"
  using acct_done_inv by (auto simp: sm_AcctA_received_def ses_inv_def)

lemma AuthA_inv:
  assumes "ses_inv ses l" and "waiting_auth l" and "stateless_answer g"
  shows "outcome_inv (sm_AuthA_received ses (Some g)) (l\<lparr>waiting_auth := False\<rparr>)"
proof (cases "ended l")
  case True
  then show ?thesis using assms
    by (auto simp: sm_AuthA_received_def outcome_inv_def ses_inv_def needed_def u32_zero Let_def)
next
  case False
  from assms(3) obtain rc where rc: "avp2int g (res_code g) = Some rc"
    and st: "auth_ses_state g = NULL \<or> (\<exists>v. avp2int g (auth_ses_state g) = Some v \<and> v \<noteq> 0)"
    by (auto simp: stateless_answer_def)
  have "ses_st ses = AAA_PENDING_STATE" "prev_state ses = AAA_IDLE_STATE \<or> prev_state ses = AAA_OPEN_STATE"
    using assms(1,2) False by (auto simp: ses_inv_def)
  with rc st False assms(1,2) show ?thesis
    by (auto simp: sm_AuthA_received_def outcome_inv_def ses_inv_def needed_def Let_def)
qed

lemma req_failed_inv:
  assumes "ses_inv ses l"
  shows "commandCode g \<noteq> 271 \<Longrightarrow> waiting_auth l \<Longrightarrow>
      outcome_inv (sm_req_failed ses (Some g)) (l\<lparr>waiting_auth := False\<rparr>)"
    and "commandCode g = 271 \<Longrightarrow> waiting_acct l = Suc n \<Longrightarrow>
      outcome_inv (sm_req_failed ses (Some g)) (l\<lparr>waiting_acct := n\<rparr>)"
  using assms acct_done_inv
  by (auto simp: sm_req_failed_def outcome_inv_def ses_inv_def needed_def u32_zero Let_def split: if_splits)

text \<open>An event whose outcome keeps the invariant is answered, and the world keeps it.\<close>

lemma outcome_life:
  assumes "sw_sessions (lf_world l) a = Some ses" and "ses_inv ses l" and "outcome_inv (sm_stateless ses e msg) l'"
  shows "\<exists>r w. session_state_machine a e msg (lf_world l) = Some (r, w) \<and> life_inv a (l'\<lparr>lf_world := w\<rparr>)"
proof -
  have "peer_identity ses = AAA_SERVER_STATELESS" using assms(2) by (simp add: ses_inv_def)
  then show ?thesis using assms(1,3)
    by (auto simp: session_state_machine_def outcome_inv_def life_inv_def set_session_def destroy_session_def
        Let_def split: sm_outcome.splits)
qed

lemma life_inv_alive:
  assumes "life_inv a l" and "needed l"
  obtains ses where "sw_sessions (lf_world l) a = Some ses" and "ses_inv ses l"
  using assms by (auto simp: life_inv_def)

lemma send_inv:
  assumes "sw_sessions (lf_world l) a = Some ses" and "ses_inv ses l" and "\<not> ended l"
    and "session_state_machine a e msg (lf_world l) = Some (r, w)"
  shows "e = AAA_SENDING_AuthR \<Longrightarrow> r = 1 \<Longrightarrow> life_inv a (l\<lparr>lf_world := w, waiting_auth := True\<rparr>)"
    and "e = AAA_SENDING_AcctR \<Longrightarrow> r = 1 \<Longrightarrow> Suc (waiting_acct l) < 2 ^ 32 \<Longrightarrow>
      life_inv a (l\<lparr>lf_world := w, waiting_acct := Suc (waiting_acct l)\<rparr>)"
    and "e \<in> {AAA_SENDING_AuthR, AAA_SENDING_AcctR} \<Longrightarrow> r = - 1 \<Longrightarrow> life_inv a (l\<lparr>lf_world := w\<rparr>)"
proof -
  have p: "peer_identity ses = AAA_SERVER_STATELESS" using assms(2) by (simp add: ses_inv_def)
  note unf = session_state_machine_def sm_stateless_def sm_sending_AuthR_def sm_sending_AcctR_def
    life_inv_def set_session_def ses_inv_def needed_def
  show "life_inv a (l\<lparr>lf_world := w, waiting_auth := True\<rparr>)" if "e = AAA_SENDING_AuthR" "r = 1"
    using that assms p by (auto simp: unf split: if_splits)
  show "life_inv a (l\<lparr>lf_world := w\<rparr>)" if "e \<in> {AAA_SENDING_AuthR, AAA_SENDING_AcctR}" "r = - 1"
    using that assms p by (auto simp: unf split: if_splits)
  show "life_inv a (l\<lparr>lf_world := w, waiting_acct := Suc (waiting_acct l)\<rparr>)"
    if "e = AAA_SENDING_AcctR" "r = 1" and n: "Suc (waiting_acct l) < 2 ^ 32"
  proof -
    have "unat (pending_accts ses + 1) = Suc (waiting_acct l)"
      using assms(2) n by (simp add: ses_inv_def unat_word_ariths)
    then show ?thesis using that assms p by (auto simp: unf split: if_splits)
  qed
qed

lemma destroy_session_gone:
  "sw_sessions w a = Some ses \<Longrightarrow> \<exists>w'. destroy_session a w = Some w' \<and> sw_sessions w' = (sw_sessions w)(a := None)"
  by (auto simp: destroy_session_def Let_def)

lemma end_inv:
  assumes "sw_sessions (lf_world l) a = Some ses" and "ses_inv ses l" and "\<not> ended l"
  shows "\<exists>w. AAAEndSession a (lf_world l) = Some (AAA_ERR_SUCCESS, w) \<and> life_inv a (l\<lparr>lf_world := w, ended := True\<rparr>)"
proof -
  have p: "peer_identity ses = AAA_SERVER_STATELESS" using assms(2) by (simp add: ses_inv_def)
  define w1 where "w1 = (lf_world l)\<lparr>sw_mgr := (sw_mgr (lf_world l))\<lparr>ses_table :=
    snd (remove_cell_from_htable (ses_table (sw_mgr (lf_world l))) a)\<rparr>\<rparr>"
  have s1: "sw_sessions w1 a = Some ses" using assms(1) by (simp add: w1_def)
  show ?thesis
  proof (cases "ses_st ses = AAA_PENDING_STATE \<or> pending_accts ses \<noteq> 0")
    case True
    then have "AAAEndSession a (lf_world l) = Some (AAA_ERR_SUCCESS,
        set_session a (ses\<lparr>prev_state := ses_st ses, ses_st := AAA_TO_DESTROY_STATE\<rparr>) w1)"
      using assms(1) p by (simp add: AAAEndSession_def w1_def case_prod_unfold Let_def)
    moreover have "needed (l\<lparr>ended := True\<rparr>)"
      using True assms by (auto simp: needed_def ses_inv_def u32_zero)
    ultimately show ?thesis using assms True
      by (auto simp: life_inv_def needed_def set_session_def ses_inv_def)
  next
    case False
    from destroy_session_gone [OF s1] obtain w2 where
      w2: "destroy_session a w1 = Some w2" "sw_sessions w2 = (sw_sessions w1)(a := None)" by blast
    have "AAAEndSession a (lf_world l) = Some (AAA_ERR_SUCCESS, w2)"
      using False assms(1) p w2(1) by (simp add: AAAEndSession_def w1_def case_prod_unfold Let_def)
    moreover have "\<not> needed (l\<lparr>ended := True\<rparr>)"
      using False assms by (auto simp: needed_def ses_inv_def u32_zero)
    ultimately show ?thesis using w2(2) by (auto simp: life_inv_def needed_def)
  qed
qed

lemma life_upd_swap:
  "l\<lparr>waiting_auth := b, lf_world := w\<rparr> = l\<lparr>lf_world := w, waiting_auth := b\<rparr>"
  "l\<lparr>waiting_acct := n, lf_world := w\<rparr> = l\<lparr>lf_world := w, waiting_acct := n\<rparr>"
  by simp_all

lemma life_step_inv:
  assumes "life_inv a l" and "life_step a l l'"
  shows "life_inv a l'"
proof -
  have n: "\<not> ended l \<or> waiting_auth l \<or> waiting_acct l \<noteq> 0"
    using assms(2) by cases auto
  then obtain ses where s: "sw_sessions (lf_world l) a = Some ses" "ses_inv ses l"
    using life_inv_alive [OF assms(1)] by (auto simp: needed_def)
  have fin: "life_inv a (l'\<lparr>lf_world := w\<rparr>)"
    if "session_state_machine a e msg (lf_world l) = Some (r, w)" "outcome_inv (sm_stateless ses e msg) l'" for e msg r w l'
    using outcome_life [OF s that(2)] that(1) by auto
  show ?thesis
    using assms(2)
  proof cases
    case (auth_answer g r w)
    then have "outcome_inv (sm_stateless ses AAA_AuthA_RECEIVED (Some g)) (l\<lparr>waiting_auth := False\<rparr>)"
      using AuthA_inv [OF s(2)] by (simp add: sm_stateless_def)
    from fin [OF auth_answer(4) this] auth_answer(1) show ?thesis by (simp add: life_upd_swap)
  next
    case (acct_answer n g r w)
    then have "outcome_inv (sm_stateless ses AAA_AcctA_RECEIVED (Some g)) (l\<lparr>waiting_acct := n\<rparr>)"
      using AcctA_inv [OF s(2)] by (simp add: sm_stateless_def)
    from fin [OF acct_answer(3) this] acct_answer(1) show ?thesis by (simp add: life_upd_swap)
  next
    case (auth_failed e g r w)
    then have "outcome_inv (sm_stateless ses e (Some g)) (l\<lparr>waiting_auth := False\<rparr>)"
      using req_failed_inv(1) [OF s(2)] by (auto simp: sm_stateless_def)
    from fin [OF auth_failed(5) this] auth_failed(1) show ?thesis by (simp add: life_upd_swap)
  next
    case (acct_failed n e g r w)
    then have "outcome_inv (sm_stateless ses e (Some g)) (l\<lparr>waiting_acct := n\<rparr>)"
      using req_failed_inv(2) [OF s(2)] by (auto simp: sm_stateless_def)
    from fin [OF acct_failed(5) this] acct_failed(1) show ?thesis by (simp add: life_upd_swap)
  next
    case (end_session r w)
    then show ?thesis using end_inv [OF s] by auto
  qed (use send_inv [OF s] in auto)
qed

lemma life_reach_inv: "life_reach a l \<Longrightarrow> life_inv a l"
proof (induction rule: life_reach.induct)
  case (life_init w ses)
  then show ?case by (simp add: life_inv_def needed_def ses_inv_def)
next
  case (life_next l l')
  then show ?case using life_step_inv by blast
qed

lemma event_answered:
  assumes "life_inv a l" and "needed l" and "\<And>ses. ses_inv ses l \<Longrightarrow> outcome_inv (sm_stateless ses e msg) l'"
  shows "session_state_machine a e msg (lf_world l) \<noteq> None"
proof -
  from life_inv_alive [OF assms(1,2)] obtain ses where s: "sw_sessions (lf_world l) a = Some ses" "ses_inv ses l" .
  from outcome_life [OF s assms(3) [OF s(2)]] show ?thesis by auto
qed

lemma events_answered:
  assumes "life_inv a l"
  shows "waiting_auth l \<Longrightarrow> stateless_answer g \<Longrightarrow>
      session_state_machine a AAA_AuthA_RECEIVED (Some g) (lf_world l) \<noteq> None"
    and "0 < waiting_acct l \<Longrightarrow> session_state_machine a AAA_AcctA_RECEIVED (Some g) (lf_world l) \<noteq> None"
    and "waiting_auth l \<Longrightarrow> commandCode g \<noteq> 271 \<Longrightarrow> e \<in> {AAA_SESSION_REQ_TIMEOUT, AAA_SEND_FAILED} \<Longrightarrow>
      session_state_machine a e (Some g) (lf_world l) \<noteq> None"
    and "0 < waiting_acct l \<Longrightarrow> commandCode g = 271 \<Longrightarrow> e \<in> {AAA_SESSION_REQ_TIMEOUT, AAA_SEND_FAILED} \<Longrightarrow>
      session_state_machine a e (Some g) (lf_world l) \<noteq> None"
proof -
  have auth: "waiting_auth l \<Longrightarrow> needed l" and acct: "0 < waiting_acct l \<Longrightarrow> needed l" by (auto simp: needed_def)
  have n: "0 < waiting_acct l \<Longrightarrow> waiting_acct l = Suc (waiting_acct l - 1)" by simp
  show "session_state_machine a AAA_AuthA_RECEIVED (Some g) (lf_world l) \<noteq> None"
    if "waiting_auth l" "stateless_answer g"
    using that by (intro event_answered [OF assms auth, of _ _ "l\<lparr>waiting_auth := False\<rparr>"])
      (simp_all add: sm_stateless_def AuthA_inv)
  show "session_state_machine a AAA_AcctA_RECEIVED (Some g) (lf_world l) \<noteq> None" if "0 < waiting_acct l"
    using that n by (intro event_answered [OF assms acct, of _ _ "l\<lparr>waiting_acct := waiting_acct l - 1\<rparr>"])
      (simp_all add: sm_stateless_def AcctA_inv)
  show "session_state_machine a e (Some g) (lf_world l) \<noteq> None"
    if "waiting_auth l" "commandCode g \<noteq> 271" "e \<in> {AAA_SESSION_REQ_TIMEOUT, AAA_SEND_FAILED}"
    using that by (intro event_answered [OF assms auth, of _ _ "l\<lparr>waiting_auth := False\<rparr>"])
      (auto simp: sm_stateless_def req_failed_inv(1))
  show "session_state_machine a e (Some g) (lf_world l) \<noteq> None"
    if "0 < waiting_acct l" "commandCode g = 271" "e \<in> {AAA_SESSION_REQ_TIMEOUT, AAA_SEND_FAILED}"
    using that n by (intro event_answered [OF assms acct, of _ _ "l\<lparr>waiting_acct := waiting_acct l - 1\<rparr>"])
      (auto simp: sm_stateless_def req_failed_inv(2))
qed

section \<open>Properties\<close>

text \<open>
  (C11) A session lives exactly as long as it is needed: in every run of a client of a stateless
  server, the session is freed if and only if the application has ended it and no request of it
  waits for an answer. And no event meets a freed session: while a request is under way, its
  answer, its timeout and its failure are all handled by \<open>session_state_machine\<close> without touching
  freed memory, and before the application has ended the session, \<open>AAAEndSession\<close> can be called.
\<close>

theorem session_lifetime:
  assumes "life_reach a l"
  shows "(sw_sessions (lf_world l) a = None \<longleftrightarrow> ended l \<and> \<not> waiting_auth l \<and> waiting_acct l = 0)
    \<and> (waiting_auth l \<longrightarrow> stateless_answer g \<longrightarrow>
        session_state_machine a AAA_AuthA_RECEIVED (Some g) (lf_world l) \<noteq> None)
    \<and> (0 < waiting_acct l \<longrightarrow> session_state_machine a AAA_AcctA_RECEIVED (Some g) (lf_world l) \<noteq> None)
    \<and> (waiting_auth l \<longrightarrow> commandCode g \<noteq> 271 \<longrightarrow>
        session_state_machine a AAA_SESSION_REQ_TIMEOUT (Some g) (lf_world l) \<noteq> None \<and>
        session_state_machine a AAA_SEND_FAILED (Some g) (lf_world l) \<noteq> None)
    \<and> (0 < waiting_acct l \<longrightarrow> commandCode g = 271 \<longrightarrow>
        session_state_machine a AAA_SESSION_REQ_TIMEOUT (Some g) (lf_world l) \<noteq> None \<and>
        session_state_machine a AAA_SEND_FAILED (Some g) (lf_world l) \<noteq> None)
    \<and> (\<not> ended l \<longrightarrow> AAAEndSession a (lf_world l) \<noteq> None)"
proof -
  note inv = life_reach_inv [OF assms]
  have "sw_sessions (lf_world l) a = None \<longleftrightarrow> \<not> needed l"
    using inv by (auto simp: life_inv_def split: if_splits)
  moreover have "\<not> ended l \<longrightarrow> AAAEndSession a (lf_world l) \<noteq> None"
    using life_inv_alive [OF inv] end_inv by (metis needed_def option.distinct(1))
  ultimately show ?thesis using events_answered [OF inv, of g] by (simp add: needed_def)
qed


definition sample_session :: session where
  "sample_session = \<lparr>ses_linker = \<lparr>hl_addr = 7, hl_label = 0, hl_hash_code = 0\<rparr>, ses_mutex = 0,
     peer_identity = AAA_SERVER_STATELESS, ses_sID_s = 8, ses_sID = [104], app_ref = 1, ses_context = 2,
     ses_st = AAA_IDLE_STATE, prev_state = AAA_IDLE_STATE, pending_accts = 0\<rparr>"

definition sample_world :: ses_world where
  "sample_world = \<lparr>sw_sessions = [7 \<mapsto> sample_session],
     sw_tl = \<lparr>lh_next = (\<lambda>_. NULL), lh_prev = (\<lambda>_. NULL), tl_timeout = (\<lambda>_. 0), tl_payload = (\<lambda>_. NULL),
       tl_list = (\<lambda>_. NULL)\<rparr>,
     sw_timer = \<lparr>timer_addr = 1, first_tl = 2, last_tl = 3\<rparr>, sw_mgr = sample_mgr,
     sw_shm = \<lparr>shm_calls = 8, shm_live = [8, 7]\<rparr>\<rparr>"

theorem session_lifetime_witness:
  "\<exists>w. AAAEndSession 7 sample_world = Some (AAA_ERR_SUCCESS, w) \<and> sw_sessions w 7 = None"
proof -
  let ?l = "\<lparr>lf_world = sample_world, waiting_auth = False, waiting_acct = 0, ended = False\<rparr>"
  have r: "life_reach 7 ?l" by (rule life_init) (auto simp: sample_world_def sample_session_def)
  have "AAAEndSession 7 sample_world \<noteq> None"
    using session_lifetime [OF r, of "zero_msg 1"] by simp
  then obtain rc w where w: "AAAEndSession 7 sample_world = Some (rc, w)" by auto
  then have rc: "rc = AAA_ERR_SUCCESS"
    by (auto simp: AAAEndSession_def Let_def split: option.splits if_splits prod.splits)
  have "life_reach 7 (?l\<lparr>lf_world := w, ended := True\<rparr>)"
    by (rule life_next [OF r end_session]) (simp_all add: w)
  from session_lifetime [OF this, of "zero_msg 1"] w rc show ?thesis by simp
qed

text \<open>
  An authorization exchange: for a session that is idle or open, sending a request is
  accepted, an answer with result code 2001 then opens the session, any other result code and a
  failure or timeout put it back into the state it had, and nothing else of the session or of
  the world changes but the remembered previous state.
\<close>

lemma auth_exchange:
  assumes "sw_sessions w a = Some ses" and "peer_identity ses = AAA_SERVER_STATELESS"
    and "ses_st ses = AAA_IDLE_STATE \<or> ses_st ses = AAA_OPEN_STATE"
    and "avp2int g (res_code g) = Some rc" and "auth_ses_state g = NULL" and "commandCode g \<noteq> 271"
  shows "\<exists>w1. session_state_machine a AAA_SENDING_AuthR m w = Some (1, w1)
    \<and> session_state_machine a AAA_AuthA_RECEIVED (Some g) w1 = Some (1, set_session a
        (ses\<lparr>prev_state := ses_st ses, ses_st := if rc = 2001 then AAA_OPEN_STATE else ses_st ses\<rparr>) w)
    \<and> session_state_machine a AAA_SEND_FAILED (Some g) w1 =
        Some (1, set_session a (ses\<lparr>prev_state := ses_st ses\<rparr>) w)"
proof -
  let ?ses = "ses\<lparr>prev_state := ses_st ses, ses_st := AAA_PENDING_STATE\<rparr>"
  have "session_state_machine a AAA_SENDING_AuthR m w = Some (1, set_session a ?ses w)"
    using assms by (simp add: session_state_machine_def sm_stateless_def sm_sending_AuthR_def)
  moreover have "session_state_machine a AAA_AuthA_RECEIVED (Some g) (set_session a ?ses w) = Some (1, set_session a
        (ses\<lparr>prev_state := ses_st ses, ses_st := if rc = 2001 then AAA_OPEN_STATE else ses_st ses\<rparr>) w)"
    using assms by (simp add: session_state_machine_def sm_stateless_def sm_AuthA_received_def set_session_def)
  moreover have "session_state_machine a AAA_SEND_FAILED (Some g) (set_session a ?ses w) =
        Some (1, set_session a (ses\<lparr>prev_state := ses_st ses\<rparr>) w)"
    using assms by (simp add: session_state_machine_def sm_stateless_def sm_req_failed_def set_session_def)
  ultimately show ?thesis by blast
qed

definition sample_answer :: "u32 \<Rightarrow> AAAMessage" where
  "sample_answer rc = (zero_msg 1)\<lparr>commandCode := 272, res_code := 5, avpList := [\<lparr>avp_addr = 5,
     packetType = AAA_DIAMETER, avp_code = 268, avp_flags = 0x40, avp_type = AAA_AVP_INTEGER32_TYPE,
     avp_vendorId = 0, avp_data_s = 6, avp_data = be32 rc, free_it = True\<rparr>]\<rparr>"

text \<open>
  Events that the code cannot handle: a client that reports a timeout without a message (as
  \<open>client_worker\<close> does for an answer that does not parse) makes the state machine follow a null
  pointer, and so does an authorization answer without a Result-Code AVP for a session that waits
  for it; and once an answer has declared the server statefull, \<open>AAAEndSession\<close> never removes the
  session again.
\<close>

lemma session_unhandled:
  assumes "sw_sessions w a = Some ses" and "peer_identity ses = AAA_SERVER_STATELESS"
    and "ses_st ses = AAA_PENDING_STATE" and "res_code g = NULL"
    and "sw_sessions w b = Some ses'" and "peer_identity ses' = AAA_SERVER_STATEFULL"
  shows "session_state_machine a AAA_SESSION_REQ_TIMEOUT None w = None
    \<and> session_state_machine a AAA_AuthA_RECEIVED (Some g) w = None
    \<and> AAAEndSession b w = Some (AAA_ERR_SUCCESS, w)"
  using assms
  by (auto simp: session_state_machine_def sm_stateless_def sm_req_failed_def sm_AuthA_received_def
      avp2int_def AAAEndSession_def Let_def split: option.splits)

end
