(* ===== verification/Transaction.thy ===== *)
theory Transaction
  imports Hash_Table
begin

text \<open>
  transport/trans.c and trans.h, and the part of peer.c that hands a transaction to the table of
  a peer and to the timeout list: a transaction is referenced by the table and by the timer
  list, is looked up when an answer comes and expires otherwise. Tables are those of
  Hash\_Table; the timeout list is used as a sequence of links with their timeouts (Timer shows
  that the pointer lists behave so). The linker is the first field of a transaction, so a cell
  has the address of its transaction. A use of a freed transaction is the value None.

  The answer to a request and its timeout are handled by different threads. The step relation
  \<open>race_step\<close> interleaves their atomic sections; its invariant shows that the reference counter
  makes every interleaving safe.
\<close>

section \<open>Definitions\<close>

record trans =
  tr_linker :: h_link
  ref_cnt :: int
  tr_ses :: ptr
  orig_hopbyhopId :: u32
  tr_info :: u32
  tr_in_peer :: ptr
  tr_out_peer :: ptr
  tr_req :: ptr
  timeout_f :: ptr

record tr_world =
  tw_trans :: "ptr \<Rightarrow> trans option"
  tw_tables :: "ptr \<Rightarrow> h_table"
  tw_timer :: "(ptr \<times> u32) list"
  tw_shm :: shm

definition TR_TIMEOUT_TIMEOUT :: u32 where "TR_TIMEOUT_TIMEOUT = 10"

definition create_transaction :: "(nat \<Rightarrow> bool) \<Rightarrow> ptr \<Rightarrow> ptr \<Rightarrow> ptr \<Rightarrow> tr_world \<Rightarrow> ptr \<times> tr_world" where
  "create_transaction ok buf in_peer tf w =
     (let (t, m) = shm_malloc ok (tw_shm w)
      in if t = NULL then (NULL, w\<lparr>tw_shm := m\<rparr>)
         else (t, w\<lparr>tw_shm := m, tw_trans := (tw_trans w)(t \<mapsto> \<lparr>tr_linker = \<lparr>hl_addr = t, hl_label = 0,
           hl_hash_code = 0\<rparr>, ref_cnt = 1, tr_ses = NULL, orig_hopbyhopId = 0, tr_info = 0,
           tr_in_peer = in_peer, tr_out_peer = NULL, tr_req = buf, timeout_f = tf\<rparr>)\<rparr>))"

definition set_trans :: "ptr \<Rightarrow> trans \<Rightarrow> tr_world \<Rightarrow> tr_world" where
  "set_trans p tr w = w\<lparr>tw_trans := (tw_trans w)(p \<mapsto> tr)\<rparr>"

definition set_table :: "ptr \<Rightarrow> h_table \<Rightarrow> tr_world \<Rightarrow> tr_world" where
  "set_table peer t w = w\<lparr>tw_tables := (tw_tables w)(peer := t)\<rparr>"

text \<open>\<open>atomic_inc\<close> and \<open>atomic_dec\<close> of counter.h.\<close>

definition atomic_add :: "int \<Rightarrow> ptr \<Rightarrow> tr_world \<Rightarrow> tr_world option" where
  "atomic_add k p w = map_option (\<lambda>tr. set_trans p (tr\<lparr>ref_cnt := ref_cnt tr + k\<rparr>) w) (tw_trans w p)"

definition destroy_transaction :: "ptr \<Rightarrow> tr_world \<Rightarrow> tr_world option" where
  "destroy_transaction p w =
     (if p = NULL then Some w
      else do {
        w1 \<leftarrow> atomic_add (- 1) p w;
        tr \<leftarrow> tw_trans w1 p;
        Some (if ref_cnt tr = 0
          then w1\<lparr>tw_trans := (tw_trans w1)(p := None), tw_shm := shm_free p (tw_shm w1)\<rparr>
          else w1)
      })"

text \<open>The timer list as a sequence: adding at the end, removing, and taking what is due.\<close>

definition timer_add :: "ptr \<Rightarrow> u32 \<Rightarrow> tr_world \<Rightarrow> int \<times> tr_world" where
  "timer_add p timeout w =
     (if p \<in> fst ` set (tw_timer w) then (- 1, w) else (1, w\<lparr>tw_timer := tw_timer w @ [(p, timeout)]\<rparr>))"

definition timer_rmv :: "ptr \<Rightarrow> tr_world \<Rightarrow> int \<times> tr_world" where
  "timer_rmv p w =
     (if p \<in> fst ` set (tw_timer w) then (1, w\<lparr>tw_timer := filter (\<lambda>x. fst x \<noteq> p) (tw_timer w)\<rparr>) else (- 1, w))"

definition timer_expired :: "u32 \<Rightarrow> tr_world \<Rightarrow> ptr list \<times> tr_world" where
  "timer_expired time w =
     (map fst (takeWhile (\<lambda>x. snd x \<le> time) (tw_timer w)),
      w\<lparr>tw_timer := dropWhile (\<lambda>x. snd x \<le> time) (tw_timer w)\<rparr>)"

text \<open>
  The part that \<open>send_req_to_peer\<close> and \<open>internal_send_request\<close> share: the transaction is put into
  the table of the peer under the hash of the end-to-end identifier, its label is the
  hop-by-hop identifier, one more reference is taken for the timer list.
\<close>

definition link_transaction :: "u32 \<Rightarrow> ptr \<Rightarrow> u32 \<Rightarrow> ptr \<Rightarrow> tr_world \<Rightarrow> (u32 \<times> tr_world) option" where
  "link_transaction ticks peer ete p w = do {
     tr \<leftarrow> tw_trans w p;
     let table = tw_tables w peer;
     let link = (tr_linker tr)\<lparr>hl_hash_code := hash (le32 ete) (hash_size table)\<rparr>;
     (r, table', link') \<leftarrow> add_cell_to_htable table link;
     let w1 = set_table peer table' (set_trans p (tr\<lparr>tr_linker := link', tr_out_peer := peer, tr_req := NULL\<rparr>) w);
     w2 \<leftarrow> atomic_add 1 p w1;
     let (r2, w3) = timer_add p (ticks + TR_TIMEOUT_TIMEOUT) w2;
     Some (hl_label link', w3)
   }"

definition update_forward_transaction_from_msg :: "ptr \<Rightarrow> u32 \<Rightarrow> tr_world \<Rightarrow> tr_world option" where
  "update_forward_transaction_from_msg p hop w =
     map_option (\<lambda>tr. set_trans p (tr\<lparr>orig_hopbyhopId := hop\<rparr>) w) (tw_trans w p)"

text \<open>
  The lookup in its two atomic sections: taking the cell out of the table, and taking the link
  out of the timer list.
\<close>

definition lookup_take :: "ptr \<Rightarrow> u32 \<Rightarrow> u32 \<Rightarrow> tr_world \<Rightarrow> (ptr \<times> tr_world) option" where
  "lookup_take peer ete hop w = do {
     let table = tw_tables w peer;
     (l, table') \<leftarrow> cell_lookup_and_remove table (hash (le32 ete) (hash_size table)) hop;
     Some (case l of None \<Rightarrow> NULL | Some x \<Rightarrow> hl_addr x, set_table peer table' w)
   }"

definition lookup_untime :: "ptr \<Rightarrow> tr_world \<Rightarrow> tr_world option" where
  "lookup_untime p w =
     (let (r, w1) = timer_rmv p w in if r \<noteq> - 1 then atomic_add (- 1) p w1 else Some w1)"

definition transaction_lookup :: "ptr \<Rightarrow> u32 \<Rightarrow> u32 \<Rightarrow> tr_world \<Rightarrow> (ptr \<times> tr_world) option" where
  "transaction_lookup peer ete hop w = do {
     (p, w1) \<leftarrow> lookup_take peer ete hop w;
     if p = NULL then Some (NULL, w1) else map_option (Pair p) (lookup_untime p w1)
   }"

text \<open>
  One expired transaction: taking it out of the table (False: an answer has already taken it),
  running its timeout function, dropping the reference.
\<close>

definition expire_remove :: "ptr \<Rightarrow> tr_world \<Rightarrow> (bool \<times> tr_world) option" where
  "expire_remove p w = do {
     tr \<leftarrow> tw_trans w p;
     let (r, table) = remove_cell_from_htable (tw_tables w (tr_out_peer tr)) p;
     let w1 = set_table (tr_out_peer tr) table w;
     if r = - 1 then Some (False, w1) else map_option (Pair True) (atomic_add (- 1) p w1)
   }"

fun expire_all :: "ptr list \<Rightarrow> tr_world \<Rightarrow> (trans list \<times> tr_world) option" where
  "expire_all [] w = Some ([], w)"
| "expire_all (p # ps) w = do {
     (removed, w1) \<leftarrow> expire_remove p w;
     tr \<leftarrow> tw_trans w1 p;
     w2 \<leftarrow> destroy_transaction p w1;
     (fired, w3) \<leftarrow> expire_all ps w2;
     Some (if removed \<and> timeout_f tr \<noteq> NULL then tr # fired else fired, w3)
   }"

definition timeout_handler :: "u32 \<Rightarrow> tr_world \<Rightarrow> (trans list \<times> tr_world) option" where
  "timeout_handler ticks w = (let (ps, w1) = timer_expired ticks w in expire_all ps w1)"

section \<open>The race between answer and timeout\<close>

datatype answer_pc = A_wait | A_found | A_untimed | A_done
datatype timeout_pc = T_wait | T_taken | T_removed | T_done

record race =
  rc_w :: tr_world
  rc_a :: answer_pc
  rc_t :: timeout_pc
  answered :: nat
  timed_out :: nat

text \<open>
  The thread that has read the answer runs \<open>transaction_lookup\<close> and \<open>destroy_transaction\<close>; the
  timer thread runs \<open>timeout_handler\<close>, here for the one transaction \<open>p\<close>. Each step is one atomic
  section; \<open>t_take\<close> is possible when the transaction is due.
\<close>

inductive race_step :: "ptr \<Rightarrow> u32 \<Rightarrow> u32 \<Rightarrow> ptr \<Rightarrow> race \<Rightarrow> race \<Rightarrow> bool" for peer ete hop p where
  a_take: "rc_a s = A_wait \<Longrightarrow> lookup_take peer ete hop (rc_w s) = Some (q, w) \<Longrightarrow> q \<noteq> NULL \<Longrightarrow>
    race_step peer ete hop p s (s\<lparr>rc_w := w, rc_a := A_found\<rparr>)"
| a_miss: "rc_a s = A_wait \<Longrightarrow> lookup_take peer ete hop (rc_w s) = Some (NULL, w) \<Longrightarrow>
    race_step peer ete hop p s (s\<lparr>rc_w := w, rc_a := A_done\<rparr>)"
| a_untime: "rc_a s = A_found \<Longrightarrow> lookup_untime p (rc_w s) = Some w \<Longrightarrow>
    race_step peer ete hop p s (s\<lparr>rc_w := w, rc_a := A_untimed, answered := answered s + 1\<rparr>)"
| a_destroy: "rc_a s = A_untimed \<Longrightarrow> destroy_transaction p (rc_w s) = Some w \<Longrightarrow>
    race_step peer ete hop p s (s\<lparr>rc_w := w, rc_a := A_done\<rparr>)"
| t_take: "rc_t s = T_wait \<Longrightarrow> timer_rmv p (rc_w s) = (1, w) \<Longrightarrow>
    race_step peer ete hop p s (s\<lparr>rc_w := w, rc_t := T_taken\<rparr>)"
| t_remove: "rc_t s = T_taken \<Longrightarrow> expire_remove p (rc_w s) = Some (b, w) \<Longrightarrow>
    race_step peer ete hop p s (s\<lparr>rc_w := w, rc_t := T_removed,
      timed_out := timed_out s + (if b then 1 else 0)\<rparr>)"
| t_destroy: "rc_t s = T_removed \<Longrightarrow> destroy_transaction p (rc_w s) = Some w \<Longrightarrow>
    race_step peer ete hop p s (s\<lparr>rc_w := w, rc_t := T_done\<rparr>)"

text \<open>The state of the world as far as the transaction is concerned.\<close>

definition in_table :: "ptr \<Rightarrow> u32 \<Rightarrow> u32 \<Rightarrow> ptr \<Rightarrow> tr_world \<Rightarrow> bool" where
  "in_table peer ete hop p w \<longleftrightarrow>
     (\<exists>l. cell_lookup (tw_tables w peer) (hash (le32 ete) (hash_size (tw_tables w peer))) hop = Some (Some l)
       \<and> hl_addr l = p)"

definition in_timer :: "ptr \<Rightarrow> tr_world \<Rightarrow> bool" where
  "in_timer p w \<longleftrightarrow> p \<in> fst ` set (tw_timer w)"

text \<open>
  The table of the peer is well-formed; the cell of \<open>p\<close> is there under the key of the request, or
  \<open>p\<close> is nowhere in the table and nothing is there under the key.
\<close>

definition cell_once :: "h_table \<Rightarrow> h_link \<Rightarrow> bool" where
  "cell_once t l \<longleftrightarrow> (\<forall>e \<in> set (entrys t). \<forall>x \<in> set (he_lh e). hl_addr x = hl_addr l \<longrightarrow> x = l)"

definition table_ok :: "nat \<Rightarrow> ptr \<Rightarrow> u32 \<Rightarrow> u32 \<Rightarrow> ptr \<Rightarrow> tr_world \<Rightarrow> bool" where
  "table_ok n peer ete hop p w \<longleftrightarrow> (let t = tw_tables w peer; c = hash (le32 ete) (hash_size t) in
     htable_wf n t \<and> hash_size t \<noteq> 0 \<and>
     ((\<exists>l. cell_lookup t c hop = Some (Some l) \<and> hl_addr l = p \<and> cell_once t l) \<or>
      cell_lookup t c hop = Some None \<and> \<not> cell_in t p))"

section \<open>Tables with one cell in sight\<close>

lemma cell_lookup_SomeD:
  assumes "cell_lookup t c lab = Some (Some l)"
  shows "unat c < length (entrys t)" and "l \<in> set (he_lh (entrys t ! unat c))" and "hl_label l = lab"
  using assms by (auto simp: cell_lookup_def find_Some_iff split: if_splits)

lemma cell_lookup_in: "cell_lookup t c lab = Some (Some l) \<Longrightarrow> cell_in t (hl_addr l)"
  using cell_lookup_SomeD [of t c lab l] unfolding cell_in_def by (metis nth_mem)

lemma cell_in_nth:
  "cell_in t p \<longleftrightarrow> (\<exists>i < length (entrys t). \<exists>x \<in> set (he_lh (entrys t ! i)). hl_addr x = p)"
  unfolding cell_in_def set_conv_nth [of "entrys t"] by auto

lemma cell_in_subset:
  assumes "\<And>i. i < length (entrys t') \<Longrightarrow> set (he_lh (entrys t' ! i)) \<subseteq> set (he_lh (entrys t ! i))"
    and "length (entrys t') = length (entrys t)" and "cell_in t' p"
  shows "cell_in t p"
proof -
  from assms(3) obtain i x where i: "i < length (entrys t')" and x: "x \<in> set (he_lh (entrys t' ! i))" "hl_addr x = p"
    unfolding cell_in_nth by blast
  have "x \<in> set (he_lh (entrys t ! i))" using assms(1) [OF i] x(1) by blast
  then show ?thesis unfolding cell_in_nth using i x(2) assms(2) by auto
qed

lemma take_missing:
  assumes "htable_wf n t" and "unat c < length (entrys t)" and "cell_lookup t c lab = Some None"
    and "\<not> cell_in t p"
  shows "\<exists>t'. cell_lookup_and_remove t c lab = Some (None, t') \<and> htable_wf n t' \<and> hash_size t' = hash_size t
    \<and> cell_lookup t' c lab = Some None \<and> \<not> cell_in t' p"
proof -
  let ?e = "entrys t ! unat c"
  let ?t = "t\<lparr>entrys := (entrys t)[unat c := ?e\<lparr>he_lh := filter (\<lambda>l. hl_label l \<noteq> lab) (he_lh ?e)\<rparr>]\<rparr>"
  have eq: "cell_lookup_and_remove t c lab = Some (None, ?t)"
    using lookup_and_remove_eq [OF assms(1,2), of lab] assms(2,3) by (simp add: cell_lookup_def Let_def)
  have sub: "set (he_lh (entrys ?t ! i)) \<subseteq> set (he_lh (entrys t ! i))" if "i < length (entrys ?t)" for i
    using that assms(2) by (auto simp: nth_list_update split: if_splits)
  have "\<not> cell_in ?t p" using assms(4) cell_in_subset [OF sub, of p] by auto
  then show ?thesis using eq lookup_and_remove(2,3) [OF assms(1,2) eq] by simp
qed

lemma take_found:
  assumes "htable_wf n t" and "cell_lookup t c lab = Some (Some l)" and "cell_once t l"
  shows "\<exists>t'. cell_lookup_and_remove t c lab = Some (Some l, t') \<and> htable_wf n t' \<and> hash_size t' = hash_size t
    \<and> cell_lookup t' c lab = Some None \<and> \<not> cell_in t' (hl_addr l)"
proof -
  note l = cell_lookup_SomeD [OF assms(2)]
  let ?e = "entrys t ! unat c"
  let ?t = "t\<lparr>entrys := (entrys t)[unat c := ?e\<lparr>he_lh := filter (\<lambda>l. hl_label l \<noteq> lab) (he_lh ?e)\<rparr>]\<rparr>"
  have eq: "cell_lookup_and_remove t c lab = Some (Some l, ?t)"
    using lookup_and_remove_eq [OF assms(1) l(1), of lab] assms(2) l(1) by (simp add: cell_lookup_def Let_def)
  have "\<not> cell_in ?t (hl_addr l)"
  proof
    assume "cell_in ?t (hl_addr l)"
    then obtain j x where j: "j < length (entrys t)" "x \<in> set (he_lh (entrys ?t ! j))" "hl_addr x = hl_addr l"
      unfolding cell_in_nth by auto
    then have x: "x \<in> set (he_lh (entrys t ! j))" using l(1) by (auto simp: nth_list_update split: if_splits)
    then have "x = l" using assms(3) j(1,3) unfolding cell_once_def by (metis nth_mem)
    moreover have "hl_hash_code x = of_nat j" "hl_hash_code l = of_nat (unat c)"
      using htable_wf_entry [OF assms(1) j(1)] htable_wf_entry [OF assms(1) l(1)] x l(2)
      by (auto simp: entry_wf_def)
    moreover have "length (entrys t) < 2 ^ 32"
      using assms(1) unsigned_less [of "hash_size t"] by (simp add: htable_wf_def)
    ultimately have "j = unat c" using j(1) unat_of_nat_u32 [of j] by (metis less_trans unat_of_nat_u32 of_nat_unat ucast_id)
    then show False using j(2) \<open>x = l\<close> l(1,3) by simp
  qed
  then show ?thesis using eq lookup_and_remove(2,3) [OF assms(1) l(1) eq] by simp
qed

lemma remove_found:
  assumes "htable_wf n t" and "cell_lookup t c lab = Some (Some l)"
  shows "\<exists>t'. remove_cell_from_htable t (hl_addr l) = (1, t') \<and> htable_wf n t' \<and> hash_size t' = hash_size t
    \<and> cell_lookup t' c lab = Some None \<and> \<not> cell_in t' (hl_addr l)"
proof -
  note l = cell_lookup_SomeD [OF assms(2)]
  let ?t = "snd (remove_cell_from_htable t (hl_addr l))"
  have eq: "remove_cell_from_htable t (hl_addr l) = (1, ?t)" "hash_size ?t = hash_size t"
    using cell_lookup_in [OF assms(2)] by (simp_all add: remove_cell_from_htable_def)
  have d: "distinct (map hl_label (he_lh (entrys t ! unat c)))"
    using htable_wf_entry [OF assms(1) l(1)] by (simp add: entry_wf_def)
  have "y = l" if "y \<in> set (he_lh (entrys t ! unat c))" "hl_label y = lab" for y
    using d that l unfolding distinct_map by (metis inj_onD)
  then have "find (\<lambda>x. hl_label x = lab) (filter (\<lambda>x. hl_addr x \<noteq> hl_addr l) (he_lh (entrys t ! unat c))) = None"
    by (auto simp: find_None_iff)
  then have "cell_lookup ?t c lab = Some None"
    using cell_lookup_in [OF assms(2)] l(1) by (simp add: cell_lookup_def remove_cell_from_htable_def)
  moreover have "htable_wf n ?t" by (rule remove_cell_wf [OF assms(1)])
  moreover have "\<not> cell_in ?t (hl_addr l)" by (rule remove_cell_gone)
  ultimately show ?thesis using eq by auto
qed

section \<open>What the atomic sections do to the transaction\<close>

lemma table_ok_code: "table_ok n peer ete hop p w \<Longrightarrow>
  unat (hash (le32 ete) (hash_size (tw_tables w peer))) < length (entrys (tw_tables w peer))"
  unfolding table_ok_def Let_def using hash_valid_code by blast

lemma in_table_iff:
  assumes "table_ok n peer ete hop p w"
  shows "in_table peer ete hop p w \<longleftrightarrow> cell_in (tw_tables w peer) p"
  using assms cell_lookup_in unfolding table_ok_def in_table_def Let_def by auto

lemma set_table_simps [simp]:
  "tw_trans (set_table q t w) = tw_trans w" "tw_timer (set_table q t w) = tw_timer w"
  "tw_tables (set_table q t w) = (tw_tables w)(q := t)" "in_timer p (set_table q t w) = in_timer p w"
  by (simp_all add: set_table_def in_timer_def)

lemma set_trans_simps [simp]:
  "tw_tables (set_trans q tr w) = tw_tables w" "tw_timer (set_trans q tr w) = tw_timer w"
  "tw_trans (set_trans q tr w) = (tw_trans w)(q \<mapsto> tr)" "in_timer p (set_trans q tr w) = in_timer p w"
  by (simp_all add: set_trans_def in_timer_def)

lemma same_tables:
  "tw_tables w' = tw_tables w \<Longrightarrow> table_ok n peer ete hop p w' = table_ok n peer ete hop p w"
  "tw_tables w' = tw_tables w \<Longrightarrow> in_table peer ete hop p w' = in_table peer ete hop p w"
  by (simp_all add: table_ok_def in_table_def)

lemma lookup_take_effect:
  assumes "table_ok n peer ete hop p w" and "p \<noteq> NULL"
  shows "\<exists>w'. lookup_take peer ete hop w = Some (if in_table peer ete hop p w then p else NULL, w')
    \<and> table_ok n peer ete hop p w' \<and> \<not> in_table peer ete hop p w'
    \<and> in_timer p w' = in_timer p w \<and> tw_trans w' = tw_trans w"
proof -
  let ?t = "tw_tables w peer"
  let ?c = "hash (le32 ete) (hash_size ?t)"
  have wf: "htable_wf n ?t" "hash_size ?t \<noteq> 0" using assms(1) by (auto simp: table_ok_def Let_def)
  consider (there) l where "cell_lookup ?t ?c hop = Some (Some l)" "hl_addr l = p" "cell_once ?t l"
    | (gone) "cell_lookup ?t ?c hop = Some None" "\<not> cell_in ?t p"
    using assms(1) by (auto simp: table_ok_def Let_def)
  then show ?thesis
  proof cases
    case there
    from take_found [OF wf(1) there(1,3)] there(2) obtain t' where
      t': "cell_lookup_and_remove ?t ?c hop = Some (Some l, t')" "htable_wf n t'" "hash_size t' = hash_size ?t"
        "cell_lookup t' ?c hop = Some None" "\<not> cell_in t' p" by blast
    then show ?thesis using there wf
      by (auto simp: lookup_take_def in_table_def table_ok_def Let_def)
  next
    case gone
    from take_missing [OF wf(1) table_ok_code [OF assms(1)] gone] obtain t' where
      t': "cell_lookup_and_remove ?t ?c hop = Some (None, t')" "htable_wf n t'" "hash_size t' = hash_size ?t"
        "cell_lookup t' ?c hop = Some None" "\<not> cell_in t' p" by blast
    then show ?thesis using gone wf
      by (auto simp: lookup_take_def in_table_def table_ok_def Let_def)
  qed
qed

lemma expire_remove_effect:
  assumes "table_ok n peer ete hop p w" and "tw_trans w p = Some tr" and "tr_out_peer tr = peer"
  shows "\<exists>w'. expire_remove p w = Some (in_table peer ete hop p w, w')
    \<and> table_ok n peer ete hop p w' \<and> \<not> in_table peer ete hop p w' \<and> in_timer p w' = in_timer p w
    \<and> tw_trans w' p = Some (tr\<lparr>ref_cnt := ref_cnt tr - (if in_table peer ete hop p w then 1 else 0)\<rparr>)"
proof -
  let ?t = "tw_tables w peer"
  let ?c = "hash (le32 ete) (hash_size ?t)"
  have wf: "htable_wf n ?t" "hash_size ?t \<noteq> 0" using assms(1) by (auto simp: table_ok_def Let_def)
  consider (there) l where "cell_lookup ?t ?c hop = Some (Some l)" "hl_addr l = p"
    | (gone) "cell_lookup ?t ?c hop = Some None" "\<not> cell_in ?t p"
    using assms(1) by (auto simp: table_ok_def Let_def)
  then show ?thesis
  proof cases
    case there
    from remove_found [OF wf(1) there(1)] there(2) obtain t' where
      t': "remove_cell_from_htable ?t p = (1, t')" "htable_wf n t'" "hash_size t' = hash_size ?t"
        "cell_lookup t' ?c hop = Some None" "\<not> cell_in t' p" by blast
    then show ?thesis using there wf assms(2,3)
      by (auto simp: expire_remove_def atomic_add_def in_table_def table_ok_def Let_def)
  next
    case gone
    then have "remove_cell_from_htable ?t p = (- 1, ?t)" by (simp add: remove_cell_from_htable_def)
    then show ?thesis using gone wf assms(2,3)
      by (auto simp: expire_remove_def in_table_def table_ok_def Let_def)
  qed
qed

lemma timer_rmv_effect:
  "timer_rmv p w = (if in_timer p w then 1 else - 1,
     if in_timer p w then w\<lparr>tw_timer := filter (\<lambda>x. fst x \<noteq> p) (tw_timer w)\<rparr> else w)"
  by (simp add: timer_rmv_def in_timer_def)

lemma not_in_timer_filter [simp]: "\<not> in_timer p (w\<lparr>tw_timer := filter (\<lambda>x. fst x \<noteq> p) l\<rparr>)"
  by (auto simp: in_timer_def)

lemma lookup_untime_effect:
  assumes "tw_trans w p = Some tr"
  shows "\<exists>w'. lookup_untime p w = Some w' \<and> tw_tables w' = tw_tables w \<and> \<not> in_timer p w'
    \<and> tw_trans w' p = Some (tr\<lparr>ref_cnt := ref_cnt tr - (if in_timer p w then 1 else 0)\<rparr>)"
  using assms by (auto simp: lookup_untime_def timer_rmv_effect atomic_add_def in_timer_def)

lemma destroy_effect:
  assumes "p \<noteq> NULL" and "tw_trans w p = Some tr"
  shows "\<exists>w'. destroy_transaction p w = Some w' \<and> tw_tables w' = tw_tables w \<and> in_timer p w' = in_timer p w
    \<and> tw_trans w' p = (if ref_cnt tr = 1 then None else Some (tr\<lparr>ref_cnt := ref_cnt tr - 1\<rparr>))"
  using assms by (auto simp: destroy_transaction_def atomic_add_def in_timer_def)

section \<open>The invariant of the race\<close>

text \<open>
  Who holds a reference: the table, the timer list, the thread of the answer between taking the
  cell and destroying, the timer thread between taking the link and destroying.
\<close>

definition a_holds :: "race \<Rightarrow> bool" where "a_holds s \<longleftrightarrow> rc_a s = A_found \<or> rc_a s = A_untimed"
definition t_holds :: "race \<Rightarrow> bool" where "t_holds s \<longleftrightarrow> rc_t s = T_taken \<or> rc_t s = T_removed"

definition holders :: "bool \<Rightarrow> bool \<Rightarrow> bool \<Rightarrow> bool \<Rightarrow> int" where
  "holders a b c d = of_bool a + of_bool b + of_bool c + of_bool d"

definition race_counts :: "ptr \<Rightarrow> ptr \<Rightarrow> bool \<Rightarrow> race \<Rightarrow> bool" where
  "race_counts peer p tab s \<longleftrightarrow>
     (case tw_trans (rc_w s) p of
        None \<Rightarrow> \<not> tab \<and> \<not> in_timer p (rc_w s) \<and> \<not> a_holds s \<and> \<not> t_holds s
      | Some tr \<Rightarrow> tr_out_peer tr = peer \<and> 0 < ref_cnt tr \<and>
          ref_cnt tr = holders tab (in_timer p (rc_w s)) (a_holds s) (t_holds s))"

definition race_phase :: "bool \<Rightarrow> bool \<Rightarrow> answer_pc \<Rightarrow> timeout_pc \<Rightarrow> nat \<Rightarrow> nat \<Rightarrow> bool" where
  "race_phase tab tim a t ans out \<longleftrightarrow>
     ans \<le> 1 \<and> out \<le> 1 \<and> (tab \<longleftrightarrow> a = A_wait \<and> out = 0) \<and>
     (ans = 1 \<longleftrightarrow> a = A_untimed \<or> a = A_done \<and> out = 0) \<and>
     (tim \<longrightarrow> t = T_wait \<and> (a = A_wait \<or> a = A_found)) \<and>
     (t = T_wait \<and> \<not> tim \<longrightarrow> a = A_untimed \<or> a = A_done) \<and>
     (t = T_wait \<or> t = T_taken \<longrightarrow> out = 0) \<and>
     (t = T_removed \<or> t = T_done \<longrightarrow> out = 1 \<or> a \<noteq> A_wait) \<and>
     (out = 1 \<longrightarrow> a = A_wait \<or> a = A_done)"

definition race_inv :: "nat \<Rightarrow> ptr \<Rightarrow> u32 \<Rightarrow> u32 \<Rightarrow> ptr \<Rightarrow> race \<Rightarrow> bool" where
  "race_inv n peer ete hop p s \<longleftrightarrow>
     p \<noteq> NULL \<and> table_ok n peer ete hop p (rc_w s) \<and>
     race_counts peer p (in_table peer ete hop p (rc_w s)) s \<and>
     race_phase (in_table peer ete hop p (rc_w s)) (in_timer p (rc_w s)) (rc_a s) (rc_t s) (answered s) (timed_out s)"

lemmas race_defs = race_counts_def race_phase_def a_holds_def t_holds_def holders_def

lemma race_inv_D:
  assumes "race_inv n peer ete hop p s"
  shows "p \<noteq> NULL" and "table_ok n peer ete hop p (rc_w s)"
    and "race_counts peer p (in_table peer ete hop p (rc_w s)) s"
    and "race_phase (in_table peer ete hop p (rc_w s)) (in_timer p (rc_w s)) (rc_a s) (rc_t s) (answered s) (timed_out s)"
  using assms by (auto simp: race_inv_def)

lemma race_alive:
  assumes "race_inv n peer ete hop p s" and "a_holds s \<or> t_holds s \<or> in_timer p (rc_w s)"
  obtains tr where "tw_trans (rc_w s) p = Some tr" and "tr_out_peer tr = peer"
  using assms by (auto simp: race_inv_def race_counts_def split: option.splits)

lemma race_step_inv:
  assumes "race_step peer ete hop p s s'" and inv: "race_inv n peer ete hop p s"
  shows "race_inv n peer ete hop p s'"
  using assms(1)
proof cases
  case (a_take q w)
  from lookup_take_effect [OF race_inv_D(2,1) [OF inv]] a_take(3,4) have
    w: "in_table peer ete hop p (rc_w s)" "table_ok n peer ete hop p w" "\<not> in_table peer ete hop p w"
      "in_timer p w = in_timer p (rc_w s)" "tw_trans w = tw_trans (rc_w s)" by (auto split: if_splits)
  then show ?thesis using race_inv_D [OF inv] a_take(1,2)
    by (auto simp: race_inv_def race_defs split: option.splits)
next
  case (a_miss w)
  from lookup_take_effect [OF race_inv_D(2,1) [OF inv]] a_miss(3) race_inv_D(1) [OF inv] have
    w: "\<not> in_table peer ete hop p (rc_w s)" "table_ok n peer ete hop p w" "\<not> in_table peer ete hop p w"
      "in_timer p w = in_timer p (rc_w s)" "tw_trans w = tw_trans (rc_w s)" by (auto split: if_splits)
  then show ?thesis using race_inv_D [OF inv] a_miss(1,2)
    by (auto simp: race_inv_def race_defs split: option.splits)
next
  case (a_untime w)
  obtain tr where tr: "tw_trans (rc_w s) p = Some tr" "tr_out_peer tr = peer"
    using race_alive [OF inv] a_untime(2) by (auto simp: a_holds_def)
  from lookup_untime_effect [OF tr(1)] a_untime(3) have
    w: "tw_tables w = tw_tables (rc_w s)" "\<not> in_timer p w"
      "tw_trans w p = Some (tr\<lparr>ref_cnt := ref_cnt tr - (if in_timer p (rc_w s) then 1 else 0)\<rparr>)" by auto
  show ?thesis using race_inv_D [OF inv] a_untime(1,2) w(2,3) tr same_tables [OF w(1)]
    by (auto simp: race_inv_def race_defs split: if_splits)
next
  case (a_destroy w)
  obtain tr where tr: "tw_trans (rc_w s) p = Some tr" "tr_out_peer tr = peer"
    using race_alive [OF inv] a_destroy(2) by (auto simp: a_holds_def)
  from destroy_effect [OF race_inv_D(1) [OF inv] tr(1)] a_destroy(3) have
    w: "tw_tables w = tw_tables (rc_w s)" "in_timer p w = in_timer p (rc_w s)"
      "tw_trans w p = (if ref_cnt tr = 1 then None else Some (tr\<lparr>ref_cnt := ref_cnt tr - 1\<rparr>))" by auto
  show ?thesis using race_inv_D [OF inv] a_destroy(1,2) w(2,3) tr same_tables [OF w(1)]
    by (auto simp: race_inv_def race_defs split: if_splits)
next
  case (t_take w)
  from t_take(3) have w: "in_timer p (rc_w s)" "w = (rc_w s)\<lparr>tw_timer := filter (\<lambda>x. fst x \<noteq> p) (tw_timer (rc_w s))\<rparr>"
    by (auto simp: timer_rmv_effect split: if_splits)
  have t: "tw_tables w = tw_tables (rc_w s)" "\<not> in_timer p w" "tw_trans w = tw_trans (rc_w s)"
    by (simp_all add: w(2))
  show ?thesis using race_inv_D [OF inv] t_take(1,2) w(1) t(2,3) same_tables [OF t(1)]
    by (auto simp: race_inv_def race_defs split: option.splits)
next
  case (t_remove b w)
  obtain tr where tr: "tw_trans (rc_w s) p = Some tr" "tr_out_peer tr = peer"
    using race_alive [OF inv] t_remove(2) by (auto simp: t_holds_def)
  from expire_remove_effect [OF race_inv_D(2) [OF inv] tr] t_remove(3) have
    w: "b = in_table peer ete hop p (rc_w s)" "table_ok n peer ete hop p w" "\<not> in_table peer ete hop p w"
      "in_timer p w = in_timer p (rc_w s)"
      "tw_trans w p = Some (tr\<lparr>ref_cnt := ref_cnt tr - (if in_table peer ete hop p (rc_w s) then 1 else 0)\<rparr>)" by auto
  show ?thesis using race_inv_D [OF inv] t_remove(1,2) w tr
    by (auto simp: race_inv_def race_defs split: if_splits)
next
  case (t_destroy w)
  obtain tr where tr: "tw_trans (rc_w s) p = Some tr" "tr_out_peer tr = peer"
    using race_alive [OF inv] t_destroy(2) by (auto simp: t_holds_def)
  from destroy_effect [OF race_inv_D(1) [OF inv] tr(1)] t_destroy(3) have
    w: "tw_tables w = tw_tables (rc_w s)" "in_timer p w = in_timer p (rc_w s)"
      "tw_trans w p = (if ref_cnt tr = 1 then None else Some (tr\<lparr>ref_cnt := ref_cnt tr - 1\<rparr>))" by auto
  show ?thesis using race_inv_D [OF inv] t_destroy(1,2) w(2,3) tr same_tables [OF w(1)]
    by (auto simp: race_inv_def race_defs split: if_splits)
qed

text \<open>No thread ever meets a freed transaction: each pending section succeeds.\<close>

lemma race_answer_moves:
  assumes inv: "race_inv n peer ete hop p s" and "rc_a s \<noteq> A_done"
  shows "\<exists>s'. race_step peer ete hop p s s' \<and> rc_a s' \<noteq> rc_a s"
proof (cases "rc_a s")
  case A_wait
  obtain q w where "lookup_take peer ete hop (rc_w s) = Some (q, w)"
    using lookup_take_effect [OF race_inv_D(2,1) [OF inv]] by blast
  then show ?thesis using A_wait race_step.a_take [of s peer ete hop q w p] race_step.a_miss [of s peer ete hop w p]
    by (cases "q = NULL") force+
next
  case A_found
  obtain tr where "tw_trans (rc_w s) p = Some tr" using race_alive [OF inv] A_found by (auto simp: a_holds_def)
  from lookup_untime_effect [OF this] obtain w where "lookup_untime p (rc_w s) = Some w" by blast
  from race_step.a_untime [OF A_found this] show ?thesis using A_found by force
next
  case A_untimed
  obtain tr where "tw_trans (rc_w s) p = Some tr" using race_alive [OF inv] A_untimed by (auto simp: a_holds_def)
  from destroy_effect [OF race_inv_D(1) [OF inv] this] obtain w where "destroy_transaction p (rc_w s) = Some w" by blast
  from race_step.a_destroy [OF A_untimed this] show ?thesis using A_untimed by force
qed (use assms in simp)

lemma race_timer_moves:
  assumes inv: "race_inv n peer ete hop p s" and "rc_t s \<noteq> T_done" and "rc_t s = T_wait \<longrightarrow> in_timer p (rc_w s)"
  shows "\<exists>s'. race_step peer ete hop p s s' \<and> rc_t s' \<noteq> rc_t s"
proof (cases "rc_t s")
  case T_wait
  from timer_rmv_effect [of p "rc_w s"] assms(3) T_wait obtain w where "timer_rmv p (rc_w s) = (1, w)" by simp
  from race_step.t_take [OF T_wait this] show ?thesis using T_wait by force
next
  case T_taken
  obtain tr where "tw_trans (rc_w s) p = Some tr" "tr_out_peer tr = peer"
    using race_alive [OF inv] T_taken by (auto simp: t_holds_def)
  from expire_remove_effect [OF race_inv_D(2) [OF inv] this] obtain b w where
    "expire_remove p (rc_w s) = Some (b, w)" by blast
  from race_step.t_remove [OF T_taken this] show ?thesis using T_taken by force
next
  case T_removed
  obtain tr where "tw_trans (rc_w s) p = Some tr" using race_alive [OF inv] T_removed by (auto simp: t_holds_def)
  from destroy_effect [OF race_inv_D(1) [OF inv] this] obtain w where "destroy_transaction p (rc_w s) = Some w" by blast
  from race_step.t_destroy [OF T_removed this] show ?thesis using T_removed by force
qed (use assms in simp)

text \<open>Every section brings the end nearer: a race has at most six steps and can always be ended.\<close>

definition race_rank :: "race \<Rightarrow> nat" where
  "race_rank s = (case rc_a s of A_wait \<Rightarrow> 3 | A_found \<Rightarrow> 2 | A_untimed \<Rightarrow> 1 | A_done \<Rightarrow> 0) +
     (case rc_t s of T_wait \<Rightarrow> 3 | T_taken \<Rightarrow> 2 | T_removed \<Rightarrow> 1 | T_done \<Rightarrow> 0)"

definition race_over :: "ptr \<Rightarrow> race \<Rightarrow> bool" where
  "race_over p s \<longleftrightarrow> rc_a s = A_done \<and> (rc_t s = T_done \<or> rc_t s = T_wait \<and> \<not> in_timer p (rc_w s))"

lemma race_step_rank: "race_step peer ete hop p s s' \<Longrightarrow> race_rank s' < race_rank s"
  by (induction rule: race_step.induct) (auto simp: race_rank_def split: answer_pc.splits timeout_pc.splits)

lemma race_finishes:
  "race_inv n peer ete hop p s \<Longrightarrow> \<exists>s'. (race_step peer ete hop p)\<^sup>*\<^sup>* s s' \<and> race_over p s'"
proof (induction "race_rank s" arbitrary: s rule: less_induct)
  case less
  show ?case
  proof (cases "race_over p s")
    case False
    with less.prems obtain s1 where s1: "race_step peer ete hop p s s1"
      using race_answer_moves race_timer_moves unfolding race_over_def by (metis timeout_pc.distinct(5))
    from less.hyps [OF race_step_rank [OF s1] race_step_inv [OF s1 less.prems]] s1 show ?thesis
      by (meson converse_rtranclp_into_rtranclp)
  qed blast
qed

section \<open>Linking a transaction starts the race\<close>

definition race_start :: "tr_world \<Rightarrow> race" where
  "race_start w = \<lparr>rc_w = w, rc_a = A_wait, rc_t = T_wait, answered = 0, timed_out = 0\<rparr>"

text \<open>A transaction that \<open>create_transaction\<close> has returned, about to be sent to \<open>peer\<close>.\<close>

definition fresh_trans :: "nat \<Rightarrow> ptr \<Rightarrow> ptr \<Rightarrow> tr_world \<Rightarrow> bool" where
  "fresh_trans n peer p w \<longleftrightarrow>
     p \<noteq> NULL \<and> (\<exists>tr. tw_trans w p = Some tr \<and> ref_cnt tr = 1 \<and> hl_addr (tr_linker tr) = p) \<and>
     \<not> in_timer p w \<and> htable_wf n (tw_tables w peer) \<and> n < 2 ^ 32 \<and> hash_size (tw_tables w peer) \<noteq> 0 \<and>
     \<not> cell_in (tw_tables w peer) p"

lemma add_cell_once:
  assumes "htable_wf n t" and "unat (hl_hash_code l) < length (entrys t)" and "\<not> cell_in t (hl_addr l)"
    and "add_cell_to_htable t l = Some (r, t', l')"
  shows "cell_once t' l'"
proof -
  let ?i = "unat (hl_hash_code l)"
  have l': "l' = l\<lparr>hl_label := he_next_label (entrys t ! ?i)\<rparr>"
    and t': "entrys t' = (entrys t)[?i := (entrys t ! ?i)\<lparr>he_lh := he_lh (entrys t ! ?i) @ [l'],
        he_next_label := he_next_label (entrys t ! ?i) + 1\<rparr>]"
    using add_cell_eq [OF assms(1,2)] assms(4) by (auto simp: Let_def)
  have "x = l'" if x: "x \<in> set (he_lh e)" "e \<in> set (entrys t')" "hl_addr x = hl_addr l'" for x e
  proof (rule ccontr)
    assume "x \<noteq> l'"
    obtain j where j: "j < length (entrys t)" "e = entrys t' ! j"
      using x(2) t' by (auto simp: in_set_conv_nth)
    then have "x \<in> set (he_lh (entrys t ! j))"
      using x(1) t' \<open>x \<noteq> l'\<close> assms(2) by (auto simp: nth_list_update split: if_splits)
    then have "cell_in t (hl_addr l)" using j(1) x(3) l' unfolding cell_in_nth by auto
    then show False using assms(3) by simp
  qed
  then show ?thesis by (auto simp: cell_once_def)
qed

lemma link_transaction_starts:
  assumes "fresh_trans n peer p w"
  shows "\<exists>hop w'. link_transaction ticks peer ete p w = Some (hop, w') \<and> race_inv (Suc n) peer ete hop p (race_start w')"
proof -
  let ?t = "tw_tables w peer"
  let ?c = "hash (le32 ete) (hash_size ?t)"
  from assms obtain tr where tr: "tw_trans w p = Some tr" "ref_cnt tr = 1" "hl_addr (tr_linker tr) = p"
    and f: "p \<noteq> NULL" "\<not> in_timer p w" "htable_wf n ?t" "n < 2 ^ 32" "hash_size ?t \<noteq> 0" "\<not> cell_in ?t p"
    by (auto simp: fresh_trans_def)
  let ?l = "(tr_linker tr)\<lparr>hl_hash_code := ?c\<rparr>"
  have v: "unat (hl_hash_code ?l) < length (entrys ?t)" using hash_valid_code [OF f(3,5)] by simp
  have np: "\<not> cell_in ?t (hl_addr ?l)" using f(6) tr(3) by simp
  obtain t' l' where a: "add_cell_to_htable ?t ?l = Some (1, t', l')"
    using add_cell_eq [OF f(3) v] by (auto simp: Let_def)
  note look = add_cell_lookup(2,5) [OF f(3,4) v a]
  have tab: "htable_wf (Suc n) t'" "cell_once t' l'" "hash_size t' = hash_size ?t"
    using add_cell_wf [OF f(3,4) v np a] add_cell_once [OF f(3) v np a] add_cell_size [OF a] by auto
  let ?w1 = "set_table peer t' (set_trans p (tr\<lparr>tr_linker := l', tr_out_peer := peer, tr_req := NULL\<rparr>) w)"
  let ?tr = "tr\<lparr>tr_linker := l', tr_out_peer := peer, tr_req := NULL, ref_cnt := 2\<rparr>"
  let ?w' = "(set_trans p ?tr ?w1)\<lparr>tw_timer := tw_timer w @ [(p, ticks + TR_TIMEOUT_TIMEOUT)]\<rparr>"
  have "link_transaction ticks peer ete p w = Some (hl_label l', ?w')"
    using tr f(2) a by (simp add: link_transaction_def atomic_add_def timer_add_def in_timer_def Let_def)
  moreover have tabs: "tw_tables ?w' peer = t'" by simp
  have it: "in_table peer ete (hl_label l') p ?w'"
    using look tr(3) tab(3) by (simp add: in_table_def)
  moreover have "table_ok (Suc n) peer ete (hl_label l') p ?w'"
    using look tr(3) tab f(5) by (simp add: table_ok_def Let_def)
  moreover have "in_timer p ?w'" by (simp add: in_timer_def)
  moreover have "tw_trans ?w' p = Some ?tr" by simp
  ultimately show ?thesis using f(1)
    by (intro exI [of _ "hl_label l'"] exI [of _ ?w']) (simp add: race_inv_def race_start_def race_defs)
qed

section \<open>Properties\<close>

text \<open>
  (C12) Whatever the order in which the thread of the answer and the timer thread run their
  atomic sections on a transaction that has just been sent: neither ever touches a freed
  transaction (each section that is due succeeds), every step lowers a bounded rank, at most one of answer and timeout is
  delivered, and when both threads have finished exactly one has been delivered, the transaction
  is freed and neither the table nor the timer list refers to it.
\<close>

theorem answer_timeout_race:
  assumes "fresh_trans n peer p w" and "link_transaction ticks peer ete p w = Some (hop, w')"
    and "(race_step peer ete hop p)\<^sup>*\<^sup>* (race_start w') s"
  shows "answered s + timed_out s \<le> 1 \<and> (\<forall>s'. race_step peer ete hop p s s' \<longrightarrow> race_rank s' < race_rank s) \<and>
    (rc_a s \<noteq> A_done \<longrightarrow> (\<exists>s'. race_step peer ete hop p s s' \<and> rc_a s' \<noteq> rc_a s)) \<and>
    (rc_t s \<noteq> T_done \<and> (rc_t s = T_wait \<longrightarrow> in_timer p (rc_w s)) \<longrightarrow>
       (\<exists>s'. race_step peer ete hop p s s' \<and> rc_t s' \<noteq> rc_t s)) \<and>
    (rc_a s = A_done \<and> (rc_t s = T_done \<or> rc_t s = T_wait) \<longrightarrow>
       answered s + timed_out s = 1 \<and> tw_trans (rc_w s) p = None \<and> \<not> in_timer p (rc_w s) \<and>
       \<not> cell_in (tw_tables (rc_w s) peer) p)"
proof -
  have "race_inv (Suc n) peer ete hop p (race_start w')"
    using link_transaction_starts [OF assms(1), of ticks ete] assms(2) by auto
  with assms(3) have inv: "race_inv (Suc n) peer ete hop p s"
    by (induction rule: rtranclp_induct) (auto intro: race_step_inv)
  note D = race_inv_D [OF inv]
  have "answered s + timed_out s \<le> 1" using D(4) by (cases "rc_a s") (auto simp: race_phase_def)
  moreover have "answered s + timed_out s = 1 \<and> tw_trans (rc_w s) p = None \<and> \<not> in_timer p (rc_w s) \<and>
       \<not> cell_in (tw_tables (rc_w s) peer) p" if "rc_a s = A_done" "rc_t s = T_done \<or> rc_t s = T_wait"
    using D(3,4) that in_table_iff [OF D(2)] by (auto simp: race_defs split: option.splits)
  ultimately show ?thesis using race_answer_moves [OF inv] race_timer_moves [OF inv] race_step_rank by blast
qed

definition sample_tw :: tr_world where
  "sample_tw = snd (create_transaction (\<lambda>_. True) 900 0 77
     \<lparr>tw_trans = Map.empty, tw_tables = (\<lambda>_. \<lparr>hash_size = 1, entrys = [\<lparr>he_lh = [], he_next_label = 4\<rparr>]\<rparr>),
      tw_timer = [], tw_shm = \<lparr>shm_calls = 0, shm_live = []\<rparr>\<rparr>)"

lemma sample_fresh: "fresh_trans 0 3 1 sample_tw"
  by (simp add: fresh_trans_def sample_tw_def create_transaction_def shm_malloc_def in_timer_def htable_wf_def
      entry_wf_def cell_in_def)

theorem answer_timeout_race_witness:
  "\<exists>hop w s. link_transaction 100 3 171 1 sample_tw = Some (hop, w) \<and>
     (race_step 3 171 hop 1)\<^sup>*\<^sup>* (race_start w) s \<and>
     answered s + timed_out s = 1 \<and> tw_trans (rc_w s) 1 = None"
proof -
  obtain hop w where link: "link_transaction 100 3 171 1 sample_tw = Some (hop, w)"
    and inv: "race_inv 1 3 171 hop 1 (race_start w)"
    using link_transaction_starts [OF sample_fresh, of 100 171] by auto
  from race_finishes [OF inv] obtain s where
    s: "(race_step 3 171 hop 1)\<^sup>*\<^sup>* (race_start w) s" "race_over 1 s" by blast
  from s(2) show ?thesis
    using answer_timeout_race [OF sample_fresh link s(1)] link s(1) unfolding race_over_def by blast
qed

end
