(* ===== verification/Peer_Msg.thy ===== *)
theory Peer_Msg
  imports Message_Codec
begin

text \<open>
  The messages that peers exchange by themselves (peer.c, peer.h): the prepared buffers of
  \<open>build_msg_buffers\<close>, the capabilities exchange, watchdog and disconnect messages made from
  them, and the functions that read such messages in place, \<open>process_ce\<close>, \<open>process_dw\<close> and
  \<open>process_dp\<close>. They walk over the AVPs with the macro \<open>for_all_AVPS_do_switch\<close>, which trusts the
  lengths in the message: the loop is a partial function, and not returning is the value None. A
  read outside the message is the value \<open>Some None\<close>.

  The lemmas show that the buffers are encodings of AVPs, that the loop visits the AVPs of an
  encoding one by one, and that a peer accepts the messages of another peer running this code.
\<close>

section \<open>Data\<close>

record aaa_module =
  app_id :: u32
  mod_flags :: u32

abbreviation (input) DOES_AUTH :: u32 where "DOES_AUTH \<equiv> 1"
abbreviation (input) DOES_ACCT :: u32 where "DOES_ACCT \<equiv> 2"
abbreviation AAA_APP_RELAY :: u32 where "AAA_APP_RELAY \<equiv> 0xffffffff"
abbreviation AAA_MISSING_AVP :: u32 where "AAA_MISSING_AVP \<equiv> 5005"
abbreviation AAA_NO_COMMON_APPLICATION :: u32 where "AAA_NO_COMMON_APPLICATION \<equiv> 5010"
abbreviation CE_MSG_CODE :: u32 where "CE_MSG_CODE \<equiv> 0x01010000"
abbreviation DW_MSG_CODE :: u32 where "DW_MSG_CODE \<equiv> 0x18010000"
abbreviation DP_MSG_CODE :: u32 where "DP_MSG_CODE \<equiv> 0x1a010000"
abbreviation MASK_MSG_CODE :: u32 where "MASK_MSG_CODE \<equiv> 0xffffff00"

text \<open>The globals of the program that the messages are made of, and the loaded modules.\<close>

record config =
  cfg_identity :: bytes
  cfg_realm :: bytes
  product_name :: bytes
  vendor_id :: u32
  do_relay :: bool
  modules :: "aaa_module list"

definition find_module :: "config \<Rightarrow> u32 \<Rightarrow> aaa_module option" where
  "find_module g i = find (\<lambda>a. app_id a = i) (modules g)"

text \<open>A prepared buffer: the address of the block and its bytes.\<close>

record p_table =
  trans_hash_size :: u32
  std_req :: "ptr \<times> bytes"
  std_ans :: "ptr \<times> bytes"
  ce_avp_ipv4 :: "ptr \<times> bytes"
  ce_avp_ipv6 :: "ptr \<times> bytes"
  dpr_avp :: "ptr \<times> bytes"

record ip_addr =
  ip_af6 :: bool
  ip_bytes :: bytes

datatype AAA_PEER_STATE =
    PEER_UNCONN
  | PEER_CONN
  | PEER_ERROR
  | PEER_WAIT_CER
  | PEER_WAIT_CEA
  | PEER_WAIT_DWA
  | PEER_WAIT_DPA

text \<open>
  A peer. The realm has its pointer, the bytes found there and the length field, which
  \<open>reset_peer\<close> leaves behind; the supported applications are arrays ended by 0.
\<close>

record peer =
  aaa_identity :: bytes
  aaa_host :: bytes
  realm_s :: ptr
  realm_bytes :: bytes
  realm_len :: u32
  p_ip :: ip_addr
  local_ip :: ip_addr
  p_state :: AAA_PEER_STATE
  endtoendID :: u32
  p_flags :: u8
  p_fd :: ptr
  p_sock :: int
  first_4bytes :: u32
  buf_len :: u32
  p_buf :: "ptr \<times> bytes"
  supp_auth_app_ids :: "ptr \<times> u32 list"
  supp_acct_app_ids :: "ptr \<times> u32 list"
  last_activ_time :: u32
  conn_cnt :: u32

section \<open>build\_msg\_buffers\<close>

text \<open>Code, length and flag byte of an AVP at offset \<open>p\<close>.\<close>

definition w_avp_hdr :: "u32 \<Rightarrow> nat \<Rightarrow> nat \<Rightarrow> bytes \<Rightarrow> bytes option" where
  "w_avp_hdr code len p b = do {
     b \<leftarrow> poke p (be32 code) b;
     b \<leftarrow> poke (p + 4) (be32 (of_nat len)) b;
     poke (p + 4) [0x40] b
   }"

definition w_str_avp :: "u32 \<Rightarrow> bytes \<Rightarrow> nat \<Rightarrow> bytes \<Rightarrow> (nat \<times> bytes) option" where
  "w_str_avp code data p b = do {
     b \<leftarrow> w_avp_hdr code (8 + length data) p b;
     b \<leftarrow> poke (p + 8) data b;
     Some (p + 8 + pad_len (length data), b)
   }"

definition w_int_avp :: "u32 \<Rightarrow> u32 \<Rightarrow> nat \<Rightarrow> bytes \<Rightarrow> (nat \<times> bytes) option" where
  "w_int_avp code v p b = do {
     b \<leftarrow> w_avp_hdr code 12 p b;
     b \<leftarrow> poke (p + 8) (be32 v) b;
     Some (p + 12, b)
   }"

text \<open>An AVP whose value is filled in later, and the Product-Name AVP, which gets no flags.\<close>

definition w_empty_avp :: "u32 \<Rightarrow> nat \<Rightarrow> bytes \<Rightarrow> (nat \<times> bytes) option" where
  "w_empty_avp code p b = do {
     b \<leftarrow> w_avp_hdr code 12 p b;
     Some (p + 12, b)
   }"

definition w_product_avp :: "bytes \<Rightarrow> nat \<Rightarrow> bytes \<Rightarrow> (nat \<times> bytes) option" where
  "w_product_avp data p b = do {
     b \<leftarrow> poke p (be32 269) b;
     b \<leftarrow> poke (p + 4) (be32 (of_nat (8 + length data))) b;
     b \<leftarrow> poke (p + 8) data b;
     Some (p + 8 + pad_len (length data), b)
   }"

definition build_std_req :: "config \<Rightarrow> bytes option" where
  "build_std_req g = do {
     let len = AAA_MSG_HDR_SIZE + AVP_HDR_SIZE 0 + pad_len (length (cfg_identity g)) +
       AVP_HDR_SIZE 0 + pad_len (length (cfg_realm g));
     b \<leftarrow> poke 0 [1] (replicate len 0);
     b \<leftarrow> poke 4 [0x80] b;
     (p, b) \<leftarrow> w_str_avp 264 (cfg_identity g) AAA_MSG_HDR_SIZE b;
     (p, b) \<leftarrow> w_str_avp 296 (cfg_realm g) p b;
     Some b
   }"

definition build_std_ans :: "config \<Rightarrow> bytes option" where
  "build_std_ans g = do {
     let len = AAA_MSG_HDR_SIZE + (AVP_HDR_SIZE 0 + 4) + AVP_HDR_SIZE 0 + pad_len (length (cfg_identity g)) +
       AVP_HDR_SIZE 0 + pad_len (length (cfg_realm g));
     b \<leftarrow> poke 0 [1] (replicate len 0);
     b \<leftarrow> poke 4 [0] b;
     (p, b) \<leftarrow> w_empty_avp 268 AAA_MSG_HDR_SIZE b;
     (p, b) \<leftarrow> w_str_avp 264 (cfg_identity g) p b;
     (p, b) \<leftarrow> w_str_avp 296 (cfg_realm g) p b;
     Some b
   }"

fun w_app_ids :: "u32 \<Rightarrow> u32 \<Rightarrow> aaa_module list \<Rightarrow> nat \<Rightarrow> bytes \<Rightarrow> (nat \<times> bytes) option" where
  "w_app_ids code fl [] p b = Some (p, b)"
| "w_app_ids code fl (a # as) p b =
     (if mod_flags a AND fl \<noteq> 0
      then do { (p, b) \<leftarrow> w_int_avp code (app_id a) p b; w_app_ids code fl as p b }
      else w_app_ids code fl as p b)"

definition w_relay :: "config \<Rightarrow> u32 \<Rightarrow> nat \<Rightarrow> bytes \<Rightarrow> (nat \<times> bytes) option" where
  "w_relay g code p b = (if do_relay g then w_int_avp code AAA_APP_RELAY p b else Some (p, b))"

definition nr_app :: "config \<Rightarrow> u32 \<Rightarrow> nat" where
  "nr_app g fl = length (filter (\<lambda>a. mod_flags a AND fl \<noteq> 0) (modules g)) + (if do_relay g then 1 else 0)"

definition build_ce_avp_ipv4 :: "config \<Rightarrow> bytes option" where
  "build_ce_avp_ipv4 g = do {
     let len = (AVP_HDR_SIZE 0 + 4) + (AVP_HDR_SIZE 0 + 4) + (AVP_HDR_SIZE 0 + pad_len (length (product_name g))) +
       nr_app g DOES_AUTH * (AVP_HDR_SIZE 0 + 4) + nr_app g DOES_ACCT * (AVP_HDR_SIZE 0 + 4);
     (p, b) \<leftarrow> w_empty_avp 257 0 (replicate len 0);
     (p, b) \<leftarrow> w_int_avp 266 (vendor_id g) p b;
     (p, b) \<leftarrow> w_product_avp (product_name g) p b;
     (p, b) \<leftarrow> w_app_ids 258 DOES_AUTH (modules g) p b;
     (p, b) \<leftarrow> w_relay g 258 p b;
     (p, b) \<leftarrow> w_app_ids 259 DOES_ACCT (modules g) p b;
     (p, b) \<leftarrow> w_relay g 259 p b;
     Some b
   }"

definition build_ce_avp_ipv6 :: "bytes \<Rightarrow> bytes option" where
  "build_ce_avp_ipv6 v4 = do {
     hdr \<leftarrow> peekn v4 0 (AVP_HDR_SIZE 0);
     b \<leftarrow> poke 0 hdr (replicate (length v4 + 12) 0);
     b \<leftarrow> poke 4 (be32 (of_nat (AVP_HDR_SIZE 0 + 16))) b;
     rest \<leftarrow> peekn v4 (AVP_HDR_SIZE 0 + 4) (length v4 - AVP_HDR_SIZE 0 - 4);
     poke (AVP_HDR_SIZE 0 + 16) rest b
   }"

definition build_dpr_avp :: "bytes option" where
  "build_dpr_avp = map_option snd (w_empty_avp 273 0 (replicate (AVP_HDR_SIZE 0 + 4) 0))"

definition build_msg_buffers :: "(nat \<Rightarrow> bool) \<Rightarrow> config \<Rightarrow> p_table \<Rightarrow> shm \<Rightarrow> (int \<times> p_table \<times> shm) option" where
  "build_msg_buffers ok g t0 m0 =
     (let (s1, m1) = shm_malloc ok m0 in if s1 = NULL then Some (- 1, t0, m1) else do {
      b1 \<leftarrow> build_std_req g;
      let t1 = t0\<lparr>std_req := (s1, b1)\<rparr>;
      let (s2, m2) = shm_malloc ok m1;
      if s2 = NULL then Some (- 1, t1, m2) else do {
      b2 \<leftarrow> build_std_ans g;
      let t2 = t1\<lparr>std_ans := (s2, b2)\<rparr>;
      let (s3, m3) = shm_malloc ok m2;
      if s3 = NULL then Some (- 1, t2, m3) else do {
      b3 \<leftarrow> build_ce_avp_ipv4 g;
      let t3 = t2\<lparr>ce_avp_ipv4 := (s3, b3)\<rparr>;
      let (s4, m4) = shm_malloc ok m3;
      if s4 = NULL then Some (- 1, t3, m4) else do {
      b4 \<leftarrow> build_ce_avp_ipv6 b3;
      let t4 = t3\<lparr>ce_avp_ipv6 := (s4, b4)\<rparr>;
      let (s5, m5) = shm_malloc ok m4;
      if s5 = NULL then Some (- 1, t4, m5) else do {
      b5 \<leftarrow> build_dpr_avp;
      Some (1, t4\<lparr>dpr_avp := (s5, b5)\<rparr>, m5) }}}}})"

section \<open>Messages made from the buffers\<close>

text \<open>\<open>|=\<close> on an integer of the buffer, given the bytes of the operand in memory.\<close>

definition or_word :: "nat \<Rightarrow> bytes \<Rightarrow> bytes \<Rightarrow> bytes option" where
  "or_word i d b = do { old \<leftarrow> peekn b i (length d); poke i (map2 (OR) old d) b }"

definition ce_avp :: "bool \<Rightarrow> p_table \<Rightarrow> peer \<Rightarrow> bytes" where
  "ce_avp use_ipv6 t p = (if use_ipv6 \<and> ip_af6 (local_ip p) then snd (ce_avp_ipv6 t) else snd (ce_avp_ipv4 t))"

definition make_cer :: "bool \<Rightarrow> p_table \<Rightarrow> peer \<Rightarrow> bytes option" where
  "make_cer use_ipv6 t p = do {
     let ce = ce_avp use_ipv6 t p;
     let b = snd (std_req t) @ ce;
     b \<leftarrow> or_word 0 (be32 (of_nat (length b))) b;
     b \<leftarrow> or_word 4 (le32 CE_MSG_CODE) b;
     poke (length (snd (std_req t)) + AVP_HDR_SIZE 0) (ip_bytes (local_ip p)) b
   }"

definition make_cea :: "bool \<Rightarrow> p_table \<Rightarrow> peer \<Rightarrow> bytes option" where
  "make_cea use_ipv6 t p =
     poke (length (snd (std_ans t)) + AVP_HDR_SIZE 0) (ip_bytes (local_ip p)) (snd (std_ans t) @ ce_avp use_ipv6 t p)"

definition make_dwr :: "p_table \<Rightarrow> bytes option" where
  "make_dwr t = do {
     let b = snd (std_req t);
     b \<leftarrow> or_word 0 (be32 (of_nat (length b))) b;
     or_word 4 (le32 DW_MSG_CODE) b
   }"

definition make_dpr :: "p_table \<Rightarrow> u32 \<Rightarrow> bytes option" where
  "make_dpr t disc_cause = do {
     let b = snd (std_req t) @ snd (dpr_avp t);
     b \<leftarrow> or_word 0 (be32 (of_nat (length b))) b;
     b \<leftarrow> or_word 4 (le32 DP_MSG_CODE) b;
     or_word (length (snd (std_req t)) + AVP_HDR_SIZE 0) (be32 disc_cause) b
   }"

text \<open>What \<open>internal_send_request\<close> and \<open>internal_send_response\<close> write into a message.\<close>

definition set_request_ids :: "u32 \<Rightarrow> u32 \<Rightarrow> bytes \<Rightarrow> bytes option" where
  "set_request_ids ete hop b = do { b \<leftarrow> poke 16 (le32 ete) b; poke 12 (le32 hop) b }"

definition set_response :: "bytes \<Rightarrow> u32 \<Rightarrow> bytes \<Rightarrow> bytes option" where
  "set_response req code res = do {
     b \<leftarrow> poke (AAA_MSG_HDR_SIZE + AVP_HDR_SIZE 0) (be32 code) res;
     b \<leftarrow> or_word 0 (0 # tl (be32 (of_nat (length res)))) b;
     c \<leftarrow> peekn req 4 4;
     b \<leftarrow> or_word 4 (0 # tl c) b;
     app \<leftarrow> peekn req 8 4;
     b \<leftarrow> poke 8 app b;
     hop \<leftarrow> peekn req 12 4;
     b \<leftarrow> poke 12 hop b;
     ete \<leftarrow> peekn req 16 4;
     poke 16 ete b
   }"

section \<open>Reading messages in place\<close>

definition get_avp_len :: "u32 \<Rightarrow> u32" where
  "get_avp_len w = to_32x_len (w AND 0x00ffffff)"

partial_function (option) for_all_AVPS :: "(u32 \<Rightarrow> nat \<Rightarrow> 's \<Rightarrow> ('r + 's) option) \<Rightarrow> bytes \<Rightarrow> nat \<Rightarrow> 's \<Rightarrow>
    ('r + 's) option option" where
  "for_all_AVPS body buf p s =
     (if p < length buf then
        (case peek4 buf p of
           None \<Rightarrow> Some None
         | Some code \<Rightarrow>
             (case body code p s of
                None \<Rightarrow> Some None
              | Some (Inl r) \<Rightarrow> Some (Some (Inl r))
              | Some (Inr s') \<Rightarrow>
                  (case peek4 buf (p + 4) of
                     None \<Rightarrow> Some None
                   | Some w \<Rightarrow> for_all_AVPS body buf (p + unat (get_avp_len w)) s')))
      else Some (Some (Inr s)))"

record ce_scan =
  ce_mask :: u32
  ce_realm :: nat
  ce_code :: u32
  ce_auth :: "u32 list"
  ce_acct :: "u32 list"

abbreviation (input) MAX_APPID_PER_PEER :: nat where "MAX_APPID_PER_PEER \<equiv> 64"

definition supports :: "config \<Rightarrow> u32 \<Rightarrow> u32 \<Rightarrow> bool" where
  "supports g fl i \<longleftrightarrow> do_relay g \<or> i = AAA_APP_RELAY \<or>
     (case find_module g i of None \<Rightarrow> False | Some a \<Rightarrow> mod_flags a AND fl \<noteq> 0)"

definition ce_body :: "config \<Rightarrow> bytes \<Rightarrow> u32 \<Rightarrow> nat \<Rightarrow> ce_scan \<Rightarrow> (u32 + ce_scan) option" where
  "ce_body g buf c p s =
     (let bit = (\<lambda>n. Some (Inr (s\<lparr>ce_mask := set_bit_in_mask (ce_mask s) n\<rparr>)))
      in if c = 268 then do {
           fl \<leftarrow> peek buf (p + 4);
           code \<leftarrow> peek4 buf (p + AVP_HDR_SIZE (ucast fl));
           Some (if code \<noteq> AAA_SUCCESS then Inl code
             else Inr (s\<lparr>ce_mask := set_bit_in_mask (ce_mask s) 0, ce_code := code\<rparr>)) }
         else if c = 264 then bit 1
         else if c = 296 then Some (Inr (s\<lparr>ce_mask := set_bit_in_mask (ce_mask s) 2, ce_realm := p\<rparr>))
         else if c = 257 then bit 3
         else if c = 266 then bit 4
         else if c = 269 then bit 5
         else if c = 259 then
           (if length (ce_acct s) = MAX_APPID_PER_PEER then Some (Inr s)
            else do {
              i \<leftarrow> peek4 buf (p + 8);
              Some (Inr (s\<lparr>ce_acct := ce_acct s @ [i], ce_code := if supports g DOES_ACCT i then AAA_SUCCESS else ce_code s\<rparr>)) })
         else if c = 258 then
           (if length (ce_auth s) = MAX_APPID_PER_PEER then Some (Inr s)
            else do {
              i \<leftarrow> peek4 buf (p + 8);
              Some (Inr (s\<lparr>ce_auth := ce_auth s @ [i], ce_code := if supports g DOES_AUTH i then AAA_SUCCESS else ce_code s\<rparr>)) })
         else Some (Inr s))"

text \<open>
  Copying a list of application identifiers: the old array is freed; an empty list or a failed
  allocation leaves a null pointer.
\<close>

definition save_app_ids :: "(nat \<Rightarrow> bool) \<Rightarrow> u32 list \<Rightarrow> ptr \<times> u32 list \<Rightarrow> shm \<Rightarrow> (ptr \<times> u32 list) \<times> shm" where
  "save_app_ids ok ids old m =
     (let m1 = (if fst old \<noteq> NULL then shm_free (fst old) m else m)
      in if ids = [] then ((NULL, []), m1)
         else let (s, m2) = shm_malloc ok m1
              in if s = NULL then ((NULL, []), m2) else ((s, ids @ [0]), m2))"

definition save_realm :: "(nat \<Rightarrow> bool) \<Rightarrow> bytes \<Rightarrow> nat \<Rightarrow> peer \<Rightarrow> shm \<Rightarrow> (peer \<times> shm) option" where
  "save_realm ok buf r p m = do {
     w \<leftarrow> peek4 buf (r + 4);
     fl \<leftarrow> peek buf (r + 4);
     let hdr = AVP_HDR_SIZE (ucast fl);
     let len = (w AND 0x00ffffff) - of_nat hdr;
     let (s, m1) = shm_malloc ok m;
     if s = NULL then Some (p\<lparr>realm_s := NULL, realm_bytes := [], realm_len := 0\<rparr>, m1)
     else do {
       d \<leftarrow> peekn buf (r + hdr) (unat len);
       Some (p\<lparr>realm_s := s, realm_bytes := d, realm_len := len\<rparr>, m1)
     }
   }"

definition ce_accept :: "(nat \<Rightarrow> bool) \<Rightarrow> bytes \<Rightarrow> ce_scan \<Rightarrow> peer \<Rightarrow> shm \<Rightarrow> (peer \<times> shm) option" where
  "ce_accept ok buf s p m =
     (let (auth, m1) = save_app_ids ok (ce_auth s) (supp_auth_app_ids p) m;
          (acct, m2) = save_app_ids ok (ce_acct s) (supp_acct_app_ids p) m1
      in save_realm ok buf (ce_realm s) (p\<lparr>supp_auth_app_ids := auth, supp_acct_app_ids := acct\<rparr>) m2)"

definition process_ce :: "(nat \<Rightarrow> bool) \<Rightarrow> config \<Rightarrow> peer \<Rightarrow> bytes \<Rightarrow> bool \<Rightarrow> shm \<Rightarrow> (u32 \<times> peer \<times> shm) option option" where
  "process_ce ok g p buf is_rq m =
     map_option (\<lambda>r. do {
       x \<leftarrow> r;
       case x of
         Inl code \<Rightarrow> Some (code, p, m)
       | Inr s \<Rightarrow>
           let code = (if ce_mask s \<noteq> (if is_rq then 0x3e else 0x3f) then AAA_MISSING_AVP else ce_code s)
           in if code = AAA_SUCCESS then map_option (\<lambda>(p', m'). (code, p', m')) (ce_accept ok buf s p m)
              else Some (code, p, m)
     }) (for_all_AVPS (ce_body g buf) buf AAA_MSG_HDR_SIZE
          \<lparr>ce_mask = 0, ce_realm = 0, ce_code = AAA_NO_COMMON_APPLICATION, ce_auth = [], ce_acct = []\<rparr>)"

definition dw_body :: "bool \<Rightarrow> bytes \<Rightarrow> u32 \<Rightarrow> nat \<Rightarrow> u32 \<Rightarrow> (unit + u32) option" where
  "dw_body cause buf c p msk =
     (if c = 268 then do {
        n \<leftarrow> peek4 buf (p + 8);
        Some (if n \<noteq> AAA_SUCCESS then Inl () else Inr (set_bit_in_mask msk 0)) }
      else if c = 264 then Some (Inr (set_bit_in_mask msk 1))
      else if c = 296 then Some (Inr (set_bit_in_mask msk 2))
      else if cause \<and> c = 273 then Some (Inr (set_bit_in_mask msk 3))
      else Some (Inr msk))"

definition mask_result :: "u32 \<Rightarrow> (unit + u32) option option \<Rightarrow> int option option" where
  "mask_result pattern = map_option (map_option (\<lambda>r.
     case r of Inl _ \<Rightarrow> - 1 | Inr msk \<Rightarrow> if msk \<noteq> pattern then - 1 else 1))"

definition process_dw :: "bytes \<Rightarrow> bool \<Rightarrow> int option option" where
  "process_dw buf is_rq =
     mask_result (if is_rq then 0x6 else 0x7) (for_all_AVPS (dw_body False buf) buf AAA_MSG_HDR_SIZE 0)"

definition process_dp :: "bytes \<Rightarrow> bool \<Rightarrow> int option option" where
  "process_dp buf is_rq =
     mask_result (if is_rq then 0xe else 0x7) (for_all_AVPS (dw_body True buf) buf AAA_MSG_HDR_SIZE 0)"

section \<open>The encoding of AVPs\<close>

text \<open>An AVP on the wire: code, flags and what follows the header of eight bytes.\<close>

type_synonym raw_avp = "u32 \<times> u8 \<times> bytes"

fun wire_avp :: "raw_avp \<Rightarrow> bytes" where
  "wire_avp (c, f, d) = be32 c @ [f] @ tl (be32 (of_nat (8 + length d))) @ d @
     replicate (pad_len (length d) - length d) 0"

abbreviation wire_avps :: "raw_avp list \<Rightarrow> bytes" where
  "wire_avps as \<equiv> concat (map wire_avp as)"

definition raw_len :: "raw_avp \<Rightarrow> nat" where
  "raw_len a = 8 + pad_len (length (snd (snd a)))"

definition raw_ok :: "raw_avp \<Rightarrow> bool" where
  "raw_ok a \<longleftrightarrow> 8 + length (snd (snd a)) < 2 ^ 24"

lemma length_wire_avp [simp]: "length (wire_avp a) = raw_len a"
  using pad_len_props(1) by (cases a) (simp add: raw_len_def)

lemma AVP_HDR_SIZE_0 [simp]: "AVP_HDR_SIZE 0 = 8"
  by (simp add: AVP_HDR_SIZE_def)

lemma MSG_HDR_20 [simp]: "AAA_MSG_HDR_SIZE = 20"
  by (simp add: AAA_MSG_HDR_SIZE_def)

text \<open>The flag byte overwrites the top byte of the length.\<close>

lemma be32_hd_tl: "be32 w = ucast (drop_bit 24 w) # tl (be32 w)"
  by (simp add: be32_def)

lemma hdr_zero_byte: "n < 2 ^ 24 \<Longrightarrow> be32 (of_nat n) = 0 # tl (be32 (of_nat n))"
proof -
  assume "n < 2 ^ 24"
  then have "unat (drop_bit 24 (of_nat n :: u32)) = 0"
    by (subst unsigned_drop_bit_eq) (simp add: unat_of_nat_u32 drop_bit_eq_div take_bit_nat_eq_self)
  then have "drop_bit 24 (of_nat n :: u32) = 0" by (simp only: word_unat_eq_iff unat_0)
  then show ?thesis by (subst be32_hd_tl) simp
qed

lemma poke_hd: "poke 0 [x] (y # ys) = Some (x # ys)"
  by (simp add: poke_def)

lemma w_avp_hdr_spec:
  assumes "length xs = p" and "8 \<le> n"
  shows "w_avp_hdr code len p (xs @ replicate n 0) =
    Some (xs @ be32 code @ [0x40] @ tl (be32 (of_nat len)) @ replicate (n - 8) 0)"
proof -
  have "poke 0 [0x40] (be32 (of_nat len) @ zs) = Some (0x40 # tl (be32 (of_nat len)) @ zs)" for zs
    by (subst be32_hd_tl) (simp add: poke_hd)
  then show ?thesis using assms
    by (simp add: w_avp_hdr_def poke_skip poke_zeros)
qed

lemma w_str_avp_spec:
  assumes "length xs = p" and "raw_len (code, 0x40, d) \<le> n"
  shows "w_str_avp code d p (xs @ replicate n 0) =
    Some (p + raw_len (code, 0x40, d), (xs @ wire_avp (code, 0x40, d)) @ replicate (n - raw_len (code, 0x40, d)) 0)"
proof -
  have pad: "length d \<le> pad_len (length d)" "8 + pad_len (length d) \<le> n"
    using pad_len_props(1) assms(2) by (auto simp: raw_len_def)
  have z: "replicate (n - 8 - length d) (0 :: u8) =
      replicate (pad_len (length d) - length d) 0 @ replicate (n - raw_len (code, 0x40, d)) 0"
    using pad by (simp add: raw_len_def flip: replicate_add)
  show ?thesis using assms pad z
    by (simp add: w_str_avp_def w_avp_hdr_spec poke_skip poke_zeros raw_len_def)
qed

lemma pad_len_4 [simp]: "pad_len 4 = 4"
  by (simp add: pad_len_def)

lemma w_int_avp_spec:
  assumes "length xs = p" and "12 \<le> n"
  shows "w_int_avp code v p (xs @ replicate n 0) =
    Some (p + 12, (xs @ wire_avp (code, 0x40, be32 v)) @ replicate (n - 12) 0)"
  using assms by (simp add: w_int_avp_def w_avp_hdr_spec poke_skip poke_zeros)

lemma be32_0: "be32 0 = replicate 4 0"
  by (simp add: be32_def numeral_eq_Suc)

lemma w_empty_avp_spec:
  assumes "length xs = p" and "12 \<le> n"
  shows "w_empty_avp code p (xs @ replicate n 0) =
    Some (p + 12, (xs @ wire_avp (code, 0x40, be32 0)) @ replicate (n - 12) 0)"
proof -
  have "replicate (n - 8) (0 :: u8) = replicate 4 0 @ replicate (n - 12) 0"
    using assms(2) by (simp flip: replicate_add)
  then show ?thesis using assms by (simp add: w_empty_avp_def w_avp_hdr_spec be32_0)
qed

lemma w_product_avp_spec:
  assumes "length xs = p" and "raw_len (269, 0, d) \<le> n" and "8 + length d < 2 ^ 24"
  shows "w_product_avp d p (xs @ replicate n 0) =
    Some (p + raw_len (269, 0, d), (xs @ wire_avp (269, 0, d)) @ replicate (n - raw_len (269, 0, d)) 0)"
proof -
  have pad: "length d \<le> pad_len (length d)" "8 + pad_len (length d) \<le> n"
    using pad_len_props(1) assms(2) by (auto simp: raw_len_def)
  have z: "replicate (n - 8 - length d) (0 :: u8) =
      replicate (pad_len (length d) - length d) 0 @ replicate (n - raw_len (269, 0, d)) 0"
    using pad by (simp add: raw_len_def flip: replicate_add)
  have b: "be32 (8 + of_nat (length d)) = 0 # tl (be32 (8 + of_nat (length d)))"
    using hdr_zero_byte [OF assms(3)] by simp
  have "w_product_avp d p (xs @ replicate n 0) = Some (p + raw_len (269, 0, d),
      xs @ be32 269 @ be32 (8 + of_nat (length d)) @ d @ replicate (n - 8 - length d) 0)"
    using assms pad by (simp add: w_product_avp_def poke_skip poke_zeros raw_len_def)
  also have "\<dots> = Some (p + raw_len (269, 0, d), (xs @ wire_avp (269, 0, d)) @ replicate (n - raw_len (269, 0, d)) 0)"
    unfolding z by (subst b) simp
  finally show ?thesis .
qed

text \<open>The AVPs that advertise the applications.\<close>

definition app_avps :: "u32 \<Rightarrow> u32 \<Rightarrow> aaa_module list \<Rightarrow> raw_avp list" where
  "app_avps code fl ms = map (\<lambda>a. (code, 0x40, be32 (app_id a))) (filter (\<lambda>a. mod_flags a AND fl \<noteq> 0) ms)"

definition relay_avps :: "config \<Rightarrow> u32 \<Rightarrow> raw_avp list" where
  "relay_avps g code = (if do_relay g then [(code, 0x40, be32 AAA_APP_RELAY)] else [])"

lemma length_app_avps: "length (wire_avps (app_avps code fl ms)) = 12 * length (filter (\<lambda>a. mod_flags a AND fl \<noteq> 0) ms)"
  by (induction ms) (auto simp: app_avps_def raw_len_def)

lemma w_app_ids_spec:
  assumes "length xs = p" and "length (wire_avps (app_avps code fl ms)) \<le> n"
  shows "w_app_ids code fl ms p (xs @ replicate n 0) =
    Some (p + length (wire_avps (app_avps code fl ms)),
      (xs @ wire_avps (app_avps code fl ms)) @ replicate (n - length (wire_avps (app_avps code fl ms))) 0)"
  using assms
proof (induction ms arbitrary: xs p n)
  case Nil
  then show ?case by (simp add: app_avps_def)
next
  case (Cons a ms)
  show ?case
  proof (cases "mod_flags a AND fl \<noteq> 0")
    case True
    let ?x = "wire_avp (code, 0x40, be32 (app_id a))"
    have l: "length ?x = 12" by (simp add: raw_len_def)
    have e: "wire_avps (app_avps code fl (a # ms)) = ?x @ wire_avps (app_avps code fl ms)"
      using True by (simp add: app_avps_def)
    from Cons.IH [of "xs @ ?x" "p + 12" "n - 12"] Cons.prems l show ?thesis
      using True unfolding e by (simp add: w_int_avp_spec del: wire_avp.simps append_assoc)
  next
    case False
    then show ?thesis using Cons by (simp add: app_avps_def)
  qed
qed

lemma w_relay_spec:
  assumes "length xs = p" and "length (wire_avps (relay_avps g code)) \<le> n"
  shows "w_relay g code p (xs @ replicate n 0) =
    Some (p + length (wire_avps (relay_avps g code)),
      (xs @ wire_avps (relay_avps g code)) @ replicate (n - length (wire_avps (relay_avps g code))) 0)"
  using assms w_int_avp_spec [of xs p n code AAA_APP_RELAY] by (auto simp: w_relay_def relay_avps_def raw_len_def)

section \<open>The prepared buffers are encodings\<close>

definition req_hdr :: bytes where "req_hdr = [1, 0, 0, 0, 0x80] @ replicate 15 0"
definition ans_hdr :: bytes where "ans_hdr = [1, 0, 0, 0, 0] @ replicate 15 0"

definition origin_avps :: "config \<Rightarrow> raw_avp list" where
  "origin_avps g = [(264, 0x40, cfg_identity g), (296, 0x40, cfg_realm g)]"

definition common_avps :: "config \<Rightarrow> raw_avp list" where
  "common_avps g = [(266, 0x40, be32 (vendor_id g)), (269, 0, product_name g)] @
     app_avps 258 DOES_AUTH (modules g) @ relay_avps g 258 @
     app_avps 259 DOES_ACCT (modules g) @ relay_avps g 259"

definition config_ok :: "config \<Rightarrow> bool" where
  "config_ok g \<longleftrightarrow> (\<forall>a \<in> set (origin_avps g @ common_avps g). raw_ok a) \<and>
     60 + length (wire_avps (origin_avps g @ common_avps g)) < 2 ^ 24"

lemma replicate_20: "20 \<le> n \<Longrightarrow> replicate n (0 :: u8) = replicate 20 0 @ replicate (n - 20) 0"
  by (simp flip: replicate_add)

lemma hdr_pokes:
  "20 \<le> n \<Longrightarrow> do { b \<leftarrow> poke 0 [1] (replicate n 0); poke 4 [f] b } =
    Some (([1, 0, 0, 0, f] @ replicate 15 0) @ replicate (n - 20) (0 :: u8))"
  by (subst replicate_20) (simp_all add: poke_def numeral_eq_Suc)

lemma length_hdrs [simp]: "length req_hdr = 20" "length ans_hdr = 20"
  by (simp_all add: req_hdr_def ans_hdr_def)

lemma build_std_req_spec: "build_std_req g = Some (req_hdr @ wire_avps (origin_avps g))"
proof -
  let ?n = "36 + pad_len (length (cfg_identity g)) + pad_len (length (cfg_realm g))"
  let ?a = "(264, 0x40, cfg_identity g) :: raw_avp" and ?b = "(296, 0x40, cfg_realm g) :: raw_avp"
  have h: "do { b \<leftarrow> poke 0 [1] (replicate ?n 0); poke 4 [0x80] b } = Some (req_hdr @ replicate (?n - 20) 0)"
    using hdr_pokes [of ?n] by (simp add: req_hdr_def)
  have l: "raw_len ?a + raw_len ?b = ?n - 20" by (simp add: raw_len_def)
  have "build_std_req g = do {
      b \<leftarrow> do { b \<leftarrow> poke 0 [1] (replicate ?n 0); poke 4 [0x80] b };
      (p, b) \<leftarrow> w_str_avp 264 (cfg_identity g) 20 b; (p, b) \<leftarrow> w_str_avp 296 (cfg_realm g) p b; Some b }"
    by (simp add: build_std_req_def algebra_simps)
  also have "\<dots> = Some (req_hdr @ wire_avps (origin_avps g))"
    unfolding h using l
    by (simp add: w_str_avp_spec origin_avps_def del: wire_avp.simps append_assoc)
  finally show ?thesis .
qed

lemma build_std_ans_spec:
  "build_std_ans g = Some (ans_hdr @ wire_avps ((268, 0x40, be32 0) # origin_avps g))"
proof -
  let ?n = "48 + pad_len (length (cfg_identity g)) + pad_len (length (cfg_realm g))"
  let ?a = "(264, 0x40, cfg_identity g) :: raw_avp" and ?b = "(296, 0x40, cfg_realm g) :: raw_avp"
  have h: "do { b \<leftarrow> poke 0 [1] (replicate ?n 0); poke 4 [0] b } = Some (ans_hdr @ replicate (?n - 20) 0)"
    using hdr_pokes [of ?n] by (simp add: ans_hdr_def)
  have l: "12 + raw_len ?a + raw_len ?b = ?n - 20" "raw_len (268, 0x40, be32 0) = 12" by (simp_all add: raw_len_def)
  have "build_std_ans g = do {
      b \<leftarrow> do { b \<leftarrow> poke 0 [1] (replicate ?n 0); poke 4 [0] b };
      (p, b) \<leftarrow> w_empty_avp 268 20 b;
      (p, b) \<leftarrow> w_str_avp 264 (cfg_identity g) p b; (p, b) \<leftarrow> w_str_avp 296 (cfg_realm g) p b; Some b }"
    by (simp add: build_std_ans_def algebra_simps)
  also have "\<dots> = Some (ans_hdr @ wire_avps ((268, 0x40, be32 0) # origin_avps g))"
    unfolding h using l
    by (simp add: w_str_avp_spec w_empty_avp_spec origin_avps_def del: wire_avp.simps append_assoc)
  finally show ?thesis .
qed

lemma build_ce4_spec:
  assumes "8 + length (product_name g) < 2 ^ 24"
  shows "build_ce_avp_ipv4 g = Some (wire_avps ((257, 0x40, be32 0) # common_avps g))"
proof -
  let ?pn = "(269, 0, product_name g) :: raw_avp"
  let ?A = "wire_avps (app_avps 258 DOES_AUTH (modules g))" and ?R = "wire_avps (relay_avps g 258)"
  let ?B = "wire_avps (app_avps 259 DOES_ACCT (modules g))" and ?S = "wire_avps (relay_avps g 259)"
  let ?n = "24 + raw_len ?pn + length ?A + length ?R + length ?B + length ?S"
  have r: "length (wire_avps (relay_avps g c)) = (if do_relay g then 12 else 0)" for c
    by (simp add: relay_avps_def raw_len_def)
  have n: "(8 + 4) + (8 + 4) + (8 + pad_len (length (product_name g))) + nr_app g DOES_AUTH * (8 + 4) +
      nr_app g DOES_ACCT * (8 + 4) = ?n"
    unfolding r length_app_avps nr_app_def by (auto simp: raw_len_def algebra_simps)
  have l: "raw_len (257, 0x40, be32 0) = 12" "raw_len (266, 0x40, be32 v) = 12" for v by (simp_all add: raw_len_def)
  have "build_ce_avp_ipv4 g = do {
     (p, b) \<leftarrow> w_empty_avp 257 0 ([] @ replicate ?n 0);
     (p, b) \<leftarrow> w_int_avp 266 (vendor_id g) p b;
     (p, b) \<leftarrow> w_product_avp (product_name g) p b;
     (p, b) \<leftarrow> w_app_ids 258 DOES_AUTH (modules g) p b;
     (p, b) \<leftarrow> w_relay g 258 p b;
     (p, b) \<leftarrow> w_app_ids 259 DOES_ACCT (modules g) p b;
     (p, b) \<leftarrow> w_relay g 259 p b;
     Some b }"
    unfolding build_ce_avp_ipv4_def Let_def AVP_HDR_SIZE_0 n append_Nil ..
  also have "\<dots> = Some (wire_avps ((257, 0x40, be32 0) # common_avps g))"
    using l assms
    by (simp add: w_empty_avp_spec w_int_avp_spec w_product_avp_spec w_app_ids_spec w_relay_spec common_avps_def
        del: wire_avp.simps append_assoc append_Nil)
  finally show ?thesis .
qed

lemma build_dpr_spec: "build_dpr_avp = Some (wire_avp (273, 0x40, be32 0))"
  using w_empty_avp_spec [of "[]" 0 12 273] by (simp add: build_dpr_avp_def)

lemma build_ce6_spec:
  assumes "length rest < 2 ^ 31"
  shows "build_ce_avp_ipv6 (wire_avp (257, 0x40, be32 0) @ rest) =
    Some (be32 257 @ be32 24 @ replicate 16 0 @ rest)"
proof -
  let ?v4 = "wire_avp (257, 0x40, be32 0) @ rest"
  have l: "length ?v4 = 12 + length rest" by (simp add: raw_len_def del: wire_avp.simps)
  have h: "peekn ?v4 0 8 = Some (be32 257 @ [0x40] @ tl (be32 12))"
    by (simp add: peekn_def)
  have t: "peekn ?v4 12 (length rest) = Some rest"
    by (rule peekn_append [of _ "wire_avp (257, 0x40, be32 0)" _ _ "[]", simplified append_Nil2])
      (simp_all add: raw_len_def del: wire_avp.simps)
  have z: "replicate (length ?v4 + 12) (0 :: u8) = replicate 8 0 @ replicate 16 0 @ replicate (length rest) 0"
    using l by (simp del: wire_avp.simps flip: replicate_add)
  have "build_ce_avp_ipv6 ?v4 = do {
      b \<leftarrow> poke 0 (be32 257 @ [0x40] @ tl (be32 12)) (replicate 8 0 @ replicate 16 0 @ replicate (length rest) 0);
      b \<leftarrow> poke 4 (be32 24) b; poke 24 rest b }"
    unfolding build_ce_avp_ipv6_def AVP_HDR_SIZE_0 z using h t l by (simp del: wire_avp.simps)
  also have "\<dots> = Some (be32 257 @ be32 24 @ replicate 16 0 @ rest)"
    by (simp add: poke_def be32_def)
  finally show ?thesis .
qed

section \<open>The loop over the AVPs of an encoding\<close>

text \<open>What the macro does, on the list of AVPs: \<open>body\<close> sees each AVP with its offset.\<close>

fun visit :: "(u32 \<Rightarrow> nat \<Rightarrow> 's \<Rightarrow> ('r + 's) option) \<Rightarrow> nat \<Rightarrow> raw_avp list \<Rightarrow> 's \<Rightarrow> ('r + 's) option" where
  "visit body p [] s = Some (Inr s)"
| "visit body p (a # as) s =
     (case body (fst a) p s of
        None \<Rightarrow> None
      | Some (Inl r) \<Rightarrow> Some (Inl r)
      | Some (Inr s') \<Rightarrow> visit body (p + raw_len a) as s')"

lemma peek4_prefix: "i = length pre \<Longrightarrow> peek4 (pre @ be32 w @ post) i = Some w"
  by (rule peek4_append)

lemma peek4_len:
  assumes "i = length pre + 4" and "raw_ok a"
  shows "\<exists>w. peek4 (pre @ wire_avp a @ post) i = Some w \<and> unat (get_avp_len w) = raw_len a"
proof -
  obtain c f d where a: "a = (c, f, d)" by (cases a)
  have n: "8 + length d < 2 ^ 24" using assms(2) by (simp add: raw_ok_def a)
  let ?n = "of_nat (8 + length d) :: u32"
  obtain b1 b2 b3 where b: "be32 ?n = [0, b1, b2, b3]"
    using hdr_zero_byte [OF n] by (simp add: be32_def)
  let ?w = "of_be32 f b1 b2 b3"
  have w: "be32 ?w = [f, b1, b2, b3]" by simp
  have "wire_avp a = be32 c @ be32 ?w @ d @ replicate (pad_len (length d) - length d) 0"
    using b unfolding a by simp
  then have p: "peek4 (pre @ wire_avp a @ post) i = Some ?w"
    using peek4_append [of i "pre @ be32 c" ?w "d @ replicate (pad_len (length d) - length d) 0 @ post"] assms(1) by simp
  have "?w AND 0x00ffffff = take_bit 24 ?w" by (simp add: take_bit_eq_mask mask_eq_exp_minus_1)
  also have "\<dots> = of_be32 0 b1 b2 b3" unfolding of_be32_three [symmetric] using w by (simp add: be32_def)
  also have "\<dots> = ?n" using b be32_inject [of "of_be32 0 b1 b2 b3" ?n] by simp
  finally have "get_avp_len ?w = to_32x_len ?n" by (simp add: get_avp_len_def)
  then have "unat (get_avp_len ?w) = pad_len (8 + length d)" using unat_to_32x_len_pad [OF n] by simp
  moreover have "pad_len (8 + length d) = 8 + pad_len (length d)" unfolding pad_len_def by presburger
  ultimately show ?thesis using p by (simp add: a raw_len_def)
qed

lemma for_all_AVPS_encoded:
  assumes "\<forall>a \<in> set as. raw_ok a" and "buf = pre @ wire_avps as"
  shows "for_all_AVPS body buf (length pre) s = Some (visit body (length pre) as s)"
  using assms
proof (induction as arbitrary: pre s)
  case Nil
  then show ?case by (subst for_all_AVPS.simps) simp
next
  case (Cons a as)
  obtain c f d where a: "a = (c, f, d)" by (cases a)
  have buf: "buf = (pre @ wire_avp a) @ wire_avps as" using Cons.prems by simp
  have c: "peek4 buf (length pre) = Some (fst a)"
    using peek4_prefix [of "length pre" pre c] buf by (simp add: a)
  obtain w where w: "peek4 buf (length pre + 4) = Some w" "unat (get_avp_len w) = raw_len a"
    using peek4_len [of "length pre + 4" pre a "wire_avps as"] Cons.prems by auto
  have "length pre < length buf" using buf by (simp add: raw_len_def del: wire_avp.simps)
  then show ?case using Cons.IH [of "pre @ wire_avp a"] Cons.prems(1) buf c w
    by (subst for_all_AVPS.simps) (auto split: option.splits sum.splits)
qed

section \<open>The messages are encodings\<close>

definition buffers_of :: "config \<Rightarrow> p_table \<Rightarrow> bool" where
  "buffers_of g t \<longleftrightarrow>
     snd (std_req t) = req_hdr @ wire_avps (origin_avps g) \<and>
     snd (std_ans t) = ans_hdr @ wire_avps ((268, 0x40, be32 0) # origin_avps g) \<and>
     snd (ce_avp_ipv4 t) = wire_avps ((257, 0x40, be32 0) # common_avps g) \<and>
     snd (ce_avp_ipv6 t) = be32 257 @ be32 24 @ replicate 16 0 @ wire_avps (common_avps g) \<and>
     snd (dpr_avp t) = wire_avp (273, 0x40, be32 0)"

lemma build_msg_buffers_spec:
  assumes "config_ok g"
  shows "\<exists>r t m'. build_msg_buffers ok g t0 m = Some (r, t, m') \<and> (r = 1 \<or> r = - 1) \<and>
    (r = 1 \<longrightarrow> buffers_of g t) \<and> ((\<forall>n. ok n) \<longrightarrow> r = 1)"
proof -
  have pn: "8 + length (product_name g) < 2 ^ 24" using assms by (auto simp: config_ok_def common_avps_def raw_ok_def)
  have "length (wire_avps (common_avps g)) < 2 ^ 31" using assms by (simp add: config_ok_def)
  from build_ce6_spec [OF this] have
    c6: "build_ce_avp_ipv6 (wire_avps ((257, 0x40, be32 0) # common_avps g)) =
      Some (be32 257 @ be32 24 @ replicate 16 0 @ wire_avps (common_avps g))" by simp
  show ?thesis
    unfolding build_msg_buffers_def build_std_req_spec build_std_ans_spec build_ce4_spec [OF pn] build_dpr_spec
    using c6
    by (auto simp: Let_def buffers_of_def shm_malloc_def simp del: wire_avp.simps split: if_splits)
qed

definition wire_hdr :: "u8 \<Rightarrow> nat \<Rightarrow> bytes \<Rightarrow> bytes \<Rightarrow> bytes" where
  "wire_hdr f len code ids = [1] @ tl (be32 (of_nat len)) @ [f] @ code @ ids"

lemma length_wire_hdr [simp]: "length code = 3 \<Longrightarrow> length ids = 12 \<Longrightarrow> length (wire_hdr f len code ids) = 20"
  by (simp add: wire_hdr_def)

lemma or_words:
  assumes "n < 2 ^ 24" and "le32 code = 0 # c" and "hdr = [1, 0, 0, 0, f] @ replicate 15 0"
  shows "do { b \<leftarrow> or_word 0 (be32 (of_nat n)) (hdr @ r); b \<leftarrow> or_word 4 (le32 code) b; k b } =
    k (wire_hdr f n c (replicate 12 0) @ r)"
proof -
  obtain b1 b2 b3 where b: "be32 (of_nat n) = [0, b1, b2, b3]"
    using hdr_zero_byte [OF assms(1)] by (simp add: be32_def)
  obtain c1 c2 c3 where c: "c = [c1, c2, c3]"
    using assms(2) by (auto simp: le32_def be32_def)
  show ?thesis unfolding assms(2,3) b c
    by (simp add: or_word_def peekn_def poke_def wire_hdr_def b numeral_eq_Suc)
qed

lemma msg_codes:
  "le32 CE_MSG_CODE = 0 # tl (be32 257)" "le32 DW_MSG_CODE = 0 # tl (be32 280)" "le32 DP_MSG_CODE = 0 # tl (be32 282)"
  by (simp_all add: le32_def be32_def)

lemma make_dwr_spec:
  assumes "buffers_of g t" and "config_ok g"
  shows "make_dwr t = Some (wire_hdr 0x80 (20 + length (wire_avps (origin_avps g))) (tl (be32 280)) (replicate 12 0) @
    wire_avps (origin_avps g))"
  using assms or_words [OF _ msg_codes(2) req_hdr_def, of "20 + length (wire_avps (origin_avps g))" "wire_avps (origin_avps g)" Some]
  by (simp add: make_dwr_def buffers_of_def config_ok_def del: wire_avp.simps)

lemma bytewise_or_0: "map2 (OR) (replicate (length d) 0) d = (d :: bytes)"
  by (induction d) auto

lemma or_word_zeros:
  "i = length pre \<Longrightarrow> or_word i d (pre @ replicate (length d) 0 @ post) = Some (pre @ d @ post)"
  by (simp add: or_word_def peekn_append poke_append_middle bytewise_or_0)

lemma wire_avp_value: "wire_avp (c, 0x40, be32 v) = be32 c @ [0x40, 0, 0, 12] @ be32 v"
  by (simp add: be32_def [of 12])

lemma make_dpr_spec:
  assumes "buffers_of g t" and "config_ok g"
  shows "make_dpr t cause = Some (wire_hdr 0x80 (20 + length (wire_avps (origin_avps g)) + 12) (tl (be32 282)) (replicate 12 0) @
    wire_avps (origin_avps g @ [(273, 0x40, be32 cause)]))"
proof -
  let ?o = "wire_avps (origin_avps g)" and ?d = "wire_avp (273, 0x40, be32 0)"
  have n: "20 + length ?o + 12 < 2 ^ 24" using assms(2) by (simp add: config_ok_def)
  have l: "length ?d = 12" by (simp add: raw_len_def del: wire_avp.simps)
  let ?h = "wire_hdr 0x80 (20 + length ?o + 12) (tl (be32 282)) (replicate 12 0)"
  have "make_dpr t cause = or_word (28 + length ?o) (be32 cause) (?h @ ?o @ ?d)"
    using or_words [OF n msg_codes(3) req_hdr_def, of "?o @ ?d" "or_word (28 + length ?o) (be32 cause)"] assms(1) l
    by (simp add: make_dpr_def buffers_of_def del: wire_avp.simps)
  also have "\<dots> = or_word (28 + length ?o) (be32 cause) ((?h @ ?o @ be32 273 @ [0x40, 0, 0, 12]) @ be32 0)"
    by (simp add: wire_avp_value del: wire_avp.simps)
  also have "\<dots> = Some ((?h @ ?o @ be32 273 @ [0x40, 0, 0, 12]) @ be32 cause)"
    using or_word_zeros [of "28 + length ?o" "?h @ ?o @ be32 273 @ [0x40, 0, 0, 12]" "be32 cause" "[]"]
    by (simp add: be32_0)
  finally show ?thesis by (simp add: wire_avp_value del: wire_avp.simps)
qed

text \<open>The address of the host goes into the first AVP of the capabilities.\<close>

definition addr_ok :: "bool \<Rightarrow> peer \<Rightarrow> bool" where
  "addr_ok use_ipv6 p \<longleftrightarrow> length (ip_bytes (local_ip p)) = (if use_ipv6 \<and> ip_af6 (local_ip p) then 16 else 4)"

definition host_avp :: "bool \<Rightarrow> peer \<Rightarrow> raw_avp" where
  "host_avp use_ipv6 p = (257, if use_ipv6 \<and> ip_af6 (local_ip p) then 0 else 0x40, ip_bytes (local_ip p))"

lemma ce_avp_addr:
  assumes "buffers_of g t" and "addr_ok v6 p" and "i = length pre + 8"
  shows "poke i (ip_bytes (local_ip p)) (pre @ ce_avp v6 t p) = Some (pre @ wire_avps (host_avp v6 p # common_avps g))"
proof (cases "v6 \<and> ip_af6 (local_ip p)")
  case True
  then have ce: "pre @ ce_avp v6 t p = (pre @ be32 257 @ be32 24) @ replicate 16 0 @ wire_avps (common_avps g)"
    and l: "length (ip_bytes (local_ip p)) = 16"
    using assms by (auto simp: ce_avp_def buffers_of_def addr_ok_def simp del: wire_avp.simps)
  have w: "wire_avp (host_avp v6 p) = be32 257 @ be32 24 @ ip_bytes (local_ip p)"
    using True l by (simp add: host_avp_def pad_len_def be32_def [of 24])
  show ?thesis unfolding ce using assms(3) l w
    by (subst poke_append_middle) (simp_all del: wire_avp.simps)
next
  case False
  then have ce: "pre @ ce_avp v6 t p = (pre @ be32 257 @ [0x40, 0, 0, 12]) @ be32 0 @ wire_avps (common_avps g)"
    and l: "length (ip_bytes (local_ip p)) = 4"
    using assms by (auto simp: ce_avp_def buffers_of_def addr_ok_def wire_avp_value simp del: wire_avp.simps)
  have w: "wire_avp (host_avp v6 p) = be32 257 @ [0x40, 0, 0, 12] @ ip_bytes (local_ip p)"
    using False l by (simp add: host_avp_def be32_def [of 12])
  show ?thesis unfolding ce using assms(3) l w
    by (subst poke_append_middle) (simp_all del: wire_avp.simps)
qed

definition ce_avps :: "bool \<Rightarrow> config \<Rightarrow> peer \<Rightarrow> raw_avp list" where
  "ce_avps v6 g p = origin_avps g @ host_avp v6 p # common_avps g"

lemma length_ce_avp: "buffers_of g t \<Longrightarrow> addr_ok v6 p \<Longrightarrow>
  length (ce_avp v6 t p) = length (wire_avps (host_avp v6 p # common_avps g))"
  using length_poke [OF ce_avp_addr [of g t v6 p 8 "[]"]] by (simp del: wire_avp.simps)

lemma length_ce_avps:
  assumes "config_ok g" and "addr_ok v6 p"
  shows "20 + length (wire_avps (ce_avps v6 g p)) + 12 < 2 ^ 24" and "\<forall>a \<in> set (ce_avps v6 g p). raw_ok a"
proof -
  have "raw_len (host_avp v6 p) \<le> 24 \<and> raw_ok (host_avp v6 p)"
    using assms(2) by (auto simp: addr_ok_def host_avp_def raw_len_def raw_ok_def pad_len_def)
  then show "20 + length (wire_avps (ce_avps v6 g p)) + 12 < 2 ^ 24" "\<forall>a \<in> set (ce_avps v6 g p). raw_ok a"
    using assms(1) by (auto simp: config_ok_def ce_avps_def simp del: wire_avp.simps)
qed

lemma make_cer_spec:
  assumes "buffers_of g t" and "config_ok g" and "addr_ok v6 p"
  shows "make_cer v6 t p = Some (wire_hdr 0x80 (20 + length (wire_avps (ce_avps v6 g p))) (tl (be32 257)) (replicate 12 0) @
    wire_avps (ce_avps v6 g p))"
proof -
  let ?o = "wire_avps (origin_avps g)" and ?n = "20 + length (wire_avps (ce_avps v6 g p))"
  have n: "?n < 2 ^ 24" using length_ce_avps(1) [OF assms(2,3)] by simp
  have l: "length (req_hdr @ ?o @ ce_avp v6 t p) = ?n"
    using length_ce_avp [OF assms(1,3)] by (simp add: ce_avps_def del: wire_avp.simps)
  have r: "snd (std_req t) @ x = req_hdr @ ?o @ x" "length (snd (std_req t)) + 8 = 28 + length ?o" for x
    using assms(1) by (simp_all add: buffers_of_def del: wire_avp.simps)
  have "make_cer v6 t p = poke (28 + length ?o) (ip_bytes (local_ip p))
      (wire_hdr 0x80 ?n (tl (be32 257)) (replicate 12 0) @ ?o @ ce_avp v6 t p)"
    unfolding make_cer_def Let_def AVP_HDR_SIZE_0 r l by (rule or_words [OF n msg_codes(1) req_hdr_def])
  then show ?thesis
    using ce_avp_addr [OF assms(1,3), of "28 + length ?o" "wire_hdr 0x80 ?n (tl (be32 257)) (replicate 12 0) @ ?o"]
    by (simp add: ce_avps_def del: wire_avp.simps)
qed

lemma make_cea_spec:
  assumes "buffers_of g t" and "addr_ok v6 p"
  shows "make_cea v6 t p = Some (ans_hdr @ wire_avps ((268, 0x40, be32 0) # ce_avps v6 g p))"
  using ce_avp_addr [OF assms, of "length (snd (std_ans t)) + 8" "snd (std_ans t)"] assms(1)
  by (simp add: make_cea_def ce_avps_def buffers_of_def del: wire_avp.simps)

lemma set_request_ids_spec:
  "length code = 3 \<Longrightarrow> set_request_ids ete hop (wire_hdr f n code (replicate 12 0) @ r) =
    Some (wire_hdr f n code (replicate 4 0 @ le32 hop @ le32 ete) @ r)"
  by (simp add: set_request_ids_def poke_def wire_hdr_def numeral_eq_Suc)

lemma set_response_spec:
  assumes "20 + length (wire_avps ((268, 0x40, be32 0) # as)) < 2 ^ 24" and "length rq = 20"
  shows "set_response (rq @ req) code (ans_hdr @ wire_avps ((268, 0x40, be32 0) # as)) =
    Some (wire_hdr 0 (20 + length (wire_avps ((268, 0x40, be32 0) # as))) (take 3 (drop 5 rq)) (drop 8 rq) @
      wire_avps ((268, 0x40, be32 code) # as))"
proof -
  let ?n = "20 + length (wire_avps ((268, 0x40, be32 0) # as))"
  obtain b1 b2 b3 where b: "be32 (of_nat ?n) = [0, b1, b2, b3]"
    using hdr_zero_byte [OF assms(1)] by (simp add: be32_def)
  obtain q0 q1 q2 q3 q4 q5 q6 q7 q8 q9 q10 q11 q12 q13 q14 q15 q16 q17 q18 q19 where
    q: "rq = [q0, q1, q2, q3, q4, q5, q6, q7, q8, q9, q10, q11, q12, q13, q14, q15, q16, q17, q18, q19]"
    using assms(2) by (auto simp: numeral_eq_Suc length_Suc_conv)
  have r: "ans_hdr @ wire_avps ((268, 0x40, be32 0) # as) = [1, 0, 0, 0, 0, 0, 0, 0, 0, 0, 0, 0, 0, 0, 0, 0, 0, 0, 0, 0] @
      be32 268 @ [0x40, 0, 0, 12] @ be32 0 @ wire_avps as"
    by (simp add: wire_avp_value ans_hdr_def numeral_eq_Suc del: wire_avp.simps)
  have n: "length (ans_hdr @ wire_avps ((268, 0x40, be32 0) # as)) = ?n" by (simp del: wire_avp.simps)
  have w: "wire_avps ((268, 0x40, be32 code) # as) = be32 268 @ [0x40, 0, 0, 12] @ be32 code @ wire_avps as"
    by (simp add: wire_avp_value del: wire_avp.simps)
  show ?thesis unfolding set_response_def n wire_hdr_def b w unfolding r q
    by (simp add: or_word_def poke_def peekn_def be32_def [of 268] del: wire_avp.simps)
qed

section \<open>Reading what was made\<close>

lemma visit_append:
  "visit body p (as @ bs) s =
     (case visit body p as s of
        None \<Rightarrow> None
      | Some (Inl r) \<Rightarrow> Some (Inl r)
      | Some (Inr s') \<Rightarrow> visit body (p + length (wire_avps as)) bs s')"
  by (induction as arbitrary: p s) (auto simp: add.assoc simp del: wire_avp.simps split: option.splits sum.splits)

lemma peek4_value:
  "i = length pre + 8 \<Longrightarrow> peek4 (pre @ wire_avp (c, f, be32 v) @ post) i = Some v"
  using peek4_append [of i "pre @ be32 c @ [f] @ tl (be32 12)" v post] by simp

lemma peek_flags: "i = length pre + 4 \<Longrightarrow> peek (pre @ wire_avp (c, f, d) @ post) i = Some f"
  using peek_append [of i "pre @ be32 c" f "tl (be32 (8 + of_nat (length d))) @ d @ replicate (pad_len (length d) - length d) 0 @ post"]
  by simp

lemma origin_ok: "config_ok g \<Longrightarrow> \<forall>a \<in> set (origin_avps g). raw_ok a"
  by (simp add: config_ok_def)

lemma result_ok: "raw_ok (c, f, be32 v)"
  by (simp add: raw_ok_def)

lemma process_dw_request:
  assumes "config_ok g" and "length h = 20"
  shows "process_dw (h @ wire_avps (origin_avps g)) True = Some (Some 1)"
proof -
  let ?b = "h @ wire_avps (origin_avps g)"
  have "for_all_AVPS (dw_body False ?b) ?b 20 0 = Some (visit (dw_body False ?b) 20 (origin_avps g) 0)"
    using for_all_AVPS_encoded [OF origin_ok [OF assms(1)] refl, of "dw_body False ?b" h 0] assms(2) by simp
  then show ?thesis
    by (simp add: process_dw_def mask_result_def origin_avps_def dw_body_def set_bit_in_mask_def del: wire_avp.simps)
qed

lemma answer_visit:
  assumes "config_ok g" and "length h = 20" and "b = h @ wire_avps ((268, 0x40, be32 code) # origin_avps g)"
  shows "for_all_AVPS (dw_body cause b) b 20 0 = Some (Some (if code = AAA_SUCCESS then Inr 7 else Inl ()))"
proof -
  have "for_all_AVPS (dw_body cause b) b 20 0 = Some (visit (dw_body cause b) 20 ((268, 0x40, be32 code) # origin_avps g) 0)"
    using for_all_AVPS_encoded [OF _ assms(3), of "dw_body cause b" 0] origin_ok [OF assms(1)] result_ok assms(2) by simp
  moreover have "peek4 b 28 = Some code"
    using peek4_value [of 28 h 268 "0x40" code "wire_avps (origin_avps g)"] assms(2,3) by simp
  ultimately show ?thesis
    by (simp add: origin_avps_def dw_body_def set_bit_in_mask_def)
qed

lemma process_dw_answer:
  assumes "config_ok g" and "length h = 20"
  shows "process_dw (h @ wire_avps ((268, 0x40, be32 code) # origin_avps g)) False =
    Some (Some (if code = AAA_SUCCESS then 1 else - 1))"
  using answer_visit [OF assms refl, of False code]
  by (simp add: process_dw_def mask_result_def del: wire_avp.simps)

lemma process_dp_answer:
  assumes "config_ok g" and "length h = 20"
  shows "process_dp (h @ wire_avps ((268, 0x40, be32 code) # origin_avps g)) False =
    Some (Some (if code = AAA_SUCCESS then 1 else - 1))"
  using answer_visit [OF assms refl, of True code]
  by (simp add: process_dp_def mask_result_def del: wire_avp.simps)

lemma process_dp_request:
  assumes "config_ok g" and "length h = 20"
  shows "process_dp (h @ wire_avps (origin_avps g @ [(273, 0x40, be32 cause)])) True = Some (Some 1)"
proof -
  let ?b = "h @ wire_avps (origin_avps g @ [(273, 0x40, be32 cause)])"
  have ok: "\<forall>a \<in> set (origin_avps g @ [(273, 0x40, be32 cause)]). raw_ok a"
    using origin_ok [OF assms(1)] result_ok by auto
  have "for_all_AVPS (dw_body True ?b) ?b 20 0 = Some (visit (dw_body True ?b) 20 (origin_avps g @ [(273, 0x40, be32 cause)]) 0)"
    using for_all_AVPS_encoded [OF ok refl, of "dw_body True ?b" h 0] assms(2) by simp
  then show ?thesis
    by (simp add: process_dp_def mask_result_def origin_avps_def dw_body_def set_bit_in_mask_def del: wire_avp.simps)
qed

section \<open>Capabilities\<close>

definition advertised :: "config \<Rightarrow> u32 \<Rightarrow> u32 list" where
  "advertised g fl = map app_id (filter (\<lambda>a. mod_flags a AND fl \<noteq> 0) (modules g)) @
     (if do_relay g then [AAA_APP_RELAY] else [])"

definition common_app :: "config \<Rightarrow> config \<Rightarrow> bool" where
  "common_app g g' \<longleftrightarrow> (\<exists>i \<in> set (advertised g' DOES_AUTH). supports g DOES_AUTH i) \<or>
     (\<exists>i \<in> set (advertised g' DOES_ACCT). supports g DOES_ACCT i)"

abbreviation id_avps :: "u32 \<Rightarrow> u32 list \<Rightarrow> raw_avp list" where
  "id_avps c ids \<equiv> map (\<lambda>i. (c, 0x40, be32 i)) ids"

lemma common_avps_ids:
  "common_avps g = [(266, 0x40, be32 (vendor_id g)), (269, 0, product_name g)] @
     id_avps 258 (advertised g DOES_AUTH) @ id_avps 259 (advertised g DOES_ACCT)"
  by (simp add: common_avps_def app_avps_def relay_avps_def advertised_def)

definition add_ids :: "config \<Rightarrow> u32 \<Rightarrow> u32 list \<Rightarrow> ce_scan \<Rightarrow> ce_scan" where
  "add_ids g c ids s =
     (let code = (if \<exists>i \<in> set ids. supports g (if c = 258 then DOES_AUTH else DOES_ACCT) i then AAA_SUCCESS else ce_code s)
      in if c = 258 then s\<lparr>ce_code := code, ce_auth := ce_auth s @ ids\<rparr>
         else s\<lparr>ce_code := code, ce_acct := ce_acct s @ ids\<rparr>)"

lemma visit_ids:
  assumes "c = 258 \<or> c = 259" and "length (if c = 258 then ce_auth s else ce_acct s) + length ids \<le> 64"
    and "buf = pre @ wire_avps (id_avps c ids) @ post"
  shows "visit (ce_body g buf) (length pre) (id_avps c ids) s = Some (Inr (add_ids g c ids s))"
  using assms(2,3)
proof (induction ids arbitrary: pre s)
  case Nil
  then show ?case by (simp add: add_ids_def Let_def)
next
  case (Cons i ids)
  let ?a = "wire_avp (c, 0x40, be32 i)"
  have v: "peek4 buf (length pre + 8) = Some i"
    using peek4_value [of "length pre + 8" pre c "0x40" i] Cons.prems(2) by (simp del: wire_avp.simps)
  have b: "ce_body g buf c (length pre) s = Some (Inr (add_ids g c [i] s))"
    using assms(1) Cons.prems(1) v by (auto simp: ce_body_def add_ids_def Let_def)
  have "length (if c = 258 then ce_auth (add_ids g c [i] s) else ce_acct (add_ids g c [i] s)) + length ids \<le> 64"
    using Cons.prems(1) assms(1) by (auto simp: add_ids_def Let_def)
  from Cons.IH [OF this, of "pre @ ?a"] Cons.prems(2)
  have "visit (ce_body g buf) (length pre + raw_len (c, 0x40, be32 i)) (id_avps c ids) (add_ids g c [i] s) =
      Some (Inr (add_ids g c ids (add_ids g c [i] s)))" by (simp del: wire_avp.simps)
  moreover have "add_ids g c ids (add_ids g c [i] s) = add_ids g c (i # ids) s"
    by (auto simp: add_ids_def Let_def)
  ultimately show ?case using b by (simp del: wire_avp.simps)
qed

definition apps_ok :: "config \<Rightarrow> bool" where
  "apps_ok g \<longleftrightarrow> length (advertised g DOES_AUTH) \<le> MAX_APPID_PER_PEER \<and> length (advertised g DOES_ACCT) \<le> MAX_APPID_PER_PEER"

definition fixed_avps :: "bool \<Rightarrow> config \<Rightarrow> peer \<Rightarrow> raw_avp list" where
  "fixed_avps v6 g q = [(264, 0x40, cfg_identity g), (296, 0x40, cfg_realm g), host_avp v6 q,
     (266, 0x40, be32 (vendor_id g)), (269, 0, product_name g)]"

lemma ce_avps_split:
  "ce_avps v6 g q = fixed_avps v6 g q @ id_avps 258 (advertised g DOES_AUTH) @ id_avps 259 (advertised g DOES_ACCT)"
  by (simp add: ce_avps_def fixed_avps_def origin_avps_def common_avps_ids)

lemma visit_fixed:
  "visit (ce_body g buf) p (fixed_avps v6 g' q) s =
    Some (Inr (s\<lparr>ce_mask := ce_mask s OR 0x3e, ce_realm := p + raw_len (264, 0x40, cfg_identity g')\<rparr>))"
  by (simp add: fixed_avps_def host_avp_def ce_body_def set_bit_in_mask_def Let_def or.assoc)

lemma visit_ce:
  assumes "apps_ok g'" and "buf = pre @ wire_avps (ce_avps v6 g' q)" and "ce_auth s = []" and "ce_acct s = []"
  shows "visit (ce_body g buf) (length pre) (ce_avps v6 g' q) s =
    Some (Inr \<lparr>ce_mask = ce_mask s OR 0x3e, ce_realm = length pre + raw_len (264, 0x40, cfg_identity g'),
      ce_code = if common_app g g' then AAA_SUCCESS else ce_code s,
      ce_auth = advertised g' DOES_AUTH, ce_acct = advertised g' DOES_ACCT\<rparr>)"
proof -
  let ?F = "wire_avps (fixed_avps v6 g' q)" and ?A = "id_avps 258 (advertised g' DOES_AUTH)"
    and ?B = "id_avps 259 (advertised g' DOES_ACCT)"
  let ?s1 = "s\<lparr>ce_mask := ce_mask s OR 0x3e, ce_realm := length pre + raw_len (264, 0x40, cfg_identity g')\<rparr>"
  let ?s2 = "add_ids g 258 (advertised g' DOES_AUTH) ?s1"
  have a: "visit (ce_body g buf) (length pre + length ?F) ?A ?s1 = Some (Inr ?s2)"
    using visit_ids [of 258 ?s1 "advertised g' DOES_AUTH" buf "pre @ ?F" "wire_avps ?B" g] assms
    by (simp add: apps_ok_def ce_avps_split del: wire_avp.simps)
  have b: "visit (ce_body g buf) (length pre + length ?F + length (wire_avps ?A)) ?B ?s2 =
      Some (Inr (add_ids g 259 (advertised g' DOES_ACCT) ?s2))"
    using visit_ids [of 259 ?s2 "advertised g' DOES_ACCT" buf "pre @ ?F @ wire_avps ?A" "[]" g] assms
    by (simp add: apps_ok_def ce_avps_split add_ids_def Let_def add.assoc del: wire_avp.simps)
  have "add_ids g 259 (advertised g' DOES_ACCT) ?s2 =
      \<lparr>ce_mask = ce_mask s OR 0x3e, ce_realm = length pre + raw_len (264, 0x40, cfg_identity g'),
      ce_code = if common_app g g' then AAA_SUCCESS else ce_code s,
      ce_auth = advertised g' DOES_AUTH, ce_acct = advertised g' DOES_ACCT\<rparr>"
    using assms(3,4) by (simp add: add_ids_def common_app_def Let_def)
  then show ?thesis unfolding ce_avps_split visit_append visit_fixed using a b by (simp del: wire_avp.simps)
qed

text \<open>What \<open>process_ce\<close> stores of a peer that runs with \<open>g'\<close> when every allocation succeeds.\<close>

definition knows :: "config \<Rightarrow> peer \<Rightarrow> bool" where
  "knows g' p \<longleftrightarrow> realm_s p \<noteq> NULL \<and> realm_bytes p = cfg_realm g' \<and> unat (realm_len p) = length (cfg_realm g') \<and>
     (snd (supp_auth_app_ids p) = (if advertised g' DOES_AUTH = [] then [] else advertised g' DOES_AUTH @ [0])) \<and>
     (snd (supp_acct_app_ids p) = (if advertised g' DOES_ACCT = [] then [] else advertised g' DOES_ACCT @ [0])) \<and>
     (fst (supp_auth_app_ids p) = NULL \<longleftrightarrow> advertised g' DOES_AUTH = []) \<and>
     (fst (supp_acct_app_ids p) = NULL \<longleftrightarrow> advertised g' DOES_ACCT = [])"

lemma save_app_ids_all: "\<forall>n. ok n \<Longrightarrow> save_app_ids ok ids old m = (r, m') \<Longrightarrow>
  snd r = (if ids = [] then [] else ids @ [0]) \<and> (fst r = NULL \<longleftrightarrow> ids = [])"
  by (auto simp: save_app_ids_def shm_malloc_def Let_def split: if_splits)

lemma save_realm_spec:
  assumes "raw_ok (296, 0x40, d)" and "buf = pre @ wire_avp (296, 0x40, d) @ post"
  shows "save_realm ok buf (length pre) p m =
    (let (s, m1) = shm_malloc ok m in Some (if s = NULL then p\<lparr>realm_s := NULL, realm_bytes := [], realm_len := 0\<rparr>
       else p\<lparr>realm_s := s, realm_bytes := d, realm_len := of_nat (length d)\<rparr>, m1))"
proof -
  have n: "8 + length d < 2 ^ 24" using assms(1) by (simp add: raw_ok_def)
  obtain b1 b2 b3 where b: "be32 (of_nat (8 + length d)) = [0, b1, b2, b3]"
    using hdr_zero_byte [OF n] by (simp add: be32_def)
  let ?w = "of_be32 0x40 b1 b2 b3"
  have "wire_avp (296, 0x40, d) = be32 296 @ be32 ?w @ d @ replicate (pad_len (length d) - length d) 0"
    using b by simp
  then have w: "peek4 buf (length pre + 4) = Some ?w"
    using peek4_append [of "length pre + 4" "pre @ be32 296" ?w] assms(2) by simp
  have "?w AND 0x00ffffff = take_bit 24 ?w" by (simp add: take_bit_eq_mask mask_eq_exp_minus_1)
  also have "\<dots> = of_be32 0 b1 b2 b3"
    unfolding of_be32_three [symmetric] using be32_of_be32 [of "0x40" b1 b2 b3] by (simp add: be32_def)
  also have "\<dots> = of_nat (8 + length d)"
    using b be32_inject [of "of_be32 0 b1 b2 b3" "of_nat (8 + length d)"] by simp
  finally have l: "(?w AND 0x00ffffff) - 8 = of_nat (length d)" by simp
  have u: "unat (of_nat (length d) :: u32) = length d" using n by (intro unat_of_nat_u32) simp
  have f: "peek buf (length pre + 4) = Some 0x40" using peek_flags [of "length pre + 4" pre] assms(2) by simp
  have d: "peekn buf (length pre + 8) (length d) = Some d"
    using peekn_append [of "length pre + 8" "pre @ be32 296 @ [0x40] @ tl (be32 (8 + of_nat (length d)))" "length d" d] assms(2)
    by simp
  have h: "AVP_HDR_SIZE (ucast (0x40 :: u8)) = 8" by (simp add: AVP_HDR_SIZE_def)
  show ?thesis using w f d l u h by (simp add: save_realm_def case_prod_unfold Let_def)
qed

lemma ce_accept_spec:
  assumes "config_ok g'" and "buf = pre @ wire_avps (ce_avps v6 g' q)"
    and "ce_auth s = advertised g' DOES_AUTH" and "ce_acct s = advertised g' DOES_ACCT"
    and "ce_realm s = length pre + raw_len (264, 0x40, cfg_identity g')"
  shows "\<exists>p' m'. ce_accept ok buf s p m = Some (p', m') \<and> ((\<forall>n. ok n) \<longrightarrow> knows g' p') \<and>
    p_state p' = p_state p \<and> p_flags p' = p_flags p \<and> local_ip p' = local_ip p \<and> conn_cnt p' = conn_cnt p \<and> p_sock p' = p_sock p"
proof -
  obtain auth m1 where a: "save_app_ids ok (ce_auth s) (supp_auth_app_ids p) m = (auth, m1)" using prod.exhaust by blast
  obtain acct m2 where b: "save_app_ids ok (ce_acct s) (supp_acct_app_ids p) m1 = (acct, m2)" using prod.exhaust by blast
  let ?i = "wire_avp (264, 0x40, cfg_identity g')"
  let ?p = "p\<lparr>supp_auth_app_ids := auth, supp_acct_app_ids := acct\<rparr>"
  have ok: "raw_ok (296, 0x40, cfg_realm g')" using assms(1) by (simp add: config_ok_def origin_avps_def)
  obtain post where "buf = (pre @ ?i) @ wire_avp (296, 0x40, cfg_realm g') @ post"
    using assms(2) by (simp add: ce_avps_split fixed_avps_def)
  from save_realm_spec [OF ok this, of "ok" ?p m2] assms(5)
  have "ce_accept ok buf s p m = (let (s, m1) = shm_malloc ok m2 in
      Some (if s = NULL then ?p\<lparr>realm_s := NULL, realm_bytes := [], realm_len := 0\<rparr>
       else ?p\<lparr>realm_s := s, realm_bytes := cfg_realm g', realm_len := of_nat (length (cfg_realm g'))\<rparr>, m1))"
    by (simp add: ce_accept_def a b del: wire_avp.simps)
  moreover have "unat (of_nat (length (cfg_realm g')) :: u32) = length (cfg_realm g')"
    using ok by (intro unat_of_nat_u32) (simp add: raw_ok_def)
  ultimately show ?thesis
    using save_app_ids_all [OF _ a] save_app_ids_all [OF _ b] assms(3,4)
    by (auto simp: shm_malloc_def knows_def Let_def)
qed

lemma process_ce_request:
  assumes "config_ok g'" and "apps_ok g'" and "addr_ok v6 q" and "length h = 20"
  shows "\<exists>p' m'. process_ce ok g p (h @ wire_avps (ce_avps v6 g' q)) True m =
      Some (Some (if common_app g g' then AAA_SUCCESS else AAA_NO_COMMON_APPLICATION, p', m')) \<and>
    ((\<forall>n. ok n) \<and> common_app g g' \<longrightarrow> knows g' p') \<and>
    p_state p' = p_state p \<and> p_flags p' = p_flags p \<and> local_ip p' = local_ip p \<and> conn_cnt p' = conn_cnt p \<and> p_sock p' = p_sock p"
proof -
  let ?b = "h @ wire_avps (ce_avps v6 g' q)"
  let ?init = "\<lparr>ce_mask = 0, ce_realm = 0, ce_code = AAA_NO_COMMON_APPLICATION, ce_auth = [], ce_acct = []\<rparr>"
  let ?s = "\<lparr>ce_mask = 0x3e, ce_realm = 20 + raw_len (264, 0x40, cfg_identity g'),
      ce_code = if common_app g g' then AAA_SUCCESS else AAA_NO_COMMON_APPLICATION,
      ce_auth = advertised g' DOES_AUTH, ce_acct = advertised g' DOES_ACCT\<rparr>"
  have "for_all_AVPS (ce_body g ?b) ?b 20 ?init = Some (Some (Inr ?s))"
    using for_all_AVPS_encoded [OF length_ce_avps(2) [OF assms(1,3)] refl, of "ce_body g ?b" h ?init]
      visit_ce [OF assms(2) refl, of ?init g h v6 q] assms(4) by (simp del: wire_avp.simps)
  then have e: "process_ce ok g p ?b True m = Some (if common_app g g'
      then map_option (\<lambda>(p', m'). (AAA_SUCCESS, p', m')) (ce_accept ok ?b ?s p m)
      else Some (AAA_NO_COMMON_APPLICATION, p, m))"
    by (simp add: process_ce_def Let_def del: wire_avp.simps)
  show ?thesis
  proof (cases "common_app g g'")
    case True
    have "\<exists>p' m'. ce_accept ok ?b ?s p m = Some (p', m') \<and> ((\<forall>n. ok n) \<longrightarrow> knows g' p') \<and>
      p_state p' = p_state p \<and> p_flags p' = p_flags p \<and> local_ip p' = local_ip p \<and> conn_cnt p' = conn_cnt p \<and> p_sock p' = p_sock p"
      by (rule ce_accept_spec [OF assms(1) refl]) (simp_all add: assms(4))
    then show ?thesis using e True by auto
  next
    case False
    then show ?thesis using e by simp
  qed
qed

lemma process_ce_answer:
  assumes "config_ok g'" and "apps_ok g'" and "addr_ok v6 q" and "length h = 20"
  shows "\<exists>p' m'. process_ce ok g p (h @ wire_avps ((268, 0x40, be32 code) # ce_avps v6 g' q)) False m =
      Some (Some (code, p', m')) \<and>
    ((\<forall>n. ok n) \<and> code = AAA_SUCCESS \<longrightarrow> knows g' p') \<and>
    p_state p' = p_state p \<and> p_flags p' = p_flags p \<and> local_ip p' = local_ip p \<and> conn_cnt p' = conn_cnt p \<and> p_sock p' = p_sock p"
proof -
  let ?a = "(268, 0x40, be32 code) :: raw_avp"
  let ?b = "h @ wire_avps (?a # ce_avps v6 g' q)"
  let ?init = "\<lparr>ce_mask = 0, ce_realm = 0, ce_code = AAA_NO_COMMON_APPLICATION, ce_auth = [], ce_acct = []\<rparr>"
  let ?s1 = "?init\<lparr>ce_mask := 1, ce_code := AAA_SUCCESS\<rparr>"
  let ?s = "\<lparr>ce_mask = 0x3f, ce_realm = 32 + raw_len (264, 0x40, cfg_identity g'), ce_code = AAA_SUCCESS,
      ce_auth = advertised g' DOES_AUTH, ce_acct = advertised g' DOES_ACCT\<rparr>"
  have ok: "\<forall>a \<in> set (?a # ce_avps v6 g' q). raw_ok a" using length_ce_avps(2) [OF assms(1,3)] result_ok by simp
  have l: "raw_len ?a = 12" by (simp add: raw_len_def)
  have p: "peek4 ?b 28 = Some code" "peek ?b 24 = Some 0x40"
    using peek4_value [of 28 h 268 "0x40" code "wire_avps (ce_avps v6 g' q)"]
      peek_flags [of 24 h 268 "0x40" "be32 code" "wire_avps (ce_avps v6 g' q)"] assms(4) by simp_all
  have b: "ce_body g ?b 268 20 ?init = Some (if code = AAA_SUCCESS then Inr ?s1 else Inl code)"
    using p by (simp add: ce_body_def set_bit_in_mask_def AVP_HDR_SIZE_def Let_def del: wire_avp.simps)
  have v: "visit (ce_body g ?b) 32 (ce_avps v6 g' q) ?s1 = Some (Inr ?s)"
    using visit_ce [OF assms(2), of ?b "h @ wire_avp ?a" v6 q ?s1 g] assms(4) l by (simp del: wire_avp.simps)
  have f: "for_all_AVPS (ce_body g ?b) ?b 20 ?init = Some (if code = AAA_SUCCESS then Some (Inr ?s) else Some (Inl code))"
    using for_all_AVPS_encoded [OF ok refl, of "ce_body g ?b" h ?init] b v l assms(4) by (cases "code = AAA_SUCCESS") (simp_all del: wire_avp.simps)
  show ?thesis
  proof (cases "code = AAA_SUCCESS")
    case True
    have "\<exists>p' m'. ce_accept ok ?b ?s p m = Some (p', m') \<and> ((\<forall>n. ok n) \<longrightarrow> knows g' p') \<and>
      p_state p' = p_state p \<and> p_flags p' = p_flags p \<and> local_ip p' = local_ip p \<and> conn_cnt p' = conn_cnt p \<and> p_sock p' = p_sock p"
      by (rule ce_accept_spec [OF assms(1), of _ "h @ wire_avp ?a"]) (simp_all add: assms(4) l del: wire_avp.simps)
    then show ?thesis using f True by (auto simp: process_ce_def Let_def simp del: wire_avp.simps)
  next
    case False
    then show ?thesis using f by (simp add: process_ce_def Let_def del: wire_avp.simps)
  qed
qed

section \<open>An AVP without length\<close>

text \<open>The loop stands still at an AVP whose length field is 0.\<close>

definition stands_still :: "(u32 \<Rightarrow> nat \<Rightarrow> 's \<Rightarrow> ('r + 's) option) \<Rightarrow> bytes \<Rightarrow> nat \<Rightarrow> bool" where
  "stands_still body buf p \<longleftrightarrow> (\<exists>c w. p < length buf \<and> peek4 buf p = Some c \<and> peek4 buf (p + 4) = Some w \<and>
     get_avp_len w = 0 \<and> (\<forall>s. \<exists>s'. body c p s = Some (Inr s')))"

lemma for_all_AVPS_stuck: "stands_still body buf p \<Longrightarrow> for_all_AVPS body buf p s = None"
proof (rule ccontr)
  assume st: "stands_still body buf p" and "for_all_AVPS body buf p s \<noteq> None"
  then obtain r where "for_all_AVPS body buf p s = Some r" by blast
  from this have "\<not> stands_still body buf p"
  proof (rule for_all_AVPS.raw_induct [rotated, where P = "\<lambda>body buf p s r. \<not> stands_still body buf p"])
    fix rec :: "(u32 \<Rightarrow> nat \<Rightarrow> 's \<Rightarrow> ('r + 's) option) \<Rightarrow> bytes \<Rightarrow> nat \<Rightarrow> 's \<Rightarrow> ('r + 's) option option"
      and body :: "u32 \<Rightarrow> nat \<Rightarrow> 's \<Rightarrow> ('r + 's) option" and buf p s r
    assume IH: "\<And>body buf p s r. rec body buf p s = Some r \<Longrightarrow> \<not> stands_still body buf p"
      and b: "(if p < length buf then
        (case peek4 buf p of
           None \<Rightarrow> Some None
         | Some code \<Rightarrow>
             (case body code p s of
                None \<Rightarrow> Some None
              | Some (Inl r) \<Rightarrow> Some (Some (Inl r))
              | Some (Inr s') \<Rightarrow>
                  (case peek4 buf (p + 4) of
                     None \<Rightarrow> Some None
                   | Some w \<Rightarrow> rec body buf (p + unat (get_avp_len w)) s')))
      else Some (Some (Inr s))) = Some r"
    show "\<not> stands_still body buf p"
    proof
      assume st: "stands_still body buf p"
      then obtain c w s' where "p < length buf" "peek4 buf p = Some c" "peek4 buf (p + 4) = Some w"
        "get_avp_len w = 0" "body c p s = Some (Inr s')" unfolding stands_still_def by blast
      then have "rec body buf p s' = Some r" using b by simp
      from IH [OF this] st show False by simp
    qed
  qed
  then show False using st by simp
qed

section \<open>Properties\<close>

text \<open>
  (C16) Capabilities exchange between two nodes running this code, with configurations \<open>g\<close> and
  \<open>g'\<close>: the request that the first makes from its prepared buffers is read by the second without
  a read outside the message and with an end, and it is answered by success exactly when the
  second supports one of the applications that the first advertises (or one of them relays); the
  answer made from this code and the request is read by the first, which gets the same code. On
  success each side has stored the realm and the applications of the other.
\<close>

theorem capabilities_exchange:
  assumes "config_ok g" and "config_ok g'" and "apps_ok g" and "apps_ok g'"
    and "build_msg_buffers ok0 g t0 m0 = Some (1, t, m1)" and "build_msg_buffers ok0' g' t0' m0' = Some (1, t', m1')"
    and "addr_ok v6 p" and "addr_ok v6 p'" and "\<forall>n. ok n"
  shows "\<exists>cer cea q q' code k k'.
    Option.bind (make_cer v6 t p) (set_request_ids ete hop) = Some cer \<and>
    process_ce ok g' p' cer True n' = Some (Some (code, q', k')) \<and>
    Option.bind (make_cea v6 t' p') (set_response cer code) = Some cea \<and>
    process_ce ok g p cea False n = Some (Some (code, q, k)) \<and>
    peekn cea 12 8 = Some (le32 hop @ le32 ete) \<and>
    code = (if common_app g' g then AAA_SUCCESS else AAA_NO_COMMON_APPLICATION) \<and>
    (common_app g' g \<longrightarrow> knows g q' \<and> knows g' q)"
proof -
  have t: "buffers_of g t" and t': "buffers_of g' t'"
    using build_msg_buffers_spec [OF assms(1), of ok0 t0 m0] build_msg_buffers_spec [OF assms(2), of ok0' t0' m0'] assms(5,6)
    by auto
  let ?code = "if common_app g' g then AAA_SUCCESS else AAA_NO_COMMON_APPLICATION"
  let ?h = "wire_hdr 0x80 (20 + length (wire_avps (ce_avps v6 g p))) (tl (be32 257)) (replicate 4 0 @ le32 hop @ le32 ete)"
  let ?cer = "?h @ wire_avps (ce_avps v6 g p)"
  have h: "length ?h = 20" by simp
  have cer: "Option.bind (make_cer v6 t p) (set_request_ids ete hop) = Some ?cer"
    by (simp add: make_cer_spec [OF t assms(1,7)] set_request_ids_spec del: wire_avp.simps)
  from process_ce_request [OF assms(1,3,7) h, of ok g' p' n'] assms(9) obtain q' k' where
    q': "process_ce ok g' p' ?cer True n' = Some (Some (?code, q', k'))" "common_app g' g \<longrightarrow> knows g q'" by blast
  let ?n = "20 + length (wire_avps ((268, 0x40, be32 0) # ce_avps v6 g' p'))"
  let ?h' = "wire_hdr 0 ?n (take 3 (drop 5 ?h)) (drop 8 ?h)"
  let ?cea = "?h' @ wire_avps ((268, 0x40, be32 ?code) # ce_avps v6 g' p')"
  have n: "?n < 2 ^ 24" using length_ce_avps(1) [OF assms(2,8)] by (simp add: raw_len_def del: wire_avp.simps)
  have cea: "Option.bind (make_cea v6 t' p') (set_response ?cer ?code) = Some ?cea"
    using set_response_spec [OF n h] by (simp add: make_cea_spec [OF t' assms(8)] del: wire_avp.simps)
  have h': "length ?h' = 20" using h by (intro length_wire_hdr) simp_all
  from process_ce_answer [OF assms(2,4,8) h', of ok g p ?code n] assms(9) obtain q k where
    q: "process_ce ok g p ?cea False n = Some (Some (?code, q, k))" "?code = AAA_SUCCESS \<longrightarrow> knows g' q" by blast
  have "drop 12 ?h' = drop 4 (drop 8 ?h)" by (simp add: wire_hdr_def)
  also have "\<dots> = le32 hop @ le32 ete" by (simp add: wire_hdr_def)
  finally have i: "peekn ?cea 12 8 = Some (le32 hop @ le32 ete)" using h' by (simp add: peekn_def del: wire_avp.simps)
  show ?thesis
    by (rule exI [of _ ?cer], rule exI [of _ ?cea], rule exI [of _ q], rule exI [of _ q'], rule exI [of _ ?code],
        rule exI [of _ k], rule exI [of _ k'], intro conjI)
      (use cer q' cea q i in \<open>simp_all del: wire_avp.simps\<close>)
qed

definition sample_config :: config where
  "sample_config = \<lparr>cfg_identity = [97, 97, 97], cfg_realm = [102, 111, 111, 46, 111, 114, 103], product_name = [68],
     vendor_id = 7, do_relay = False, modules = [\<lparr>app_id = 4, mod_flags = DOES_AUTH\<rparr>]\<rparr>"

definition sample_peer :: peer where
  "sample_peer = \<lparr>aaa_identity = [98], aaa_host = [98], realm_s = NULL, realm_bytes = [], realm_len = 0,
     p_ip = \<lparr>ip_af6 = False, ip_bytes = [10, 0, 0, 2]\<rparr>, local_ip = \<lparr>ip_af6 = False, ip_bytes = [10, 0, 0, 1]\<rparr>,
     p_state = PEER_UNCONN, endtoendID = 5, p_flags = 0, p_fd = 3, p_sock = - 1, first_4bytes = 0, buf_len = 0,
     p_buf = (NULL, []), supp_auth_app_ids = (NULL, []), supp_acct_app_ids = (NULL, []), last_activ_time = 0, conn_cnt = 0\<rparr>"

definition empty_table :: p_table where
  "empty_table = \<lparr>trans_hash_size = 16, std_req = (NULL, []), std_ans = (NULL, []), ce_avp_ipv4 = (NULL, []),
     ce_avp_ipv6 = (NULL, []), dpr_avp = (NULL, [])\<rparr>"

lemma sample_ok: "config_ok sample_config" "apps_ok sample_config" "addr_ok True sample_peer"
  "common_app sample_config sample_config"
  by (simp_all add: config_ok_def sample_config_def origin_avps_def common_avps_def app_avps_def relay_avps_def
      raw_ok_def raw_len_def pad_len_def apps_ok_def advertised_def addr_ok_def sample_peer_def common_app_def
      supports_def find_module_def del: wire_avp.simps)

lemma sample_built:
  obtains t m where "build_msg_buffers (\<lambda>_. True) sample_config empty_table shm_init = Some (1, t, m)"
  using build_msg_buffers_spec [OF sample_ok(1), of "\<lambda>_. True" empty_table shm_init] by auto

theorem capabilities_exchange_witness:
  "\<exists>t m cer cea q q' k k'. build_msg_buffers (\<lambda>_. True) sample_config empty_table shm_init = Some (1, t, m) \<and>
    Option.bind (make_cer True t sample_peer) (set_request_ids 5 9) = Some cer \<and>
    process_ce (\<lambda>_. True) sample_config sample_peer cer True m = Some (Some (AAA_SUCCESS, q', k')) \<and>
    Option.bind (make_cea True t sample_peer) (set_response cer AAA_SUCCESS) = Some cea \<and>
    process_ce (\<lambda>_. True) sample_config sample_peer cea False m = Some (Some (AAA_SUCCESS, q, k)) \<and>
    knows sample_config q' \<and> knows sample_config q"
proof -
  obtain t m where t: "build_msg_buffers (\<lambda>_. True) sample_config empty_table shm_init = Some (1, t, m)"
    by (rule sample_built)
  show ?thesis
    using capabilities_exchange [OF sample_ok(1,1,2,2) t t sample_ok(3,3), of "\<lambda>_. True" 5 9 m m] sample_ok(4) t by auto
qed



text \<open>
  (C18) An AVP with length 0 stops the server: when the first AVP of a received base message has
  the length field 0 (and a code other than Result-Code or an application identifier), reading
  the message as a capabilities, watchdog or disconnect message never returns.
\<close>

theorem zero_length_avp:
  assumes "28 \<le> length buf" and "peek4 buf 20 = Some c" and "c \<notin> {258, 259, 268}"
    and "peek4 buf 24 = Some w" and "w AND 0x00ffffff = 0"
  shows "process_dw buf rq = None \<and> process_dp buf rq = None \<and> process_ce ok g p buf rq m = None"
proof -
  have l: "get_avp_len w = 0" using assms(5) by (simp add: get_avp_len_def to_32x_len_def)
  have "\<exists>s'. dw_body cause buf c 20 s = Some (Inr s')" for cause s
    using assms(3) by (auto simp: dw_body_def)
  then have "stands_still (dw_body cause buf) buf 20" for cause
    using assms l unfolding stands_still_def by auto
  moreover have "\<exists>s'. ce_body g buf c 20 s = Some (Inr s')" for s
    using assms(3) by (auto simp: ce_body_def Let_def)
  then have "stands_still (ce_body g buf) buf 20"
    using assms l unfolding stands_still_def by auto
  ultimately show ?thesis
    by (simp add: process_dw_def process_dp_def process_ce_def mask_result_def for_all_AVPS_stuck)
qed

theorem zero_length_avp_witness:
  "process_dw (replicate 20 0 @ be32 264 @ [0x40, 0, 0, 0]) True = None"
  using zero_length_avp [of "replicate 20 0 @ be32 264 @ [0x40, 0, 0, 0]" 264 "0x40000000" True]
  by (simp add: peek4_def be32_def of_be32_def nth_append)

end
