(* ===== verification/Peer_Machine.thy ===== *)
theory Peer_Machine
  imports Peer_Msg Transaction
begin

text \<open>
  The peer state machine of transport/peer.c with everything it calls: sending requests and
  answers, resetting a peer, dispatching received messages, the timer of the peers. The world
  holds the peers, the transactions (theory Transaction), the two timer lists and the list of
  active peers as sequences (Timer and List\_Head have their pointers), and logs what leaves the
  program: the bytes written to sockets, the commands written to the pipes of the receive
  threads, the messages put into the queue, the sockets closed. Each event is handled under the
  mutex of the peer, so it is one atomic step. The value None stands for undefined behaviour or
  a loop that never ends.
\<close>

section \<open>The world\<close>

datatype AAA_PEER_EVENT =
    TCP_ACCEPT
  | TCP_CONNECTED
  | TCP_CONN_IN_PROG
  | TCP_CONN_FAILED
  | TCP_CONN_CLOSE
  | CER_RECEIVED
  | CEA_RECEIVED
  | DWR_RECEIVED
  | DWA_RECEIVED
  | DPR_RECEIVED
  | DPA_RECEIVED
  | PEER_IS_INACTIV
  | PEER_HANGUP
  | PEER_TR_TIMEOUT
  | PEER_CER_TIMEOUT
  | PEER_RECONN_TIMEOUT

text \<open>What the untyped parameter of the state machine points to.\<close>

datatype peer_info = I_none | I_tcp int ip_addr | I_msg bytes | I_num u32

datatype command =
    SHUTDOWN_CMD
  | START_ACCEPT_CMD
  | CONNECT_CMD ptr
  | ACCEPTED_CMD int ptr
  | ADD_PEER_CMD ptr
  | INACTIVITY_CMD ptr
  | TIMEOUT_PEER_CMD AAA_PEER_EVENT ptr u32
  | CLOSE_CMD ptr

record peer_world =
  pw_peers :: "ptr \<Rightarrow> peer"
  pw_all :: "ptr list"
  pw_tr :: tr_world
  reconn_timer :: "(ptr \<times> u32) list"
  wait_cer_timer :: "(ptr \<times> u32) list"
  activ_peers :: "ptr list"
  pw_ticks :: u32
  pw_calls :: nat
  pw_writes :: "(int \<times> bytes) list"
  pw_cmds :: "(ptr \<times> command) list"
  pw_queue :: "(ptr \<times> bytes \<times> ptr) list"
  pw_closed :: "int list"

text \<open>
  The environment: which allocations succeed, what the \<open>n\<close>-th call of \<open>write\<close> on a socket
  returns, and the configuration with the prepared buffers.
\<close>

datatype write_result = W_eintr | W_error | W_bytes nat

record peer_env =
  env_ok :: "nat \<Rightarrow> bool"
  env_write :: "nat \<Rightarrow> write_result"
  env_ipv6 :: bool
  env_cfg :: config
  env_table :: p_table

abbreviation (input) PEER_TO_DESTROY :: u8 where "PEER_TO_DESTROY \<equiv> 1"
abbreviation (input) PEER_CONN_IN_PROG :: u8 where "PEER_CONN_IN_PROG \<equiv> 2"
abbreviation (input) RECONN_TIMEOUT :: u32 where "RECONN_TIMEOUT \<equiv> 120"
abbreviation (input) WAIT_CER_TIMEOUT :: u32 where "WAIT_CER_TIMEOUT \<equiv> 10"
abbreviation (input) SEND_DWR_TIMEOUT :: u32 where "SEND_DWR_TIMEOUT \<equiv> 35"

definition upd :: "ptr \<Rightarrow> (peer \<Rightarrow> peer) \<Rightarrow> peer_world \<Rightarrow> peer_world" where
  "upd p f w = w\<lparr>pw_peers := (pw_peers w)(p := f (pw_peers w p))\<rparr>"

definition set_state :: "ptr \<Rightarrow> AAA_PEER_STATE \<Rightarrow> peer_world \<Rightarrow> peer_world" where
  "set_state p st = upd p (\<lambda>x. x\<lparr>p_state := st\<rparr>)"

definition write_command :: "ptr \<Rightarrow> command \<Rightarrow> peer_world \<Rightarrow> peer_world" where
  "write_command fd c w = w\<lparr>pw_cmds := pw_cmds w @ [(fd, c)]\<rparr>"

definition peer_alloc :: "peer_env \<Rightarrow> peer_world \<Rightarrow> ptr \<times> peer_world" where
  "peer_alloc e w =
     (let (s, m) = shm_malloc (env_ok e) (tw_shm (pw_tr w)) in (s, w\<lparr>pw_tr := (pw_tr w)\<lparr>tw_shm := m\<rparr>\<rparr>))"

definition peer_free :: "ptr \<Rightarrow> peer_world \<Rightarrow> peer_world" where
  "peer_free s w = (if s \<noteq> NULL then w\<lparr>pw_tr := (pw_tr w)\<lparr>tw_shm := shm_free s (tw_shm (pw_tr w))\<rparr>\<rparr> else w)"

text \<open>A peer has one timer link, so it is in at most one of the two lists.\<close>

definition in_timer_list :: "ptr \<Rightarrow> peer_world \<Rightarrow> bool" where
  "in_timer_list p w \<longleftrightarrow> p \<in> fst ` set (reconn_timer w) \<or> p \<in> fst ` set (wait_cer_timer w)"

definition add_reconn :: "ptr \<Rightarrow> u32 \<Rightarrow> peer_world \<Rightarrow> peer_world" where
  "add_reconn p timeout w = (if in_timer_list p w then w else w\<lparr>reconn_timer := reconn_timer w @ [(p, timeout)]\<rparr>)"

definition add_wait_cer :: "ptr \<Rightarrow> u32 \<Rightarrow> peer_world \<Rightarrow> peer_world" where
  "add_wait_cer p timeout w = (if in_timer_list p w then w else w\<lparr>wait_cer_timer := wait_cer_timer w @ [(p, timeout)]\<rparr>)"

definition rmv_reconn :: "ptr \<Rightarrow> peer_world \<Rightarrow> peer_world" where
  "rmv_reconn p w = w\<lparr>reconn_timer := filter (\<lambda>x. fst x \<noteq> p) (reconn_timer w)\<rparr>"

definition rmv_wait_cer :: "ptr \<Rightarrow> peer_world \<Rightarrow> peer_world" where
  "rmv_wait_cer p w = w\<lparr>wait_cer_timer := filter (\<lambda>x. fst x \<noteq> p) (wait_cer_timer w)\<rparr>"

definition list_add_tail_safe :: "ptr \<Rightarrow> peer_world \<Rightarrow> peer_world" where
  "list_add_tail_safe p w = (if p \<in> set (activ_peers w) then w else w\<lparr>activ_peers := activ_peers w @ [p]\<rparr>)"

definition list_del_safe :: "ptr \<Rightarrow> peer_world \<Rightarrow> peer_world" where
  "list_del_safe p w = w\<lparr>activ_peers := filter (\<lambda>q. q \<noteq> p) (activ_peers w)\<rparr>"

definition tcp_close :: "ptr \<Rightarrow> peer_world \<Rightarrow> peer_world" where
  "tcp_close p w = w\<lparr>pw_closed := pw_closed w @ [p_sock (pw_peers w p)]\<rparr>"

section \<open>Sending\<close>

definition write_failed :: "ptr \<Rightarrow> peer_world \<Rightarrow> peer_world" where
  "write_failed p w = write_command (p_fd (pw_peers w p)) (CLOSE_CMD p) (set_state p PEER_ERROR w)"

partial_function (option) safe_write :: "peer_env \<Rightarrow> ptr \<Rightarrow> bytes \<Rightarrow> peer_world \<Rightarrow> (int \<times> peer_world) option" where
  "safe_write e p buf w =
     (case env_write e (pw_calls w) of
        W_eintr \<Rightarrow> safe_write e p buf (w\<lparr>pw_calls := Suc (pw_calls w)\<rparr>)
      | W_error \<Rightarrow> Some (- 1, write_failed p (w\<lparr>pw_calls := Suc (pw_calls w)\<rparr>))
      | W_bytes n \<Rightarrow>
          (let w1 = w\<lparr>pw_calls := Suc (pw_calls w), pw_writes := pw_writes w @ [(p_sock (pw_peers w p), take n buf)]\<rparr>
           in Some (1, if n \<noteq> length buf then write_failed p w1 else w1)))"

text \<open>
  The identifiers are taken from the buffer when a request is forwarded, and generated
  otherwise; \<open>req\<close> is the buffer that the transaction points to.
\<close>

definition send_req_to_peer :: "peer_env \<Rightarrow> ptr \<Rightarrow> bytes \<Rightarrow> ptr \<Rightarrow> peer_world \<Rightarrow> (int \<times> peer_world) option" where
  "send_req_to_peer e tr req p w =
     (if p_state (pw_peers w p) \<noteq> PEER_CONN \<and> p_state (pw_peers w p) \<noteq> PEER_WAIT_DWA then Some (- 1, w)
      else do {
        t \<leftarrow> tw_trans (pw_tr w) tr;
        (ete, req, w) \<leftarrow> (if tr_in_peer t \<noteq> NULL then do { ete \<leftarrow> peek4le req 16; Some (ete, req, w) }
          else let ete = endtoendID (pw_peers w p)
            in do { req \<leftarrow> poke 16 (le32 ete) req; Some (ete, req, upd p (\<lambda>x. x\<lparr>endtoendID := ete + 1\<rparr>) w) });
        (hop, tw) \<leftarrow> link_transaction (pw_ticks w) p ete tr (pw_tr w);
        req \<leftarrow> poke 12 (le32 hop) req;
        (r, w) \<leftarrow> safe_write e p req (w\<lparr>pw_tr := tw\<rparr>);
        Some (1, w)
      })"

definition send_res_to_peer :: "peer_env \<Rightarrow> bytes \<Rightarrow> ptr \<Rightarrow> peer_world \<Rightarrow> (int \<times> peer_world) option" where
  "send_res_to_peer e buf p w =
     (if p_state (pw_peers w p) = PEER_CONN \<or> p_state (pw_peers w p) = PEER_WAIT_DWA
      then do { (r, w) \<leftarrow> safe_write e p buf w; Some (if r \<noteq> - 1 then 1 else - 1, w) }
      else Some (- 1, w))"

text \<open>The timeout function of the requests that peers send by themselves.\<close>

abbreviation (input) peer_trans_timeout_ptr :: ptr where "peer_trans_timeout_ptr \<equiv> 1"

definition peer_trans_timeout_f :: "trans \<Rightarrow> peer_world \<Rightarrow> peer_world" where
  "peer_trans_timeout_f tr w =
     write_command (p_fd (pw_peers w (tr_out_peer tr))) (TIMEOUT_PEER_CMD PEER_TR_TIMEOUT (tr_out_peer tr) (tr_info tr)) w"

definition internal_send_request :: "peer_env \<Rightarrow> bytes \<Rightarrow> ptr \<Rightarrow> peer_world \<Rightarrow> (int \<times> peer_world) option" where
  "internal_send_request e buf p w =
     (let (tr, tw) = create_transaction (env_ok e) NULL NULL peer_trans_timeout_ptr (pw_tr w)
      in if tr = NULL then Some (- 1, w\<lparr>pw_tr := tw\<rparr>)
         else do {
           t \<leftarrow> tw_trans tw tr;
           let tw = set_trans tr (t\<lparr>tr_info := conn_cnt (pw_peers w p), tr_out_peer := p\<rparr>) tw;
           let ete = endtoendID (pw_peers w p);
           let w = upd p (\<lambda>x. x\<lparr>endtoendID := ete + 1\<rparr>) w;
           (hop, tw) \<leftarrow> link_transaction (pw_ticks w) p ete tr tw;
           buf \<leftarrow> set_request_ids ete hop buf;
           (r, w) \<leftarrow> safe_write e p buf (w\<lparr>pw_tr := tw\<rparr>);
           Some (1, w)
         })"

definition internal_send_response :: "peer_env \<Rightarrow> bytes \<Rightarrow> bytes \<Rightarrow> u32 \<Rightarrow> ptr \<Rightarrow> peer_world \<Rightarrow> (int \<times> peer_world) option" where
  "internal_send_response e res req code p w = do {
     res \<leftarrow> set_response req code res;
     (r, w) \<leftarrow> safe_write e p res w;
     Some (if r = - 1 then - 1 else 1, w)
   }"

text \<open>
  The six messages: a buffer is allocated, filled by \<open>mk\<close>, sent by \<open>send\<close> and freed.
\<close>

definition send_buffer :: "peer_env \<Rightarrow> bytes option \<Rightarrow> (bytes \<Rightarrow> peer_world \<Rightarrow> (int \<times> peer_world) option) \<Rightarrow>
    peer_world \<Rightarrow> (int \<times> peer_world) option" where
  "send_buffer e mk send w =
     (let (s, w) = peer_alloc e w
      in if s = NULL then Some (- 1, w)
         else do {
           buf \<leftarrow> mk;
           (r, w) \<leftarrow> send buf w;
           Some (r, peer_free s w)
         })"

definition send_cer :: "peer_env \<Rightarrow> ptr \<Rightarrow> peer_world \<Rightarrow> (int \<times> peer_world) option" where
  "send_cer e p w = send_buffer e (make_cer (env_ipv6 e) (env_table e) (pw_peers w p)) (\<lambda>b. internal_send_request e b p) w"

definition send_cea :: "peer_env \<Rightarrow> bytes \<Rightarrow> u32 \<Rightarrow> ptr \<Rightarrow> peer_world \<Rightarrow> (int \<times> peer_world) option" where
  "send_cea e cer code p w =
     send_buffer e (make_cea (env_ipv6 e) (env_table e) (pw_peers w p)) (\<lambda>b. internal_send_response e b cer code p) w"

definition send_dwr :: "peer_env \<Rightarrow> ptr \<Rightarrow> peer_world \<Rightarrow> (int \<times> peer_world) option" where
  "send_dwr e p w = send_buffer e (make_dwr (env_table e)) (\<lambda>b. internal_send_request e b p) w"

definition send_dwa :: "peer_env \<Rightarrow> bytes \<Rightarrow> u32 \<Rightarrow> ptr \<Rightarrow> peer_world \<Rightarrow> (int \<times> peer_world) option" where
  "send_dwa e dwr code p w =
     send_buffer e (Some (snd (std_ans (env_table e)))) (\<lambda>b. internal_send_response e b dwr code p) w"

definition send_dpr :: "peer_env \<Rightarrow> ptr \<Rightarrow> u32 \<Rightarrow> peer_world \<Rightarrow> (int \<times> peer_world) option" where
  "send_dpr e p cause w = send_buffer e (make_dpr (env_table e) cause) (\<lambda>b. internal_send_request e b p) w"

definition send_dpa :: "peer_env \<Rightarrow> bytes \<Rightarrow> u32 \<Rightarrow> ptr \<Rightarrow> peer_world \<Rightarrow> (int \<times> peer_world) option" where
  "send_dpa e dpr code p w =
     send_buffer e (Some (snd (std_ans (env_table e)))) (\<lambda>b. internal_send_response e b dpr code p) w"

section \<open>The state machine\<close>

text \<open>\<open>!p->flags&PEER_TO_DESTROY\<close> is \<open>(!p->flags)&1\<close>: true when no flag at all is set.\<close>

definition no_flags :: "peer \<Rightarrow> bool" where
  "no_flags x \<longleftrightarrow> (if p_flags x = 0 then 1 else 0 :: u8) AND PEER_TO_DESTROY \<noteq> 0"

definition reset_fields :: "peer \<Rightarrow> peer" where
  "reset_fields x = x\<lparr>first_4bytes := 0, buf_len := 0, p_buf := (NULL, []), supp_acct_app_ids := (NULL, []),
     supp_auth_app_ids := (NULL, []), realm_s := NULL, realm_bytes := [], conn_cnt := conn_cnt x + 1\<rparr>"

definition reset_peer :: "ptr \<Rightarrow> peer_world \<Rightarrow> peer_world" where
  "reset_peer p w =
     (let w = rmv_reconn p (rmv_wait_cer p w);
          w = upd p (\<lambda>x. x\<lparr>p_sock := - 1, p_flags := p_flags x AND PEER_TO_DESTROY\<rparr>) w;
          w = (if no_flags (pw_peers w p) then add_reconn p (pw_ticks w + RECONN_TIMEOUT) w else w);
          w = list_del_safe p w;
          w = peer_free (fst (p_buf (pw_peers w p))) w;
          w = peer_free (fst (supp_acct_app_ids (pw_peers w p))) w;
          w = peer_free (fst (supp_auth_app_ids (pw_peers w p))) w;
          w = peer_free (realm_s (pw_peers w p)) w
      in upd p reset_fields w)"

definition close_and_reset :: "ptr \<Rightarrow> peer_world \<Rightarrow> peer_world" where
  "close_and_reset p w = set_state p PEER_UNCONN (reset_peer p (tcp_close p w))"

definition run_process_ce :: "peer_env \<Rightarrow> ptr \<Rightarrow> bytes \<Rightarrow> bool \<Rightarrow> peer_world \<Rightarrow> (u32 \<times> peer_world) option" where
  "run_process_ce e p buf is_rq w = do {
     r \<leftarrow> process_ce (env_ok e) (env_cfg e) (pw_peers w p) buf is_rq (tw_shm (pw_tr w));
     (code, x, m) \<leftarrow> r;
     Some (code, (upd p (\<lambda>_. x) w)\<lparr>pw_tr := (pw_tr w)\<lparr>tw_shm := m\<rparr>\<rparr>)
   }"

definition sm_tcp_accept :: "ptr \<Rightarrow> int \<Rightarrow> ip_addr \<Rightarrow> peer_world \<Rightarrow> int \<times> peer_world" where
  "sm_tcp_accept p sock ip w =
     (if p_state (pw_peers w p) = PEER_UNCONN then
        (let w = rmv_reconn p w;
             w = (if p_flags (pw_peers w p) AND PEER_CONN_IN_PROG \<noteq> 0 then tcp_close p w else w);
             w = upd p (\<lambda>x. x\<lparr>p_sock := sock, local_ip := ip\<rparr>) w;
             w = add_wait_cer p (pw_ticks w + WAIT_CER_TIMEOUT) w
         in (1, set_state p PEER_WAIT_CER w))
      else (- 1, w))"

text \<open>\<open>p->flags &= !PEER_CONN_IN_PROG\<close> is \<open>&= (!1)<<1\<close>, which clears every flag.\<close>

definition sm_tcp_connected :: "peer_env \<Rightarrow> ptr \<Rightarrow> int \<Rightarrow> ip_addr \<Rightarrow> peer_world \<Rightarrow> (int \<times> peer_world) option" where
  "sm_tcp_connected e p sock ip w =
     (if p_state (pw_peers w p) = PEER_UNCONN then do {
        let w = upd p (\<lambda>x. x\<lparr>p_flags := p_flags x AND 0, p_sock := sock, local_ip := ip\<rparr>) w;
        (r, w) \<leftarrow> send_cer e p w;
        Some (1, if r \<noteq> - 1 then set_state p PEER_WAIT_CEA w else reset_peer p (tcp_close p w))
      } else Some (- 1, w))"

definition sm_tcp_conn_in_prog :: "ptr \<Rightarrow> int \<Rightarrow> peer_world \<Rightarrow> int \<times> peer_world" where
  "sm_tcp_conn_in_prog p sock w =
     (if p_state (pw_peers w p) = PEER_UNCONN
      then (1, upd p (\<lambda>x. x\<lparr>p_sock := sock, p_flags := p_flags x OR PEER_CONN_IN_PROG\<rparr>) w)
      else (- 1, w))"

definition sm_tcp_conn_failed :: "ptr \<Rightarrow> peer_world \<Rightarrow> int \<times> peer_world" where
  "sm_tcp_conn_failed p w =
     (if p_state (pw_peers w p) = PEER_UNCONN then (1, set_state p PEER_UNCONN (reset_peer p w)) else (- 1, w))"

definition sm_tcp_conn_close :: "ptr \<Rightarrow> peer_world \<Rightarrow> int \<times> peer_world" where
  "sm_tcp_conn_close p w =
     (1, if p_state (pw_peers w p) \<noteq> PEER_UNCONN \<or> p_flags (pw_peers w p) AND PEER_CONN_IN_PROG \<noteq> 0
         then close_and_reset p w else w)"

definition sm_cer_timeout :: "ptr \<Rightarrow> peer_world \<Rightarrow> int \<times> peer_world" where
  "sm_cer_timeout p w =
     (if p_state (pw_peers w p) = PEER_WAIT_CER then (1, close_and_reset p w) else (- 1, w))"

definition sm_reconn_timeout :: "ptr \<Rightarrow> peer_world \<Rightarrow> int \<times> peer_world" where
  "sm_reconn_timeout p w =
     (if p_state (pw_peers w p) = PEER_UNCONN
      then let w = (if p_flags (pw_peers w p) AND PEER_CONN_IN_PROG \<noteq> 0 then tcp_close p w else w)
           in (1, write_command (p_fd (pw_peers w p)) (CONNECT_CMD p) w)
      else (1, w))"

definition sm_tr_timeout :: "ptr \<Rightarrow> u32 \<Rightarrow> peer_world \<Rightarrow> int \<times> peer_world" where
  "sm_tr_timeout p cnt w =
     (if cnt \<noteq> conn_cnt (pw_peers w p) then (1, w)
      else case p_state (pw_peers w p) of
        PEER_WAIT_DWA \<Rightarrow> (1, close_and_reset p (list_del_safe p w))
      | PEER_WAIT_CEA \<Rightarrow> (1, close_and_reset p w)
      | PEER_WAIT_DPA \<Rightarrow> (1, close_and_reset p w)
      | _ \<Rightarrow> (- 1, w))"

definition connected :: "ptr \<Rightarrow> peer_world \<Rightarrow> peer_world" where
  "connected p w = set_state p PEER_CONN (list_add_tail_safe p w)"

definition sm_cea_received :: "peer_env \<Rightarrow> ptr \<Rightarrow> bytes \<Rightarrow> peer_world \<Rightarrow> (int \<times> peer_world) option" where
  "sm_cea_received e p buf w =
     (if p_state (pw_peers w p) = PEER_WAIT_CEA then do {
        (code, w) \<leftarrow> run_process_ce e p buf False w;
        Some (1, if code \<noteq> AAA_SUCCESS then close_and_reset p w else connected p w)
      } else Some (- 1, w))"

definition sm_cer_received :: "peer_env \<Rightarrow> ptr \<Rightarrow> bytes \<Rightarrow> peer_world \<Rightarrow> (int \<times> peer_world) option" where
  "sm_cer_received e p buf w =
     (if p_state (pw_peers w p) = PEER_WAIT_CER \<or> p_state (pw_peers w p) = PEER_WAIT_CEA then do {
        let w = (if p_state (pw_peers w p) = PEER_WAIT_CER then rmv_wait_cer p w else w);
        (code, w) \<leftarrow> run_process_ce e p buf True w;
        (r, w) \<leftarrow> send_cea e buf code p w;
        Some (1, if r = - 1 \<or> code \<noteq> AAA_SUCCESS then close_and_reset p w else connected p w)
      } else Some (- 1, w))"

definition sm_dwr_received :: "peer_env \<Rightarrow> ptr \<Rightarrow> bytes \<Rightarrow> peer_world \<Rightarrow> (int \<times> peer_world) option" where
  "sm_dwr_received e p buf w =
     (if p_state (pw_peers w p) \<in> {PEER_CONN, PEER_WAIT_DWA, PEER_WAIT_DPA} then do {
        r \<leftarrow> process_dw buf True;
        r \<leftarrow> r;
        let res = (if r = - 1 then AAA_MISSING_AVP else AAA_SUCCESS);
        (s, w) \<leftarrow> send_dwa e buf res p w;
        Some (1, if s = - 1 \<or> res \<noteq> AAA_SUCCESS then close_and_reset p w else w)
      } else Some (- 1, w))"

definition sm_is_inactiv :: "peer_env \<Rightarrow> ptr \<Rightarrow> peer_world \<Rightarrow> (int \<times> peer_world) option" where
  "sm_is_inactiv e p w =
     (if p_state (pw_peers w p) = PEER_CONN then
        (if last_activ_time (pw_peers w p) + SEND_DWR_TIMEOUT \<le> pw_ticks w then do {
           (r, w) \<leftarrow> send_dwr e p w;
           Some (1, if r = - 1 then w else set_state p PEER_WAIT_DWA w)
         } else Some (1, list_add_tail_safe p w))
      else Some (- 1, list_add_tail_safe p w))"

definition sm_dwa_received :: "ptr \<Rightarrow> bytes \<Rightarrow> peer_world \<Rightarrow> (int \<times> peer_world) option" where
  "sm_dwa_received p buf w =
     (if p_state (pw_peers w p) = PEER_WAIT_DWA then do {
        r \<leftarrow> process_dw buf False;
        r \<leftarrow> r;
        Some (1, connected p w)
      } else Some (- 1, w))"

definition sm_dpr_received :: "peer_env \<Rightarrow> ptr \<Rightarrow> bytes \<Rightarrow> peer_world \<Rightarrow> (int \<times> peer_world) option" where
  "sm_dpr_received e p buf w =
     (if p_state (pw_peers w p) \<in> {PEER_CONN, PEER_WAIT_DWA, PEER_WAIT_DPA} then do {
        let w = list_del_safe p w;
        r \<leftarrow> process_dp buf True;
        r \<leftarrow> r;
        (s, w) \<leftarrow> send_dpa e buf (if r = - 1 then AAA_MISSING_AVP else AAA_SUCCESS) p w;
        Some (1, close_and_reset p w)
      } else Some (- 1, w))"

definition sm_dpa_received :: "ptr \<Rightarrow> peer_world \<Rightarrow> int \<times> peer_world" where
  "sm_dpa_received p w =
     (if p_state (pw_peers w p) = PEER_WAIT_DPA then (1, close_and_reset p w) else (- 1, w))"

definition sm_hangup :: "peer_env \<Rightarrow> ptr \<Rightarrow> u32 \<Rightarrow> peer_world \<Rightarrow> (int \<times> peer_world) option" where
  "sm_hangup e p cause w =
     (if p_state (pw_peers w p) = PEER_CONN then do {
        let w = list_del_safe p w;
        (r, w) \<leftarrow> send_dpr e p cause w;
        Some (1, if r = - 1 then close_and_reset p w else set_state p PEER_WAIT_DPA w)
      } else Some (- 1, w))"

text \<open>The last equation: an event whose parameter is not what the event requires.\<close>

fun peer_event :: "peer_env \<Rightarrow> ptr \<Rightarrow> AAA_PEER_EVENT \<Rightarrow> peer_info \<Rightarrow> peer_world \<Rightarrow> (int \<times> peer_world) option" where
  "peer_event e p TCP_ACCEPT (I_tcp sock ip) w = Some (sm_tcp_accept p sock ip w)"
| "peer_event e p TCP_CONNECTED (I_tcp sock ip) w = sm_tcp_connected e p sock ip w"
| "peer_event e p TCP_CONN_IN_PROG (I_tcp sock ip) w = Some (sm_tcp_conn_in_prog p sock w)"
| "peer_event e p TCP_CONN_FAILED i w = Some (sm_tcp_conn_failed p w)"
| "peer_event e p TCP_CONN_CLOSE i w = Some (sm_tcp_conn_close p w)"
| "peer_event e p PEER_CER_TIMEOUT i w = Some (sm_cer_timeout p w)"
| "peer_event e p PEER_RECONN_TIMEOUT i w = Some (sm_reconn_timeout p w)"
| "peer_event e p PEER_TR_TIMEOUT (I_num cnt) w = Some (sm_tr_timeout p cnt w)"
| "peer_event e p CEA_RECEIVED (I_msg buf) w = sm_cea_received e p buf w"
| "peer_event e p CER_RECEIVED (I_msg buf) w = sm_cer_received e p buf w"
| "peer_event e p DWR_RECEIVED (I_msg buf) w = sm_dwr_received e p buf w"
| "peer_event e p PEER_IS_INACTIV i w = sm_is_inactiv e p w"
| "peer_event e p DWA_RECEIVED (I_msg buf) w = sm_dwa_received p buf w"
| "peer_event e p DPR_RECEIVED (I_msg buf) w = sm_dpr_received e p buf w"
| "peer_event e p DPA_RECEIVED i w = Some (sm_dpa_received p w)"
| "peer_event e p PEER_HANGUP (I_num cause) w = sm_hangup e p cause w"
| "peer_event e p ev i w = None"

definition peer_state_machine :: "peer_env \<Rightarrow> ptr \<Rightarrow> AAA_PEER_EVENT \<Rightarrow> peer_info \<Rightarrow> peer_world \<Rightarrow> (int \<times> peer_world) option" where
  "peer_state_machine e p ev i w = (if p = NULL then Some (- 1, w) else peer_event e p ev i w)"

section \<open>Received messages and the timer\<close>

definition put_in_queue :: "ptr \<times> bytes \<Rightarrow> ptr \<Rightarrow> peer_world \<Rightarrow> peer_world" where
  "put_in_queue buf p w = w\<lparr>pw_queue := pw_queue w @ [(fst buf, snd buf, p)]\<rparr>"

definition base_event :: "u32 \<Rightarrow> (AAA_PEER_EVENT \<times> AAA_PEER_EVENT) option" where
  "base_event code =
     (if code = CE_MSG_CODE then Some (CER_RECEIVED, CEA_RECEIVED)
      else if code = DW_MSG_CODE then Some (DWR_RECEIVED, DWA_RECEIVED)
      else if code = DP_MSG_CODE then Some (DPR_RECEIVED, DPA_RECEIVED)
      else None)"

definition dispatch_message :: "peer_env \<Rightarrow> ptr \<Rightarrow> ptr \<times> bytes \<Rightarrow> peer_world \<Rightarrow> peer_world option" where
  "dispatch_message e p buf w = do {
     let w = upd p (\<lambda>x. x\<lparr>last_activ_time := pw_ticks w\<rparr>) w;
     word \<leftarrow> peek4le (snd buf) 4;
     case base_event (word AND MASK_MSG_CODE) of
       None \<Rightarrow> Some (put_in_queue buf p w)
     | Some (request, answer) \<Rightarrow> do {
         fl \<leftarrow> peek (snd buf) 4;
         w \<leftarrow> (if fl AND 0x80 \<noteq> 0 then map_option snd (peer_state_machine e p request (I_msg (snd buf)) w)
           else do {
             ete \<leftarrow> peek4le (snd buf) 16;
             hop \<leftarrow> peek4le (snd buf) 12;
             (tr, tw) \<leftarrow> transaction_lookup p ete hop (pw_tr w);
             if tr = NULL then Some (w\<lparr>pw_tr := tw\<rparr>)
             else do {
               tw \<leftarrow> destroy_transaction tr tw;
               map_option snd (peer_state_machine e p answer (I_msg (snd buf)) (w\<lparr>pw_tr := tw\<rparr>))
             }
           });
         Some (peer_free (fst buf) w)
       }
   }"

definition peer_timer_handler :: "u32 \<Rightarrow> peer_world \<Rightarrow> peer_world" where
  "peer_timer_handler ticks w =
     (let due = (\<lambda>x. snd x \<le> ticks);
          reconn = map fst (takeWhile due (reconn_timer w));
          w = w\<lparr>reconn_timer := dropWhile due (reconn_timer w)\<rparr>;
          w = fold (\<lambda>p w. if no_flags (pw_peers w p)
                then write_command (p_fd (pw_peers w p)) (TIMEOUT_PEER_CMD PEER_RECONN_TIMEOUT p 0) w else w) reconn w;
          cer = map fst (takeWhile due (wait_cer_timer w));
          w = w\<lparr>wait_cer_timer := dropWhile due (wait_cer_timer w)\<rparr>;
          w = fold (\<lambda>p w. write_command (p_fd (pw_peers w p)) (TIMEOUT_PEER_CMD PEER_CER_TIMEOUT p 0) w) cer w;
          idle = (\<lambda>p. last_activ_time (pw_peers w p) + SEND_DWR_TIMEOUT \<le> ticks);
          inactiv = takeWhile idle (activ_peers w);
          w = w\<lparr>activ_peers := dropWhile idle (activ_peers w)\<rparr>
      in fold (\<lambda>p w. write_command (p_fd (pw_peers w p)) (INACTIVITY_CMD p) w) inactiv w)"

section \<open>Looking up peers\<close>

definition lookup_peer_by_identity :: "bytes \<Rightarrow> peer_world \<Rightarrow> ptr" where
  "lookup_peer_by_identity aaa_id w =
     (case find (\<lambda>p. length aaa_id = length (aaa_identity (pw_peers w p)) \<and>
        strncasecmp_eq aaa_id (aaa_identity (pw_peers w p))) (pw_all w) of None \<Rightarrow> NULL | Some p \<Rightarrow> p)"

definition lookup_peer_by_ip :: "ip_addr \<Rightarrow> peer_world \<Rightarrow> ptr" where
  "lookup_peer_by_ip ip w =
     (case find (\<lambda>p. ip_af6 ip = ip_af6 (p_ip (pw_peers w p)) \<and> ip_bytes ip = ip_bytes (p_ip (pw_peers w p))) (pw_all w) of
        None \<Rightarrow> NULL | Some p \<Rightarrow> p)"

text \<open>The search in an array ended by 0; reading through a null pointer is the value None.\<close>

definition app_listed :: "ptr \<times> u32 list \<Rightarrow> u32 \<Rightarrow> bool option" where
  "app_listed ids appid = (if fst ids = NULL then None else Some (appid \<in> set (takeWhile (\<lambda>i. i \<noteq> 0) (snd ids))))"

text \<open>
  The loop does not stop at the first peer found: the result is the last peer that matches. The
  length of the realm is compared with the stored length less one.
\<close>

fun realm_appid_loop :: "ptr list \<Rightarrow> bytes \<Rightarrow> u32 \<Rightarrow> peer_world \<Rightarrow> ptr \<Rightarrow> ptr option" where
  "realm_appid_loop [] realm appid w res = Some res"
| "realm_appid_loop (p # ps) realm appid w res =
     (let x = pw_peers w p
      in if of_nat (length realm) = realm_len x - 1 then
           (if realm \<noteq> [] \<and> realm_s x = NULL then None
            else if strncasecmp_eq realm (take (length realm) (realm_bytes x)) then do {
              a \<leftarrow> app_listed (supp_auth_app_ids x) appid;
              b \<leftarrow> app_listed (supp_acct_app_ids x) appid;
              realm_appid_loop ps realm appid w (if a \<or> b then p else res)
            }
            else realm_appid_loop ps realm appid w res)
         else realm_appid_loop ps realm appid w res)"

definition lookup_peer_by_realm_appid :: "bytes \<Rightarrow> u32 \<Rightarrow> peer_world \<Rightarrow> ptr option" where
  "lookup_peer_by_realm_appid realm appid w = realm_appid_loop (pw_all w) realm appid w NULL"

section \<open>Adding a peer\<close>

text \<open>
  \<open>resolve\<close> is \<open>resolvehost\<close>, \<open>fd\<close> the pipe that \<open>get_new_receive_thread\<close> returns, \<open>seed\<close> what \<open>time\<close>
  and \<open>rand\<close> give, \<open>lock_ok\<close> whether the lock of the peer can be created. The table of transactions
  is not checked: when it cannot be built, any later use of it is undefined.
\<close>

definition fresh_peer :: "bytes \<Rightarrow> bytes \<Rightarrow> ip_addr \<Rightarrow> ptr \<Rightarrow> u32 \<times> u32 \<Rightarrow> peer" where
  "fresh_peer identity host ip fd seed = \<lparr>aaa_identity = map to_lower identity, aaa_host = map to_lower host,
     realm_s = NULL, realm_bytes = [], realm_len = 0, p_ip = ip, local_ip = \<lparr>ip_af6 = False, ip_bytes = []\<rparr>,
     p_state = PEER_UNCONN, endtoendID = push_bit 20 (fst seed) OR drop_bit 12 (snd seed), p_flags = 0, p_fd = fd,
     p_sock = 0, first_4bytes = 0, buf_len = 0, p_buf = (NULL, []), supp_auth_app_ids = (NULL, []),
     supp_acct_app_ids = (NULL, []), last_activ_time = 0, conn_cnt = 0\<rparr>"

definition add_peer :: "peer_env \<Rightarrow> (bytes \<Rightarrow> ip_addr option) \<Rightarrow> bool \<Rightarrow> bool \<Rightarrow> (nat \<Rightarrow> u32 \<times> u32) \<Rightarrow> ptr \<Rightarrow> u32 \<times> u32 \<Rightarrow>
    bytes \<Rightarrow> bytes \<Rightarrow> peer_world \<Rightarrow> ptr \<times> peer_world" where
  "add_peer e resolve lock_ok table_locks table_seed fd seed identity host w =
     (if host = [] \<or> identity = [] then (NULL, w)
      else let (p, w) = peer_alloc e w
        in if p = NULL then (NULL, w)
           else if \<not> lock_ok then (NULL, peer_free p w)
           else case resolve (map to_lower host) of
             None \<Rightarrow> (NULL, peer_free p w)
           | Some ip \<Rightarrow>
               let w = upd p (\<lambda>_. fresh_peer identity host ip fd seed) w;
                   (table, m) = build_htable (env_ok e) table_locks table_seed (trans_hash_size (env_table e)) (tw_shm (pw_tr w));
                   t = (case table of None \<Rightarrow> \<lparr>hash_size = 0, entrys = []\<rparr> | Some t \<Rightarrow> t);
                   w = w\<lparr>pw_tr := set_table p t ((pw_tr w)\<lparr>tw_shm := m\<rparr>), pw_all := pw_all w @ [p]\<rparr>
               in (p, write_command fd (ADD_PEER_CMD p) w))"

section \<open>What the operations leave alone\<close>

lemma upd_simps [simp]:
  "pw_peers (upd p f w) q = (if q = p then f (pw_peers w p) else pw_peers w q)"
  "pw_tr (upd p f w) = pw_tr w" "reconn_timer (upd p f w) = reconn_timer w"
  "wait_cer_timer (upd p f w) = wait_cer_timer w" "activ_peers (upd p f w) = activ_peers w"
  "pw_ticks (upd p f w) = pw_ticks w" "pw_cmds (upd p f w) = pw_cmds w" "pw_calls (upd p f w) = pw_calls w"
  "pw_writes (upd p f w) = pw_writes w" "pw_queue (upd p f w) = pw_queue w" "pw_closed (upd p f w) = pw_closed w"
  by (simp_all add: upd_def)

lemma write_command_simps [simp]:
  "pw_peers (write_command fd c w) = pw_peers w" "pw_tr (write_command fd c w) = pw_tr w"
  "reconn_timer (write_command fd c w) = reconn_timer w" "wait_cer_timer (write_command fd c w) = wait_cer_timer w"
  "activ_peers (write_command fd c w) = activ_peers w" "pw_ticks (write_command fd c w) = pw_ticks w"
  "pw_writes (write_command fd c w) = pw_writes w" "pw_cmds (write_command fd c w) = pw_cmds w @ [(fd, c)]"
  "pw_calls (write_command fd c w) = pw_calls w"
  by (simp_all add: write_command_def)

lemma peer_free_simps [simp]:
  "pw_peers (peer_free s w) = pw_peers w" "reconn_timer (peer_free s w) = reconn_timer w"
  "wait_cer_timer (peer_free s w) = wait_cer_timer w" "activ_peers (peer_free s w) = activ_peers w"
  "pw_ticks (peer_free s w) = pw_ticks w" "pw_writes (peer_free s w) = pw_writes w" "pw_cmds (peer_free s w) = pw_cmds w"
  "tw_trans (pw_tr (peer_free s w)) = tw_trans (pw_tr w)" "tw_tables (pw_tr (peer_free s w)) = tw_tables (pw_tr w)"
  "tw_timer (pw_tr (peer_free s w)) = tw_timer (pw_tr w)"
  by (simp_all add: peer_free_def)

lemma list_op_simps [simp]:
  "pw_peers (rmv_reconn p w) = pw_peers w" "pw_peers (rmv_wait_cer p w) = pw_peers w"
  "pw_peers (add_reconn p n w) = pw_peers w" "pw_peers (add_wait_cer p n w) = pw_peers w"
  "pw_peers (list_add_tail_safe p w) = pw_peers w" "pw_peers (list_del_safe p w) = pw_peers w"
  "pw_peers (tcp_close p w) = pw_peers w" "pw_ticks (rmv_reconn p w) = pw_ticks w" "pw_ticks (rmv_wait_cer p w) = pw_ticks w"
  "pw_ticks (tcp_close p w) = pw_ticks w" "pw_ticks (list_del_safe p w) = pw_ticks w"
  "pw_tr (rmv_reconn p w) = pw_tr w" "pw_tr (rmv_wait_cer p w) = pw_tr w" "pw_tr (list_add_tail_safe p w) = pw_tr w"
  "pw_tr (list_del_safe p w) = pw_tr w" "pw_tr (tcp_close p w) = pw_tr w"
  by (simp_all add: rmv_reconn_def rmv_wait_cer_def add_reconn_def add_wait_cer_def list_add_tail_safe_def
      list_del_safe_def tcp_close_def)

text \<open>Sending changes at most the state and the identifier counter of the peer.\<close>

definition pending :: "command \<Rightarrow> peer_world \<Rightarrow> bool" where
  "pending c w \<longleftrightarrow> c \<in> snd ` set (pw_cmds w)"

definition sent :: "ptr \<Rightarrow> peer_world \<Rightarrow> peer_world \<Rightarrow> bool" where
  "sent p w w' \<longleftrightarrow> reconn_timer w' = reconn_timer w \<and> wait_cer_timer w' = wait_cer_timer w \<and>
     activ_peers w' = activ_peers w \<and> pw_ticks w' = pw_ticks w \<and> (\<forall>q. q \<noteq> p \<longrightarrow> pw_peers w' q = pw_peers w q) \<and>
     (\<forall>c. pending c w \<longrightarrow> pending c w') \<and>
     (\<exists>st i. pw_peers w' p = (pw_peers w p)\<lparr>p_state := st, endtoendID := i\<rparr> \<and>
        (st = p_state (pw_peers w p) \<or> st = PEER_ERROR \<and> pending (CLOSE_CMD p) w'))"

lemma peer_self: "x\<lparr>p_state := p_state x, endtoendID := endtoendID x\<rparr> = (x :: peer)"
  by simp

lemma sent_refl: "reconn_timer w' = reconn_timer w \<Longrightarrow> wait_cer_timer w' = wait_cer_timer w \<Longrightarrow>
  activ_peers w' = activ_peers w \<Longrightarrow> pw_ticks w' = pw_ticks w \<Longrightarrow> pw_peers w' = pw_peers w \<Longrightarrow>
  pw_cmds w' = pw_cmds w \<Longrightarrow> sent p w w'"
  unfolding sent_def pending_def by (metis peer_self)

lemma sent_trans: "sent p w w' \<Longrightarrow> sent p w' w'' \<Longrightarrow> sent p w w''"
  unfolding sent_def by (elim conjE exE) (auto intro!: exI)

lemma sent_ids: "sent p w (upd p (\<lambda>x. x\<lparr>endtoendID := i\<rparr>) w)"
  unfolding sent_def pending_def by (auto intro!: exI [of _ "p_state (pw_peers w p)"] exI [of _ i])

lemma sent_failed: "sent p w (write_failed p w)"
  unfolding sent_def write_failed_def set_state_def pending_def
  by (auto intro!: exI [of _ PEER_ERROR] exI [of _ "endtoendID (pw_peers w p)"])

lemma safe_write_sent:
  assumes "safe_write e p buf w = Some (r, w')"
  shows "sent p w w' \<and> pw_tr w' = pw_tr w"
proof -
  have "case (r, w') of (r, w') \<Rightarrow> sent p w w' \<and> pw_tr w' = pw_tr w"
  proof (rule safe_write.raw_induct [OF _ assms, where P = "\<lambda>e p buf w res. case res of (r, w') \<Rightarrow> sent p w w' \<and> pw_tr w' = pw_tr w"])
    fix rec e p buf w res
    assume IH: "\<And>e p buf w res. rec e p buf w = Some res \<Longrightarrow> case res of (r, w') \<Rightarrow> sent p w w' \<and> pw_tr w' = pw_tr w"
      and b: "(case env_write e (pw_calls w) of
        W_eintr \<Rightarrow> rec e p buf (w\<lparr>pw_calls := Suc (pw_calls w)\<rparr>)
      | W_error \<Rightarrow> Some (- 1, write_failed p (w\<lparr>pw_calls := Suc (pw_calls w)\<rparr>))
      | W_bytes n \<Rightarrow>
          (let w1 = w\<lparr>pw_calls := Suc (pw_calls w), pw_writes := pw_writes w @ [(p_sock (pw_peers w p), take n buf)]\<rparr>
           in Some (1, if n \<noteq> length buf then write_failed p w1 else w1))) = Some res"
    have n: "sent p w (w\<lparr>pw_calls := k\<rparr>)" "sent p w (w\<lparr>pw_calls := k, pw_writes := l\<rparr>)" for k l
      by (rule sent_refl; simp)+
    have t: "pw_tr (write_failed p v) = pw_tr v" for v by (simp add: write_failed_def set_state_def)
    show "case res of (r, w') \<Rightarrow> sent p w w' \<and> pw_tr w' = pw_tr w"
    proof (cases "env_write e (pw_calls w)")
      case W_eintr
      then show ?thesis using b IH [of e p buf "w\<lparr>pw_calls := Suc (pw_calls w)\<rparr>" res] sent_trans [OF n(1)] by auto
    next
      case W_error
      then show ?thesis using b sent_trans [OF n(1) sent_failed] t by auto
    next
      case (W_bytes k)
      then show ?thesis using b n(2) sent_trans [OF n(2) sent_failed] t by (auto simp: Let_def split: if_splits)
    qed
  qed
  then show ?thesis by simp
qed

lemma sent_tr [simp]: "sent p w (w'\<lparr>pw_tr := t\<rparr>) = sent p w w'" "sent p (w\<lparr>pw_tr := t\<rparr>) w' = sent p w w'"
  by (simp_all add: sent_def pending_def)

lemma internal_send_request_sent:
  assumes "internal_send_request e buf p w = Some (r, w')"
  shows "sent p w w' \<and> (r = 1 \<or> r = - 1)"
proof -
  have s: "sent p w v" if "safe_write e p b ((upd p (\<lambda>x. x\<lparr>endtoendID := i\<rparr>) w)\<lparr>pw_tr := t\<rparr>) = Some (k, v)" for b i t k v
  proof -
    have "sent p w ((upd p (\<lambda>x. x\<lparr>endtoendID := i\<rparr>) w)\<lparr>pw_tr := t\<rparr>)" using sent_ids by simp
    from sent_trans [OF this conjunct1 [OF safe_write_sent [OF that]]] show ?thesis .
  qed
  show ?thesis using assms unfolding internal_send_request_def
    by (auto simp: Let_def sent_refl split: if_splits bind_splits prod.splits dest!: s)
qed

lemma internal_send_response_sent:
  assumes "internal_send_response e res req code p w = Some (r, w')"
  shows "sent p w w' \<and> (r = 1 \<or> r = - 1)"
  using assms safe_write_sent unfolding internal_send_response_def
  by (auto split: if_splits bind_splits)

lemma send_buffer_sent:
  assumes "send_buffer e mk snd_f w = Some (r, w')"
    and "\<And>b w r w'. snd_f b w = Some (r, w') \<Longrightarrow> sent p w w' \<and> (r = 1 \<or> r = - 1)"
  shows "sent p w w' \<and> (r = 1 \<or> r = - 1)"
proof -
  obtain a v where a: "peer_alloc e w = (a, v)" by force
  have v: "sent p w v" using a by (auto simp: peer_alloc_def sent_refl split: prod.splits)
  have f: "sent p x (peer_free a x)" for x by (rule sent_refl) simp_all
  show ?thesis
  proof (cases "a = NULL")
    case True
    then show ?thesis using assms(1) a v by (auto simp: send_buffer_def)
  next
    case False
    with assms(1) a obtain b k u where "snd_f b v = Some (k, u)" "r = k" "w' = peer_free a u"
      by (auto simp: send_buffer_def split: bind_splits)
    then show ?thesis using assms(2) sent_trans [OF sent_trans [OF v] f] by blast
  qed
qed

lemmas send_sent =
  send_buffer_sent [OF _ internal_send_request_sent] send_buffer_sent [OF _ internal_send_response_sent]

lemma send_cer_sent: "send_cer e p w = Some (r, w') \<Longrightarrow> sent p w w' \<and> (r = 1 \<or> r = - 1)"
  unfolding send_cer_def by (rule send_sent(1))

lemma send_cea_sent: "send_cea e cer code p w = Some (r, w') \<Longrightarrow> sent p w w' \<and> (r = 1 \<or> r = - 1)"
  unfolding send_cea_def by (rule send_sent(2))

lemma send_dwr_sent: "send_dwr e p w = Some (r, w') \<Longrightarrow> sent p w w' \<and> (r = 1 \<or> r = - 1)"
  unfolding send_dwr_def by (rule send_sent(1))

lemma send_dwa_sent: "send_dwa e dwr code p w = Some (r, w') \<Longrightarrow> sent p w w' \<and> (r = 1 \<or> r = - 1)"
  unfolding send_dwa_def by (rule send_sent(2))

lemma send_dpr_sent: "send_dpr e p cause w = Some (r, w') \<Longrightarrow> sent p w w' \<and> (r = 1 \<or> r = - 1)"
  unfolding send_dpr_def by (rule send_sent(1))

lemma send_dpa_sent: "send_dpa e dpr code p w = Some (r, w') \<Longrightarrow> sent p w w' \<and> (r = 1 \<or> r = - 1)"
  unfolding send_dpa_def by (rule send_sent(2))

lemma send_req_to_peer_sent:
  assumes "send_req_to_peer e tr req p w = Some (r, w')"
  shows "sent p w w'"
proof (cases "p_state (pw_peers w p) \<noteq> PEER_CONN \<and> p_state (pw_peers w p) \<noteq> PEER_WAIT_DWA")
  case True
  then show ?thesis using assms by (auto simp: send_req_to_peer_def sent_refl)
next
  case False
  with assms show ?thesis
    unfolding send_req_to_peer_def
    by (auto simp: Let_def split: if_splits bind_splits dest!: safe_write_sent)
      (erule sent_trans [OF sent_ids])+
qed

lemma send_res_to_peer_sent: "send_res_to_peer e buf p w = Some (r, w') \<Longrightarrow> sent p w w'"
  unfolding send_res_to_peer_def by (auto simp: sent_refl split: if_splits bind_splits dest: safe_write_sent)

section \<open>Resetting a peer\<close>

lemma filter_fst_notin: "p \<notin> fst ` set (filter (\<lambda>x. fst x \<noteq> p) l)"
  by auto

lemma reset_peer_effect:
  shows "pw_peers (reset_peer p w) p = reset_fields ((pw_peers w p)\<lparr>p_sock := - 1, p_flags := p_flags (pw_peers w p) AND PEER_TO_DESTROY\<rparr>)"
    and "q \<noteq> p \<Longrightarrow> pw_peers (reset_peer p w) q = pw_peers w q"
    and "wait_cer_timer (reset_peer p w) = filter (\<lambda>x. fst x \<noteq> p) (wait_cer_timer w)"
    and "reconn_timer (reset_peer p w) = filter (\<lambda>x. fst x \<noteq> p) (reconn_timer w) @
      (if p_flags (pw_peers w p) AND PEER_TO_DESTROY = 0 then [(p, pw_ticks w + RECONN_TIMEOUT)] else [])"
    and "activ_peers (reset_peer p w) = filter (\<lambda>q. q \<noteq> p) (activ_peers w)"
    and "pw_ticks (reset_peer p w) = pw_ticks w" and "pw_cmds (reset_peer p w) = pw_cmds w"
    and "pw_writes (reset_peer p w) = pw_writes w"
  by (auto simp: reset_peer_def Let_def add_reconn_def rmv_reconn_def rmv_wait_cer_def in_timer_list_def no_flags_def
      list_del_safe_def image_iff)

end
