(* ===== verification/Peer_Invariant.thy ===== *)
theory Peer_Invariant
  imports Peer_Machine
begin

text \<open>
  The invariant of the peers. Every step of the program (events, messages, the timer, commands
  taken from the pipes of the receive threads) preserves that a peer is always looked after:
  an unconnected peer is scheduled for a connection attempt, a peer that waits for a
  capabilities request is watched by the timer, a peer whose socket failed is going to be closed.
  One lemma per event, then rule induction over the steps.
\<close>

section \<open>No peer is forgotten\<close>

text \<open>
  What a receive thread does with a command from its pipe: a connection attempt ends in one of
  three events; a command that accepts a socket may also fail before any event.
\<close>

definition cmd_runs :: "command \<Rightarrow> ptr \<Rightarrow> AAA_PEER_EVENT \<Rightarrow> peer_info \<Rightarrow> bool" where
  "cmd_runs c p ev i \<longleftrightarrow>
     (case c of
        CONNECT_CMD q \<Rightarrow> q = p \<and> ev \<in> {TCP_CONNECTED, TCP_CONN_IN_PROG, TCP_CONN_FAILED}
      | ADD_PEER_CMD q \<Rightarrow> q = p \<and> ev \<in> {TCP_CONNECTED, TCP_CONN_IN_PROG, TCP_CONN_FAILED}
      | ACCEPTED_CMD s q \<Rightarrow> q = p \<and> ev = TCP_ACCEPT
      | INACTIVITY_CMD q \<Rightarrow> q = p \<and> ev = PEER_IS_INACTIV
      | TIMEOUT_PEER_CMD ev' q n \<Rightarrow> q = p \<and> ev = ev' \<and> i = I_num n
      | CLOSE_CMD q \<Rightarrow> q = p \<and> ev = TCP_CONN_CLOSE
      | _ \<Rightarrow> False)"

definition cmd_dropped :: "command \<Rightarrow> bool" where
  "cmd_dropped c \<longleftrightarrow> c = SHUTDOWN_CMD \<or> c = START_ACCEPT_CMD \<or> (\<exists>s q. c = ACCEPTED_CMD s q)"

text \<open>
  The steps of the program as far as peers are concerned, in any order: events from the sockets,
  bytes read into the buffer of a peer, messages, requests and answers of the application, the
  peer timer, the clock, the transaction timer, and commands taken from a pipe.
\<close>

inductive peer_step :: "peer_env \<Rightarrow> peer_world \<Rightarrow> peer_world \<Rightarrow> bool" for e where
  ps_event: "peer_state_machine e p ev i w = Some (r, w') \<Longrightarrow> peer_step e w w'"
| ps_read: "peer_step e w (upd p (\<lambda>x. x\<lparr>first_4bytes := f4, buf_len := bl, p_buf := b\<rparr>) w)"
| ps_message: "p \<noteq> NULL \<Longrightarrow> dispatch_message e p buf w = Some w' \<Longrightarrow> peer_step e w w'"
| ps_request: "p \<noteq> NULL \<Longrightarrow> send_req_to_peer e tr req p w = Some (r, w') \<Longrightarrow> peer_step e w w'"
| ps_response: "p \<noteq> NULL \<Longrightarrow> send_res_to_peer e buf p w = Some (r, w') \<Longrightarrow> peer_step e w w'"
| ps_timer: "peer_step e w (peer_timer_handler t w)"
| ps_tick: "peer_step e w (w\<lparr>pw_ticks := t\<rparr>)"
| ps_trans: "peer_step e w (w\<lparr>pw_tr := tw\<rparr>)"
| ps_tr_timeout: "peer_step e w (peer_trans_timeout_f tr w)"
| ps_command: "pw_cmds w = xs @ (fd, c) # ys \<Longrightarrow> cmd_runs c p ev i \<Longrightarrow>
    peer_state_machine e p ev i (w\<lparr>pw_cmds := xs @ ys\<rparr>) = Some (r, w') \<Longrightarrow> peer_step e w w'"
| ps_drop: "pw_cmds w = xs @ (fd, c) # ys \<Longrightarrow> cmd_dropped c \<Longrightarrow> peer_step e w (w\<lparr>pw_cmds := xs @ ys\<rparr>)"

definition in_reconn :: "ptr \<Rightarrow> peer_world \<Rightarrow> bool" where "in_reconn p w \<longleftrightarrow> p \<in> fst ` set (reconn_timer w)"
definition in_wait_cer :: "ptr \<Rightarrow> peer_world \<Rightarrow> bool" where "in_wait_cer p w \<longleftrightarrow> p \<in> fst ` set (wait_cer_timer w)"

definition tidy :: "ptr \<Rightarrow> peer_world \<Rightarrow> bool" where
  "tidy p w \<longleftrightarrow> p_flags (pw_peers w p) AND 0xfc = 0 \<and>
     (in_wait_cer p w \<longrightarrow> p_state (pw_peers w p) = PEER_WAIT_CER \<and> \<not> in_reconn p w) \<and>
     (p_state (pw_peers w p) \<in> {PEER_UNCONN, PEER_WAIT_CER, PEER_WAIT_CEA} \<longrightarrow>
        realm_s (pw_peers w p) = NULL \<and> fst (supp_auth_app_ids (pw_peers w p)) = NULL \<and>
        fst (supp_acct_app_ids (pw_peers w p)) = NULL)"

definition reconnects :: "ptr \<Rightarrow> peer_world \<Rightarrow> bool" where
  "reconnects p w \<longleftrightarrow> p_flags (pw_peers w p) AND PEER_CONN_IN_PROG \<noteq> 0 \<or> in_reconn p w \<or>
     pending (CONNECT_CMD p) w \<or> pending (ADD_PEER_CMD p) w \<or> (\<exists>n. pending (TIMEOUT_PEER_CMD PEER_RECONN_TIMEOUT p n) w)"

definition dues_unconn :: "ptr \<Rightarrow> peer_world \<Rightarrow> bool" where
  "dues_unconn p w \<longleftrightarrow> (p_state (pw_peers w p) = PEER_UNCONN \<and> p_flags (pw_peers w p) AND PEER_TO_DESTROY = 0 \<longrightarrow> reconnects p w)"

definition dues_cer :: "ptr \<Rightarrow> peer_world \<Rightarrow> bool" where
  "dues_cer p w \<longleftrightarrow> (p_state (pw_peers w p) = PEER_WAIT_CER \<longrightarrow>
     in_wait_cer p w \<or> (\<exists>n. pending (TIMEOUT_PEER_CMD PEER_CER_TIMEOUT p n) w))"

definition dues_error :: "ptr \<Rightarrow> peer_world \<Rightarrow> bool" where
  "dues_error p w \<longleftrightarrow> (p_state (pw_peers w p) = PEER_ERROR \<longrightarrow> pending (CLOSE_CMD p) w)"

definition peer_inv :: "ptr \<Rightarrow> peer_world \<Rightarrow> bool" where
  "peer_inv p w \<longleftrightarrow> tidy p w \<and> dues_unconn p w \<and> dues_cer p w \<and> dues_error p w"

lemmas inv_defs = peer_inv_def tidy_def dues_unconn_def dues_cer_def dues_error_def reconnects_def

text \<open>The invariant of a peer sees only its record, its membership in lists and its commands.\<close>

definition keeps :: "ptr \<Rightarrow> peer_world \<Rightarrow> peer_world \<Rightarrow> bool" where
  "keeps q w w' \<longleftrightarrow> p_state (pw_peers w' q) = p_state (pw_peers w q) \<and> p_flags (pw_peers w' q) = p_flags (pw_peers w q) \<and>
     realm_s (pw_peers w' q) = realm_s (pw_peers w q) \<and>
     supp_auth_app_ids (pw_peers w' q) = supp_auth_app_ids (pw_peers w q) \<and>
     supp_acct_app_ids (pw_peers w' q) = supp_acct_app_ids (pw_peers w q) \<and>
     in_reconn q w' = in_reconn q w \<and> in_wait_cer q w' = in_wait_cer q w \<and> (\<forall>c. pending c w \<longrightarrow> pending c w')"

lemma keeps_inv: "keeps q w w' \<Longrightarrow> peer_inv q w \<Longrightarrow> peer_inv q w'"
  unfolding keeps_def inv_defs by auto

lemma keeps_trans: "keeps q w w' \<Longrightarrow> keeps q w' w'' \<Longrightarrow> keeps q w w''"
  unfolding keeps_def by auto

lemma sent_keeps: "sent p w w' \<Longrightarrow> q \<noteq> p \<Longrightarrow> keeps q w w'"
  unfolding sent_def keeps_def in_reconn_def in_wait_cer_def by auto

lemma pending_simps [simp]:
  "pending c (upd p f w) = pending c w" "pending c (set_state p st w) = pending c w"
  "pending c (tcp_close p w) = pending c w" "pending c (rmv_reconn p w) = pending c w"
  "pending c (rmv_wait_cer p w) = pending c w" "pending c (add_reconn p n w) = pending c w"
  "pending c (add_wait_cer p n w) = pending c w" "pending c (list_add_tail_safe p w) = pending c w"
  "pending c (list_del_safe p w) = pending c w" "pending c (peer_free a w) = pending c w"
  "pending c (write_command fd d w) = (pending c w \<or> c = d)" "pending c (reset_peer p w) = pending c w"
  "pending c (w\<lparr>pw_tr := t\<rparr>) = pending c w" "pending c (w\<lparr>pw_ticks := n\<rparr>) = pending c w"
  by (auto simp: pending_def upd_def set_state_def tcp_close_def rmv_reconn_def rmv_wait_cer_def add_reconn_def
      add_wait_cer_def list_add_tail_safe_def list_del_safe_def peer_free_def write_command_def reset_peer_effect)

lemma in_fst_iff: "x \<in> fst ` A \<longleftrightarrow> (\<exists>y. (x, y) \<in> A)"
  by force

lemma member_simps [simp]:
  "in_reconn q (upd p f w) = in_reconn q w" "in_wait_cer q (upd p f w) = in_wait_cer q w"
  "in_reconn q (set_state p st w) = in_reconn q w" "in_wait_cer q (set_state p st w) = in_wait_cer q w"
  "in_reconn q (tcp_close p w) = in_reconn q w" "in_wait_cer q (tcp_close p w) = in_wait_cer q w"
  "in_reconn q (rmv_reconn p w) = (in_reconn q w \<and> q \<noteq> p)" "in_wait_cer q (rmv_reconn p w) = in_wait_cer q w"
  "in_reconn q (rmv_wait_cer p w) = in_reconn q w" "in_wait_cer q (rmv_wait_cer p w) = (in_wait_cer q w \<and> q \<noteq> p)"
  "in_reconn q (list_add_tail_safe p w) = in_reconn q w" "in_wait_cer q (list_add_tail_safe p w) = in_wait_cer q w"
  "in_reconn q (list_del_safe p w) = in_reconn q w" "in_wait_cer q (list_del_safe p w) = in_wait_cer q w"
  "in_reconn q (peer_free a w) = in_reconn q w" "in_wait_cer q (peer_free a w) = in_wait_cer q w"
  "in_reconn q (write_command fd c w) = in_reconn q w" "in_wait_cer q (write_command fd c w) = in_wait_cer q w"
  "in_reconn q (w\<lparr>pw_tr := t\<rparr>) = in_reconn q w" "in_wait_cer q (w\<lparr>pw_tr := t\<rparr>) = in_wait_cer q w"
  "in_reconn q (w\<lparr>pw_ticks := n\<rparr>) = in_reconn q w" "in_wait_cer q (w\<lparr>pw_ticks := n\<rparr>) = in_wait_cer q w"
  "in_reconn q (add_wait_cer p n w) = in_reconn q w"
  "in_wait_cer q (add_wait_cer p n w) = (in_wait_cer q w \<or> q = p \<and> \<not> in_reconn p w)"
  "in_reconn q (reset_peer p w) = (if q = p then p_flags (pw_peers w p) AND PEER_TO_DESTROY = 0 else in_reconn q w)"
  "in_wait_cer q (reset_peer p w) = (in_wait_cer q w \<and> q \<noteq> p)"
  by (auto simp: in_reconn_def in_wait_cer_def upd_def set_state_def tcp_close_def rmv_reconn_def rmv_wait_cer_def
      add_wait_cer_def in_timer_list_def list_add_tail_safe_def list_del_safe_def peer_free_def write_command_def
      reset_peer_effect in_fst_iff)

lemma record_simps [simp]:
  "pw_peers (set_state p st w) q = (if q = p then (pw_peers w p)\<lparr>p_state := st\<rparr> else pw_peers w q)"
  "pw_peers (reset_peer p w) q = (if q = p
     then reset_fields ((pw_peers w p)\<lparr>p_sock := - 1, p_flags := p_flags (pw_peers w p) AND PEER_TO_DESTROY\<rparr>) else pw_peers w q)"
  by (simp_all add: set_state_def reset_peer_effect)

lemma sent_D:
  assumes "sent p w w'"
  shows "in_reconn q w' = in_reconn q w" and "in_wait_cer q w' = in_wait_cer q w"
    and "pending c w \<Longrightarrow> pending c w'" and "q \<noteq> p \<Longrightarrow> pw_peers w' q = pw_peers w q"
    and "\<exists>st i. pw_peers w' p = (pw_peers w p)\<lparr>p_state := st, endtoendID := i\<rparr> \<and>
        (st = p_state (pw_peers w p) \<or> st = PEER_ERROR \<and> pending (CLOSE_CMD p) w')"
  using assms unfolding sent_def in_reconn_def in_wait_cer_def by auto

lemma process_ce_frame:
  assumes "process_ce ok g x buf rq m = Some (Some (code, x', m'))"
  shows "p_state x' = p_state x \<and> p_flags x' = p_flags x \<and> (code \<noteq> AAA_SUCCESS \<longrightarrow> x' = x)"
proof -
  have a: "p_state y = p_state x \<and> p_flags y = p_flags x" if "ce_accept ok buf s x m = Some (y, m')" for s y
    using that by (auto simp: ce_accept_def save_realm_def Let_def split: prod.splits bind_splits if_splits)
  let ?init = "\<lparr>ce_mask = 0, ce_realm = 0, ce_code = AAA_NO_COMMON_APPLICATION, ce_auth = [], ce_acct = []\<rparr>"
  obtain r where r: "for_all_AVPS (ce_body g buf) buf 20 ?init = Some (Some r)"
    using assms by (auto simp: process_ce_def split: bind_splits)
  show ?thesis
  proof (cases r)
    case (Inl c)
    then show ?thesis using assms r by (simp add: process_ce_def)
  next
    case (Inr s)
    then show ?thesis using assms r a [of s x'] by (simp add: process_ce_def Let_def split: if_splits)
  qed
qed

lemma run_process_ce_frame:
  assumes "run_process_ce e p buf rq w = Some (code, w')"
  shows "\<exists>x m. w' = (upd p (\<lambda>_. x) w)\<lparr>pw_tr := (pw_tr w)\<lparr>tw_shm := m\<rparr>\<rparr> \<and> p_state x = p_state (pw_peers w p) \<and>
    p_flags x = p_flags (pw_peers w p) \<and> (code \<noteq> AAA_SUCCESS \<longrightarrow> x = pw_peers w p)"
  using assms process_ce_frame unfolding run_process_ce_def
  by (fastforce split: bind_splits)

lemma reset_state_inv:
  assumes "p_flags (pw_peers w p) AND 0xfc = 0"
  shows "peer_inv p (set_state p PEER_UNCONN (reset_peer p w))"
proof -
  have "p_flags (pw_peers w p) AND 1 AND 0xfc = (0 :: u8)" using assms by (metis and.assoc and.commute and_zero_eq)
  then show ?thesis by (simp add: inv_defs reset_fields_def and.assoc)
qed

lemma reset_inv: "p_flags (pw_peers w p) AND 0xfc = 0 \<Longrightarrow> peer_inv p (close_and_reset p w)"
  unfolding close_and_reset_def by (rule reset_state_inv) simp

text \<open>The other peers.\<close>

lemma keeps_refl: "pw_peers w' q = pw_peers w q \<Longrightarrow> in_reconn q w' = in_reconn q w \<Longrightarrow> in_wait_cer q w' = in_wait_cer q w \<Longrightarrow>
  (\<And>c. pending c w \<Longrightarrow> pending c w') \<Longrightarrow> keeps q w w'"
  by (simp add: keeps_def)

lemma keeps_prims:
  assumes "q \<noteq> p"
  shows "keeps q w (close_and_reset p w)" and "keeps q w (connected p w)" and "keeps q w (set_state p st w)"
    and "keeps q w (upd p f w)" and "keeps q w (list_del_safe p w)" and "keeps q w (list_add_tail_safe p w)"
    and "keeps q w (rmv_wait_cer p w)" and "keeps q w (reset_peer p (tcp_close p w))" and "keeps q w (w\<lparr>pw_tr := t\<rparr>)"
    and "keeps q w (peer_free a w)" and "keeps q w w"
  using assms by (auto intro!: keeps_refl simp: close_and_reset_def connected_def)

lemma run_process_ce_keeps:
  assumes "run_process_ce e p buf rq w = Some (code, w')" and "q \<noteq> p"
  shows "keeps q w w'"
proof -
  obtain x m where w': "w' = (upd p (\<lambda>_. x) w)\<lparr>pw_tr := (pw_tr w)\<lparr>tw_shm := m\<rparr>\<rparr>"
    using run_process_ce_frame [OF assms(1)] by blast
  show ?thesis unfolding w' by (rule keeps_refl) (use assms(2) in simp_all)
qed

lemma keeps_sm:
  assumes "q \<noteq> p"
  shows "keeps q w (snd (sm_tcp_accept p sock ip w))" and "keeps q w (snd (sm_tcp_conn_in_prog p sock w))"
    and "keeps q w (snd (sm_tcp_conn_failed p w))" and "keeps q w (snd (sm_tcp_conn_close p w))"
    and "keeps q w (snd (sm_cer_timeout p w))" and "keeps q w (snd (sm_reconn_timeout p w))"
    and "keeps q w (snd (sm_tr_timeout p cnt w))" and "keeps q w (snd (sm_dpa_received p w))"
  using assms
  by (auto simp: sm_tcp_accept_def sm_tcp_conn_in_prog_def sm_tcp_conn_failed_def sm_tcp_conn_close_def sm_cer_timeout_def
      sm_reconn_timeout_def sm_tr_timeout_def sm_dpa_received_def close_and_reset_def Let_def
      intro!: keeps_refl split: AAA_PEER_STATE.splits)

lemma keeps_sm_tcp_connected:
  assumes "q \<noteq> p" and "sm_tcp_connected e p sock ip w = Some (r, w')"
  shows "keeps q w w'"
proof (cases "p_state (pw_peers w p) = PEER_UNCONN")
  case True
  let ?w = "upd p (\<lambda>x. x\<lparr>p_flags := p_flags x AND 0, p_sock := sock, local_ip := ip\<rparr>) w"
  obtain s v where "send_cer e p ?w = Some (s, v)" and w': "w' = set_state p PEER_WAIT_CEA v \<or> w' = reset_peer p (tcp_close p v)"
    using assms(2) True by (auto simp: sm_tcp_connected_def Let_def split: bind_splits if_splits)
  then have "keeps q ?w v" using send_cer_sent sent_keeps assms(1) by blast
  note v = keeps_trans [OF keeps_prims(4) [OF assms(1)] this]
  show ?thesis using w' keeps_trans [OF v keeps_prims(3) [OF assms(1)]] keeps_trans [OF v keeps_prims(8) [OF assms(1)]] by auto
qed (use assms in \<open>simp add: sm_tcp_connected_def keeps_prims\<close>)

lemma sm_cer_receivedE:
  assumes "sm_cer_received e p buf w = Some (r, w')"
    and "p_state (pw_peers w p) = PEER_WAIT_CER \<or> p_state (pw_peers w p) = PEER_WAIT_CEA"
  obtains x code v s u where "x = (if p_state (pw_peers w p) = PEER_WAIT_CER then rmv_wait_cer p w else w)"
    and "run_process_ce e p buf True x = Some (code, v)" and "send_cea e buf code p v = Some (s, u)" and "r = 1"
    and "w' = (if s = - 1 \<or> code \<noteq> AAA_SUCCESS then close_and_reset p u else connected p u)"
proof -
  define x where "x = (if p_state (pw_peers w p) = PEER_WAIT_CER then rmv_wait_cer p w else w)"
  have "do { (code, w) \<leftarrow> run_process_ce e p buf True x; (s, w) \<leftarrow> send_cea e buf code p w;
      Some (1, if s = - 1 \<or> code \<noteq> AAA_SUCCESS then close_and_reset p w else connected p w) } = Some (r, w')"
    using assms unfolding sm_cer_received_def x_def Let_def by presburger
  then show ?thesis using that [OF x_def] by (auto split: bind_splits)
qed

lemma keeps_sm_ce:
  assumes "q \<noteq> p"
  shows "sm_cea_received e p buf w = Some (r, w') \<Longrightarrow> keeps q w w'"
    and "sm_cer_received e p buf w = Some (r, w') \<Longrightarrow> keeps q w w'"
proof -
  note k = keeps_prims [OF assms]
  have c: "keeps q w (close_and_reset p v) \<and> keeps q w (connected p v)"
    if "run_process_ce e p buf False w = Some (code, v)" for v code
    using keeps_trans [OF run_process_ce_keeps [OF that assms] k(1)] keeps_trans [OF run_process_ce_keeps [OF that assms] k(2)] by simp
  show "sm_cea_received e p buf w = Some (r, w') \<Longrightarrow> keeps q w w'"
    by (auto simp: sm_cea_received_def k split: if_splits bind_splits dest!: c)
  assume a: "sm_cer_received e p buf w = Some (r, w')"
  show "keeps q w w'"
  proof (cases "p_state (pw_peers w p) = PEER_WAIT_CER \<or> p_state (pw_peers w p) = PEER_WAIT_CEA")
    case True
    from a True obtain x code v s u where
      x: "x = (if p_state (pw_peers w p) = PEER_WAIT_CER then rmv_wait_cer p w else w)"
      and v: "run_process_ce e p buf True x = Some (code, v)" "send_cea e buf code p v = Some (s, u)" and "r = 1"
      and w': "w' = (if s = - 1 \<or> code \<noteq> AAA_SUCCESS then close_and_reset p u else connected p u)"
      by (rule sm_cer_receivedE)
    have "keeps q w x" using k(7,11) by (simp add: x)
    from keeps_trans [OF keeps_trans [OF this run_process_ce_keeps [OF v(1) assms]]
        sent_keeps [OF conjunct1 [OF send_cea_sent [OF v(2)]] assms]]
    have u: "keeps q w u" .
    show ?thesis unfolding w' using keeps_trans [OF u k(1)] keeps_trans [OF u k(2)] by simp
  qed (use a in \<open>simp add: sm_cer_received_def k\<close>)
qed

lemma keeps_sm_dw_dp:
  assumes "q \<noteq> p"
  shows "sm_dwr_received e p buf w = Some (r, w') \<Longrightarrow> keeps q w w'"
    and "sm_is_inactiv e p w = Some (r, w') \<Longrightarrow> keeps q w w'"
    and "sm_dwa_received p buf w = Some (r, w') \<Longrightarrow> keeps q w w'"
    and "sm_dpr_received e p buf w = Some (r, w') \<Longrightarrow> keeps q w w'"
    and "sm_hangup e p cause w = Some (r, w') \<Longrightarrow> keeps q w w'"
proof -
  note k = keeps_prims [OF assms]
  have s: "keeps q w v" if "sent p w v" for w v using sent_keeps [OF that assms] .
  have t: "keeps q w v" if "sent p (list_del_safe p w) v" for w v using keeps_trans [OF k(5) s [OF that]] .
  note i = keeps_trans [OF s k(1)] keeps_trans [OF s k(3)] keeps_trans [OF t k(1)] keeps_trans [OF t k(3)]
  show "sm_dwr_received e p buf w = Some (r, w') \<Longrightarrow> keeps q w w'"
    by (auto simp: sm_dwr_received_def Let_def k split: if_splits bind_splits dest!: send_dwa_sent intro: i s)
  show "sm_is_inactiv e p w = Some (r, w') \<Longrightarrow> keeps q w w'"
    by (auto simp: sm_is_inactiv_def Let_def k split: if_splits bind_splits dest!: send_dwr_sent intro: i s)
  show "sm_dwa_received p buf w = Some (r, w') \<Longrightarrow> keeps q w w'"
    by (auto simp: sm_dwa_received_def k split: if_splits bind_splits)
  show "sm_dpr_received e p buf w = Some (r, w') \<Longrightarrow> keeps q w w'"
    by (auto simp: sm_dpr_received_def Let_def k split: if_splits bind_splits dest!: send_dpa_sent intro: i t)
  show "sm_hangup e p cause w = Some (r, w') \<Longrightarrow> keeps q w w'"
    by (auto simp: sm_hangup_def Let_def k split: if_splits bind_splits dest!: send_dpr_sent intro: i t)
qed

lemma event_keeps:
  assumes "peer_state_machine e p ev i w = Some (r, w')" and "q \<noteq> p"
  shows "keeps q w w'"
proof (cases "p = NULL")
  case True
  then show ?thesis using assms keeps_prims(11) [OF assms(2)] by (simp add: peer_state_machine_def)
next
  case False
  then have "peer_event e p ev i w = Some (r, w')" using assms(1) by (simp add: peer_state_machine_def)
  then show ?thesis
    using keeps_sm [OF assms(2), of w] keeps_sm_tcp_connected [OF assms(2)] keeps_sm_ce [OF assms(2)] keeps_sm_dw_dp [OF assms(2)]
    by (cases "(e, p, ev, i, w)" rule: peer_event.cases) (auto, (metis snd_conv)+)
qed

text \<open>
  The peer itself. A command that is being executed has left the pipe, so what it was due for
  need not hold when its event is handled.
\<close>

definition before_event :: "AAA_PEER_EVENT \<Rightarrow> ptr \<Rightarrow> peer_world \<Rightarrow> bool" where
  "before_event ev p w \<longleftrightarrow> tidy p w \<and>
     (ev \<notin> {TCP_CONNECTED, TCP_CONN_IN_PROG, TCP_CONN_FAILED, PEER_RECONN_TIMEOUT} \<longrightarrow> dues_unconn p w) \<and>
     (ev \<noteq> PEER_CER_TIMEOUT \<longrightarrow> dues_cer p w) \<and> (ev \<noteq> TCP_CONN_CLOSE \<longrightarrow> dues_error p w)"

lemmas before_defs = before_event_def inv_defs

lemma before_flags: "before_event ev p w \<Longrightarrow> p_flags (pw_peers w p) AND 0xfc = 0"
  by (simp add: before_defs)

lemma flag_bits:
  "((f :: u8) OR 2) AND 0xfc = f AND 0xfc" "((f :: u8) OR 2) AND 2 \<noteq> 0"
proof -
  have "(f OR 2) AND 0xfc = (f AND 0xfc) OR (2 AND 0xfc)" by (rule word_ao_dist)
  then show "(f OR 2) AND 0xfc = f AND 0xfc" by simp
  have "(f OR 2) AND 2 = (f AND 2) OR 2" unfolding word_ao_dist by simp
  also have "\<dots> \<noteq> 0" by simp
  finally show "(f OR 2) AND 2 \<noteq> 0" .
qed

lemma sent_flags: "sent p w w' \<Longrightarrow> p_flags (pw_peers w' p) = p_flags (pw_peers w p)"
  using sent_D(5) by fastforce

lemma connected_inv:
  assumes "p_flags (pw_peers w p) AND 0xfc = 0" and "\<not> in_wait_cer p w"
  shows "peer_inv p (connected p w)"
  using assms by (simp add: connected_def inv_defs)

lemma sent_connected_inv:
  assumes "sent p w w'" and "p_flags (pw_peers w p) AND 0xfc = 0" and "\<not> in_wait_cer p w"
  shows "peer_inv p (connected p w')"
  using connected_inv [of w' p] sent_flags [OF assms(1)] sent_D(2) [OF assms(1)] assms(2,3) by simp

lemma sent_inv:
  assumes "sent p w w'" and "peer_inv p w" and "p_state (pw_peers w p) \<noteq> PEER_WAIT_CER"
  shows "peer_inv p w'"
proof -
  from sent_D(5) [OF assms(1)] obtain st i where st: "pw_peers w' p = (pw_peers w p)\<lparr>p_state := st, endtoendID := i\<rparr>"
    "st = p_state (pw_peers w p) \<or> st = PEER_ERROR \<and> pending (CLOSE_CMD p) w'" by blast
  have "\<not> in_wait_cer p w" using assms(2,3) by (auto simp: inv_defs)
  then show ?thesis using assms(2,3) st sent_D(1-3) [OF assms(1)]
    by (auto simp: inv_defs)
qed

lemma sent_state_inv:
  assumes "sent p w w'" and "p_flags (pw_peers w p) AND 0xfc = 0" and "\<not> in_wait_cer p w"
    and "st = PEER_WAIT_DWA \<or> st = PEER_WAIT_DPA \<or> st = PEER_CONN"
  shows "peer_inv p (set_state p st w')"
  using assms sent_flags [OF assms(1)] sent_D(2) [OF assms(1)] by (auto simp: inv_defs)

lemma sent_reset_inv: "sent p w w' \<Longrightarrow> p_flags (pw_peers w p) AND 0xfc = 0 \<Longrightarrow> peer_inv p (close_and_reset p w')"
  using sent_flags reset_inv by metis

lemma before_inv: "before_event ev p w \<Longrightarrow>
  ev \<notin> {TCP_CONNECTED, TCP_CONN_IN_PROG, TCP_CONN_FAILED, PEER_RECONN_TIMEOUT, PEER_CER_TIMEOUT, TCP_CONN_CLOSE} \<Longrightarrow> peer_inv p w"
  by (simp add: before_event_def peer_inv_def)

lemma inv_tcp_accept: "before_event TCP_ACCEPT p w \<Longrightarrow> peer_inv p (snd (sm_tcp_accept p sock ip w))"
  by (cases "p_state (pw_peers w p) = PEER_UNCONN"; cases "p_flags (pw_peers w p) AND PEER_CONN_IN_PROG = 0")
    (simp_all add: sm_tcp_accept_def before_defs Let_def)

lemma inv_conn_in_prog: "before_event TCP_CONN_IN_PROG p w \<Longrightarrow> peer_inv p (snd (sm_tcp_conn_in_prog p sock w))"
  by (cases "p_state (pw_peers w p) = PEER_UNCONN")
    (simp_all add: sm_tcp_conn_in_prog_def before_defs flag_bits)

lemma inv_conn_failed: "before_event TCP_CONN_FAILED p w \<Longrightarrow> peer_inv p (snd (sm_tcp_conn_failed p w))"
  using reset_state_inv [of w p] before_flags [of TCP_CONN_FAILED p w]
  by (cases "p_state (pw_peers w p) = PEER_UNCONN") (simp_all add: sm_tcp_conn_failed_def before_event_def peer_inv_def dues_unconn_def)

lemma inv_conn_close: "before_event TCP_CONN_CLOSE p w \<Longrightarrow> peer_inv p (snd (sm_tcp_conn_close p w))"
  using reset_inv [of w p] before_flags [of TCP_CONN_CLOSE p w]
  by (simp add: sm_tcp_conn_close_def) (auto simp: before_event_def peer_inv_def dues_error_def)

lemma inv_cer_timeout: "before_event PEER_CER_TIMEOUT p w \<Longrightarrow> peer_inv p (snd (sm_cer_timeout p w))"
  using reset_inv [of w p] before_flags [of PEER_CER_TIMEOUT p w]
  by (simp add: sm_cer_timeout_def) (auto simp: before_event_def peer_inv_def dues_cer_def)

lemma inv_reconn_timeout: "before_event PEER_RECONN_TIMEOUT p w \<Longrightarrow> peer_inv p (snd (sm_reconn_timeout p w))"
  by (cases "p_state (pw_peers w p) = PEER_UNCONN"; cases "p_flags (pw_peers w p) AND PEER_CONN_IN_PROG = 0")
    (simp_all add: sm_reconn_timeout_def before_defs Let_def)

lemma inv_tr_timeout: "before_event PEER_TR_TIMEOUT p w \<Longrightarrow> peer_inv p (snd (sm_tr_timeout p cnt w))"
  using before_inv [of PEER_TR_TIMEOUT p w] reset_inv [of w p] reset_inv [of "list_del_safe p w" p] before_flags [of PEER_TR_TIMEOUT p w]
  by (simp add: sm_tr_timeout_def split: AAA_PEER_STATE.splits)

lemma inv_dpa: "before_event DPA_RECEIVED p w \<Longrightarrow> peer_inv p (snd (sm_dpa_received p w))"
  using before_inv [of DPA_RECEIVED p w] reset_inv [of w p] before_flags [of DPA_RECEIVED p w]
  by (simp add: sm_dpa_received_def)

lemma inv_tcp_connected:
  assumes "before_event TCP_CONNECTED p w" and "sm_tcp_connected e p sock ip w = Some (r, w')"
  shows "peer_inv p w'"
proof (cases "p_state (pw_peers w p) = PEER_UNCONN")
  case True
  let ?w = "upd p (\<lambda>x. x\<lparr>p_flags := p_flags x AND 0, p_sock := sock, local_ip := ip\<rparr>) w"
  obtain s v where sv: "send_cer e p ?w = Some (s, v)"
    and w': "w' = (if s \<noteq> - 1 then set_state p PEER_WAIT_CEA v else reset_peer p (tcp_close p v))"
    using assms(2) True by (auto simp: sm_tcp_connected_def Let_def split: bind_splits)
  note v = conjunct1 [OF send_cer_sent [OF sv]]
  obtain st i where st: "pw_peers v p = (pw_peers ?w p)\<lparr>p_state := st, endtoendID := i\<rparr>"
    "st = PEER_UNCONN \<or> st = PEER_ERROR \<and> pending (CLOSE_CMD p) v" using sent_D(5) [OF v] True by auto
  have "\<not> in_wait_cer p v" using assms(1) True sent_D(2) [OF v] by (simp add: before_defs)
  then show ?thesis using w' st assms(1) True
    by (cases "s = - 1") (auto simp: inv_defs before_defs reset_fields_def)
next
  case False
  then show ?thesis using assms by (auto simp: sm_tcp_connected_def before_event_def peer_inv_def dues_unconn_def)
qed

lemma run_process_ce_flags:
  assumes "run_process_ce e p buf rq w = Some (code, v)"
  shows "p_flags (pw_peers v p) = p_flags (pw_peers w p)" and "in_wait_cer q v = in_wait_cer q w"
  using run_process_ce_frame [OF assms] by auto

lemma inv_cea:
  assumes "before_event CEA_RECEIVED p w" and "sm_cea_received e p buf w = Some (r, w')"
  shows "peer_inv p w'"
proof (cases "p_state (pw_peers w p) = PEER_WAIT_CEA")
  case True
  then obtain code v where v: "run_process_ce e p buf False w = Some (code, v)"
    and w': "w' = (if code \<noteq> AAA_SUCCESS then close_and_reset p v else connected p v)"
    using assms(2) by (auto simp: sm_cea_received_def split: bind_splits)
  have "\<not> in_wait_cer p w" using assms(1) True by (auto simp: before_event_def tidy_def)
  then show ?thesis unfolding w'
    using reset_inv [of v p] connected_inv [of v p] run_process_ce_flags [OF v] before_flags [OF assms(1)] by simp
next
  case False
  then show ?thesis using assms before_inv [OF assms(1)] by (simp add: sm_cea_received_def)
qed

lemma inv_cer:
  assumes "before_event CER_RECEIVED p w" and "sm_cer_received e p buf w = Some (r, w')"
  shows "peer_inv p w'"
proof (cases "p_state (pw_peers w p) = PEER_WAIT_CER \<or> p_state (pw_peers w p) = PEER_WAIT_CEA")
  case True
  from assms(2) True obtain x code v s u where
    x: "x = (if p_state (pw_peers w p) = PEER_WAIT_CER then rmv_wait_cer p w else w)"
    and v: "run_process_ce e p buf True x = Some (code, v)" "send_cea e buf code p v = Some (s, u)" and "r = 1"
    and w': "w' = (if s = - 1 \<or> code \<noteq> AAA_SUCCESS then close_and_reset p u else connected p u)"
    by (rule sm_cer_receivedE)
  have "p_flags (pw_peers x p) = p_flags (pw_peers w p)" "\<not> in_wait_cer p x"
    using assms(1) True by (auto simp: x before_event_def tidy_def)
  then have f: "p_flags (pw_peers v p) AND 0xfc = 0" "\<not> in_wait_cer p v"
    using run_process_ce_flags [OF v(1)] before_flags [OF assms(1)] by simp_all
  note s = conjunct1 [OF send_cea_sent [OF v(2)]]
  show ?thesis unfolding w' using sent_reset_inv [OF s f(1)] sent_connected_inv [OF s f] by simp
next
  case False
  then show ?thesis using assms before_inv [OF assms(1)] by (simp add: sm_cer_received_def)
qed

lemma inv_dwr:
  assumes "before_event DWR_RECEIVED p w" and "sm_dwr_received e p buf w = Some (r, w')"
  shows "peer_inv p w'"
proof (cases "p_state (pw_peers w p) \<in> {PEER_CONN, PEER_WAIT_DWA, PEER_WAIT_DPA}")
  case True
  with assms(2) obtain code s v where "send_dwa e buf code p w = Some (s, v)" "w' = close_and_reset p v \<or> w' = v"
    unfolding sm_dwr_received_def Let_def by (auto split: bind_splits if_splits)
  then show ?thesis
    using send_dwa_sent sent_reset_inv sent_inv before_inv [OF assms(1)] before_flags [OF assms(1)] True by fastforce
next
  case False
  then show ?thesis using assms before_inv [OF assms(1)] by (simp add: sm_dwr_received_def)
qed

lemma list_ops_inv: "peer_inv p (list_add_tail_safe p w) = peer_inv p w" "peer_inv p (list_del_safe p w) = peer_inv p w"
  by (simp_all add: inv_defs)

lemma inv_inactiv:
  assumes "before_event PEER_IS_INACTIV p w" and "sm_is_inactiv e p w = Some (r, w')"
  shows "peer_inv p w'"
proof -
  note inv = before_inv [OF assms(1), simplified]
  show ?thesis
  proof (cases "p_state (pw_peers w p) = PEER_CONN \<and> last_activ_time (pw_peers w p) + SEND_DWR_TIMEOUT \<le> pw_ticks w")
    case True
    with assms(2) obtain s v where "send_dwr e p w = Some (s, v)" and w': "w' = v \<or> w' = set_state p PEER_WAIT_DWA v"
      by (auto simp: sm_is_inactiv_def split: bind_splits if_splits)
    then have v: "sent p w v" using send_dwr_sent by blast
    have "\<not> in_wait_cer p w" using True inv by (auto simp: peer_inv_def tidy_def)
    then show ?thesis using w' sent_inv [OF v inv] sent_state_inv [OF v before_flags [OF assms(1)]] True by auto
  next
    case False
    then show ?thesis using assms(2) inv by (auto simp: sm_is_inactiv_def list_ops_inv split: if_splits)
  qed
qed

lemma inv_dwa:
  assumes "before_event DWA_RECEIVED p w" and "sm_dwa_received p buf w = Some (r, w')"
  shows "peer_inv p w'"
proof -
  note inv = before_inv [OF assms(1), simplified]
  have "p_state (pw_peers w p) = PEER_WAIT_DWA \<Longrightarrow> \<not> in_wait_cer p w" using inv by (auto simp: peer_inv_def tidy_def)
  then show ?thesis using assms(2) inv connected_inv [OF before_flags [OF assms(1)]]
    by (auto simp: sm_dwa_received_def split: if_splits bind_splits)
qed

lemma inv_dpr:
  assumes "before_event DPR_RECEIVED p w" and "sm_dpr_received e p buf w = Some (r, w')"
  shows "peer_inv p w'"
proof (cases "p_state (pw_peers w p) \<in> {PEER_CONN, PEER_WAIT_DWA, PEER_WAIT_DPA}")
  case True
  with assms(2) obtain code s v where "send_dpa e buf code p (list_del_safe p w) = Some (s, v)" "w' = close_and_reset p v"
    unfolding sm_dpr_received_def Let_def by (auto split: bind_splits)
  then show ?thesis using send_dpa_sent sent_reset_inv [of p "list_del_safe p w" v] before_flags [OF assms(1)] by simp
next
  case False
  then show ?thesis using assms before_inv [OF assms(1)] by (simp add: sm_dpr_received_def)
qed

lemma inv_hangup:
  assumes "before_event PEER_HANGUP p w" and "sm_hangup e p cause w = Some (r, w')"
  shows "peer_inv p w'"
proof (cases "p_state (pw_peers w p) = PEER_CONN")
  case True
  with assms(2) obtain s v where "send_dpr e p cause (list_del_safe p w) = Some (s, v)"
    and w': "w' = close_and_reset p v \<or> w' = set_state p PEER_WAIT_DPA v"
    unfolding sm_hangup_def Let_def by (auto split: bind_splits if_splits)
  then have v: "sent p (list_del_safe p w) v" using send_dpr_sent by blast
  have "\<not> in_wait_cer p w" using assms(1) True by (auto simp: before_event_def tidy_def)
  then show ?thesis using w' sent_reset_inv [OF v] sent_state_inv [OF v] before_flags [OF assms(1)] by auto
next
  case False
  then show ?thesis using assms before_inv [OF assms(1)] by (simp add: sm_hangup_def)
qed

lemmas inv_events = inv_tcp_accept inv_conn_in_prog inv_conn_failed inv_conn_close inv_cer_timeout inv_reconn_timeout
  inv_tr_timeout inv_dpa

lemma event_inv:
  assumes "before_event ev p w" and "peer_event e p ev i w = Some (r, w')"
  shows "peer_inv p w'"
  using assms inv_tcp_connected [of p w e _ _ r w'] inv_cea [of p w e _ r w'] inv_cer [of p w e _ r w'] inv_dwr [of p w e _ r w']
    inv_inactiv [of p w e r w'] inv_dwa [of p w _ r w'] inv_dpr [of p w e _ r w'] inv_hangup [of p w e _ r w'] inv_events [of p w]
  by (cases "(e, p, ev, i, w)" rule: peer_event.cases) (auto, (metis snd_conv)+)

lemma inv_before: "peer_inv p w \<Longrightarrow> before_event ev p w"
  by (simp add: before_event_def peer_inv_def)

definition all_inv :: "ptr set \<Rightarrow> peer_world \<Rightarrow> bool" where
  "all_inv P w \<longleftrightarrow> (\<forall>p \<in> P. p \<noteq> NULL \<longrightarrow> peer_inv p w)"

lemma event_all_inv:
  assumes "peer_state_machine e p ev i w = Some (r, w')" and "all_inv P w"
  shows "all_inv P w'"
proof (cases "p = NULL")
  case True
  then show ?thesis using assms by (simp add: peer_state_machine_def)
next
  case False
  then have ev: "peer_event e p ev i w = Some (r, w')" using assms(1) by (simp add: peer_state_machine_def)
  have "peer_inv q w'" if q: "q \<noteq> NULL" "q \<in> P" for q
  proof (cases "q = p")
    case True
    have "before_event ev p w" using assms(2) False q(2) True inv_before by (simp add: all_inv_def)
    with ev event_inv show ?thesis unfolding True by blast
  next
    case False
    from keeps_inv [OF event_keeps [OF assms(1) False]] show ?thesis using assms(2) q by (simp add: all_inv_def)
  qed
  then show ?thesis by (simp add: all_inv_def)
qed

lemma keeps_all_inv: "(\<And>q. keeps q w w') \<Longrightarrow> all_inv P w \<Longrightarrow> all_inv P w'"
  unfolding all_inv_def using keeps_inv by blast

lemma activ_time_keeps: "keeps q w (upd p (\<lambda>x. x\<lparr>last_activ_time := n\<rparr>) w)"
  by (simp add: keeps_def)

lemma neutral_keeps: "keeps q w (w\<lparr>pw_tr := t\<rparr>)" "keeps q w (peer_free a w)" "keeps q w (put_in_queue b p w)"
  "keeps q w (w\<lparr>pw_ticks := n\<rparr>)" "keeps q w (write_command fd c w)"
  by (auto simp: keeps_def put_in_queue_def in_reconn_def in_wait_cer_def pending_def write_command_def peer_free_def)

lemma dispatch_all_inv:
  assumes "dispatch_message e p buf w = Some w'" and "all_inv P w"
  shows "all_inv P w'"
proof -
  let ?w = "upd p (\<lambda>x. x\<lparr>last_activ_time := pw_ticks w\<rparr>) w"
  have w: "all_inv P ?w" using keeps_all_inv [OF activ_time_keeps assms(2)] .
  note n = keeps_all_inv [OF neutral_keeps(1)] keeps_all_inv [OF neutral_keeps(2)] keeps_all_inv [OF neutral_keeps(3)]
  obtain word where word: "peek4le (snd buf) 4 = Some word"
    using assms(1) by (cases "peek4le (snd buf) 4") (simp_all add: dispatch_message_def)
  show ?thesis
  proof (cases "base_event (word AND MASK_MSG_CODE)")
    case None
    then show ?thesis using assms(1) word n(3) [OF w] by (cases buf) (auto simp: dispatch_message_def)
  next
    case (Some evs)
    obtain rq an where evs: "evs = (rq, an)" by force
    have e1: "all_inv P (peer_free a v)" if "peer_state_machine e p ev i ?w = Some (r, v)" for ev i r v a
      using n(2) event_all_inv [OF that w] by blast
    have e2: "all_inv P (peer_free a (?w\<lparr>pw_tr := t\<rparr>))" for a t using n(2) n(1) [OF w] by blast
    have e3: "all_inv P (peer_free a v)" if "peer_state_machine e p ev i (?w\<lparr>pw_tr := t\<rparr>) = Some (r, v)" for ev i r v a t
      using n(2) event_all_inv [OF that n(1) [OF w]] by blast
    from assms(1) word Some evs show ?thesis
      by (auto simp: dispatch_message_def Let_def split: bind_splits if_splits intro: e1 e2 e3)
  qed
qed

lemma sent_all_inv:
  assumes "sent p w w'" and "all_inv P w" and "p \<noteq> NULL" and "p_state (pw_peers w p) \<noteq> PEER_WAIT_CER"
  shows "all_inv P w'"
  unfolding all_inv_def using assms sent_inv sent_keeps keeps_inv unfolding all_inv_def by metis

text \<open>The timer turns every expired link into a command.\<close>

lemma fold_commands:
  fixes P :: "peer \<Rightarrow> bool" and C :: "ptr \<Rightarrow> command"
  defines "f \<equiv> \<lambda>p w. if P (pw_peers w p) then write_command (p_fd (pw_peers w p)) (C p) w else w"
  shows "pw_peers (fold f ps w) = pw_peers w" and "reconn_timer (fold f ps w) = reconn_timer w"
    and "wait_cer_timer (fold f ps w) = wait_cer_timer w" and "activ_peers (fold f ps w) = activ_peers w"
    and "pending c (fold f ps w) \<longleftrightarrow> pending c w \<or> (\<exists>p \<in> set ps. P (pw_peers w p) \<and> c = C p)"
  by (induction ps arbitrary: w) (auto simp: f_def)

lemma in_fst_split: "p \<in> fst ` set l \<longleftrightarrow> p \<in> set (map fst (takeWhile D l)) \<or> p \<in> fst ` set (dropWhile D l)"
proof -
  have "set l = set (takeWhile D l) \<union> set (dropWhile D l)" by (metis set_append takeWhile_dropWhile_id)
  then show ?thesis by auto
qed

lemma flags_cases:
  assumes "(f :: u8) AND 0xfc = 0" and "f AND 1 = 0" and "f \<noteq> 0"
  shows "f AND 2 \<noteq> 0"
proof
  assume "f AND 2 = 0"
  have "f AND 0xff = take_bit 8 f" by (simp add: take_bit_eq_mask mask_eq_exp_minus_1)
  then have "f = f AND (0xfc OR 1 OR 2)" using take_bit_length_eq [of f] by simp
  also have "\<dots> = (f AND 0xfc) OR (f AND 1) OR (f AND 2)" by (simp only: word_ao_dist2)
  also have "\<dots> = 0" using assms(1,2) \<open>f AND 2 = 0\<close> by simp
  finally show False using assms(3) by simp
qed

definition due :: "u32 \<Rightarrow> ptr \<times> u32 \<Rightarrow> bool" where "due t x \<longleftrightarrow> snd x \<le> t"

lemma peer_timer_handler_effect:
  fixes t w
  defines "w' \<equiv> peer_timer_handler t w"
  shows "pw_peers w' = pw_peers w" and "reconn_timer w' = dropWhile (due t) (reconn_timer w)"
    and "wait_cer_timer w' = dropWhile (due t) (wait_cer_timer w)"
    and "pending c w' \<longleftrightarrow> pending c w \<or>
      (\<exists>p \<in> set (map fst (takeWhile (due t) (reconn_timer w))). no_flags (pw_peers w p) \<and> c = TIMEOUT_PEER_CMD PEER_RECONN_TIMEOUT p 0) \<or>
      (\<exists>p \<in> set (map fst (takeWhile (due t) (wait_cer_timer w))). c = TIMEOUT_PEER_CMD PEER_CER_TIMEOUT p 0) \<or>
      (\<exists>p \<in> set (takeWhile (\<lambda>p. last_activ_time (pw_peers w p) + SEND_DWR_TIMEOUT \<le> t) (activ_peers w)). c = INACTIVITY_CMD p)"
    and "activ_peers w' = dropWhile (\<lambda>p. last_activ_time (pw_peers w p) + SEND_DWR_TIMEOUT \<le> t) (activ_peers w)"
proof -
  have d: "(\<lambda>x. snd x \<le> t) = due t" by (auto simp: due_def)
  have [simp]: "pending c (v\<lparr>reconn_timer := l\<rparr>) = pending c v" "pending c (v\<lparr>wait_cer_timer := l\<rparr>) = pending c v"
    "pending c (v\<lparr>activ_peers := k\<rparr>) = pending c v" for v l k by (simp_all add: pending_def)
  note f1 = fold_commands [where P = no_flags and C = "\<lambda>p. TIMEOUT_PEER_CMD PEER_RECONN_TIMEOUT p 0"]
  note f2 = fold_commands [where P = "\<lambda>_. True" and C = "\<lambda>p. TIMEOUT_PEER_CMD PEER_CER_TIMEOUT p 0", simplified]
  note f3 = fold_commands [where P = "\<lambda>_. True" and C = INACTIVITY_CMD, simplified]
  show "pw_peers w' = pw_peers w" "reconn_timer w' = dropWhile (due t) (reconn_timer w)"
    "wait_cer_timer w' = dropWhile (due t) (wait_cer_timer w)"
    "activ_peers w' = dropWhile (\<lambda>p. last_activ_time (pw_peers w p) + SEND_DWR_TIMEOUT \<le> t) (activ_peers w)"
    unfolding w'_def peer_timer_handler_def Let_def d f1 f2 f3 by (simp_all add: f1 f2 f3)
  show "pending c w' \<longleftrightarrow> pending c w \<or>
      (\<exists>p \<in> set (map fst (takeWhile (due t) (reconn_timer w))). no_flags (pw_peers w p) \<and> c = TIMEOUT_PEER_CMD PEER_RECONN_TIMEOUT p 0) \<or>
      (\<exists>p \<in> set (map fst (takeWhile (due t) (wait_cer_timer w))). c = TIMEOUT_PEER_CMD PEER_CER_TIMEOUT p 0) \<or>
      (\<exists>p \<in> set (takeWhile (\<lambda>p. last_activ_time (pw_peers w p) + SEND_DWR_TIMEOUT \<le> t) (activ_peers w)). c = INACTIVITY_CMD p)"
    unfolding w'_def peer_timer_handler_def Let_def d f1 f2 f3 by (simp add: f1 f2 f3)
qed

lemma timer_all_inv:
  assumes "all_inv P w"
  shows "all_inv P (peer_timer_handler t w)"
proof -
  let ?w = "peer_timer_handler t w"
  note E = peer_timer_handler_effect [where t = t and w = w]
  have "peer_inv p ?w" if p: "p \<noteq> NULL" "p \<in> P" for p
  proof -
    have inv: "peer_inv p w" using assms p by (simp add: all_inv_def)
    have sub: "in_wait_cer p ?w \<Longrightarrow> in_wait_cer p w" "in_reconn p ?w \<Longrightarrow> in_reconn p w"
      unfolding in_wait_cer_def in_reconn_def E(2,3) by (auto dest: set_dropWhileD)
    have mono: "pending c w \<Longrightarrow> pending c ?w" for c unfolding E(4) by blast
    have r: "in_reconn p ?w \<or> pending (TIMEOUT_PEER_CMD PEER_RECONN_TIMEOUT p 0) ?w \<or> p_flags (pw_peers w p) \<noteq> 0" if "in_reconn p w"
      using that in_fst_split [of p "reconn_timer w" "due t"] unfolding in_reconn_def E(2,4) by (auto simp: no_flags_def)
    have c: "in_wait_cer p ?w \<or> pending (TIMEOUT_PEER_CMD PEER_CER_TIMEOUT p 0) ?w" if "in_wait_cer p w"
      using that in_fst_split [of p "wait_cer_timer w" "due t"] unfolding in_wait_cer_def E(3,4) by auto
    have "tidy p ?w" using inv sub unfolding peer_inv_def tidy_def E(1) by blast
    moreover have "dues_unconn p ?w"
      using inv r mono flags_cases unfolding peer_inv_def tidy_def dues_unconn_def reconnects_def E(1) by blast
    moreover have "dues_cer p ?w" using inv c mono unfolding peer_inv_def dues_cer_def E(1) by blast
    moreover have "dues_error p ?w" using inv mono unfolding peer_inv_def dues_error_def E(1) by blast
    ultimately show ?thesis by (simp add: peer_inv_def)
  qed
  then show ?thesis by (simp add: all_inv_def)
qed

text \<open>What remains of the invariant when a command has been taken from its pipe.\<close>

lemma command_taken:
  fixes w :: peer_world
  assumes "pw_cmds w = xs @ (fd, c) # ys"
  defines "v \<equiv> w\<lparr>pw_cmds := xs @ ys\<rparr>"
  shows "tidy r v = tidy r w"
    and "dues_unconn r w \<Longrightarrow> c \<noteq> CONNECT_CMD r \<Longrightarrow> c \<noteq> ADD_PEER_CMD r \<Longrightarrow> (\<And>n. c \<noteq> TIMEOUT_PEER_CMD PEER_RECONN_TIMEOUT r n) \<Longrightarrow> dues_unconn r v"
    and "dues_cer r w \<Longrightarrow> (\<And>n. c \<noteq> TIMEOUT_PEER_CMD PEER_CER_TIMEOUT r n) \<Longrightarrow> dues_cer r v"
    and "dues_error r w \<Longrightarrow> c \<noteq> CLOSE_CMD r \<Longrightarrow> dues_error r v"
proof -
  have m: "pending d w \<Longrightarrow> d \<noteq> c \<Longrightarrow> pending d v" for d using assms(1) by (auto simp: pending_def v_def)
  have s: "in_reconn r v = in_reconn r w" "in_wait_cer r v = in_wait_cer r w" "pw_peers v = pw_peers w"
    by (simp_all add: in_reconn_def in_wait_cer_def v_def)
  show "tidy r v = tidy r w" by (simp add: tidy_def s)
  show "dues_unconn r v" if "dues_unconn r w" "c \<noteq> CONNECT_CMD r" "c \<noteq> ADD_PEER_CMD r" "\<And>n. c \<noteq> TIMEOUT_PEER_CMD PEER_RECONN_TIMEOUT r n"
    using that m unfolding dues_unconn_def reconnects_def s by auto
  show "dues_cer r v" if "dues_cer r w" "\<And>n. c \<noteq> TIMEOUT_PEER_CMD PEER_CER_TIMEOUT r n"
    using that m unfolding dues_cer_def s by auto
  show "dues_error r v" if "dues_error r w" "c \<noteq> CLOSE_CMD r"
    using that m unfolding dues_error_def s by auto
qed

lemma command_before:
  assumes "peer_inv p w" and "pw_cmds w = xs @ (fd, c) # ys" and "cmd_runs c p ev i"
  shows "before_event ev p (w\<lparr>pw_cmds := xs @ ys\<rparr>)"
  using assms(1,3) command_taken [OF assms(2), of p]
  by (cases c) (auto simp: before_event_def peer_inv_def cmd_runs_def)

lemma command_others:
  assumes "peer_inv q w" and "pw_cmds w = xs @ (fd, c) # ys" and "cmd_runs c p ev i" and "q \<noteq> p"
  shows "peer_inv q (w\<lparr>pw_cmds := xs @ ys\<rparr>)"
  using assms(1,3,4) command_taken [OF assms(2), of q]
  by (cases c) (auto simp: peer_inv_def cmd_runs_def)

lemma command_dropped:
  assumes "peer_inv q w" and "pw_cmds w = xs @ (fd, c) # ys" and "cmd_dropped c"
  shows "peer_inv q (w\<lparr>pw_cmds := xs @ ys\<rparr>)"
  using assms(1,3) command_taken [OF assms(2), of q] by (auto simp: peer_inv_def cmd_dropped_def)

lemma read_keeps: "keeps q w (upd p (\<lambda>x. x\<lparr>first_4bytes := f4, buf_len := bl, p_buf := b\<rparr>) w)"
  by (simp add: keeps_def)

lemma step_all_inv: "peer_step e w w' \<Longrightarrow> all_inv P w \<Longrightarrow> all_inv P w'"
proof (induction rule: peer_step.induct)
  case (ps_event p ev i w r w')
  then show ?case using event_all_inv by blast
next
  case (ps_read w p f4 bl b)
  then show ?case using keeps_all_inv read_keeps by blast
next
  case (ps_message p buf w w')
  then show ?case using dispatch_all_inv by blast
next
  case (ps_request p tr req w r w')
  show ?case
  proof (cases "p_state (pw_peers w p) = PEER_WAIT_CER")
    case True
    then show ?thesis using ps_request by (simp add: send_req_to_peer_def)
  qed (use ps_request send_req_to_peer_sent sent_all_inv in blast)
next
  case (ps_response p buf w r w')
  show ?case
  proof (cases "p_state (pw_peers w p) = PEER_WAIT_CER")
    case True
    then show ?thesis using ps_response by (simp add: send_res_to_peer_def)
  qed (use ps_response send_res_to_peer_sent sent_all_inv in blast)
next
  case (ps_timer w t)
  then show ?case by (rule timer_all_inv)
next
  case (ps_tick w t)
  then show ?case using keeps_all_inv neutral_keeps(4) by blast
next
  case (ps_trans w tw)
  then show ?case using keeps_all_inv neutral_keeps(1) by blast
next
  case (ps_tr_timeout w tr)
  then show ?case unfolding peer_trans_timeout_f_def using keeps_all_inv neutral_keeps(5) by blast
next
  case (ps_command w xs fd c ys p ev i r w')
  let ?w = "w\<lparr>pw_cmds := xs @ ys\<rparr>"
  have "peer_inv q w'" if q: "q \<noteq> NULL" "q \<in> P" for q
  proof (cases "q = p")
    case True
    have "peer_inv p w" using ps_command.prems q True by (simp add: all_inv_def)
    note b = command_before [OF this ps_command(1,2)]
    have "peer_event e p ev i ?w = Some (r, w')" using ps_command(3) q True by (simp add: peer_state_machine_def)
    from event_inv [OF b this] show ?thesis unfolding True .
  next
    case False
    have "peer_inv q w" using ps_command.prems q by (simp add: all_inv_def)
    from keeps_inv [OF event_keeps [OF ps_command(3) False] command_others [OF this ps_command(1,2) False]] show ?thesis .
  qed
  then show ?case unfolding all_inv_def by blast
next
  case (ps_drop w xs fd c ys)
  then show ?case using command_dropped unfolding all_inv_def by blast
qed

section \<open>Properties\<close>

text \<open>\<open>add_peer\<close> establishes the invariant: a connection attempt is pending.\<close>

lemma add_peer_inv:
  assumes "add_peer e resolve lk tlk ts fd seed identity host w = (p, w')" and "p \<noteq> NULL" and "\<not> in_timer_list p w"
  shows "peer_inv p w'"
proof -
  let ?x = "\<lambda>ip. fresh_peer identity host ip fd seed"
  have l: "reconn_timer v = reconn_timer w \<and> wait_cer_timer v = wait_cer_timer w" if "peer_alloc e w = (a, v)" for a v
    using that by (auto simp: peer_alloc_def split: prod.splits)
  from assms(1,2) obtain ip where "pw_peers w' p = ?x ip" "pending (ADD_PEER_CMD p) w'"
    "reconn_timer w' = reconn_timer w" "wait_cer_timer w' = wait_cer_timer w"
    by (auto simp: add_peer_def Let_def split: if_splits prod.splits option.splits dest!: l)
  then show ?thesis using assms(3)
    by (auto simp: inv_defs fresh_peer_def in_timer_list_def in_reconn_def in_wait_cer_def)
qed


definition sample_env :: peer_env where
  "sample_env = \<lparr>env_ok = (\<lambda>_. True), env_write = (\<lambda>_. W_error), env_ipv6 = False, env_cfg = sample_config,
     env_table = empty_table\<rparr>"

definition sample_peer_world :: peer_world where
  "sample_peer_world = \<lparr>pw_peers = (\<lambda>_. sample_peer), pw_all = [],
     pw_tr = \<lparr>tw_trans = Map.empty, tw_tables = (\<lambda>_. \<lparr>hash_size = 0, entrys = []\<rparr>),
       tw_timer = [], tw_shm = \<lparr>shm_calls = 0, shm_live = []\<rparr>\<rparr>,
     reconn_timer = [], wait_cer_timer = [], activ_peers = [], pw_ticks = 100, pw_calls = 0, pw_writes = [],
     pw_cmds = [], pw_queue = [], pw_closed = []\<rparr>"


end
