(* ===== verification/Tcp_Receive.thy ===== *)
theory Tcp_Receive
  imports Peer_Invariant
begin

text \<open>
  The receive threads of transport/tcp\_receive.c. \<open>do_read\<close> assembles Diameter messages from the
  bytes that \<open>recv\<close> delivers in pieces of any size; the connection functions and the loop of
  \<open>do_receive\<close> turn what happens on sockets and on the command pipe into events of the peer state
  machine. A function that reassembles messages from the whole stream is the reference for
  \<open>do_read\<close>; every round of \<open>do_receive\<close> is shown to be a sequence of the steps that theory
  Peer\_Invariant proves its invariant about.
\<close>

section \<open>Reading from a socket\<close>

text \<open>
  A socket seen from the reading side: the bytes that the other side has sent and that are not
  read yet, whether it has closed the connection, and what each call of \<open>recv\<close> finds: some bytes
  (at most the wanted number), none at the moment or an interruption, or an error. Reading 0
  bytes is the end of the stream.
\<close>

datatype recv_offer = O_bytes nat | O_again | O_error
datatype recv_result = R_bytes bytes | R_again | R_error

record socket =
  so_stream :: bytes
  so_fin :: bool
  so_calls :: nat
  so_offer :: "nat \<Rightarrow> recv_offer"

definition recv :: "nat \<Rightarrow> socket \<Rightarrow> recv_result \<times> socket" where
  "recv wanted s =
     (let s1 = s\<lparr>so_calls := Suc (so_calls s)\<rparr>
      in case so_offer s (so_calls s) of
           O_again \<Rightarrow> (R_again, s1)
         | O_error \<Rightarrow> (R_error, s1)
         | O_bytes k \<Rightarrow>
             (if so_stream s = [] then (if so_fin s then R_bytes [] else R_again, s1)
              else let d = take (min wanted (Suc k)) (so_stream s)
                   in (R_bytes d, s1\<lparr>so_stream := drop (length d) (so_stream s)\<rparr>)))"

abbreviation MAX_AAA_MSG_SIZE :: u32 where "MAX_AAA_MSG_SIZE \<equiv> 65536"

text \<open>
  \<open>recv\<close> writes at offset \<open>off\<close> into the four bytes of \<open>first_4bytes\<close> or into the buffer; a write
  outside of them is the value None.
\<close>

definition store_read :: "nat \<Rightarrow> bytes \<Rightarrow> peer \<Rightarrow> peer option" where
  "store_read off d x =
     (if fst (p_buf x) = NULL then do {
        b \<leftarrow> poke off d (le32 (first_4bytes x));
        v \<leftarrow> peek4le b 0;
        Some (x\<lparr>first_4bytes := v\<rparr>)
      } else do {
        b \<leftarrow> poke off d (snd (p_buf x));
        Some (x\<lparr>p_buf := (fst (p_buf x), b)\<rparr>)
      })"

text \<open>
  How the loop ends: a whole message, the end of the stream, an error of the socket, nothing
  more to read, a message length out of range or no memory.
\<close>

datatype read_outcome = RO_msg "ptr \<times> bytes" | RO_fin | RO_error | RO_again | RO_refused

text \<open>\<open>junk\<close> is what a newly allocated block contains.\<close>

definition start_message :: "(nat \<Rightarrow> bool) \<Rightarrow> (nat \<Rightarrow> u8) \<Rightarrow> peer \<Rightarrow> shm \<Rightarrow> (peer option \<times> shm) option" where
  "start_message ok junk x m = do {
     v \<leftarrow> peek4 (le32 (first_4bytes x)) 0;
     let len = v AND 0x00ffffff;
     if len < of_nat AAA_MSG_HDR_SIZE \<or> MAX_AAA_MSG_SIZE < len then Some (None, m)
     else let (b, m) = shm_malloc ok m
       in if b = NULL then Some (None, m)
          else do {
            d \<leftarrow> poke 0 (le32 (first_4bytes x)) (map junk [0..<unat len]);
            Some (Some (x\<lparr>p_buf := (b, d), buf_len := 4, first_4bytes := len\<rparr>), m)
          }
   }"

function (sequential) read_loop :: "(nat \<Rightarrow> bool) \<Rightarrow> (nat \<Rightarrow> u8) \<Rightarrow> nat \<Rightarrow> u32 \<Rightarrow> socket \<Rightarrow> peer \<Rightarrow> shm \<Rightarrow>
    (read_outcome \<times> socket \<times> peer \<times> shm) option" where
  "read_loop ok junk off wanted s x m =
     (case recv (unat wanted) s of
        (R_again, s1) \<Rightarrow> Some (RO_again, s1, x, m)
      | (R_error, s1) \<Rightarrow> Some (RO_error, s1, x, m)
      | (R_bytes d, s1) \<Rightarrow>
          if d = [] then Some (RO_fin, s1, x, m)
          else case store_read off d x of
            None \<Rightarrow> None
          | Some x1 \<Rightarrow>
              let x2 = x1\<lparr>buf_len := buf_len x1 + of_nat (length d)\<rparr>
              in if of_nat (length d) < wanted
                 then read_loop ok junk (off + length d) (wanted - of_nat (length d)) s1 x2 m
                 else if fst (p_buf x2) = NULL
                 then (case start_message ok junk x2 m of
                         None \<Rightarrow> None
                       | Some (None, m1) \<Rightarrow> Some (RO_refused, s1, x2, m1)
                       | Some (Some x3, m1) \<Rightarrow> read_loop ok junk (unat (buf_len x3)) (first_4bytes x3 - buf_len x3) s1 x3 m1)
                 else Some (RO_msg (fst (p_buf x2), take (unat (buf_len x2)) (snd (p_buf x2))), s1,
                        x2\<lparr>p_buf := (NULL, []), buf_len := 0, first_4bytes := 0\<rparr>, m))"
  by pat_completeness auto

text \<open>Every round that goes on has taken at least one byte from the stream.\<close>

lemma recv_bytes:
  assumes "recv n s = (R_bytes d, s1)" and "d \<noteq> []"
  shows "so_stream s = d @ so_stream s1" "length d \<le> n" "length (so_stream s1) < length (so_stream s)"
    "so_offer s1 = so_offer s" "so_fin s1 = so_fin s"
proof -
  obtain k where k: "so_offer s (so_calls s) = O_bytes k" "so_stream s \<noteq> []" "d = take (min n (Suc k)) (so_stream s)"
    "s1 = s\<lparr>so_calls := Suc (so_calls s), so_stream := drop (length d) (so_stream s)\<rparr>"
    using assms by (auto simp: recv_def Let_def split: recv_offer.splits if_splits)
  from k show "so_stream s = d @ so_stream s1" by (metis append_take_drop_id length_take min.commute drop_take take_all_iff append_eq_conv_conj socket.select_convs(1) socket.surjective socket.update_convs(1) socket.update_convs(3))
  show "length d \<le> n" using k by simp
  show "so_offer s1 = so_offer s" "so_fin s1 = so_fin s" using k by simp_all
  show "length (so_stream s1) < length (so_stream s)" using k assms(2) by (cases d) auto
qed

termination read_loop
  by (relation "measure (\<lambda>(ok, junk, off, wanted, s, x, m). length (so_stream s))") (auto dest: recv_bytes(3) [OF sym])

declare read_loop.simps [simp del]

definition do_read :: "peer_env \<Rightarrow> (nat \<Rightarrow> u8) \<Rightarrow> ptr \<Rightarrow> socket \<Rightarrow> peer_world \<Rightarrow> (int \<times> socket \<times> peer_world) option" where
  "do_read e junk p s w = do {
     let x = pw_peers w p;
     let wanted = (if fst (p_buf x) = NULL then 4 - buf_len x else first_4bytes x - buf_len x);
     (out, s, x, m) \<leftarrow> read_loop (env_ok e) junk (unat (buf_len x)) wanted s x (tw_shm (pw_tr w));
     let w = (upd p (\<lambda>_. x) w)\<lparr>pw_tr := (pw_tr w)\<lparr>tw_shm := m\<rparr>\<rparr>;
     case out of
       RO_msg b \<Rightarrow> do { w \<leftarrow> dispatch_message e p b w; Some (1, s, w) }
     | RO_again \<Rightarrow> Some (1, s, w)
     | _ \<Rightarrow> Some (- 1, s, w)
   }"

text \<open>What \<open>do_receive\<close> does for a peer whose socket is readable.\<close>

definition socket_readable :: "peer_env \<Rightarrow> (nat \<Rightarrow> u8) \<Rightarrow> ptr \<Rightarrow> socket \<Rightarrow> peer_world \<Rightarrow> (socket \<times> peer_world) option" where
  "socket_readable e junk p s w = do {
     (r, s, w) \<leftarrow> do_read e junk p s w;
     if r = - 1 then do { (_, w) \<leftarrow> peer_state_machine e p TCP_CONN_CLOSE I_none w; Some (s, w) } else Some (s, w)
   }"

fun readable_rounds :: "peer_env \<Rightarrow> (nat \<Rightarrow> u8) \<Rightarrow> ptr \<Rightarrow> nat \<Rightarrow> socket \<Rightarrow> peer_world \<Rightarrow> (socket \<times> peer_world) option" where
  "readable_rounds e junk p 0 s w = Some (s, w)"
| "readable_rounds e junk p (Suc n) s w = do { (s, w) \<leftarrow> socket_readable e junk p s w; readable_rounds e junk p n s w }"

section \<open>The reference: cutting a stream into messages\<close>

definition frame_len :: "bytes \<Rightarrow> nat" where
  "frame_len b = unat (of_be32 (b ! 0) (b ! 1) (b ! 2) (b ! 3) AND 0x00ffffff)"

datatype framing = F_more | F_bad | F_msg bytes bytes

definition next_frame :: "bytes \<Rightarrow> framing" where
  "next_frame b =
     (if length b < 4 then F_more
      else if frame_len b < 20 \<or> 65536 < frame_len b then F_bad
      else if length b < frame_len b then F_more
      else F_msg (take (frame_len b) b) (drop (frame_len b) b))"

text \<open>
  Where the next bytes go, the bytes of an unfinished message that a peer holds, and the states
  of the fields used for reading.
\<close>

definition target :: "peer \<Rightarrow> bytes" where
  "target x = (if fst (p_buf x) = NULL then le32 (first_4bytes x) else snd (p_buf x))"

definition held :: "peer \<Rightarrow> bytes" where
  "held x = take (unat (buf_len x)) (target x)"

definition read_wf :: "peer \<Rightarrow> bool" where
  "read_wf x \<longleftrightarrow> unat (buf_len x) < length (target x) \<and> length (target x) \<le> 65536 \<and>
     (fst (p_buf x) \<noteq> NULL \<longrightarrow> 20 \<le> length (target x) \<and> 4 \<le> unat (buf_len x) \<and>
        unat (first_4bytes x) = length (target x) \<and> frame_len (target x) = length (target x))"

definition only_read :: "peer \<Rightarrow> peer \<Rightarrow> bool" where
  "only_read x y \<longleftrightarrow> (\<exists>f n b. y = x\<lparr>first_4bytes := f, buf_len := n, p_buf := b\<rparr>)"

lemma only_read_trans: "only_read x y \<Longrightarrow> only_read y z \<Longrightarrow> only_read x z"
  unfolding only_read_def
  by (elim exE, rename_tac f n b f' n' b', rule_tac x = f' in exI, rule_tac x = n' in exI, rule_tac x = b' in exI) simp

lemma only_read_upd [simp]:
  "only_read x x" "only_read x (x\<lparr>p_buf := b\<rparr>)" "only_read x (x\<lparr>first_4bytes := f\<rparr>)" "only_read x (x\<lparr>buf_len := n\<rparr>)"
  unfolding only_read_def by (rule exI [of _ "first_4bytes x"] exI [of _ f]; rule exI [of _ "buf_len x"] exI [of _ n]; rule exI [of _ "p_buf x"] exI [of _ b]; simp)+

lemma le32_peek: "length b = 4 \<Longrightarrow> peek4le b 0 = Some v \<Longrightarrow> le32 v = b"
  by (auto simp: peek4le_def le32_def length_Suc_conv numeral_eq_Suc)

lemma frame_len_prefix: "4 \<le> length b \<Longrightarrow> frame_len (b @ c) = frame_len b"
  by (auto simp: frame_len_def nth_append)

text \<open>Storing the bytes that arrived.\<close>

lemma store_read_spec:
  assumes "unat (buf_len x) + length d \<le> length (target x)"
  obtains y where "store_read (unat (buf_len x)) d x = Some y" "only_read x y" "buf_len y = buf_len x"
    "fst (p_buf y) = fst (p_buf x)" "fst (p_buf x) \<noteq> NULL \<longrightarrow> first_4bytes y = first_4bytes x"
    "length (target y) = length (target x)" "take (unat (buf_len x) + length d) (target y) = held x @ d"
proof -
  let ?o = "unat (buf_len x)"
  let ?b = "take ?o (target x) @ d @ drop (?o + length d) (target x)"
  have b: "poke ?o d (target x) = Some ?b" using assms by (simp add: poke_def)
  have t: "take (?o + length d) ?b = held x @ d" using assms by (simp add: held_def)
  have l: "length ?b = length (target x)" using assms by simp
  show ?thesis
  proof (cases "fst (p_buf x) = NULL")
    case True
    then have "length ?b = 4" using l by (simp add: target_def)
    then obtain v where v: "peek4le ?b 0 = Some v" by (simp add: peek4le_def)
    from le32_peek [OF \<open>length ?b = 4\<close> v] have "le32 v = ?b" .
    then show ?thesis using that [of "x\<lparr>first_4bytes := v\<rparr>"] b v t l True by (simp add: store_read_def target_def)
  next
    case False
    then show ?thesis using that [of "x\<lparr>p_buf := (fst (p_buf x), ?b)\<rparr>"] b t l by (simp add: store_read_def target_def)
  qed
qed

text \<open>
  What one pass through the loop does with a piece \<open>d\<close> of the stream that is not larger than
  wanted: the piece is added to what is held.
\<close>

lemma read_piece:
  assumes "read_wf x" and "d \<noteq> []" and "length d \<le> length (target x) - unat (buf_len x)"
  obtains y where "store_read (unat (buf_len x)) d x = Some y"
    "only_read x (y\<lparr>buf_len := buf_len y + of_nat (length d)\<rparr>)" "fst (p_buf y) = fst (p_buf x)"
    "unat (buf_len y + of_nat (length d)) = unat (buf_len x) + length d"
    "length (target y) = length (target x)" "fst (p_buf x) \<noteq> NULL \<longrightarrow> first_4bytes y = first_4bytes x"
    "held (y\<lparr>buf_len := buf_len y + of_nat (length d)\<rparr>) = held x @ d"
    "fst (p_buf x) \<noteq> NULL \<longrightarrow> frame_len (target y) = frame_len (target x)"
proof -
  let ?o = "unat (buf_len x)"
  have l: "?o + length d \<le> length (target x)" using assms unfolding read_wf_def by linarith
  from store_read_spec [OF this] obtain y where y: "store_read ?o d x = Some y" "only_read x y" "buf_len y = buf_len x"
    "fst (p_buf y) = fst (p_buf x)" "fst (p_buf x) \<noteq> NULL \<longrightarrow> first_4bytes y = first_4bytes x"
    "length (target y) = length (target x)" "take (?o + length d) (target y) = held x @ d" .
  have "length (target x) \<le> 65536" using assms(1) by (simp add: read_wf_def)
  with l have u: "unat (buf_len y + of_nat (length d)) = ?o + length d"
    unfolding y(3) by (subst unat_add_lem [THEN iffD1]) (simp_all add: unat_of_nat_u32)
  have f: "frame_len (target y) = frame_len (target x)" if "fst (p_buf x) \<noteq> NULL"
  proof -
    have o: "4 \<le> ?o" "?o < length (target x)" using assms(1) that by (simp_all add: read_wf_def)
    have "take ?o (target y) = take ?o (take (?o + length d) (target y))" by simp
    also have "\<dots> = take ?o (target x)" using o unfolding y(7) by (simp add: held_def)
    finally have "frame_len (take ?o (target y)) = frame_len (take ?o (target x))" by simp
    then show ?thesis using o y(6) by (simp add: frame_len_def)
  qed
  have "target (y\<lparr>buf_len := n\<rparr>) = target y" for n by (simp add: target_def)
  then have h: "held (y\<lparr>buf_len := buf_len y + of_nat (length d)\<rparr>) = held x @ d" using u y(7) by (simp add: held_def)
  show ?thesis
    by (rule that [OF y(1) only_read_trans [OF y(2) only_read_upd(4)] y(4) u y(6,5) h]) (use f in blast)
qed

text \<open>The four bytes of the length are complete.\<close>

lemma start_message_spec:
  assumes "fst (p_buf x) = NULL" and "unat (buf_len x) = 4"
  shows "(start_message ok junk x m = Some (None, m) \<and> next_frame (held x) = F_bad) \<or>
    (\<exists>m1. start_message ok junk x m = Some (None, m1) \<and> (\<exists>n. \<not> ok n)) \<or>
    (\<exists>y m1. start_message ok junk x m = Some (Some y, m1) \<and> read_wf y \<and> held y = held x \<and> only_read x y \<and>
       fst (p_buf y) \<noteq> NULL \<and> unat (first_4bytes y - buf_len y) = length (target y) - unat (buf_len y))"
proof -
  let ?f = "le32 (first_4bytes x)"
  let ?v = "of_be32 (?f ! 0) (?f ! 1) (?f ! 2) (?f ! 3) AND 0x00ffffff"
  have h: "held x = ?f" using assms by (simp add: held_def target_def)
  have v: "peek4 ?f 0 = Some (of_be32 (?f ! 0) (?f ! 1) (?f ! 2) (?f ! 3))" by (simp add: peek4_def numeral_2_eq_2)
  have n: "frame_len ?f = unat ?v" by (simp add: frame_len_def)
  consider "?v < 20 \<or> 65536 < ?v" | "\<not> (?v < 20 \<or> 65536 < ?v)" "fst (shm_malloc ok m) = NULL"
    | "\<not> (?v < 20 \<or> 65536 < ?v)" "fst (shm_malloc ok m) \<noteq> NULL" by blast
  then show ?thesis
  proof cases
    case 1
    then have "next_frame (held x) = F_bad" unfolding h next_frame_def n by (auto simp: word_less_nat_alt)
    then show ?thesis using 1 v by (simp add: start_message_def)
  next
    case 2
    then have "\<exists>n. \<not> ok n" by (auto simp: shm_malloc_def Let_def split: if_splits)
    moreover obtain m1 where "shm_malloc ok m = (NULL, m1)" using 2(2) by (metis prod.collapse)
    then have "start_message ok junk x m = Some (None, m1)" using 2(1) v by (simp add: start_message_def)
    ultimately show ?thesis by blast
  next
    case 3
    obtain b m1 where a: "shm_malloc ok m = (b, m1)" by force
    let ?d = "?f @ drop 4 (map junk [0..<unat ?v])"
    let ?y = "x\<lparr>p_buf := (b, ?d), buf_len := 4, first_4bytes := ?v\<rparr>"
    have r: "20 \<le> unat ?v" "unat ?v \<le> 65536" using 3(1) by (auto simp: word_less_nat_alt)
    have d: "poke 0 ?f (map junk [0..<unat ?v]) = Some ?d" using r by (simp add: poke_def)
    have "start_message ok junk x m = Some (Some ?y, m1)" using 3 v a d by (simp add: start_message_def Let_def)
    moreover have "read_wf ?y" using r 3(2) a n frame_len_prefix [of ?f] by (simp add: read_wf_def target_def)
    moreover have "held ?y = held x" using 3(2) a unfolding h by (simp add: held_def target_def)
    moreover have "only_read x ?y"
      by (rule only_read_trans [OF only_read_trans [OF only_read_upd(2) only_read_upd(4)] only_read_upd(3)])
    moreover have "unat (?v - 4) = unat ?v - 4" using r(1) by (subst unat_sub) (simp_all add: word_le_nat_alt)
    ultimately show ?thesis using 3(2) a r by (auto simp: target_def)
  qed
qed

text \<open>
  \<open>read_loop\<close> takes some bytes \<open>D\<close> from the stream and never writes outside its buffers. It ends
  with a message exactly when the held bytes followed by \<open>D\<close> are a frame, and otherwise holds them.
\<close>

definition read_result :: "(nat \<Rightarrow> bool) \<Rightarrow> socket \<Rightarrow> peer \<Rightarrow> read_outcome \<Rightarrow> socket \<Rightarrow> peer \<Rightarrow> bytes \<Rightarrow> bool" where
  "read_result ok s x out s' x' D \<longleftrightarrow>
     so_stream s = D @ so_stream s' \<and> so_offer s' = so_offer s \<and> so_fin s' = so_fin s \<and> only_read x x' \<and>
     (case out of
        RO_msg (b, msg) \<Rightarrow> b \<noteq> NULL \<and> next_frame (held x @ D) = F_msg msg [] \<and>
          p_buf x' = (NULL, []) \<and> buf_len x' = 0 \<and> first_4bytes x' = 0
      | RO_refused \<Rightarrow> next_frame (held x @ D) = F_bad \<or> (\<exists>n. \<not> ok n)
      | RO_again \<Rightarrow> read_wf x' \<and> held x' = held x @ D
      | RO_fin \<Rightarrow> so_fin s \<and> so_stream s' = [] \<and> read_wf x' \<and> held x' = held x @ D
      | RO_error \<Rightarrow> (\<exists>n. so_offer s n = O_error) \<and> read_wf x' \<and> held x' = held x @ D)"

lemma read_wf_more: "read_wf x \<Longrightarrow> next_frame (held x) = F_more"
proof -
  assume wf: "read_wf x"
  have l: "length (held x) = unat (buf_len x)" using wf by (simp add: held_def read_wf_def)
  show ?thesis
  proof (cases "fst (p_buf x) = NULL")
    case True
    then show ?thesis using wf l by (simp add: next_frame_def read_wf_def target_def)
  next
    case False
    then have "4 \<le> length (held x)" using wf l by (simp add: read_wf_def)
    from frame_len_prefix [OF this, of "drop (unat (buf_len x)) (target x)"]
    have "frame_len (held x) = frame_len (target x)" by (simp add: held_def)
    then show ?thesis using wf l False by (simp add: next_frame_def read_wf_def)
  qed
qed

lemma read_result_step:
  assumes "read_result ok s1 y out s' x' D" and "so_stream s = d @ so_stream s1" and "so_offer s1 = so_offer s"
    and "so_fin s1 = so_fin s" and "only_read x y" and "held y = held x @ d"
  shows "read_result ok s x out s' x' (d @ D)"
  using assms only_read_trans [OF assms(5), of x'] unfolding read_result_def
  by (auto split: read_outcome.splits)

text \<open>A call of \<open>recv\<close> that delivers nothing ends the loop.\<close>

lemma recv_nothing:
  assumes "recv n s = (r, s1)" and "0 < n" and "\<nexists>d. r = R_bytes d \<and> d \<noteq> []"
  shows "so_stream s1 = so_stream s" "so_offer s1 = so_offer s" "so_fin s1 = so_fin s"
    "so_stream s = [] \<or> (\<forall>k. so_offer s (so_calls s) \<noteq> O_bytes k)" "r = R_error \<Longrightarrow> so_offer s (so_calls s) = O_error"
    "r = R_bytes [] \<Longrightarrow> so_fin s \<and> so_stream s = []"
proof -
  have e: "s1 = s\<lparr>so_calls := Suc (so_calls s)\<rparr>" if "so_stream s = [] \<or> (\<forall>k. so_offer s (so_calls s) \<noteq> O_bytes k)"
    using that assms(1) by (cases "so_offer s (so_calls s)") (simp_all add: recv_def split: if_splits)
  show o: "so_stream s = [] \<or> (\<forall>k. so_offer s (so_calls s) \<noteq> O_bytes k)"
  proof (rule ccontr)
    assume a: "\<not> ?thesis"
    then obtain k where "so_offer s (so_calls s) = O_bytes k" "so_stream s \<noteq> []" by blast
    then have "r = R_bytes (take (min n (Suc k)) (so_stream s))" using assms(1) by (simp add: recv_def Let_def)
    then show False using assms(2,3) a by (cases n) auto
  qed
  show "so_stream s1 = so_stream s" "so_offer s1 = so_offer s" "so_fin s1 = so_fin s" using e [OF o] by simp_all
  show "r = R_error \<Longrightarrow> so_offer s (so_calls s) = O_error"
    using assms(1) by (cases "so_offer s (so_calls s)") (simp_all add: recv_def Let_def split: if_splits)
  show "r = R_bytes [] \<Longrightarrow> so_fin s \<and> so_stream s = []"
    using assms(1) o by (cases "so_offer s (so_calls s)") (simp_all add: recv_def Let_def split: if_splits)
qed

definition no_data :: "recv_result \<Rightarrow> read_outcome" where
  "no_data r = (case r of R_again \<Rightarrow> RO_again | R_error \<Rightarrow> RO_error | R_bytes _ \<Rightarrow> RO_fin)"

lemma read_loop_stops:
  assumes "recv (unat wanted) s = (r, s1)" and "0 < unat wanted" and "\<nexists>d. r = R_bytes d \<and> d \<noteq> []" and "read_wf x"
  shows "read_loop ok junk off wanted s x m = Some (no_data r, s1, x, m)" "read_result ok s x (no_data r) s1 x []"
proof -
  show "read_loop ok junk off wanted s x m = Some (no_data r, s1, x, m)"
    using assms(3) by (subst read_loop.simps) (cases r; simp add: assms(1) no_data_def)
  show "read_result ok s x (no_data r) s1 x []"
    using recv_nothing [OF assms(1-3)] assms(3,4) by (cases r) (auto simp: read_result_def no_data_def)
qed

text \<open>A call that delivers bytes: they are stored, and the loop goes on, starts a message or ends one.\<close>

lemma read_loop_data:
  assumes "recv (unat wanted) s = (R_bytes d, s1)" and "d \<noteq> []" and "store_read off d x = Some y"
    and "z = y\<lparr>buf_len := buf_len y + of_nat (length d)\<rparr>"
  shows "read_loop ok junk off wanted s x m =
    (if length d < unat wanted then read_loop ok junk (off + length d) (wanted - of_nat (length d)) s1 z m
     else if fst (p_buf z) = NULL
     then (case start_message ok junk z m of None \<Rightarrow> None
         | Some (None, m1) \<Rightarrow> Some (RO_refused, s1, z, m1)
         | Some (Some x3, m1) \<Rightarrow> read_loop ok junk (unat (buf_len x3)) (first_4bytes x3 - buf_len x3) s1 x3 m1)
     else Some (RO_msg (fst (p_buf z), take (unat (buf_len z)) (snd (p_buf z))), s1,
            z\<lparr>p_buf := (NULL, []), buf_len := 0, first_4bytes := 0\<rparr>, m))"
proof -
  have "length d < 2 ^ 32" using recv_bytes(2) [OF assms(1,2)] unsigned_less [of wanted, where 'a = nat] by simp
  then have "of_nat (length d) < wanted \<longleftrightarrow> length d < unat wanted" by (simp add: word_less_nat_alt unat_of_nat_u32)
  then show ?thesis unfolding assms(4) by (subst read_loop.simps) (simp add: assms(1-3) Let_def)
qed

text \<open>The held bytes and a piece that completes the buffer are a whole message.\<close>

lemma message_complete:
  assumes "read_wf x" and "fst (p_buf z) = fst (p_buf x)" and "fst (p_buf x) \<noteq> NULL" and "length (target z) = length (target x)"
    and "frame_len (target z) = frame_len (target x)" and "unat (buf_len z) = length (target z)"
  shows "next_frame (held z) = F_msg (take (unat (buf_len z)) (snd (p_buf z))) []"
proof -
  have "held z = target z" "snd (p_buf z) = target z" using assms(2,3,6) by (simp_all add: held_def target_def)
  then show ?thesis using assms by (simp add: next_frame_def read_wf_def)
qed

lemma read_wf_piece:
  assumes "read_wf x" and "fst (p_buf z) = fst (p_buf x)" and "length (target z) = length (target x)"
    and "fst (p_buf x) \<noteq> NULL \<longrightarrow> first_4bytes z = first_4bytes x" and "fst (p_buf x) \<noteq> NULL \<longrightarrow> frame_len (target z) = frame_len (target x)"
    and "unat (buf_len x) \<le> unat (buf_len z)" and "unat (buf_len z) < length (target z)"
  shows "read_wf z"
  using assms unfolding read_wf_def by auto

definition reads_to :: "(nat \<Rightarrow> bool) \<Rightarrow> socket \<Rightarrow> peer \<Rightarrow> (read_outcome \<times> socket \<times> peer \<times> shm) option \<Rightarrow> bool" where
  "reads_to ok s x r \<longleftrightarrow> (\<exists>out s' x' m' D. r = Some (out, s', x', m') \<and> read_result ok s x out s' x' D \<and>
     (D = [] \<longrightarrow> so_stream s = [] \<or> (\<forall>k. so_offer s (so_calls s) \<noteq> O_bytes k)))"

lemma reads_to_step:
  assumes "reads_to ok s1 y r" and "so_stream s = d @ so_stream s1" and "so_offer s1 = so_offer s"
    and "so_fin s1 = so_fin s" and "only_read x y" and "held y = held x @ d" and "d \<noteq> []"
  shows "reads_to ok s x r"
proof -
  from assms(1) obtain out s' x' m' D where r: "r = Some (out, s', x', m')" "read_result ok s1 y out s' x' D"
    unfolding reads_to_def by blast
  from read_result_step [OF r(2) assms(2-6)] r(1) assms(7) show ?thesis unfolding reads_to_def by blast
qed

lemma read_loop_spec:
  "read_wf x \<Longrightarrow> off = unat (buf_len x) \<Longrightarrow> unat wanted = length (target x) - unat (buf_len x) \<Longrightarrow>
   reads_to ok s x (read_loop ok junk off wanted s x m)"
proof (induction "length (so_stream s)" arbitrary: off wanted s x m rule: less_induct)
  case less
  obtain r s1 where r: "recv (unat wanted) s = (r, s1)" by force
  have w0: "0 < unat wanted" using less.prems by (simp add: read_wf_def)
  show ?case
  proof (cases "\<exists>d. r = R_bytes d \<and> d \<noteq> []")
    case False
    from read_loop_stops [OF r w0 False less.prems(1)] recv_nothing(4) [OF r w0 False]
    show ?thesis unfolding reads_to_def by blast
  next
    case True
    then obtain d where rd: "recv (unat wanted) s = (R_bytes d, s1)" and d: "d \<noteq> []" using r by blast
    note b = recv_bytes [OF rd d]
    have ld: "length d \<le> length (target x) - unat (buf_len x)" using b(2) less.prems(3) by simp
    from read_piece [OF less.prems(1) d ld] obtain y where y:
      "store_read (unat (buf_len x)) d x = Some y" "only_read x (y\<lparr>buf_len := buf_len y + of_nat (length d)\<rparr>)"
      "fst (p_buf y) = fst (p_buf x)" "unat (buf_len y + of_nat (length d)) = unat (buf_len x) + length d"
      "length (target y) = length (target x)" "fst (p_buf x) \<noteq> NULL \<longrightarrow> first_4bytes y = first_4bytes x"
      "held (y\<lparr>buf_len := buf_len y + of_nat (length d)\<rparr>) = held x @ d"
      "fst (p_buf x) \<noteq> NULL \<longrightarrow> frame_len (target y) = frame_len (target x)" .
    define z where "z = y\<lparr>buf_len := buf_len y + of_nat (length d)\<rparr>"
    have z: "target z = target y" "fst (p_buf z) = fst (p_buf x)" "unat (buf_len z) = unat (buf_len x) + length d"
      "first_4bytes z = first_4bytes y" "only_read x z" "held z = held x @ d"
      using y by (simp_all add: z_def target_def)
    note unf = read_loop_data [OF rd d y(1) [folded less.prems(2)] z_def]
    note step = reads_to_step [OF _ b(1,4,5)]
    show ?thesis
    proof (cases "length d < unat wanted")
      case True
      have "read_wf z" using read_wf_piece [OF less.prems(1), of z] z y less.prems(3) True by simp
      moreover have "unat (of_nat (length d) :: u32) = length d"
        using True unsigned_less [of wanted, where 'a = nat] by (intro unat_of_nat_u32) simp
      then have "unat (wanted - of_nat (length d)) = unat wanted - length d"
        using True by (subst unat_sub) (simp_all add: word_le_nat_alt)
      ultimately have "reads_to ok s1 z (read_loop ok junk (off + length d) (wanted - of_nat (length d)) s1 z m)"
        using less.hyps [OF b(3), of z "off + length d"] z y(5) less.prems(2,3) by simp
      from step [OF this z(5,6) d] show ?thesis unfolding unf using True by simp
    next
      case False
      then have full: "unat (buf_len z) = length (target z)" using b(2) less.prems(1,3) z y(5) by (simp add: read_wf_def)
      show ?thesis
      proof (cases "fst (p_buf z) = NULL")
        case True
        then have "unat (buf_len z) = 4" using full by (simp add: target_def)
        from start_message_spec [OF True this, of ok junk m]
        consider (bad) m1 where "start_message ok junk z m = Some (None, m1)" "next_frame (held z) = F_bad \<or> (\<exists>n. \<not> ok n)"
          | (ok) v m1 where "start_message ok junk z m = Some (Some v, m1)" "read_wf v" "held v = held z" "only_read z v"
            "unat (first_4bytes v - buf_len v) = length (target v) - unat (buf_len v)" by blast
        then show ?thesis
        proof cases
          case bad
          then have "read_result ok s x RO_refused s1 z d" using b z by (auto simp: read_result_def)
          then show ?thesis unfolding unf reads_to_def using True False bad(1) d by auto
        next
          case ok
          from less.hyps [OF b(3) ok(2) refl ok(5)]
          have "reads_to ok s1 v (read_loop ok junk (unat (buf_len v)) (first_4bytes v - buf_len v) s1 v m1)" .
          from step [OF this only_read_trans [OF z(5) ok(4)] _ d] show ?thesis unfolding unf using True False ok z by simp
        qed
      next
        case False
        let ?z = "z\<lparr>p_buf := (NULL, []), buf_len := 0, first_4bytes := 0\<rparr>"
        have "only_read x ?z"
          by (rule only_read_trans [OF z(5) only_read_trans [OF only_read_trans [OF only_read_upd(2) only_read_upd(4)] only_read_upd(3)]])
        moreover have "next_frame (held x @ d) = F_msg (take (unat (buf_len z)) (snd (p_buf z))) []"
          using message_complete [OF less.prems(1), of z] False z y(5,8) full by simp
        ultimately have "read_result ok s x (RO_msg (fst (p_buf z), take (unat (buf_len z)) (snd (p_buf z)))) s1 ?z d"
          using b False by (simp add: read_result_def)
        then show ?thesis unfolding unf reads_to_def using False \<open>\<not> length d < unat wanted\<close> d by auto
      qed
    qed
  qed
qed

section \<open>Reassembling a stream of session messages\<close>

definition session_msg :: "bytes \<Rightarrow> bool" where
  "session_msg m \<longleftrightarrow> next_frame m = F_msg m [] \<and>
     (\<forall>word. peek4le m 4 = Some word \<longrightarrow> base_event (word AND MASK_MSG_CODE) = None)"

lemma framed:
  assumes "next_frame m = F_msg m []"
  shows "20 \<le> length m" "length m \<le> 65536" "frame_len m = length m"
  using assms by (auto simp: next_frame_def split: if_splits)

lemma framed_whole:
  assumes "next_frame b = F_msg m []"
  shows "m = b \<and> 20 \<le> length b \<and> length b \<le> 65536 \<and> frame_len b = length b"
  using assms by (auto simp: next_frame_def split: if_splits)

lemma frame_bad: "next_frame b = F_bad \<Longrightarrow> 4 \<le> length b \<and> frame_len b \<notin> {20..65536}"
  by (auto simp: next_frame_def split: if_splits)

lemma framed_prefix:
  assumes "next_frame m = F_msg m []" and "4 \<le> length b" and "b @ r = m @ t"
  shows "frame_len b = length m"
proof -
  have "frame_len b = frame_len (b @ r)" using frame_len_prefix [OF assms(2)] by simp
  also have "\<dots> = frame_len m" unfolding assms(3) using framed [OF assms(1)] by (intro frame_len_prefix) simp
  finally show ?thesis using framed [OF assms(1)] by simp
qed

text \<open>Of what follows in the stream, a complete frame is the first message.\<close>

lemma frame_is_first:
  assumes "\<forall>m \<in> set ms. session_msg m" and "h @ D @ r = concat ms"
  shows "next_frame (h @ D) \<noteq> F_bad"
    and "next_frame (h @ D) = F_msg msg [] \<Longrightarrow> \<exists>ms'. ms = msg # ms' \<and> r = concat ms' \<and> session_msg msg"
proof -
  have four: "\<exists>m ms'. ms = m # ms' \<and> frame_len (h @ D) = length m \<and> session_msg m \<and> next_frame m = F_msg m []"
    if l: "4 \<le> length (h @ D)"
  proof (cases ms)
    case Nil
    then show ?thesis using assms(2) l by simp
  next
    case (Cons m ms')
    then have m: "next_frame m = F_msg m []" "session_msg m" using assms(1) by (simp_all add: session_msg_def)
    show ?thesis using framed_prefix [OF m(1) l, of r "concat ms'"] assms(2) Cons m by simp
  qed
  show "next_frame (h @ D) \<noteq> F_bad"
  proof (cases "4 \<le> length (h @ D)")
    case True
    from four [OF this] obtain m where "frame_len (h @ D) = length m" "next_frame m = F_msg m []" by blast
    with framed [OF this(2)] True show ?thesis by (simp add: next_frame_def)
  qed (simp add: next_frame_def)
  assume f: "next_frame (h @ D) = F_msg msg []"
  then have l: "4 \<le> length (h @ D)" "msg = h @ D" "frame_len (h @ D) = length msg"
    by (auto simp: next_frame_def split: if_splits)
  from four [OF l(1)] obtain m ms' where m: "ms = m # ms'" "length msg = length m" "session_msg m" using l(3) by auto
  have "msg @ r = m @ concat ms'" using assms(2) m(1) l(2) by simp
  then show "\<exists>ms'. ms = msg # ms' \<and> r = concat ms' \<and> session_msg msg" using m by auto
qed

definition queued :: "peer_world \<Rightarrow> (bytes \<times> ptr) list" where
  "queued w = map snd (pw_queue w)"

lemma dispatch_session:
  assumes "session_msg m"
  shows "\<exists>w'. dispatch_message e p (b, m) w = Some w' \<and> queued w' = queued w @ [(m, p)] \<and>
    pw_peers w' p = (pw_peers w p)\<lparr>last_activ_time := pw_ticks w\<rparr>"
proof -
  have "20 \<le> length m" using assms framed by (simp add: session_msg_def)
  then obtain word where "peek4le m 4 = Some word" by (simp add: peek4le_def)
  then show ?thesis using assms by (simp add: session_msg_def dispatch_message_def put_in_queue_def queued_def Let_def)
qed

text \<open>
  A peer that reads a stream of session messages: \<open>ms\<close> are the messages not delivered yet.
\<close>

definition reading :: "ptr \<Rightarrow> bytes list \<Rightarrow> socket \<Rightarrow> peer_world \<Rightarrow> bool" where
  "reading p ms s w \<longleftrightarrow> read_wf (pw_peers w p) \<and> held (pw_peers w p) @ so_stream s = concat ms \<and> (\<forall>m \<in> set ms. session_msg m)"

lemma do_read_session:
  assumes "reading p ms s w" and "\<forall>n. env_ok e n" and "\<forall>n. so_offer s n \<noteq> O_error" and "\<not> so_fin s"
  shows "\<exists>s' w' ms1 ms2. do_read e junk p s w = Some (1, s', w') \<and> ms = ms1 @ ms2 \<and> reading p ms2 s' w' \<and>
    queued w' = queued w @ map (\<lambda>m. (m, p)) ms1 \<and> so_offer s' = so_offer s \<and> \<not> so_fin s' \<and>
    (\<exists>D. so_stream s = D @ so_stream s' \<and> (D = [] \<longrightarrow> so_stream s = [] \<or> (\<forall>k. so_offer s (so_calls s) \<noteq> O_bytes k)))"
proof -
  let ?x = "pw_peers w p"
  let ?wanted = "if fst (p_buf ?x) = NULL then 4 - buf_len ?x else first_4bytes ?x - buf_len ?x"
  have wf: "read_wf ?x" and c: "held ?x @ so_stream s = concat ms" and ss: "\<forall>m \<in> set ms. session_msg m"
    using assms(1) by (simp_all add: reading_def)
  have "unat ?wanted = length (target ?x) - unat (buf_len ?x)"
    using wf by (auto simp: read_wf_def target_def unat_sub word_le_nat_alt)
  from read_loop_spec [OF wf refl this, of "env_ok e" s junk "tw_shm (pw_tr w)"]
  obtain out s' x' m' D where l: "read_loop (env_ok e) junk (unat (buf_len ?x)) ?wanted s ?x (tw_shm (pw_tr w)) = Some (out, s', x', m')"
    and r: "read_result (env_ok e) s ?x out s' x' D"
    and D: "D = [] \<longrightarrow> so_stream s = [] \<or> (\<forall>k. so_offer s (so_calls s) \<noteq> O_bytes k)"
    unfolding reads_to_def by blast
  from r have st: "so_stream s = D @ so_stream s'" "so_offer s' = so_offer s" "so_fin s' = so_fin s"
    by (simp_all add: read_result_def)
  define w1 where "w1 = (upd p (\<lambda>_. x') w)\<lparr>pw_tr := (pw_tr w)\<lparr>tw_shm := m'\<rparr>\<rparr>"
  have w1: "pw_peers w1 p = x'" "queued w1 = queued w" by (simp_all add: w1_def queued_def)
  have h: "held ?x @ D @ so_stream s' = concat ms" using c st(1) by simp
  note first = frame_is_first [OF ss h]
  from r first(1) assms(2-4) consider (msg) b msg where "out = RO_msg (b, msg)" "next_frame (held ?x @ D) = F_msg msg []"
      "p_buf x' = (NULL, [])" "buf_len x' = 0" | (again) "out = RO_again" "read_wf x'" "held x' = held ?x @ D"
    unfolding read_result_def by (cases out) auto
  then show ?thesis
  proof cases
    case msg
    from first(2) [OF msg(2)] obtain ms' where ms: "ms = msg # ms'" "so_stream s' = concat ms'" "session_msg msg" by blast
    from dispatch_session [OF ms(3), of e p b w1] obtain w' where w': "dispatch_message e p (b, msg) w1 = Some w'"
      "queued w' = queued w1 @ [(msg, p)]" "pw_peers w' p = (pw_peers w1 p)\<lparr>last_activ_time := pw_ticks w1\<rparr>" by blast
    have "do_read e junk p s w = Some (1, s', w')" using l msg(1) w'(1) by (simp add: do_read_def Let_def w1_def)
    moreover have "reading p ms' s' w'"
      using ms ss msg(3,4) w'(3) w1(1) by (simp add: reading_def read_wf_def held_def target_def)
    ultimately show ?thesis using ms(1) w'(2) w1(2) st D assms(4)
      by (intro exI [of _ s'] exI [of _ w'] exI [of _ "[msg]"] exI [of _ ms']) auto
  next
    case again
    have "do_read e junk p s w = Some (1, s', w1)" using l again(1) by (simp add: do_read_def Let_def w1_def)
    moreover have "reading p ms s' w1" using again(2,3) h ss w1(1) by (simp add: reading_def)
    ultimately show ?thesis using w1(2) st D assms(4)
      by (intro exI [of _ s'] exI [of _ w1] exI [of _ "[]"] exI [of _ ms]) auto
  qed
qed

lemma rounds_session:
  assumes "reading p ms s w" and "\<forall>n. env_ok e n" and "\<forall>n. so_offer s n \<noteq> O_error" and "\<not> so_fin s"
  shows "\<exists>s' w' ms1 ms2. readable_rounds e junk p n s w = Some (s', w') \<and> ms = ms1 @ ms2 \<and> reading p ms2 s' w' \<and>
    queued w' = queued w @ map (\<lambda>m. (m, p)) ms1 \<and>
    ((\<forall>k. \<exists>i. so_offer s k = O_bytes i) \<longrightarrow> length (so_stream s') \<le> length (so_stream s) - n)"
  using assms(1,3,4)
proof (induction n arbitrary: ms s w)
  case 0
  then show ?case by (intro exI [of _ s] exI [of _ w] exI [of _ "[]"] exI [of _ ms]) simp
next
  case (Suc n)
  from do_read_session [OF Suc.prems(1) assms(2) Suc.prems(2,3), of junk]
  obtain s1 w1 a b D where 1: "do_read e junk p s w = Some (1, s1, w1)" "ms = a @ b" "reading p b s1 w1"
    "queued w1 = queued w @ map (\<lambda>m. (m, p)) a" "so_offer s1 = so_offer s" "\<not> so_fin s1"
    "so_stream s = D @ so_stream s1" "D = [] \<longrightarrow> so_stream s = [] \<or> (\<forall>k. so_offer s (so_calls s) \<noteq> O_bytes k)"
    by blast
  have "\<forall>n. so_offer s1 n \<noteq> O_error" using Suc.prems(2) 1(5) by simp
  from Suc.IH [OF 1(3) this 1(6)] obtain s' w' c d where 2: "readable_rounds e junk p n s1 w1 = Some (s', w')" "b = c @ d" "reading p d s' w'"
    "queued w' = queued w1 @ map (\<lambda>m. (m, p)) c"
    "(\<forall>k. \<exists>i. so_offer s k = O_bytes i) \<longrightarrow> length (so_stream s') \<le> length (so_stream s1) - n"
    unfolding 1(5) by blast
  have "readable_rounds e junk p (Suc n) s w = Some (s', w')" using 1(1) 2(1) by (simp add: socket_readable_def)
  moreover have "length (so_stream s') \<le> length (so_stream s) - Suc n" if o: "\<forall>k. \<exists>i. so_offer s k = O_bytes i"
  proof (cases "D = []")
    case True
    then have "so_stream s = []" using 1(8) o by blast
    then show ?thesis using 1(7) 2(5) o by simp
  next
    case False
    then have "length (so_stream s1) < length (so_stream s)" using 1(7) by simp
    moreover have "length (so_stream s') \<le> length (so_stream s1) - n" using 2(5) o by blast
    ultimately show ?thesis by linarith
  qed
  ultimately show ?case using 1(2,4) 2(2-4)
    by (intro exI [of _ s'] exI [of _ w'] exI [of _ "a @ c"] exI [of _ d]) simp
qed

lemma reading_all_read:
  assumes "reading p ms s w" and "so_stream s = []"
  shows "ms = [] \<and> held (pw_peers w p) = []"
proof (rule ccontr)
  assume a: "\<not> ?thesis"
  have h: "held (pw_peers w p) = concat ms" using assms by (simp add: reading_def)
  with a obtain m ms' where m: "ms = m # ms'" by (cases ms) auto
  then have f: "next_frame m = F_msg m []" using assms(1) by (simp add: reading_def session_msg_def)
  have "next_frame (held (pw_peers w p)) = F_more" using assms(1) read_wf_more by (simp add: reading_def)
  moreover have "frame_len (held (pw_peers w p)) = length m"
    by (rule framed_prefix [OF f, of _ "[]" "concat ms'"]) (use framed [OF f] h m in simp_all)
  ultimately show False using framed [OF f] h m by (auto simp: next_frame_def split: if_splits)
qed

section \<open>Properties of reading\<close>

text \<open>
  (C19) The messages do not depend on how TCP cuts the stream. When the other side sends session
  messages one after the other, then whatever number of bytes each call of \<open>recv\<close> delivers, after
  any number of rounds of the receive thread the messages in the queue are the first ones that
  were sent, complete and in order, and the rest is held by the peer or still in the socket; once
  every byte has been read (at the latest after as many rounds as there are bytes, if every round
  finds some) all messages have been delivered.
\<close>

theorem stream_reassembled:
  assumes "so_stream s = concat ms" and "\<forall>m \<in> set ms. session_msg m" and "fst (p_buf (pw_peers w p)) = NULL"
    and "buf_len (pw_peers w p) = 0" and "\<forall>n. env_ok e n" and "\<forall>n. so_offer s n \<noteq> O_error" and "\<not> so_fin s"
  shows "\<exists>s' w' j. readable_rounds e junk p n s w = Some (s', w') \<and>
    queued w' = queued w @ map (\<lambda>m. (m, p)) (take j ms) \<and>
    concat (take j ms) @ held (pw_peers w' p) @ so_stream s' = concat ms \<and>
    (so_stream s' = [] \<or> (\<forall>k. \<exists>i. so_offer s k = O_bytes i) \<and> length (so_stream s) \<le> n \<longrightarrow>
      queued w' = queued w @ map (\<lambda>m. (m, p)) ms \<and> held (pw_peers w' p) = [])"
proof -
  have r: "reading p ms s w" using assms(1-4) by (simp add: reading_def read_wf_def held_def target_def)
  from rounds_session [OF r assms(5-7), of junk n] obtain s' w' a b where
    2: "readable_rounds e junk p n s w = Some (s', w')" "ms = a @ b" "reading p b s' w'"
      "queued w' = queued w @ map (\<lambda>m. (m, p)) a"
      "(\<forall>k. \<exists>i. so_offer s k = O_bytes i) \<longrightarrow> length (so_stream s') \<le> length (so_stream s) - n" by blast
  have e: "b = [] \<and> held (pw_peers w' p) = []"
    if "so_stream s' = [] \<or> (\<forall>k. \<exists>i. so_offer s k = O_bytes i) \<and> length (so_stream s) \<le> n"
    by (rule reading_all_read [OF 2(3)]) (use that 2(5) in auto)
  have "held (pw_peers w' p) @ so_stream s' = concat b" using 2(3) by (simp add: reading_def)
  then show ?thesis using 2(1,2,4) e
    by (intro exI [of _ s'] exI [of _ w'] exI [of _ "length a"] conjI impI) auto
qed

definition sample_message :: "u8 \<Rightarrow> bytes" where
  "sample_message c = [1, 0, 0, 20, 0x80, 0, 1, 0x12] @ replicate 11 0 @ [c]"

lemma sample_session: "session_msg (sample_message c)"
  by (simp add: session_msg_def sample_message_def next_frame_def frame_len_def of_be32_def peek4le_def base_event_def)

text \<open>Two messages delivered in pieces of at most three bytes.\<close>

theorem stream_reassembled_witness:
  "\<exists>s' w'. readable_rounds (sample_env\<lparr>env_ok := \<lambda>_. True\<rparr>) (\<lambda>_. 7) 1 40
      \<lparr>so_stream = sample_message 3 @ sample_message 4, so_fin = False, so_calls = 0, so_offer = \<lambda>_. O_bytes 2\<rparr>
      sample_peer_world = Some (s', w') \<and> queued w' = [(sample_message 3, 1), (sample_message 4, 1)]"
proof -
  let ?s = "\<lparr>so_stream = sample_message 3 @ sample_message 4, so_fin = False, so_calls = 0, so_offer = \<lambda>_. O_bytes 2\<rparr>"
  let ?e = "sample_env\<lparr>env_ok := \<lambda>_. True\<rparr>"
  have "length (so_stream ?s) \<le> 40" by (simp add: sample_message_def)
  then show ?thesis
    using stream_reassembled [of ?s "[sample_message 3, sample_message 4]" sample_peer_world 1 ?e "\<lambda>_. 7" 40]
    by (auto simp: sample_session sample_peer_world_def sample_peer_def queued_def)
qed

text \<open>
  (C20) Bounds of reading. Whatever bytes arrive, whatever the socket and the allocator do, reading
  into a peer ends, writes only inside the four length bytes and the allocated buffer, and
  changes only the fields for reading. A message that is handed on has between 20 and 65536
  bytes, exactly as many as its length field says, and consists of the bytes held before and the
  bytes taken from the socket; a stream is refused only for a length out of range or for lack of
  memory; in all other cases the peer is left well-formed and no byte is lost.
\<close>

theorem read_bounds:
  assumes "read_wf x" and "unat wanted = length (target x) - unat (buf_len x)"
  shows "\<exists>out s' x' m' D. read_loop ok junk (unat (buf_len x)) wanted s x m = Some (out, s', x', m') \<and>
    so_stream s = D @ so_stream s' \<and> only_read x x' \<and>
    (case out of
       RO_msg (b, msg) \<Rightarrow> b \<noteq> NULL \<and> msg = held x @ D \<and> 20 \<le> length msg \<and> length msg \<le> 65536 \<and> frame_len msg = length msg \<and>
         read_wf x' \<and> held x' = []
     | RO_refused \<Rightarrow> 4 \<le> length (held x @ D) \<and> frame_len (held x @ D) \<notin> {20..65536} \<or> (\<exists>n. \<not> ok n)
     | _ \<Rightarrow> read_wf x' \<and> held x' = held x @ D)"
proof -
  from read_loop_spec [OF assms(1) refl assms(2), of ok s junk m] obtain out s' x' m' D where
    r: "read_loop ok junk (unat (buf_len x)) wanted s x m = Some (out, s', x', m')" "read_result ok s x out s' x' D"
    unfolding reads_to_def by blast
  show ?thesis
  proof (intro exI conjI)
    show "read_loop ok junk (unat (buf_len x)) wanted s x m = Some (out, s', x', m')" by (rule r(1))
    show "so_stream s = D @ so_stream s'" "only_read x x'" using r(2) by (simp_all add: read_result_def)
    show "case out of
       RO_msg (b, msg) \<Rightarrow> b \<noteq> NULL \<and> msg = held x @ D \<and> 20 \<le> length msg \<and> length msg \<le> 65536 \<and> frame_len msg = length msg \<and>
         read_wf x' \<and> held x' = []
     | RO_refused \<Rightarrow> 4 \<le> length (held x @ D) \<and> frame_len (held x @ D) \<notin> {20..65536} \<or> (\<exists>n. \<not> ok n)
     | _ \<Rightarrow> read_wf x' \<and> held x' = held x @ D"
    proof (cases out)
      case (RO_msg c)
      then show ?thesis using r(2) framed_whole
        by (cases c) (auto simp: read_result_def read_wf_def held_def target_def)
    next
      case RO_refused
      then show ?thesis using r(2) frame_bad [of "held x @ D"] by (auto simp: read_result_def)
    qed (use r(2) in \<open>simp_all add: read_result_def\<close>)
  qed
qed

theorem read_bounds_witness:
  "\<exists>out s' x' m'. read_loop (\<lambda>_. True) (\<lambda>_. 7) 0 4
     \<lparr>so_stream = sample_message 3, so_fin = False, so_calls = 0, so_offer = \<lambda>_. O_bytes 2\<rparr> sample_peer shm_init
     = Some (out, s', x', m')"
  using read_bounds [of sample_peer 4 "\<lambda>_. True" "\<lambda>_. 7"
      "\<lparr>so_stream = sample_message 3, so_fin = False, so_calls = 0, so_offer = \<lambda>_. O_bytes 2\<rparr>" shm_init]
  by (auto simp: read_wf_def target_def sample_peer_def)

end
