(* ===== verification/Receive_Thread.thy ===== *)
theory Receive_Thread
  imports Tcp_Receive
begin

text \<open>
  Connections and the loop of a receive thread (transport/tcp\_receive.c: \<open>tcp_accept\<close>, \<open>do_connect\<close>,
  \<open>tcp_connect\<close>, \<open>do_receive\<close>). The thread keeps the sets of sockets that it watches and the list of
  its peers. One round of the loop executes at most one command from the pipe and then serves the
  sockets that \<open>select\<close> reported. The system calls are parameters of a round. Every round is a
  sequence of the steps that theory Peer\_Invariant is about, so its invariant holds for the
  threads.
\<close>

section \<open>The thread\<close>

record thread_world =
  th_world :: peer_world
  rd_set :: "int set"
  wr_set :: "int set"
  th_peers :: "ptr list"
  th_socks :: "int \<Rightarrow> socket"
  th_closed :: "int list"

text \<open>
  What the system calls of a connection return: \<open>socket\<close>, \<open>init_su\<close>, \<open>connect\<close>, \<open>setsockopt\<close>,
  \<open>getsockname\<close> (the local address), \<open>getsockopt\<close> (whether the connection was established).
\<close>

datatype connect_result = C_done | C_in_progress | C_error

record conn_env =
  ce_socket :: int
  ce_init_su :: bool
  ce_connect :: connect_result
  ce_nodelay :: bool
  ce_local :: "ip_addr option"
  ce_established :: bool

text \<open>
  The state machine called from the thread: \<open>tcp_close\<close> also takes the socket out of the two sets.
\<close>

definition run_event :: "peer_env \<Rightarrow> ptr \<Rightarrow> AAA_PEER_EVENT \<Rightarrow> peer_info \<Rightarrow> thread_world \<Rightarrow> (int \<times> thread_world) option" where
  "run_event e p ev i t = do {
     (r, w) \<leftarrow> peer_state_machine e p ev i (th_world t);
     let closed = set (drop (length (pw_closed (th_world t))) (pw_closed w));
     Some (r, t\<lparr>th_world := w, rd_set := rd_set t - closed, wr_set := wr_set t - closed\<rparr>)
   }"

definition close_fd :: "int \<Rightarrow> thread_world \<Rightarrow> thread_world" where
  "close_fd s t = t\<lparr>th_closed := th_closed t @ [s]\<rparr>"

definition watch_read :: "int \<Rightarrow> thread_world \<Rightarrow> thread_world" where
  "watch_read s t = t\<lparr>rd_set := insert s (rd_set t)\<rparr>"

definition watch_write :: "int \<Rightarrow> thread_world \<Rightarrow> thread_world" where
  "watch_write s t = t\<lparr>wr_set := insert s (wr_set t)\<rparr>"

definition tcp_accept :: "peer_env \<Rightarrow> conn_env \<Rightarrow> ptr \<Rightarrow> int \<Rightarrow> thread_world \<Rightarrow> thread_world option" where
  "tcp_accept e c p s t =
     (if \<not> ce_nodelay c then Some (close_fd s t)
      else case ce_local c of
        None \<Rightarrow> Some (close_fd s t)
      | Some ip \<Rightarrow> do {
          (r, t) \<leftarrow> run_event e p TCP_ACCEPT (I_tcp s ip) t;
          Some (if r = - 1 then close_fd s t else watch_read s t)
        })"

definition do_connect :: "peer_env \<Rightarrow> conn_env \<Rightarrow> ptr \<Rightarrow> int \<Rightarrow> thread_world \<Rightarrow> thread_world option" where
  "do_connect e c p sock t =
     (if \<not> ce_nodelay c then do { (_, t) \<leftarrow> run_event e p TCP_CONN_FAILED I_none t; Some (close_fd sock t) }
      else case ce_local c of
        None \<Rightarrow> do { (_, t) \<leftarrow> run_event e p TCP_CONN_FAILED I_none t; Some (close_fd sock t) }
      | Some ip \<Rightarrow> do {
          (r, t) \<leftarrow> run_event e p TCP_CONNECTED (I_tcp sock ip) t;
          Some (if r = - 1 then close_fd sock t else watch_read sock t)
        })"

text \<open>\<open>info.local\<close> is not set when a connection is in progress, and not used; any address will do.\<close>

definition connect_failed :: "peer_env \<Rightarrow> ptr \<Rightarrow> thread_world \<Rightarrow> thread_world option" where
  "connect_failed e p t = map_option snd (run_event e p TCP_CONN_FAILED I_none t)"

definition tcp_connect :: "peer_env \<Rightarrow> conn_env \<Rightarrow> ptr \<Rightarrow> thread_world \<Rightarrow> thread_world option" where
  "tcp_connect e c p t =
     (let sock = ce_socket c
      in if sock = - 1 then connect_failed e p t
         else if \<not> ce_init_su c then connect_failed e p (close_fd sock t)
         else case ce_connect c of
           C_done \<Rightarrow> do_connect e c p sock t
         | C_in_progress \<Rightarrow> do {
             (r, t) \<leftarrow> run_event e p TCP_CONN_IN_PROG (I_tcp sock (local_ip (pw_peers (th_world t) p))) t;
             Some (if r = - 1 then close_fd sock t else watch_write sock t)
           }
         | C_error \<Rightarrow> connect_failed e p (close_fd sock t))"

section \<open>The loop\<close>

text \<open>
  A command from the pipe; None is a null pointer followed. The result tells whether the thread
  goes on.
\<close>

definition exec_command :: "peer_env \<Rightarrow> conn_env \<Rightarrow> command \<Rightarrow> thread_world \<Rightarrow> (bool \<times> thread_world) option" where
  "exec_command e c cmd t =
     (case cmd of
        SHUTDOWN_CMD \<Rightarrow> Some (False, t)
      | ADD_PEER_CMD p \<Rightarrow>
          (if p = NULL then None
           else map_option (Pair True) (tcp_connect e c p (t\<lparr>th_peers := th_peers t @ [p]\<rparr>)))
      | CONNECT_CMD p \<Rightarrow> if p = NULL then None else map_option (Pair True) (tcp_connect e c p t)
      | ACCEPTED_CMD s p \<Rightarrow> if p = NULL then None else map_option (Pair True) (tcp_accept e c p s t)
      | TIMEOUT_PEER_CMD ev p n \<Rightarrow> map_option (\<lambda>(_, t). (True, t)) (run_event e p ev (I_num n) t)
      | INACTIVITY_CMD p \<Rightarrow> map_option (\<lambda>(_, t). (True, t)) (run_event e p PEER_IS_INACTIV I_none t)
      | CLOSE_CMD p \<Rightarrow> map_option (\<lambda>(_, t). (True, t)) (run_event e p TCP_CONN_CLOSE I_none t)
      | START_ACCEPT_CMD \<Rightarrow> Some (True, t))"

text \<open>The first command in the pipe \<open>fd\<close> of the thread.\<close>

fun take_command :: "ptr \<Rightarrow> (ptr \<times> command) list \<Rightarrow> (command \<times> (ptr \<times> command) list) option" where
  "take_command fd [] = None"
| "take_command fd ((f, c) # cs) =
     (if f = fd then Some (c, cs) else map_option (\<lambda>(d, ds). (d, (f, c) # ds)) (take_command fd cs))"

definition pipe_ready :: "peer_env \<Rightarrow> conn_env \<Rightarrow> ptr \<Rightarrow> thread_world \<Rightarrow> (bool \<times> thread_world) option" where
  "pipe_ready e c fd t =
     (case take_command fd (pw_cmds (th_world t)) of
        None \<Rightarrow> Some (True, t)
      | Some (cmd, rest) \<Rightarrow> exec_command e c cmd (t\<lparr>th_world := (th_world t)\<lparr>pw_cmds := rest\<rparr>\<rparr>))"

text \<open>A readable socket: \<open>do_read\<close>, and the connection is closed when it fails.\<close>

definition peer_readable :: "peer_env \<Rightarrow> (nat \<Rightarrow> u8) \<Rightarrow> ptr \<Rightarrow> thread_world \<Rightarrow> thread_world option" where
  "peer_readable e junk p t = do {
     let sock = p_sock (pw_peers (th_world t) p);
     (r, s, w) \<leftarrow> do_read e junk p (th_socks t sock) (th_world t);
     let closed = set (drop (length (pw_closed (th_world t))) (pw_closed w));
     let t = t\<lparr>th_world := w, rd_set := rd_set t - closed, wr_set := wr_set t - closed, th_socks := (th_socks t)(sock := s)\<rparr>;
     if r = - 1 then map_option snd (run_event e p TCP_CONN_CLOSE I_none t) else Some t
   }"

definition peer_writable :: "peer_env \<Rightarrow> conn_env \<Rightarrow> ptr \<Rightarrow> thread_world \<Rightarrow> thread_world option" where
  "peer_writable e c p t =
     (let sock = p_sock (pw_peers (th_world t) p); t = t\<lparr>wr_set := wr_set t - {sock}\<rparr>
      in if \<not> ce_established c then connect_failed e p (close_fd sock t)
         else do_connect e c p sock t)"

text \<open>\<open>nready\<close> counts the descriptors that are still to be served.\<close>

fun serve_peers :: "peer_env \<Rightarrow> (nat \<Rightarrow> u8) \<Rightarrow> (ptr \<Rightarrow> conn_env) \<Rightarrow> int set \<Rightarrow> int set \<Rightarrow> ptr list \<Rightarrow> nat \<Rightarrow> thread_world \<Rightarrow>
    thread_world option" where
  "serve_peers e junk c rds wrs [] nready t = Some t"
| "serve_peers e junk c rds wrs (p # ps) nready t =
     (if nready = 0 then Some t
      else if p = NULL then None
      else let sock = p_sock (pw_peers (th_world t) p)
        in if sock \<noteq> - 1 \<and> sock \<in> rds
           then do { t \<leftarrow> peer_readable e junk p t; serve_peers e junk c rds wrs ps (nready - 1) t }
           else if sock \<noteq> - 1 \<and> sock \<in> wrs
           then do { t \<leftarrow> peer_writable e (c p) p t; serve_peers e junk c rds wrs ps (nready - 1) t }
           else serve_peers e junk c rds wrs ps nready t)"

text \<open>
  One round: \<open>pipe\<close> tells whether the command pipe is readable, \<open>rds\<close> and \<open>wrs\<close> are the sockets
  that \<open>select\<close> reported, \<open>nready\<close> the number it returned.
\<close>

definition do_receive_round :: "peer_env \<Rightarrow> (nat \<Rightarrow> u8) \<Rightarrow> conn_env \<Rightarrow> (ptr \<Rightarrow> conn_env) \<Rightarrow> ptr \<Rightarrow> bool \<Rightarrow> int set \<Rightarrow> int set \<Rightarrow> nat \<Rightarrow>
    thread_world \<Rightarrow> (bool \<times> thread_world) option" where
  "do_receive_round e junk cc c fd pipe rds wrs nready t =
     (if pipe then do {
        (on, t) \<leftarrow> pipe_ready e cc fd t;
        if \<not> on \<or> nready = 1 then Some (on, t)
        else map_option (Pair True) (serve_peers e junk c rds wrs (th_peers t) (nready - 1) t)
      } else map_option (Pair True) (serve_peers e junk c rds wrs (th_peers t) nready t))"

section \<open>A round is a sequence of steps of the peers\<close>

lemma store_read_only: "store_read off d x = Some y \<Longrightarrow> only_read x y"
  by (auto simp: store_read_def split: if_splits bind_splits)

lemma start_message_only: "start_message ok junk x m = Some (Some y, m1) \<Longrightarrow> only_read x y"
proof -
  assume a: "start_message ok junk x m = Some (Some y, m1)"
  then obtain b d n where "y = x\<lparr>p_buf := (b, d), buf_len := 4, first_4bytes := n\<rparr>"
    by (auto simp: start_message_def Let_def split: if_splits bind_splits prod.splits)
  then show ?thesis using only_read_trans [OF only_read_trans [OF only_read_upd(2) only_read_upd(4)] only_read_upd(3)] by simp
qed

lemma read_loop_only: "read_loop ok junk off wanted s x m = Some (out, s', x', m') \<Longrightarrow> only_read x x'"
proof (induction "length (so_stream s)" arbitrary: off wanted s x m rule: less_induct)
  case less
  obtain r s1 where r: "recv (unat wanted) s = (r, s1)" by force
  show ?case
  proof (cases "\<exists>d. r = R_bytes d \<and> d \<noteq> []")
    case False
    then have "read_loop ok junk off wanted s x m = Some (no_data r, s1, x, m)"
      by (subst read_loop.simps) (cases r; simp add: r no_data_def)
    then show ?thesis using less.prems by simp
  next
    case True
    then obtain d where d: "recv (unat wanted) s = (R_bytes d, s1)" "d \<noteq> []" using r by blast
    have "store_read off d x \<noteq> None"
      using less.prems d by (subst (asm) read_loop.simps) (auto split: option.splits)
    then obtain y where y: "store_read off d x = Some y" by blast
    define z where "z = y\<lparr>buf_len := buf_len y + of_nat (length d)\<rparr>"
    have z: "only_read x z" unfolding z_def by (rule only_read_trans [OF store_read_only [OF y] only_read_upd(4)])
    note unf = read_loop_data [OF d y z_def, of ok junk m]
    note IH = less.hyps [OF recv_bytes(3) [OF d]]
    show ?thesis
    proof (cases "length d < unat wanted")
      case True
      then show ?thesis using IH less.prems unf only_read_trans [OF z] by simp
    next
      case False
      note f = this
      show ?thesis
      proof (cases "fst (p_buf z) = NULL")
        case True
        then consider m1 where "start_message ok junk z m = Some (None, m1)"
          | v m1 where "start_message ok junk z m = Some (Some v, m1)"
            "read_loop ok junk (unat (buf_len v)) (first_4bytes v - buf_len v) s1 v m1 = Some (out, s', x', m')"
          using less.prems unfolding unf by (auto simp: f split: option.splits)
        then show ?thesis
        proof cases
          case 1
          then show ?thesis using less.prems z unfolding unf by (simp add: f True)
        next
          case 2
          show ?thesis using only_read_trans [OF only_read_trans [OF z start_message_only [OF 2(1)]] IH [OF 2(2)]] .
        qed
      next
        case False
        then show ?thesis using less.prems unfolding unf
          using only_read_trans [OF z only_read_trans [OF only_read_trans [OF only_read_upd(2) only_read_upd(4)] only_read_upd(3)]]
          by (auto simp: f)
      qed
    qed
  qed
qed

lemma run_event_machine:
  "run_event e p ev i t = Some (r, t') \<Longrightarrow> peer_state_machine e p ev i (th_world t) = Some (r, th_world t')"
  by (auto simp: run_event_def Let_def split: bind_splits)

lemma fd_simps [simp]:
  "th_world (close_fd s t) = th_world t" "th_world (watch_read s t) = th_world t" "th_world (watch_write s t) = th_world t"
  by (simp_all add: close_fd_def watch_read_def watch_write_def)

text \<open>The three events in which an attempt to connect ends.\<close>

definition attempted :: "peer_env \<Rightarrow> ptr \<Rightarrow> peer_world \<Rightarrow> peer_world \<Rightarrow> bool" where
  "attempted e p w w' \<longleftrightarrow> (\<exists>ev \<in> {TCP_CONNECTED, TCP_CONN_IN_PROG, TCP_CONN_FAILED}. \<exists>i r. peer_state_machine e p ev i w = Some (r, w'))"

lemma run_event_attempted:
  assumes "run_event e p ev i t = Some (r, t')" and "ev = TCP_CONNECTED \<or> ev = TCP_CONN_IN_PROG \<or> ev = TCP_CONN_FAILED"
  shows "attempted e p (th_world t) (th_world t')"
  using run_event_machine [OF assms(1)] assms(2) unfolding attempted_def by blast

lemma do_connect_attempted:
  assumes "do_connect e c p sock t = Some t'"
  shows "attempted e p (th_world t) (th_world t')"
proof -
  obtain ev i r t1 where "run_event e p ev i t = Some (r, t1)" "ev = TCP_CONNECTED \<or> ev = TCP_CONN_FAILED" "th_world t' = th_world t1"
    using assms by (auto simp: do_connect_def split: if_splits option.splits bind_splits)
  then show ?thesis using run_event_attempted by metis
qed

lemma connect_failed_attempted: "connect_failed e p t = Some t' \<Longrightarrow> attempted e p (th_world t) (th_world t')"
  using run_event_attempted unfolding connect_failed_def by fastforce

lemma tcp_connect_attempted:
  assumes "tcp_connect e c p t = Some t'"
  shows "attempted e p (th_world t) (th_world t')"
proof -
  consider t1 where "connect_failed e p t1 = Some t'" "th_world t1 = th_world t"
    | "do_connect e c p (ce_socket c) t = Some t'"
    | r i t1 where "run_event e p TCP_CONN_IN_PROG i t = Some (r, t1)" "th_world t' = th_world t1"
    using assms fd_simps(1) by (fastforce simp: tcp_connect_def Let_def split: if_splits connect_result.splits bind_splits)
  then show ?thesis
  proof cases
    case 1
    then show ?thesis using connect_failed_attempted [OF 1(1)] by simp
  next
    case 2
    then show ?thesis by (rule do_connect_attempted)
  next
    case 3
    then show ?thesis using run_event_attempted [OF 3(1)] by simp
  qed
qed

lemma take_command_split: "take_command fd cs = Some (c, rest) \<Longrightarrow> \<exists>xs ys. cs = xs @ (fd, c) # ys \<and> rest = xs @ ys"
proof (induction cs arbitrary: rest)
  case (Cons a cs)
  show ?case
  proof (cases "fst a = fd")
    case True
    then show ?thesis using Cons.prems by (intro exI [of _ "[]"] exI [of _ cs]) (cases a; simp)
  next
    case False
    then obtain ds where "take_command fd cs = Some (c, ds)" "rest = a # ds" using Cons.prems by (cases a) auto
    then show ?thesis using Cons.IH by (metis append_Cons)
  qed
qed simp

lemma tcp_accept_event:
  assumes "tcp_accept e c p s t = Some t'"
  shows "th_world t' = th_world t \<or> (\<exists>i r. peer_state_machine e p TCP_ACCEPT i (th_world t) = Some (r, th_world t'))"
proof -
  consider "th_world t' = th_world t" | i r t1 where "run_event e p TCP_ACCEPT i t = Some (r, t1)" "th_world t' = th_world t1"
    using assms by (auto simp: tcp_accept_def split: if_splits option.splits bind_splits)
  then show ?thesis by cases (auto dest: run_event_machine)
qed

text \<open>A command is executed as one step.\<close>

lemma pipe_step:
  assumes "pipe_ready e c fd t = Some (on, t')"
  shows "(peer_step e)\<^sup>*\<^sup>* (th_world t) (th_world t')"
proof (cases "take_command fd (pw_cmds (th_world t))")
  case None
  then show ?thesis using assms by (simp add: pipe_ready_def)
next
  case (Some a)
  then obtain cmd rest where a: "take_command fd (pw_cmds (th_world t)) = Some (cmd, rest)" by (cases a) simp
  from take_command_split [OF this] obtain xs ys where
    xy: "pw_cmds (th_world t) = xs @ (fd, cmd) # ys" "rest = xs @ ys" by blast
  let ?w = "(th_world t)\<lparr>pw_cmds := xs @ ys\<rparr>"
  have x: "exec_command e c cmd (t\<lparr>th_world := ?w\<rparr>) = Some (on, t')" using assms a xy by (simp add: pipe_ready_def)
  have go: ?thesis if "peer_state_machine e p ev i ?w = Some (r, th_world t')" "cmd_runs cmd p ev i" for p ev i r
    by (rule r_into_rtranclp [where r = "peer_step e"]) (rule ps_command [OF xy(1) that(2,1)])
  have drop: ?thesis if "th_world t' = ?w" "cmd_dropped cmd"
    unfolding that(1) by (rule r_into_rtranclp [where r = "peer_step e"]) (rule ps_drop [OF xy(1) that(2)])
  have conn: ?thesis if "attempted e p ?w (th_world t')" "cmd = ADD_PEER_CMD p \<or> cmd = CONNECT_CMD p" for p
    using that go unfolding attempted_def cmd_runs_def by auto
  show ?thesis
  proof (cases cmd)
    case SHUTDOWN_CMD
    then show ?thesis using x by (intro drop) (auto simp: exec_command_def cmd_dropped_def)
  next
    case START_ACCEPT_CMD
    then show ?thesis using x by (intro drop) (auto simp: exec_command_def cmd_dropped_def)
  next
    case (CONNECT_CMD p)
    then show ?thesis using x conn [of p] by (auto simp: exec_command_def split: if_splits dest!: tcp_connect_attempted)
  next
    case (ADD_PEER_CMD p)
    then show ?thesis using x conn [of p] by (auto simp: exec_command_def split: if_splits dest!: tcp_connect_attempted)
  next
    case (ACCEPTED_CMD s p)
    then have "tcp_accept e c p s (t\<lparr>th_world := ?w\<rparr>) = Some t'" using x by (auto simp: exec_command_def split: if_splits)
    from tcp_accept_event [OF this] consider "th_world t' = ?w" | i r where "peer_state_machine e p TCP_ACCEPT i ?w = Some (r, th_world t')"
      by auto
    then show ?thesis
    proof cases
      case 1
      then show ?thesis by (rule drop) (simp add: ACCEPTED_CMD cmd_dropped_def)
    next
      case 2
      then show ?thesis by (rule go) (simp add: ACCEPTED_CMD cmd_runs_def)
    qed
  next
    case (INACTIVITY_CMD p)
    then show ?thesis using x go by (auto simp: exec_command_def cmd_runs_def dest!: run_event_machine)
  next
    case (TIMEOUT_PEER_CMD ev p n)
    then show ?thesis using x go by (auto simp: exec_command_def cmd_runs_def dest!: run_event_machine)
  next
    case (CLOSE_CMD p)
    then show ?thesis using x go by (auto simp: exec_command_def cmd_runs_def dest!: run_event_machine)
  qed
qed

lemma read_step:
  assumes "only_read (pw_peers w p) x"
  shows "(peer_step e)\<^sup>*\<^sup>* w ((upd p (\<lambda>_. x) w)\<lparr>pw_tr := tw\<rparr>)"
proof -
  from assms obtain f n b where x: "x = (pw_peers w p)\<lparr>first_4bytes := f, buf_len := n, p_buf := b\<rparr>"
    unfolding only_read_def by blast
  have "upd p (\<lambda>_. x) w = upd p (\<lambda>x. x\<lparr>first_4bytes := f, buf_len := n, p_buf := b\<rparr>) w" by (simp add: upd_def x)
  then have "peer_step e w (upd p (\<lambda>_. x) w)" using ps_read by metis
  moreover have "peer_step e (upd p (\<lambda>_. x) w) ((upd p (\<lambda>_. x) w)\<lparr>pw_tr := tw\<rparr>)" by (rule ps_trans)
  ultimately show ?thesis by (meson converse_rtranclp_into_rtranclp rtranclp.rtrancl_refl)
qed

lemma do_read_steps:
  assumes "do_read e junk p s w = Some (r, s', w')" and "p \<noteq> NULL"
  shows "(peer_step e)\<^sup>*\<^sup>* w w'"
proof -
  let ?x = "pw_peers w p"
  let ?wanted = "if fst (p_buf ?x) = NULL then 4 - buf_len ?x else first_4bytes ?x - buf_len ?x"
  from assms(1) obtain out s1 x m where
    l: "read_loop (env_ok e) junk (unat (buf_len ?x)) ?wanted s ?x (tw_shm (pw_tr w)) = Some (out, s1, x, m)"
    and o: "(case out of RO_msg b \<Rightarrow> do { w \<leftarrow> dispatch_message e p b ((upd p (\<lambda>_. x) w)\<lparr>pw_tr := (pw_tr w)\<lparr>tw_shm := m\<rparr>\<rparr>); Some (1, s1, w) }
       | RO_again \<Rightarrow> Some (1, s1, (upd p (\<lambda>_. x) w)\<lparr>pw_tr := (pw_tr w)\<lparr>tw_shm := m\<rparr>\<rparr>)
       | _ \<Rightarrow> Some (- 1, s1, (upd p (\<lambda>_. x) w)\<lparr>pw_tr := (pw_tr w)\<lparr>tw_shm := m\<rparr>\<rparr>)) = Some (r, s', w')"
    by (auto simp: do_read_def Let_def split: bind_splits)
  let ?w = "(upd p (\<lambda>_. x) w)\<lparr>pw_tr := (pw_tr w)\<lparr>tw_shm := m\<rparr>\<rparr>"
  note rd = read_step [OF read_loop_only [OF l], of e "(pw_tr w)\<lparr>tw_shm := m\<rparr>"]
  show ?thesis
  proof (cases "\<exists>b. out = RO_msg b")
    case True
    then obtain b where "dispatch_message e p b ?w = Some w'" using o by (auto split: bind_splits)
    then have "peer_step e ?w w'" by (rule ps_message [OF assms(2)])
    with rd show ?thesis by (rule rtranclp.rtrancl_into_rtrancl)
  next
    case False
    then have "w' = ?w" using o by (cases out) auto
    then show ?thesis using rd by simp
  qed
qed

lemma peer_readable_steps:
  assumes "peer_readable e junk p t = Some t'" and "p \<noteq> NULL"
  shows "(peer_step e)\<^sup>*\<^sup>* (th_world t) (th_world t')"
proof -
  let ?sock = "p_sock (pw_peers (th_world t) p)"
  from assms(1) obtain r s w where d: "do_read e junk p (th_socks t ?sock) (th_world t) = Some (r, s, w)"
    by (cases "do_read e junk p (th_socks t ?sock) (th_world t)") (auto simp: peer_readable_def)
  let ?closed = "set (drop (length (pw_closed (th_world t))) (pw_closed w))"
  define t1 where "t1 = t\<lparr>th_world := w, rd_set := rd_set t - ?closed, wr_set := wr_set t - ?closed, th_socks := (th_socks t)(?sock := s)\<rparr>"
  have t1: "th_world t1 = w" "(if r = - 1 then map_option snd (run_event e p TCP_CONN_CLOSE I_none t1) else Some t1) = Some t'"
    using assms(1) d by (simp add: t1_def, simp only: peer_readable_def t1_def Let_def bind.bind_lunit prod.case)
  note st = do_read_steps [OF d assms(2)]
  show ?thesis
  proof (cases "r = - 1")
    case True
    then obtain r' where "run_event e p TCP_CONN_CLOSE I_none t1 = Some (r', t')" using t1(2) by auto
    from ps_event [OF run_event_machine [OF this]] have "peer_step e w (th_world t')" unfolding t1(1) .
    with st show ?thesis by (rule rtranclp.rtrancl_into_rtrancl)
  next
    case False
    then show ?thesis using st t1 by simp
  qed
qed

lemma attempted_step: "attempted e p w w' \<Longrightarrow> peer_step e w w'"
  unfolding attempted_def using ps_event by blast

lemma peer_writable_step:
  assumes "peer_writable e c p t = Some t'"
  shows "peer_step e (th_world t) (th_world t')"
proof -
  consider t1 where "connect_failed e p t1 = Some t'" "th_world t1 = th_world t"
    | t1 where "do_connect e c p (p_sock (pw_peers (th_world t) p)) t1 = Some t'" "th_world t1 = th_world t"
    using assms by (fastforce simp: peer_writable_def Let_def close_fd_def split: if_splits)
  then have "attempted e p (th_world t) (th_world t')"
    by cases (metis connect_failed_attempted, metis do_connect_attempted)
  then show ?thesis by (rule attempted_step)
qed

lemma serve_peers_steps:
  "serve_peers e junk c rds wrs ps nready t = Some t' \<Longrightarrow> (peer_step e)\<^sup>*\<^sup>* (th_world t) (th_world t')"
proof (induction ps arbitrary: nready t)
  case (Cons p ps)
  let ?sock = "p_sock (pw_peers (th_world t) p)"
  note run = Cons.prems [unfolded serve_peers.simps Let_def]
  show ?case
  proof (cases "nready = 0 \<or> p = NULL")
    case True
    then show ?thesis using run by (auto split: if_splits)
  next
    case False
    then have p: "p \<noteq> NULL" "nready \<noteq> 0" by simp_all
    consider (rd) "?sock \<noteq> - 1 \<and> ?sock \<in> rds" | (wr) "\<not> (?sock \<noteq> - 1 \<and> ?sock \<in> rds)" "?sock \<noteq> - 1 \<and> ?sock \<in> wrs"
      | (no) "\<not> (?sock \<noteq> - 1 \<and> ?sock \<in> rds)" "\<not> (?sock \<noteq> - 1 \<and> ?sock \<in> wrs)" by blast
    then show ?thesis
    proof cases
      case rd
      then obtain t1 where 2: "peer_readable e junk p t = Some t1" "serve_peers e junk c rds wrs ps (nready - 1) t1 = Some t'"
        using run p by (auto split: bind_splits)
      show ?thesis by (rule rtranclp_trans [OF peer_readable_steps [OF 2(1) p(1)] Cons.IH [OF 2(2)]])
    next
      case wr
      then obtain t1 where 3: "peer_writable e (c p) p t = Some t1" "serve_peers e junk c rds wrs ps (nready - 1) t1 = Some t'"
        using run p by (simp split: bind_splits)
      show ?thesis by (rule converse_rtranclp_into_rtranclp [where r = "peer_step e", OF peer_writable_step [OF 3(1)] Cons.IH [OF 3(2)]])
    next
      case no
      then have "serve_peers e junk c rds wrs ps nready t = Some t'" using run p by (simp only: if_False simp_thms)
      then show ?thesis by (rule Cons.IH)
    qed
  qed
qed simp

lemma round_steps:
  assumes "do_receive_round e junk cc c fd pipe rds wrs nready t = Some (on, t')"
  shows "(peer_step e)\<^sup>*\<^sup>* (th_world t) (th_world t')"
proof (cases pipe)
  case True
  then obtain b t1 where p: "pipe_ready e cc fd t = Some (b, t1)"
    "(if \<not> b \<or> nready = 1 then Some (b, t1) else map_option (Pair True) (serve_peers e junk c rds wrs (th_peers t1) (nready - 1) t1)) = Some (on, t')"
    using assms by (auto simp: do_receive_round_def split: bind_splits)
  note st = pipe_step [OF p(1)]
  show ?thesis
  proof (cases "\<not> b \<or> nready = 1")
    case False
    then have "serve_peers e junk c rds wrs (th_peers t1) (nready - 1) t1 = Some t'" using p(2) by auto
    then show ?thesis by (rule rtranclp_trans [OF st serve_peers_steps])
  qed (use st p(2) in auto)
next
  case False
  then show ?thesis using assms serve_peers_steps by (auto simp: do_receive_round_def)
qed

section \<open>Properties\<close>

text \<open>
  The rounds of a thread, mixed with whatever other threads do to the peers: those are steps of
  the peers too.
\<close>

inductive thread_run :: "peer_env \<Rightarrow> thread_world \<Rightarrow> thread_world \<Rightarrow> bool" for e where
  tr_start: "thread_run e t t"
| tr_round: "thread_run e t t1 \<Longrightarrow> do_receive_round e junk cc c fd pipe rds wrs nready t1 = Some (on, t') \<Longrightarrow> thread_run e t t'"
| tr_others: "thread_run e t t1 \<Longrightarrow> (peer_step e)\<^sup>*\<^sup>* (th_world t1) w \<Longrightarrow> thread_run e t (t1\<lparr>th_world := w\<rparr>)"

lemma thread_run_steps: "thread_run e t t' \<Longrightarrow> (peer_step e)\<^sup>*\<^sup>* (th_world t) (th_world t')"
proof (induction rule: thread_run.induct)
  case (tr_round t t1 junk cc c fd pipe rds wrs nready on t')
  show ?case by (rule rtranclp_trans [OF tr_round.IH round_steps [OF tr_round.hyps(2)]])
qed (auto intro: rtranclp_trans)


definition sample_thread :: thread_world where
  "sample_thread = \<lparr>th_world = snd (add_peer sample_env (\<lambda>_. Some \<lparr>ip_af6 = False, ip_bytes = [10, 0, 0, 2]\<rparr>) True True
      (\<lambda>_. (1, 2)) 3 (7, 8) [98] [98] sample_peer_world), rd_set = {}, wr_set = {}, th_peers = [],
     th_socks = (\<lambda>_. \<lparr>so_stream = [], so_fin = False, so_calls = 0, so_offer = \<lambda>_. O_again\<rparr>), th_closed = []\<rparr>"

definition sample_conn :: conn_env where
  "sample_conn = \<lparr>ce_socket = 9, ce_init_su = True, ce_connect = C_error, ce_nodelay = True, ce_local = None, ce_established = False\<rparr>"

lemma sample_thread_peer:
  "add_peer sample_env (\<lambda>_. Some \<lparr>ip_af6 = False, ip_bytes = [10, 0, 0, 2]\<rparr>) True True (\<lambda>_. (1, 2)) 3 (7, 8) [98] [98]
     sample_peer_world = (1, th_world sample_thread)"
  "p_state (pw_peers (th_world sample_thread) 1) = PEER_UNCONN" "pw_cmds (th_world sample_thread) = [(3, ADD_PEER_CMD 1)]"
  by (simp_all add: sample_thread_def add_peer_def peer_alloc_def shm_malloc_def sample_env_def sample_peer_world_def fresh_peer_def
      build_htable_def empty_table_def write_command_def Let_def)


lemma closed_simps [simp]:
  "pw_closed (rmv_reconn p w) = pw_closed w" "pw_closed (rmv_wait_cer p w) = pw_closed w" "pw_closed (add_reconn p n w) = pw_closed w"
  "pw_closed (list_del_safe p w) = pw_closed w" "pw_closed (peer_free a w) = pw_closed w"
  by (simp_all add: rmv_reconn_def rmv_wait_cer_def add_reconn_def list_del_safe_def peer_free_def)

lemma reset_peer_closed [simp]: "pw_closed (reset_peer p w) = pw_closed w"
  by (simp add: reset_peer_def Let_def)

text \<open>
  A closed socket is watched. When a connection has been established but no memory is left
  for the capabilities request, the state machine closes the socket and resets the peer, and
  still reports success; \<open>do_connect\<close> then adds the closed socket to the set of watched sockets,
  although no peer owns it any more.
\<close>

lemma closed_socket_watched:
  assumes "p \<noteq> NULL" and "p_state (pw_peers (th_world t) p) = PEER_UNCONN" and "ce_nodelay c" and "ce_local c = Some ip"
    and "\<not> env_ok e (shm_calls (tw_shm (pw_tr (th_world t))))"
  shows "\<exists>t'. do_connect e c p sock t = Some t' \<and> p_state (pw_peers (th_world t') p) = PEER_UNCONN \<and>
    p_sock (pw_peers (th_world t') p) = - 1 \<and> sock \<in> set (pw_closed (th_world t')) \<and> sock \<in> rd_set t'"
proof -
  let ?w1 = "upd p (\<lambda>x. x\<lparr>p_flags := p_flags x AND 0, p_sock := sock, local_ip := ip\<rparr>) (th_world t)"
  from assms(5) obtain w2 where w2: "send_cer e p ?w1 = Some (- 1, w2)" "pw_peers w2 = pw_peers ?w1" "pw_closed w2 = pw_closed (th_world t)"
    by (simp add: send_cer_def send_buffer_def peer_alloc_def shm_malloc_def Let_def)
  let ?w = "reset_peer p (tcp_close p w2)"
  have "peer_state_machine e p TCP_CONNECTED (I_tcp sock ip) (th_world t) = Some (1, ?w)"
    using assms(1,2) w2(1) by (simp add: peer_state_machine_def sm_tcp_connected_def Let_def)
  moreover have "pw_closed ?w = pw_closed (th_world t) @ [sock]" "p_sock (pw_peers ?w p) = - 1" "p_state (pw_peers ?w p) = PEER_UNCONN"
    using assms(2) w2(2,3) by (simp_all add: tcp_close_def reset_fields_def reset_peer_effect)
  ultimately show ?thesis using assms(3,4) by (simp add: do_connect_def run_event_def watch_read_def Let_def)
qed

end
