(* ===== verification/Uri_Parser.thy ===== *)
theory Uri_Parser
  imports Disc_Prelude
begin

text \<open>
  The parser of AAA URIs (aaa\_parse\_uri.c), the form in which the configuration names peers:
  \<open>aaa://host:port;transport=...;protocol=...\<close>. The loop reads the characters one after the other
  in the states of the source; pointers into the text are offsets.
\<close>

section \<open>The parser\<close>

text \<open>A \<open>str\<close> that points into the text: offset and length; None is the zeroed structure.\<close>

type_synonym substr = "(nat \<times> nat) option"

record aaa_uri =
  uri_host :: substr
  uri_port :: substr
  uri_params :: substr
  uri_transport :: substr
  uri_protocol :: substr
  port_no :: u16

datatype uri_state = URI_INIT | URI_HOST | URI_PORT | URI_PARAM | URI_PARAM_EAT | URI_PARAM_VAL

datatype uri_param = P_transport | P_protocol

text \<open>The variables of the loop; \<open>pv_port\<close> is the int \<open>port_no\<close>.\<close>

record parse_vars =
  pv_state :: uri_state
  pv_s :: nat
  pv_t :: nat
  pv_param :: uri_param
  pv_port :: nat
  pv_uri :: aaa_uri

datatype uri_error = Uri_too_short | Uri_bad_char | Uri_bad_uri

definition set_param :: "uri_param \<Rightarrow> substr \<Rightarrow> aaa_uri \<Rightarrow> aaa_uri" where
  "set_param a v u = (case a of P_transport \<Rightarrow> u\<lparr>uri_transport := v\<rparr> | P_protocol \<Rightarrow> u\<lparr>uri_protocol := v\<rparr>)"

text \<open>The literals \<open>ransport=\<close> and \<open>rotocol=\<close>.\<close>

definition RANSPORT_STR :: bytes where "RANSPORT_STR = [114, 97, 110, 115, 112, 111, 114, 116, 61]"
definition ROTOCOL_STR :: bytes where "ROTOCOL_STR = [114, 111, 116, 111, 99, 111, 108, 61]"

text \<open>
  \<open>uri_loop rest p v\<close>: the characters from offset \<open>p\<close> on are \<open>rest\<close>. The codes are those of the
  characters in the source: 38 \<open>&\<close>, 48 to 57 the digits, 58 colon, 59 semicolon, 61 \<open>=\<close>, 63 \<open>?\<close>,
  64 \<open>@\<close>, 80 \<open>P\<close>, 84 \<open>T\<close>, 112 \<open>p\<close>, 116 \<open>t\<close>. After a parameter name the pointer is set to
  its value and then incremented by the loop as well. None is an overflow of the int \<open>port_no\<close>.
\<close>

definition uri_end :: "nat \<Rightarrow> parse_vars \<Rightarrow> uri_error + aaa_uri" where
  "uri_end p v =
     (let u = pv_uri v; here = Some (pv_s v, p - pv_s v)
      in case pv_state v of
           URI_INIT \<Rightarrow> Inl Uri_too_short
         | URI_HOST \<Rightarrow> Inr (u\<lparr>uri_host := here\<rparr>)
         | URI_PORT \<Rightarrow> Inr (u\<lparr>uri_port := here, port_no := of_nat (pv_port v)\<rparr>)
         | URI_PARAM \<Rightarrow> Inr (u\<lparr>uri_params := here\<rparr>)
         | URI_PARAM_EAT \<Rightarrow> Inr (u\<lparr>uri_params := here\<rparr>)
         | URI_PARAM_VAL \<Rightarrow> Inr (set_param (pv_param v) (Some (pv_t v, p - pv_t v)) (u\<lparr>uri_params := here\<rparr>)))"

definition uri_host_char :: "u8 \<Rightarrow> nat \<Rightarrow> parse_vars \<Rightarrow> uri_error + parse_vars" where
  "uri_host_char c p v =
     (let u = (pv_uri v)\<lparr>uri_host := Some (pv_s v, p - pv_s v)\<rparr>
      in if c = 58 then Inr (v\<lparr>pv_uri := u, pv_state := URI_PORT, pv_s := p + 1\<rparr>)
         else if c = 59 then Inr (v\<lparr>pv_uri := u, pv_state := URI_PARAM, pv_s := p + 1\<rparr>)
         else if c = 38 \<or> c = 64 \<or> c = 63 then Inl Uri_bad_char
         else Inr v)"

definition uri_port_char :: "u8 \<Rightarrow> nat \<Rightarrow> parse_vars \<Rightarrow> (uri_error + parse_vars) option" where
  "uri_port_char c p v =
     (if c = 59 then Some (Inr (v\<lparr>pv_uri := (pv_uri v)\<lparr>uri_port := Some (pv_s v, p - pv_s v), port_no := of_nat (pv_port v)\<rparr>,
        pv_state := URI_PARAM, pv_s := p + 1\<rparr>))
      else if 48 \<le> c \<and> c \<le> 57 then
        (let n = pv_port v * 10 + unat (c - 48) in if n < 2 ^ 31 then Some (Inr (v\<lparr>pv_port := n\<rparr>)) else None)
      else Some (Inl Uri_bad_char))"

text \<open>The parameter whose name starts here, if there is one, and the length of the rest of the name.\<close>

definition param_name :: "u8 \<Rightarrow> bytes \<Rightarrow> (uri_param \<times> nat) option" where
  "param_name c cs =
     (if c = 116 \<or> c = 84 then
        (if 9 \<le> length cs \<and> strncasecmp_eq (take 9 cs) RANSPORT_STR then Some (P_transport, 9) else None)
      else if 8 \<le> length cs \<and> strncasecmp_eq (take 8 cs) ROTOCOL_STR then Some (P_protocol, 8) else None)"

fun uri_loop :: "bytes \<Rightarrow> nat \<Rightarrow> parse_vars \<Rightarrow> (uri_error + aaa_uri) option" where
  "uri_loop [] p v = Some (uri_end p v)"
| "uri_loop (c # cs) p v =
     (case pv_state v of
        URI_INIT \<Rightarrow> uri_loop cs (p + 1) (v\<lparr>pv_s := p, pv_state := URI_HOST\<rparr>)
      | URI_HOST \<Rightarrow>
          (case uri_host_char c p v of Inl e \<Rightarrow> Some (Inl e) | Inr v1 \<Rightarrow> uri_loop cs (p + 1) v1)
      | URI_PORT \<Rightarrow>
          (case uri_port_char c p v of None \<Rightarrow> None | Some (Inl e) \<Rightarrow> Some (Inl e) | Some (Inr v1) \<Rightarrow> uri_loop cs (p + 1) v1)
      | URI_PARAM \<Rightarrow>
          (if c = 116 \<or> c = 84 \<or> c = 112 \<or> c = 80 then
             (case param_name c cs of
                None \<Rightarrow> uri_loop cs (p + 1) (v\<lparr>pv_state := URI_PARAM_EAT\<rparr>)
              | Some (a, n) \<Rightarrow>
                  uri_loop (drop (n + 1) cs) (p + n + 2) (v\<lparr>pv_t := p + n + 1, pv_param := a, pv_state := URI_PARAM_VAL\<rparr>))
           else uri_loop cs (p + 1) v)
      | URI_PARAM_EAT \<Rightarrow> uri_loop cs (p + 1) (if c = 59 then v\<lparr>pv_state := URI_PARAM\<rparr> else v)
      | URI_PARAM_VAL \<Rightarrow>
          uri_loop cs (p + 1)
            (if c = 59 then v\<lparr>pv_state := URI_PARAM, pv_uri := set_param (pv_param v) (Some (pv_t v, p - pv_t v)) (pv_uri v)\<rparr> else v))"

definition zero_uri :: aaa_uri where
  "zero_uri = \<lparr>uri_host = None, uri_port = None, uri_params = None, uri_transport = None, uri_protocol = None, port_no = 0\<rparr>"

definition aaa_parse_uri :: "bytes \<Rightarrow> (uri_error + aaa_uri) option" where
  "aaa_parse_uri buf =
     (if length buf < 6 then Some (Inl Uri_too_short)
      else if \<not> (map (\<lambda>c. c OR 0x20) (take 3 buf) = [97, 97, 97] \<and> take 3 (drop 3 buf) = [58, 47, 47]) then Some (Inl Uri_bad_uri)
      else uri_loop (drop 6 buf) 6
        \<lparr>pv_state = URI_INIT, pv_s = 0, pv_t = 0, pv_param = P_transport, pv_port = 0, pv_uri = zero_uri\<rparr>)"

section \<open>The parts lie inside the text\<close>

definition inside :: "nat \<Rightarrow> substr \<Rightarrow> bool" where
  "inside n x \<longleftrightarrow> (case x of None \<Rightarrow> True | Some (s, l) \<Rightarrow> s + l \<le> n)"

definition uri_inside :: "nat \<Rightarrow> aaa_uri \<Rightarrow> bool" where
  "uri_inside n u \<longleftrightarrow> inside n (uri_host u) \<and> inside n (uri_port u) \<and> inside n (uri_params u) \<and>
     inside n (uri_transport u) \<and> inside n (uri_protocol u)"

lemma uri_inside_set_param: "uri_inside n u \<Longrightarrow> inside n x \<Longrightarrow> uri_inside n (set_param a x u)"
  by (cases a) (simp_all add: uri_inside_def set_param_def)

definition vars_ok :: "nat \<Rightarrow> nat \<Rightarrow> parse_vars \<Rightarrow> bool" where
  "vars_ok n p v \<longleftrightarrow> p \<le> n \<and> pv_s v \<le> p \<and> uri_inside n (pv_uri v) \<and> (pv_state v = URI_PARAM_VAL \<longrightarrow> pv_t v \<le> p)"

lemma vars_ok_end: "vars_ok n p v \<Longrightarrow> uri_end p v = Inr u \<Longrightarrow> uri_inside n u"
  by (cases "pv_state v") (auto simp: vars_ok_def uri_end_def Let_def uri_inside_def inside_def set_param_def split: uri_param.splits)

lemma vars_ok_next: "vars_ok n p v \<Longrightarrow> p + 1 \<le> n \<Longrightarrow> vars_ok n (p + 1) v"
  by (auto simp: vars_ok_def)

lemma to_lower_eq_sign: "to_lower c = 61 \<Longrightarrow> c = 61"
proof -
  assume a: "to_lower c = 61"
  have False if "65 \<le> c" "c \<le> 90" "c + 32 = 61"
  proof -
    from that(3) have "c = 61 - 32" by (simp only: eq_diff_eq)
    with that(1) show False by simp
  qed
  then show ?thesis using a by (auto simp: to_lower_def split: if_splits)
qed

lemma strncasecmp_whole:
  assumes "strncasecmp_eq a b" and "0 \<notin> set b" and "length a = length b"
  shows "map to_lower a = map to_lower b"
proof -
  have b: "takeWhile (\<lambda>c. c \<noteq> 0) b = b" using assms(2) by (intro takeWhile_eq_all_conv [THEN iffD2]) auto
  have e: "map to_lower (takeWhile (\<lambda>c. c \<noteq> 0) a) = map to_lower b" using assms(1) unfolding strncasecmp_eq_def b .
  then have "length (takeWhile (\<lambda>c. c \<noteq> 0) a) = length a" using assms(3) by (metis length_map)
  then have "takeWhile (\<lambda>c. c \<noteq> 0) a = a" by (metis append_eq_conv_conj takeWhile_eq_take take_all_iff order_refl)
  then show ?thesis using e by metis
qed

lemma name_ends:
  assumes "param_name c cs = Some (a, length cs)"
  shows "cs \<noteq> [] \<and> last cs = 61"
proof -
  from assms obtain b where b: "strncasecmp_eq cs b" "0 \<notin> set b" "length cs = length b" "b \<noteq> []" "last b = 61"
    by (fastforce simp: param_name_def RANSPORT_STR_def ROTOCOL_STR_def split: if_splits)
  have "map to_lower cs = map to_lower b" by (rule strncasecmp_whole [OF b(1-3)])
  moreover have "cs \<noteq> []" using b(3,4) by auto
  ultimately have "to_lower (last cs) = to_lower (last b)" by (metis last_map b(4))
  then have "to_lower (last cs) = 61" using b(5) by (simp add: to_lower_def)
  then show ?thesis using to_lower_eq_sign \<open>cs \<noteq> []\<close> by blast
qed

lemma param_name_length: "param_name c cs = Some (a, n) \<Longrightarrow> n \<le> length cs"
  by (auto simp: param_name_def split: if_splits)

lemma uri_loop_inside:
  "vars_ok n p v \<Longrightarrow> p + length rest \<le> n \<Longrightarrow> rest = [] \<or> last rest \<noteq> 61 \<or> p + length rest < n \<Longrightarrow>
   uri_loop rest p v = Some (Inr u) \<Longrightarrow> uri_inside n u"
proof (induction rest p v rule: uri_loop.induct)
  case (1 p v)
  then show ?case using vars_ok_end by simp
next
  case (2 c cs p v)
  have n: "vars_ok n (p + 1) v" "p + 1 + length cs \<le> n" using "2.prems"(1,2) vars_ok_next by simp_all
  have l: "cs = [] \<or> last cs \<noteq> 61 \<or> p + 1 + length cs < n" using "2.prems"(3) by (auto split: if_splits)
  show ?case
  proof (cases "pv_state v")
    case URI_INIT
    then show ?thesis using "2.IH"(1) "2.prems"(4) n l by (simp add: vars_ok_def)
  next
    case URI_HOST
    then obtain v1 where v1: "uri_host_char c p v = Inr v1" "uri_loop cs (p + 1) v1 = Some (Inr u)"
      using "2.prems"(4) by (auto split: sum.splits)
    then have "vars_ok n (p + 1) v1"
      using n "2.prems"(1) URI_HOST by (auto simp: uri_host_char_def Let_def vars_ok_def uri_inside_def inside_def split: if_splits)
    then show ?thesis using "2.IH"(2) [OF URI_HOST v1(1)] n l v1(2) by simp
  next
    case URI_PORT
    then obtain v1 where v1: "uri_port_char c p v = Some (Inr v1)" "uri_loop cs (p + 1) v1 = Some (Inr u)"
      using "2.prems"(4) by (auto split: sum.splits option.splits)
    then have "vars_ok n (p + 1) v1"
      using n "2.prems"(1) URI_PORT by (auto simp: uri_port_char_def Let_def vars_ok_def uri_inside_def inside_def split: if_splits)
    then show ?thesis using "2.IH"(3) [OF URI_PORT v1(1) refl] n l v1(2) by simp
  next
    case URI_PARAM
    show ?thesis
    proof (cases "c = 116 \<or> c = 84 \<or> c = 112 \<or> c = 80")
      case False
      then show ?thesis using "2.IH"(6) [OF URI_PARAM] "2.prems"(4) URI_PARAM n l by simp
    next
      case True
      show ?thesis
      proof (cases "param_name c cs")
        case None
        have "vars_ok n (p + 1) (v\<lparr>pv_state := URI_PARAM_EAT\<rparr>)" using n(1) by (simp add: vars_ok_def)
        then show ?thesis using "2.IH"(4) [OF URI_PARAM True None] "2.prems"(4) URI_PARAM True None n l by simp
      next
        case (Some an)
        obtain a k where an: "an = (a, k)" by force
        let ?v = "v\<lparr>pv_t := p + k + 1, pv_param := a, pv_state := URI_PARAM_VAL\<rparr>"
        have k: "k \<le> length cs" using param_name_length Some an by blast
        have e: "k = length cs \<longrightarrow> p + k + 2 \<le> n" using name_ends [of c cs a] Some an l by auto
        have "vars_ok n (p + k + 2) ?v" using n k e "2.prems"(1) by (auto simp: vars_ok_def)
        moreover have "p + k + 2 + length (drop (k + 1) cs) \<le> n" using n(2) k e by (cases "k = length cs") auto
        moreover have "drop (k + 1) cs = [] \<or> last (drop (k + 1) cs) \<noteq> 61 \<or> p + k + 2 + length (drop (k + 1) cs) < n"
          using l k by (cases "k + 1 < length cs") auto
        ultimately show ?thesis
          using "2.IH"(5) [OF URI_PARAM True Some [unfolded an] refl] "2.prems"(4) URI_PARAM True Some an by simp
      qed
    qed
  next
    case URI_PARAM_EAT
    then show ?thesis using "2.IH"(7) "2.prems"(4) n l by (simp add: vars_ok_def)
  next
    case URI_PARAM_VAL
    then show ?thesis using "2.IH"(8) "2.prems" n l
      by (simp add: vars_ok_def uri_inside_set_param inside_def)
  qed
qed

section \<open>Reading what is written\<close>

text \<open>The characters that end a host name or are refused in it.\<close>

definition host_char :: "u8 \<Rightarrow> bool" where
  "host_char c \<longleftrightarrow> c \<noteq> 58 \<and> c \<noteq> 59 \<and> c \<noteq> 38 \<and> c \<noteq> 64 \<and> c \<noteq> 63"

fun decimal :: "nat \<Rightarrow> bytes" where
  "decimal n = (if n < 10 then [of_nat (48 + n)] else decimal (n div 10) @ [of_nat (48 + n mod 10)])"

declare decimal.simps [simp del]

definition port_text :: "nat option \<Rightarrow> bytes" where
  "port_text x = (case x of None \<Rightarrow> [] | Some n \<Rightarrow> 58 # decimal n)"

definition transport_text :: "bytes option \<Rightarrow> bytes" where
  "transport_text x = (case x of None \<Rightarrow> [] | Some t \<Rightarrow> 59 # 116 # RANSPORT_STR @ t)"

definition protocol_text :: "bytes option \<Rightarrow> bytes" where
  "protocol_text x = (case x of None \<Rightarrow> [] | Some t \<Rightarrow> 59 # 112 # ROTOCOL_STR @ t)"

definition uri_text :: "bytes \<Rightarrow> nat option \<Rightarrow> bytes option \<Rightarrow> bytes option \<Rightarrow> bytes" where
  "uri_text host port transport protocol =
     [97, 97, 97, 58, 47, 47] @ host @ port_text port @ transport_text transport @ protocol_text protocol"

definition value_ok :: "bytes option \<Rightarrow> bool" where
  "value_ok x \<longleftrightarrow> (case x of None \<Rightarrow> True | Some t \<Rightarrow> t \<noteq> [] \<and> 59 \<notin> set t)"

text \<open>The bytes that a part of the URI denotes.\<close>

definition part :: "bytes \<Rightarrow> substr \<Rightarrow> bytes option" where
  "part buf x = map_option (\<lambda>(s, l). take l (drop s buf)) x"

lemma host_run:
  "pv_state v = URI_HOST \<Longrightarrow> \<forall>c \<in> set cs. host_char c \<Longrightarrow> uri_loop (cs @ rest) p v = uri_loop rest (p + length cs) v"
  by (induction cs arbitrary: p) (auto simp: host_char_def uri_host_char_def)

lemma value_run:
  "pv_state v = URI_PARAM_VAL \<Longrightarrow> 59 \<notin> set cs \<Longrightarrow> uri_loop (cs @ rest) p v = uri_loop rest (p + length cs) v"
  by (induction cs arbitrary: p) auto

definition read_digits :: "nat \<Rightarrow> bytes \<Rightarrow> nat" where
  "read_digits = foldl (\<lambda>n c. n * 10 + unat (c - 48))"

lemma digit: "d < 10 \<Longrightarrow> unat (of_nat (48 + d) - 48 :: u8) = d \<and> (48 :: u8) \<le> of_nat (48 + d) \<and> (of_nat (48 + d) :: u8) \<le> 57"
proof -
  assume "d < 10"
  then have "d \<in> {0, 1, 2, 3, 4, 5, 6, 7, 8, 9}" by auto
  then show ?thesis by auto
qed

lemma digit_step:
  assumes "pv_state v = URI_PORT" and "d < 10" and "pv_port v * 10 + d < 2 ^ 31"
  shows "uri_loop (of_nat (48 + d) # rest) p v = uri_loop rest (p + 1) (v\<lparr>pv_port := pv_port v * 10 + d\<rparr>)"
proof -
  have "(of_nat (48 + d) :: u8) \<noteq> 59" using digit [OF assms(2)] by auto
  then show ?thesis using assms(1,3) digit [OF assms(2)] by (simp add: uri_port_char_def Let_def del: of_nat_add)
qed

lemma port_run:
  "pv_state v = URI_PORT \<Longrightarrow> pv_port v = 0 \<Longrightarrow> n < 2 ^ 31 \<Longrightarrow>
   uri_loop (decimal n @ rest) p v = uri_loop rest (p + length (decimal n)) (v\<lparr>pv_port := n\<rparr>)"
proof (induction n arbitrary: rest rule: decimal.induct)
  case (1 n)
  show ?case
  proof (cases "n < 10")
    case True
    then show ?thesis using digit_step [of v n rest p] "1.prems" by (simp add: decimal.simps del: of_nat_add)
  next
    case False
    let ?d = "of_nat (48 + n mod 10) :: u8"
    have "uri_loop (decimal n @ rest) p v = uri_loop (decimal (n div 10) @ ?d # rest) p v"
      using False by (simp add: decimal.simps [of n] del: of_nat_add)
    also have "\<dots> = uri_loop (?d # rest) (p + length (decimal (n div 10))) (v\<lparr>pv_port := n div 10\<rparr>)"
      using "1.IH" [OF False] "1.prems" by simp
    also have "\<dots> = uri_loop rest (p + length (decimal (n div 10)) + 1) (v\<lparr>pv_port := n\<rparr>)"
      using digit_step [of "v\<lparr>pv_port := n div 10\<rparr>" "n mod 10" rest "p + length (decimal (n div 10))"] "1.prems"
      by (simp del: of_nat_add)
    finally show ?thesis using False by (simp add: decimal.simps [of n])
  qed
qed

lemma length_names: "length RANSPORT_STR = 9" "length ROTOCOL_STR = 8"
  by (simp_all add: RANSPORT_STR_def ROTOCOL_STR_def)

lemma transport_run:
  assumes "pv_state v = URI_PARAM" and "t \<noteq> []" and "59 \<notin> set t"
  shows "uri_loop (116 # RANSPORT_STR @ t @ rest) p v =
    uri_loop rest (p + 10 + length t) (v\<lparr>pv_t := p + 10, pv_param := P_transport, pv_state := URI_PARAM_VAL\<rparr>)"
proof -
  obtain x xs where t: "t = x # xs" using assms(2) by (cases t) auto
  have "param_name 116 (RANSPORT_STR @ t @ rest) = Some (P_transport, 9)"
    by (simp add: param_name_def RANSPORT_STR_def strncasecmp_eq_def)
  moreover have "drop 10 (RANSPORT_STR @ t @ rest) = xs @ rest" by (simp add: RANSPORT_STR_def t)
  ultimately show ?thesis using assms(1,3) t by (simp add: value_run ac_simps)
qed

lemma protocol_run:
  assumes "pv_state v = URI_PARAM" and "t \<noteq> []" and "59 \<notin> set t"
  shows "uri_loop (112 # ROTOCOL_STR @ t @ rest) p v =
    uri_loop rest (p + 9 + length t) (v\<lparr>pv_t := p + 9, pv_param := P_protocol, pv_state := URI_PARAM_VAL\<rparr>)"
proof -
  obtain x xs where t: "t = x # xs" using assms(2) by (cases t) auto
  have "param_name 112 (ROTOCOL_STR @ t @ rest) = Some (P_protocol, 8)"
    by (simp add: param_name_def ROTOCOL_STR_def strncasecmp_eq_def)
  moreover have "drop 9 (ROTOCOL_STR @ t @ rest) = xs @ rest" by (simp add: ROTOCOL_STR_def t)
  ultimately show ?thesis using assms(1,3) t by (simp add: value_run ac_simps)
qed

text \<open>A semicolon or the end of the text after the host or the port.\<close>

definition closed :: "nat \<Rightarrow> parse_vars \<Rightarrow> aaa_uri" where
  "closed p v = (if pv_state v = URI_HOST then (pv_uri v)\<lparr>uri_host := Some (pv_s v, p - pv_s v)\<rparr>
     else (pv_uri v)\<lparr>uri_port := Some (pv_s v, p - pv_s v), port_no := of_nat (pv_port v)\<rparr>)"

lemma close_steps:
  assumes "pv_state v = URI_HOST \<or> pv_state v = URI_PORT"
  shows "uri_loop (59 # rest) p v = uri_loop rest (p + 1) (v\<lparr>pv_uri := closed p v, pv_state := URI_PARAM, pv_s := p + 1\<rparr>)"
    and "uri_end p v = Inr (closed p v)"
  using assms by (auto simp: closed_def uri_host_char_def uri_port_char_def uri_end_def Let_def)

lemma value_end:
  "pv_state v = URI_PARAM_VAL \<Longrightarrow> uri_loop (59 # rest) p v =
     uri_loop rest (p + 1) (v\<lparr>pv_state := URI_PARAM, pv_uri := set_param (pv_param v) (Some (pv_t v, p - pv_t v)) (pv_uri v)\<rparr>)"
  by simp

lemma params_run:
  assumes "pv_state v = URI_HOST \<or> pv_state v = URI_PORT" and "value_ok tr" and "value_ok pr"
    and "uri_transport (pv_uri v) = None" and "uri_protocol (pv_uri v) = None"
  shows "\<exists>u. uri_loop (transport_text tr @ protocol_text pr) p v = Some (Inr u) \<and> uri_host u = uri_host (closed p v) \<and>
    uri_port u = uri_port (closed p v) \<and> port_no u = port_no (closed p v) \<and>
    uri_transport u = map_option (\<lambda>t. (p + 11, length t)) tr \<and>
    uri_protocol u = map_option (\<lambda>t. (p + length (transport_text tr) + 10, length t)) pr"
proof -
  have c: "uri_transport (closed p v) = None" "uri_protocol (closed p v) = None" using assms(4,5) by (simp_all add: closed_def)
  show ?thesis
  proof (cases tr)
    case None
    note tr = this
    show ?thesis
    proof (cases pr)
      case None
      then show ?thesis using tr c by (simp add: transport_text_def protocol_text_def close_steps [OF assms(1)])
    next
      case (Some q)
      then have q: "q \<noteq> []" "59 \<notin> set q" using assms(3) by (simp_all add: value_ok_def)
      show ?thesis using tr Some c protocol_run [OF _ q, of _ "[]"]
        by (simp add: transport_text_def protocol_text_def close_steps(1) [OF assms(1)] uri_end_def set_param_def Let_def
            del: uri_loop.simps(2))
    qed
  next
    case (Some t)
    note tr = this
    have t: "t \<noteq> []" "59 \<notin> set t" using Some assms(2) by (simp_all add: value_ok_def)
    show ?thesis
    proof (cases pr)
      case None
      then show ?thesis using tr c transport_run [OF _ t, of _ "[]"]
        by (simp add: transport_text_def protocol_text_def close_steps(1) [OF assms(1)] uri_end_def set_param_def Let_def
            del: uri_loop.simps(2))
    next
      case (Some q)
      then have q: "q \<noteq> []" "59 \<notin> set q" using assms(3) by (simp_all add: value_ok_def)
      show ?thesis using tr Some c transport_run [OF _ t] protocol_run [OF _ q, of _ "[]"]
        by (simp add: transport_text_def protocol_text_def close_steps(1) [OF assms(1)] value_end uri_end_def set_param_def Let_def
            length_names del: uri_loop.simps(2))
    qed
  qed
qed

lemma part_inside: "buf = pre @ x @ post \<Longrightarrow> n = length pre \<Longrightarrow> part buf (Some (n, length x)) = Some x"
  by (simp add: part_def)

section \<open>Properties\<close>

text \<open>
  (C22) Reading a URI gives back its parts: for every non-empty host without the special
  characters, every port (or none) and every non-empty value of transport and protocol without a
  semicolon (or none), \<open>aaa_parse_uri\<close> accepts the text made of them and finds exactly these parts;
  the port number is the number written.
\<close>

theorem uri_roundtrip:
  assumes "host \<noteq> []" and "\<forall>c \<in> set host. host_char c" and "\<forall>n. port = Some n \<longrightarrow> n < 65536"
    and "value_ok transport" and "value_ok protocol"
  defines "buf \<equiv> uri_text host port transport protocol"
  shows "\<exists>u. aaa_parse_uri buf = Some (Inr u) \<and> part buf (uri_host u) = Some host \<and>
    part buf (uri_port u) = map_option decimal port \<and> unat (port_no u) = (case port of None \<Rightarrow> 0 | Some n \<Rightarrow> n) \<and>
    part buf (uri_transport u) = transport \<and> part buf (uri_protocol u) = protocol"
proof -
  let ?v = "\<lparr>pv_state = URI_INIT, pv_s = 0, pv_t = 0, pv_param = P_transport, pv_port = 0, pv_uri = zero_uri\<rparr>"
  let ?tail = "transport_text transport @ protocol_text protocol"
  let ?h = "?v\<lparr>pv_s := 6, pv_state := URI_HOST\<rparr>"
  obtain c cs where h: "host = c # cs" using assms(1) by (cases host) auto
  have start: "aaa_parse_uri buf = uri_loop (port_text port @ ?tail) (6 + length host) ?h"
    using host_run [of ?h cs] assms(2) by (simp add: aaa_parse_uri_def buf_def uri_text_def h)
  define p where "p = 6 + length host + length (port_text port)"
  obtain v where v: "aaa_parse_uri buf = uri_loop ?tail p v" "pv_state v = URI_HOST \<or> pv_state v = URI_PORT"
    "uri_transport (pv_uri v) = None" "uri_protocol (pv_uri v) = None" "uri_host (closed p v) = Some (6, length host)"
    "uri_port (closed p v) = map_option (\<lambda>n. (7 + length host, length (decimal n))) port"
    "unat (port_no (closed p v)) = (case port of None \<Rightarrow> 0 | Some n \<Rightarrow> n)"
  proof (cases port)
    case None
    show ?thesis by (rule that [of ?h]) (use None start in \<open>simp_all add: port_text_def p_def zero_uri_def closed_def\<close>)
  next
    case (Some n)
    let ?q = "?h\<lparr>pv_uri := zero_uri\<lparr>uri_host := Some (6, length host)\<rparr>, pv_state := URI_PORT, pv_s := 7 + length host\<rparr>"
    have n: "n < 65536" using assms(3) Some by simp
    have "aaa_parse_uri buf = uri_loop (decimal n @ ?tail) (7 + length host) ?q"
      unfolding start using Some by (simp add: port_text_def uri_host_char_def)
    also have "\<dots> = uri_loop ?tail p (?q\<lparr>pv_port := n\<rparr>)"
      using port_run [of ?q n ?tail "7 + length host"] n Some by (simp add: p_def port_text_def ac_simps)
    finally show ?thesis
      by (rule that) (use Some n in \<open>simp_all add: port_text_def p_def zero_uri_def closed_def unat_of_nat take_bit_nat_eq_self\<close>)
  qed
  from params_run [OF v(2) assms(4,5) v(3,4), of p] obtain u where u: "uri_loop ?tail p v = Some (Inr u)"
    "uri_host u = Some (6, length host)" "uri_port u = map_option (\<lambda>n. (7 + length host, length (decimal n))) port"
    "unat (port_no u) = (case port of None \<Rightarrow> 0 | Some n \<Rightarrow> n)"
    "uri_transport u = map_option (\<lambda>t. (p + 11, length t)) transport"
    "uri_protocol u = map_option (\<lambda>t. (p + length (transport_text transport) + 10, length t)) protocol"
    using v(5-7) by auto
  let ?a = "[97, 97, 97, 58, 47, 47] :: bytes"
  have "part buf (uri_host u) = Some host"
    unfolding u(2) by (rule part_inside [of buf ?a]) (simp_all add: buf_def uri_text_def)
  moreover have "part buf (uri_port u) = map_option decimal port"
  proof (cases port)
    case (Some n)
    have "part buf (Some (7 + length host, length (decimal n))) = Some (decimal n)"
      by (rule part_inside [of buf "?a @ host @ [58]" "decimal n" ?tail]) (simp_all add: buf_def uri_text_def port_text_def Some)
    then show ?thesis using Some u(3) by simp
  qed (simp add: u(3) part_def)
  moreover have "part buf (uri_transport u) = transport"
  proof (cases transport)
    case (Some t)
    have "part buf (Some (p + 11, length t)) = Some t"
      by (rule part_inside [of buf "?a @ host @ port_text port @ 59 # 116 # RANSPORT_STR" t "protocol_text protocol"])
        (simp_all add: buf_def uri_text_def transport_text_def p_def Some length_names)
    then show ?thesis using Some u(5) by simp
  qed (simp add: u(5) part_def)
  moreover have "part buf (uri_protocol u) = protocol"
  proof (cases protocol)
    case (Some t)
    have "part buf (Some (p + length (transport_text transport) + 10, length t)) = Some t"
      by (rule part_inside [of buf "?a @ host @ port_text port @ transport_text transport @ 59 # 112 # ROTOCOL_STR" t "[]"])
        (simp_all add: buf_def uri_text_def protocol_text_def p_def Some length_names)
    then show ?thesis using Some u(6) by simp
  qed (simp add: u(6) part_def)
  ultimately show ?thesis using v(1) u(1,4) by auto
qed

theorem uri_roundtrip_witness:
  "\<exists>u. aaa_parse_uri (uri_text [104, 111] (Some 3868) (Some [116, 99, 112]) None) = Some (Inr u) \<and>
    unat (port_no u) = 3868 \<and> part (uri_text [104, 111] (Some 3868) (Some [116, 99, 112]) None) (uri_transport u) = Some [116, 99, 112]"
  using uri_roundtrip [of "[104, 111]" "Some 3868" "Some [116, 99, 112]" None] by (auto simp: host_char_def value_ok_def)

text \<open>
  Bounds of the parser. On every text that \<open>aaa_parse_uri\<close> accepts, the parts it reports lie
  inside the text, unless the text ends with an equals sign: a URI that ends with \<open>transport=\<close> or
  \<open>protocol=\<close> is accepted with a value of one byte that lies behind the end of the text (and never
  more than one).
\<close>

lemma uri_bounds:
  "(aaa_parse_uri buf = Some (Inr u) \<longrightarrow> uri_inside (length buf + 1) u \<and> (last buf \<noteq> 61 \<longrightarrow> uri_inside (length buf) u)) \<and>
   (host \<noteq> [] \<and> (\<forall>c \<in> set host. host_char c) \<longrightarrow>
      (let text = [97, 97, 97, 58, 47, 47] @ host @ 59 # 116 # RANSPORT_STR in
       \<exists>u'. aaa_parse_uri text = Some (Inr u') \<and> uri_transport u' = Some (length text, 1)))"
proof (intro conjI impI)
  let ?v = "\<lparr>pv_state = URI_INIT, pv_s = 0, pv_t = 0, pv_param = P_transport, pv_port = 0, pv_uri = zero_uri\<rparr>"
  have in0: "uri_inside n zero_uri" for n by (simp add: uri_inside_def inside_def zero_uri_def)
  assume "aaa_parse_uri buf = Some (Inr u)"
  then have l: "6 \<le> length buf" "uri_loop (drop 6 buf) 6 ?v = Some (Inr u)"
    by (auto simp: aaa_parse_uri_def split: if_splits)
  show "uri_inside (length buf + 1) u"
    by (rule uri_loop_inside [OF _ _ _ l(2)]) (use l(1) in0 in \<open>simp_all add: vars_ok_def\<close>)
  assume "last buf \<noteq> 61"
  then have "drop 6 buf = [] \<or> last (drop 6 buf) \<noteq> 61" by auto
  then show "uri_inside (length buf) u"
    by (intro uri_loop_inside [OF _ _ _ l(2)]) (use l(1) in0 in \<open>auto simp: vars_ok_def\<close>)
next
  assume h: "host \<noteq> [] \<and> (\<forall>c \<in> set host. host_char c)"
  then obtain c cs where hc: "host = c # cs" by (cases host) auto
  let ?h = "\<lparr>pv_state = URI_HOST, pv_s = 6, pv_t = 0, pv_param = P_transport, pv_port = 0, pv_uri = zero_uri\<rparr>"
  have "aaa_parse_uri ([97, 97, 97, 58, 47, 47] @ host @ 59 # 116 # RANSPORT_STR) = uri_loop (59 # 116 # RANSPORT_STR) (6 + length host) ?h"
    using host_run [of ?h cs] h by (simp add: aaa_parse_uri_def hc del: uri_loop.simps(2) add: uri_loop.simps(2) [of c])
  moreover have "param_name 116 RANSPORT_STR = Some (P_transport, 9)"
    by (simp add: param_name_def RANSPORT_STR_def strncasecmp_eq_def)
  ultimately show "let text = [97, 97, 97, 58, 47, 47] @ host @ 59 # 116 # RANSPORT_STR in
      \<exists>u'. aaa_parse_uri text = Some (Inr u') \<and> uri_transport u' = Some (length text, 1)"
    by (simp add: uri_host_char_def Let_def length_names uri_end_def set_param_def)
qed

end
