(* ===== verification/Route.thy ===== *)
theory Route
  imports Uri_Parser Peer_Invariant
begin

text \<open>
  Configured peers and routes (route.c). The list of peers only grows by new entries, so it is a
  sequence; the list of routes is kept as the nodes and \<open>next\<close> pointers of the source, because
  \<open>add_route\<close> also links nodes that are already in the list. A walk along the list that never ends
  is the value None; Some None is a pointer followed to a node that is not there.
\<close>

section \<open>Data\<close>

abbreviation (input) MAX_REALM_LEN :: nat where "MAX_REALM_LEN \<equiv> 128"

record peer_entry =
  pe_addr :: ptr
  pe_uri :: aaa_uri
  full_uri :: bytes
  pe_alias :: bytes
  pe_peer :: ptr

text \<open>\<open>peer_l\<close> is a list of nodes of its own; here the addresses of the peer entries in it.\<close>

record route_entry =
  re_realm :: bytes
  peer_l :: "ptr list"
  re_next :: ptr

record route_world =
  cfg_peer_lst :: "peer_entry list"
  re_heap :: "ptr \<Rightarrow> route_entry option"
  route_lst :: ptr
  rt_shm :: shm

definition same_str :: "bytes \<Rightarrow> bytes \<Rightarrow> bool" where
  "same_str a b \<longleftrightarrow> length a = length b \<and> strncasecmp_eq a b"

definition pe_host :: "peer_entry \<Rightarrow> bytes" where
  "pe_host pe = (case uri_host (pe_uri pe) of None \<Rightarrow> [] | Some (s, l) \<Rightarrow> take l (drop s (full_uri pe)))"

section \<open>Operations\<close>

text \<open>The entry is not freed when its URI is refused. None is an overflow in the parser.\<close>

definition add_cfg_peer :: "(nat \<Rightarrow> bool) \<Rightarrow> bytes \<Rightarrow> bytes \<Rightarrow> route_world \<Rightarrow> (int \<times> route_world) option" where
  "add_cfg_peer ok uri alias w =
     (if \<exists>t \<in> set (cfg_peer_lst w). same_str (pe_alias t) alias \<or> same_str (full_uri t) uri then Some (- 1, w)
      else let (n, m) = shm_malloc ok (rt_shm w)
        in if n = NULL then Some (- 1, w\<lparr>rt_shm := m\<rparr>)
           else do {
             r \<leftarrow> aaa_parse_uri uri;
             Some (case r of
               Inl _ \<Rightarrow> (- 1, w\<lparr>rt_shm := m\<rparr>)
             | Inr u \<Rightarrow> (0, w\<lparr>rt_shm := m, cfg_peer_lst := cfg_peer_lst w @
                 [\<lparr>pe_addr = n, pe_uri = u, full_uri = uri, pe_alias = alias, pe_peer = NULL\<rparr>]\<rparr>))
           })"

text \<open>Walking along the routes: the first entry that is wanted (or 0), and the last entry.\<close>

partial_function (option) find_re :: "(route_entry \<Rightarrow> bool) \<Rightarrow> (ptr \<Rightarrow> route_entry option) \<Rightarrow> ptr \<Rightarrow> ptr option option" where
  "find_re wanted h a =
     (if a = NULL then Some (Some NULL)
      else case h a of
        None \<Rightarrow> Some None
      | Some r \<Rightarrow> if wanted r then Some (Some a) else find_re wanted h (re_next r))"

partial_function (option) last_re :: "(ptr \<Rightarrow> route_entry option) \<Rightarrow> ptr \<Rightarrow> ptr option option" where
  "last_re h a =
     (case h a of
        None \<Rightarrow> Some None
      | Some r \<Rightarrow> if re_next r = NULL then Some (Some a) else last_re h (re_next r))"

definition LIST_APPEND :: "ptr \<Rightarrow> route_world \<Rightarrow> route_world option option" where
  "LIST_APPEND elem w =
     (if route_lst w = NULL then Some (Some (w\<lparr>route_lst := elem\<rparr>))
      else map_option (\<lambda>r. do {
        t \<leftarrow> r;
        x \<leftarrow> re_heap w t;
        Some (w\<lparr>re_heap := (re_heap w)(t \<mapsto> x\<lparr>re_next := elem\<rparr>)\<rparr>)
      }) (last_re (re_heap w) (route_lst w)))"

definition find_dst :: "bytes \<Rightarrow> route_world \<Rightarrow> peer_entry option" where
  "find_dst dst w = find (\<lambda>pe. same_str (pe_alias pe) dst \<or> same_str (full_uri pe) dst \<or> same_str (pe_host pe) dst) (cfg_peer_lst w)"

text \<open>
  The part of \<open>add_route\<close> after the search: \<open>re\<close> is the entry found or 0. When the second block
  cannot be allocated the entry is freed, also when it is an old one. \<open>dst_s\<close> is freed in the end.
\<close>

definition link_route :: "(nat \<Rightarrow> bool) \<Rightarrow> bytes \<Rightarrow> ptr \<Rightarrow> ptr \<Rightarrow> route_world \<Rightarrow> (int \<times> route_world) option option" where
  "link_route ok realm pe re w =
     (let (re1, w1) = (if re \<noteq> NULL then (re, w)
            else let (a, m) = shm_malloc ok (rt_shm w)
              in (a, if a = NULL then w\<lparr>rt_shm := m\<rparr>
                  else w\<lparr>rt_shm := m, re_heap := (re_heap w)(a \<mapsto> \<lparr>re_realm = realm, peer_l = [], re_next = NULL\<rparr>)\<rparr>))
      in if re1 = NULL then Some (Some (- 1, w1))
         else let (n, m) = shm_malloc ok (rt_shm w1)
           in if n = NULL
              then Some (Some (- 1, w1\<lparr>rt_shm := shm_free re1 m, re_heap := (re_heap w1)(re1 := None)\<rparr>))
              else case re_heap w1 re1 of
                None \<Rightarrow> Some None
              | Some x \<Rightarrow>
                  map_option (map_option (Pair 0))
                    (LIST_APPEND re1 (w1\<lparr>rt_shm := m, re_heap := (re_heap w1)(re1 \<mapsto> x\<lparr>peer_l := peer_l x @ [pe]\<rparr>)\<rparr>)))"

definition add_route :: "(nat \<Rightarrow> bool) \<Rightarrow> bool \<Rightarrow> bytes \<Rightarrow> ptr \<times> bytes \<Rightarrow> route_world \<Rightarrow> (int \<times> route_world) option option" where
  "add_route ok is_server realm dst w =
     map_option (map_option (\<lambda>(r, w). (r, if fst dst \<noteq> NULL then w\<lparr>rt_shm := shm_free (fst dst) (rt_shm w)\<rparr> else w)))
       (if \<not> is_server then Some (Some (- 1, w))
        else case find_dst (snd dst) w of
          None \<Rightarrow> Some (Some (- 1, w))
        | Some pe \<Rightarrow>
            (case find_re (\<lambda>x. same_str (re_realm x) realm) (re_heap w) (route_lst w) of
               None \<Rightarrow> None
             | Some None \<Rightarrow> Some None
             | Some (Some re) \<Rightarrow> link_route ok realm (pe_addr pe) re w))"

text \<open>
  \<open>fnm\<close> is the function \<open>fnmatch\<close> of the C library on null-terminated strings. The result is the
  list of peers of the first route that matches, the empty list when there is none.
\<close>

definition c_str :: "bytes \<Rightarrow> bytes" where
  "c_str b = takeWhile (\<lambda>c. c \<noteq> 0) b"

definition route_dest :: "(bytes \<Rightarrow> bytes \<Rightarrow> bool) \<Rightarrow> bytes \<Rightarrow> route_world \<Rightarrow> ptr list option option" where
  "route_dest fnm dst_realm w =
     (if MAX_REALM_LEN < length dst_realm then Some (Some [])
      else map_option (\<lambda>r. do {
        a \<leftarrow> r;
        if a = NULL then Some [] else map_option peer_l (re_heap w a)
      }) (find_re (\<lambda>x. fnm (c_str (re_realm x)) (c_str dst_realm)) (re_heap w) (route_lst w)))"

section \<open>Routing a request\<close>

text \<open>
  \<open>try_peers\<close>: the loop of \<open>do_route\<close> over the peers of a route; \<open>req\<close> is the buffer of the request.
\<close>

fun try_peers :: "peer_env \<Rightarrow> route_world \<Rightarrow> ptr \<Rightarrow> bytes \<Rightarrow> ptr list \<Rightarrow> peer_world \<Rightarrow> (bool \<times> peer_world) option" where
  "try_peers e rw tr req [] w = Some (False, w)"
| "try_peers e rw tr req (a # as) w = do {
     pe \<leftarrow> find (\<lambda>x. pe_addr x = a) (cfg_peer_lst rw);
     if pe_peer pe = NULL then try_peers e rw tr req as w
     else do {
       (r, w) \<leftarrow> send_req_to_peer e tr req (pe_peer pe) w;
       if r < 0 then try_peers e rw tr req as w else Some (True, w)
     }
   }"

text \<open>The data of an AVP that a message points to; None is a null pointer.\<close>

definition avp_data_at :: "AAAMessage \<Rightarrow> ptr \<Rightarrow> bytes option" where
  "avp_data_at msg p = (if p = NULL then None else map_option avp_data (find (\<lambda>a. avp_addr a = p) (avpList msg)))"

definition do_route :: "peer_env \<Rightarrow> (bytes \<Rightarrow> bytes \<Rightarrow> bool) \<Rightarrow> route_world \<Rightarrow> AAAMessage \<Rightarrow> ptr \<Rightarrow> peer_world \<Rightarrow>
    (int \<times> peer_world) option" where
  "do_route e fnm rw msg in_p w = do {
     realm \<leftarrow> avp_data_at msg (dest_realm msg);
     r \<leftarrow> route_dest fnm realm rw;
     pl \<leftarrow> r;
     if pl = [] then Some (- 1, w)
     else let (tr, tw) = create_transaction (env_ok e) (buf_s msg) in_p NULL (pw_tr w)
       in if tr = NULL then Some (- 1, w\<lparr>pw_tr := tw\<rparr>)
          else do {
            tw \<leftarrow> update_forward_transaction_from_msg tr (hopbyhopId msg) tw;
            (sent, w) \<leftarrow> try_peers e rw tr (msg_buf msg) pl (w\<lparr>pw_tr := tw\<rparr>);
            if sent then Some (1, w)
            else do { tw \<leftarrow> destroy_transaction tr (pw_tr w); Some (- 1, w\<lparr>pw_tr := tw\<rparr>) }
          }
   }"

section \<open>The list of routes as a sequence\<close>

type_synonym route = "ptr \<times> bytes \<times> ptr list"

fun route_seg :: "(ptr \<Rightarrow> route_entry option) \<Rightarrow> ptr \<Rightarrow> route list \<Rightarrow> bool" where
  "route_seg h a [] = (a = NULL)"
| "route_seg h a ((b, realm, ps) # rs) = (a = b \<and> b \<noteq> NULL \<and>
     (\<exists>n. h b = Some \<lparr>re_realm = realm, peer_l = ps, re_next = n\<rparr> \<and> route_seg h n rs))"

definition routes :: "route_world \<Rightarrow> route list \<Rightarrow> bool" where
  "routes w rs \<longleftrightarrow> route_seg (re_heap w) (route_lst w) rs \<and> distinct (map fst rs) \<and> (\<forall>a \<in> fst ` set rs. a \<le> shm_calls (rt_shm w))"

lemma find_re_seg:
  "route_seg h a rs \<Longrightarrow> find_re P h a = Some (Some (case find (\<lambda>r. \<exists>n. h (fst r) = Some n \<and> P n) rs of None \<Rightarrow> NULL | Some r \<Rightarrow> fst r))"
proof (induction rs arbitrary: a)
  case Nil
  then show ?case by (subst find_re.simps) simp
next
  case (Cons r rs)
  then show ?case by (cases r) (subst find_re.simps, auto)
qed

lemma last_re_seg: "route_seg h a rs \<Longrightarrow> rs \<noteq> [] \<Longrightarrow> last_re h a = Some (Some (fst (last rs)))"
proof (induction rs arbitrary: a)
  case (Cons r rs)
  obtain b realm ps where r: "r = (b, realm, ps)" by (cases r)
  from Cons.prems(1) r obtain n where n: "a = b" "h b = Some \<lparr>re_realm = realm, peer_l = ps, re_next = n\<rparr>" "route_seg h n rs" by auto
  show ?case
  proof (cases rs)
    case Nil
    then show ?thesis using n r by (subst last_re.simps) simp
  next
    case (Cons r' rs')
    then have "n \<noteq> NULL" using n(3) by (cases r') simp
    then show ?thesis using Cons.IH [OF n(3)] Cons n r by (subst last_re.simps) simp
  qed
qed simp

lemma route_seg_cong:
  "route_seg h a rs \<Longrightarrow> (\<And>b. b \<in> fst ` set rs \<Longrightarrow> h' b = h b) \<Longrightarrow> route_seg h' a rs"
  by (induction h a rs rule: route_seg.induct) auto

text \<open>Linking a node behind the last one.\<close>

lemma route_seg_append:
  assumes "route_seg h a rs" and "distinct (map fst rs)" and "b \<notin> fst ` set rs" and "b \<noteq> NULL"
    and "h b = Some \<lparr>re_realm = realm, peer_l = ps, re_next = NULL\<rparr>" and "rs \<noteq> []" and "h (fst (last rs)) = Some x"
  shows "route_seg (h(fst (last rs) \<mapsto> x\<lparr>re_next := b\<rparr>)) a (rs @ [(b, realm, ps)])"
  using assms
proof (induction rs arbitrary: a)
  case (Cons r rs)
  obtain c realm' ps' where r: "r = (c, realm', ps')" by (cases r)
  from Cons.prems(1) r obtain n where n: "a = c" "c \<noteq> NULL" "h c = Some \<lparr>re_realm = realm', peer_l = ps', re_next = n\<rparr>" "route_seg h n rs" by auto
  show ?case
  proof (cases rs)
    case Nil
    then show ?thesis using n r Cons.prems by auto
  next
    case (Cons r' rs')
    then have "fst (last rs) \<in> fst ` set rs" by (metis last_in_set list.distinct(1) image_eqI)
    then have "c \<noteq> fst (last rs)" using Cons.prems(2) r by auto
    then show ?thesis using Cons.IH [OF n(4)] Cons.prems Cons n r by auto
  qed
qed simp

text \<open>A set of nodes that no walk leaves.\<close>

definition stuck :: "(route_entry \<Rightarrow> bool) \<Rightarrow> (ptr \<Rightarrow> route_entry option) \<Rightarrow> ptr set \<Rightarrow> bool" where
  "stuck P h S \<longleftrightarrow> NULL \<notin> S \<and> (\<forall>a \<in> S. \<exists>x. h a = Some x \<and> \<not> P x \<and> re_next x \<in> S)"

lemma stuckD: "stuck P h S \<Longrightarrow> a \<in> S \<Longrightarrow> \<exists>x. h a = Some x \<and> \<not> P x \<and> re_next x \<in> S \<and> re_next x \<noteq> NULL \<and> a \<noteq> NULL"
  unfolding stuck_def by metis

lemma find_re_stuck:
  assumes "stuck P h S" and "a \<in> S"
  shows "find_re P h a = None"
proof (rule ccontr)
  assume "find_re P h a \<noteq> None"
  then obtain r where r: "find_re P h a = Some r" by blast
  have "stuck P h S \<longrightarrow> a \<notin> S"
  proof (rule find_re.raw_induct [OF _ r, where P = "\<lambda>P h a r. stuck P h S \<longrightarrow> a \<notin> S"])
    fix f P h a y
    assume IH: "\<And>P h a y. f P h a = Some y \<Longrightarrow> stuck P h S \<longrightarrow> a \<notin> S"
      and st: "(if a = NULL then Some (Some NULL) else case h a of None \<Rightarrow> Some None | Some r \<Rightarrow> if P r then Some (Some a) else f P h (re_next r)) = Some y"
    show "stuck P h S \<longrightarrow> a \<notin> S"
    proof (intro impI notI)
      assume s: "stuck P h S" "a \<in> S"
      from stuckD [OF this] obtain x where x: "h a = Some x" "\<not> P x" "re_next x \<in> S" "a \<noteq> NULL" by blast
      then have "f P h (re_next x) = Some y" using st by simp
      from IH [OF this] s(1) x(3) show False by blast
    qed
  qed
  then show False using assms by blast
qed

lemma last_re_stuck:
  assumes "stuck P h S" and "a \<in> S"
  shows "last_re h a = None"
proof (rule ccontr)
  assume "last_re h a \<noteq> None"
  then obtain r where r: "last_re h a = Some r" by blast
  have "stuck P h S \<longrightarrow> a \<notin> S"
  proof (rule last_re.raw_induct [OF _ r, where P = "\<lambda>h a r. stuck P h S \<longrightarrow> a \<notin> S"])
    fix f h a y
    assume IH: "\<And>h a y. f h a = Some y \<Longrightarrow> stuck P h S \<longrightarrow> a \<notin> S"
      and st: "(case h a of None \<Rightarrow> Some None | Some r \<Rightarrow> if re_next r = NULL then Some (Some a) else f h (re_next r)) = Some y"
    show "stuck P h S \<longrightarrow> a \<notin> S"
    proof (intro impI notI)
      assume s: "stuck P h S" "a \<in> S"
      from stuckD [OF this] obtain x where x: "h a = Some x" "re_next x \<in> S" "re_next x \<noteq> NULL" by blast
      then have "f h (re_next x) = Some y" using st by simp
      from IH [OF this] s(1) x(2) show False by blast
    qed
  qed
  then show False using assms by blast
qed

lemma find_re_realm:
  "route_seg h a rs \<Longrightarrow>
   find_re (\<lambda>x. Q (re_realm x)) h a = Some (Some (case find (\<lambda>r. Q (fst (snd r))) rs of None \<Rightarrow> NULL | Some r \<Rightarrow> fst r))"
proof (induction rs arbitrary: a)
  case Nil
  then show ?case by (subst find_re.simps) simp
next
  case (Cons r rs)
  then show ?case by (cases r) (subst find_re.simps, auto)
qed

lemma route_seg_at:
  "route_seg h a rs \<Longrightarrow> r \<in> set rs \<Longrightarrow> \<exists>n. h (fst r) = Some \<lparr>re_realm = fst (snd r), peer_l = snd (snd r), re_next = n\<rparr> \<and> fst r \<noteq> NULL"
  by (induction h a rs rule: route_seg.induct) auto

lemma route_seg_next:
  "route_seg h a rs \<Longrightarrow> r \<in> set rs \<Longrightarrow> r \<noteq> last rs \<Longrightarrow> \<exists>x. h (fst r) = Some x \<and> re_next x \<in> fst ` set rs"
proof (induction rs arbitrary: a)
  case (Cons q rs)
  obtain b realm ps where q: "q = (b, realm, ps)" by (cases q)
  from Cons.prems(1) q obtain n where n: "h b = Some \<lparr>re_realm = realm, peer_l = ps, re_next = n\<rparr>" "route_seg h n rs" by auto
  show ?case
  proof (cases "r = q")
    case True
    then obtain q' rs' where rs: "rs = q' # rs'" using Cons.prems(3) by (cases rs) auto
    then have "n = fst q'" using n(2) by (cases q') simp
    then show ?thesis using n(1) q True rs by auto
  next
    case False
    then have "r \<in> set rs" "r \<noteq> last rs" using Cons.prems(2,3) by (auto split: if_splits)
    from Cons.IH [OF n(2) this] show ?thesis by auto
  qed
qed simp

lemma route_dest_seg:
  assumes "routes w rs" and "length d \<le> 128"
  shows "route_dest fnm d w =
    Some (Some (case find (\<lambda>r. fnm (c_str (fst (snd r))) (c_str d)) rs of None \<Rightarrow> [] | Some r \<Rightarrow> snd (snd r)))"
proof -
  have s: "route_seg (re_heap w) (route_lst w) rs" using assms(1) by (simp add: routes_def)
  note f = find_re_realm [OF s, of "\<lambda>x. fnm (c_str x) (c_str d)"]
  show ?thesis
  proof (cases "find (\<lambda>r. fnm (c_str (fst (snd r))) (c_str d)) rs")
    case None
    then show ?thesis using assms(2) f by (simp add: route_dest_def)
  next
    case (Some r)
    then have "r \<in> set rs" by (auto simp: find_Some_iff)
    from route_seg_at [OF s this] show ?thesis using Some assms(2) f by (auto simp: route_dest_def)
  qed
qed

lemma same_str_refl [simp]: "same_str a a"
  by (simp add: same_str_def strncasecmp_eq_def)

text \<open>A route for a realm that has none yet is appended.\<close>

lemma append_new:
  assumes "routes w rs" and "a = Suc (shm_calls (rt_shm w))" and "a \<le> shm_calls (rt_shm w')" and "route_lst w' = route_lst w"
    and "re_heap w' = (re_heap w)(a \<mapsto> \<lparr>re_realm = realm, peer_l = ps, re_next = NULL\<rparr>)"
  shows "\<exists>w''. LIST_APPEND a w' = Some (Some w'') \<and> routes w'' (rs @ [(a, realm, ps)]) \<and> cfg_peer_lst w'' = cfg_peer_lst w' \<and> rt_shm w'' = rt_shm w'"
proof -
  have s: "route_seg (re_heap w) (route_lst w) rs" "distinct (map fst rs)" "a \<notin> fst ` set rs" "\<forall>b \<in> fst ` set rs. b \<le> shm_calls (rt_shm w')"
    using assms(1-3) unfolding routes_def by force+
  have s': "route_seg (re_heap w') (route_lst w') rs"
    unfolding assms(4) by (rule route_seg_cong [OF s(1)]) (use s(3) assms(5) in auto)
  have h: "re_heap w' a = Some \<lparr>re_realm = realm, peer_l = ps, re_next = NULL\<rparr>" by (simp add: assms(5))
  show ?thesis
  proof (cases rs)
    case Nil
    then show ?thesis using s' h assms(2,3) by (simp add: LIST_APPEND_def routes_def)
  next
    case (Cons r rs')
    then have ne: "rs \<noteq> []" by simp
    then have nn: "route_lst w' \<noteq> NULL" using s' Cons by (cases r) simp
    from route_seg_at [OF s' last_in_set [OF ne]] obtain x where x: "re_heap w' (fst (last rs)) = Some x" by blast
    have "route_seg ((re_heap w')(fst (last rs) \<mapsto> x\<lparr>re_next := a\<rparr>)) (route_lst w') (rs @ [(a, realm, ps)])"
      by (rule route_seg_append [OF s' s(2,3) _ h ne x]) (simp add: assms(2))
    then show ?thesis using nn x last_re_seg [OF s' ne] s(2-4) assms(2,3) by (auto simp: LIST_APPEND_def routes_def)
  qed
qed

lemma routes_shm: "routes (w\<lparr>rt_shm := shm_free x (rt_shm w)\<rparr>) rs = routes w rs"
  by (simp add: routes_def shm_free_def)

lemma shm_granted:
  assumes "\<forall>n. ok n"
  shows "fst (shm_malloc ok m) = Suc (shm_calls m)" "shm_calls (snd (shm_malloc ok m)) = Suc (shm_calls m)"
  using assms by (simp_all add: shm_malloc_def Let_def)

lemma add_route_new:
  assumes "routes w rs" and "find_dst (snd dst) w = Some pe" and "\<forall>r \<in> set rs. \<not> same_str (fst (snd r)) realm" and "\<forall>n. ok n"
  shows "\<exists>w' a. add_route ok True realm dst w = Some (Some (0, w')) \<and> routes w' (rs @ [(a, realm, [pe_addr pe])]) \<and>
    cfg_peer_lst w' = cfg_peer_lst w"
proof -
  have s: "route_seg (re_heap w) (route_lst w) rs" using assms(1) by (simp add: routes_def)
  have "find (\<lambda>r. same_str (fst (snd r)) realm) rs = None" using assms(3) by (auto simp: find_None_iff)
  then have f: "find_re (\<lambda>x. same_str (re_realm x) realm) (re_heap w) (route_lst w) = Some (Some NULL)"
    using find_re_realm [OF s, of "\<lambda>x. same_str x realm"] by simp
  let ?a = "Suc (shm_calls (rt_shm w))"
  define w1 where "w1 = w\<lparr>rt_shm := snd (shm_malloc ok (snd (shm_malloc ok (rt_shm w)))),
    re_heap := (re_heap w)(?a \<mapsto> \<lparr>re_realm = realm, peer_l = [pe_addr pe], re_next = NULL\<rparr>)\<rparr>"
  note sh = shm_granted [OF assms(4)]
  have l: "link_route ok realm (pe_addr pe) NULL w = map_option (map_option (Pair 0)) (LIST_APPEND ?a w1)"
    by (simp add: link_route_def w1_def case_prod_beta Let_def sh)
  from append_new [OF assms(1) refl, of w1 realm "[pe_addr pe]"] obtain w2 where w2: "LIST_APPEND ?a w1 = Some (Some w2)"
    "routes w2 (rs @ [(?a, realm, [pe_addr pe])])" "cfg_peer_lst w2 = cfg_peer_lst w1"
    by (auto simp: w1_def sh(2))
  have c: "cfg_peer_lst w1 = cfg_peer_lst w" by (simp add: w1_def)
  show ?thesis
    using w2 c by (intro exI [of _ "if fst dst \<noteq> NULL then w2\<lparr>rt_shm := shm_free (fst dst) (rt_shm w2)\<rparr> else w2"] exI [of _ ?a])
      (simp add: add_route_def assms(2) f l routes_shm)
qed

lemma route_seg_update:
  "route_seg h p rs \<Longrightarrow> h a = Some x \<Longrightarrow>
   route_seg (h(a \<mapsto> x\<lparr>peer_l := ps\<rparr>)) p (map (\<lambda>q. if fst q = a then (a, fst (snd q), ps) else q) rs)"
proof (induction rs arbitrary: p)
  case (Cons q rs)
  obtain b realm qs where q: "q = (b, realm, qs)" by (cases q)
  then show ?case using Cons by (cases "b = a") auto
qed simp

text \<open>A second route for a realm closes the list to a circle.\<close>

lemma add_route_again:
  assumes "routes w rs" and "find_dst (snd dst) w = Some pe" and "r0 \<in> set rs" and "same_str (fst (snd r0)) realm" and "\<forall>n. ok n"
  shows "\<exists>w'. add_route ok True realm dst w = Some (Some (0, w')) \<and> cfg_peer_lst w' = cfg_peer_lst w \<and> route_lst w' \<in> fst ` set rs \<and>
    (\<forall>P. (\<forall>r \<in> set rs. \<not> P (fst (snd r))) \<longrightarrow> stuck (\<lambda>x. P (re_realm x)) (re_heap w') (fst ` set rs))"
proof -
  let ?h = "re_heap w"
  have s: "route_seg ?h (route_lst w) rs" and ds: "distinct (map fst rs)" using assms(1) by (simp_all add: routes_def)
  have "find (\<lambda>r. same_str (fst (snd r)) realm) rs \<noteq> None" unfolding find_None_iff using assms(3,4) by blast
  then obtain r where r: "find (\<lambda>r. same_str (fst (snd r)) realm) rs = Some r" by blast
  then have "r \<in> set rs" by (auto simp: find_Some_iff)
  note r = r this
  obtain a where a: "a = fst r" by blast
  from route_seg_at [OF s r(2)] obtain n where x: "?h a = Some \<lparr>re_realm = fst (snd r), peer_l = snd (snd r), re_next = n\<rparr>" "a \<noteq> NULL"
    unfolding a by blast
  have f: "find_re (\<lambda>x. same_str (re_realm x) realm) ?h (route_lst w) = Some (Some a)"
    using find_re_realm [OF s, of "\<lambda>x. same_str x realm"] r(1) a by simp
  note sh = shm_granted [OF assms(5)]
  let ?x = "\<lparr>re_realm = fst (snd r), peer_l = snd (snd r) @ [pe_addr pe], re_next = n\<rparr>"
  let ?h1 = "?h(a \<mapsto> ?x)"
  define w1 where "w1 = w\<lparr>rt_shm := snd (shm_malloc ok (rt_shm w)), re_heap := ?h1\<rparr>"
  have l: "link_route ok realm (pe_addr pe) a w = map_option (map_option (Pair 0)) (LIST_APPEND a w1)"
    using x by (simp add: link_route_def case_prod_beta Let_def sh w1_def)
  define rs1 where "rs1 = map (\<lambda>q. if fst q = a then (a, fst (snd q), snd (snd r) @ [pe_addr pe]) else q) rs"
  have ne: "rs \<noteq> []" using r(2) by auto
  have s1: "route_seg ?h1 (route_lst w) rs1"
    using route_seg_update [OF s x(1), of "snd (snd r) @ [pe_addr pe]"] by (simp add: rs1_def)
  have la: "fst (last rs1) = fst (last rs)" and ne1: "rs1 \<noteq> []" using ne by (simp_all add: rs1_def last_map)
  have "map fst rs1 = map fst rs" by (simp add: rs1_def)
  then have fs: "fst ` set rs1 = fst ` set rs" by (metis list.set_map)
  have mem: "\<exists>q1 \<in> set rs1. fst q1 = fst q \<and> fst (snd q1) = fst (snd q)" if "q \<in> set rs" for q
    by (rule bexI [of _ "if fst q = a then (a, fst (snd q), snd (snd r) @ [pe_addr pe]) else q"]) (use that in \<open>auto simp: rs1_def\<close>)
  from route_seg_at [OF s1 last_in_set [OF ne1]] obtain y where y: "?h1 (fst (last rs)) = Some y" unfolding la by blast
  let ?h2 = "?h1(fst (last rs) \<mapsto> y\<lparr>re_next := a\<rparr>)"
  have nn: "route_lst w \<noteq> NULL" using s ne by (cases rs) auto
  have ap: "LIST_APPEND a w1 = Some (Some (w1\<lparr>re_heap := ?h2\<rparr>))"
    using last_re_seg [OF s1 ne1] la y nn by (simp add: LIST_APPEND_def w1_def)
  have st: "stuck (\<lambda>x. P (re_realm x)) ?h2 (fst ` set rs)" if no: "\<forall>r \<in> set rs. \<not> P (fst (snd r))" for P
  proof -
    have "\<exists>z. ?h2 (fst q) = Some z \<and> \<not> P (re_realm z) \<and> re_next z \<in> fst ` set rs" if q: "q \<in> set rs" for q
    proof -
      from mem [OF q] obtain q1 where q1: "q1 \<in> set rs1" "fst q1 = fst q" "fst (snd q1) = fst (snd q)" by blast
      from route_seg_at [OF s1 q1(1)] obtain z where z: "?h1 (fst q) = Some z" "re_realm z = fst (snd q)" unfolding q1 by auto
      show ?thesis
      proof (cases "fst q = fst (last rs)")
        case True
        then have "z = y" using z(1) y by simp
        then show ?thesis using True z(2) no q r(2) a by auto
      next
        case False
        then have "q1 \<noteq> last rs1" using la q1(2) by metis
        from route_seg_next [OF s1 q1(1) this] obtain z1 where "?h1 (fst q) = Some z1" "re_next z1 \<in> fst ` set rs"
          unfolding q1(2) fs by blast
        then show ?thesis using z no q False by (intro exI [of _ z]) (simp del: fun_upd_apply add: fun_upd_other)
      qed
    qed
    moreover have "NULL \<notin> fst ` set rs" using route_seg_at [OF s] by fastforce
    ultimately show ?thesis unfolding stuck_def by blast
  qed
  have hd: "route_lst w \<in> fst ` set rs" using s ne by (cases rs) auto
  let ?w2 = "w1\<lparr>re_heap := ?h2\<rparr>"
  show ?thesis
    using st hd by (intro exI [of _ "if fst dst \<noteq> NULL then ?w2\<lparr>rt_shm := shm_free (fst dst) (rt_shm ?w2)\<rparr> else ?w2"])
      (simp add: add_route_def assms(2) f l ap, simp add: w1_def)
qed

section \<open>Properties\<close>

text \<open>Adding the routes of a configuration, one after the other; every one has to be accepted.\<close>

fun add_routes :: "(nat \<Rightarrow> bool) \<Rightarrow> (bytes \<times> ptr \<times> bytes) list \<Rightarrow> route_world \<Rightarrow> route_world option option" where
  "add_routes ok [] w = Some (Some w)"
| "add_routes ok ((realm, dst) # cs) w =
     (case add_route ok True realm dst w of
        Some (Some (r, w1)) \<Rightarrow> if r = 0 then add_routes ok cs w1 else Some None
      | Some None \<Rightarrow> Some None
      | None \<Rightarrow> None)"

definition different_realms :: "bytes list \<Rightarrow> bool" where
  "different_realms rs \<longleftrightarrow> (\<forall>i j. i < j \<and> j < length rs \<longrightarrow> \<not> same_str (rs ! i) (rs ! j))"

lemma different_realms_Cons: "different_realms (r # rs) \<longleftrightarrow> (\<forall>x \<in> set rs. \<not> same_str r x) \<and> different_realms rs"
proof
  assume d: "different_realms (r # rs)"
  have "\<not> same_str r (rs ! j)" if "j < length rs" for j using d that unfolding different_realms_def by (force dest: spec [of _ 0])
  moreover have "different_realms rs" using d unfolding different_realms_def by (metis Suc_mono length_Cons nth_Cons_Suc)
  ultimately show "(\<forall>x \<in> set rs. \<not> same_str r x) \<and> different_realms rs" by (auto simp: in_set_conv_nth)
next
  assume "(\<forall>x \<in> set rs. \<not> same_str r x) \<and> different_realms rs"
  then show "different_realms (r # rs)" unfolding different_realms_def by (auto simp: nth_Cons split: nat.splits)
qed

lemma add_routes_spec:
  assumes "routes w rs" and "\<forall>n. ok n" and "different_realms (map fst cs)"
    and "\<forall>c \<in> set cs. \<forall>r \<in> set rs. \<not> same_str (fst (snd r)) (fst c)" and "\<forall>c \<in> set cs. find_dst (snd (snd c)) w \<noteq> None"
  shows "\<exists>w' ts. add_routes ok cs w = Some (Some w') \<and> routes w' (rs @ ts) \<and>
    map snd ts = map (\<lambda>c. (fst c, [pe_addr (the (find_dst (snd (snd c)) w))])) cs"
  using assms
proof (induction cs arbitrary: w rs)
  case Nil
  then show ?case by (intro exI [of _ w] exI [of _ "[]"]) simp
next
  case (Cons c cs)
  obtain realm dst where c: "c = (realm, dst)" by (cases c)
  from Cons.prems(5) c obtain pe where pe: "find_dst (snd dst) w = Some pe" by auto
  have n: "\<forall>r \<in> set rs. \<not> same_str (fst (snd r)) realm" using Cons.prems(4) c by auto
  from add_route_new [OF Cons.prems(1) pe n Cons.prems(2)] obtain w1 a where w1: "add_route ok True realm dst w = Some (Some (0, w1))"
    "routes w1 (rs @ [(a, realm, [pe_addr pe])])" "cfg_peer_lst w1 = cfg_peer_lst w" by blast
  have f: "find_dst d w1 = find_dst d w" for d using w1(3) by (simp add: find_dst_def)
  have d: "\<forall>x \<in> set cs. \<not> same_str realm (fst x)" "different_realms (map fst cs)"
    using Cons.prems(3) c by (auto simp: different_realms_Cons)
  have "\<forall>x \<in> set cs. \<forall>r \<in> set (rs @ [(a, realm, [pe_addr pe])]). \<not> same_str (fst (snd r)) (fst x)"
    using Cons.prems(4) d(1) by auto
  from Cons.IH [OF w1(2) Cons.prems(2) d(2) this] Cons.prems(5) obtain w' ts where
    "add_routes ok cs w1 = Some (Some w')" "routes w' ((rs @ [(a, realm, [pe_addr pe])]) @ ts)"
    "map snd ts = map (\<lambda>c. (fst c, [pe_addr (the (find_dst (snd (snd c)) w))])) cs" unfolding f by auto
  then show ?case using w1(1) c pe by (intro exI [of _ w'] exI [of _ "(a, realm, [pe_addr pe]) # ts"]) simp
qed

text \<open>
  (C23) Routing follows the configuration. When the routes of a configuration name pairwise
  different realms and known peers, adding them succeeds, and afterwards \<open>route_dest\<close> always
  returns: the peer of the first route, in the order of the configuration, whose pattern matches
  the realm, or no peer when none matches or the realm is longer than 128 bytes.
\<close>

theorem routes_in_order:
  assumes "route_lst w = NULL" and "\<forall>n. ok n" and "different_realms (map fst cs)"
    and "\<forall>c \<in> set cs. find_dst (snd (snd c)) w \<noteq> None"
  shows "\<exists>w'. add_routes ok cs w = Some (Some w') \<and>
    route_dest fnm realm w' = Some (Some (if length realm \<le> 128 then
      (case find (\<lambda>c. fnm (c_str (fst c)) (c_str realm)) cs of
         None \<Rightarrow> [] | Some c \<Rightarrow> [pe_addr (the (find_dst (snd (snd c)) w))]) else []))"
proof -
  have r0: "routes w []" using assms(1) by (simp add: routes_def)
  from add_routes_spec [OF r0 assms(2,3) _ assms(4)] obtain w' ts where w': "add_routes ok cs w = Some (Some w')" "routes w' ts"
    "map snd ts = map (\<lambda>c. (fst c, [pe_addr (the (find_dst (snd (snd c)) w))])) cs" by auto
  have f: "map_option snd (find (\<lambda>r. fnm (c_str (fst (snd r))) (c_str realm)) ts) =
      map_option (\<lambda>c. (fst c, [pe_addr (the (find_dst (snd (snd c)) w))])) (find (\<lambda>c. fnm (c_str (fst c)) (c_str realm)) cs)"
    using w'(3)
  proof (induction ts arbitrary: cs)
    case (Cons t ts)
    then obtain c cs' where "cs = c # cs'" "snd t = (fst c, [pe_addr (the (find_dst (snd (snd c)) w))])"
      "map snd ts = map (\<lambda>c. (fst c, [pe_addr (the (find_dst (snd (snd c)) w))])) cs'" by (cases cs) auto
    then show ?case using Cons.IH by simp
  qed simp
  show ?thesis
  proof (cases "length realm \<le> 128")
    case True
    show ?thesis using w'(1) route_dest_seg [OF w'(2) True] f True
      by (cases "find (\<lambda>r. fnm (c_str (fst (snd r))) (c_str realm)) ts";
          cases "find (\<lambda>c. fnm (c_str (fst c)) (c_str realm)) cs") auto
  next
    case False
    then show ?thesis using w'(1) by (simp add: route_dest_def)
  qed
qed

definition sample_entry :: "ptr \<Rightarrow> u8 \<Rightarrow> peer_entry" where
  "sample_entry a c = \<lparr>pe_addr = a, pe_uri = zero_uri, full_uri = [97, 97, 97, c], pe_alias = [c], pe_peer = NULL\<rparr>"

definition sample_routes :: route_world where
  "sample_routes = \<lparr>cfg_peer_lst = [sample_entry 21 120, sample_entry 22 121], re_heap = Map.empty, route_lst = NULL, rt_shm = shm_init\<rparr>"

lemma sample_dst: "find_dst [120] sample_routes = Some (sample_entry 21 120)" "find_dst [121] sample_routes = Some (sample_entry 22 121)"
  by (simp_all add: find_dst_def sample_routes_def sample_entry_def same_str_def strncasecmp_eq_def to_lower_def pe_host_def zero_uri_def)

theorem routes_in_order_witness:
  "\<exists>w'. add_routes (\<lambda>_. True) [([1, 2], 5, [120]), ([3], 6, [121])] sample_routes = Some (Some w') \<and>
    route_dest (=) [3] w' = Some (Some [22])"
  using routes_in_order [of sample_routes "\<lambda>_. True" "[([1, 2], 5, [120]), ([3], 6, [121])]" "(=)" "[3]"]
  by (simp add: sample_dst different_realms_Cons same_str_def c_str_def sample_entry_def)
    (simp add: sample_routes_def different_realms_def)

text \<open>
  (C24) A second peer for a realm breaks the routing table. When a realm already has a route,
  adding another route for it reports success, but links the entry behind the last one again:
  looking up a realm that matches no route then never returns, and neither does adding a route
  for a new realm.
\<close>

theorem second_route_breaks_table:
  assumes "routes w rs" and "find_dst (snd dst) w = Some pe" and "r0 \<in> set rs" and "same_str (fst (snd r0)) realm" and "\<forall>n. ok n"
    and "length d \<le> 128" and "\<forall>r \<in> set rs. \<not> fnm (c_str (fst (snd r))) (c_str d)"
    and "\<forall>r \<in> set rs. \<not> same_str (fst (snd r)) realm2" and "find_dst (snd dst2) w \<noteq> None"
  shows "\<exists>w'. add_route ok True realm dst w = Some (Some (0, w')) \<and>
    route_dest fnm d w' = None \<and> add_route ok True realm2 dst2 w' = None"
proof -
  from add_route_again [OF assms(1-5)] obtain w' where w': "add_route ok True realm dst w = Some (Some (0, w'))"
    "cfg_peer_lst w' = cfg_peer_lst w" "route_lst w' \<in> fst ` set rs"
    "\<And>P. (\<forall>r \<in> set rs. \<not> P (fst (snd r))) \<Longrightarrow> stuck (\<lambda>x. P (re_realm x)) (re_heap w') (fst ` set rs)" by blast
  have "route_dest fnm d w' = None"
    using find_re_stuck [OF w'(4) [of "\<lambda>x. fnm (c_str x) (c_str d)"] w'(3)] assms(6,7) by (simp add: route_dest_def)
  moreover have "find_dst (snd dst2) w' \<noteq> None" using assms(9) w'(2) by (simp add: find_dst_def)
  then have "add_route ok True realm2 dst2 w' = None"
    using find_re_stuck [OF w'(4) [of "\<lambda>x. same_str x realm2"] w'(3)] assms(8) by (auto simp: add_route_def)
  ultimately show ?thesis using w'(1) by blast
qed

theorem second_route_breaks_table_witness:
  "\<exists>w w'. add_route (\<lambda>_. True) True [1, 2] (5, [120]) sample_routes = Some (Some (0, w)) \<and>
    add_route (\<lambda>_. True) True [1, 2] (6, [121]) w = Some (Some (0, w')) \<and> route_dest (=) [3] w' = None"
proof -
  have r0: "routes sample_routes []" by (simp add: routes_def sample_routes_def)
  from add_route_new [OF r0, of "(5, [120])" "sample_entry 21 120" "[1, 2]" "\<lambda>_. True"] obtain w a where
    w: "add_route (\<lambda>_. True) True [1, 2] (5, [120]) sample_routes = Some (Some (0, w))" "routes w [(a, [1, 2], [21])]"
      "cfg_peer_lst w = cfg_peer_lst sample_routes" by (auto simp: sample_dst sample_entry_def)
  have f: "find_dst [121] w = Some (sample_entry 22 121)" using sample_dst(2) w(3) by (simp add: find_dst_def)
  from second_route_breaks_table [OF w(2), of "(6, [121])" "sample_entry 22 121" "(a, [1, 2], [21])" "[1, 2]" "\<lambda>_. True" "[3]" "(=)" "[4]" "(7, [121])"] f
  show ?thesis using w(1) by (auto simp: c_str_def same_str_def)
qed

text \<open>
  Peers without an alias exclude each other. After a peer has been configured without an
  alias (an empty string), every further peer without an alias is refused, whatever its URI; a
  peer with a new alias and a new URI that the parser accepts is added at the end.
\<close>

lemma one_peer_without_alias:
  assumes "add_cfg_peer ok uri [] w = Some (0, w1)"
  shows "add_cfg_peer ok uri2 [] w1 = Some (- 1, w1) \<and>
    ((\<forall>t \<in> set (cfg_peer_lst w1). \<not> same_str (pe_alias t) alias \<and> \<not> same_str (full_uri t) uri2) \<and>
       (\<forall>n. ok n) \<and> aaa_parse_uri uri2 = Some (Inr u) \<longrightarrow>
     (\<exists>w2 pe. add_cfg_peer ok uri2 alias w1 = Some (0, w2) \<and> cfg_peer_lst w2 = cfg_peer_lst w1 @ [pe] \<and>
        pe_alias pe = alias \<and> full_uri pe = uri2 \<and> pe_uri pe = u))"
proof -
  have "\<exists>t \<in> set (cfg_peer_lst w1). pe_alias t = []"
    using assms by (auto simp: add_cfg_peer_def split: if_splits prod.splits bind_splits sum.splits)
  then have "\<exists>t \<in> set (cfg_peer_lst w1). same_str (pe_alias t) [] \<or> same_str (full_uri t) uri2" using same_str_refl by metis
  then have "add_cfg_peer ok uri2 [] w1 = Some (- 1, w1)" by (simp add: add_cfg_peer_def)
  then show ?thesis by (auto simp: add_cfg_peer_def shm_malloc_def Let_def)
qed

end
