(* ===== verification/Sender.thy ===== *)
theory Sender
  imports Session_Machine Message_Codec Peer_Invariant
begin

text \<open>
  Sending messages (diameter\_api/sender.c), the choice of the peer of a client (client.c) and the
  timeouts of transactions of sessions. Here the session layer and the transport layer meet: a
  node holds the peers with their transactions and the sessions, over one shared memory. Handlers
  of modules are parameters. The value None stands for undefined behaviour.
\<close>

section \<open>A node\<close>

record node =
  nd_pw :: peer_world
  nd_sw :: ses_world

text \<open>
  \<open>cl_mod_msg\<close> and \<open>cl_mod_tout\<close> are the handlers of the module that a session belongs to (its
  \<open>app_ref\<close>), \<open>sv_mod_msg\<close> is the handler of a module of the server. They may change the node, and a
  handler of messages may change the message it is given.
\<close>

record node_env =
  ne_peer :: peer_env
  my_aaa_status :: aaa_status
  ne_identity_s :: ptr
  ne_realm_s :: ptr
  cl_mod_msg :: "ptr \<Rightarrow> AAAMessage \<Rightarrow> ptr \<Rightarrow> node \<Rightarrow> (AAAMessage \<times> node) option"
  cl_mod_tout :: "ptr \<Rightarrow> ptr \<Rightarrow> ptr \<Rightarrow> node \<Rightarrow> node option"
  sv_mod_msg :: "aaa_module \<Rightarrow> AAAMessage \<Rightarrow> node \<Rightarrow> (AAAMessage \<times> node) option"

definition nd_shm :: "node \<Rightarrow> shm" where
  "nd_shm n = tw_shm (pw_tr (nd_pw n))"

definition set_shm :: "shm \<Rightarrow> node \<Rightarrow> node" where
  "set_shm m n = n\<lparr>nd_pw := (nd_pw n)\<lparr>pw_tr := (pw_tr (nd_pw n))\<lparr>tw_shm := m\<rparr>\<rparr>\<rparr>"

definition node_free :: "ptr \<Rightarrow> node \<Rightarrow> node" where
  "node_free p n = set_shm (shm_free p (nd_shm n)) n"

definition on_peers :: "(peer_world \<Rightarrow> ('a \<times> peer_world) option) \<Rightarrow> node \<Rightarrow> ('a \<times> node) option" where
  "on_peers f n = do { (r, w) \<leftarrow> f (nd_pw n); Some (r, n\<lparr>nd_pw := w\<rparr>) }"

text \<open>The sessions live in the same shared memory.\<close>

definition on_sessions :: "(ses_world \<Rightarrow> ('a \<times> ses_world) option) \<Rightarrow> node \<Rightarrow> ('a \<times> node) option" where
  "on_sessions f n = do {
     (r, w) \<leftarrow> f ((nd_sw n)\<lparr>sw_shm := nd_shm n\<rparr>);
     Some (r, set_shm (sw_shm w) (n\<lparr>nd_sw := w\<rparr>))
   }"

definition on_trans :: "(tr_world \<Rightarrow> tr_world option) \<Rightarrow> node \<Rightarrow> node option" where
  "on_trans f n = map_option (\<lambda>t. n\<lparr>nd_pw := (nd_pw n)\<lparr>pw_tr := t\<rparr>\<rparr>) (f (pw_tr (nd_pw n)))"

text \<open>The identifier of a session is a field of the session, and is addressed as the session.\<close>

definition sId2session :: "ptr \<Rightarrow> ptr" where
  "sId2session p = p"

text \<open>Reading from the pipe blocks while it is empty: None.\<close>

definition get_from_queue :: "peer_world \<Rightarrow> ((ptr \<times> bytes \<times> ptr) \<times> peer_world) option" where
  "get_from_queue w = (case pw_queue w of [] \<Rightarrow> None | q # qs \<Rightarrow> Some (q, w\<lparr>pw_queue := qs\<rparr>))"

definition free_message :: "AAAMessage \<Rightarrow> node \<Rightarrow> node" where
  "free_message msg n = set_shm (snd (AAAFreeMessage (Some msg) (nd_shm n))) n"

section \<open>Choosing a peer\<close>

fun send_to_first :: "peer_env \<Rightarrow> ptr \<Rightarrow> bytes \<Rightarrow> ptr list \<Rightarrow> peer_world \<Rightarrow> (int \<times> peer_world) option" where
  "send_to_first e tr req [] w = Some (- 1, w)"
| "send_to_first e tr req (p # ps) w = do {
     (r, w) \<leftarrow> send_req_to_peer e tr req p w;
     if r \<noteq> - 1 then Some (1, w) else send_to_first e tr req ps w
   }"

definition client_send_local_req :: "peer_env \<Rightarrow> bytes \<Rightarrow> ptr \<Rightarrow> peer_world \<Rightarrow> (int \<times> peer_world) option" where
  "client_send_local_req e req tr w = send_to_first e tr req (pw_all w) w"

definition server_send_local_req :: "peer_env \<Rightarrow> bytes \<Rightarrow> ptr \<Rightarrow> peer_world \<Rightarrow> (int \<times> peer_world) option" where
  "server_send_local_req e req tr w = Some (- 1, w)"

definition send_local_request :: "node_env \<Rightarrow> bytes \<Rightarrow> ptr \<Rightarrow> peer_world \<Rightarrow> (int \<times> peer_world) option" where
  "send_local_request e =
     (if my_aaa_status e = AAA_CLIENT then client_send_local_req (ne_peer e) else server_send_local_req (ne_peer e))"

section \<open>AAASendMessage\<close>

abbreviation (input) ses_trans_timeout_ptr :: ptr where "ses_trans_timeout_ptr \<equiv> 2"

definition sending_answer_event :: "u32 \<Rightarrow> AAA_EVENTS" where
  "sending_answer_event code =
     (if code = 274 then AAA_SENDING_ASA else if code = 275 then AAA_SENDING_STA
      else if code = 258 then AAA_SENDING_RAA else if code = 271 then AAA_SENDING_AcctA else AAA_SENDING_AuthA)"

definition sending_request_event :: "u32 \<Rightarrow> AAA_EVENTS" where
  "sending_request_event code =
     (if code = 274 then AAA_SENDING_ASR else if code = 275 then AAA_SENDING_STR
      else if code = 258 then AAA_SENDING_RAR else if code = 271 then AAA_SENDING_AcctR else AAA_SENDING_AuthR)"

definition build_buffer :: "node_env \<Rightarrow> AAAMessage \<Rightarrow> node \<Rightarrow> (int \<times> AAAMessage \<times> node) option" where
  "build_buffer e msg n = do {
     (r, msg, m) \<leftarrow> AAABuildMsgBuffer (env_ok (ne_peer e)) msg (nd_shm n);
     Some (r, msg, set_shm m n)
   }"

definition release_buffer :: "AAAMessage \<Rightarrow> node \<Rightarrow> AAAMessage \<times> node" where
  "release_buffer msg n = (msg\<lparr>buf_s := NULL, msg_buf := []\<rparr>, node_free (buf_s msg) n)"

text \<open>The label \<open>error\<close>.\<close>

definition send_failed :: "ptr \<Rightarrow> AAAMessage \<Rightarrow> node \<Rightarrow> (AAAReturnCode \<times> AAAMessage \<times> node) option" where
  "send_failed tr msg n = do {
     n \<leftarrow> (if tr \<noteq> NULL then on_trans (destroy_transaction tr) n else Some n);
     Some (AAA_ERR_FAILURE, if buf_s msg \<noteq> NULL then release_buffer msg n else (msg, n))
   }"

definition send_answer :: "node_env \<Rightarrow> AAAMessage \<Rightarrow> node \<Rightarrow> (AAAReturnCode \<times> AAAMessage \<times> node) option" where
  "send_answer e msg n =
     (if my_aaa_status e = AAA_CLIENT then send_failed NULL msg n
      else do {
        (r, msg, n) \<leftarrow> build_buffer e msg n;
        if r = - 1 then send_failed NULL msg n
        else do {
          let ses = sId2session (sId msg);
          (r, n) \<leftarrow> (if my_aaa_status e \<noteq> AAA_SERVER
            then on_sessions (session_state_machine ses (sending_answer_event (commandCode msg)) (Some msg)) n
            else Some (1, n));
          if r \<noteq> 1 then send_failed NULL msg n
          else if in_peer msg = NULL then None
          else do {
            (r, n) \<leftarrow> on_peers (send_res_to_peer (ne_peer e) (msg_buf msg) (in_peer msg)) n;
            if r = - 1 then do {
              (_, n) \<leftarrow> (if my_aaa_status e \<noteq> AAA_SERVER
                then on_sessions (session_state_machine ses AAA_SEND_FAILED (Some msg)) n else Some (1, n));
              send_failed NULL msg n
            }
            else Some (AAA_ERR_SUCCESS, release_buffer msg n)
          }
        }
      })"

definition send_request :: "node_env \<Rightarrow> AAAMessage \<Rightarrow> node \<Rightarrow> (AAAReturnCode \<times> AAAMessage \<times> node) option" where
  "send_request e msg n =
     (if my_aaa_status e \<noteq> AAA_CLIENT then send_failed NULL msg n
      else do {
        let ses = sId2session (sId msg);
        (r, msg, n) \<leftarrow> build_buffer e msg n;
        if r = - 1 then send_failed NULL msg n
        else let (tr, t) = create_transaction (env_ok (ne_peer e)) (buf_s msg) NULL ses_trans_timeout_ptr (pw_tr (nd_pw n));
                 n = n\<lparr>nd_pw := (nd_pw n)\<lparr>pw_tr := t\<rparr>\<rparr>
          in if tr = NULL then send_failed NULL msg n
             else do {
               n \<leftarrow> on_trans (\<lambda>t. map_option (\<lambda>x. set_trans tr (x\<lparr>tr_ses := ses, tr_info := commandCode msg\<rparr>) t) (tw_trans t tr)) n;
               (r, n) \<leftarrow> on_sessions (session_state_machine ses (sending_request_event (commandCode msg)) (Some msg)) n;
               if r \<noteq> 1 then send_failed tr msg n
               else do {
                 (r, n) \<leftarrow> on_peers (send_local_request e (msg_buf msg) tr) n;
                 if r = - 1 then do {
                   (_, n) \<leftarrow> on_sessions (session_state_machine ses AAA_SEND_FAILED (Some msg)) n;
                   send_failed tr msg n
                 }
                 else Some (AAA_ERR_SUCCESS, release_buffer msg n)
               }
             }
      })"

definition AAASendMessage :: "node_env \<Rightarrow> AAAMessage option \<Rightarrow> node \<Rightarrow> (AAAReturnCode \<times> AAAMessage \<times> node) option" where
  "AAASendMessage e msg n =
     (case msg of
        None \<Rightarrow> None
      | Some msg \<Rightarrow>
          if commandCode msg \<in> {257, 280, 282} then send_failed NULL msg n
          else if commandCode msg \<in> {274, 275, 258} then send_failed NULL msg n
          else if \<not> is_req msg then send_answer e msg n
          else send_request e msg n)"

section \<open>Timeouts\<close>

text \<open>\<open>fake_msg\<close> is a static message of which only the command code is set.\<close>

definition ses_trans_timeout_f :: "node_env \<Rightarrow> trans \<Rightarrow> node \<Rightarrow> node option" where
  "ses_trans_timeout_f e tr n = do {
     (r, n) \<leftarrow> on_sessions (session_state_machine (tr_ses tr) AAA_SESSION_REQ_TIMEOUT
       (Some ((zero_msg NULL)\<lparr>commandCode := tr_info tr\<rparr>))) n;
     if r = 1 then do {
       ses \<leftarrow> sw_sessions (nd_sw n) (tr_ses tr);
       cl_mod_tout e (app_ref ses) (tr_ses tr) (ses_context ses) n
     } else Some n
   }"

text \<open>The timeout function of a transaction, and the handler of the expired ones.\<close>

definition run_timeout_f :: "node_env \<Rightarrow> trans \<Rightarrow> node \<Rightarrow> node option" where
  "run_timeout_f e tr n =
     (if timeout_f tr = peer_trans_timeout_ptr then Some (n\<lparr>nd_pw := peer_trans_timeout_f tr (nd_pw n)\<rparr>)
      else if timeout_f tr = ses_trans_timeout_ptr then ses_trans_timeout_f e tr n
      else if timeout_f tr = NULL then Some n
      else None)"

fun expire_nodes :: "node_env \<Rightarrow> ptr list \<Rightarrow> node \<Rightarrow> node option" where
  "expire_nodes e [] n = Some n"
| "expire_nodes e (p # ps) n = do {
     (removed, t) \<leftarrow> expire_remove p (pw_tr (nd_pw n));
     let n = n\<lparr>nd_pw := (nd_pw n)\<lparr>pw_tr := t\<rparr>\<rparr>;
     tr \<leftarrow> tw_trans t p;
     n \<leftarrow> (if removed then run_timeout_f e tr n else Some n);
     n \<leftarrow> on_trans (destroy_transaction p) n;
     expire_nodes e ps n
   }"

definition node_timeout_handler :: "node_env \<Rightarrow> u32 \<Rightarrow> node \<Rightarrow> node option" where
  "node_timeout_handler e ticks n =
     (let (ps, t) = timer_expired ticks (pw_tr (nd_pw n)) in expire_nodes e ps (n\<lparr>nd_pw := (nd_pw n)\<lparr>pw_tr := t\<rparr>\<rparr>))"

section \<open>Open transactions\<close>

text \<open>
  A transaction whose request has been sent and whose answer is awaited: it is in the table of its
  peer under the identifiers of the request and in the timer list, with a reference for each.
\<close>

definition open_trans :: "nat \<Rightarrow> ptr \<Rightarrow> u32 \<Rightarrow> u32 \<Rightarrow> ptr \<Rightarrow> trans \<Rightarrow> tr_world \<Rightarrow> bool" where
  "open_trans n peer ete hop p tr w \<longleftrightarrow> p \<noteq> NULL \<and> table_ok n peer ete hop p w \<and> in_table peer ete hop p w \<and> in_timer p w \<and>
     tw_trans w p = Some tr \<and> ref_cnt tr = 2 \<and> tr_out_peer tr = peer"

lemma link_opens:
  assumes "fresh_trans n peer p w" and "tw_trans w p = Some tr"
  shows "\<exists>hop w' l. link_transaction ticks peer ete p w = Some (hop, w') \<and> tw_shm w' = tw_shm w \<and>
    open_trans (Suc n) peer ete hop p (tr\<lparr>tr_linker := l, tr_out_peer := peer, tr_req := NULL, ref_cnt := 2\<rparr>) w'"
proof -
  from link_transaction_starts [OF assms(1), of ticks ete] obtain hop w' where
    l: "link_transaction ticks peer ete p w = Some (hop, w')" "race_inv (Suc n) peer ete hop p (race_start w')" by blast
  have f: "\<not> in_timer p w" "ref_cnt tr = 1" using assms by (auto simp: fresh_trans_def)
  obtain k where k: "tw_trans w' p = Some (tr\<lparr>tr_linker := k, tr_out_peer := peer, tr_req := NULL, ref_cnt := 2\<rparr>)"
    "in_timer p w'" "tw_shm w' = tw_shm w"
    using l(1) assms(2) f
    by (auto simp: link_transaction_def atomic_add_def timer_add_def in_timer_def set_table_def set_trans_def Let_def split: bind_splits)
  then show ?thesis using l
    by (intro exI [of _ hop] exI [of _ w'] exI [of _ k])
      (auto simp: open_trans_def race_inv_def race_start_def race_defs split: if_splits)
qed

lemma lookup_closes:
  assumes "open_trans n peer ete hop p tr w"
  shows "\<exists>w'. transaction_lookup peer ete hop w = Some (p, w') \<and> tw_trans w' p = Some (tr\<lparr>ref_cnt := 1\<rparr>) \<and>
    tw_shm w' = tw_shm w \<and> \<not> in_table peer ete hop p w' \<and> \<not> in_timer p w'"
proof -
  have o: "p \<noteq> NULL" "table_ok n peer ete hop p w" "in_table peer ete hop p w" "in_timer p w" "tw_trans w p = Some tr" "ref_cnt tr = 2"
    using assms by (auto simp: open_trans_def)
  from lookup_take_effect [OF o(2,1)] o(3) obtain w1 where
    w1: "lookup_take peer ete hop w = Some (p, w1)" "\<not> in_table peer ete hop p w1" "in_timer p w1" "tw_trans w1 = tw_trans w"
    using o(4) by auto
  from lookup_untime_effect [of w1 p tr] w1(3,4) o(5,6) obtain w2 where
    w2: "lookup_untime p w1 = Some w2" "tw_tables w2 = tw_tables w1" "\<not> in_timer p w2" "tw_trans w2 p = Some (tr\<lparr>ref_cnt := 1\<rparr>)"
    by auto
  have m: "tw_shm w1 = tw_shm w" using w1(1) by (auto simp: lookup_take_def set_table_def Let_def split: bind_splits)
  have "tw_shm w2 = tw_shm w1"
    using w2(1) by (auto simp: lookup_untime_def timer_rmv_def atomic_add_def set_trans_def Let_def split: if_splits)
  then show ?thesis using w1 w2 m o(1) by (simp add: transaction_lookup_def same_tables(2) [OF w2(2)])
qed

lemma destroy_last:
  assumes "p \<noteq> NULL" and "tw_trans w p = Some tr" and "ref_cnt tr = 1"
  shows "\<exists>w'. destroy_transaction p w = Some w' \<and> tw_trans w' p = None \<and> tw_tables w' = tw_tables w \<and> tw_timer w' = tw_timer w \<and>
    tw_shm w' = shm_free p (tw_shm w)"
  using assms by (simp add: destroy_transaction_def atomic_add_def set_trans_def)

text \<open>A new transaction, when the allocator has a block that is not in use.\<close>

definition addr_bound :: "ptr \<Rightarrow> tr_world \<Rightarrow> bool" where
  "addr_bound peer t \<longleftrightarrow> (\<forall>p. cell_in (tw_tables t peer) p \<or> in_timer p t \<longrightarrow> p \<le> shm_calls (tw_shm t))"

lemma create_fresh:
  assumes "ok (shm_calls (tw_shm t))" and "addr_bound peer t" and "htable_wf n (tw_tables t peer)" and "n < 2 ^ 32"
    and "hash_size (tw_tables t peer) \<noteq> 0"
  defines "p \<equiv> Suc (shm_calls (tw_shm t))"
  shows "\<exists>t' tr. create_transaction ok buf in_p tf t = (p, t') \<and> fresh_trans n peer p t' \<and> tw_trans t' p = Some tr \<and>
    tr = \<lparr>tr_linker = \<lparr>hl_addr = p, hl_label = 0, hl_hash_code = 0\<rparr>, ref_cnt = 1, tr_ses = NULL, orig_hopbyhopId = 0,
      tr_info = 0, tr_in_peer = in_p, tr_out_peer = NULL, tr_req = buf, timeout_f = tf\<rparr> \<and>
    tw_shm t' = snd (shm_malloc ok (tw_shm t)) \<and> p \<in> set (shm_live (tw_shm t'))"
proof -
  have "\<not> cell_in (tw_tables t peer) p" "\<not> in_timer p t" using assms(2) by (auto simp: addr_bound_def p_def)
  then show ?thesis using assms
    by (simp add: create_transaction_def shm_malloc_def fresh_trans_def Let_def in_timer_def)
qed

text \<open>Handing a buffer to the socket, when all of it is taken.\<close>

lemma safe_write_all:
  "env_write e (pw_calls w) = W_bytes (length buf) \<Longrightarrow>
   safe_write e p buf w = Some (1, w\<lparr>pw_calls := Suc (pw_calls w), pw_writes := pw_writes w @ [(p_sock (pw_peers w p), buf)]\<rparr>)"
  by (subst safe_write.simps) simp

definition ready :: "ptr \<Rightarrow> peer_world \<Rightarrow> bool" where
  "ready p w \<longleftrightarrow> p_state (pw_peers w p) = PEER_CONN \<or> p_state (pw_peers w p) = PEER_WAIT_DWA"

lemma peek4le_drop:
  assumes "peek4le b i = Some v"
  shows "drop i b = le32 v @ drop (i + 4) b"
proof -
  have l: "i + 4 \<le> length b" and v: "v = of_be32 (b ! (i + 3)) (b ! (i + 2)) (b ! (i + 1)) (b ! i)"
    using assms by (auto simp: peek4le_def split: if_splits)
  have "drop i b = b ! i # b ! (i + 1) # b ! (i + 2) # b ! (i + 3) # drop (i + 4) b"
    using l by (simp add: Cons_nth_drop_Suc numeral_eq_Suc)
  then show ?thesis by (simp add: v le32_def)
qed

lemma peek4le_write_back: "peek4le b i = Some v \<Longrightarrow> take i b @ le32 v @ drop (i + 4) b = b"
  using peek4le_drop [of b i v] by (metis append_take_drop_id)

text \<open>The identifiers of a request as it leaves the node.\<close>

definition with_ids :: "u32 \<Rightarrow> u32 \<Rightarrow> bytes \<Rightarrow> bytes" where
  "with_ids hop ete b = take 12 b @ le32 hop @ le32 ete @ drop 20 b"

definition request_ete :: "trans \<Rightarrow> bytes \<Rightarrow> peer \<Rightarrow> u32" where
  "request_ete tr req x = (if tr_in_peer tr \<noteq> NULL then the (peek4le req 16) else endtoendID x)"

lemma write_ids:
  assumes "20 \<le> length b"
  shows "poke 12 (le32 hop) (take 16 b @ le32 ete @ drop 20 b) = Some (with_ids hop ete b)"
  using assms by (simp add: poke_def with_ids_def drop_Cons' take_Cons' min_def)

lemma send_req_opens:
  assumes "ready p w" and "fresh_trans n p tr (pw_tr w)" and x: "tw_trans (pw_tr w) tr = Some x"
    and len: "20 \<le> length req" and wr: "env_write e (pw_calls w) = W_bytes (length req)"
  defines "ete \<equiv> request_ete x req (pw_peers w p)"
  shows "\<exists>hop t l. send_req_to_peer e tr req p w = Some (1,
      (if tr_in_peer x \<noteq> NULL then w else upd p (\<lambda>y. y\<lparr>endtoendID := ete + 1\<rparr>) w)\<lparr>pw_tr := t, pw_calls := Suc (pw_calls w),
        pw_writes := pw_writes w @ [(p_sock (pw_peers w p), with_ids hop ete req)]\<rparr>) \<and>
    tw_shm t = tw_shm (pw_tr w) \<and>
    open_trans (Suc n) p ete hop tr (x\<lparr>tr_linker := l, tr_out_peer := p, tr_req := NULL, ref_cnt := 2\<rparr>) t"
proof -
  from link_opens [OF assms(2) x, of "pw_ticks w" ete] obtain hop t l where
    l: "link_transaction (pw_ticks w) p ete tr (pw_tr w) = Some (hop, t)" "tw_shm t = tw_shm (pw_tr w)"
      "open_trans (Suc n) p ete hop tr (x\<lparr>tr_linker := l, tr_out_peer := p, tr_req := NULL, ref_cnt := 2\<rparr>) t" by blast
  have st: "\<not> (p_state (pw_peers w p) \<noteq> PEER_CONN \<and> p_state (pw_peers w p) \<noteq> PEER_WAIT_DWA)"
    using assms(1) by (auto simp: ready_def)
  have wl: "length (with_ids hop ete req) = length req" using len by (simp add: with_ids_def)
  have "send_req_to_peer e tr req p w = Some (1,
      (if tr_in_peer x \<noteq> NULL then w else upd p (\<lambda>y. y\<lparr>endtoendID := ete + 1\<rparr>) w)\<lparr>pw_tr := t, pw_calls := Suc (pw_calls w),
        pw_writes := pw_writes w @ [(p_sock (pw_peers w p), with_ids hop ete req)]\<rparr>)"
  proof (cases "tr_in_peer x \<noteq> NULL")
    case True
    then have p: "peek4le req 16 = Some ete" using len by (simp add: ete_def request_ete_def peek4le_def)
    have "poke 12 (le32 hop) req = Some (with_ids hop ete req)"
      using write_ids [OF len, of hop ete] peek4le_write_back [OF p] by simp
    then show ?thesis using True st x p l(1) wr wl
      by (simp add: send_req_to_peer_def safe_write_all)
  next
    case False
    then have e: "ete = endtoendID (pw_peers w p)" by (simp add: ete_def request_ete_def)
    have p: "poke 16 (le32 ete) req = Some (take 16 req @ le32 ete @ drop 20 req)" using len by (simp add: poke_def)
    have l': "link_transaction (pw_ticks w) p (endtoendID (pw_peers w p)) tr (pw_tr w) = Some (hop, t)"
      using l(1) unfolding e .
    show ?thesis using False st x p l' wr wl write_ids [OF len, of hop ete]
      by (simp add: send_req_to_peer_def safe_write_all e Let_def)
  qed
  then show ?thesis using l(2,3) by blast
qed

lemma send_res_writes:
  assumes "ready p w" and "env_write e (pw_calls w) = W_bytes (length buf)"
  shows "send_res_to_peer e buf p w =
    Some (1, w\<lparr>pw_calls := Suc (pw_calls w), pw_writes := pw_writes w @ [(p_sock (pw_peers w p), buf)]\<rparr>)"
  using assms by (simp add: send_res_to_peer_def ready_def safe_write_all)

end
