(* ===== verification/Server.thy ===== *)
theory Server
  imports Sender Route
begin

text \<open>
  The worker threads of a server (server.c): requests are served by a module, forwarded or
  answered with an error, answers are matched with their transactions and sent back where the
  request came from. One round of the loop of \<open>server_worker\<close> is \<open>server_round\<close>.
\<close>

section \<open>Definitions\<close>

abbreviation AAA_COMMAND_UNSUPPORTED :: u32 where "AAA_COMMAND_UNSUPPORTED \<equiv> 3001"
abbreviation AAA_UNABLE_TO_DELIVER :: u32 where "AAA_UNABLE_TO_DELIVER \<equiv> 3002"
abbreviation AAA_APPLICATION_UNSUPPORTED :: u32 where "AAA_APPLICATION_UNSUPPORTED \<equiv> 3007"
abbreviation (input) RUN_ON_REPLIES :: u32 where "RUN_ON_REPLIES \<equiv> 4"

text \<open>A request without Session-Id makes the code take the address of a field of a null pointer.\<close>

definition send_error_reply :: "node_env \<Rightarrow> AAAMessage \<Rightarrow> u32 \<Rightarrow> node \<Rightarrow> node option" where
  "send_error_reply e msg response_code n = do {
     sid \<leftarrow> (if msg_sessionId msg = NULL then None else find (\<lambda>a. avp_addr a = msg_sessionId msg) (avpList msg));
     (ans, m) \<leftarrow> AAANewMessage (env_ok (ne_peer e)) (ne_identity_s e, cfg_identity (env_cfg (ne_peer e)))
       (ne_realm_s e, cfg_realm (env_cfg (ne_peer e))) (commandCode msg) (applicationId msg)
       (Some (avp_addr sid, avp_data_s sid, avp_data sid)) (Some msg) (nd_shm n);
     let n = set_shm m n;
     case ans of
       None \<Rightarrow> Some n
     | Some ans \<Rightarrow> do {
         (r, ans) \<leftarrow> AAASetMessageResultCode ans response_code;
         (ans, n) \<leftarrow> (if r = AAA_ERR_SUCCESS
           then map_option snd (AAASendMessage e (Some ans) n) else Some (ans, n));
         Some (free_message ans n)
       }
   }"

definition run_module :: "node_env \<Rightarrow> AAAMessage \<Rightarrow> aaa_module \<Rightarrow> node \<Rightarrow> (AAAMessage \<times> node) option" where
  "run_module e msg md n = sv_mod_msg e md (msg\<lparr>sId := msg_sessionId msg\<rparr>) n"

definition forward_request :: "node_env \<Rightarrow> AAAMessage \<Rightarrow> ptr \<Rightarrow> ptr \<Rightarrow> peer_world \<Rightarrow> (int \<times> peer_world) option" where
  "forward_request e msg in_p out_p w =
     (let (tr, t) = create_transaction (env_ok (ne_peer e)) (buf_s msg) in_p NULL (pw_tr w)
      in if tr = NULL then Some (- 1, w\<lparr>pw_tr := t\<rparr>)
         else do {
           t \<leftarrow> update_forward_transaction_from_msg tr (hopbyhopId msg) t;
           (r, w) \<leftarrow> send_req_to_peer (ne_peer e) tr (msg_buf msg) out_p (w\<lparr>pw_tr := t\<rparr>);
           if r = - 1 then do { t \<leftarrow> destroy_transaction tr (pw_tr w); Some (- 1, w\<lparr>pw_tr := t\<rparr>) }
           else Some (1, w)
         })"

definition serve_local :: "node_env \<Rightarrow> AAAMessage \<Rightarrow> node \<Rightarrow> (AAAMessage \<times> node) option" where
  "serve_local e msg n =
     (case find_module (env_cfg (ne_peer e)) (applicationId msg) of
        Some md \<Rightarrow> run_module e msg md n
      | None \<Rightarrow> map_option (Pair msg) (send_error_reply e msg AAA_APPLICATION_UNSUPPORTED n))"

definition forward_or_fail :: "node_env \<Rightarrow> AAAMessage \<Rightarrow> ptr \<Rightarrow> ptr \<Rightarrow> node \<Rightarrow> (AAAMessage \<times> node) option" where
  "forward_or_fail e msg in_p out_p n = do {
     (r, n) \<leftarrow> on_peers (forward_request e msg in_p out_p) n;
     map_option (Pair msg) (if r = - 1 then send_error_reply e msg AAA_UNABLE_TO_DELIVER n else Some n)
   }"

text \<open>The part of \<open>process_incoming_request\<close> that routes on the realm.\<close>

definition route_on_realm :: "node_env \<Rightarrow> (bytes \<Rightarrow> bytes \<Rightarrow> bool) \<Rightarrow> route_world \<Rightarrow> AAAMessage \<Rightarrow> ptr \<Rightarrow> node \<Rightarrow>
    (AAAMessage \<times> node) option" where
  "route_on_realm e fnm rw msg in_p n = do {
     realm \<leftarrow> avp_data_at msg (dest_realm msg);
     if same_str realm (cfg_realm (env_cfg (ne_peer e))) then
       (case find_module (env_cfg (ne_peer e)) (applicationId msg) of
          Some md \<Rightarrow> run_module e msg md n
        | None \<Rightarrow> do {
            out_p \<leftarrow> lookup_peer_by_realm_appid realm (applicationId msg) (nd_pw n);
            if out_p \<noteq> NULL then forward_or_fail e msg in_p out_p n
            else map_option (Pair msg) (send_error_reply e msg AAA_APPLICATION_UNSUPPORTED n)
          })
     else do {
       (r, n) \<leftarrow> on_peers (do_route (ne_peer e) fnm rw msg in_p) n;
       map_option (Pair msg) (if r < 0 then send_error_reply e msg AAA_UNABLE_TO_DELIVER n else Some n)
     }
   }"

definition process_incoming_request :: "node_env \<Rightarrow> (bytes \<Rightarrow> bytes \<Rightarrow> bool) \<Rightarrow> route_world \<Rightarrow> AAAMessage \<Rightarrow> ptr \<Rightarrow> node \<Rightarrow>
    (AAAMessage \<times> node) option" where
  "process_incoming_request e fnm rw msg in_p n =
     (if dest_host msg \<noteq> NULL then
        (if dest_realm msg = NULL then map_option (Pair msg) (send_error_reply e msg AAA_MISSING_AVP n)
         else do {
           host \<leftarrow> avp_data_at msg (dest_host msg);
           if same_str host (cfg_identity (env_cfg (ne_peer e))) then serve_local e msg n
           else let out_p = lookup_peer_by_identity host (nd_pw n)
             in if out_p \<noteq> NULL then forward_or_fail e msg in_p out_p n else route_on_realm e fnm rw msg in_p n
         })
      else if dest_realm msg = NULL then serve_local e msg n
      else route_on_realm e fnm rw msg in_p n)"

definition process_answer :: "node_env \<Rightarrow> AAAMessage \<Rightarrow> ptr \<Rightarrow> node \<Rightarrow> (AAAMessage \<times> node) option" where
  "process_answer e msg in_p n = do {
     (tr, t) \<leftarrow> transaction_lookup in_p (endtoendId msg) (hopbyhopId msg) (pw_tr (nd_pw n));
     let n = n\<lparr>nd_pw := (nd_pw n)\<lparr>pw_tr := t\<rparr>\<rparr>;
     if tr = NULL then Some (msg, n)
     else do {
       x \<leftarrow> tw_trans t tr;
       (msg, n) \<leftarrow> (if tr_in_peer x \<noteq> NULL then do {
           b \<leftarrow> poke 12 (le32 (orig_hopbyhopId x)) (msg_buf msg);
           let msg = msg\<lparr>hopbyhopId := orig_hopbyhopId x, msg_buf := b\<rparr>;
           (msg, n) \<leftarrow> (case find_module (env_cfg (ne_peer e)) (applicationId msg) of
             Some md \<Rightarrow> if mod_flags md AND RUN_ON_REPLIES \<noteq> 0 then sv_mod_msg e md msg n else Some (msg, n)
           | None \<Rightarrow> Some (msg, n));
           (r, n) \<leftarrow> on_peers (send_res_to_peer (ne_peer e) (msg_buf msg) (tr_in_peer x)) n;
           Some (msg, n)
         } else Some (msg, n));
       n \<leftarrow> on_trans (destroy_transaction tr) n;
       Some (msg, n)
     }
   }"

definition process_request :: "node_env \<Rightarrow> (bytes \<Rightarrow> bytes \<Rightarrow> bool) \<Rightarrow> route_world \<Rightarrow> AAAMessage \<Rightarrow> ptr \<Rightarrow> node \<Rightarrow>
    (AAAMessage \<times> node) option" where
  "process_request e fnm rw msg in_p n =
     (if commandCode msg \<in> {274, 258, 275} then map_option (Pair msg) (send_error_reply e msg AAA_COMMAND_UNSUPPORTED n)
      else if msg_sessionId msg = NULL \<or> orig_host msg = NULL \<or> orig_realm msg = NULL \<or> dest_realm msg = NULL
      then map_option (Pair msg) (send_error_reply e msg AAA_MISSING_AVP n)
      else process_incoming_request e fnm rw msg in_p n)"

definition server_round :: "node_env \<Rightarrow> (bytes \<Rightarrow> bytes \<Rightarrow> bool) \<Rightarrow> route_world \<Rightarrow> node \<Rightarrow> node option" where
  "server_round e fnm rw n =
     (case get_from_queue (nd_pw n) of
        None \<Rightarrow> Some n
      | Some ((s, b, in_p), w) \<Rightarrow> do {
          let n = n\<lparr>nd_pw := w\<rparr>;
          (msg, m) \<leftarrow> AAATranslateMessage (env_ok (ne_peer e)) s b True (nd_shm n);
          let n = set_shm m n;
          case msg of
            None \<Rightarrow> Some (node_free s n)
          | Some msg \<Rightarrow> do {
              (msg, n) \<leftarrow> (if is_req msg then process_request e fnm rw (msg\<lparr>in_peer := in_p\<rparr>) in_p n
                else process_answer e msg in_p n);
              Some (free_message msg n)
            }
        })"

section \<open>What a received message owns\<close>

definition owned :: "AAAMessage \<Rightarrow> ptr set" where
  "owned msg = insert (msg_addr msg) (avp_addr ` set (avpList msg))"

definition received :: "shm \<Rightarrow> ptr \<Rightarrow> bytes \<Rightarrow> AAAMessage \<Rightarrow> shm \<Rightarrow> bool" where
  "received m s b msg m' \<longleftrightarrow> shm_wf m' \<and> shm_calls m < shm_calls m' \<and> set (shm_live m') = owned msg \<union> set (shm_live m) \<and>
     owned msg \<inter> set (shm_live m) = {} \<and> (\<forall>a \<in> set (avpList msg). \<not> free_it a) \<and> buf_s msg = s \<and>
     peek4le b 12 = Some (hopbyhopId msg) \<and> peek4le b 16 = Some (endtoendId msg)"

lemma translate_received:
  assumes wf: "shm_wf m" and tr: "AAATranslateMessage ok s b True m = Some (Some msg, m')"
  shows "received m s b msg m'"
proof -
  define a where "a = Suc (shm_calls m)"
  define m1 where "m1 = \<lparr>shm_calls = a, shm_live = a # shm_live m\<rparr>"
  have s: "s \<noteq> NULL" "20 \<le> length b" using tr by (auto simp: AAATranslateMessage_def AAA_MSG_HDR_SIZE_def split: if_splits)
  have "ok (shm_calls m)"
    using tr by (auto simp: AAATranslateMessage_def shm_malloc_def Let_def split: if_splits)
  then have al: "shm_malloc ok m = (a, m1)" by (simp add: shm_malloc_def a_def m1_def Let_def)
  have hdr: "AAA_MSG_HDR_SIZE = 20" by (simp add: AAA_MSG_HDR_SIZE_def)
  have an: "a \<noteq> NULL" by (simp add: a_def)
  from tr s al an obtain mlen fl code app hop e2e where
    ids: "peek_3bytes b 1 = Some mlen" "peek b 4 = Some fl" "peek_3bytes b 5 = Some code" "peek_4bytes b 8 = Some app"
      "peek4le b 12 = Some hop" "peek4le b 16 = Some e2e" and len: "unat mlen \<le> length b"
    unfolding AAATranslateMessage_def hdr by (auto simp: not_less split: if_splits bind_splits)
  let ?g0 = "(zero_msg a)\<lparr>msg_flags := fl, commandCode := code, applicationId := app, hopbyhopId := hop, endtoendId := e2e\<rparr>"
  from tr s al an ids len obtain g where
    g: "translate_avps ok s b (unat mlen) 20 ?g0 m1 = Some (True, g, m')"
      and msg: "msg = g\<lparr>buf_s := s, msg_buf := take (unat mlen) b\<rparr>"
    unfolding AAATranslateMessage_def hdr by (auto split: if_splits bind_splits)
  have in0: "msg_in m1 ?g0" by (rule msg_in_zero) (simp_all add: zero_msg_def shortcut_def)
  from translate_avps_safe [OF in0 len, of ok s 20] g have app: "appended ?g0 m1 g m'" by auto
  have wf1: "shm_wf m1" using wf unfolding shm_wf_def m1_def a_def by fastforce
  from app obtain as where as: "avpList g = as" "shm_live m' = rev (map avp_addr as) @ shm_live m1"
    "\<forall>x \<in> set as. \<not> free_it x \<and> shm_calls m1 < avp_addr x" "shm_calls m1 \<le> shm_calls m'" "msg_hdr g = msg_hdr ?g0"
    unfolding appended_def by (auto simp: zero_msg_def)
  have h: "msg_addr g = a" "hopbyhopId g = hop" "endtoendId g = e2e" using as(5) by (auto simp: msg_hdr_def zero_msg_def)
  have "owned msg \<inter> set (shm_live m) = {}"
    using as(1,3) h(1) shm_wf_calls [OF wf] unfolding owned_def msg m1_def a_def by fastforce
  moreover have "set (shm_live m') = owned msg \<union> set (shm_live m)" using as(1,2) h(1) by (auto simp: owned_def msg m1_def)
  ultimately show ?thesis
    using appended_wf [OF wf1 app] as h ids by (auto simp: received_def msg m1_def a_def)
qed

lemma free_message_owned:
  assumes "shm_wf m" and "\<forall>a \<in> set (avpList msg). \<not> free_it a" and "buf_s msg \<noteq> NULL"
  shows "set (shm_live (snd (AAAFreeMessage (Some msg) m))) = set (shm_live m) - owned msg - {buf_s msg} \<and>
    shm_wf (snd (AAAFreeMessage (Some msg) m))"
  using free_avps_live [OF assms(1,2)] assms(3) shm.free_live shm.free_wf
  by (auto simp: AAAFreeMessage_def owned_def Let_def)

section \<open>Forwarding\<close>

text \<open>A peer to which a new transaction can be handed.\<close>

definition takes_request :: "nat \<Rightarrow> ptr \<Rightarrow> peer_world \<Rightarrow> bool" where
  "takes_request k p w \<longleftrightarrow> p \<noteq> NULL \<and> ready p w \<and> addr_bound p (pw_tr w) \<and> htable_wf k (tw_tables (pw_tr w) p) \<and> k < 2 ^ 32 \<and>
     hash_size (tw_tables (pw_tr w) p) \<noteq> 0"

definition hop_by_hop :: "bytes \<Rightarrow> bytes" where
  "hop_by_hop b = take 4 (drop 12 b)"

definition with_hop :: "bytes \<Rightarrow> bytes \<Rightarrow> bytes" where
  "with_hop h b = take 12 b @ h @ drop 16 b"

lemma with_ids_hop: "peek4le b 16 = Some ete \<Longrightarrow> with_ids hop ete b = with_hop (le32 hop) b"
  using peek4le_drop [of b 16 ete] by (simp add: with_ids_def with_hop_def)

lemma hop_bytes: "peek4le b 12 = Some h \<Longrightarrow> hop_by_hop b = le32 h"
  using peek4le_drop [of b 12 h] by (simp add: hop_by_hop_def)

lemma forward_opens:
  assumes "in_p \<noteq> NULL" and "takes_request k out_p w" and "peek4le (msg_buf msg) 16 = Some ete"
    and wr: "env_write (ne_peer e) (pw_calls w) = W_bytes (length (msg_buf msg))"
    and ok: "env_ok (ne_peer e) (shm_calls (tw_shm (pw_tr w)))"
  defines "tr \<equiv> Suc (shm_calls (tw_shm (pw_tr w)))"
  shows "\<exists>hop t x. forward_request e msg in_p out_p w = Some (1, w\<lparr>pw_tr := t, pw_calls := Suc (pw_calls w),
      pw_writes := pw_writes w @ [(p_sock (pw_peers w out_p), with_hop (le32 hop) (msg_buf msg))]\<rparr>) \<and>
    tw_shm t = snd (shm_malloc (env_ok (ne_peer e)) (tw_shm (pw_tr w))) \<and> open_trans (Suc k) out_p ete hop tr x t \<and>
    tr_in_peer x = in_p \<and> orig_hopbyhopId x = hopbyhopId msg"
proof -
  have t: "ready out_p w" "addr_bound out_p (pw_tr w)" "htable_wf k (tw_tables (pw_tr w) out_p)" "k < 2 ^ 32"
    "hash_size (tw_tables (pw_tr w) out_p) \<noteq> 0" using assms(2) by (auto simp: takes_request_def)
  have len: "20 \<le> length (msg_buf msg)" using assms(3) by (simp add: peek4le_def split: if_splits)
  from create_fresh [where ok = "env_ok (ne_peer e)", OF ok t(2-5), of "buf_s msg" in_p NULL] obtain t1 y where
    c: "create_transaction (env_ok (ne_peer e)) (buf_s msg) in_p NULL (pw_tr w) = (tr, t1)" "fresh_trans k out_p tr t1"
      "tw_trans t1 tr = Some y" "tw_shm t1 = snd (shm_malloc (env_ok (ne_peer e)) (tw_shm (pw_tr w)))"
      "tr_in_peer y = in_p"
    unfolding tr_def by auto
  define x where "x = y\<lparr>orig_hopbyhopId := hopbyhopId msg\<rparr>"
  define t2 where "t2 = set_trans tr x t1"
  have u: "update_forward_transaction_from_msg tr (hopbyhopId msg) t1 = Some t2"
    using c(3) by (simp add: update_forward_transaction_from_msg_def t2_def x_def)
  have f: "fresh_trans k out_p tr t2" "tw_trans t2 tr = Some x"
    using c(2,3) by (auto simp: fresh_trans_def t2_def x_def in_timer_def)
  have in_p: "tr_in_peer x \<noteq> NULL" "request_ete x (msg_buf msg) (pw_peers w out_p) = ete"
    using c(5) assms(1,3) by (auto simp: x_def request_ete_def)
  from send_req_opens [of out_p "w\<lparr>pw_tr := t2\<rparr>" k tr x "msg_buf msg" "ne_peer e"] t(1) f len wr in_p obtain hop t3 l where
    r: "send_req_to_peer (ne_peer e) tr (msg_buf msg) out_p (w\<lparr>pw_tr := t2\<rparr>) = Some (1, w\<lparr>pw_tr := t3, pw_calls := Suc (pw_calls w),
        pw_writes := pw_writes w @ [(p_sock (pw_peers w out_p), with_ids hop ete (msg_buf msg))]\<rparr>)"
      "tw_shm t3 = tw_shm t2" "open_trans (Suc k) out_p ete hop tr (x\<lparr>tr_linker := l, tr_out_peer := out_p, tr_req := NULL, ref_cnt := 2\<rparr>) t3"
    by (auto simp: ready_def)
  have "tw_shm t2 = tw_shm t1" by (simp add: t2_def set_trans_def)
  then show ?thesis using c(1,4) u r with_ids_hop [OF assms(3)] c(5)
    by (intro exI [of _ hop] exI [of _ t3] exI [of _ "x\<lparr>tr_linker := l, tr_out_peer := out_p, tr_req := NULL, ref_cnt := 2\<rparr>"])
      (simp add: forward_request_def tr_def x_def)
qed

lemma node_shm_simps [simp]:
  "nd_shm (set_shm m n) = m" "nd_sw (set_shm m n) = nd_sw n" "pw_writes (nd_pw (set_shm m n)) = pw_writes (nd_pw n)"
  "pw_peers (nd_pw (set_shm m n)) = pw_peers (nd_pw n)" "pw_calls (nd_pw (set_shm m n)) = pw_calls (nd_pw n)"
  "tw_tables (pw_tr (nd_pw (set_shm m n))) = tw_tables (pw_tr (nd_pw n))" "tw_trans (pw_tr (nd_pw (set_shm m n))) = tw_trans (pw_tr (nd_pw n))"
  "tw_timer (pw_tr (nd_pw (set_shm m n))) = tw_timer (pw_tr (nd_pw n))" "pw_all (nd_pw (set_shm m n)) = pw_all (nd_pw n)"
  by (simp_all add: set_shm_def nd_shm_def)

lemma open_trans_shm [simp]: "open_trans k p ete hop tr x (pw_tr (nd_pw (set_shm m n))) = open_trans k p ete hop tr x (pw_tr (nd_pw n))"
  by (simp add: open_trans_def table_ok_def in_table_def in_timer_def)

lemma open_trans_cong:
  "tw_tables t' = tw_tables t \<Longrightarrow> tw_timer t' = tw_timer t \<Longrightarrow> tw_trans t' = tw_trans t \<Longrightarrow>
   open_trans k p ete hop tr x t' = open_trans k p ete hop tr x t"
  by (simp add: open_trans_def table_ok_def in_table_def in_timer_def)

text \<open>A request whose Destination-Host is a peer of this node.\<close>

definition to_forward :: "node_env \<Rightarrow> AAAMessage \<Rightarrow> ptr \<Rightarrow> peer_world \<Rightarrow> bool" where
  "to_forward e msg out_p w \<longleftrightarrow> is_req msg \<and> commandCode msg \<notin> {274, 258, 275} \<and> msg_sessionId msg \<noteq> NULL \<and>
     orig_host msg \<noteq> NULL \<and> orig_realm msg \<noteq> NULL \<and> dest_realm msg \<noteq> NULL \<and>
     (\<exists>host. avp_data_at msg (dest_host msg) = Some host \<and> \<not> same_str host (cfg_identity (env_cfg (ne_peer e))) \<and>
        lookup_peer_by_identity host w = out_p)"

lemma lookup_identity_cong: "pw_all w' = pw_all w \<Longrightarrow> pw_peers w' = pw_peers w \<Longrightarrow>
  lookup_peer_by_identity h w' = lookup_peer_by_identity h w"
  by (simp add: lookup_peer_by_identity_def)

lemma to_forward_process:
  assumes "to_forward e msg out_p (nd_pw n)" and "out_p \<noteq> NULL"
  shows "process_request e fnm rw (msg\<lparr>in_peer := in_p\<rparr>) in_p n = forward_or_fail e (msg\<lparr>in_peer := in_p\<rparr>) in_p out_p n"
proof -
  from assms obtain host where h: "avp_data_at msg (dest_host msg) = Some host" "\<not> same_str host (cfg_identity (env_cfg (ne_peer e)))"
    "lookup_peer_by_identity host (nd_pw n) = out_p" by (auto simp: to_forward_def)
  then have "dest_host msg \<noteq> NULL" by (auto simp: avp_data_at_def split: if_splits)
  moreover have "avp_data_at (msg\<lparr>in_peer := in_p\<rparr>) p = avp_data_at msg p" for p by (simp add: avp_data_at_def)
  ultimately show ?thesis using assms h
    by (simp add: process_request_def process_incoming_request_def to_forward_def Let_def)
qed

lemma forward_round:
  assumes q: "pw_queue (nd_pw n) = (s, b, in_p) # qs" and wf: "shm_wf (nd_shm n)" and s_in: "s \<in> set (shm_live (nd_shm n))"
    and parse: "AAATranslateMessage (env_ok (ne_peer e)) s b True (nd_shm n) = Some (Some msg, m)"
    and buf: "msg_buf msg = b" and in_nn: "in_p \<noteq> NULL" and fwd: "to_forward e msg out_p (nd_pw n)"
    and tk: "takes_request k out_p (nd_pw n)"
    and wr: "env_write (ne_peer e) (pw_calls (nd_pw n)) = W_bytes (length b)" and ok: "env_ok (ne_peer e) (shm_calls m)"
  shows "\<exists>hop t x. server_round e fnm rw n = Some (n\<lparr>nd_pw := (nd_pw n)\<lparr>pw_tr := t, pw_calls := Suc (pw_calls (nd_pw n)),
      pw_writes := pw_writes (nd_pw n) @ [(p_sock (pw_peers (nd_pw n) out_p), with_hop (le32 hop) b)], pw_queue := qs\<rparr>\<rparr>) \<and>
    open_trans (Suc k) out_p (endtoendId msg) hop (Suc (shm_calls m)) x t \<and> tr_in_peer x = in_p \<and>
    orig_hopbyhopId x = hopbyhopId msg \<and>
    set (shm_live (tw_shm t)) = insert (Suc (shm_calls m)) (set (shm_live (nd_shm n)) - {s}) \<and> shm_wf (tw_shm t)"
proof -
  have rc: "shm_wf m" "shm_calls (nd_shm n) < shm_calls m" "set (shm_live m) = owned msg \<union> set (shm_live (nd_shm n))"
    "owned msg \<inter> set (shm_live (nd_shm n)) = {}" "\<forall>a \<in> set (avpList msg). \<not> free_it a" "buf_s msg = s"
    "peek4le b 16 = Some (endtoendId msg)"
    using translate_received [OF wf parse] by (auto simp: received_def)
  have sn: "s \<noteq> NULL" using parse by (auto simp: AAATranslateMessage_def split: if_splits)
  have on: "out_p \<noteq> NULL" using tk by (simp add: takes_request_def)
  define n0 where "n0 = set_shm m (n\<lparr>nd_pw := (nd_pw n)\<lparr>pw_queue := qs\<rparr>\<rparr>)"
  define g where "g = msg\<lparr>in_peer := in_p\<rparr>"
  have n0: "pw_peers (nd_pw n0) = pw_peers (nd_pw n)" "pw_all (nd_pw n0) = pw_all (nd_pw n)" "pw_calls (nd_pw n0) = pw_calls (nd_pw n)"
    "pw_writes (nd_pw n0) = pw_writes (nd_pw n)" "tw_shm (pw_tr (nd_pw n0)) = m" "tw_tables (pw_tr (nd_pw n0)) = tw_tables (pw_tr (nd_pw n))"
    "tw_timer (pw_tr (nd_pw n0)) = tw_timer (pw_tr (nd_pw n))"
    by (simp_all add: n0_def set_shm_def)
  have tk0: "takes_request k out_p (nd_pw n0)"
    using tk n0 rc by (auto simp: takes_request_def ready_def addr_bound_def in_timer_def nd_shm_def dest!: less_imp_le intro: order_trans)
  have ids: "peek4le (msg_buf g) 16 = Some (endtoendId msg)" using rc buf by (simp add: g_def)
  from forward_opens [where e = e and msg = g, OF in_nn tk0 ids] wr ok n0 buf obtain hop t x where
    f: "forward_request e g in_p out_p (nd_pw n0) = Some (1, (nd_pw n0)\<lparr>pw_tr := t, pw_calls := Suc (pw_calls (nd_pw n)),
      pw_writes := pw_writes (nd_pw n) @ [(p_sock (pw_peers (nd_pw n) out_p), with_hop (le32 hop) b)]\<rparr>)"
      "tw_shm t = snd (shm_malloc (env_ok (ne_peer e)) m)" "open_trans (Suc k) out_p (endtoendId msg) hop (Suc (shm_calls m)) x t"
      "tr_in_peer x = in_p" "orig_hopbyhopId x = hopbyhopId msg"
    by (auto simp: g_def)
  define n1 where "n1 = n0\<lparr>nd_pw := (nd_pw n0)\<lparr>pw_tr := t, pw_calls := Suc (pw_calls (nd_pw n)),
      pw_writes := pw_writes (nd_pw n) @ [(p_sock (pw_peers (nd_pw n) out_p), with_hop (le32 hop) b)]\<rparr>\<rparr>"
  have fwd0: "to_forward e msg out_p (nd_pw n0)"
    using fwd lookup_identity_cong [OF n0(2,1)] by (simp add: to_forward_def)
  have "process_request e fnm rw g in_p n0 = Some (g, n1)"
    using to_forward_process [OF fwd0 on, of fnm rw in_p] f(1) by (simp add: forward_or_fail_def on_peers_def g_def n1_def)
  then have round: "server_round e fnm rw n = Some (free_message g n1)"
    using q parse fwd by (simp add: server_round_def get_from_queue_def to_forward_def g_def n0_def nd_shm_def)
  have m1: "nd_shm n1 = \<lparr>shm_calls = Suc (shm_calls m), shm_live = Suc (shm_calls m) # shm_live m\<rparr>"
    using f(2) ok by (simp add: n1_def nd_shm_def shm_malloc_def Let_def)
  have "shm_malloc (env_ok (ne_peer e)) m = (Suc (shm_calls m), nd_shm n1)" using m1 ok by (simp add: shm_malloc_def Let_def)
  from shm.malloc_wf [OF rc(1) this] have wf1: "shm_wf (nd_shm n1)" .
  have fr: "\<forall>a \<in> set (avpList g). \<not> free_it a" "buf_s g = s" "owned g = owned msg" using rc by (auto simp: g_def owned_def)
  note free = free_message_owned [OF wf1 fr(1)]
  have "Suc (shm_calls m) \<notin> set (shm_live m)" using shm_wf_calls [OF rc(1)] by fastforce
  then have new: "Suc (shm_calls m) \<notin> owned msg" "s \<noteq> Suc (shm_calls m)" using s_in unfolding rc(3) by auto
  have "set (shm_live (nd_shm (free_message g n1))) = set (shm_live (nd_shm n1)) - owned msg - {s}"
    using free fr sn by (simp add: free_message_def)
  also have "\<dots> = insert (Suc (shm_calls m)) (set (shm_live (nd_shm n)) - {s})"
    using new rc(3,4) by (auto simp: m1)
  finally have "set (shm_live (nd_shm (free_message g n1))) = insert (Suc (shm_calls m)) (set (shm_live (nd_shm n)) - {s})" .
  moreover have "shm_wf (nd_shm (free_message g n1))" using free fr sn by (simp add: free_message_def)
  moreover have "free_message g n1 = n\<lparr>nd_pw := (nd_pw n)\<lparr>pw_tr := t\<lparr>tw_shm := nd_shm (free_message g n1)\<rparr>, pw_calls := Suc (pw_calls (nd_pw n)),
      pw_writes := pw_writes (nd_pw n) @ [(p_sock (pw_peers (nd_pw n) out_p), with_hop (le32 hop) b)], pw_queue := qs\<rparr>\<rparr>"
    by (simp add: free_message_def n1_def n0_def set_shm_def nd_shm_def)
  moreover have "open_trans (Suc k) out_p (endtoendId msg) hop (Suc (shm_calls m)) x (t\<lparr>tw_shm := nd_shm (free_message g n1)\<rparr>)"
    using f(3) by (simp add: open_trans_cong [of "t\<lparr>tw_shm := nd_shm (free_message g n1)\<rparr>" t])
  ultimately show ?thesis using round f(4,5)
    by (intro exI [of _ hop] exI [of _ "t\<lparr>tw_shm := nd_shm (free_message g n1)\<rparr>"] exI [of _ x]) simp
qed

text \<open>An answer for an open transaction, in an application whose module does not ask for replies.\<close>

definition silent_on_replies :: "node_env \<Rightarrow> u32 \<Rightarrow> bool" where
  "silent_on_replies e app \<longleftrightarrow>
     (case find_module (env_cfg (ne_peer e)) app of None \<Rightarrow> True | Some md \<Rightarrow> mod_flags md AND RUN_ON_REPLIES = 0)"

lemma answer_processed:
  assumes op: "open_trans k out_p (endtoendId msg) (hopbyhopId msg) tr x (pw_tr (nd_pw n))" and "tr_in_peer x \<noteq> NULL"
    and "20 \<le> length (msg_buf msg)" and "silent_on_replies e (applicationId msg)" and "ready (tr_in_peer x) (nd_pw n)"
    and "env_write (ne_peer e) (pw_calls (nd_pw n)) = W_bytes (length (msg_buf msg))"
  defines "b \<equiv> with_hop (le32 (orig_hopbyhopId x)) (msg_buf msg)"
  shows "\<exists>t. process_answer e msg out_p n = Some (msg\<lparr>hopbyhopId := orig_hopbyhopId x, msg_buf := b\<rparr>,
      n\<lparr>nd_pw := (nd_pw n)\<lparr>pw_tr := t, pw_calls := Suc (pw_calls (nd_pw n)),
        pw_writes := pw_writes (nd_pw n) @ [(p_sock (pw_peers (nd_pw n) (tr_in_peer x)), b)]\<rparr>\<rparr>) \<and>
    tw_trans t tr = None \<and> \<not> in_table out_p (endtoendId msg) (hopbyhopId msg) tr t \<and> \<not> in_timer tr t \<and>
    tw_shm t = shm_free tr (nd_shm n)"
proof -
  have tn: "tr \<noteq> NULL" using op by (simp add: open_trans_def)
  from lookup_closes [OF op] obtain t where
    t: "transaction_lookup out_p (endtoendId msg) (hopbyhopId msg) (pw_tr (nd_pw n)) = Some (tr, t)"
      "tw_trans t tr = Some (x\<lparr>ref_cnt := 1\<rparr>)" "tw_shm t = tw_shm (pw_tr (nd_pw n))"
      "\<not> in_table out_p (endtoendId msg) (hopbyhopId msg) tr t" "\<not> in_timer tr t" by blast
  from destroy_last [OF tn t(2)] obtain t' where
    t': "destroy_transaction tr t = Some t'" "tw_trans t' tr = None" "tw_tables t' = tw_tables t" "tw_timer t' = tw_timer t" "tw_shm t' = shm_free tr (tw_shm t)"
    by auto
  have p: "poke 12 (le32 (orig_hopbyhopId x)) (msg_buf msg) = Some b" using assms(3) by (simp add: poke_def b_def with_hop_def)
  have len: "length b = length (msg_buf msg)" using assms(3) by (simp add: b_def with_hop_def)
  have mods: "(case find_module (env_cfg (ne_peer e)) (applicationId msg) of
      Some md \<Rightarrow> if mod_flags md AND RUN_ON_REPLIES \<noteq> 0 then h md else r | None \<Rightarrow> r) = r" for h and r :: 'a
    using assms(4) by (simp add: silent_on_replies_def split: option.splits)
  let ?w = "(nd_pw n)\<lparr>pw_tr := t, pw_calls := Suc (pw_calls (nd_pw n)),
      pw_writes := pw_writes (nd_pw n) @ [(p_sock (pw_peers (nd_pw n) (tr_in_peer x)), b)]\<rparr>"
  have send: "send_res_to_peer (ne_peer e) b (tr_in_peer x) ((nd_pw n)\<lparr>pw_tr := t\<rparr>) = Some (1, ?w)"
    by (rule send_res_writes [THEN trans]) (use assms(5,6) len in \<open>simp_all add: ready_def\<close>)
  have "process_answer e msg out_p n = Some (msg\<lparr>hopbyhopId := orig_hopbyhopId x, msg_buf := b\<rparr>,
      n\<lparr>nd_pw := (nd_pw n)\<lparr>pw_tr := t', pw_calls := Suc (pw_calls (nd_pw n)),
        pw_writes := pw_writes (nd_pw n) @ [(p_sock (pw_peers (nd_pw n) (tr_in_peer x)), b)]\<rparr>\<rparr>)"
    unfolding process_answer_def using t(1,2) tn p assms(2) send t'(1)
    by (simp add: mods on_peers_def on_trans_def)
  then show ?thesis using t t' by (intro exI [of _ t']) (auto simp: nd_shm_def in_timer_def same_tables(2) [OF t'(3)])
qed

lemma answer_round:
  assumes q: "pw_queue (nd_pw n) = (s, b, out_p) # qs" and wf: "shm_wf (nd_shm n)"
    and parse: "AAATranslateMessage (env_ok (ne_peer e)) s b True (nd_shm n) = Some (Some msg, m)"
    and buf: "msg_buf msg = b" and ans: "\<not> is_req msg" and op: "open_trans k out_p ete hop tr x (pw_tr (nd_pw n))"
    and ids: "peek4le b 12 = Some hop" "peek4le b 16 = Some ete" and in_nn: "tr_in_peer x \<noteq> NULL"
    and silent: "silent_on_replies e (applicationId msg)" and rdy: "ready (tr_in_peer x) (nd_pw n)"
    and wr: "env_write (ne_peer e) (pw_calls (nd_pw n)) = W_bytes (length b)"
  shows "\<exists>t. server_round e fnm rw n = Some (n\<lparr>nd_pw := (nd_pw n)\<lparr>pw_tr := t, pw_calls := Suc (pw_calls (nd_pw n)),
      pw_writes := pw_writes (nd_pw n) @ [(p_sock (pw_peers (nd_pw n) (tr_in_peer x)), with_hop (le32 (orig_hopbyhopId x)) b)],
      pw_queue := qs\<rparr>\<rparr>) \<and>
    tw_trans t tr = None \<and> \<not> in_table out_p ete hop tr t \<and> \<not> in_timer tr t \<and>
    set (shm_live (tw_shm t)) = set (shm_live (nd_shm n)) - {s, tr}"
proof -
  have rc: "shm_wf m" "set (shm_live m) = owned msg \<union> set (shm_live (nd_shm n))"
    "owned msg \<inter> set (shm_live (nd_shm n)) = {}" "\<forall>a \<in> set (avpList msg). \<not> free_it a" "buf_s msg = s"
    "hopbyhopId msg = hop" "endtoendId msg = ete"
    using translate_received [OF wf parse] ids by (auto simp: received_def)
  have sn: "s \<noteq> NULL" using parse by (auto simp: AAATranslateMessage_def split: if_splits)
  have len: "20 \<le> length b" using ids(2) by (simp add: peek4le_def split: if_splits)
  define n0 where "n0 = set_shm m (n\<lparr>nd_pw := (nd_pw n)\<lparr>pw_queue := qs\<rparr>\<rparr>)"
  have "open_trans k out_p (endtoendId msg) (hopbyhopId msg) tr x (pw_tr (nd_pw n0))" "ready (tr_in_peer x) (nd_pw n0)"
    "env_write (ne_peer e) (pw_calls (nd_pw n0)) = W_bytes (length (msg_buf msg))"
    using op rdy wr rc(6,7) buf by (simp_all add: n0_def ready_def)
  from answer_processed [OF this(1) in_nn _ silent this(2,3)] len buf rc(6,7) obtain t where
    t: "process_answer e msg out_p n0 = Some (msg\<lparr>hopbyhopId := orig_hopbyhopId x, msg_buf := with_hop (le32 (orig_hopbyhopId x)) b\<rparr>,
        n0\<lparr>nd_pw := (nd_pw n0)\<lparr>pw_tr := t, pw_calls := Suc (pw_calls (nd_pw n)),
          pw_writes := pw_writes (nd_pw n) @ [(p_sock (pw_peers (nd_pw n) (tr_in_peer x)), with_hop (le32 (orig_hopbyhopId x)) b)]\<rparr>\<rparr>)"
      "tw_trans t tr = None" "\<not> in_table out_p ete hop tr t" "\<not> in_timer tr t" "tw_shm t = shm_free tr m"
    by (auto simp: n0_def)
  define g where "g = msg\<lparr>hopbyhopId := orig_hopbyhopId x, msg_buf := with_hop (le32 (orig_hopbyhopId x)) b\<rparr>"
  define n1 where "n1 = n0\<lparr>nd_pw := (nd_pw n0)\<lparr>pw_tr := t, pw_calls := Suc (pw_calls (nd_pw n)),
      pw_writes := pw_writes (nd_pw n) @ [(p_sock (pw_peers (nd_pw n) (tr_in_peer x)), with_hop (le32 (orig_hopbyhopId x)) b)]\<rparr>\<rparr>"
  define m' where "m' = nd_shm (free_message g n1)"
  have round: "server_round e fnm rw n = Some (free_message g n1)"
    using q parse ans t(1) by (simp add: server_round_def get_from_queue_def g_def n1_def n0_def nd_shm_def)
  have fm: "free_message g n1 = n\<lparr>nd_pw := (nd_pw n)\<lparr>pw_tr := t\<lparr>tw_shm := m'\<rparr>, pw_calls := Suc (pw_calls (nd_pw n)),
      pw_writes := pw_writes (nd_pw n) @ [(p_sock (pw_peers (nd_pw n) (tr_in_peer x)), with_hop (le32 (orig_hopbyhopId x)) b)],
      pw_queue := qs\<rparr>\<rparr>"
    by (simp add: m'_def free_message_def n1_def n0_def set_shm_def nd_shm_def)
  have fr: "\<forall>a \<in> set (avpList g). \<not> free_it a" "buf_s g = s" "owned g = owned msg" using rc by (auto simp: g_def owned_def)
  have m1: "shm_wf (nd_shm n1)" "set (shm_live (nd_shm n1)) = owned msg \<union> set (shm_live (nd_shm n)) - {tr}"
    using t(5) shm.free_wf [OF rc(1)] shm.free_live [OF rc(1)] rc(2) by (simp_all add: n1_def nd_shm_def)
  have "set (shm_live m') = set (shm_live (nd_shm n1)) - owned msg - {s}"
    using free_message_owned [OF m1(1) fr(1)] fr(2,3) sn by (simp add: m'_def free_message_def)
  also have "\<dots> = set (shm_live (nd_shm n)) - {s, tr}" unfolding m1(2) using rc(3) by auto
  finally have "set (shm_live m') = set (shm_live (nd_shm n)) - {s, tr}" .
  then show ?thesis using round fm t(2,3,4)
    by (intro exI [of _ "t\<lparr>tw_shm := m'\<rparr>"]) (simp add: in_table_def in_timer_def)
qed

section \<open>Properties\<close>

text \<open>
  (C25) Forwarding is transparent. A request from one peer whose Destination-Host is another
  connected peer leaves the server unchanged except for its hop-by-hop identifier, and the buffer
  of the request is replaced in memory by one transaction. Whatever happens in between, when an
  answer with the identifiers of the forwarded request comes from that peer while the transaction
  is open, the server sends it to the peer that sent the request, unchanged except that it carries
  the hop-by-hop identifier of the original request; the transaction and the buffer are then freed.
\<close>

theorem forwarding_transparent:
  assumes "pw_queue (nd_pw n) = (s, b, in_p) # qs" and "shm_wf (nd_shm n)" and "s \<in> set (shm_live (nd_shm n))"
    and "AAATranslateMessage (env_ok (ne_peer e)) s b True (nd_shm n) = Some (Some msg, m)" and "msg_buf msg = b"
    and "in_p \<noteq> NULL" and "to_forward e msg out_p (nd_pw n)" and "takes_request k out_p (nd_pw n)"
    and "env_write (ne_peer e) (pw_calls (nd_pw n)) = W_bytes (length b)" and "env_ok (ne_peer e) (shm_calls m)"
  shows "\<exists>hop tr x t. server_round e fnm rw n = Some (n\<lparr>nd_pw := (nd_pw n)\<lparr>pw_tr := t, pw_calls := Suc (pw_calls (nd_pw n)),
      pw_writes := pw_writes (nd_pw n) @ [(p_sock (pw_peers (nd_pw n) out_p), with_hop (le32 hop) b)], pw_queue := qs\<rparr>\<rparr>) \<and>
    set (shm_live (tw_shm t)) = insert tr (set (shm_live (nd_shm n)) - {s}) \<and> shm_wf (tw_shm t) \<and>
    open_trans (Suc k) out_p (endtoendId msg) hop tr x t \<and>
    (\<forall>n2 s2 b2 qs2 ans m2 j. pw_queue (nd_pw n2) = (s2, b2, out_p) # qs2 \<and> shm_wf (nd_shm n2) \<and>
       AAATranslateMessage (env_ok (ne_peer e)) s2 b2 True (nd_shm n2) = Some (Some ans, m2) \<and> msg_buf ans = b2 \<and> \<not> is_req ans \<and>
       open_trans j out_p (endtoendId msg) hop tr x (pw_tr (nd_pw n2)) \<and>
       peek4le b2 12 = Some hop \<and> peek4le b2 16 = Some (endtoendId msg) \<and> silent_on_replies e (applicationId ans) \<and>
       ready in_p (nd_pw n2) \<and> env_write (ne_peer e) (pw_calls (nd_pw n2)) = W_bytes (length b2) \<longrightarrow>
       (\<exists>t2. server_round e fnm rw n2 = Some (n2\<lparr>nd_pw := (nd_pw n2)\<lparr>pw_tr := t2, pw_calls := Suc (pw_calls (nd_pw n2)),
            pw_writes := pw_writes (nd_pw n2) @ [(p_sock (pw_peers (nd_pw n2) in_p), with_hop (hop_by_hop b) b2)], pw_queue := qs2\<rparr>\<rparr>) \<and>
          tw_trans t2 tr = None \<and> \<not> in_table out_p (endtoendId msg) hop tr t2 \<and> \<not> in_timer tr t2 \<and>
          set (shm_live (tw_shm t2)) = set (shm_live (nd_shm n2)) - {s2, tr}))"
proof -
  have h: "hop_by_hop b = le32 (hopbyhopId msg)"
    using translate_received [OF assms(2,4)] hop_bytes by (simp add: received_def)
  from forward_round [OF assms(1-10), of fnm rw] obtain hop t x where
    f: "server_round e fnm rw n = Some (n\<lparr>nd_pw := (nd_pw n)\<lparr>pw_tr := t, pw_calls := Suc (pw_calls (nd_pw n)),
      pw_writes := pw_writes (nd_pw n) @ [(p_sock (pw_peers (nd_pw n) out_p), with_hop (le32 hop) b)], pw_queue := qs\<rparr>\<rparr>)"
      "open_trans (Suc k) out_p (endtoendId msg) hop (Suc (shm_calls m)) x t" "tr_in_peer x = in_p"
      "orig_hopbyhopId x = hopbyhopId msg" "set (shm_live (tw_shm t)) = insert (Suc (shm_calls m)) (set (shm_live (nd_shm n)) - {s})"
      "shm_wf (tw_shm t)"
    by blast
  show ?thesis
    by (rule exI [of _ hop], rule exI [of _ "Suc (shm_calls m)"], rule exI [of _ x], rule exI [of _ t])
      (use f answer_round [where x = x, unfolded f(3,4) h [symmetric]] assms(6) in blast)
qed

definition fwd_avp :: "u32 \<Rightarrow> u8 \<Rightarrow> bytes" where
  "fwd_avp code d = be32 code @ [0x40, 0, 0, 9] @ [d, 0, 0, 0]"

definition fwd_request :: bytes where
  "fwd_request = [1, 0, 0, 80, 0x80, 0, 1, 44, 0, 0, 0, 5, 9, 0, 0, 0, 171, 0, 0, 0] @ fwd_avp 263 115 @ fwd_avp 264 97 @
     fwd_avp 296 114 @ fwd_avp 283 114 @ fwd_avp 293 66"

lemma fwd_parses:
  "case AAATranslateMessage (\<lambda>_. True) 500 fwd_request True \<lparr>shm_calls = 500, shm_live = [500]\<rparr> of
     Some (Some g, m) \<Rightarrow> msg_buf g = fwd_request \<and> is_req g \<and> commandCode g = 300 \<and> msg_sessionId g \<noteq> NULL \<and> orig_host g \<noteq> NULL \<and>
       orig_realm g \<noteq> NULL \<and> dest_realm g \<noteq> NULL \<and> avp_data_at g (dest_host g) = Some [66] \<and> endtoendId g = 171 \<and> hopbyhopId g = 9
   | _ \<Rightarrow> False"
  by code_simp

definition sample_pair :: peer_world where
  "sample_pair = sample_peer_world\<lparr>pw_peers := (\<lambda>p. sample_peer\<lparr>p_state := PEER_CONN, p_sock := int p, aaa_identity := [of_nat p + 58]\<rparr>),
     pw_all := [7, 8],
     pw_tr := \<lparr>tw_trans = Map.empty, tw_tables = (\<lambda>_. \<lparr>hash_size = 1, entrys = [\<lparr>he_lh = [], he_next_label = 4\<rparr>]\<rparr>), tw_timer = [],
       tw_shm = \<lparr>shm_calls = 500, shm_live = [500]\<rparr>\<rparr>,
     pw_queue := [(500, fwd_request, 7)]\<rparr>"

definition sample_node_env :: "aaa_status \<Rightarrow> (nat \<Rightarrow> write_result) \<Rightarrow> node_env" where
  "sample_node_env st wr = \<lparr>ne_peer = sample_env\<lparr>env_write := wr\<rparr>, my_aaa_status = st, ne_identity_s = 901, ne_realm_s = 902,
     cl_mod_msg = (\<lambda>_ msg _ n. Some (msg, n)), cl_mod_tout = (\<lambda>_ _ _ n. Some n), sv_mod_msg = (\<lambda>_ msg n. Some (msg, n))\<rparr>"

definition fwd_answer :: "u32 \<Rightarrow> bytes" where
  "fwd_answer hop = [1, 0, 0, 20, 0, 0, 1, 44, 0, 0, 0, 5] @ le32 hop @ le32 171"

lemma fwd_answer_parses:
  "\<exists>g m'. AAATranslateMessage (\<lambda>_. True) 600 (fwd_answer hop) True m = Some (Some g, m') \<and> msg_buf g = fwd_answer hop \<and>
     \<not> is_req g \<and> applicationId g = 5"
  by (simp add: AAATranslateMessage_def fwd_answer_def le32_def be32_def AAA_MSG_HDR_SIZE_def shm_malloc_def Let_def
      peek_def peek_3bytes_def peek_4bytes_def peek4le_def get_3bytes_def get_4bytes_def translate_avps.simps is_req_def zero_msg_def)

definition no_routes :: route_world where
  "no_routes = \<lparr>cfg_peer_lst = [], re_heap = Map.empty, route_lst = NULL, rt_shm = shm_init\<rparr>"

definition fwd_env :: node_env where
  "fwd_env = sample_node_env AAA_SERVER (\<lambda>i. W_bytes (if i = 0 then 80 else 20))"

theorem forwarding_transparent_witness:
  "\<exists>hop tr t t2. server_round fwd_env (\<lambda>_ _. False) no_routes \<lparr>nd_pw = sample_pair, nd_sw = sample_world\<rparr> =
       Some \<lparr>nd_pw = sample_pair\<lparr>pw_tr := t, pw_calls := 1, pw_writes := [(8, with_hop (le32 hop) fwd_request)], pw_queue := []\<rparr>,
         nd_sw = sample_world\<rparr> \<and>
     server_round fwd_env (\<lambda>_ _. False) no_routes
       \<lparr>nd_pw = sample_pair\<lparr>pw_tr := t, pw_calls := 1, pw_writes := [(8, with_hop (le32 hop) fwd_request)],
          pw_queue := [(600, fwd_answer hop, 8)]\<rparr>, nd_sw = sample_world\<rparr> =
       Some \<lparr>nd_pw = sample_pair\<lparr>pw_tr := t2, pw_calls := 2,
          pw_writes := [(8, with_hop (le32 hop) fwd_request), (7, with_hop [9, 0, 0, 0] (fwd_answer hop))], pw_queue := []\<rparr>,
         nd_sw = sample_world\<rparr> \<and>
     tw_trans t2 tr = None"
proof -
  let ?n = "\<lparr>nd_pw = sample_pair, nd_sw = sample_world\<rparr>"
  from fwd_parses obtain g m where g: "AAATranslateMessage (\<lambda>_. True) 500 fwd_request True \<lparr>shm_calls = 500, shm_live = [500]\<rparr> = Some (Some g, m)"
    "msg_buf g = fwd_request" "is_req g" "commandCode g = 300" "msg_sessionId g \<noteq> NULL" "orig_host g \<noteq> NULL" "orig_realm g \<noteq> NULL"
    "dest_realm g \<noteq> NULL" "avp_data_at g (dest_host g) = Some [66]" "endtoendId g = 171" "hopbyhopId g = 9"
    by (auto split: option.splits prod.splits)
  have env: "env_ok (ne_peer fwd_env) = (\<lambda>_. True)" "env_write (ne_peer fwd_env) = (\<lambda>i. W_bytes (if i = 0 then 80 else 20))"
    "env_cfg (ne_peer fwd_env) = sample_config"
    by (simp_all add: fwd_env_def sample_node_env_def sample_env_def)
  have shm: "nd_shm ?n = \<lparr>shm_calls = 500, shm_live = [500]\<rparr>" by (simp add: nd_shm_def sample_pair_def)
  have h1: "pw_queue (nd_pw ?n) = (500, fwd_request, 7) # []" "shm_wf (nd_shm ?n)" "500 \<in> set (shm_live (nd_shm ?n))"
    unfolding shm by (simp_all add: sample_pair_def shm_wf_def)
  have h2: "AAATranslateMessage (env_ok (ne_peer fwd_env)) 500 fwd_request True (nd_shm ?n) = Some (Some g, m)"
    unfolding shm env using g(1) .
  have h3: "to_forward fwd_env g 8 (nd_pw ?n)"
    using g(3-9) by (simp add: to_forward_def env sample_config_def same_str_def lookup_peer_by_identity_def sample_pair_def
        strncasecmp_eq_def to_lower_def)
  have h4: "takes_request 0 8 (nd_pw ?n)"
    by (auto simp: takes_request_def ready_def addr_bound_def in_timer_def cell_in_def htable_wf_def entry_wf_def sample_pair_def)
  have len: "length fwd_request = 80" "length (fwd_answer hop) = 20" for hop
    by (simp_all add: fwd_request_def fwd_avp_def fwd_answer_def)
  have h5: "env_write (ne_peer fwd_env) (pw_calls (nd_pw ?n)) = W_bytes (length fwd_request)"
    by (simp add: env len sample_pair_def sample_peer_world_def)
  have h6: "env_ok (ne_peer fwd_env) (shm_calls m)" by (simp add: env)
  have "(7 :: ptr) \<noteq> NULL" by simp
  from forwarding_transparent [OF h1 h2 g(2) this h3 h4 h5 h6, where fnm = "\<lambda>_ _. False" and rw = no_routes] obtain hop tr x t where
    f: "server_round fwd_env (\<lambda>_ _. False) no_routes ?n = Some (?n\<lparr>nd_pw := (nd_pw ?n)\<lparr>pw_tr := t, pw_calls := Suc (pw_calls (nd_pw ?n)),
      pw_writes := pw_writes (nd_pw ?n) @ [(p_sock (pw_peers (nd_pw ?n) 8), with_hop (le32 hop) fwd_request)], pw_queue := []\<rparr>\<rparr>)"
    "shm_wf (tw_shm t)" "open_trans (Suc 0) 8 171 hop tr x t"
    and reply: "\<forall>n2 s2 b2 qs2 ans m2 j. pw_queue (nd_pw n2) = (s2, b2, 8) # qs2 \<and> shm_wf (nd_shm n2) \<and>
       AAATranslateMessage (env_ok (ne_peer fwd_env)) s2 b2 True (nd_shm n2) = Some (Some ans, m2) \<and> msg_buf ans = b2 \<and> \<not> is_req ans \<and>
       open_trans j 8 171 hop tr x (pw_tr (nd_pw n2)) \<and>
       peek4le b2 12 = Some hop \<and> peek4le b2 16 = Some 171 \<and> silent_on_replies fwd_env (applicationId ans) \<and>
       ready 7 (nd_pw n2) \<and> env_write (ne_peer fwd_env) (pw_calls (nd_pw n2)) = W_bytes (length b2) \<longrightarrow>
       (\<exists>t2. server_round fwd_env (\<lambda>_ _. False) no_routes n2 = Some (n2\<lparr>nd_pw := (nd_pw n2)\<lparr>pw_tr := t2, pw_calls := Suc (pw_calls (nd_pw n2)),
            pw_writes := pw_writes (nd_pw n2) @ [(p_sock (pw_peers (nd_pw n2) 7), with_hop (hop_by_hop fwd_request) b2)], pw_queue := qs2\<rparr>\<rparr>) \<and>
          tw_trans t2 tr = None \<and> \<not> in_table 8 171 hop tr t2 \<and> \<not> in_timer tr t2 \<and>
          set (shm_live (tw_shm t2)) = set (shm_live (nd_shm n2)) - {s2, tr})"
    unfolding g(10) by (elim exE conjE) (rule that)
  let ?n2 = "\<lparr>nd_pw = sample_pair\<lparr>pw_tr := t, pw_calls := 1, pw_writes := [(8, with_hop (le32 hop) fwd_request)],
      pw_queue := [(600, fwd_answer hop, 8)]\<rparr>, nd_sw = sample_world\<rparr>"
  obtain a m' where a: "AAATranslateMessage (env_ok (ne_peer fwd_env)) 600 (fwd_answer hop) True (nd_shm ?n2) = Some (Some a, m')"
    "msg_buf a = fwd_answer hop" "\<not> is_req a" "applicationId a = 5" unfolding env using fwd_answer_parses by blast
  have ids: "peek4le (fwd_answer hop) 12 = Some hop" "peek4le (fwd_answer hop) 16 = Some 171" "hop_by_hop fwd_request = [9, 0, 0, 0]"
    by (simp_all add: fwd_answer_def peek4le_def nth_append le32_def be32_def of_be32_be32 hop_by_hop_def fwd_request_def)
      (simp add: of_be32_def)
  have "\<exists>t2. server_round fwd_env (\<lambda>_ _. False) no_routes ?n2 = Some (?n2\<lparr>nd_pw := (nd_pw ?n2)\<lparr>pw_tr := t2, pw_calls := Suc (pw_calls (nd_pw ?n2)),
            pw_writes := pw_writes (nd_pw ?n2) @ [(p_sock (pw_peers (nd_pw ?n2) 7), with_hop (hop_by_hop fwd_request) (fwd_answer hop))], pw_queue := []\<rparr>\<rparr>) \<and>
          tw_trans t2 tr = None \<and> \<not> in_table 8 171 hop tr t2 \<and> \<not> in_timer tr t2 \<and>
          set (shm_live (tw_shm t2)) = set (shm_live (nd_shm ?n2)) - {600, tr}"
    by (rule reply [rule_format], intro conjI, rule_tac [3] a(1))
      (use a(2,3) f(2,3) ids in \<open>simp_all add: nd_shm_def env len silent_on_replies_def a(4) find_module_def sample_config_def ready_def sample_pair_def\<close>)
  then obtain t2 where t2: "server_round fwd_env (\<lambda>_ _. False) no_routes ?n2 = Some (?n2\<lparr>nd_pw := (nd_pw ?n2)\<lparr>pw_tr := t2, pw_calls := Suc (pw_calls (nd_pw ?n2)),
            pw_writes := pw_writes (nd_pw ?n2) @ [(p_sock (pw_peers (nd_pw ?n2) 7), with_hop (hop_by_hop fwd_request) (fwd_answer hop))], pw_queue := []\<rparr>\<rparr>)"
    "tw_trans t2 tr = None" by (elim exE conjE) (rule that)
  have pair: "p_sock (pw_peers sample_pair p) = int p" "pw_calls sample_pair = 0" "pw_writes sample_pair = []" for p
    by (simp_all add: sample_pair_def sample_peer_world_def)
  show ?thesis using f(1) t2 ids(3)
    by (intro exI [of _ hop] exI [of _ tr] exI [of _ t] exI [of _ t2]) (simp add: pair numeral_2_eq_2)
qed

end
