(* ===== verification/Error_Reply.thy ===== *)
theory Error_Reply
  imports Server
begin

text \<open>
  What a server answers to a request that it does not serve: the answer that \<open>send_error_reply\<close>
  builds, and the two cases in which no answer leaves the server.
\<close>

section \<open>The answer\<close>

text \<open>The answer with its blocks at the addresses after \<open>k\<close>.\<close>

abbreviation (input) blk1 :: "nat \<Rightarrow> ptr" where "blk1 k \<equiv> Suc k"
abbreviation (input) blk2 :: "nat \<Rightarrow> ptr" where "blk2 k \<equiv> Suc (Suc k)"
abbreviation (input) blk3 :: "nat \<Rightarrow> ptr" where "blk3 k \<equiv> Suc (Suc (Suc k))"
abbreviation (input) blk4 :: "nat \<Rightarrow> ptr" where "blk4 k \<equiv> Suc (Suc (Suc (Suc k)))"
abbreviation (input) blk5 :: "nat \<Rightarrow> ptr" where "blk5 k \<equiv> Suc (Suc (Suc (Suc (Suc k))))"
abbreviation (input) blk6 :: "nat \<Rightarrow> ptr" where "blk6 k \<equiv> Suc (Suc (Suc (Suc (Suc (Suc k)))))"
abbreviation (input) blk7 :: "nat \<Rightarrow> ptr" where "blk7 k \<equiv> Suc (Suc (Suc (Suc (Suc (Suc (Suc k))))))"

definition plain_avp :: "ptr \<Rightarrow> u32 \<Rightarrow> AAA_AVPDataType \<Rightarrow> ptr \<Rightarrow> bytes \<Rightarrow> bool \<Rightarrow> AAA_AVP" where
  "plain_avp a code ty s d fr = \<lparr>avp_addr = a, packetType = AAA_DIAMETER, avp_code = code, avp_flags = 0x40, avp_type = ty,
     avp_vendorId = 0, avp_data_s = s, avp_data = d, free_it = fr\<rparr>"

definition error_answer :: "node_env \<Rightarrow> AAAMessage \<Rightarrow> AAA_AVP \<Rightarrow> u32 \<Rightarrow> nat \<Rightarrow> AAAMessage" where
  "error_answer e msg sid code k = \<lparr>msg_addr = blk1 k, msg_flags = msg_flags msg AND 0x40, commandCode = commandCode msg,
     applicationId = applicationId msg, endtoendId = endtoendId msg, hopbyhopId = hopbyhopId msg, sId = sId msg,
     msg_sessionId = blk2 k, orig_host = blk3 k, orig_realm = blk4 k, dest_host = NULL, dest_realm = NULL, res_code = blk5 k,
     auth_ses_state = NULL,
     avpList = [plain_avp (blk2 k) 263 AAA_AVP_STRING_TYPE (avp_data_s sid) (avp_data sid) False,
       plain_avp (blk5 k) 268 AAA_AVP_INTEGER32_TYPE (blk6 k) (be32 code) True,
       plain_avp (blk3 k) 264 AAA_AVP_STRING_TYPE (ne_identity_s e) (cfg_identity (env_cfg (ne_peer e))) False,
       plain_avp (blk4 k) 296 AAA_AVP_STRING_TYPE (ne_realm_s e) (cfg_realm (env_cfg (ne_peer e))) False],
     buf_s = NULL, msg_buf = [], in_peer = in_peer msg\<rparr>"

abbreviation (input) blocks :: "nat \<Rightarrow> ptr list" where "blocks k \<equiv> [blk6 k, blk5 k, blk4 k, blk3 k, blk2 k, blk1 k]"

text \<open>A request that can be answered: memory suffices and there is no Proxy-Info AVP.\<close>

definition answerable :: "node_env \<Rightarrow> AAAMessage \<Rightarrow> AAA_AVP \<Rightarrow> bool" where
  "answerable e msg sid \<longleftrightarrow> (\<forall>i. env_ok (ne_peer e) i) \<and> msg_wf msg \<and>
     (\<forall>a \<in> set (avpList msg). \<not> (avp_code a = AVP_Proxy_Info \<and> avp_vendorId a = 0)) \<and>
     ne_identity_s e \<noteq> NULL \<and> cfg_identity (env_cfg (ne_peer e)) \<noteq> [] \<and> ne_realm_s e \<noteq> NULL \<and> cfg_realm (env_cfg (ne_peer e)) \<noteq> [] \<and>
     msg_sessionId msg \<noteq> NULL \<and> find (\<lambda>a. avp_addr a = msg_sessionId msg) (avpList msg) = Some sid \<and> avp_data_s sid \<noteq> NULL \<and>
     avp_data sid \<noteq> []"

lemma no_mirror:
  assumes "answerable e msg sid"
  shows "mirror_proxy_info ok msg (avp_ptr (AAAGetFirstAVP (avpList msg))) g m = Some (True, g, m)"
proof -
  have "find (\<lambda>a. avp_code a = AVP_Proxy_Info \<and> avp_vendorId a = 0) (avpList msg) = None"
    using assms unfolding find_None_iff answerable_def by blast
  then show ?thesis using assms by (intro mirror_done) (simp add: find_from_head answerable_def)
qed

lemma new_avp_plain:
  assumes "ok (shm_calls m)" and "data_s \<noteq> NULL" and "data \<noteq> []" and "code \<in> {263, 264, 296}"
    and "position msg = NULL \<or> insert_after (position msg) (plain_avp (blk1 (shm_calls m)) code AAA_AVP_STRING_TYPE data_s data False) (avpList msg) = Some l"
    and "position msg = NULL \<Longrightarrow> l = plain_avp (blk1 (shm_calls m)) code AAA_AVP_STRING_TYPE data_s data False # avpList msg"
  shows "new_avp ok code data_s data AVP_DONT_FREE_DATA position msg m =
    (True, set_shortcut code (blk1 (shm_calls m)) (msg\<lparr>avpList := l\<rparr>), \<lparr>shm_calls = blk1 (shm_calls m), shm_live = (blk1 (shm_calls m)) # shm_live m\<rparr>)"
proof -
  have "AAACreateAVP ok code 0 0 data_s data AVP_DONT_FREE_DATA m =
      (Some (plain_avp (blk1 (shm_calls m)) code AAA_AVP_STRING_TYPE data_s data False),
       \<lparr>shm_calls = blk1 (shm_calls m), shm_live = (blk1 (shm_calls m)) # shm_live m\<rparr>)"
    using assms(1-4) by (auto simp: AAACreateAVP_def shm_malloc_def Let_def set_avp_fields_def plain_avp_def)
  moreover have "set_shortcut c p (set_shortcut c p g) = set_shortcut c p g" for c p g by (simp add: set_shortcut_def)
  ultimately show ?thesis using assms(5,6)
    by (auto simp: new_avp_def AAAAddAVPToMessage_def plain_avp_def)
qed

text \<open>The message after one, two and three of its AVPs.\<close>

definition answer_part :: "node_env \<Rightarrow> AAAMessage \<Rightarrow> AAA_AVP \<Rightarrow> nat \<Rightarrow> nat \<Rightarrow> AAAMessage" where
  "answer_part e msg sid i k = (zero_msg (blk1 k))\<lparr>commandCode := commandCode msg, applicationId := applicationId msg,
     msg_sessionId := (if 1 \<le> i then blk2 k else NULL), orig_host := (if 2 \<le> i then blk3 k else NULL),
     orig_realm := (if 3 \<le> i then blk4 k else NULL),
     avpList := take i [plain_avp (blk2 k) 263 AAA_AVP_STRING_TYPE (avp_data_s sid) (avp_data sid) False,
       plain_avp (blk3 k) 264 AAA_AVP_STRING_TYPE (ne_identity_s e) (cfg_identity (env_cfg (ne_peer e))) False,
       plain_avp (blk4 k) 296 AAA_AVP_STRING_TYPE (ne_realm_s e) (cfg_realm (env_cfg (ne_peer e))) False]\<rparr>"

lemma answer_parts:
  assumes "answerable e msg sid" and "shm_calls m = Suc (k + i)"
  shows "i = 0 \<Longrightarrow> new_avp (env_ok (ne_peer e)) 263 (avp_data_s sid) (avp_data sid) AVP_DONT_FREE_DATA (\<lambda>_. NULL) (answer_part e msg sid 0 k) m =
      (True, answer_part e msg sid 1 k, \<lparr>shm_calls = blk2 k, shm_live = (blk2 k) # shm_live m\<rparr>)"
    and "i = 1 \<Longrightarrow> new_avp (env_ok (ne_peer e)) 264 (ne_identity_s e) (cfg_identity (env_cfg (ne_peer e))) AVP_DONT_FREE_DATA avp_tail
      (answer_part e msg sid 1 k) m = (True, answer_part e msg sid 2 k, \<lparr>shm_calls = blk3 k, shm_live = (blk3 k) # shm_live m\<rparr>)"
    and "i = 2 \<Longrightarrow> new_avp (env_ok (ne_peer e)) 296 (ne_realm_s e) (cfg_realm (env_cfg (ne_peer e))) AVP_DONT_FREE_DATA avp_tail
      (answer_part e msg sid 2 k) m = (True, answer_part e msg sid 3 k, \<lparr>shm_calls = blk4 k, shm_live = (blk4 k) # shm_live m\<rparr>)"
proof -
  have a: "\<And>n. env_ok (ne_peer e) n" "avp_data_s sid \<noteq> NULL" "avp_data sid \<noteq> []" "ne_identity_s e \<noteq> NULL"
    "cfg_identity (env_cfg (ne_peer e)) \<noteq> []" "ne_realm_s e \<noteq> NULL" "cfg_realm (env_cfg (ne_peer e)) \<noteq> []"
    using assms(1) by (auto simp: answerable_def)
  show "i = 0 \<Longrightarrow> new_avp (env_ok (ne_peer e)) 263 (avp_data_s sid) (avp_data sid) AVP_DONT_FREE_DATA (\<lambda>_. NULL) (answer_part e msg sid 0 k) m =
      (True, answer_part e msg sid 1 k, \<lparr>shm_calls = blk2 k, shm_live = (blk2 k) # shm_live m\<rparr>)"
    using assms(2) a by (subst new_avp_plain) (auto simp: answer_part_def set_shortcut_def zero_msg_def)
  show "i = 1 \<Longrightarrow> new_avp (env_ok (ne_peer e)) 264 (ne_identity_s e) (cfg_identity (env_cfg (ne_peer e))) AVP_DONT_FREE_DATA avp_tail
      (answer_part e msg sid 1 k) m = (True, answer_part e msg sid 2 k, \<lparr>shm_calls = blk3 k, shm_live = (blk3 k) # shm_live m\<rparr>)"
    using assms(2) a by (subst new_avp_plain) (auto simp: answer_part_def set_shortcut_def zero_msg_def avp_tail_def plain_avp_def)
  show "i = 2 \<Longrightarrow> new_avp (env_ok (ne_peer e)) 296 (ne_realm_s e) (cfg_realm (env_cfg (ne_peer e))) AVP_DONT_FREE_DATA avp_tail
      (answer_part e msg sid 2 k) m = (True, answer_part e msg sid 3 k, \<lparr>shm_calls = blk4 k, shm_live = (blk4 k) # shm_live m\<rparr>)"
    using assms(2) a by (subst new_avp_plain) (auto simp: answer_part_def set_shortcut_def zero_msg_def avp_tail_def plain_avp_def)
qed

lemma result_part:
  assumes "\<And>n. ok n" and "shm_calls m = blk4 k"
  shows "new_avp ok AVP_Result_Code 1 (be32 AAA_SUCCESS) AVP_DUPLICATE_DATA msg_sessionId (answer_fields msg (answer_part e msg sid 3 k)) m =
    (True, error_answer e msg sid AAA_SUCCESS k, \<lparr>shm_calls = blk6 k, shm_live = (blk6 k) # (blk5 k) # shm_live m\<rparr>)"
  using assms
  by (simp add: new_avp_def AAACreateAVP_def shm_malloc_def Let_def AAAAddAVPToMessage_def set_avp_fields_def plain_avp_def
      answer_fields_def answer_part_def error_answer_def set_shortcut_def zero_msg_def be32_def)

lemma answer_made:
  assumes "answerable e msg sid"
  shows "AAANewMessage (env_ok (ne_peer e)) (ne_identity_s e, cfg_identity (env_cfg (ne_peer e)))
       (ne_realm_s e, cfg_realm (env_cfg (ne_peer e))) (commandCode msg) (applicationId msg)
       (Some (avp_addr sid, avp_data_s sid, avp_data sid)) (Some msg) m =
    Some (Some (error_answer e msg sid AAA_SUCCESS (shm_calls m)), \<lparr>shm_calls = blk6 (shm_calls m),
      shm_live = blocks (shm_calls m) @ shm_live m\<rparr>)"
proof -
  let ?k = "shm_calls m"
  have ok: "\<And>n. env_ok (ne_peer e) n" using assms by (simp add: answerable_def)
  have 0: "(zero_msg (blk1 ?k))\<lparr>commandCode := commandCode msg, applicationId := applicationId msg\<rparr> = answer_part e msg sid 0 ?k"
    by (simp add: answer_part_def zero_msg_def)
  have al: "shm_malloc (env_ok (ne_peer e)) m = (blk1 ?k, \<lparr>shm_calls = blk1 ?k, shm_live = blk1 ?k # shm_live m\<rparr>)"
    using ok by (simp add: shm_malloc_def Let_def)
  show ?thesis
    using answer_parts(1) [OF assms, of "\<lparr>shm_calls = blk1 ?k, shm_live = blk1 ?k # shm_live m\<rparr>" ?k 0]
      answer_parts(2) [OF assms, of "\<lparr>shm_calls = blk2 ?k, shm_live = [blk2 ?k, blk1 ?k] @ shm_live m\<rparr>" ?k 1]
      answer_parts(3) [OF assms, of "\<lparr>shm_calls = blk3 ?k, shm_live = [blk3 ?k, blk2 ?k, blk1 ?k] @ shm_live m\<rparr>" ?k 2]
      result_part [where ok = "env_ok (ne_peer e)" and k = ?k and msg = msg and sid = sid and e = e and
        m = "\<lparr>shm_calls = blk4 ?k, shm_live = [blk4 ?k, blk3 ?k, blk2 ?k, blk1 ?k] @ shm_live m\<rparr>", OF ok]
      no_mirror [OF assms]
    by (simp add: AAANewMessage_def al 0 Let_def)
qed

lemma answer_code:
  "AAASetMessageResultCode (error_answer e msg sid c k) code = Some (AAA_ERR_SUCCESS, error_answer e msg sid code k)"
proof -
  have "(x AND 0x40) AND 0x80 = 0" for x :: u8 by (simp add: and.assoc)
  then show ?thesis
    by (simp add: AAASetMessageResultCode_def error_answer_def is_req_def plain_avp_def poke_def)
qed

lemma answer_freed:
  "snd (AAAFreeMessage (Some (error_answer e msg sid c k)) \<lparr>shm_calls = j, shm_live = blocks k @ l\<rparr>) =
    \<lparr>shm_calls = j, shm_live = l\<rparr>"
  by (simp add: AAAFreeMessage_def AAAFreeAVP_def error_answer_def plain_avp_def shm_free_def)

section \<open>Sending the answer\<close>

lemma error_answer_simps [simp]:
  "commandCode (error_answer e msg sid c k) = commandCode msg" "in_peer (error_answer e msg sid c k) = in_peer msg"
  "buf_s (error_answer e msg sid c k) = NULL" "\<not> is_req (error_answer e msg sid c k)"
proof -
  have "(x AND 0x40) AND 0x80 = 0" for x :: u8 by (simp add: and.assoc)
  then show "\<not> is_req (error_answer e msg sid c k)" by (simp add: error_answer_def is_req_def)
qed (simp_all add: error_answer_def)

lemma send_any_answer:
  fixes n :: node and e g and j :: nat
  assumes "my_aaa_status e = AAA_SERVER" and "\<And>i. env_ok (ne_peer e) i" and "in_peer g \<noteq> NULL" and "ready (in_peer g) (nd_pw n)"
    and "msg_len (avpList g) < 2 ^ 31" and wr: "env_write (ne_peer e) (pw_calls (nd_pw n)) = W_bytes (length (encode_msg g))"
    and m: "nd_shm n = \<lparr>shm_calls = j, shm_live = l\<rparr>" and "Suc j \<notin> set l"
    and "commandCode g \<notin> {257, 280, 282, 274, 275, 258}" and "\<not> is_req g" and "buf_s g = NULL" and "msg_buf g = []"
  shows "AAASendMessage e (Some g) n = Some (AAA_ERR_SUCCESS, g, set_shm \<lparr>shm_calls = Suc j, shm_live = l\<rparr>
    (n\<lparr>nd_pw := (nd_pw n)\<lparr>pw_calls := Suc (pw_calls (nd_pw n)),
      pw_writes := pw_writes (nd_pw n) @ [(p_sock (pw_peers (nd_pw n) (in_peer g)), encode_msg g)]\<rparr>\<rparr>))"
proof -
  have al: "shm_malloc (env_ok (ne_peer e)) (nd_shm n) = (Suc j, \<lparr>shm_calls = Suc j, shm_live = Suc j # l\<rparr>)"
    using assms(2) m by (simp add: shm_malloc_def Let_def)
  let ?g = "g\<lparr>buf_s := Suc j, msg_buf := encode_msg g\<rparr>"
  let ?n1 = "set_shm \<lparr>shm_calls = Suc j, shm_live = Suc j # l\<rparr> n"
  have b: "build_buffer e g n = Some (1, ?g, ?n1)"
    using build_msg_spec [OF assms(5), of "env_ok (ne_peer e)" "nd_shm n"] al by (simp add: build_buffer_def)
  have r: "send_res_to_peer (ne_peer e) (encode_msg g) (in_peer g) (nd_pw ?n1) =
      Some (1, (nd_pw ?n1)\<lparr>pw_calls := Suc (pw_calls (nd_pw n)),
        pw_writes := pw_writes (nd_pw n) @ [(p_sock (pw_peers (nd_pw n) (in_peer g)), encode_msg g)]\<rparr>)"
    by (subst send_res_writes) (use assms(4) wr in \<open>simp_all add: ready_def\<close>)
  have g: "g\<lparr>buf_s := NULL, msg_buf := []\<rparr> = g" using assms(11,12) by (cases g) simp
  then have "release_buffer ?g (?n1\<lparr>nd_pw := (nd_pw ?n1)\<lparr>pw_calls := Suc (pw_calls (nd_pw n)),
        pw_writes := pw_writes (nd_pw n) @ [(p_sock (pw_peers (nd_pw n) (in_peer g)), encode_msg g)]\<rparr>\<rparr>) =
      (g, set_shm \<lparr>shm_calls = Suc j, shm_live = l\<rparr> (n\<lparr>nd_pw := (nd_pw n)\<lparr>pw_calls := Suc (pw_calls (nd_pw n)),
      pw_writes := pw_writes (nd_pw n) @ [(p_sock (pw_peers (nd_pw n) (in_peer g)), encode_msg g)]\<rparr>\<rparr>))"
    by (simp add: release_buffer_def node_free_def set_shm_def nd_shm_def shm_free_def)
  then have "send_answer e g n = Some (AAA_ERR_SUCCESS, g, set_shm \<lparr>shm_calls = Suc j, shm_live = l\<rparr>
      (n\<lparr>nd_pw := (nd_pw n)\<lparr>pw_calls := Suc (pw_calls (nd_pw n)),
        pw_writes := pw_writes (nd_pw n) @ [(p_sock (pw_peers (nd_pw n) (in_peer g)), encode_msg g)]\<rparr>\<rparr>))"
    using assms(1,3) b r by (simp add: send_answer_def on_peers_def)
  then show ?thesis using assms(9,10) by (simp add: AAASendMessage_def)
qed

lemma send_error_answer:
  fixes n :: node and e msg sid code and k j :: nat
  defines "g \<equiv> error_answer e msg sid code k"
  assumes "my_aaa_status e = AAA_SERVER" and "\<And>i. env_ok (ne_peer e) i" and "in_peer msg \<noteq> NULL" and "ready (in_peer msg) (nd_pw n)"
    and "msg_len (avpList g) < 2 ^ 31" and wr: "env_write (ne_peer e) (pw_calls (nd_pw n)) = W_bytes (length (encode_msg g))"
    and m: "nd_shm n = \<lparr>shm_calls = j, shm_live = l\<rparr>" and "Suc j \<notin> set l"
    and "commandCode msg \<notin> {257, 280, 282, 274, 275, 258}"
  shows "AAASendMessage e (Some g) n = Some (AAA_ERR_SUCCESS, g, set_shm \<lparr>shm_calls = Suc j, shm_live = l\<rparr>
    (n\<lparr>nd_pw := (nd_pw n)\<lparr>pw_calls := Suc (pw_calls (nd_pw n)),
      pw_writes := pw_writes (nd_pw n) @ [(p_sock (pw_peers (nd_pw n) (in_peer msg)), encode_msg g)]\<rparr>\<rparr>))"
proof -
  have "in_peer g = in_peer msg" "commandCode g = commandCode msg" "\<not> is_req g" "buf_s g = NULL" "msg_buf g = []"
    unfolding g_def by (simp_all, simp add: error_answer_def)
  then show ?thesis using send_any_answer [of e g n j l] assms by simp
qed

lemma error_reply_outcome:
  fixes n :: node and e msg sid code
  defines "k \<equiv> shm_calls (nd_shm n)"
  defines "g \<equiv> error_answer e msg sid code k"
  assumes a: "answerable e msg sid" and "my_aaa_status e = AAA_SERVER" and "in_peer msg \<noteq> NULL" and "ready (in_peer msg) (nd_pw n)"
    and "msg_len (avpList g) < 2 ^ 31" and "env_write (ne_peer e) (pw_calls (nd_pw n)) = W_bytes (length (encode_msg g))"
    and wf: "shm_wf (nd_shm n)"
  shows "send_error_reply e msg code n = Some (if commandCode msg \<in> {257, 280, 282, 274, 275, 258}
     then set_shm ((nd_shm n)\<lparr>shm_calls := blk6 k\<rparr>) n
     else set_shm ((nd_shm n)\<lparr>shm_calls := blk7 k\<rparr>) (n\<lparr>nd_pw := (nd_pw n)\<lparr>pw_calls := Suc (pw_calls (nd_pw n)),
       pw_writes := pw_writes (nd_pw n) @ [(p_sock (pw_peers (nd_pw n) (in_peer msg)), encode_msg g)]\<rparr>\<rparr>))"
proof -
  let ?m = "\<lparr>shm_calls = blk6 k, shm_live = blocks k @ shm_live (nd_shm n)\<rparr>"
  let ?n1 = "set_shm ?m n"
  have sid: "(if msg_sessionId msg = NULL then None else find (\<lambda>a. avp_addr a = msg_sessionId msg) (avpList msg)) = Some sid"
    using a by (simp add: answerable_def)
  have start: "send_error_reply e msg code n = do {
      (ans, n) \<leftarrow> map_option snd (AAASendMessage e (Some g) ?n1);
      Some (free_message ans n) }"
    unfolding send_error_reply_def sid
    using answer_made [OF a, of "nd_shm n"] by (simp add: answer_code g_def k_def)
  have fr: "free_message g (set_shm \<lparr>shm_calls = j, shm_live = blocks k @ shm_live (nd_shm n)\<rparr> n') =
      set_shm ((nd_shm n)\<lparr>shm_calls := j\<rparr>) n'" for j n'
    using answer_freed [of e msg sid code k j "shm_live (nd_shm n)"]
    by (simp add: free_message_def g_def set_shm_def nd_shm_def)
  show ?thesis
  proof (cases "commandCode msg \<in> {257, 280, 282, 274, 275, 258}")
    case True
    then have "AAASendMessage e (Some g) ?n1 = Some (AAA_ERR_FAILURE, g, ?n1)"
      by (auto simp: AAASendMessage_def send_failed_def g_def)
    then show ?thesis using True by (simp add: start fr [simplified])
  next
    case False
    have new: "blk7 k \<notin> set (blocks k @ shm_live (nd_shm n))" using shm_wf_calls [OF wf] by (fastforce simp: k_def)
    have "AAASendMessage e (Some g) ?n1 = Some (AAA_ERR_SUCCESS, g, set_shm \<lparr>shm_calls = blk7 k, shm_live = blocks k @ shm_live (nd_shm n)\<rparr>
        (?n1\<lparr>nd_pw := (nd_pw ?n1)\<lparr>pw_calls := Suc (pw_calls (nd_pw ?n1)),
          pw_writes := pw_writes (nd_pw ?n1) @ [(p_sock (pw_peers (nd_pw ?n1) (in_peer msg)), encode_msg g)]\<rparr>\<rparr>))"
      unfolding g_def
      by (rule send_error_answer) (use assms False new in \<open>auto simp: answerable_def ready_def\<close>)
    moreover have "set_shm m (?n1\<lparr>nd_pw := (nd_pw ?n1)\<lparr>pw_calls := c, pw_writes := l\<rparr>\<rparr>) = set_shm m (n\<lparr>nd_pw := (nd_pw n)\<lparr>pw_calls := c, pw_writes := l\<rparr>\<rparr>)"
      for m c l by (simp add: set_shm_def)
    ultimately show ?thesis using False by (simp add: start fr [simplified])
  qed
qed

section \<open>Properties\<close>

text \<open>The answer to \<open>msg\<close> with a result code, written to the socket of the peer it came from.\<close>

definition answered_with :: "node_env \<Rightarrow> AAAMessage \<Rightarrow> AAA_AVP \<Rightarrow> u32 \<Rightarrow> node \<Rightarrow> (AAAMessage \<times> node) option \<Rightarrow> bool" where
  "answered_with e msg sid code n r \<longleftrightarrow> (\<exists>g m. r = Some (msg, set_shm m (n\<lparr>nd_pw := (nd_pw n)\<lparr>pw_calls := Suc (pw_calls (nd_pw n)),
       pw_writes := pw_writes (nd_pw n) @ [(p_sock (pw_peers (nd_pw n) (in_peer msg)), encode_msg g)]\<rparr>\<rparr>)) \<and>
     shm_live m = shm_live (nd_shm n) \<and> \<not> is_req g \<and> commandCode g = commandCode msg \<and> applicationId g = applicationId msg \<and>
     hopbyhopId g = hopbyhopId msg \<and> endtoendId g = endtoendId msg \<and>
     map (\<lambda>a. (avp_code a, avp_data a)) (avpList g) = [(AVP_Session_Id, avp_data sid), (AVP_Result_Code, be32 code),
       (AVP_Origin_Host, cfg_identity (env_cfg (ne_peer e))), (AVP_Origin_Realm, cfg_realm (env_cfg (ne_peer e)))])"

lemma error_answer_sizes:
  "msg_len (avpList (error_answer e msg sid c k)) = msg_len (avpList (error_answer e msg sid 0 0))"
  "length (encode_msg (error_answer e msg sid c k)) = length (encode_msg (error_answer e msg sid 0 0))"
proof -
  show "msg_len (avpList (error_answer e msg sid c k)) = msg_len (avpList (error_answer e msg sid 0 0))"
    by (simp add: msg_len_def error_answer_def plain_avp_def)
  then show "length (encode_msg (error_answer e msg sid c k)) = length (encode_msg (error_answer e msg sid 0 0))"
    by (simp add: length_encode_msg)
qed

text \<open>
  (C27) Requests that the server does not serve. When memory suffices, a request without Origin-Host,
  Origin-Realm or Destination-Realm, and a request to this host for an application without a
  module, is answered to the peer it came from with the identifiers of the request and the result
  code 5005 or 3007, and no memory is lost. The answer with result code 3001 that is meant for the
  commands 258, 274 and 275 is built but never sent, because \<open>AAASendMessage\<close> refuses these
  commands; and a request without Session-Id makes the server follow a null pointer.
\<close>

theorem rejected_requests:
  assumes a: "answerable e msg sid" and "my_aaa_status e = AAA_SERVER" and "in_peer msg \<noteq> NULL" and "ready (in_peer msg) (nd_pw n)"
    and "msg_len (avpList (error_answer e msg sid 0 0)) < 2 ^ 31" and "shm_wf (nd_shm n)"
    and "env_write (ne_peer e) (pw_calls (nd_pw n)) = W_bytes (length (encode_msg (error_answer e msg sid 0 0)))"
  shows "(commandCode msg \<notin> {257, 280, 282, 274, 275, 258} \<and> (orig_host msg = NULL \<or> orig_realm msg = NULL \<or> dest_realm msg = NULL) \<longrightarrow>
      answered_with e msg sid AAA_MISSING_AVP n (process_request e fnm rw msg in_p n)) \<and>
    (commandCode msg \<notin> {257, 280, 282, 274, 275, 258} \<and> orig_host msg \<noteq> NULL \<and> orig_realm msg \<noteq> NULL \<and> dest_realm msg \<noteq> NULL \<and>
      (\<exists>host. avp_data_at msg (dest_host msg) = Some host \<and> same_str host (cfg_identity (env_cfg (ne_peer e)))) \<and>
      find_module (env_cfg (ne_peer e)) (applicationId msg) = None \<longrightarrow>
      answered_with e msg sid AAA_APPLICATION_UNSUPPORTED n (process_request e fnm rw msg in_p n)) \<and>
    (commandCode msg \<in> {274, 275, 258} \<longrightarrow>
      (\<exists>m. process_request e fnm rw msg in_p n = Some (msg, set_shm m n) \<and> shm_live m = shm_live (nd_shm n))) \<and>
    (\<forall>g. msg_sessionId g = NULL \<longrightarrow> process_request e fnm rw g in_p n = None)"
proof -
  have out: "send_error_reply e msg code n = Some (if commandCode msg \<in> {257, 280, 282, 274, 275, 258}
     then set_shm ((nd_shm n)\<lparr>shm_calls := blk6 (shm_calls (nd_shm n))\<rparr>) n
     else set_shm ((nd_shm n)\<lparr>shm_calls := blk7 (shm_calls (nd_shm n))\<rparr>) (n\<lparr>nd_pw := (nd_pw n)\<lparr>pw_calls := Suc (pw_calls (nd_pw n)),
       pw_writes := pw_writes (nd_pw n) @ [(p_sock (pw_peers (nd_pw n) (in_peer msg)),
         encode_msg (error_answer e msg sid code (shm_calls (nd_shm n))))]\<rparr>\<rparr>))" for code
    by (rule error_reply_outcome) (use assms error_answer_sizes [of e msg sid code "shm_calls (nd_shm n)"] in \<open>simp_all\<close>)
  have sent: "answered_with e msg sid code n (map_option (Pair msg) (send_error_reply e msg code n))"
    if "commandCode msg \<notin> {257, 280, 282, 274, 275, 258}" for code
    unfolding answered_with_def out using that
    by (intro exI [of _ "error_answer e msg sid code (shm_calls (nd_shm n))"] exI [of _ "(nd_shm n)\<lparr>shm_calls := blk7 (shm_calls (nd_shm n))\<rparr>"])
      (simp, simp add: error_answer_def plain_avp_def)
  have sid: "msg_sessionId msg \<noteq> NULL" using a by (simp add: answerable_def)
  show ?thesis
  proof (intro conjI impI allI)
    assume "commandCode msg \<notin> {257, 280, 282, 274, 275, 258} \<and> (orig_host msg = NULL \<or> orig_realm msg = NULL \<or> dest_realm msg = NULL)"
    then show "answered_with e msg sid AAA_MISSING_AVP n (process_request e fnm rw msg in_p n)"
      using sent [of AAA_MISSING_AVP] by (auto simp: process_request_def)
  next
    assume h: "commandCode msg \<notin> {257, 280, 282, 274, 275, 258} \<and> orig_host msg \<noteq> NULL \<and> orig_realm msg \<noteq> NULL \<and> dest_realm msg \<noteq> NULL \<and>
      (\<exists>host. avp_data_at msg (dest_host msg) = Some host \<and> same_str host (cfg_identity (env_cfg (ne_peer e)))) \<and>
      find_module (env_cfg (ne_peer e)) (applicationId msg) = None"
    then have "dest_host msg \<noteq> NULL" by (auto simp: avp_data_at_def split: if_splits)
    then show "answered_with e msg sid AAA_APPLICATION_UNSUPPORTED n (process_request e fnm rw msg in_p n)"
      using h sent [of AAA_APPLICATION_UNSUPPORTED] sid by (auto simp: process_request_def process_incoming_request_def serve_local_def)
  next
    assume "commandCode msg \<in> {274, 275, 258}"
    then show "\<exists>m. process_request e fnm rw msg in_p n = Some (msg, set_shm m n) \<and> shm_live m = shm_live (nd_shm n)"
      by (intro exI [of _ "(nd_shm n)\<lparr>shm_calls := blk6 (shm_calls (nd_shm n))\<rparr>"]) (auto simp: process_request_def out)
  next
    fix g :: AAAMessage
    assume "msg_sessionId g = NULL"
    then show "process_request e fnm rw g in_p n = None" by (simp add: process_request_def send_error_reply_def)
  qed
qed

text \<open>An accounting request without Origin-Host, and the same message as an abort request.\<close>

definition bad_request :: "u32 \<Rightarrow> AAAMessage" where
  "bad_request code = (zero_msg 501)\<lparr>msg_flags := 0x80, commandCode := code, applicationId := 4, hopbyhopId := 9, endtoendId := 171,
     msg_sessionId := 502, avpList := [plain_avp 502 263 AAA_AVP_STRING_TYPE 503 [115] False], in_peer := 7\<rparr>"

definition err_env :: node_env where
  "err_env = sample_node_env AAA_SERVER (\<lambda>_. W_bytes (length (encode_msg (error_answer (sample_node_env AAA_SERVER (\<lambda>_. W_error)) (bad_request 271)
     (plain_avp 502 263 AAA_AVP_STRING_TYPE 503 [115] False) 0 0))))"

theorem rejected_requests_witness:
  "\<exists>r m. answered_with err_env (bad_request 271) (plain_avp 502 263 AAA_AVP_STRING_TYPE 503 [115] False) 5005
      \<lparr>nd_pw = sample_pair, nd_sw = sample_world\<rparr> r \<and>
    process_request err_env (\<lambda>_ _. False) no_routes (bad_request 274) 7 \<lparr>nd_pw = sample_pair, nd_sw = sample_world\<rparr> =
      Some (bad_request 274, set_shm m \<lparr>nd_pw = sample_pair, nd_sw = sample_world\<rparr>)"
proof -
  let ?n = "\<lparr>nd_pw = sample_pair, nd_sw = sample_world\<rparr>"
  let ?sid = "plain_avp 502 263 AAA_AVP_STRING_TYPE 503 [115] False"
  have shm: "nd_shm ?n = \<lparr>shm_calls = 500, shm_live = [500]\<rparr>" by (simp add: nd_shm_def sample_pair_def)
  have ans: "answerable err_env (bad_request c) ?sid" for c
    by (auto simp: answerable_def err_env_def sample_node_env_def sample_env_def sample_config_def bad_request_def plain_avp_def
        zero_msg_def msg_wf_def avps_wf_def shortcut_def)
  have fields: "in_peer (bad_request c) = 7" "my_aaa_status err_env = AAA_SERVER" "orig_host (bad_request c) = NULL" "commandCode (bad_request c) = c" for c
    by (simp_all add: bad_request_def err_env_def sample_node_env_def zero_msg_def)
  have rdy: "ready 7 (nd_pw ?n)" by (simp add: ready_def sample_pair_def)
  have small: "msg_len (avpList (error_answer err_env (bad_request c) ?sid 0 0)) < 2 ^ 31" for c
    by (simp add: msg_len_def error_answer_def plain_avp_def AAA_MSG_HDR_SIZE_def AVP_HDR_SIZE_def pad_len_def err_env_def
        sample_node_env_def sample_env_def sample_config_def)
  have wf: "shm_wf (nd_shm ?n)" unfolding shm by (simp add: shm_wf_def)
  have wr: "env_write (ne_peer err_env) i = W_bytes (length (encode_msg (error_answer err_env (bad_request c) ?sid 0 0)))" for i c
    by (simp add: err_env_def sample_node_env_def sample_env_def length_encode_msg error_answer_def)
  have T: "answered_with err_env (bad_request 271) ?sid AAA_MISSING_AVP ?n (process_request err_env (\<lambda>_ _. False) no_routes (bad_request 271) 7 ?n)"
    using rejected_requests [OF ans [of 271] fields(2) _ _ small wf wr, where fnm = "\<lambda>_ _. False" and rw = no_routes and in_p = 7]
      fields rdy by simp
  have "\<exists>m. process_request err_env (\<lambda>_ _. False) no_routes (bad_request 274) 7 ?n = Some (bad_request 274, set_shm m ?n)"
    using rejected_requests [OF ans [of 274] fields(2) _ _ small wf wr, where fnm = "\<lambda>_ _. False" and rw = no_routes and in_p = 7]
      fields rdy by auto
  then show ?thesis using T by blast
qed

end
