(* ===== verification/Client.thy ===== *)
theory Client
  imports Server
begin

text \<open>
  The worker threads of a client (client.c): answers are matched with their transactions and given
  to the session and the module they belong to. One round of \<open>client_worker\<close> is \<open>client_round\<close>.
\<close>

section \<open>Definitions\<close>

abbreviation ST_MSG_CODE :: u32 where "ST_MSG_CODE \<equiv> 0x13010000"
abbreviation AC_MSG_CODE :: u32 where "AC_MSG_CODE \<equiv> 0x0f010000"

text \<open>
  An answer that does not parse: the session machine is run without a message.
\<close>

definition unparsed_answer :: "node_env \<Rightarrow> ptr \<Rightarrow> node \<Rightarrow> node option" where
  "unparsed_answer e ses n = do {
     (r, n) \<leftarrow> on_sessions (session_state_machine ses AAA_SESSION_REQ_TIMEOUT None) n;
     if r = 1 then do {
       x \<leftarrow> sw_sessions (nd_sw n) ses;
       cl_mod_tout e (app_ref x) ses (ses_context x) n
     } else Some n
   }"

definition parsed_answer :: "node_env \<Rightarrow> u32 \<Rightarrow> ptr \<Rightarrow> AAAMessage \<Rightarrow> node \<Rightarrow> (AAAMessage \<times> node) option" where
  "parsed_answer e code ses msg n =
     (if code = ST_MSG_CODE then Some (msg, n)
      else do {
        (r, n) \<leftarrow> on_sessions (session_state_machine ses
          (if code = AC_MSG_CODE then AAA_AcctA_RECEIVED else AAA_AuthA_RECEIVED) (Some msg)) n;
        if r = 1 then do {
          x \<leftarrow> sw_sessions (nd_sw n) ses;
          cl_mod_msg e (app_ref x) msg (ses_context x) n
        } else Some (msg, n)
      })"

definition client_answer :: "node_env \<Rightarrow> ptr \<Rightarrow> bytes \<Rightarrow> ptr \<Rightarrow> node \<Rightarrow> node option" where
  "client_answer e s b p n = do {
     word \<leftarrow> peek4le b 4;
     let code = word AND MASK_MSG_CODE;
     ete \<leftarrow> peek4le b 16;
     hop \<leftarrow> peek4le b 12;
     (tr, t) \<leftarrow> transaction_lookup p ete hop (pw_tr (nd_pw n));
     let n = n\<lparr>nd_pw := (nd_pw n)\<lparr>pw_tr := t\<rparr>\<rparr>;
     if tr = NULL then Some (node_free s n)
     else do {
       x \<leftarrow> tw_trans t tr;
       n \<leftarrow> on_trans (destroy_transaction tr) n;
       (msg, m) \<leftarrow> AAATranslateMessage (env_ok (ne_peer e)) s b True (nd_shm n);
       let n = set_shm m n;
       case msg of
         None \<Rightarrow> unparsed_answer e (tr_ses x) (node_free s n)
       | Some msg \<Rightarrow> do {
           (msg, n) \<leftarrow> parsed_answer e code (tr_ses x) (msg\<lparr>sId := tr_ses x\<rparr>) n;
           Some (free_message msg n)
         }
     }
   }"

definition client_round :: "node_env \<Rightarrow> node \<Rightarrow> node option" where
  "client_round e n =
     (case get_from_queue (nd_pw n) of
        None \<Rightarrow> Some n
      | Some ((s, b, p), w) \<Rightarrow> do {
          let n = n\<lparr>nd_pw := w\<rparr>;
          fl \<leftarrow> peek b 4;
          if fl AND 0x80 \<noteq> 0 then Some (node_free s n) else client_answer e s b p n
        })"

section \<open>Sending a request\<close>

lemma send_to_first_ready:
  assumes "\<forall>q \<in> set ps. \<not> ready q w"
  shows "send_to_first e tr req (ps @ p # qs) w =
    Option.bind (send_req_to_peer e tr req p w) (\<lambda>(r, w'). if r \<noteq> - 1 then Some (1, w') else send_to_first e tr req qs w')"
  using assms
proof (induction ps)
  case (Cons q ps)
  then have "send_req_to_peer e tr req q w = Some (- 1, w)" by (simp add: send_req_to_peer_def ready_def)
  then show ?case using Cons by simp
qed simp

lemma set_shm_same [simp]: "set_shm (nd_shm n) n = n"
  by (simp add: set_shm_def nd_shm_def)

text \<open>A session with a stateless server that accepts an event.\<close>

definition ses_accepts :: "ptr \<Rightarrow> AAA_EVENTS \<Rightarrow> AAAMessage option \<Rightarrow> session \<Rightarrow> node \<Rightarrow> bool" where
  "ses_accepts a ev msg ses' n \<longleftrightarrow> (\<exists>ses. sw_sessions (nd_sw n) a = Some ses \<and> peer_identity ses = AAA_SERVER_STATELESS \<and>
     sm_stateless ses ev msg = SM_ok ses')"

definition in_session :: "ptr \<Rightarrow> session \<Rightarrow> node \<Rightarrow> node" where
  "in_session a ses n = n\<lparr>nd_sw := set_session a ses ((nd_sw n)\<lparr>sw_shm := nd_shm n\<rparr>)\<rparr>"

lemma in_session_simps [simp]:
  "nd_pw (in_session a ses n) = nd_pw n" "nd_shm (in_session a ses n) = nd_shm n"
  "sw_sessions (nd_sw (in_session a ses n)) a = Some ses"
  by (simp_all add: in_session_def nd_shm_def set_session_def)

lemma on_sessions_ok:
  assumes "ses_accepts a ev msg ses' n"
  shows "on_sessions (session_state_machine a ev msg) n = Some (1, in_session a ses' n)"
proof -
  let ?n = "n\<lparr>nd_sw := set_session a ses' ((nd_sw n)\<lparr>sw_shm := nd_shm n\<rparr>)\<rparr>"
  have "set_shm (nd_shm n) ?n = ?n" by (simp add: set_shm_def nd_shm_def)
  then show ?thesis using assms
    by (auto simp: ses_accepts_def on_sessions_def session_state_machine_def in_session_def set_session_def)
qed

lemma sending_event_msg: "sm_stateless ses (sending_request_event c) m = sm_stateless ses (sending_request_event c) m'"
  by (simp add: sending_request_event_def sm_stateless_def)

text \<open>The request of an application, and the first connected peer.\<close>

definition first_ready :: "nat \<Rightarrow> ptr \<Rightarrow> peer_world \<Rightarrow> bool" where
  "first_ready k p w \<longleftrightarrow> takes_request k p w \<and> (\<exists>ps qs. pw_all w = ps @ p # qs \<and> (\<forall>q \<in> set ps. \<not> ready q w))"

lemma request_sent:
  assumes st: "my_aaa_status e = AAA_CLIENT" and req: "is_req msg" and cc: "commandCode msg \<notin> {257, 280, 282, 274, 275, 258}"
    and ok: "\<And>i. env_ok (ne_peer e) i" and len: "msg_len (avpList msg) < 2 ^ 31" and fr: "first_ready k p (nd_pw n)"
    and acc: "ses_accepts (sId msg) (sending_request_event (commandCode msg)) None ses' n"
    and wr: "env_write (ne_peer e) (pw_calls (nd_pw n)) = W_bytes (length (encode_msg msg))" and wf: "shm_wf (nd_shm n)"
  defines "ete \<equiv> endtoendID (pw_peers (nd_pw n) p)" and "tr \<equiv> Suc (Suc (shm_calls (nd_shm n)))"
  shows "\<exists>hop x n'. AAASendMessage e (Some msg) n = Some (AAA_ERR_SUCCESS, msg\<lparr>buf_s := NULL, msg_buf := []\<rparr>, n') \<and>
    pw_writes (nd_pw n') = pw_writes (nd_pw n) @ [(p_sock (pw_peers (nd_pw n) p), with_ids hop ete (encode_msg msg))] \<and>
    sw_sessions (nd_sw n') (sId msg) = Some ses' \<and> open_trans (Suc k) p ete hop tr x (pw_tr (nd_pw n')) \<and>
    tr_ses x = sId msg \<and> tr_info x = commandCode msg \<and> timeout_f x = ses_trans_timeout_ptr \<and> tr_in_peer x = NULL \<and>
    shm_live (nd_shm n') = tr # shm_live (nd_shm n)"
proof -
  define w where "w = nd_pw n"
  define m where "m = nd_shm n"
  define m1 where "m1 = \<lparr>shm_calls = Suc (shm_calls m), shm_live = Suc (shm_calls m) # shm_live m\<rparr>"
  define g where "g = msg\<lparr>buf_s := Suc (shm_calls m), msg_buf := encode_msg msg\<rparr>"
  define n1 where "n1 = set_shm m1 n"
  have "shm_malloc (env_ok (ne_peer e)) m = (Suc (shm_calls m), m1)" using ok by (simp add: shm_malloc_def m1_def Let_def)
  then have b: "build_buffer e msg n = Some (1, g, n1)"
    using build_msg_spec [OF len, of "env_ok (ne_peer e)" m] by (simp add: build_buffer_def m_def g_def n1_def)
  have n1: "pw_peers (nd_pw n1) = pw_peers w" "pw_all (nd_pw n1) = pw_all w" "pw_calls (nd_pw n1) = pw_calls w"
    "tw_shm (pw_tr (nd_pw n1)) = m1" "tw_tables (pw_tr (nd_pw n1)) = tw_tables (pw_tr w)" "tw_timer (pw_tr (nd_pw n1)) = tw_timer (pw_tr w)"
    "pw_writes (nd_pw n1) = pw_writes w" "nd_sw n1 = nd_sw n"
    by (simp_all add: n1_def w_def set_shm_def)
  from fr obtain ps qs where tk: "takes_request k p w" and all: "pw_all w = ps @ p # qs" "\<forall>q \<in> set ps. \<not> ready q w"
    by (auto simp: first_ready_def w_def)
  have t1: "addr_bound p (pw_tr (nd_pw n1))" "htable_wf k (tw_tables (pw_tr (nd_pw n1)) p)" "k < 2 ^ 32"
    "hash_size (tw_tables (pw_tr (nd_pw n1)) p) \<noteq> 0"
    using tk n1 by (auto simp: takes_request_def addr_bound_def in_timer_def m1_def m_def nd_shm_def w_def le_SucI)
  from create_fresh [where ok = "env_ok (ne_peer e)", OF ok t1, of "buf_s g" NULL ses_trans_timeout_ptr] obtain t2 y where
    c: "create_transaction (env_ok (ne_peer e)) (buf_s g) NULL ses_trans_timeout_ptr (pw_tr (nd_pw n1)) = (tr, t2)"
      "fresh_trans k p tr t2" "tw_trans t2 tr = Some y" "tr_in_peer y = NULL" "timeout_f y = ses_trans_timeout_ptr"
      "tw_shm t2 = snd (shm_malloc (env_ok (ne_peer e)) m1)"
    unfolding n1(4) by (auto simp: tr_def m1_def m_def)
  define x where "x = y\<lparr>tr_ses := sId msg, tr_info := commandCode msg\<rparr>"
  define n2 where "n2 = n1\<lparr>nd_pw := (nd_pw n1)\<lparr>pw_tr := set_trans tr x t2\<rparr>\<rparr>"
  define n3 where "n3 = in_session (sId msg) ses' n2"
  have acc2: "ses_accepts (sId msg) (sending_request_event (commandCode msg)) (Some g) ses' n2"
    using acc by (auto simp: ses_accepts_def n2_def n1 sending_event_msg [where m = "Some g" and m' = None])
  have f2: "fresh_trans k p tr (pw_tr (nd_pw n3))" "tw_trans (pw_tr (nd_pw n3)) tr = Some x" "ready p (nd_pw n3)"
    "20 \<le> length (encode_msg msg)" "env_write (ne_peer e) (pw_calls (nd_pw n3)) = W_bytes (length (encode_msg msg))"
    using c(2,3) tk wr n1 by (auto simp: n3_def n2_def fresh_trans_def x_def in_timer_def takes_request_def ready_def w_def
        length_encode_msg msg_len_wire)
  from send_req_opens [OF f2(3,1,2,4,5)] obtain hop t4 l where
    s: "send_req_to_peer (ne_peer e) tr (encode_msg msg) p (nd_pw n3) = Some (1,
      (upd p (\<lambda>y. y\<lparr>endtoendID := ete + 1\<rparr>) (nd_pw n3))\<lparr>pw_tr := t4, pw_calls := Suc (pw_calls w),
        pw_writes := pw_writes w @ [(p_sock (pw_peers w p), with_ids hop ete (encode_msg msg))]\<rparr>)"
      "tw_shm t4 = tw_shm t2" "open_trans (Suc k) p ete hop tr (x\<lparr>tr_linker := l, tr_out_peer := p, tr_req := NULL, ref_cnt := 2\<rparr>) t4"
    using c(4) by (auto simp: x_def request_ete_def n3_def n2_def n1 ete_def w_def set_trans_def)
  define n4 where "n4 = n3\<lparr>nd_pw := (upd p (\<lambda>y. y\<lparr>endtoendID := ete + 1\<rparr>) (nd_pw n3))\<lparr>pw_tr := t4, pw_calls := Suc (pw_calls w),
        pw_writes := pw_writes w @ [(p_sock (pw_peers w p), with_ids hop ete (encode_msg msg))]\<rparr>\<rparr>"
  have loc: "on_peers (send_local_request e (encode_msg msg) tr) n3 = Some (1, n4)"
    using st s(1) all send_to_first_ready [of ps "nd_pw n3"]
    by (simp add: send_local_request_def client_send_local_req_def on_peers_def n4_def n3_def n2_def n1 ready_def)
  have "AAASendMessage e (Some msg) n = Some (AAA_ERR_SUCCESS, release_buffer g n4)"
    using cc req st b c(1,3) on_sessions_ok [OF acc2] loc
    by (simp add: AAASendMessage_def send_request_def sId2session_def g_def on_trans_def tr_def x_def n2_def n3_def)
  moreover have "release_buffer g n4 = (msg\<lparr>buf_s := NULL, msg_buf := []\<rparr>, set_shm (shm_free (Suc (shm_calls m)) (tw_shm t2)) n4)"
    using s(2) by (simp add: release_buffer_def node_free_def g_def nd_shm_def n4_def)
  moreover have "shm_live (shm_free (Suc (shm_calls m)) (tw_shm t2)) = tr # shm_live m"
    using c(6) ok by (simp add: shm_malloc_def shm_free_def m1_def tr_def m_def Let_def)
  ultimately show ?thesis using s(3) c(4,5)
    by (intro exI [of _ hop] exI [of _ "x\<lparr>tr_linker := l, tr_out_peer := p, tr_req := NULL, ref_cnt := 2\<rparr>"]
        exI [of _ "set_shm (shm_free (Suc (shm_calls m)) (tw_shm t2)) n4"])
      (simp add: n4_def n3_def x_def w_def m_def)
qed

section \<open>The answer and the timeout\<close>

definition answer_event :: "u32 \<Rightarrow> AAA_EVENTS" where
  "answer_event word = (if word AND MASK_MSG_CODE = AC_MSG_CODE then AAA_AcctA_RECEIVED else AAA_AuthA_RECEIVED)"

lemma answer_delivered:
  assumes q: "pw_queue (nd_pw n) = (s, b, p) # qs" and op: "open_trans k p ete hop tr x (pw_tr (nd_pw n))" and ids: "peek4le b 12 = Some hop" "peek4le b 16 = Some ete"
    and fl: "peek b 4 = Some fl" "fl AND 0x80 = 0" and word: "peek4le b 4 = Some word" "word AND MASK_MSG_CODE \<noteq> ST_MSG_CODE"
    and parse: "AAATranslateMessage (env_ok (ne_peer e)) s b True (shm_free tr (nd_shm n)) = Some (Some msg, m)"
    and acc: "ses_accepts (tr_ses x) (answer_event word) (Some (msg\<lparr>sId := tr_ses x\<rparr>)) ses' n"
  shows "\<exists>n'. client_round e n = Option.bind (cl_mod_msg e (app_ref ses') (msg\<lparr>sId := tr_ses x\<rparr>) (ses_context ses') n')
      (\<lambda>(g, n''). Some (free_message g n'')) \<and>
    tw_trans (pw_tr (nd_pw n')) tr = None \<and> sw_sessions (nd_sw n') (tr_ses x) = Some ses' \<and> pw_writes (nd_pw n') = pw_writes (nd_pw n)"
proof -
  have tn: "tr \<noteq> NULL" using op by (simp add: open_trans_def)
  from lookup_closes [OF op] obtain t where
    t: "transaction_lookup p ete hop (pw_tr (nd_pw n)) = Some (tr, t)" "tw_trans t tr = Some (x\<lparr>ref_cnt := 1\<rparr>)"
      "tw_shm t = tw_shm (pw_tr (nd_pw n))" by blast
  from destroy_last [OF tn t(2)] obtain t' where
    t': "destroy_transaction tr t = Some t'" "tw_trans t' tr = None" "tw_shm t' = shm_free tr (nd_shm n)"
    using t(3) by (auto simp: nd_shm_def)
  define n1 where "n1 = n\<lparr>nd_pw := (nd_pw n)\<lparr>pw_queue := qs, pw_tr := t'\<lparr>tw_shm := m\<rparr>\<rparr>\<rparr>"
  have acc1: "ses_accepts (tr_ses x) (answer_event word) (Some (msg\<lparr>sId := tr_ses x\<rparr>)) ses' n1"
    using acc by (simp add: ses_accepts_def n1_def)
  have "parsed_answer e (word AND MASK_MSG_CODE) (tr_ses x) (msg\<lparr>sId := tr_ses x\<rparr>) n1 =
      cl_mod_msg e (app_ref ses') (msg\<lparr>sId := tr_ses x\<rparr>) (ses_context ses') (in_session (tr_ses x) ses' n1)"
    using word(2) on_sessions_ok [OF acc1] by (simp add: parsed_answer_def answer_event_def)
  moreover have "set_shm m (n\<lparr>nd_pw := (nd_pw n)\<lparr>pw_queue := qs, pw_tr := t'\<rparr>\<rparr>) = n1" by (simp add: n1_def set_shm_def)
  ultimately have "client_round e n = Option.bind (cl_mod_msg e (app_ref ses') (msg\<lparr>sId := tr_ses x\<rparr>) (ses_context ses')
      (in_session (tr_ses x) ses' n1)) (\<lambda>(g, n''). Some (free_message g n''))"
    using q fl word(1) ids t(1,2) t'(1,3) tn parse
    by (simp add: client_round_def get_from_queue_def client_answer_def on_trans_def nd_shm_def)
  then show ?thesis using t'(2) by (intro exI [of _ "in_session (tr_ses x) ses' n1"]) (simp add: n1_def)
qed

text \<open>The transaction has been taken out of the timer list by \<open>get_expired_from_timer_list\<close>.\<close>

lemma timeout_delivered:
  assumes op: "open_trans k p ete hop tr x (pw_tr (nd_pw n))" and "timeout_f x = ses_trans_timeout_ptr"
    and acc: "ses_accepts (tr_ses x) AAA_SESSION_REQ_TIMEOUT (Some ((zero_msg NULL)\<lparr>commandCode := tr_info x\<rparr>)) ses' n"
  defines "n0 \<equiv> n\<lparr>nd_pw := (nd_pw n)\<lparr>pw_tr := snd (timer_rmv tr (pw_tr (nd_pw n)))\<rparr>\<rparr>"
  shows "\<exists>n'. expire_nodes e [tr] n0 = Option.bind (cl_mod_tout e (app_ref ses') (tr_ses x) (ses_context ses') n')
      (on_trans (destroy_transaction tr)) \<and>
    \<not> in_table p ete hop tr (pw_tr (nd_pw n')) \<and> \<not> in_timer tr (pw_tr (nd_pw n')) \<and>
    tw_trans (pw_tr (nd_pw n')) tr = Some (x\<lparr>ref_cnt := 1\<rparr>) \<and> sw_sessions (nd_sw n') (tr_ses x) = Some ses'"
proof -
  have o: "tr \<noteq> NULL" "table_ok k p ete hop tr (pw_tr (nd_pw n))" "in_table p ete hop tr (pw_tr (nd_pw n))" "in_timer tr (pw_tr (nd_pw n))"
    "tw_trans (pw_tr (nd_pw n)) tr = Some x" "ref_cnt x = 2" "tr_out_peer x = p"
    using op by (auto simp: open_trans_def)
  have t0: "tw_tables (pw_tr (nd_pw n0)) = tw_tables (pw_tr (nd_pw n))" "tw_trans (pw_tr (nd_pw n0)) = tw_trans (pw_tr (nd_pw n))"
    "\<not> in_timer tr (pw_tr (nd_pw n0))" "nd_sw n0 = nd_sw n"
    using o(4) by (auto simp: n0_def timer_rmv_effect in_timer_def)
  from expire_remove_effect [of k p ete hop tr "pw_tr (nd_pw n0)" x] o t0 obtain t where
    t: "expire_remove tr (pw_tr (nd_pw n0)) = Some (True, t)" "\<not> in_table p ete hop tr t" "\<not> in_timer tr t"
      "tw_trans t tr = Some (x\<lparr>ref_cnt := 1\<rparr>)"
    by (auto simp: same_tables [OF t0(1)])
  define n1 where "n1 = n0\<lparr>nd_pw := (nd_pw n0)\<lparr>pw_tr := t\<rparr>\<rparr>"
  have acc1: "ses_accepts (tr_ses x) AAA_SESSION_REQ_TIMEOUT (Some ((zero_msg NULL)\<lparr>commandCode := tr_info x\<rparr>)) ses' n1"
    using acc t0(4) by (simp add: ses_accepts_def n1_def)
  have done_nodes: "expire_nodes e [] = Some" by (rule ext) simp
  have "expire_nodes e [tr] n0 = Option.bind (cl_mod_tout e (app_ref ses') (tr_ses x) (ses_context ses') (in_session (tr_ses x) ses' n1))
      (on_trans (destroy_transaction tr))"
    using t(1,4) assms(2) on_sessions_ok [OF acc1] done_nodes by (simp add: run_timeout_f_def ses_trans_timeout_f_def n1_def)
  then show ?thesis using t(2-4) by (intro exI [of _ "in_session (tr_ses x) ses' n1"]) (simp add: n1_def)
qed

section \<open>Properties\<close>

text \<open>
  An answer with the given identifiers is the next message in the queue, it parses and the session
  accepts it, going to the state \<open>ses'\<close>.
\<close>

definition answer_waiting :: "node_env \<Rightarrow> ptr \<Rightarrow> u32 \<Rightarrow> u32 \<Rightarrow> ptr \<Rightarrow> ptr \<Rightarrow> AAAMessage \<Rightarrow> session \<Rightarrow> node \<Rightarrow> bool" where
  "answer_waiting e p ete hop tr a msg ses' n \<longleftrightarrow> (\<exists>s b qs fl word m. pw_queue (nd_pw n) = (s, b, p) # qs \<and> peek4le b 12 = Some hop \<and>
     peek4le b 16 = Some ete \<and> peek b 4 = Some fl \<and> fl AND 0x80 = 0 \<and> peek4le b 4 = Some word \<and> word AND MASK_MSG_CODE \<noteq> ST_MSG_CODE \<and>
     AAATranslateMessage (env_ok (ne_peer e)) s b True (shm_free tr (nd_shm n)) = Some (Some msg, m) \<and>
     ses_accepts a (answer_event word) (Some (msg\<lparr>sId := a\<rparr>)) ses' n)"

text \<open>
  (C26) The way of a request through a client. When the session accepts the request,
  \<open>AAASendMessage\<close> writes it to the first connected peer with fresh identifiers, leaves the session
  in its new state and one open transaction that remembers the session, and loses no memory. As long
  as the transaction is open, an answer of that peer with these identifiers is given to the module
  of the session after the session has changed its state and the transaction is gone; and when the
  transaction expires instead, the session is told the timeout for the command of the request and
  the module is notified, with the transaction out of the table and of the timer list.
\<close>

theorem client_request_cycle:
  assumes "my_aaa_status e = AAA_CLIENT" and "is_req msg" and "commandCode msg \<notin> {257, 280, 282, 274, 275, 258}"
    and "\<And>i. env_ok (ne_peer e) i" and "msg_len (avpList msg) < 2 ^ 31" and "first_ready k p (nd_pw n)"
    and "ses_accepts (sId msg) (sending_request_event (commandCode msg)) None ses' n"
    and "env_write (ne_peer e) (pw_calls (nd_pw n)) = W_bytes (length (encode_msg msg))" and "shm_wf (nd_shm n)"
  defines "ete \<equiv> endtoendID (pw_peers (nd_pw n) p)" and "a \<equiv> sId msg"
  shows "\<exists>hop tr x n1. AAASendMessage e (Some msg) n = Some (AAA_ERR_SUCCESS, msg\<lparr>buf_s := NULL, msg_buf := []\<rparr>, n1) \<and>
    pw_writes (nd_pw n1) = pw_writes (nd_pw n) @ [(p_sock (pw_peers (nd_pw n) p), with_ids hop ete (encode_msg msg))] \<and>
    sw_sessions (nd_sw n1) a = Some ses' \<and> open_trans (Suc k) p ete hop tr x (pw_tr (nd_pw n1)) \<and>
    shm_live (nd_shm n1) = tr # shm_live (nd_shm n) \<and>
    (\<forall>n2 j ans ses2. open_trans j p ete hop tr x (pw_tr (nd_pw n2)) \<and> answer_waiting e p ete hop tr a ans ses2 n2 \<longrightarrow>
       (\<exists>n3. client_round e n2 = Option.bind (cl_mod_msg e (app_ref ses2) (ans\<lparr>sId := a\<rparr>) (ses_context ses2) n3)
           (\<lambda>(g, n4). Some (free_message g n4)) \<and>
         tw_trans (pw_tr (nd_pw n3)) tr = None \<and> sw_sessions (nd_sw n3) a = Some ses2 \<and> pw_writes (nd_pw n3) = pw_writes (nd_pw n2))) \<and>
    (\<forall>n2 j ses2. open_trans j p ete hop tr x (pw_tr (nd_pw n2)) \<and>
       ses_accepts a AAA_SESSION_REQ_TIMEOUT (Some ((zero_msg NULL)\<lparr>commandCode := commandCode msg\<rparr>)) ses2 n2 \<longrightarrow>
       (\<exists>n3. expire_nodes e [tr] (n2\<lparr>nd_pw := (nd_pw n2)\<lparr>pw_tr := snd (timer_rmv tr (pw_tr (nd_pw n2)))\<rparr>\<rparr>) =
           Option.bind (cl_mod_tout e (app_ref ses2) a (ses_context ses2) n3) (on_trans (destroy_transaction tr)) \<and>
         \<not> in_table p ete hop tr (pw_tr (nd_pw n3)) \<and> \<not> in_timer tr (pw_tr (nd_pw n3)) \<and> sw_sessions (nd_sw n3) a = Some ses2))"
proof -
  from request_sent [OF assms(1-9)] obtain hop x n1 where
    r: "AAASendMessage e (Some msg) n = Some (AAA_ERR_SUCCESS, msg\<lparr>buf_s := NULL, msg_buf := []\<rparr>, n1)"
      "pw_writes (nd_pw n1) = pw_writes (nd_pw n) @ [(p_sock (pw_peers (nd_pw n) p), with_ids hop ete (encode_msg msg))]"
      "sw_sessions (nd_sw n1) a = Some ses'" "open_trans (Suc k) p ete hop (Suc (Suc (shm_calls (nd_shm n)))) x (pw_tr (nd_pw n1))"
      "tr_ses x = a" "tr_info x = commandCode msg" "timeout_f x = ses_trans_timeout_ptr"
      "shm_live (nd_shm n1) = Suc (Suc (shm_calls (nd_shm n))) # shm_live (nd_shm n)"
    unfolding ete_def a_def by blast
  define tr where "tr = Suc (Suc (shm_calls (nd_shm n)))"
  have ans: "\<exists>n3. client_round e n2 = Option.bind (cl_mod_msg e (app_ref ses2) (ans\<lparr>sId := a\<rparr>) (ses_context ses2) n3)
        (\<lambda>(g, n4). Some (free_message g n4)) \<and>
      tw_trans (pw_tr (nd_pw n3)) tr = None \<and> sw_sessions (nd_sw n3) a = Some ses2 \<and> pw_writes (nd_pw n3) = pw_writes (nd_pw n2)"
    if o: "open_trans j p ete hop tr x (pw_tr (nd_pw n2))" and w: "answer_waiting e p ete hop tr a ans ses2 n2" for n2 j ans ses2
  proof -
    from w obtain s b qs fl word m where "pw_queue (nd_pw n2) = (s, b, p) # qs" "peek4le b 12 = Some hop" "peek4le b 16 = Some ete"
      "peek b 4 = Some fl" "fl AND 0x80 = 0" "peek4le b 4 = Some word" "word AND MASK_MSG_CODE \<noteq> ST_MSG_CODE"
      "AAATranslateMessage (env_ok (ne_peer e)) s b True (shm_free tr (nd_shm n2)) = Some (Some ans, m)"
      "ses_accepts a (answer_event word) (Some (ans\<lparr>sId := a\<rparr>)) ses2 n2"
      unfolding answer_waiting_def by blast
    from answer_delivered [OF this(1) o this(2-8) this(9) [folded r(5)]] show ?thesis by (simp add: r(5))
  qed
  have out: "\<exists>n3. expire_nodes e [tr] (n2\<lparr>nd_pw := (nd_pw n2)\<lparr>pw_tr := snd (timer_rmv tr (pw_tr (nd_pw n2)))\<rparr>\<rparr>) =
        Option.bind (cl_mod_tout e (app_ref ses2) a (ses_context ses2) n3) (on_trans (destroy_transaction tr)) \<and>
      \<not> in_table p ete hop tr (pw_tr (nd_pw n3)) \<and> \<not> in_timer tr (pw_tr (nd_pw n3)) \<and> sw_sessions (nd_sw n3) a = Some ses2"
    if o: "open_trans j p ete hop tr x (pw_tr (nd_pw n2))"
      and acc: "ses_accepts a AAA_SESSION_REQ_TIMEOUT (Some ((zero_msg NULL)\<lparr>commandCode := commandCode msg\<rparr>)) ses2 n2" for n2 j ses2
  proof -
    from acc have "ses_accepts (tr_ses x) AAA_SESSION_REQ_TIMEOUT (Some ((zero_msg NULL)\<lparr>commandCode := tr_info x\<rparr>)) ses2 n2"
      by (simp add: r(5,6))
    from timeout_delivered [OF o r(7) this] r(5) show ?thesis by auto
  qed
  show ?thesis
    by (rule exI [of _ hop], rule exI [of _ tr], rule exI [of _ x], rule exI [of _ n1])
      (use r(1-4,8) ans out in \<open>auto simp: tr_def\<close>)
qed

definition cl_request :: AAAMessage where
  "cl_request = (zero_msg 400)\<lparr>msg_flags := 0x80, commandCode := 300, applicationId := 5, sId := 7\<rparr>"

definition cl_answer :: "u32 \<Rightarrow> bytes" where
  "cl_answer hop = [1, 0, 0, 32, 0, 0, 1, 44, 0, 0, 0, 5] @ le32 hop @ le32 5 @ [0, 0, 1, 12, 0x40, 0, 0, 12, 0, 0, 7, 209]"

definition cl_env :: node_env where
  "cl_env = sample_node_env AAA_CLIENT (\<lambda>_. W_bytes 20)"

lemma cl_answer_parses:
  "\<exists>g m'. AAATranslateMessage (\<lambda>_. True) 600 (cl_answer hop) True m = Some (Some g, m') \<and> avp2int g (res_code g) = Some 2001 \<and>
     auth_ses_state g = NULL"
  by (simp add: AAATranslateMessage_def cl_answer_def le32_def be32_def AAA_MSG_HDR_SIZE_def shm_malloc_def Let_def
      peek_def peek_3bytes_def peek_4bytes_def peek4le_def peekn_def get_3bytes_def get_4bytes_def translate_avps.simps translate_avp_def
      AVP_HDR_SIZE_def to_32x_len_def AAACreateAVP_def AAAAddAVPToMessage_def set_avp_fields_def set_shortcut_def avp_tail_def
      is_req_def zero_msg_def avp2int_def peek4_def of_be32_def)

theorem client_request_cycle_witness:
  "\<exists>n1 hop n4 ses. AAASendMessage cl_env (Some cl_request) \<lparr>nd_pw = sample_pair\<lparr>pw_queue := []\<rparr>, nd_sw = sample_world\<rparr> =
      Some (AAA_ERR_SUCCESS, cl_request, n1) \<and>
    client_round cl_env (n1\<lparr>nd_pw := (nd_pw n1)\<lparr>pw_queue := [(600, cl_answer hop, 7)]\<rparr>\<rparr>) = Some n4 \<and>
    sw_sessions (nd_sw n4) 7 = Some ses \<and> ses_st ses = AAA_OPEN_STATE"
proof -
  let ?n = "\<lparr>nd_pw = sample_pair\<lparr>pw_queue := []\<rparr>, nd_sw = sample_world\<rparr>"
  let ?ses = "sample_session\<lparr>ses_st := AAA_PENDING_STATE\<rparr>"
  have env: "my_aaa_status cl_env = AAA_CLIENT" "env_ok (ne_peer cl_env) = (\<lambda>_. True)" "env_write (ne_peer cl_env) i = W_bytes 20"
    "cl_mod_msg cl_env r g c n = Some (g, n)" for i r g c n
    by (simp_all add: cl_env_def sample_node_env_def sample_env_def)
  have msg: "is_req cl_request" "commandCode cl_request = 300" "msg_len (avpList cl_request) = 20" "sId cl_request = 7"
    "cl_request\<lparr>buf_s := NULL, msg_buf := []\<rparr> = cl_request" "length (encode_msg cl_request) = 20"
    by (simp_all add: cl_request_def is_req_def zero_msg_def msg_len_def AAA_MSG_HDR_SIZE_def length_encode_msg)
  have fr: "first_ready 0 7 (nd_pw ?n)"
    by (auto simp: first_ready_def takes_request_def ready_def addr_bound_def in_timer_def cell_in_def htable_wf_def entry_wf_def sample_pair_def
        intro!: exI [of _ "[]"])
  have acc: "ses_accepts (sId cl_request) (sending_request_event (commandCode cl_request)) None ?ses ?n"
    by (simp add: ses_accepts_def msg sample_world_def sample_session_def sending_request_event_def sm_stateless_def sm_sending_AuthR_def)
  have wf: "shm_wf (nd_shm ?n)" by (simp add: shm_wf_def nd_shm_def sample_pair_def)
  have ete: "endtoendID (pw_peers (nd_pw ?n) 7) = 5" by (simp add: sample_pair_def sample_peer_def)
  have pre: "commandCode cl_request \<notin> {257, 280, 282, 274, 275, 258}" "\<And>i. env_ok (ne_peer cl_env) i" "msg_len (avpList cl_request) < 2 ^ 31"
    "env_write (ne_peer cl_env) (pw_calls (nd_pw ?n)) = W_bytes (length (encode_msg cl_request))"
    by (simp_all add: env msg)
  from client_request_cycle [OF env(1) msg(1) pre(1,2,3) fr acc pre(4) wf] obtain hop tr x n1 where
    s: "AAASendMessage cl_env (Some cl_request) ?n = Some (AAA_ERR_SUCCESS, cl_request, n1)" "sw_sessions (nd_sw n1) 7 = Some ?ses"
      "open_trans (Suc 0) 7 5 hop tr x (pw_tr (nd_pw n1))"
    and ans: "\<forall>n2 j ans ses2. open_trans j 7 5 hop tr x (pw_tr (nd_pw n2)) \<and> answer_waiting cl_env 7 5 hop tr 7 ans ses2 n2 \<longrightarrow>
       (\<exists>n3. client_round cl_env n2 = Option.bind (cl_mod_msg cl_env (app_ref ses2) (ans\<lparr>sId := 7\<rparr>) (ses_context ses2) n3)
           (\<lambda>(g, n4). Some (free_message g n4)) \<and>
         tw_trans (pw_tr (nd_pw n3)) tr = None \<and> sw_sessions (nd_sw n3) 7 = Some ses2 \<and> pw_writes (nd_pw n3) = pw_writes (nd_pw n2))"
    unfolding msg(4,5) ete by (elim exE conjE) (rule that)
  let ?n2 = "n1\<lparr>nd_pw := (nd_pw n1)\<lparr>pw_queue := [(600, cl_answer hop, 7)]\<rparr>\<rparr>"
  let ?ses2 = "?ses\<lparr>ses_st := AAA_OPEN_STATE\<rparr>"
  obtain g m' where g: "AAATranslateMessage (\<lambda>_. True) 600 (cl_answer hop) True (shm_free tr (nd_shm ?n2)) = Some (Some g, m')"
    "avp2int g (res_code g) = Some 2001" "auth_ses_state g = NULL" using cl_answer_parses by blast
  have ids: "peek4le (cl_answer hop) 12 = Some hop" "peek4le (cl_answer hop) 16 = Some 5" "peek (cl_answer hop) 4 = Some 0"
    "peek4le (cl_answer hop) 4 = Some 0x2c010000"
    by (simp_all add: cl_answer_def peek4le_def peek_def nth_append le32_def be32_def of_be32_be32) (simp_all add: of_be32_def)
  have ev: "answer_event 0x2c010000 = AAA_AuthA_RECEIVED" by (simp add: answer_event_def)
  have "avp2int (g\<lparr>sId := 7\<rparr>) p = avp2int g p" for p by (simp add: avp2int_def)
  then have "ses_accepts 7 (answer_event 0x2c010000) (Some (g\<lparr>sId := 7\<rparr>)) ?ses2 ?n2"
    using s(2) g(2,3) unfolding ev
    by (simp add: ses_accepts_def sm_stateless_def sm_AuthA_received_def sample_session_def)
  then have "answer_waiting cl_env 7 5 hop tr 7 g ?ses2 ?n2"
    unfolding answer_waiting_def
    by (intro exI [of _ 600] exI [of _ "cl_answer hop"] exI [of _ "[]"] exI [of _ 0] exI [of _ "0x2c010000"] exI [of _ m'])
      (use g(1) ids in \<open>simp add: env\<close>)
  note wait = this
  have "open_trans (Suc 0) 7 5 hop tr x (pw_tr (nd_pw ?n2))" using s(3) by simp
  from ans [rule_format, OF conjI [OF this wait]] obtain n3 where n3: "client_round cl_env ?n2 = Some (free_message (g\<lparr>sId := 7\<rparr>) n3)" "sw_sessions (nd_sw n3) 7 = Some ?ses2"
    unfolding env by auto
  have "sw_sessions (nd_sw (free_message (g\<lparr>sId := 7\<rparr>) n3)) 7 = Some ?ses2" using n3(2) by (simp add: free_message_def)
  then show ?thesis using s(1) n3(1)
    by (intro exI [of _ n1] exI [of _ hop] exI [of _ "free_message (g\<lparr>sId := 7\<rparr>) n3"] exI [of _ ?ses2]) simp
qed

end
