(* ===== verification/Q_Malloc.thy ===== *)
theory Q_Malloc
  imports List_Head
begin

text \<open>
  The allocator mem/q\_malloc.c, which serves \<open>shm_malloc\<close> and \<open>shm_free\<close> (mem/shm\_mem.h) in
  the configured build. The pool is a store of 32-bit cells, addressed in bytes, in which the
  fragments lie one behind the other, each with a header \<open>qm_frag\<close> and a tail \<open>qm_frag_end\<close>;
  the free fragments hang on doubly linked rings, one for each size class, whose heads are
  fragments of size 0 in the block header. The parameter \<open>d\<close> says whether the code is built with
  DBG\_QM\_MALLOC (the default of configure.ac), which changes the layout of the headers and
  adds the check patterns and the calls of abort. \<open>int\<close>, \<open>long\<close> and pointers have 32 bits.
  QM\_JOIN\_FREE is defined by no build, so freed fragments are not joined.

  None is a loop that never ends, \<open>Aborted\<close> is a call of abort.
\<close>

section \<open>Layout\<close>

type_synonym cells = "ptr \<Rightarrow> nat"

datatype 'a qm_result = Aborted | Ret 'a

definition add32 :: "nat \<Rightarrow> nat \<Rightarrow> nat" where
  "add32 a b = (a + b) mod 2 ^ 32"

definition sub32 :: "nat \<Rightarrow> nat \<Rightarrow> nat" where
  "sub32 a b = (a + (2 ^ 32 - b)) mod 2 ^ 32"

definition ROUNDTO :: "bool \<Rightarrow> nat" where
  "ROUNDTO d = (if d then 4 else 16)"

definition MIN_FRAG_SIZE :: "bool \<Rightarrow> nat" where
  "MIN_FRAG_SIZE d = ROUNDTO d"

definition QM_MALLOC_OPTIMIZE :: nat where
  "QM_MALLOC_OPTIMIZE = 2048"

definition QM_HASH_SIZE :: "bool \<Rightarrow> nat" where
  "QM_HASH_SIZE d = QM_MALLOC_OPTIMIZE div ROUNDTO d + (32 - 11) + 1"

text \<open>
  \<open>struct qm_frag\<close> has \<open>size\<close> at offset 0 and the union of \<open>nxt_free\<close> and \<open>is_free\<close> at 4; in the
  debugging build \<open>file\<close>, \<open>func\<close>, \<open>line\<close> and \<open>check\<close> follow at 8, 12, 16 and 20. \<open>struct
  qm_frag_end\<close> has \<open>size\<close> and \<open>prev_free\<close>, in the debugging build behind \<open>check1\<close>, \<open>check2\<close>
  and two reserved words. A fragment is named by the address of its header.
\<close>

definition sizeof_frag :: "bool \<Rightarrow> nat" where
  "sizeof_frag d = (if d then 24 else 8)"

definition sizeof_frag_end :: "bool \<Rightarrow> nat" where
  "sizeof_frag_end d = (if d then 24 else 8)"

definition end_words :: "bool \<Rightarrow> nat" where
  "end_words d = (if d then 16 else 0)"

definition FRAG_OVERHEAD :: "bool \<Rightarrow> nat" where
  "FRAG_OVERHEAD d = sizeof_frag d + sizeof_frag_end d"

definition sizeof_qm_block :: "bool \<Rightarrow> nat" where
  "sizeof_qm_block d = 24 + QM_HASH_SIZE d * FRAG_OVERHEAD d"

definition nxt_free :: "cells \<Rightarrow> ptr \<Rightarrow> ptr" where
  "nxt_free m f = m (f + 4)"

definition FRAG_END :: "bool \<Rightarrow> cells \<Rightarrow> ptr \<Rightarrow> ptr" where
  "FRAG_END d m f = f + sizeof_frag d + m f"

definition end_size_at :: "bool \<Rightarrow> cells \<Rightarrow> ptr \<Rightarrow> ptr" where
  "end_size_at d m f = FRAG_END d m f + end_words d"

definition prev_free_at :: "bool \<Rightarrow> cells \<Rightarrow> ptr \<Rightarrow> ptr" where
  "prev_free_at d m f = FRAG_END d m f + end_words d + 4"

definition FRAG_NEXT :: "bool \<Rightarrow> cells \<Rightarrow> ptr \<Rightarrow> ptr" where
  "FRAG_NEXT d m f = f + sizeof_frag d + m f + sizeof_frag_end d"

definition PREV_FRAG_END :: "bool \<Rightarrow> ptr \<Rightarrow> ptr" where
  "PREV_FRAG_END d f = f - sizeof_frag_end d"

definition ROUNDUP :: "bool \<Rightarrow> nat \<Rightarrow> nat" where
  "ROUNDUP d s = add32 s (ROUNDTO d - 1) div ROUNDTO d * ROUNDTO d"

definition ROUNDDOWN :: "bool \<Rightarrow> nat \<Rightarrow> nat" where
  "ROUNDDOWN d s = s div ROUNDTO d * ROUNDTO d"

section \<open>Size classes\<close>

text \<open>\<open>for (idx=31; !(s&0x80000000) ; s<<=1, idx--);\<close>\<close>

partial_function (option) big_hash_loop :: "u32 \<Rightarrow> int \<Rightarrow> int option" where
  "big_hash_loop s idx =
     (if s AND 0x80000000 = 0 then big_hash_loop (push_bit 1 s) (idx - 1) else Some idx)"

definition big_hash_idx :: "nat \<Rightarrow> int option" where
  "big_hash_idx s = big_hash_loop (of_nat s) 31"

definition GET_HASH :: "bool \<Rightarrow> nat \<Rightarrow> nat option" where
  "GET_HASH d s =
     (if s < QM_MALLOC_OPTIMIZE then Some (s div ROUNDTO d)
      else map_option (\<lambda>i. nat (int (QM_MALLOC_OPTIMIZE div ROUNDTO d) + i - 11 + 1)) (big_hash_idx s))"

section \<open>The block and its free lists\<close>

text \<open>\<open>qm_free_hash\<close> is the address of the array of list heads in the block header.\<close>

record qm_block =
  qm_size :: nat
  qm_used :: nat
  qm_real_used :: nat
  qm_max_real_used :: nat
  qm_first_frag :: ptr
  qm_last_frag_end :: ptr
  qm_free_hash :: ptr
  qm_mem :: cells

definition free_head :: "bool \<Rightarrow> ptr \<Rightarrow> nat \<Rightarrow> ptr" where
  "free_head d a h = a + FRAG_OVERHEAD d * h"

text \<open>What the debugging build records of a call: file, function and line, and the literal that
  marks a fragment split off by \<open>qm_malloc\<close>.\<close>

record dbg_loc =
  dl_file :: ptr
  dl_func :: ptr
  dl_line :: nat
  dl_split :: ptr

abbreviation (input) ST_CHECK_PATTERN :: nat where "ST_CHECK_PATTERN \<equiv> 0xf0f0f0f0"
abbreviation (input) END_CHECK_PATTERN1 :: nat where "END_CHECK_PATTERN1 \<equiv> 0xc0c0c0c0"
abbreviation (input) END_CHECK_PATTERN2 :: nat where "END_CHECK_PATTERN2 \<equiv> 0xabcdefed"

text \<open>False is a call of abort.\<close>

definition qm_debug_frag :: "qm_block \<Rightarrow> ptr \<Rightarrow> bool" where
  "qm_debug_frag q f =
     (let m = qm_mem q; e = FRAG_END True m f; pe = PREV_FRAG_END True f
      in if m (f + 20) \<noteq> ST_CHECK_PATTERN then False
         else if m e \<noteq> END_CHECK_PATTERN1 \<or> m (e + 4) \<noteq> END_CHECK_PATTERN2 then False
         else if qm_first_frag q < f \<and> (m pe \<noteq> END_CHECK_PATTERN1 \<or> m (pe + 4) \<noteq> END_CHECK_PATTERN2)
              then False
         else True)"

partial_function (option) insert_scan :: "cells \<Rightarrow> ptr \<Rightarrow> ptr \<Rightarrow> ptr \<Rightarrow> ptr option" where
  "insert_scan m frag head f =
     (if f \<noteq> head \<and> \<not> m frag \<le> m f then insert_scan m frag head (nxt_free m f) else Some f)"

definition link_free :: "bool \<Rightarrow> ptr \<Rightarrow> ptr \<Rightarrow> cells \<Rightarrow> cells" where
  "link_free d frag f m =
     (let prev = m (prev_free_at d m f);
          m1 = m(prev + 4 := frag);
          m2 = m1(prev_free_at d m1 frag := prev);
          m3 = m2(frag + 4 := f)
      in m3(prev_free_at d m3 f := frag))"

definition qm_insert_free :: "bool \<Rightarrow> ptr \<Rightarrow> qm_block \<Rightarrow> qm_block option" where
  "qm_insert_free d frag q = do {
     let m = qm_mem q;
     hash \<leftarrow> GET_HASH d (m frag);
     let head = free_head d (qm_free_hash q) hash;
     f \<leftarrow> insert_scan m frag head (nxt_free m head);
     Some (q\<lparr>qm_mem := link_free d frag f m\<rparr>)
   }"

definition unlink_free :: "bool \<Rightarrow> ptr \<Rightarrow> cells \<Rightarrow> cells" where
  "unlink_free d frag m =
     (let prev = m (prev_free_at d m frag);
          nxt = nxt_free m frag;
          m1 = m(prev + 4 := nxt)
      in m1(prev_free_at d m1 nxt := prev))"

definition qm_detach_free :: "bool \<Rightarrow> ptr \<Rightarrow> qm_block \<Rightarrow> qm_block" where
  "qm_detach_free d frag q = q\<lparr>qm_mem := unlink_free d frag (qm_mem q)\<rparr>"

section \<open>Initialisation\<close>

primrec init_heads :: "bool \<Rightarrow> ptr \<Rightarrow> nat \<Rightarrow> cells \<Rightarrow> cells" where
  "init_heads d a 0 m = m"
| "init_heads d a (Suc h) m =
     (let head = free_head d a h; tail = head + sizeof_frag d
      in (init_heads d a h m)
           (head + 4 := head, tail + end_words d + 4 := head, head := 0, tail + end_words d := 0))"

text \<open>None: the call does not return; \<open>Some None\<close>: it returns the null pointer.\<close>

definition qm_malloc_init :: "bool \<Rightarrow> ptr \<Rightarrow> nat \<Rightarrow> cells \<Rightarrow> qm_block option option" where
  "qm_malloc_init d address size0 m0 =
     (let start = ROUNDUP d address; skip = sub32 start address
      in if size0 < skip then Some None
         else let size1 = size0 - skip
         in if size1 < MIN_FRAG_SIZE d + FRAG_OVERHEAD d then Some None
         else let size2 = ROUNDDOWN d size1;
                  init_overhead = ROUNDUP d (sizeof_qm_block d) + sizeof_frag d + sizeof_frag_end d
         in if size2 < init_overhead then Some None
         else let end = start + size2;
                  m1 = (\<lambda>a. if start \<le> a \<and> a < start + sizeof_qm_block d then 0 else m0 a);
                  size3 = size2 - init_overhead;
                  first = start + ROUNDUP d (sizeof_qm_block d);
                  last_end = end - sizeof_frag_end d;
                  m2 = m1(first := size3, last_end + end_words d := size3);
                  m3 = (if d then m2(first + 20 := ST_CHECK_PATTERN, last_end := END_CHECK_PATTERN1,
                                     last_end + 4 := END_CHECK_PATTERN2) else m2);
                  m4 = init_heads d (start + 24) (QM_HASH_SIZE d) m3
         in map_option Some (qm_insert_free d first
              \<lparr>qm_size = size3, qm_used = 0, qm_real_used = init_overhead,
               qm_max_real_used = init_overhead, qm_first_frag = first,
               qm_last_frag_end = last_end, qm_free_hash = start + 24, qm_mem = m4\<rparr>))"

section \<open>Allocation\<close>

text \<open>The inner loop of \<open>qm_find_free\<close> over one list; the null pointer says that it is used up.\<close>

partial_function (option) scan_bucket :: "cells \<Rightarrow> nat \<Rightarrow> ptr \<Rightarrow> ptr \<Rightarrow> ptr option" where
  "scan_bucket m want head f =
     (if f \<noteq> head
      then if want \<le> m f then Some f else scan_bucket m want head (nxt_free m f)
      else Some NULL)"

function find_from :: "bool \<Rightarrow> cells \<Rightarrow> ptr \<Rightarrow> nat \<Rightarrow> nat \<Rightarrow> ptr option" where
  "find_from d m a want hash =
     (if hash < QM_HASH_SIZE d
      then do {
        let head = free_head d a hash;
        f \<leftarrow> scan_bucket m want head (nxt_free m head);
        if f \<noteq> NULL then Some f else find_from d m a want (hash + 1)
      }
      else Some NULL)"
  by pat_completeness auto
termination
  by (relation "measure (\<lambda>(d, m, a, want, hash). QM_HASH_SIZE d - hash)") auto

definition qm_find_free :: "bool \<Rightarrow> nat \<Rightarrow> qm_block \<Rightarrow> ptr option" where
  "qm_find_free d want q = do {
     hash \<leftarrow> GET_HASH d want;
     find_from d (qm_mem q) (qm_free_hash q) want hash
   }"

text \<open>The branch of \<open>qm_malloc\<close> that splits the fragment \<open>f\<close>, before \<open>n\<close> is inserted.\<close>

definition split_cells :: "bool \<Rightarrow> dbg_loc \<Rightarrow> ptr \<Rightarrow> nat \<Rightarrow> nat \<Rightarrow> cells \<Rightarrow> ptr \<times> cells" where
  "split_cells d loc f want rest m =
     (let m1 = m(f := want);
          end = FRAG_END d m1 f;
          m2 = m1(end + end_words d := want);
          n = end + sizeof_frag_end d;
          m3 = m2(n := rest - FRAG_OVERHEAD d);
          m4 = m3(end_size_at d m3 n := m3 n);
          m5 = (if d
                then m4(end := END_CHECK_PATTERN1, end + 4 := END_CHECK_PATTERN2,
                        n + 8 := dl_file loc, n + 12 := dl_split loc, n + 16 := dl_line loc,
                        n + 20 := ST_CHECK_PATTERN)
                else m4)
      in (n, m5))"

definition dbg_mark :: "bool \<Rightarrow> dbg_loc \<Rightarrow> ptr \<Rightarrow> cells \<Rightarrow> cells" where
  "dbg_mark d loc f m =
     (if d then m(f + 8 := dl_file loc, f + 12 := dl_func loc, f + 16 := dl_line loc) else m)"

text \<open>\<open>qm_malloc\<close> from "mark it as busy" to the end of the split, and its end from there.\<close>

definition qm_split :: "bool \<Rightarrow> dbg_loc \<Rightarrow> ptr \<Rightarrow> nat \<Rightarrow> qm_block \<Rightarrow> qm_block option" where
  "qm_split d loc f want q =
     (let m1 = (qm_mem q)(f + 4 := 0);
          rest = sub32 (m1 f) want
      in if FRAG_OVERHEAD d + MIN_FRAG_SIZE d < rest
         then case split_cells d loc f want rest m1 of
                (n, m2) \<Rightarrow> qm_insert_free d n
                  (q\<lparr>qm_real_used := add32 (qm_real_used q) (FRAG_OVERHEAD d), qm_mem := m2\<rparr>)
         else Some (q\<lparr>qm_mem := m1\<rparr>))"

definition qm_account :: "bool \<Rightarrow> dbg_loc \<Rightarrow> ptr \<Rightarrow> qm_block \<Rightarrow> ptr \<times> qm_block" where
  "qm_account d loc f q =
     (let s = qm_mem q f;
          ru = add32 (qm_real_used q) s;
          m3 = dbg_mark d loc f (qm_mem q);
          m4 = (if d then m3(f + 20 := ST_CHECK_PATTERN) else m3)
      in (f + sizeof_frag d,
          q\<lparr>qm_used := add32 (qm_used q) s, qm_real_used := ru,
            qm_max_real_used := (if qm_max_real_used q < ru then ru else qm_max_real_used q),
            qm_mem := m4\<rparr>))"

definition qm_malloc :: "bool \<Rightarrow> dbg_loc \<Rightarrow> nat \<Rightarrow> qm_block \<Rightarrow> (ptr \<times> qm_block) qm_result option" where
  "qm_malloc d loc size0 q =
     (let want = ROUNDUP d size0
      in if sub32 (qm_size q) (qm_real_used q) < want then Some (Ret (NULL, q))
         else do {
           f \<leftarrow> qm_find_free d want q;
           if f = NULL then Some (Ret (NULL, q))
           else if d \<and> \<not> qm_debug_frag q f then Some Aborted
           else do {
             q2 \<leftarrow> qm_split d loc f want (qm_detach_free d f q);
             Some (Ret (qm_account d loc f q2))
           }
         })"

section \<open>Release\<close>

definition qm_free :: "bool \<Rightarrow> dbg_loc \<Rightarrow> ptr \<Rightarrow> qm_block \<Rightarrow> qm_block qm_result option" where
  "qm_free d loc p q =
     (if d \<and> (qm_last_frag_end q < p \<or> p < qm_first_frag q) then Some Aborted
      else if p = NULL then Some (Ret q)
      else let f = sub32 p (sizeof_frag d)
      in if d \<and> \<not> qm_debug_frag q f then Some Aborted
      else if d \<and> nxt_free (qm_mem q) f \<noteq> 0 then Some Aborted
      else let size = qm_mem q f
      in map_option Ret (qm_insert_free d f
           (q\<lparr>qm_used := sub32 (qm_used q) size, qm_real_used := sub32 (qm_real_used q) size,
              qm_mem := dbg_mark d loc f (qm_mem q)\<rparr>)))"

section \<open>Status\<close>

text \<open>
  \<open>qm_status\<close> logs the counters, a row for each allocated fragment (its number in the pool, the
  address given out and its size) and the length of each list that is not empty.
\<close>

function frags_from :: "bool \<Rightarrow> cells \<Rightarrow> ptr \<Rightarrow> ptr \<Rightarrow> ptr list" where
  "frags_from d m last_end f =
     (if f < last_end then f # frags_from d m last_end (FRAG_NEXT d m f) else [])"
  by pat_completeness auto
termination
  by (relation "measure (\<lambda>(d, m, e, f). e - f)")
    (auto simp: FRAG_NEXT_def sizeof_frag_def sizeof_frag_end_def)

partial_function (option) count_bucket :: "cells \<Rightarrow> ptr \<Rightarrow> ptr \<Rightarrow> nat option" where
  "count_bucket m head f =
     (if f \<noteq> head then do { j \<leftarrow> count_bucket m head (nxt_free m f); Some (j + 1) }
      else Some 0)"

record qm_report =
  qr_counters :: "nat list"
  qr_allocated :: "(nat \<times> ptr \<times> nat) list"
  qr_free_counts :: "(nat \<times> nat) list"

fun count_free :: "bool \<Rightarrow> cells \<Rightarrow> ptr \<Rightarrow> nat list \<Rightarrow> (nat \<times> nat) list option" where
  "count_free d m a [] = Some []"
| "count_free d m a (h # hs) = do {
     j \<leftarrow> count_bucket m (free_head d a h) (nxt_free m (free_head d a h));
     rest \<leftarrow> count_free d m a hs;
     Some (if j \<noteq> 0 then (h, j) # rest else rest)
   }"

definition qm_status :: "bool \<Rightarrow> qm_block \<Rightarrow> qm_report option" where
  "qm_status d q = do {
     let m = qm_mem q;
     let fs = frags_from d m (qm_last_frag_end q) (qm_first_frag q);
     counts \<leftarrow> count_free d m (qm_free_hash q) [0..<QM_HASH_SIZE d];
     Some \<lparr>qr_counters = [qm_size q, qm_used q, qm_real_used q,
                           sub32 (qm_size q) (qm_real_used q), qm_max_real_used q],
           qr_allocated = map (\<lambda>(i, f). (i, f + sizeof_frag d, m f))
             (filter (\<lambda>(i, f). nxt_free m f = 0) (zip [0..<length fs] fs)),
           qr_free_counts = counts\<rparr>
   }"

declare find_from.simps [simp del] frags_from.simps [simp del]

end
