(* ===== verification/Qm_Heap.thy ===== *)
theory Qm_Heap
  imports Q_Malloc
begin

text \<open>
  The shape of the pool of mem/q\_malloc.c: the size classes are monotone in the size, the
  fragments tile the pool and do not overlap each other or the list heads, and every list is a
  ring (List\_Head) that holds the free fragments of its size class in the order of their
  sizes. The lemmas say what linking, unlinking and splitting a fragment do to that shape.
\<close>

lemmas qm_layout = sizeof_frag_def sizeof_frag_end_def end_words_def FRAG_OVERHEAD_def
  FRAG_END_def prev_free_at_def end_size_at_def FRAG_NEXT_def nxt_free_def

section \<open>Size classes\<close>

lemma msb_clear: "(s :: u32) AND 0x80000000 = 0 \<longleftrightarrow> unat s < 2 ^ 31"
proof -
  have "unat s < 2 ^ 32" using unsigned_less [of s, where ?'a = nat] by simp
  then have q: "unat s div 2 ^ 31 < 2" by (simp add: div_less_iff_less_mult)
  have "s AND 0x80000000 = 0 \<longleftrightarrow> \<not> bit s 31"
    using and_exp_eq_0_iff_not_bit [of s 31] by simp
  also have "\<dots> \<longleftrightarrow> even (unat s div 2 ^ 31)"
    using bit_unsigned_iff [of s 31, where ?'a = nat] by (simp add: bit_iff_odd)
  also have "\<dots> \<longleftrightarrow> unat s div 2 ^ 31 = 0" using q less_2_cases [OF q] by fastforce
  also have "\<dots> \<longleftrightarrow> unat s < 2 ^ 31" by (simp add: div_eq_0_iff)
  finally show ?thesis .
qed

lemma big_hash_loop_log:
  "2 ^ k \<le> unat s \<Longrightarrow> unat s < 2 ^ Suc k \<Longrightarrow> k \<le> 31 \<Longrightarrow>
   big_hash_loop s idx = Some (idx - (31 - int k))"
proof (induction "31 - k" arbitrary: k s idx)
  case 0
  then have "k = 31" by simp
  with 0 have "\<not> unat s < 2 ^ 31" by (simp add: not_less)
  then show ?case using \<open>k = 31\<close> by (simp add: big_hash_loop.simps msb_clear)
next
  case (Suc j)
  then have k: "k < 31" by simp
  then have "(2::nat) ^ Suc k \<le> 2 ^ 31" by (intro power_increasing) auto
  then have lt: "unat s < 2 ^ 31" using Suc.prems by linarith
  then have u: "unat (push_bit 1 s) = 2 * unat s"
    by (subst unsigned_push_bit_eq) (simp add: take_bit_nat_eq_self)
  have "big_hash_loop (push_bit 1 s) (idx - 1) = Some (idx - 1 - (31 - int (Suc k)))"
    by (rule Suc.hyps(1)) (use Suc.hyps(2) Suc.prems k u in auto)
  then show ?case using lt by (subst big_hash_loop.simps) (simp add: msb_clear)
qed

lemma big_hash_idx_log:
  assumes "0 < s" and "s < 2 ^ 32"
  obtains k where "big_hash_idx s = Some (int k)" and "2 ^ k \<le> s" and "s < 2 ^ Suc k" and "k \<le> 31"
proof -
  obtain k where k: "2 ^ k \<le> s" "s < 2 ^ (k + 1)"
    using ex_power_ivl1 [of 2 s] assms(1) by auto
  have "k < 32" using k assms(2) power_less_imp_less_exp [of "2::nat" k 32] by linarith
  moreover have "big_hash_idx s = Some (31 - (31 - int k))"
    unfolding big_hash_idx_def
    by (rule big_hash_loop_log) (use k assms(2) \<open>k < 32\<close> in \<open>auto simp: unat_of_nat_u32\<close>)
  ultimately show ?thesis using k by (intro that [of k]) auto
qed

lemma GET_HASH_cases:
  assumes "s < 2 ^ 32"
  obtains (small) "s < 2048" and "GET_HASH d s = Some (s div ROUNDTO d)"
    | (big) k where "GET_HASH d s = Some (2048 div ROUNDTO d + (k - 10))"
        and "11 \<le> k" and "k \<le> 31" and "2 ^ k \<le> s" and "s < 2 ^ Suc k"
proof (cases "s < 2048")
  case True
  then show ?thesis by (intro small) (simp_all add: GET_HASH_def QM_MALLOC_OPTIMIZE_def)
next
  case False
  then obtain k where k: "big_hash_idx s = Some (int k)" "2 ^ k \<le> s" "s < 2 ^ Suc k" "k \<le> 31"
    using big_hash_idx_log [of s] assms by auto
  have "(2::nat) ^ 11 < 2 ^ Suc k" using False k(3) by simp
  then have "11 \<le> k" using power_less_imp_less_exp [of "2::nat" 11 "Suc k"] by simp
  then have "GET_HASH d s = Some (2048 div ROUNDTO d + (k - 10))"
    using False k(1) by (simp add: GET_HASH_def QM_MALLOC_OPTIMIZE_def nat_diff_distrib nat_add_distrib)
  then show ?thesis using big k \<open>11 \<le> k\<close> by blast
qed

lemma GET_HASH_bound:
  assumes "s < 2 ^ 32"
  obtains h where "GET_HASH d s = Some h" and "h < QM_HASH_SIZE d"
  using assms
proof (cases rule: GET_HASH_cases [where d = d])
  case small
  then show ?thesis
    by (intro that [of "s div ROUNDTO d"]) (auto simp: QM_HASH_SIZE_def QM_MALLOC_OPTIMIZE_def ROUNDTO_def)
next
  case (big k)
  then show ?thesis
    by (intro that [of "2048 div ROUNDTO d + (k - 10)"]) (auto simp: QM_HASH_SIZE_def QM_MALLOC_OPTIMIZE_def)
qed

lemma GET_HASH_mono:
  assumes "s \<le> t" and "t < 2 ^ 32" and "GET_HASH d s = Some h" and "GET_HASH d t = Some h'"
  shows "h \<le> h'"
proof -
  have "s < 2 ^ 32" using assms by simp
  then show ?thesis
  proof (cases rule: GET_HASH_cases [where d = d])
    case s: small
    show ?thesis using assms(2)
    proof (cases rule: GET_HASH_cases [where d = d])
      case small
      then show ?thesis using s assms by (simp add: div_le_mono)
    next
      case (big k)
      have "s div ROUNDTO d \<le> 2048 div ROUNDTO d" using s by (intro div_le_mono) simp
      then show ?thesis using s big assms by simp
    qed
  next
    case s: (big k)
    show ?thesis using assms(2)
    proof (cases rule: GET_HASH_cases [where d = d])
      case small
      have "(2::nat) ^ 11 \<le> 2 ^ k" using s by (intro power_increasing) auto
      then show ?thesis using small s assms by simp
    next
      case (big k')
      have "(2::nat) ^ k < 2 ^ Suc k'" using s big assms(1) by linarith
      then have "k \<le> k'" using power_less_imp_less_exp [of "2::nat" k "Suc k'"] by simp
      then show ?thesis using s big assms by simp
    qed
  qed
qed

section \<open>Fragments and their cells\<close>

definition spaced :: "bool \<Rightarrow> cells \<Rightarrow> ptr set \<Rightarrow> bool" where
  "spaced d m N \<longleftrightarrow> (\<forall>x \<in> N. \<forall>y \<in> N. x < y \<longrightarrow> x + FRAG_OVERHEAD d + m x \<le> y)"

definition links :: "bool \<Rightarrow> cells \<Rightarrow> list_store" where
  "links d m = \<lparr>lh_next = nxt_free m, lh_prev = \<lambda>f. m (prev_free_at d m f)\<rparr>"

text \<open>The cells of a fragment that the allocator reads.\<close>

definition frag_cells :: "bool \<Rightarrow> cells \<Rightarrow> ptr \<Rightarrow> ptr set" where
  "frag_cells d m f = {f, f + 4, end_size_at d m f, prev_free_at d m f} \<union>
     (if d then {f + 20, FRAG_END d m f, FRAG_END d m f + 4} else {})"

definition extent :: "bool \<Rightarrow> cells \<Rightarrow> ptr \<Rightarrow> ptr set" where
  "extent d m f = {f ..< f + FRAG_OVERHEAD d + m f}"

lemma frag_cells_extent: "frag_cells d m f \<subseteq> extent d m f"
  by (auto simp: frag_cells_def extent_def qm_layout)

lemma extents_disjoint:
  assumes "spaced d m N" and "x \<in> N" and "y \<in> N" and "x \<noteq> y"
  shows "extent d m x \<inter> extent d m y = {}"
  using assms unfolding spaced_def extent_def
  by (cases x y rule: linorder_cases) (fastforce)+

lemma spaced_size: "spaced d m N \<Longrightarrow> \<forall>x \<in> N. m' x = m x \<Longrightarrow> spaced d m' N"
  by (simp add: spaced_def)

text \<open>The link cells of two fragments are the same only for the same field of the same fragment.\<close>

lemma link_cells:
  assumes "spaced d m N" and "x \<in> N" and "y \<in> N"
  shows "x \<noteq> y + 4" and "x \<noteq> prev_free_at d m y" and "x + 4 \<noteq> prev_free_at d m y"
    and "prev_free_at d m x = prev_free_at d m y \<longleftrightarrow> x = y"
proof -
  have *: "x < y \<Longrightarrow> x + FRAG_OVERHEAD d + m x \<le> y" "y < x \<Longrightarrow> y + FRAG_OVERHEAD d + m y \<le> x"
    using assms unfolding spaced_def by blast+
  show "x \<noteq> y + 4" "x \<noteq> prev_free_at d m y" "x + 4 \<noteq> prev_free_at d m y"
    using * by (cases x y rule: linorder_cases; auto simp: qm_layout split: if_splits)+
  show "prev_free_at d m x = prev_free_at d m y \<longleftrightarrow> x = y"
    using * by (cases x y rule: linorder_cases; auto simp: qm_layout split: if_splits)
qed

lemma prev_free_at_cong: "m' f = m f \<Longrightarrow> prev_free_at d m' f = prev_free_at d m f"
  by (simp add: prev_free_at_def FRAG_END_def)

lemma link_free_links:
  assumes sp: "spaced d m N" and N: "frag \<in> N" "f \<in> N" "m (prev_free_at d m f) \<in> N"
    and ne: "frag \<noteq> f" "frag \<noteq> m (prev_free_at d m f)"
  defines "prev \<equiv> m (prev_free_at d m f)"
  shows "x \<in> N \<Longrightarrow> link_free d frag f m x = m x"
    and "x \<in> N \<Longrightarrow> lh_next (links d (link_free d frag f m)) x =
            lh_next (list_add_between frag prev f (links d m)) x \<and>
          lh_prev (links d (link_free d frag f m)) x =
            lh_prev (list_add_between frag prev f (links d m)) x"
    and "a \<notin> {prev + 4, frag + 4, prev_free_at d m frag, prev_free_at d m f} \<Longrightarrow>
          link_free d frag f m a = m a"
proof -
  have pN: "prev \<in> N" using N by (simp add: prev_def)
  note c = link_cells [OF sp]
  have e: "link_free d frag f m =
      m(prev + 4 := frag, prev_free_at d m frag := prev, frag + 4 := f, prev_free_at d m f := frag)"
  proof -
    let ?m1 = "m(prev + 4 := frag)"
    let ?m3 = "?m1(prev_free_at d m frag := prev, frag + 4 := f)"
    have "prev_free_at d ?m1 frag = prev_free_at d m frag"
      by (rule prev_free_at_cong) (use c(1) [OF N(1) pN] in simp)
    moreover have "prev_free_at d ?m3 f = prev_free_at d m f"
      by (rule prev_free_at_cong)
        (use c(1) [OF N(2) pN] c(2) [OF N(2) N(1)] c(1) [OF N(2) N(1)] in simp)
    ultimately show ?thesis unfolding link_free_def prev_def [symmetric] Let_def by simp
  qed
  have same: "link_free d frag f m x = m x" if "x \<in> N" for x
    using c(1) [OF that pN] c(1,2) [OF that N(1)] c(2) [OF that N(2)] by (simp add: e)
  then show "x \<in> N \<Longrightarrow> link_free d frag f m x = m x" .
  show "a \<notin> {prev + 4, frag + 4, prev_free_at d m frag, prev_free_at d m f} \<Longrightarrow>
          link_free d frag f m a = m a" by (simp add: e)
  assume x: "x \<in> N"
  have at: "prev_free_at d (link_free d frag f m) x = prev_free_at d m x"
    using same [OF x] by (rule prev_free_at_cong)
  have "link_free d frag f m (x + 4) = (if x = prev then frag else if x = frag then f else m (x + 4))"
    unfolding e using c(3) [OF x N(1)] c(3) [OF x N(2)] ne by (simp add: prev_def [symmetric])
  moreover have "link_free d frag f m (prev_free_at d m x) =
      (if x = frag then prev else if x = f then frag else m (prev_free_at d m x))"
    unfolding e using c(4) [OF x N(1)] c(4) [OF x N(2)] c(3) [OF pN x] c(3) [OF N(1) x] ne
    by (auto simp: prev_def [symmetric])
  ultimately show "lh_next (links d (link_free d frag f m)) x =
            lh_next (list_add_between frag prev f (links d m)) x \<and>
        lh_prev (links d (link_free d frag f m)) x =
            lh_prev (list_add_between frag prev f (links d m)) x"
    unfolding list_add_between_def links_def by (simp add: at nxt_free_def)
qed

lemma unlink_free_links:
  assumes sp: "spaced d m N" and N: "f \<in> N" "nxt_free m f \<in> N" "m (prev_free_at d m f) \<in> N"
  defines "prev \<equiv> m (prev_free_at d m f)" and "nx \<equiv> nxt_free m f"
  shows "x \<in> N \<Longrightarrow> unlink_free d f m x = m x"
    and "x \<in> N \<Longrightarrow> lh_next (links d (unlink_free d f m)) x = lh_next (list_del f (links d m)) x \<and>
          lh_prev (links d (unlink_free d f m)) x = lh_prev (list_del f (links d m)) x"
    and "a \<notin> {prev + 4, prev_free_at d m nx} \<Longrightarrow> unlink_free d f m a = m a"
proof -
  have pN: "prev \<in> N" and nN: "nx \<in> N" using N by (simp_all add: prev_def nx_def)
  note c = link_cells [OF sp]
  have e: "unlink_free d f m = m(prev + 4 := nx, prev_free_at d m nx := prev)"
  proof -
    have "prev_free_at d (m(prev + 4 := nx)) nx = prev_free_at d m nx"
      by (rule prev_free_at_cong) (use c(1) [OF nN pN] in simp)
    then show ?thesis
      unfolding unlink_free_def prev_def [symmetric] nx_def [symmetric] Let_def by simp
  qed
  have same: "unlink_free d f m x = m x" if "x \<in> N" for x
    using c(1) [OF that pN] c(2) [OF that nN] by (simp add: e)
  then show "x \<in> N \<Longrightarrow> unlink_free d f m x = m x" .
  show "a \<notin> {prev + 4, prev_free_at d m nx} \<Longrightarrow> unlink_free d f m a = m a" by (simp add: e)
  assume x: "x \<in> N"
  have at: "prev_free_at d (unlink_free d f m) x = prev_free_at d m x"
    using same [OF x] by (rule prev_free_at_cong)
  show "lh_next (links d (unlink_free d f m)) x = lh_next (list_del f (links d m)) x \<and>
        lh_prev (links d (unlink_free d f m)) x = lh_prev (list_del f (links d m)) x"
    unfolding list_del_def list_del_between_def links_def
    using c(3,4) [OF x nN] c(3) [OF pN x] at prev_def [symmetric] nx_def [symmetric]
    by (simp add: e nxt_free_def)
qed

section \<open>Tiling\<close>

fun tiled :: "bool \<Rightarrow> cells \<Rightarrow> ptr \<Rightarrow> ptr list \<Rightarrow> ptr \<Rightarrow> bool" where
  "tiled d m a [] b \<longleftrightarrow> a = b"
| "tiled d m a (f # fs) b \<longleftrightarrow> f = a \<and> tiled d m (FRAG_NEXT d m f) fs b"

lemma FRAG_NEXT_extent: "FRAG_NEXT d m f = f + FRAG_OVERHEAD d + m f"
  by (simp add: FRAG_NEXT_def FRAG_OVERHEAD_def)

lemma overhead_pos [simp]: "0 < FRAG_OVERHEAD d"
  by (simp add: qm_layout)

lemma overhead_nonzero [simp]: "FRAG_OVERHEAD d \<noteq> 0"
  by (simp add: qm_layout)

lemma tiled_append: "tiled d m a (us @ f # vs) b \<longleftrightarrow> tiled d m a us f \<and> tiled d m f (f # vs) b"
  by (induction us arbitrary: a) auto

lemma tiled_cong: "\<forall>f \<in> set fs. m' f = m f \<Longrightarrow> tiled d m' a fs b = tiled d m a fs b"
  by (induction fs arbitrary: a) (auto simp: FRAG_NEXT_def)

lemma tiled_bounds: "tiled d m a fs b \<Longrightarrow> f \<in> set fs \<Longrightarrow> a \<le> f \<and> FRAG_NEXT d m f \<le> b"
proof (induction fs arbitrary: a f)
  case (Cons g fs)
  have t: "tiled d m (FRAG_NEXT d m g) fs b" and ga: "g = a" using Cons.prems by auto
  have "FRAG_NEXT d m g \<le> b"
  proof (cases fs)
    case (Cons y ys)
    have "y \<le> FRAG_NEXT d m y" by (simp add: FRAG_NEXT_extent)
    also have "\<dots> \<le> b" using Cons.IH [OF t, of y] Cons by simp
    finally show ?thesis using t Cons by simp
  qed (use t in simp)
  moreover have "g \<le> FRAG_NEXT d m g" by (simp add: FRAG_NEXT_extent)
  ultimately show ?case using Cons.IH [OF t] Cons.prems(2) ga by fastforce
qed simp

lemma tiled_spaced: "tiled d m a fs b \<Longrightarrow> spaced d m (set fs)"
proof (induction fs arbitrary: a)
  case (Cons g fs)
  then have "\<forall>y \<in> set fs. FRAG_NEXT d m g \<le> y" using tiled_bounds by fastforce
  then show ?case using Cons by (fastforce simp: spaced_def FRAG_NEXT_extent)
qed (simp add: spaced_def)

lemma tiled_distinct: "tiled d m a fs b \<Longrightarrow> distinct fs"
proof (induction fs arbitrary: a)
  case (Cons g fs)
  then have "\<forall>y \<in> set fs. FRAG_NEXT d m g \<le> y" using tiled_bounds by fastforce
  moreover have "g < FRAG_NEXT d m g" using overhead_pos [of d] unfolding FRAG_NEXT_extent by linarith
  ultimately have "g \<notin> set fs" by fastforce
  then show ?case using Cons by auto
qed simp

text \<open>The size of the tiled part.\<close>

lemma tiled_length: "tiled d m a fs b \<Longrightarrow> b = a + FRAG_OVERHEAD d * length fs + sum_list (map m fs)"
proof (induction fs arbitrary: a)
  case (Cons g fs)
  then have "b = FRAG_NEXT d m g + FRAG_OVERHEAD d * length fs + sum_list (map m fs)" by auto
  then show ?case using Cons.prems by (simp add: FRAG_NEXT_extent)
qed simp

text \<open>The walk of \<open>qm_status\<close> visits the tiling.\<close>

lemma frags_from_tiled:
  "tiled d m a fs (e + sizeof_frag_end d) \<Longrightarrow> frags_from d m e a = fs"
proof (induction fs arbitrary: a)
  case Nil
  then show ?case by (simp add: frags_from.simps)
next
  case (Cons g fs)
  then have "FRAG_NEXT d m g \<le> e + sizeof_frag_end d" using tiled_bounds by fastforce
  then have "g < e" by (simp add: FRAG_NEXT_def sizeof_frag_def split: if_splits)
  then show ?case using Cons.prems Cons.IH [of "FRAG_NEXT d m g"] by (subst frags_from.simps) auto
qed

section \<open>The shape of the pool\<close>

definition frag_ok :: "bool \<Rightarrow> cells \<Rightarrow> ptr \<Rightarrow> bool" where
  "frag_ok d m f \<longleftrightarrow> ROUNDTO d dvd m f \<and> m (end_size_at d m f) = m f \<and>
     (d \<longrightarrow> m (f + 20) = ST_CHECK_PATTERN \<and> m (FRAG_END d m f) = END_CHECK_PATTERN1 \<and>
            m (FRAG_END d m f + 4) = END_CHECK_PATTERN2)"

definition heads :: "bool \<Rightarrow> ptr \<Rightarrow> ptr set" where
  "heads d fh = free_head d fh ` {..<QM_HASH_SIZE d}"

definition free_set :: "bool \<Rightarrow> (nat \<Rightarrow> ptr list) \<Rightarrow> ptr set" where
  "free_set d L = (\<Union>h < QM_HASH_SIZE d. set (L h))"

text \<open>The list at size class \<open>h\<close> holds the entries \<open>xs\<close>.\<close>

definition bucket_ok :: "bool \<Rightarrow> ptr \<Rightarrow> cells \<Rightarrow> ptr set \<Rightarrow> nat \<Rightarrow> ptr list \<Rightarrow> bool" where
  "bucket_ok d fh m F h xs \<longleftrightarrow>
     ring (links d m) (free_head d fh h) xs \<and> sorted (map m xs) \<and>
     (\<forall>f \<in> set xs. f \<in> F \<and> GET_HASH d (m f) = Some h)"

text \<open>
  The pool between \<open>a\<close> and \<open>b\<close> is tiled by the fragments \<open>fs\<close>, the list heads lie before it, and
  \<open>L\<close> gives the contents of the free lists.
\<close>

definition shape :: "bool \<Rightarrow> ptr \<Rightarrow> ptr \<Rightarrow> ptr \<Rightarrow> cells \<Rightarrow> ptr list \<Rightarrow> (nat \<Rightarrow> ptr list) \<Rightarrow> bool" where
  "shape d fh a b m fs L \<longleftrightarrow>
     0 < fh \<and> fh + FRAG_OVERHEAD d * QM_HASH_SIZE d \<le> a \<and> b \<le> 2 ^ 32 \<and> ROUNDTO d dvd a \<and>
     tiled d m a fs b \<and> (\<forall>f \<in> set fs. frag_ok d m f) \<and>
     (\<forall>x \<in> heads d fh. m x = 0) \<and> (\<forall>h < QM_HASH_SIZE d. bucket_ok d fh m (set fs) h (L h))"

lemma heads_spaced: "\<forall>x \<in> heads d fh. m x = 0 \<Longrightarrow> spaced d m (heads d fh)"
proof -
  assume z: "\<forall>x \<in> heads d fh. m x = 0"
  have "free_head d fh i + FRAG_OVERHEAD d \<le> free_head d fh j" if "free_head d fh i < free_head d fh j" for i j
  proof -
    have "Suc i \<le> j" using that by (simp add: free_head_def)
    then have "FRAG_OVERHEAD d * Suc i \<le> FRAG_OVERHEAD d * j" by (rule mult_le_mono2)
    then show ?thesis by (simp add: free_head_def)
  qed
  then show ?thesis using z by (auto simp: spaced_def heads_def)
qed

lemma head_below: "h < QM_HASH_SIZE d \<Longrightarrow> free_head d fh h + FRAG_OVERHEAD d \<le> fh + FRAG_OVERHEAD d * QM_HASH_SIZE d"
proof -
  assume "h < QM_HASH_SIZE d"
  then have "FRAG_OVERHEAD d * Suc h \<le> FRAG_OVERHEAD d * QM_HASH_SIZE d" by (intro mult_le_mono2) simp
  then show ?thesis by (simp add: free_head_def)
qed

lemma shape_spaced:
  assumes "shape d fh a b m fs L"
  shows "spaced d m (heads d fh \<union> set fs)"
proof -
  have f: "a \<le> f" if "f \<in> set fs" for f using assms that tiled_bounds unfolding shape_def by blast
  have h: "x + FRAG_OVERHEAD d + m x \<le> a" if "x \<in> heads d fh" for x
    using that assms head_below [of _ d fh] by (fastforce simp: shape_def heads_def)
  have lt: "x < y" if "x \<in> heads d fh" "y \<in> set fs" for x y
    using f [OF that(2)] h [OF that(1)] overhead_pos [of d] by linarith
  have "spaced d m (heads d fh)" "spaced d m (set fs)"
    using assms heads_spaced tiled_spaced unfolding shape_def by blast+
  moreover have "x + FRAG_OVERHEAD d + m x \<le> y" if "x \<in> heads d fh" "y \<in> set fs" for x y
    using f [OF that(2)] h [OF that(1)] by linarith
  moreover have "\<not> y < x" if "x \<in> heads d fh" "y \<in> set fs" for x y using lt [OF that] by simp
  ultimately show ?thesis unfolding spaced_def by blast
qed

lemma shape_heads_frags:
  assumes "shape d fh a b m fs L" and "x \<in> heads d fh" and "y \<in> set fs"
  shows "x < y"
proof -
  have "a \<le> y" using assms tiled_bounds unfolding shape_def by blast
  moreover have "x + FRAG_OVERHEAD d \<le> a"
    using assms(1,2) head_below [of _ d fh] by (fastforce simp: shape_def heads_def)
  ultimately show ?thesis using overhead_pos [of d] by linarith
qed

lemma bucket_ring_nodes:
  assumes "shape d fh a b m fs L" and "h < QM_HASH_SIZE d"
  shows "set (free_head d fh h # L h) \<subseteq> heads d fh \<union> set fs"
  using assms by (auto simp: shape_def bucket_ok_def heads_def)

lemma free_head_eq [simp]: "free_head d fh i = free_head d fh j \<longleftrightarrow> i = j"
  by (simp add: free_head_def)

text \<open>Two lists have no entry in common.\<close>

lemma buckets_disjoint:
  assumes "shape d fh a b m fs L" and "h < QM_HASH_SIZE d" and "k < QM_HASH_SIZE d" and "h \<noteq> k"
  shows "set (free_head d fh h # L h) \<inter> set (free_head d fh k # L k) = {}"
proof -
  have b: "bucket_ok d fh m (set fs) h (L h)" "bucket_ok d fh m (set fs) k (L k)"
    using assms by (auto simp: shape_def)
  have "free_head d fh h \<notin> set (L k)" "free_head d fh k \<notin> set (L h)"
    using b assms shape_heads_frags [OF assms(1)] by (fastforce simp: bucket_ok_def heads_def)+
  then show ?thesis using b assms(4) by (auto simp: bucket_ok_def)
qed

text \<open>A ring depends on the cells of its members only.\<close>

lemma links_cong:
  assumes "\<forall>c \<in> frag_cells d m x. m' c = m c"
  shows "m' x = m x" and "lh_next (links d m') x = lh_next (links d m) x"
    and "lh_prev (links d m') x = lh_prev (links d m) x"
proof -
  show "m' x = m x" using assms by (simp add: frag_cells_def)
  then have "prev_free_at d m' x = prev_free_at d m x" by (rule prev_free_at_cong)
  then show "lh_next (links d m') x = lh_next (links d m) x"
    and "lh_prev (links d m') x = lh_prev (links d m) x"
    using assms by (simp_all add: frag_cells_def links_def nxt_free_def)
qed

lemma frag_ok_cong:
  assumes "\<forall>c \<in> frag_cells d m x. m' c = m c" and "frag_ok d m x"
  shows "frag_ok d m' x"
  using assms links_cong(1) [OF assms(1)]
  by (auto simp: frag_ok_def frag_cells_def end_size_at_def FRAG_END_def)

lemma bucket_ok_cong:
  assumes "bucket_ok d fh m F h xs" and "\<forall>x \<in> set xs. m' x = m x"
    and "\<And>x. x \<in> set (free_head d fh h # xs) \<Longrightarrow>
           lh_next (links d m') x = lh_next (links d m) x \<and> lh_prev (links d m') x = lh_prev (links d m) x"
    and "set xs \<inter> F \<subseteq> F'"
  shows "bucket_ok d fh m' F' h xs"
proof -
  have "map m' xs = map m xs" using assms(2) by simp
  then have "sorted (map m' xs)" using assms(1) by (simp only: bucket_ok_def)
  moreover have "ring (links d m') (free_head d fh h) xs"
    using assms(1,3) unfolding bucket_ok_def by (blast intro: ring_frame)
  ultimately show ?thesis using assms(1,2,4) unfolding bucket_ok_def by auto
qed

lemma shape_frame:
  assumes "shape d fh a b m fs L" and "\<forall>x \<in> heads d fh \<union> set fs. \<forall>c \<in> frag_cells d m x. m' c = m c"
  shows "shape d fh a b m' fs L"
proof -
  have same: "m' x = m x" if "x \<in> heads d fh \<union> set fs" for x using that assms(2) links_cong(1) by blast
  have link: "lh_next (links d m') x = lh_next (links d m) x \<and> lh_prev (links d m') x = lh_prev (links d m) x"
    if "x \<in> heads d fh \<union> set fs" for x using that assms(2) links_cong(2,3) by blast
  have "bucket_ok d fh m' (set fs) h (L h)" if "h < QM_HASH_SIZE d" for h
  proof (rule bucket_ok_cong [of d fh m "set fs"])
    show "bucket_ok d fh m (set fs) h (L h)" using assms(1) that by (simp add: shape_def)
    show "\<forall>x \<in> set (L h). m' x = m x"
      using bucket_ring_nodes [OF assms(1) that] same by auto
  qed (use bucket_ring_nodes [OF assms(1) that] link in blast)+
  moreover have "tiled d m' a fs b" using assms(1) same tiled_cong [of fs m' m] by (simp add: shape_def)
  moreover have "\<forall>f \<in> set fs. frag_ok d m' f" using assms frag_ok_cong unfolding shape_def by blast
  ultimately show ?thesis using assms(1) same by (simp add: shape_def)
qed

section \<open>Scanning a list\<close>

lemma insert_scan_seg:
  assumes "seg (links d m) p xs head" and "head \<notin> set xs"
  shows "insert_scan m frag head (nxt_free m p) = Some (hd (dropWhile (\<lambda>x. m x < m frag) xs @ [head]))"
  using assms
proof (induction xs arbitrary: p)
  case Nil
  then show ?case by (subst insert_scan.simps) (simp add: links_def)
next
  case (Cons x xs)
  then have "nxt_free m p = x" by (simp add: links_def)
  then show ?case using Cons by (subst insert_scan.simps) (auto simp: links_def)
qed

lemma scan_bucket_seg:
  assumes "seg (links d m) p xs head" and "head \<notin> set xs"
  shows "scan_bucket m want head (nxt_free m p) = Some (hd (dropWhile (\<lambda>x. m x < want) xs @ [NULL]))"
  using assms
proof (induction xs arbitrary: p)
  case Nil
  then show ?case by (subst scan_bucket.simps) (simp add: links_def)
next
  case (Cons x xs)
  then have "nxt_free m p = x" by (simp add: links_def)
  then show ?case using Cons by (subst scan_bucket.simps) (auto simp: links_def)
qed

lemma count_bucket_seg:
  assumes "seg (links d m) p xs head" and "head \<notin> set xs"
  shows "count_bucket m head (nxt_free m p) = Some (length xs)"
  using assms
proof (induction xs arbitrary: p)
  case Nil
  then show ?case by (subst count_bucket.simps) (simp add: links_def)
next
  case (Cons x xs)
  then have "nxt_free m p = x" by (simp add: links_def)
  then show ?case using Cons by (subst count_bucket.simps) (auto simp: links_def)
qed

lemma bucket_ring:
  assumes "shape d fh a b m fs L" and "h < QM_HASH_SIZE d"
  shows "ring (links d m) (free_head d fh h) (L h)" and "sorted (map m (L h))"
    and "seg (links d m) (free_head d fh h) (L h) (free_head d fh h)"
    and "free_head d fh h \<notin> set (L h)" and "NULL \<notin> set (L h)"
  using assms by (auto simp: shape_def bucket_ok_def ring_def)

lemma seg_nodes:
  assumes "seg s p xs t"
  shows "x \<in> set (p # xs) \<Longrightarrow> lh_next s x \<in> set (xs @ [t])"
    and "x \<in> set (xs @ [t]) \<Longrightarrow> lh_prev s x \<in> set (p # xs)"
  using assms by (induction xs arbitrary: p) auto

lemma ring_next_pos: "ring s head xs \<Longrightarrow> x \<in> set (head # xs) \<Longrightarrow> lh_next s x \<noteq> NULL"
  unfolding ring_def by (metis Un_iff empty_iff list.set(1,2) insert_iff seg_nodes(1) set_append)

lemma ring_insert:
  assumes "ring s head (xs @ ys)" and "e \<notin> set (head # xs @ ys)" and "e \<noteq> NULL"
  shows "ring (list_add_between e (last (head # xs)) (hd (ys @ [head])) s) head (xs @ e # ys)"
  using assms seg_insert [of s head xs ys head e] unfolding ring_def by auto

lemma hd_snoc_in: "hd (ys @ [t]) \<in> set (t # ys)"
  by (cases ys) auto

lemma free_marked:
  assumes "shape d fh a b m fs L" and "f \<in> free_set d L"
  shows "nxt_free m f \<noteq> 0"
proof -
  obtain h where h: "h < QM_HASH_SIZE d" "f \<in> set (L h)" using assms(2) by (auto simp: free_set_def)
  then show ?thesis using ring_next_pos [OF bucket_ring(1) [OF assms(1) h(1)], of f] by (simp add: links_def)
qed

lemma free_set_frags: "shape d fh a b m fs L \<Longrightarrow> free_set d L \<subseteq> set fs"
  by (auto simp: shape_def bucket_ok_def free_set_def)

lemma frag_pos: "shape d fh a b m fs L \<Longrightarrow> f \<in> set fs \<Longrightarrow> 0 < f"
  using tiled_bounds [of d m a fs b f] by (auto simp: shape_def)

lemma frag_size_bound: "shape d fh a b m fs L \<Longrightarrow> f \<in> set fs \<Longrightarrow> m f < 2 ^ 32"
  using tiled_bounds [of d m a fs b f] overhead_pos [of d]
  by (fastforce simp: shape_def FRAG_NEXT_extent)

section \<open>Linking and unlinking\<close>

text \<open>What lies outside the link cells of the heads and of the free fragments.\<close>

definition link_area :: "bool \<Rightarrow> cells \<Rightarrow> ptr set \<Rightarrow> ptr set" where
  "link_area d m N = (\<lambda>x. x + 4) ` N \<union> prev_free_at d m ` N"

lemma link_area_mono: "N \<subseteq> N' \<Longrightarrow> link_area d m N \<subseteq> link_area d m N'"
  by (auto simp: link_area_def)

lemma link_area_size:
  assumes "spaced d m N" and "x \<in> N" shows "x \<notin> link_area d m N"
  using assms link_cells by (fastforce simp: link_area_def)

lemma link_area_frag_ok:
  assumes "spaced d m N" and "x \<in> N" and "\<And>c. c \<notin> link_area d m N \<Longrightarrow> m' c = m c" and "frag_ok d m x"
  shows "frag_ok d m' x"
proof -
  have out: "c \<notin> link_area d m N" if c: "c \<in> frag_cells d m x - {x + 4, prev_free_at d m x}" for c
  proof
    assume "c \<in> link_area d m N"
    then obtain y where y: "y \<in> N" "c \<in> {y + 4, prev_free_at d m y}" by (auto simp: link_area_def)
    then have "c \<in> frag_cells d m y" by (auto simp: frag_cells_def)
    then have "y = x" using extents_disjoint [OF assms(1,2) y(1)] frag_cells_extent c by blast
    then show False using c y by blast
  qed
  have "m' x = m x" using assms(1-3) link_area_size by blast
  moreover have "end_size_at d m x \<in> frag_cells d m x - {x + 4, prev_free_at d m x}"
    by (auto simp: frag_cells_def qm_layout)
  moreover have "d \<Longrightarrow> {x + 20, FRAG_END d m x, FRAG_END d m x + 4} \<subseteq> frag_cells d m x - {x + 4, prev_free_at d m x}"
    by (auto simp: frag_cells_def qm_layout)
  ultimately show ?thesis
    using assms(3,4) out by (auto simp: frag_ok_def end_size_at_def FRAG_END_def)
qed

text \<open>A change of the links that replaces the list of one size class and keeps the others.\<close>

lemma shape_relink:
  assumes sh: "shape d fh a b m fs L" and h: "h < QM_HASH_SIZE d"
    and frame: "\<And>c. c \<notin> link_area d m (heads d fh \<union> set fs) \<Longrightarrow> m' c = m c"
    and others: "\<And>k x. k < QM_HASH_SIZE d \<Longrightarrow> k \<noteq> h \<Longrightarrow> x \<in> set (free_head d fh k # L k) \<Longrightarrow>
      lh_next (links d m') x = lh_next (links d m) x \<and> lh_prev (links d m') x = lh_prev (links d m) x"
    and new: "ring (links d m') (free_head d fh h) xs" "sorted (map m xs)"
      "\<forall>f \<in> set xs. f \<in> set fs \<and> GET_HASH d (m f) = Some h"
  shows "shape d fh a b m' fs (L(h := xs))"
proof -
  let ?N = "heads d fh \<union> set fs"
  have sp: "spaced d m ?N" by (rule shape_spaced [OF sh])
  have same: "m' x = m x" if "x \<in> ?N" for x using frame link_area_size [OF sp that] by blast
  have "bucket_ok d fh m' (set fs) k ((L(h := xs)) k)" if "k < QM_HASH_SIZE d" for k
  proof (cases "k = h")
    case True
    have eq: "map m' xs = map m xs" using new(3) same by auto
    then have "sorted (map m' xs)" using new(2) by metis
    then show ?thesis using True new same unfolding bucket_ok_def by auto
  next
    case False
    have "bucket_ok d fh m' (set fs) k (L k)"
    proof (rule bucket_ok_cong [of d fh m "set fs"])
      show "bucket_ok d fh m (set fs) k (L k)" using sh that by (simp add: shape_def)
      show "\<forall>x \<in> set (L k). m' x = m x" using bucket_ring_nodes [OF sh that] same by auto
    qed (use others [OF that False] in blast)+
    then show ?thesis using False by simp
  qed
  moreover have "tiled d m' a fs b" using sh same tiled_cong [of fs m' m] by (simp add: shape_def)
  moreover have "\<forall>f \<in> set fs. frag_ok d m' f"
    using sh link_area_frag_ok [OF sp _ frame] by (auto simp: shape_def)
  ultimately show ?thesis using sh same by (simp add: shape_def)
qed

lemma insert_shape:
  assumes sh: "shape d (qm_free_hash q) a b (qm_mem q) fs L" and f: "f \<in> set fs" "f \<notin> free_set d L"
  obtains h xs ys m' where "GET_HASH d (qm_mem q f) = Some h" and "h < QM_HASH_SIZE d"
    and "L h = xs @ ys" and "qm_insert_free d f q = Some (q\<lparr>qm_mem := m'\<rparr>)"
    and "shape d (qm_free_hash q) a b m' fs (L(h := xs @ f # ys))"
    and "\<And>c. c \<notin> link_area d (qm_mem q) (heads d (qm_free_hash q) \<union> insert f (free_set d L)) \<Longrightarrow> m' c = qm_mem q c"
proof -
  let ?m = "qm_mem q" and ?fh = "qm_free_hash q"
  let ?N = "heads d ?fh \<union> set fs"
  have sp: "spaced d ?m ?N" by (rule shape_spaced [OF sh])
  obtain h where h: "GET_HASH d (?m f) = Some h" "h < QM_HASH_SIZE d"
    using GET_HASH_bound [OF frag_size_bound [OF sh f(1)]] .
  let ?hd = "free_head d ?fh h"
  let ?xs = "takeWhile (\<lambda>x. ?m x < ?m f) (L h)" and ?ys = "dropWhile (\<lambda>x. ?m x < ?m f) (L h)"
  let ?at = "hd (?ys @ [?hd])" and ?prev = "last (?hd # ?xs)"
  note r = bucket_ring [OF sh h(2)]
  have seg: "seg (links d ?m) ?hd (?xs @ ?ys) ?hd" using r(3) by simp
  have scan: "insert_scan ?m f ?hd (nxt_free ?m ?hd) = Some ?at" by (rule insert_scan_seg [OF r(3,4)])
  have prev: "?m (prev_free_at d ?m ?at) = ?prev"
    using seg_mid(1) [OF seg] by (simp add: links_def)
  have ring_free: "set (L h) \<subseteq> free_set d L" using h(2) by (auto simp: free_set_def)
  have fh: "f \<notin> set (?hd # L h)"
    using f ring_free shape_heads_frags [OF sh _ f(1), of ?hd] h(2) by (auto simp: heads_def)
  have at: "?at \<in> set (?hd # L h)"
    using hd_snoc_in [of ?ys ?hd] set_dropWhileD [of _ "\<lambda>x. ?m x < ?m f" "L h"] by (metis set_ConsD list.set_intros)
  have pr: "?prev \<in> set (?hd # L h)"
    using last_in_set [of "?hd # ?xs"] set_takeWhileD [of _ "\<lambda>x. ?m x < ?m f" "L h"] by (auto split: if_splits)
  have nodes: "set (?hd # L h) \<subseteq> ?N" by (rule bucket_ring_nodes [OF sh h(2)])
  define m' where "m' = link_free d f ?at ?m"
  have pre: "spaced d ?m ?N" "f \<in> ?N" "?at \<in> ?N" "?m (prev_free_at d ?m ?at) \<in> ?N" "f \<noteq> ?at"
    "f \<noteq> ?m (prev_free_at d ?m ?at)"
    unfolding prev using sp f(1) nodes at pr fh by (blast, blast, blast, blast, metis, metis)
  note l = link_free_links [OF pre, unfolded prev, folded m'_def]
  have frame: "m' c = ?m c" if "c \<notin> link_area d ?m (heads d ?fh \<union> insert f (free_set d L))" for c
    by (rule l(3)) (use that at pr ring_free h(2) in \<open>auto simp: link_area_def heads_def\<close>)
  have sub: "heads d ?fh \<union> insert f (free_set d L) \<subseteq> ?N" using f(1) free_set_frags [OF sh] by blast
  have "ring (list_add_between f ?prev ?at (links d ?m)) ?hd (?xs @ f # ?ys)"
    by (rule ring_insert) (use r(1) fh frag_pos [OF sh f(1)] in auto)
  then have ring: "ring (links d m') ?hd (?xs @ f # ?ys)"
    by (rule ring_frame) (use l(2) f(1) nodes in \<open>auto dest!: set_takeWhileD set_dropWhileD\<close>)
  have "shape d ?fh a b m' fs (L(h := ?xs @ f # ?ys))"
  proof (rule shape_relink [OF sh h(2)])
    show "m' c = ?m c" if "c \<notin> link_area d ?m ?N" for c
      by (rule frame) (use that link_area_mono [OF sub] in blast)
    show "lh_next (links d m') x = lh_next (links d ?m) x \<and> lh_prev (links d m') x = lh_prev (links d ?m) x"
      if "k < QM_HASH_SIZE d" "k \<noteq> h" "x \<in> set (free_head d ?fh k # L k)" for k x
    proof -
      have "x \<notin> set (?hd # L h)" using buckets_disjoint [OF sh that(1) h(2) that(2)] that(3) by blast
      moreover have "x \<noteq> f"
        using that f shape_heads_frags [OF sh _ f(1)] by (auto simp: free_set_def heads_def)
      moreover have "x \<in> ?N" using bucket_ring_nodes [OF sh that(1)] that(3) by blast
      ultimately show ?thesis using l(2) [of x] at pr by (auto simp: list_add_between_def)
    qed
    show "sorted (map ?m (?xs @ f # ?ys))" by (rule sorted_insert_at [OF r(2)])
    show "\<forall>g \<in> set (?xs @ f # ?ys). g \<in> set fs \<and> GET_HASH d (?m g) = Some h"
      using sh h f(1) by (auto simp: shape_def bucket_ok_def dest!: set_takeWhileD set_dropWhileD)
  qed (fact ring)
  moreover have "qm_insert_free d f q = Some (q\<lparr>qm_mem := m'\<rparr>)"
    using h scan by (simp add: qm_insert_free_def m'_def Let_def)
  ultimately show ?thesis using that [OF h, of ?xs ?ys m'] frame by simp
qed

lemma detach_shape:
  assumes sh: "shape d fh a b m fs L" and h: "h < QM_HASH_SIZE d" and L: "L h = xs @ f # ys"
  shows "shape d fh a b (unlink_free d f m) fs (L(h := xs @ ys))"
    and "\<And>c. c \<notin> link_area d m (heads d fh \<union> (free_set d L - {f})) \<Longrightarrow> unlink_free d f m c = m c"
proof -
  let ?N = "heads d fh \<union> set fs" and ?hd = "free_head d fh h"
  let ?prev = "last (?hd # xs)" and ?nxt = "hd (ys @ [?hd])"
  have sp: "spaced d m ?N" by (rule shape_spaced [OF sh])
  note r = bucket_ring [OF sh h]
  have ring: "ring (links d m) ?hd (xs @ f # ys)" using r(1) L by simp
  have nodes: "set (?hd # L h) \<subseteq> ?N" by (rule bucket_ring_nodes [OF sh h])
  have prev: "m (prev_free_at d m f) = ?prev" and nxt: "nxt_free m f = ?nxt"
    using ring_entry [OF ring] by (simp_all add: links_def)
  have fhd: "f \<noteq> ?hd" "f \<notin> set (xs @ ys)" using ring by (auto simp: ring_def)
  have pr: "?prev \<in> set (?hd # xs @ ys)" and nx: "?nxt \<in> set (?hd # xs @ ys)"
    using last_in_set [of "?hd # xs"] hd_snoc_in [of ys ?hd] by auto
  have rest: "set (?hd # xs @ ys) \<subseteq> heads d fh \<union> (free_set d L - {f})"
  proof -
    have "set (L h) \<subseteq> free_set d L" "?hd \<in> heads d fh" using h by (auto simp: free_set_def heads_def)
    then show ?thesis using fhd(2) unfolding L by auto
  qed
  have N: "f \<in> ?N" "nxt_free m f \<in> ?N" "m (prev_free_at d m f) \<in> ?N"
    unfolding prev nxt using nodes pr nx L by auto
  note l = unlink_free_links [OF sp N]
  show frame: "unlink_free d f m c = m c" if "c \<notin> link_area d m (heads d fh \<union> (free_set d L - {f}))" for c
    by (rule l(3)) (use that pr nx rest in \<open>unfold prev nxt link_area_def, blast\<close>)
  have sub: "heads d fh \<union> (free_set d L - {f}) \<subseteq> ?N" using free_set_frags [OF sh] by blast
  show "shape d fh a b (unlink_free d f m) fs (L(h := xs @ ys))"
  proof (rule shape_relink [OF sh h])
    show "unlink_free d f m c = m c" if "c \<notin> link_area d m ?N" for c
      by (rule frame) (use that link_area_mono [OF sub] in blast)
    show "lh_next (links d (unlink_free d f m)) x = lh_next (links d m) x \<and>
        lh_prev (links d (unlink_free d f m)) x = lh_prev (links d m) x"
      if "k < QM_HASH_SIZE d" "k \<noteq> h" "x \<in> set (free_head d fh k # L k)" for k x
    proof -
      have "x \<notin> set (?hd # L h)" using buckets_disjoint [OF sh that(1) h that(2)] that(3) by blast
      then have "x \<noteq> ?prev" "x \<noteq> ?nxt" using pr nx L by auto
      moreover have "x \<in> ?N" using bucket_ring_nodes [OF sh that(1)] that(3) by blast
      ultimately show ?thesis
        using l(2) [of x] ring_entry [OF ring] by (simp add: list_del_def list_del_between_def)
    qed
    show "ring (links d (unlink_free d f m)) ?hd (xs @ ys)"
      by (rule ring_frame [OF ring_del [OF ring]]) (use l(2) nodes L in auto)
    show "sorted (map m (xs @ ys))" using r(2) L by (auto simp: sorted_append)
    show "\<forall>g \<in> set (xs @ ys). g \<in> set fs \<and> GET_HASH d (m g) = Some h"
      using sh h L by (auto simp: shape_def bucket_ok_def)
  qed
qed

end
