(* ===== verification/Qm_Invariant.thy ===== *)
theory Qm_Invariant
  imports Qm_Heap
begin

text \<open>
  Splitting, searching and taking a fragment of the pool of mem/q\_malloc.c, and the invariant
  \<open>qm_inv\<close> of the allocator: the shape of the pool (Qm\_Heap), the marks of allocated fragments
  and the counters of the block. The search of \<open>qm_find_free\<close> gives the smallest free fragment
  that is big enough; what is changed by taking a fragment lies outside every allocated one.
\<close>

section \<open>Splitting\<close>

text \<open>A fragment of size \<open>want + FRAG_OVERHEAD + r\<close> is split into one of size \<open>want\<close> and one of size \<open>r\<close>.\<close>

lemma split_cells_plain:
  "split_cells False loc f want (16 + r) m =
     (f + 16 + want, m(f := want, f + 8 + want := want, f + 16 + want := r, f + 24 + want + r := r))"
  by (simp add: split_cells_def Let_def qm_layout add_ac)

lemma split_cells_dbg:
  "split_cells True loc f want (48 + r) m =
     (f + 48 + want, m(f := want, f + 40 + want := want, f + 48 + want := r,
        f + 88 + want + r := r,
        f + 24 + want := END_CHECK_PATTERN1, f + 28 + want := END_CHECK_PATTERN2,
        f + 56 + want := dl_file loc, f + 60 + want := dl_split loc, f + 64 + want := dl_line loc,
        f + 68 + want := ST_CHECK_PATTERN))"
  by (simp add: split_cells_def Let_def qm_layout add_ac)

lemma split_cells_eqs:
  fixes loc :: dbg_loc
  assumes "m f = want + FRAG_OVERHEAD d + r"
  defines "n \<equiv> f + FRAG_OVERHEAD d + want" and "m' \<equiv> snd (split_cells d loc f want (FRAG_OVERHEAD d + r) m)"
  shows "fst (split_cells d loc f want (FRAG_OVERHEAD d + r) m) = n"
    and "m' f = want" and "m' n = r" and "m' (f + 4) = m (f + 4)"
  unfolding m'_def n_def
  by (cases d; simp add: split_cells_plain split_cells_dbg qm_layout)+

lemma split_cells_outside:
  assumes "m f = want + FRAG_OVERHEAD d + r" and "c \<notin> extent d m f"
  shows "snd (split_cells d loc f want (FRAG_OVERHEAD d + r) m) c = m c"
proof (cases d)
  case True
  then have "c < f \<or> f + 96 + want + r \<le> c" using assms by (auto simp: extent_def qm_layout)
  then show ?thesis using True by (elim disjE) (simp_all add: split_cells_dbg qm_layout)
next
  case False
  then have "c < f \<or> f + 32 + want + r \<le> c" using assms by (auto simp: extent_def qm_layout)
  then show ?thesis using False by (elim disjE) (simp_all add: split_cells_plain qm_layout)
qed

lemma split_frag_ok:
  assumes "m f = want + FRAG_OVERHEAD d + r" and "frag_ok d m f" and "ROUNDTO d dvd want"
  shows "frag_ok d (snd (split_cells d loc f want (FRAG_OVERHEAD d + r) m)) f"
    and "frag_ok d (snd (split_cells d loc f want (FRAG_OVERHEAD d + r) m)) (f + FRAG_OVERHEAD d + want)"
proof -
  have R: "ROUNDTO d dvd FRAG_OVERHEAD d" by (simp add: ROUNDTO_def qm_layout)
  have "ROUNDTO d dvd want + FRAG_OVERHEAD d + r" using assms(1,2) by (simp add: frag_ok_def)
  then have r: "ROUNDTO d dvd r" using R assms(3) by (metis dvd_add dvd_add_right_iff)
  show "frag_ok d (snd (split_cells d loc f want (FRAG_OVERHEAD d + r) m)) f"
    using assms
    by (cases d; simp add: frag_ok_def split_cells_plain split_cells_dbg qm_layout ROUNDTO_def)
  show "frag_ok d (snd (split_cells d loc f want (FRAG_OVERHEAD d + r) m)) (f + FRAG_OVERHEAD d + want)"
    using assms r
    by (cases d) (simp_all add: frag_ok_def split_cells_plain split_cells_dbg qm_layout ROUNDTO_def,
        simp_all add: add_ac)
qed

lemma shapeD:
  assumes "shape d fh a b m fs L"
  shows "tiled d m a fs b" and "f \<in> set fs \<Longrightarrow> frag_ok d m f" and "x \<in> heads d fh \<Longrightarrow> m x = 0"
    and "h < QM_HASH_SIZE d \<Longrightarrow> bucket_ok d fh m (set fs) h (L h)"
    and "0 < fh" and "fh + FRAG_OVERHEAD d * QM_HASH_SIZE d \<le> a" and "b \<le> 2 ^ 32"
  using assms by (simp_all add: shape_def)

lemma spacedD: "spaced d m N \<Longrightarrow> x \<in> N \<Longrightarrow> y \<in> N \<Longrightarrow> x < y \<Longrightarrow> x + FRAG_OVERHEAD d + m x \<le> y"
  by (simp add: spaced_def)

lemma split_shape:
  fixes loc :: dbg_loc
  assumes sh: "shape d fh a b m (us @ f # vs) L" and f: "f \<notin> free_set d L"
    and sz: "m f = want + FRAG_OVERHEAD d + r" and dvd: "ROUNDTO d dvd want"
  defines "n \<equiv> f + FRAG_OVERHEAD d + want" and "m' \<equiv> snd (split_cells d loc f want (FRAG_OVERHEAD d + r) m)"
  shows "shape d fh a b m' (us @ f # n # vs) L" and "n \<notin> set (us @ f # vs)"
proof -
  let ?fs = "us @ f # vs" let ?N = "heads d fh \<union> set ?fs"
  have sp: "spaced d m ?N" by (rule shape_spaced [OF sh])
  have fN: "f \<in> ?N" by simp
  have f': "m' f = want" and n': "m' n = r"
    unfolding m'_def n_def by (rule split_cells_eqs(2,3) [where m = m and f = f, OF sz])+
  have cells: "m' c = m c" if "x \<in> ?N" "x \<noteq> f" "c \<in> frag_cells d m x" for x c
    unfolding m'_def
    by (rule split_cells_outside [where m = m and f = f, OF sz])
      (use extents_disjoint [OF sp that(1) fN that(2)] frag_cells_extent that(3) in blast)
  have same: "m' x = m x" if "x \<in> ?N" "x \<noteq> f" for x
    by (rule cells [OF that]) (simp add: frag_cells_def)
  show "n \<notin> set ?fs"
  proof
    assume "n \<in> set ?fs"
    then have nN: "n \<in> ?N" by blast
    have "f < n" using overhead_pos [of d] unfolding n_def by linarith
    then have "f + FRAG_OVERHEAD d + m f \<le> n" by (rule spacedD [OF sp fN nN])
    then show False using overhead_pos [of d] unfolding n_def sz by linarith
  qed
  have "distinct ?fs" by (rule tiled_distinct [OF shapeD(1) [OF sh]])
  then have notf: "f \<notin> set us" "f \<notin> set vs" by simp_all
  have fhd: "f \<notin> heads d fh" using shape_heads_frags [OF sh, of f f] by auto
  have tiled: "tiled d m' a (us @ f # n # vs) b"
  proof -
    have t: "tiled d m a us f" "tiled d m (FRAG_NEXT d m f) vs b"
      using sh unfolding shape_def tiled_append by auto
    have "\<forall>x \<in> set us. m' x = m x" "\<forall>x \<in> set vs. m' x = m x" using same notf by auto
    then have "tiled d m' a us f" "tiled d m' (FRAG_NEXT d m f) vs b" using t tiled_cong by blast+
    moreover have "FRAG_NEXT d m' n = FRAG_NEXT d m f" "FRAG_NEXT d m' f = n"
      using f' n' sz unfolding FRAG_NEXT_extent by (simp_all add: n_def)
    ultimately show ?thesis unfolding tiled_append by simp
  qed
  have "frag_ok d m' x" if "x \<in> set (us @ f # n # vs)" for x
  proof (cases "x = f \<or> x = n")
    case True
    have "frag_ok d m f" using sh by (simp add: shape_def)
    then have "frag_ok d m' f" "frag_ok d m' n"
      unfolding m'_def n_def by (rule split_frag_ok [where m = m and f = f, OF sz _ dvd])+
    then show ?thesis using True by metis
  next
    case False
    then have x: "x \<in> ?N" "x \<noteq> f" "x \<in> set ?fs" using that by auto
    show ?thesis
      by (rule frag_ok_cong [OF _ shapeD(2) [OF sh x(3)]]) (use cells [OF x(1,2)] in blast)
  qed
  moreover have "bucket_ok d fh m' (set (us @ f # n # vs)) h (L h)" if h: "h < QM_HASH_SIZE d" for h
  proof (rule bucket_ok_cong [of d fh m "set ?fs"])
    show "bucket_ok d fh m (set ?fs) h (L h)" by (rule shapeD(4) [OF sh h])
    have nodes: "x \<in> ?N \<and> x \<noteq> f" if "x \<in> set (free_head d fh h # L h)" for x
    proof
      show "x \<in> ?N" using bucket_ring_nodes [OF sh h] that by blast
      show "x \<noteq> f" using that fhd f h by (auto simp: free_set_def heads_def)
    qed
    then show "\<forall>x \<in> set (L h). m' x = m x" using same by auto
    show "lh_next (links d m') x = lh_next (links d m) x \<and> lh_prev (links d m') x = lh_prev (links d m) x"
      if "x \<in> set (free_head d fh h # L h)" for x
      using cells nodes [OF that] links_cong(2,3) by blast
    show "set (L h) \<inter> set ?fs \<subseteq> set (us @ f # n # vs)" by auto
  qed
  moreover have "\<forall>x \<in> heads d fh. m' x = 0"
  proof
    fix x assume "x \<in> heads d fh"
    moreover from this have "m' x = m x" using fhd by (intro same) auto
    ultimately show "m' x = 0" using shapeD(3) [OF sh] by simp
  qed
  ultimately show "shape d fh a b m' (us @ f # n # vs) L" using sh tiled by (simp add: shape_def)
qed

section \<open>Marks\<close>

lemma hash_size_pos [simp]: "0 < QM_HASH_SIZE d"
  by (simp add: QM_HASH_SIZE_def)

text \<open>The word after the size of a fragment that is on no list is free to use.\<close>

lemma shape_mark:
  assumes sh: "shape d fh a b m fs L" and f: "f \<in> set fs" "f \<notin> free_set d L"
  shows "shape d fh a b (m(f + 4 := v)) fs L"
proof -
  let ?N = "heads d fh \<union> set fs" and ?m = "m(f + 4 := v)"
  have sp: "spaced d m ?N" by (rule shape_spaced [OF sh])
  have fN: "f \<in> ?N" using f by simp
  have links: "lh_next (links d ?m) x = lh_next (links d m) x \<and> lh_prev (links d ?m) x = lh_prev (links d m) x"
    if "k < QM_HASH_SIZE d" "x \<in> set (free_head d fh k # L k)" for k x
  proof -
    have x: "x \<in> ?N" using bucket_ring_nodes [OF sh that(1)] that(2) by blast
    have "x \<noteq> f" using that f shape_heads_frags [OF sh _ f(1)] by (auto simp: free_set_def heads_def)
    moreover have "prev_free_at d ?m x = prev_free_at d m x"
      by (rule prev_free_at_cong) (use link_cells(1) [OF sp x fN] in simp)
    ultimately show ?thesis using link_cells(3) [OF sp fN x] by (simp add: links_def nxt_free_def)
  qed
  have b: "bucket_ok d fh m (set fs) 0 (L 0)" by (rule shapeD(4) [OF sh]) simp
  have "shape d fh a b ?m fs (L(0 := L 0))"
  proof (rule shape_relink [OF sh])
    show "?m c = m c" if "c \<notin> link_area d m ?N" for c using that f(1) by (auto simp: link_area_def)
    show "ring (links d ?m) (free_head d fh 0) (L 0)"
      by (rule ring_frame [OF bucket_ring(1) [OF sh]]) (use links [of 0] in auto)
  qed (use links b in \<open>auto simp: bucket_ok_def\<close>)
  then show ?thesis by simp
qed

lemma shape_dbg_mark:
  assumes sh: "shape d fh a b m fs L" and f: "f \<in> set fs"
  shows "shape d fh a b (dbg_mark d loc f m) fs L"
proof (rule shape_frame [OF sh], intro ballI)
  fix x c assume x: "x \<in> heads d fh \<union> set fs" and c: "c \<in> frag_cells d m x"
  show "dbg_mark d loc f m c = m c"
  proof (cases "x = f")
    case True
    then show ?thesis using c by (auto simp: dbg_mark_def frag_cells_def qm_layout)
  next
    case False
    have fN: "f \<in> heads d fh \<union> set fs" using f by simp
    have "c \<in> extent d m x" using c frag_cells_extent by blast
    then have "c \<notin> extent d m f" using extents_disjoint [OF shape_spaced [OF sh] x fN False] by blast
    then show ?thesis by (auto simp: dbg_mark_def extent_def qm_layout)
  qed
qed

lemma dbg_mark_outside: "c \<notin> extent d m f \<Longrightarrow> dbg_mark d loc f m c = m c"
  by (auto simp: dbg_mark_def extent_def qm_layout)

lemma dbg_mark_cells [simp]: "dbg_mark d loc f m f = m f" "dbg_mark d loc f m (f + 4) = m (f + 4)"
  by (simp_all add: dbg_mark_def)

lemma link_area_extent:
  assumes sp: "spaced d m N" and x: "x \<in> N" and Y: "Y \<subseteq> N - {x}"
  shows "link_area d m Y \<inter> extent d m x = {}"
proof -
  have "extent d m y \<inter> extent d m x = {}" "{y + 4, prev_free_at d m y} \<subseteq> extent d m y" if "y \<in> Y" for y
    by (rule extents_disjoint [OF sp _ x]) (use that Y in blast, use that Y in blast,
        simp add: extent_def qm_layout)
  then show ?thesis unfolding link_area_def by blast
qed

section \<open>Searching\<close>

lemma find_from_shape:
  assumes sh: "shape d fh a b m fs L"
  obtains f where "find_from d m fh want k = Some f"
    and "f = NULL \<longrightarrow> (\<forall>j g. k \<le> j \<and> j < QM_HASH_SIZE d \<and> g \<in> set (L j) \<longrightarrow> m g < want)"
    and "f \<noteq> NULL \<longrightarrow> (\<exists>h xs ys. k \<le> h \<and> h < QM_HASH_SIZE d \<and> L h = xs @ f # ys \<and> want \<le> m f \<and>
      (\<forall>x \<in> set xs. m x < want) \<and> (\<forall>j g. k \<le> j \<and> j < h \<and> g \<in> set (L j) \<longrightarrow> m g < want))"
proof (induction "QM_HASH_SIZE d - k" arbitrary: k thesis)
  case 0
  then have "\<not> k < QM_HASH_SIZE d" by simp
  then show ?case by (intro 0(2) [of NULL]) (auto simp: find_from.simps [of d m fh want k])
next
  case (Suc n)
  then have k: "k < QM_HASH_SIZE d" by simp
  note r = bucket_ring [OF sh k]
  let ?ys = "dropWhile (\<lambda>x. m x < want) (L k)" and ?xs = "takeWhile (\<lambda>x. m x < want) (L k)"
  have step: "find_from d m fh want k =
      (let f = hd (?ys @ [NULL]) in if f \<noteq> NULL then Some f else find_from d m fh want (Suc k))"
    using k scan_bucket_seg [OF r(3,4), of want] by (subst find_from.simps) (simp add: Let_def)
  show ?case
  proof (cases ?ys)
    case Nil
    then have small: "m g < want" if "g \<in> set (L k)" for g using that by (auto simp: dropWhile_eq_Nil_conv)
    have rng: "k \<le> j \<and> P \<longleftrightarrow> (j = k \<or> Suc k \<le> j) \<and> P" for j P by auto
    have nn: "n = QM_HASH_SIZE d - Suc k" using Suc.hyps(2) by simp
    obtain f where
      f: "find_from d m fh want (Suc k) = Some f"
      and f0: "f = NULL \<longrightarrow> (\<forall>j g. Suc k \<le> j \<and> j < QM_HASH_SIZE d \<and> g \<in> set (L j) \<longrightarrow> m g < want)"
      and f1: "f \<noteq> NULL \<longrightarrow> (\<exists>h xs ys. Suc k \<le> h \<and> h < QM_HASH_SIZE d \<and> L h = xs @ f # ys \<and> want \<le> m f \<and>
        (\<forall>x \<in> set xs. m x < want) \<and> (\<forall>j g. Suc k \<le> j \<and> j < h \<and> g \<in> set (L j) \<longrightarrow> m g < want))"
      by (rule Suc.hyps(1) [OF nn]) (rule that)
    show ?thesis
    proof (rule Suc.prems)
      show "find_from d m fh want k = Some f" using step Nil f by simp
      show "f = NULL \<longrightarrow> (\<forall>j g. k \<le> j \<and> j < QM_HASH_SIZE d \<and> g \<in> set (L j) \<longrightarrow> m g < want)"
        using f0 small unfolding rng by blast
    next
      show "f \<noteq> NULL \<longrightarrow> (\<exists>h xs ys. k \<le> h \<and> h < QM_HASH_SIZE d \<and> L h = xs @ f # ys \<and> want \<le> m f \<and>
          (\<forall>x \<in> set xs. m x < want) \<and> (\<forall>j g. k \<le> j \<and> j < h \<and> g \<in> set (L j) \<longrightarrow> m g < want))"
      proof
      assume "f \<noteq> NULL"
      from f1 [rule_format, OF this] obtain h xs ys where h: "Suc k \<le> h" "h < QM_HASH_SIZE d" "L h = xs @ f # ys"
        "want \<le> m f" "\<forall>x \<in> set xs. m x < want" "\<forall>j g. Suc k \<le> j \<and> j < h \<and> g \<in> set (L j) \<longrightarrow> m g < want"
        by blast
      have upto: "\<forall>j g. k \<le> j \<and> j < h \<and> g \<in> set (L j) \<longrightarrow> m g < want"
        using h(6) small unfolding rng by blast
      show "\<exists>h xs ys. k \<le> h \<and> h < QM_HASH_SIZE d \<and> L h = xs @ f # ys \<and> want \<le> m f \<and>
          (\<forall>x \<in> set xs. m x < want) \<and> (\<forall>j g. k \<le> j \<and> j < h \<and> g \<in> set (L j) \<longrightarrow> m g < want)"
        by (rule exI [of _ h], rule exI [of _ xs], rule exI [of _ ys], intro conjI upto h(2-5))
          (use h(1) in simp)
      qed
    qed
  next
    case (Cons f ys)
    have "f \<in> set (L k)" using Cons set_dropWhileD [of f "\<lambda>x. m x < want" "L k"] by simp
    then have f0: "f \<noteq> NULL" using r(5) by metis
    have sz: "want \<le> m f" using Cons hd_dropWhile [of "\<lambda>x. m x < want" "L k"] by simp
    have L: "L k = ?xs @ f # ys" using takeWhile_dropWhile_id [of "\<lambda>x. m x < want" "L k"] unfolding Cons by (rule sym)
    have xs: "\<forall>x \<in> set ?xs. m x < want" by (blast dest: set_takeWhileD)
    have none: "\<forall>j g. k \<le> j \<and> j < k \<and> g \<in> set (L j) \<longrightarrow> m g < want" by simp
    show ?thesis
    proof (rule Suc.prems)
      show "find_from d m fh want k = Some f" using step f0 by (simp add: Cons)
      show "f = NULL \<longrightarrow> (\<forall>j g. k \<le> j \<and> j < QM_HASH_SIZE d \<and> g \<in> set (L j) \<longrightarrow> m g < want)"
        using f0 by blast
      show "f \<noteq> NULL \<longrightarrow> (\<exists>h xs ys. k \<le> h \<and> h < QM_HASH_SIZE d \<and> L h = xs @ f # ys \<and> want \<le> m f \<and>
          (\<forall>x \<in> set xs. m x < want) \<and> (\<forall>j g. k \<le> j \<and> j < h \<and> g \<in> set (L j) \<longrightarrow> m g < want))"
        by (rule impI, rule exI [of _ k], rule exI [of _ ?xs], rule exI [of _ ys],
            intro conjI order_refl k L sz xs none)
    qed
  qed
qed

text \<open>The search gives the smallest free fragment that is big enough, and the null pointer if there is none.\<close>

lemma find_free_best:
  assumes sh: "shape d (qm_free_hash q) a b (qm_mem q) fs L" and want: "want < 2 ^ 32"
  obtains (none) "qm_find_free d want q = Some NULL" and "\<forall>g \<in> free_set d L. qm_mem q g < want"
    | (found) f h xs ys where "qm_find_free d want q = Some f" and "f \<noteq> NULL" and "h < QM_HASH_SIZE d"
        and "L h = xs @ f # ys" and "want \<le> qm_mem q f"
        and "\<forall>g \<in> free_set d L. want \<le> qm_mem q g \<longrightarrow> qm_mem q f \<le> qm_mem q g"
proof -
  let ?m = "qm_mem q" and ?fh = "qm_free_hash q"
  obtain k where k: "GET_HASH d want = Some k" "k < QM_HASH_SIZE d" using GET_HASH_bound [OF want] .
  have hash: "GET_HASH d (?m g) = Some j \<and> ?m g < 2 ^ 32" if "j < QM_HASH_SIZE d" "g \<in> set (L j)" for j g
    using shapeD(4) [OF sh that(1)] that(2) frag_size_bound [OF sh] unfolding bucket_ok_def by blast
  have above: "k \<le> j" if "j < QM_HASH_SIZE d" "g \<in> set (L j)" "want \<le> ?m g" for j g
    using hash [OF that(1,2)] GET_HASH_mono [OF that(3) _ k(1)] by blast
  obtain f where f: "find_from d ?m ?fh want k = Some f"
    and f0: "f = NULL \<longrightarrow> (\<forall>j g. k \<le> j \<and> j < QM_HASH_SIZE d \<and> g \<in> set (L j) \<longrightarrow> ?m g < want)"
    and f1: "f \<noteq> NULL \<longrightarrow> (\<exists>h xs ys. k \<le> h \<and> h < QM_HASH_SIZE d \<and> L h = xs @ f # ys \<and> want \<le> ?m f \<and>
      (\<forall>x \<in> set xs. ?m x < want) \<and> (\<forall>j g. k \<le> j \<and> j < h \<and> g \<in> set (L j) \<longrightarrow> ?m g < want))"
    by (rule find_from_shape [OF sh, of want k]) (rule that)
  have ff: "qm_find_free d want q = Some f" using k f by (simp add: qm_find_free_def)
  show ?thesis
  proof (cases "f = NULL")
    case True
    have "?m g < want" if g: "g \<in> free_set d L" for g
    proof (rule ccontr)
      assume big: "\<not> ?m g < want"
      obtain j where j: "j < QM_HASH_SIZE d" "g \<in> set (L j)" using g by (auto simp: free_set_def)
      have "k \<le> j" by (rule above [OF j]) (use big in simp)
      then show False using f0 True j big by blast
    qed
    then show ?thesis using none ff True by blast
  next
    case False
    from f1 [rule_format, OF False] obtain h xs ys where
      h: "k \<le> h" "h < QM_HASH_SIZE d" "L h = xs @ f # ys" "want \<le> ?m f"
      and xs: "\<forall>x \<in> set xs. ?m x < want" and low: "\<forall>j g. k \<le> j \<and> j < h \<and> g \<in> set (L j) \<longrightarrow> ?m g < want"
      by blast
    have "?m f \<le> ?m g" if g: "g \<in> free_set d L" "want \<le> ?m g" for g
    proof -
      obtain j where j: "j < QM_HASH_SIZE d" "g \<in> set (L j)" using g(1) by (auto simp: free_set_def)
      have "k \<le> j" by (rule above [OF j g(2)])
      then have "h \<le> j" using low [rule_format, of j g] j g(2) by (meson not_le)
      show ?thesis
      proof (cases "j = h")
        case True
        then show ?thesis using j(2) h(3) xs g(2) bucket_ring(2) [OF sh h(2)]
          by (auto simp: sorted_append)
      next
        case False
        have "GET_HASH d (?m f) = Some h" "?m f < 2 ^ 32" using hash [OF h(2), of f] h(3) by simp_all
        then show ?thesis using hash [OF j] GET_HASH_mono [of "?m g" "?m f" d j h] \<open>h \<le> j\<close> False
          by (metis le_antisym linear)
      qed
    qed
    then show ?thesis using found ff False h by blast
  qed
qed

section \<open>The invariant of the allocator\<close>

definition init_overhead :: "bool \<Rightarrow> nat" where
  "init_overhead d = ROUNDUP d (sizeof_qm_block d) + FRAG_OVERHEAD d"

text \<open>
  \<open>qm_inv d q fs L\<close>: the pool has the fragments \<open>fs\<close> and the free lists \<open>L\<close>, a fragment on no list
  is marked as allocated, and the counters agree with the fragments.
\<close>

definition qm_inv :: "bool \<Rightarrow> qm_block \<Rightarrow> ptr list \<Rightarrow> (nat \<Rightarrow> ptr list) \<Rightarrow> bool" where
  "qm_inv d q fs L \<longleftrightarrow>
     shape d (qm_free_hash q) (qm_first_frag q) (qm_last_frag_end q + sizeof_frag_end d) (qm_mem q) fs L \<and>
     fs \<noteq> [] \<and> (\<forall>f \<in> set fs - free_set d L. nxt_free (qm_mem q) f = 0) \<and>
     qm_used q = (\<Sum>f \<in> set fs - free_set d L. qm_mem q f) \<and>
     qm_real_used q = init_overhead d + qm_used q + FRAG_OVERHEAD d * (length fs - 1) \<and>
     qm_real_used q \<le> qm_max_real_used q \<and>
     qm_first_frag q + qm_size q + FRAG_OVERHEAD d = qm_last_frag_end q + sizeof_frag_end d \<and>
     init_overhead d + qm_size q < 2 ^ 32"

abbreviation (input) busy :: "bool \<Rightarrow> ptr list \<Rightarrow> (nat \<Rightarrow> ptr list) \<Rightarrow> ptr set" where
  "busy d fs L \<equiv> set fs - free_set d L"

lemma qm_inv_shape:
  "qm_inv d q fs L \<Longrightarrow>
   shape d (qm_free_hash q) (qm_first_frag q) (qm_last_frag_end q + sizeof_frag_end d) (qm_mem q) fs L"
  by (simp add: qm_inv_def)

lemma qm_inv_marks:
  assumes "qm_inv d q fs L" and "f \<in> set fs"
  shows "nxt_free (qm_mem q) f = 0 \<longleftrightarrow> f \<notin> free_set d L"
proof -
  have "\<forall>f \<in> set fs - free_set d L. nxt_free (qm_mem q) f = 0" using assms(1) by (simp add: qm_inv_def)
  then show ?thesis using assms(2) free_marked [OF qm_inv_shape [OF assms(1)]] by blast
qed

text \<open>The sizes of the fragments and their overhead fill the pool.\<close>

lemma qm_inv_total:
  assumes "qm_inv d q fs L"
  shows "qm_size q = (\<Sum>f \<in> set fs. qm_mem q f) + FRAG_OVERHEAD d * (length fs - 1)"
proof -
  note sh = qm_inv_shape [OF assms]
  have "sum_list (map (qm_mem q) fs) = (\<Sum>f \<in> set fs. qm_mem q f)"
    by (rule sum_list_distinct_conv_sum_set [OF tiled_distinct [OF shapeD(1) [OF sh]]])
  moreover have "FRAG_OVERHEAD d * length fs = FRAG_OVERHEAD d * (length fs - 1) + FRAG_OVERHEAD d"
    using assms by (cases fs) (simp_all add: qm_inv_def)
  ultimately show ?thesis using tiled_length [OF shapeD(1) [OF sh]] assms by (simp add: qm_inv_def)
qed

text \<open>The counters do not wrap, and what the code takes as free is short of what is free by the initial overhead.\<close>

lemma qm_inv_counters:
  assumes "qm_inv d q fs L"
  shows "qm_size q + init_overhead d = qm_real_used q + (\<Sum>f \<in> free_set d L. qm_mem q f)"
    and "qm_real_used q < 2 ^ 32"
proof -
  have sub: "free_set d L \<subseteq> set fs" by (rule free_set_frags [OF qm_inv_shape [OF assms]])
  have "(\<Sum>f \<in> set fs. qm_mem q f) = qm_used q + (\<Sum>f \<in> free_set d L. qm_mem q f)"
    using assms sum.subset_diff [OF sub, of "qm_mem q"] by (simp add: qm_inv_def)
  then show e: "qm_size q + init_overhead d = qm_real_used q + (\<Sum>f \<in> free_set d L. qm_mem q f)"
    using qm_inv_total [OF assms] assms by (simp add: qm_inv_def)
  then show "qm_real_used q < 2 ^ 32" using assms by (simp add: qm_inv_def)
qed

section \<open>Taking a fragment\<close>

text \<open>The fragment \<open>f\<close> is taken off its list; the pool is then \<open>m2\<close> with the fragments \<open>fs'\<close> and lists \<open>L'\<close>.\<close>

definition taken :: "bool \<Rightarrow> qm_block \<Rightarrow> ptr list \<Rightarrow> (nat \<Rightarrow> ptr list) \<Rightarrow> ptr \<Rightarrow> nat \<Rightarrow>
    cells \<Rightarrow> ptr list \<Rightarrow> (nat \<Rightarrow> ptr list) \<Rightarrow> bool" where
  "taken d q fs L f want m2 fs' L' \<longleftrightarrow>
     shape d (qm_free_hash q) (qm_first_frag q) (qm_last_frag_end q + sizeof_frag_end d) m2 fs' L' \<and>
     f \<in> free_set d L \<and> f \<in> set fs' \<and> f \<notin> free_set d L' \<and> m2 (f + 4) = 0 \<and> want \<le> m2 f \<and> m2 f \<le> qm_mem q f \<and>
     busy d fs' L' = insert f (busy d fs L) \<and>
     (\<forall>x \<in> busy d fs L. \<forall>c \<in> extent d (qm_mem q) x. m2 c = qm_mem q c)"

lemma free_set_update:
  assumes "h < QM_HASH_SIZE d"
  shows "free_set d (L(h := zs)) = set zs \<union> (\<Union>k \<in> {..<QM_HASH_SIZE d} - {h}. set (L k))"
proof -
  have "free_set d (L(h := zs)) = (\<Union>k \<in> insert h ({..<QM_HASH_SIZE d} - {h}). set ((L(h := zs)) k))"
    unfolding free_set_def using assms by (simp add: insert_absorb)
  also have "\<dots> = set zs \<union> (\<Union>k \<in> {..<QM_HASH_SIZE d} - {h}. set (L k))"
    by (auto split: if_splits)
  finally show ?thesis .
qed

lemma free_set_remove:
  assumes sh: "shape d fh a b m fs L" and h: "h < QM_HASH_SIZE d" and L: "L h = xs @ f # ys"
  shows "free_set d (L(h := xs @ ys)) = free_set d L - {f}"
proof -
  have "f \<notin> set (xs @ ys)" using bucket_ring(1) [OF sh h] unfolding L by (auto simp: ring_def)
  moreover have "f \<notin> set (L k)" if "k < QM_HASH_SIZE d" "k \<noteq> h" for k
    using buckets_disjoint [OF sh that(1) h that(2)] L by auto
  moreover have "free_set d L = set (L h) \<union> (\<Union>k \<in> {..<QM_HASH_SIZE d} - {h}. set (L k))"
    using free_set_update [OF h, of L "L h"] by simp
  ultimately show ?thesis unfolding free_set_update [OF h] L by auto
qed

lemma free_set_add:
  assumes "h < QM_HASH_SIZE d" and "L h = xs @ ys"
  shows "free_set d (L(h := xs @ f # ys)) = insert f (free_set d L)"
proof -
  have "free_set d L = set (L h) \<union> (\<Union>k \<in> {..<QM_HASH_SIZE d} - {h}. set (L k))"
    using free_set_update [OF assms(1), of L "L h"] by simp
  then show ?thesis unfolding free_set_update [OF assms(1)] by (simp add: assms(2))
qed

lemma detach_taken:
  assumes inv: "qm_inv d q fs L" and h: "h < QM_HASH_SIZE d" and L: "L h = xs @ f # ys"
    and want: "want \<le> qm_mem q f"
  shows "taken d q fs L f want ((unlink_free d f (qm_mem q))(f + 4 := 0)) fs (L(h := xs @ ys))"
    and "((unlink_free d f (qm_mem q))(f + 4 := 0)) f = qm_mem q f"
proof -
  let ?m = "qm_mem q" and ?fh = "qm_free_hash q" and ?u = "unlink_free d f (qm_mem q)"
  let ?L = "L(h := xs @ ys)" and ?N = "heads d (qm_free_hash q) \<union> set fs"
  note sh = qm_inv_shape [OF inv]
  have sp: "spaced d ?m ?N" by (rule shape_spaced [OF sh])
  have free: "free_set d ?L = free_set d L - {f}" by (rule free_set_remove [OF sh h L])
  have "f \<in> set (L h)" using L by simp
  then have ff: "f \<in> free_set d L" using h unfolding free_set_def by blast
  then have fs: "f \<in> set fs" using free_set_frags [OF sh] by blast
  note fr = detach_shape(2) [OF sh h L]
  have area: "link_area d ?m (heads d ?fh \<union> (free_set d L - {f})) \<inter> extent d ?m x = {}"
    if "x \<in> set fs" "x \<notin> free_set d L - {f}" for x
  proof (rule link_area_extent [OF sp])
    have "x \<notin> heads d ?fh" using shape_heads_frags [OF sh _ that(1), of x] by auto
    then show "heads d ?fh \<union> (free_set d L - {f}) \<subseteq> ?N - {x}" using free_set_frags [OF sh] that by blast
  qed (use that in simp)
  have u: "?u f = ?m f" by (rule fr) (use area [OF fs] in \<open>auto simp: extent_def qm_layout\<close>)
  then show m1f: "(?u(f + 4 := 0)) f = ?m f" by simp
  have "(?u(f + 4 := 0)) c = ?m c" if x: "x \<in> busy d fs L" and c: "c \<in> extent d ?m x" for x c
  proof -
    have "f \<noteq> x" using x ff by blast
    then have "extent d ?m f \<inter> extent d ?m x = {}" using extents_disjoint [OF sp] fs x by blast
    moreover have "f + 4 \<in> extent d ?m f" by (simp add: extent_def qm_layout)
    ultimately have "c \<noteq> f + 4" using c by blast
    moreover have "?u c = ?m c" by (rule fr) (use area [of x] x c in blast)
    ultimately show ?thesis by simp
  qed
  moreover have "shape d ?fh (qm_first_frag q) (qm_last_frag_end q + sizeof_frag_end d) (?u(f + 4 := 0)) fs ?L"
    by (rule shape_mark [OF detach_shape(1) [OF sh h L] fs]) (simp add: free)
  moreover have "busy d fs ?L = insert f (busy d fs L)" using free ff fs by blast
  ultimately show "taken d q fs L f want (?u(f + 4 := 0)) fs ?L"
    unfolding taken_def using want m1f ff fs free by simp
qed

lemma split_taken:
  assumes tk: "taken d q fs L f want m1 fs L1" and sz: "m1 f = want + FRAG_OVERHEAD d + r"
    and dvd: "ROUNDTO d dvd want" and fh: "qm_free_hash q1 = qm_free_hash q"
  obtains n m2 m3 fs' L' where "split_cells d loc f want (FRAG_OVERHEAD d + r) m1 = (n, m2)"
    and "qm_insert_free d n (q1\<lparr>qm_mem := m2\<rparr>) = Some (q1\<lparr>qm_mem := m3\<rparr>)"
    and "taken d q fs L f want m3 fs' L'" and "length fs' = Suc (length fs)" and "m3 f = want"
proof -
  let ?m = "qm_mem q" and ?fh = "qm_free_hash q"
  define n where "n = f + FRAG_OVERHEAD d + want"
  define m2 where "m2 = snd (split_cells d loc f want (FRAG_OVERHEAD d + r) m1)"
  have sh: "shape d ?fh (qm_first_frag q) (qm_last_frag_end q + sizeof_frag_end d) m1 fs L1"
    and f: "f \<in> set fs" "f \<notin> free_set d L1" and busy: "busy d fs L1 = insert f (busy d fs L)"
    and keep: "\<forall>x \<in> busy d fs L. \<forall>c \<in> extent d ?m x. m1 c = ?m c"
    and m1: "m1 (f + 4) = 0" "m1 f \<le> ?m f" and fL: "f \<in> free_set d L"
    using tk unfolding taken_def by blast+
  obtain us vs where fs: "fs = us @ f # vs" using f(1) by (blast dest: split_list)
  have split: "split_cells d loc f want (FRAG_OVERHEAD d + r) m1 = (n, m2)"
    and m2: "m2 f = want" "m2 n = r" "m2 (f + 4) = 0"
    unfolding n_def m2_def using split_cells_eqs [where m = m1 and f = f, OF sz] m1(1)
    by (simp_all add: prod_eq_iff)
  let ?fs = "us @ f # n # vs"
  have sh2: "shape d ?fh (qm_first_frag q) (qm_last_frag_end q + sizeof_frag_end d) m2 ?fs L1"
    and nfs: "n \<notin> set fs"
    unfolding n_def m2_def fs by (rule split_shape [OF sh [unfolded fs] f(2) sz dvd])+
  have nfree: "n \<notin> free_set d L1" using nfs free_set_frags [OF sh] by blast
  let ?N = "heads d ?fh \<union> set ?fs"
  have sp2: "spaced d m2 ?N" by (rule shape_spaced [OF sh2])
  obtain h xs ys m3 where h: "h < QM_HASH_SIZE d" "L1 h = xs @ ys"
    and ins: "qm_insert_free d n (q1\<lparr>qm_mem := m2\<rparr>) = Some (q1\<lparr>qm_mem := m2, qm_mem := m3\<rparr>)"
    and sh3: "shape d ?fh (qm_first_frag q) (qm_last_frag_end q + sizeof_frag_end d) m3 ?fs (L1(h := xs @ n # ys))"
    and fr: "\<And>c. c \<notin> link_area d m2 (heads d ?fh \<union> insert n (free_set d L1)) \<Longrightarrow> m3 c = m2 c"
    by (rule insert_shape [of d "q1\<lparr>qm_mem := m2\<rparr>" "qm_first_frag q" "qm_last_frag_end q + sizeof_frag_end d" ?fs L1 n])
      (use sh2 nfree fh in auto)
  have free: "free_set d (L1(h := xs @ n # ys)) = insert n (free_set d L1)" by (rule free_set_add [where L = L1 and h = h, OF h])
  have same: "m3 c = m2 c" if x: "x \<in> busy d fs L1" and c: "c \<in> extent d m2 x" for x c
  proof -
    have "x \<noteq> n" "x \<notin> heads d ?fh" "x \<in> set ?fs"
      using x nfs fs shape_heads_frags [OF sh, of x x] by auto
    then have "link_area d m2 (heads d ?fh \<union> insert n (free_set d L1)) \<inter> extent d m2 x = {}"
      using free_set_frags [OF sh2] x by (intro link_area_extent [OF sp2]) auto
    then show ?thesis using c by (intro fr) blast
  qed
  have fb: "f \<in> busy d fs L1" using f by blast
  have m3: "m3 f = want" "m3 (f + 4) = 0"
    using m2 same [OF fb, of f] same [OF fb, of "f + 4"] by (simp_all add: extent_def qm_layout)
  have "m3 c = ?m c" if x: "x \<in> busy d fs L" and c: "c \<in> extent d ?m x" for x c
  proof -
    have xb: "x \<in> busy d fs L1" using x busy by blast
    have "x \<in> extent d ?m x" by (simp add: extent_def)
    then have x1: "m1 x = ?m x" using keep x by blast
    then have c1: "c \<in> extent d m1 x" using c by (simp add: extent_def)
    have "x \<noteq> f" using x fL by blast
    then have dis: "extent d m1 x \<inter> extent d m1 f = {}"
      using extents_disjoint [OF shape_spaced [OF sh]] x f(1) by blast
    have out: "m2 e = m1 e" if "e \<in> extent d m1 x" for e
      unfolding m2_def by (rule split_cells_outside [where m = m1 and f = f, OF sz]) (use that dis in blast)
    have "m2 x = m1 x" by (rule out) (simp add: extent_def)
    then have "c \<in> extent d m2 x" using c1 by (simp add: extent_def)
    then have "m3 c = m2 c" by (rule same [OF xb])
    then show ?thesis using out [OF c1] keep x c by simp
  qed
  moreover have "busy d ?fs (L1(h := xs @ n # ys)) = insert f (busy d fs L)"
    using busy nfs unfolding free fs by auto
  moreover have "f \<notin> free_set d (L1(h := xs @ n # ys))" using f nfs unfolding free by auto
  ultimately have "taken d q fs L f want m3 ?fs (L1(h := xs @ n # ys))"
    unfolding taken_def using sh3 m3 sz m1(2) fL by simp
  then show ?thesis using that [OF split, of m3] ins m3(1) fs by simp
qed

end
