(* ===== verification/Qm_Contract.thy ===== *)
theory Qm_Contract
  imports Qm_Invariant
begin

text \<open>
  What the calls of mem/q\_malloc.c do on a pool that satisfies the invariant: \<open>qm_malloc\<close> takes
  the smallest free fragment that is big enough, or fails without a change; \<open>qm_free\<close> puts the
  fragment back; \<open>qm_malloc_init\<close> establishes the invariant.
\<close>

section \<open>Allocation\<close>

lemma add32_id: "a + b < 2 ^ 32 \<Longrightarrow> add32 a b = a + b"
  by (simp add: add32_def)

lemma sub32_id: "b \<le> a \<Longrightarrow> a < 2 ^ 32 \<Longrightarrow> sub32 a b = a - b"
  unfolding sub32_def using mod_add_self2 [of "a - b" "2 ^ 32 :: nat"] by simp

lemma ROUNDUP_bounds: "ROUNDTO d dvd ROUNDUP d s" "ROUNDUP d s < 2 ^ 32"
proof -
  have "add32 s (ROUNDTO d - 1) < 2 ^ 32" by (simp add: add32_def)
  moreover have "ROUNDUP d s \<le> add32 s (ROUNDTO d - 1)" by (simp add: ROUNDUP_def)
  ultimately show "ROUNDUP d s < 2 ^ 32" by linarith
qed (simp add: ROUNDUP_def)

lemma ROUNDUP_ge: "s + ROUNDTO d \<le> 2 ^ 32 \<Longrightarrow> s \<le> ROUNDUP d s \<and> ROUNDUP d s < s + ROUNDTO d"
proof -
  assume s: "s + ROUNDTO d \<le> 2 ^ 32"
  have r: "0 < ROUNDTO d" by (simp add: ROUNDTO_def)
  then have "add32 s (ROUNDTO d - 1) = s + (ROUNDTO d - 1)" using s by (intro add32_id) linarith
  then have e: "ROUNDUP d s = (s + (ROUNDTO d - 1)) div ROUNDTO d * ROUNDTO d" by (simp add: ROUNDUP_def)
  have "(s + (ROUNDTO d - 1)) mod ROUNDTO d \<le> ROUNDTO d - 1" 
    using mod_less_divisor [OF r, of "s + (ROUNDTO d - 1)"] by linarith
  moreover have "s + (ROUNDTO d - 1) = (s + (ROUNDTO d - 1)) div ROUNDTO d * ROUNDTO d + (s + (ROUNDTO d - 1)) mod ROUNDTO d"
    by (rule div_mult_mod_eq [symmetric])
  ultimately show ?thesis using e r by linarith
qed

text \<open>The checks of the debugging build pass on every fragment of the pool.\<close>

lemma debug_frag_ok:
  assumes "qm_inv True q fs L" and "f \<in> set fs"
  shows "qm_debug_frag q f"
proof -
  note sh = qm_inv_shape [OF assms(1)]
  obtain us vs where fs: "fs = us @ f # vs" using assms(2) by (blast dest: split_list)
  have "tiled True (qm_mem q) (qm_first_frag q) us f" using shapeD(1) [OF sh] unfolding fs tiled_append by blast
  then have "qm_first_frag q < f \<longrightarrow> (\<exists>g \<in> set fs. PREV_FRAG_END True f = FRAG_END True (qm_mem q) g)"
  proof (cases us rule: rev_cases)
    case (snoc us' g)
    then have "f = FRAG_NEXT True (qm_mem q) g"
      using \<open>tiled True (qm_mem q) (qm_first_frag q) us f\<close> by (simp add: tiled_append)
    then show ?thesis using fs snoc by (auto simp: PREV_FRAG_END_def qm_layout)
  qed simp
  then show ?thesis
    using shapeD(2) [OF sh] assms(2) by (auto simp: qm_debug_frag_def frag_ok_def Let_def)
qed

lemma qm_inv_update:
  assumes inv: "qm_inv d q fs L" and tk: "taken d q fs L f want m2 fs' L'"
    and len: "length fs' = length fs + k" and mem: "m3 f = m2 f" "m3 (f + 4) = m2 (f + 4)"
    and out: "\<And>c. c \<notin> extent d m2 f \<Longrightarrow> m3 c = m2 c"
    and sh: "shape d (qm_free_hash q) (qm_first_frag q) (qm_last_frag_end q + sizeof_frag_end d) m3 fs' L'"
    and mx: "qm_real_used q + FRAG_OVERHEAD d * k + m2 f \<le> mx"
  shows "qm_inv d (q\<lparr>qm_used := qm_used q + m2 f,
      qm_real_used := qm_real_used q + FRAG_OVERHEAD d * k + m2 f, qm_max_real_used := mx, qm_mem := m3\<rparr>) fs' L'"
    and "\<forall>x \<in> busy d fs L. \<forall>c \<in> extent d (qm_mem q) x. m3 c = qm_mem q c"
proof -
  let ?m = "qm_mem q"
  have sh2: "shape d (qm_free_hash q) (qm_first_frag q) (qm_last_frag_end q + sizeof_frag_end d) m2 fs' L'"
    and f: "f \<in> free_set d L" "f \<in> set fs'" and f4: "m2 (f + 4) = 0"
    and busy: "busy d fs' L' = insert f (busy d fs L)"
    and keep: "\<forall>x \<in> busy d fs L. \<forall>c \<in> extent d ?m x. m2 c = ?m c"
    using tk unfolding taken_def by blast+
  have same: "m3 c = ?m c" if x: "x \<in> busy d fs L" and c: "c \<in> extent d ?m x" for x c
  proof -
    have "x \<in> extent d ?m x" by (simp add: extent_def)
    then have "m2 x = ?m x" using keep x by blast
    then have "c \<in> extent d m2 x" using c by (simp add: extent_def)
    moreover have "x \<noteq> f" "x \<in> set fs'" using x f busy by blast+
    then have "extent d m2 x \<inter> extent d m2 f = {}" using extents_disjoint [OF shape_spaced [OF sh2]] f(2) by blast
    ultimately have "m3 c = m2 c" by (intro out) blast
    then show ?thesis using keep x c by simp
  qed
  then show "\<forall>x \<in> busy d fs L. \<forall>c \<in> extent d ?m x. m3 c = ?m c" by blast
  have size: "m3 x = ?m x" and next4: "m3 (x + 4) = ?m (x + 4)" if "x \<in> busy d fs L" for x
    by (rule same [OF that], simp add: extent_def qm_layout)+
  have "(\<Sum>x \<in> busy d fs L. m3 x) = (\<Sum>x \<in> busy d fs L. ?m x)" by (rule sum.cong) (auto simp: size)
  then have "(\<Sum>x \<in> busy d fs' L'. m3 x) = m2 f + qm_used q"
    using inv f(1) mem(1) unfolding busy by (simp add: qm_inv_def)
  moreover have "\<forall>x \<in> busy d fs' L'. nxt_free m3 x = 0"
    using inv next4 mem(2) f4 unfolding busy by (simp add: qm_inv_def nxt_free_def)
  moreover obtain n where "length fs = Suc n" using inv by (cases fs) (auto simp: qm_inv_def)
  moreover from this have "fs' \<noteq> []" using len by auto
  ultimately show "qm_inv d (q\<lparr>qm_used := qm_used q + m2 f,
      qm_real_used := qm_real_used q + FRAG_OVERHEAD d * k + m2 f, qm_max_real_used := mx, qm_mem := m3\<rparr>) fs' L'"
    using inv sh mx len by (simp add: qm_inv_def add_mult_distrib2)
qed

lemma shape_final_mark:
  assumes "shape d fh a b m fs L" and "f \<in> set fs"
  shows "shape d fh a b (if d then (dbg_mark d loc f m)(f + 20 := ST_CHECK_PATTERN) else dbg_mark d loc f m) fs L"
    and "(if d then (dbg_mark d loc f m)(f + 20 := ST_CHECK_PATTERN) else dbg_mark d loc f m) = dbg_mark d loc f m"
proof -
  note sh = shape_dbg_mark [OF assms, of loc]
  have "frag_ok d (dbg_mark d loc f m) f" by (rule shapeD(2) [OF sh assms(2)])
  then show e: "(if d then (dbg_mark d loc f m)(f + 20 := ST_CHECK_PATTERN) else dbg_mark d loc f m) = dbg_mark d loc f m"
    by (auto simp: frag_ok_def fun_upd_idem)
  show "shape d fh a b (if d then (dbg_mark d loc f m)(f + 20 := ST_CHECK_PATTERN) else dbg_mark d loc f m) fs L"
    unfolding e by (rule sh)
qed

lemma qm_inv_room:
  assumes "qm_inv d q fs L" and "f \<in> free_set d L"
  shows "qm_real_used q + qm_mem q f < 2 ^ 32"
proof -
  have "finite (free_set d L)" by (simp add: free_set_def)
  then have "qm_mem q f \<le> (\<Sum>g \<in> free_set d L. qm_mem q g)" using assms(2) by (intro member_le_sum) auto
  moreover have "init_overhead d + qm_size q < 2 ^ 32" using assms(1) by (simp add: qm_inv_def)
  ultimately show ?thesis using qm_inv_counters(1) [OF assms(1)] by linarith
qed

lemma take_frag:
  assumes inv: "qm_inv d q fs L" and h: "h < QM_HASH_SIZE d" "L h = xs @ f # ys"
    and want: "want \<le> qm_mem q f" "ROUNDTO d dvd want"
  obtains m2 fs' L' k where "taken d q fs L f want m2 fs' L'" and "length fs' = length fs + k"
    and "FRAG_OVERHEAD d * k + m2 f \<le> qm_mem q f" and "m2 f \<le> want + FRAG_OVERHEAD d + MIN_FRAG_SIZE d"
    and "qm_split d loc f want (qm_detach_free d f q) =
          Some (q\<lparr>qm_real_used := qm_real_used q + FRAG_OVERHEAD d * k, qm_mem := m2\<rparr>)"
proof -
  let ?mu = "(unlink_free d f (qm_mem q))(f + 4 := 0)"
  let ?qr = "q\<lparr>qm_real_used := qm_real_used q + FRAG_OVERHEAD d\<rparr>"
  note t1 = detach_taken [OF inv h want(1)]
  have ff: "f \<in> free_set d L" using t1(1) unfolding taken_def by blast
  have "f \<in> set fs" using ff free_set_frags [OF qm_inv_shape [OF inv]] by blast
  then have rest: "sub32 (?mu f) want = qm_mem q f - want"
    unfolding t1(2) using want(1) frag_size_bound [OF qm_inv_shape [OF inv]] by (intro sub32_id)
  show ?thesis
  proof (cases "FRAG_OVERHEAD d + MIN_FRAG_SIZE d < qm_mem q f - want")
    case False
    show ?thesis
      by (rule that [OF t1(1), of 0]) (use False t1(2) rest in \<open>simp_all add: qm_detach_free_def qm_split_def\<close>)
  next
    case True
    define r where "r = qm_mem q f - want - FRAG_OVERHEAD d"
    have r: "sub32 (?mu f) want = FRAG_OVERHEAD d + r" and sz: "?mu f = want + FRAG_OVERHEAD d + r"
      using True want(1) unfolding rest unfolding t1(2) r_def by simp_all
    have ru: "add32 (qm_real_used q) (FRAG_OVERHEAD d) = qm_real_used q + FRAG_OVERHEAD d"
      using qm_inv_room [OF inv ff] True by (intro add32_id) linarith
    obtain n m2 m3 fs' L' where sp: "split_cells d loc f want (FRAG_OVERHEAD d + r) ?mu = (n, m2)"
      and ins: "qm_insert_free d n (?qr\<lparr>qm_mem := m2\<rparr>) = Some (?qr\<lparr>qm_mem := m3\<rparr>)"
      and tk: "taken d q fs L f want m3 fs' L'" and len: "length fs' = Suc (length fs)" and m3: "m3 f = want"
      by (rule split_taken [OF t1(1) sz want(2), of ?qr loc]) (simp, rule that)
    have big: "FRAG_OVERHEAD d + MIN_FRAG_SIZE d < sub32 (?mu f) want" using True rest by simp
    have "qm_split d loc f want (qm_detach_free d f q) = qm_insert_free d n (?qr\<lparr>qm_mem := m2\<rparr>)"
      using big r sp ru unfolding qm_split_def Let_def qm_detach_free_def by simp
    then show ?thesis using len True m3 ins by (intro that [OF tk, of 1]) simp_all
  qed
qed

lemma qm_malloc_spec:
  fixes size0 :: nat and d :: bool
  assumes inv: "qm_inv d q fs L"
  defines "want \<equiv> ROUNDUP d size0"
  obtains (fail) "qm_malloc d loc size0 q = Some (Ret (NULL, q))"
      and "sub32 (qm_size q) (qm_real_used q) < want \<or> (\<forall>g \<in> free_set d L. qm_mem q g < want)"
    | (ok) f q' fs' L' where "qm_malloc d loc size0 q = Some (Ret (f + sizeof_frag d, q'))"
        and "want \<le> sub32 (qm_size q) (qm_real_used q)"
        and "qm_inv d q' fs' L'" and "f \<in> free_set d L" and "busy d fs' L' = insert f (busy d fs L)"
        and "want \<le> qm_mem q' f" and "qm_mem q' f \<le> want + FRAG_OVERHEAD d + MIN_FRAG_SIZE d"
        and "\<forall>g \<in> free_set d L. want \<le> qm_mem q g \<longrightarrow> qm_mem q f \<le> qm_mem q g"
        and "\<forall>x \<in> busy d fs L. \<forall>c \<in> extent d (qm_mem q) x. qm_mem q' c = qm_mem q c"
        and "want \<le> qm_mem q f"
proof -
  let ?m = "qm_mem q"
  note sh = qm_inv_shape [OF inv]
  have wb: "ROUNDTO d dvd want" "want < 2 ^ 32" unfolding want_def by (rule ROUNDUP_bounds)+
  show ?thesis
  proof (cases "sub32 (qm_size q) (qm_real_used q) < want")
    case True
    then show ?thesis by (intro fail) (simp_all add: qm_malloc_def want_def [symmetric])
  next
    case guard: False
    show ?thesis
    proof (cases rule: find_free_best [OF sh wb(2)])
      case 1
      then show ?thesis using guard by (intro fail) (simp_all add: qm_malloc_def want_def [symmetric])
    next
      case (2 f h xs ys)
      let ?mu = "(unlink_free d f ?m)(f + 4 := 0)" and ?Lh = "L(h := xs @ ys)"
      note t1 = detach_taken [OF inv 2(3,4,5)]
      have f: "f \<in> set fs" using t1(1) by (simp add: taken_def)
      have dbg: "\<not> (d \<and> \<not> qm_debug_frag q f)" using debug_frag_ok [of q fs L f] inv f by (cases d) auto
      obtain m2 fs' L' k where t2: "taken d q fs L f want m2 fs' L'" and len: "length fs' = length fs + k"
        and sz: "FRAG_OVERHEAD d * k + m2 f \<le> ?m f" and waste: "m2 f \<le> want + FRAG_OVERHEAD d + MIN_FRAG_SIZE d"
        and q2: "qm_split d loc f want (qm_detach_free d f q) =
            Some (q\<lparr>qm_real_used := qm_real_used q + FRAG_OVERHEAD d * k, qm_mem := m2\<rparr>)"
        by (rule take_frag [OF inv 2(3,4,5) wb(1)]) (rule that)
      have sh2: "shape d (qm_free_hash q) (qm_first_frag q) (qm_last_frag_end q + sizeof_frag_end d) m2 fs' L'"
        and f': "f \<in> set fs'" and ff: "f \<in> free_set d L" and busy: "busy d fs' L' = insert f (busy d fs L)"
        and m2: "want \<le> m2 f" "m2 f \<le> ?m f"
        using t2 unfolding taken_def by blast+
      note fin = shape_final_mark [OF sh2 f', of loc]
      note room = qm_inv_room [OF inv ff]
      have used: "qm_used q \<le> qm_real_used q" using inv by (simp add: qm_inv_def)
      have ru: "add32 (qm_real_used q + FRAG_OVERHEAD d * k) (m2 f) = qm_real_used q + FRAG_OVERHEAD d * k + m2 f"
        and us: "add32 (qm_used q) (m2 f) = qm_used q + m2 f"
        using room sz used by (auto intro!: add32_id)
      define ru' where "ru' = qm_real_used q + FRAG_OVERHEAD d * k + m2 f"
      define mx where "mx = (if qm_max_real_used q < ru' then ru' else qm_max_real_used q)"
      define q' where "q' = q\<lparr>qm_used := qm_used q + m2 f, qm_real_used := ru',
        qm_max_real_used := mx, qm_mem := dbg_mark d loc f m2\<rparr>"
      have up: "qm_inv d q' fs' L'" "\<forall>x \<in> busy d fs L. \<forall>c \<in> extent d ?m x. dbg_mark d loc f m2 c = ?m c"
        unfolding q'_def ru'_def
        by (rule qm_inv_update [OF inv t2 len, where mx = mx]; use fin in \<open>simp add: dbg_mark_outside mx_def ru'_def\<close>)+
      have acc: "qm_account d loc f (q\<lparr>qm_real_used := qm_real_used q + FRAG_OVERHEAD d * k, qm_mem := m2\<rparr>) =
          (f + sizeof_frag d, q')"
        using us ru fin(2)
        by (simp add: qm_account_def Let_def q'_def mx_def ru'_def cong: if_cong split del: if_split)
      have "qm_malloc d loc size0 q = Some (Ret (f + sizeof_frag d, q'))"
        using guard 2(1,2) dbg q2 acc by (simp add: qm_malloc_def want_def [symmetric])
      then show ?thesis
        by (rule ok) (use guard up ff busy m2 waste 2(5,6) in \<open>simp_all add: q'_def\<close>)
    qed
  qed
qed

section \<open>Release\<close>

lemma qm_free_spec:
  assumes inv: "qm_inv d q fs L" and f: "f \<in> busy d fs L"
  obtains q' L' where "qm_free d loc (f + sizeof_frag d) q = Some (Ret q')" and "qm_inv d q' fs L'"
    and "free_set d L' = insert f (free_set d L)"
    and "\<forall>x \<in> busy d fs L - {f}. \<forall>c \<in> extent d (qm_mem q) x. qm_mem q' c = qm_mem q c"
proof -
  let ?m = "qm_mem q" and ?fh = "qm_free_hash q" and ?mk = "dbg_mark d loc f (qm_mem q)"
  let ?a = "qm_first_frag q" and ?b = "qm_last_frag_end q + sizeof_frag_end d"
  let ?N = "heads d ?fh \<union> set fs"
  note sh = qm_inv_shape [OF inv]
  have ff: "f \<in> set fs" "f \<notin> free_set d L" using f by auto
  note sh0 = shape_dbg_mark [OF sh ff(1), of loc]
  have size0: "?mk x = ?m x" if "x \<in> ?N" for x
  proof (cases "x = f")
    case False
    then show ?thesis using extents_disjoint [OF shape_spaced [OF sh] that, of f] ff(1)
      by (intro dbg_mark_outside) (auto simp: extent_def qm_layout)
  qed simp
  let ?qk = "q\<lparr>qm_used := qm_used q - ?m f, qm_real_used := qm_real_used q - ?m f, qm_mem := ?mk\<rparr>"
  have bounds: "?a \<le> f" "FRAG_NEXT d ?m f \<le> ?b" "?b \<le> 2 ^ 32"
    using tiled_bounds [OF shapeD(1) [OF sh] ff(1)] shapeD(7) [OF sh] by auto
  have sub: "sub32 (f + sizeof_frag d) (sizeof_frag d) = f"
    using bounds by (subst sub32_id) (auto simp: qm_layout split: if_splits)
  have "finite (busy d fs L)" by simp
  then have used: "?m f \<le> qm_used q" using inv f member_le_sum [of f "busy d fs L" ?m] by (simp add: qm_inv_def)
  have ru: "qm_used q \<le> qm_real_used q" "qm_real_used q < 2 ^ 32"
    using inv qm_inv_counters(2) [OF inv] by (simp_all add: qm_inv_def)
  have subs: "sub32 (qm_used q) (?m f) = qm_used q - ?m f" "sub32 (qm_real_used q) (?m f) = qm_real_used q - ?m f"
    using used ru by (auto intro!: sub32_id)
  obtain h xs ys m' where h: "h < QM_HASH_SIZE d" "L h = xs @ ys"
    and ins: "qm_insert_free d f ?qk = Some (?qk\<lparr>qm_mem := m'\<rparr>)"
    and sh': "shape d ?fh ?a ?b m' fs (L(h := xs @ f # ys))"
    and fr: "\<And>c. c \<notin> link_area d ?mk (heads d ?fh \<union> insert f (free_set d L)) \<Longrightarrow> m' c = ?mk c"
    by (rule insert_shape [of d ?qk ?a ?b fs L f]) (use sh0 ff in auto)
  have free: "free_set d (L(h := xs @ f # ys)) = insert f (free_set d L)"
    by (rule free_set_add [where L = L and h = h, OF h])
  have keep: "m' c = ?m c" if x: "x \<in> busy d fs L - {f}" and c: "c \<in> extent d ?m x" for x c
  proof -
    have xN: "x \<in> ?N" "x \<noteq> f" "x \<notin> heads d ?fh" using x shape_heads_frags [OF sh, of x x] by auto
    have "extent d ?mk x = extent d ?m x" using size0 [OF xN(1)] by (simp add: extent_def)
    moreover have "link_area d ?mk (heads d ?fh \<union> insert f (free_set d L)) \<inter> extent d ?mk x = {}"
      by (rule link_area_extent [OF shape_spaced [OF sh0] xN(1)])
        (use free_set_frags [OF sh] ff x xN in blast)
    ultimately have "m' c = ?mk c" using c by (intro fr) blast
    moreover have "c \<notin> extent d ?m f"
      using extents_disjoint [OF shape_spaced [OF sh] xN(1) _ xN(2)] ff(1) c by blast
    ultimately show ?thesis by (simp add: dbg_mark_outside)
  qed
  have size: "m' x = ?m x" and mark: "m' (x + 4) = ?m (x + 4)" if "x \<in> busy d fs L - {f}" for x
    by (rule keep [OF that], simp add: extent_def qm_layout)+
  have "busy d fs (L(h := xs @ f # ys)) = busy d fs L - {f}" unfolding free by blast
  moreover have "(\<Sum>x \<in> busy d fs L - {f}. m' x) = (\<Sum>x \<in> busy d fs L - {f}. ?m x)"
    by (rule sum.cong) (auto simp: size)
  moreover have "(\<Sum>x \<in> busy d fs L. ?m x) = ?m f + (\<Sum>x \<in> busy d fs L - {f}. ?m x)"
    using f by (intro sum.remove) auto
  ultimately have sum: "(\<Sum>x \<in> busy d fs (L(h := xs @ f # ys)). m' x) = qm_used q - ?m f"
    using inv by (simp add: qm_inv_def)
  have marks: "\<forall>x \<in> busy d fs (L(h := xs @ f # ys)). nxt_free m' x = 0"
    unfolding free using inv mark by (simp add: qm_inv_def nxt_free_def)
  let ?q' = "?qk\<lparr>qm_mem := m'\<rparr>"
  have "qm_inv d ?q' fs (L(h := xs @ f # ys))"
  proof -
    have i: "fs \<noteq> []" "qm_first_frag q + qm_size q + FRAG_OVERHEAD d = ?b" "init_overhead d + qm_size q < 2 ^ 32"
      using inv by (simp_all add: qm_inv_def)
    have "qm_real_used q = init_overhead d + qm_used q + FRAG_OVERHEAD d * (length fs - 1)"
      and "qm_real_used q \<le> qm_max_real_used q"
      using inv by (simp_all add: qm_inv_def)
    then have "qm_real_used q - ?m f = init_overhead d + (qm_used q - ?m f) + FRAG_OVERHEAD d * (length fs - 1)"
      and "qm_real_used q - ?m f \<le> qm_max_real_used q"
      using used by linarith+
    then show ?thesis using i sh' sum marks unfolding qm_inv_def by simp
  qed
  moreover have "qm_free d loc (f + sizeof_frag d) q = Some (Ret ?q')"
  proof -
    have "\<not> (d \<and> (qm_last_frag_end q < f + sizeof_frag d \<or> f + sizeof_frag d < ?a))"
      using bounds by (auto simp: FRAG_NEXT_def)
    moreover have "\<not> (d \<and> \<not> qm_debug_frag q f)" using debug_frag_ok [of q fs L f] inv ff by (cases d) auto
    moreover have "nxt_free ?m f = 0" using qm_inv_marks [OF inv ff(1)] ff by simp
    ultimately show ?thesis using ins sub subs frag_pos [OF sh ff(1)]
      by (simp add: qm_free_def Let_def)
  qed
  ultimately show ?thesis by (intro that [of ?q']) (use free keep in auto)
qed

text \<open>In the debugging build a second release of a block, or the release of the null pointer, aborts.\<close>

lemma qm_free_twice:
  assumes inv: "qm_inv True q fs L" and f: "f \<in> free_set True L"
  shows "qm_free True loc (f + sizeof_frag True) q = Some Aborted"
proof -
  note sh = qm_inv_shape [OF inv]
  have ff: "f \<in> set fs" using free_set_frags [OF sh] f by blast
  have bounds: "FRAG_NEXT True (qm_mem q) f \<le> qm_last_frag_end q + sizeof_frag_end True"
      "qm_last_frag_end q + sizeof_frag_end True \<le> 2 ^ 32"
    using tiled_bounds [OF shapeD(1) [OF sh] ff] shapeD(7) [OF sh] by auto
  have "sub32 (f + sizeof_frag True) (sizeof_frag True) = f"
    using bounds by (subst sub32_id) (auto simp: qm_layout)
  moreover have "nxt_free (qm_mem q) f \<noteq> 0" using qm_inv_marks [OF inv ff] f by simp
  ultimately show ?thesis using frag_pos [OF sh ff] by (simp add: qm_free_def Let_def)
qed

section \<open>Initialisation\<close>

lemma init_heads_outside:
  "c < a \<or> a + FRAG_OVERHEAD d * n \<le> c \<Longrightarrow> init_heads d a n m c = m c"
proof (induction n)
  case (Suc n)
  have "a \<le> free_head d a n" "free_head d a n + FRAG_OVERHEAD d = a + FRAG_OVERHEAD d * Suc n"
    by (simp_all add: free_head_def)
  then have "c < free_head d a n \<or> free_head d a n + FRAG_OVERHEAD d \<le> c" using Suc.prems by linarith
  moreover have "init_heads d a n m c = m c"
    using Suc \<open>a \<le> free_head d a n\<close> by (auto simp: free_head_def)
  ultimately show ?case by (cases d) (auto simp: Let_def qm_layout)
qed simp

lemma init_heads_inside:
  assumes "h < n"
  shows "init_heads d a n m (free_head d a h) = 0"
    and "init_heads d a n m (free_head d a h + 4) = free_head d a h"
    and "init_heads d a n m (free_head d a h + sizeof_frag d + end_words d + 4) = free_head d a h"
  using assms
proof (induction n)
  case (Suc n)
  let ?hd = "free_head d a n" and ?x = "free_head d a h"
  have far: "?x + FRAG_OVERHEAD d \<le> ?hd" if "h < n"
  proof -
    have "FRAG_OVERHEAD d * Suc h \<le> FRAG_OVERHEAD d * n" using that by (intro mult_le_mono2) simp
    then show ?thesis by (simp add: free_head_def)
  qed
  case 1
  then show ?case using far Suc by (cases "h = n") (auto simp: Let_def qm_layout less_Suc_eq)
  case 2
  then show ?case using far Suc by (cases "h = n") (auto simp: Let_def qm_layout less_Suc_eq)
  case 3
  then show ?case using far Suc by (cases "h = n") (auto simp: Let_def qm_layout less_Suc_eq)
qed simp_all

lemma ROUNDUP_block:
  "sizeof_qm_block d \<le> ROUNDUP d (sizeof_qm_block d)" "ROUNDTO d dvd ROUNDUP d (sizeof_qm_block d)"
  "24 + FRAG_OVERHEAD d * QM_HASH_SIZE d = sizeof_qm_block d" "ROUNDTO d dvd FRAG_OVERHEAD d"
  by (cases d; simp add: sizeof_qm_block_def ROUNDUP_def add32_def ROUNDTO_def QM_HASH_SIZE_def
      QM_MALLOC_OPTIMIZE_def FRAG_OVERHEAD_def sizeof_frag_def sizeof_frag_end_def)+

text \<open>The pool before its only fragment is put on a list.\<close>

lemma fresh_shape:
  assumes fh: "0 < fh" "fh + FRAG_OVERHEAD d * QM_HASH_SIZE d \<le> a" and b: "a + FRAG_OVERHEAD d + m a \<le> 2 ^ 32"
    and R: "ROUNDTO d dvd a" and ok: "frag_ok d m a"
  defines "m' \<equiv> init_heads d fh (QM_HASH_SIZE d) m"
  shows "shape d fh a (a + FRAG_OVERHEAD d + m' a) m' [a] (\<lambda>_. [])"
proof -
  have out: "m' c = m c" if "a \<le> c" for c
    unfolding m'_def by (rule init_heads_outside) (use fh(2) that in linarith)
  have "frag_ok d m' a"
  proof (rule frag_ok_cong [OF _ ok], rule ballI)
    fix c assume "c \<in> frag_cells d m a"
    then have "a \<le> c" using frag_cells_extent [of d m a] by (auto simp: extent_def)
    then show "m' c = m c" by (rule out)
  qed
  moreover have "m' (free_head d fh h) = 0" if "h < QM_HASH_SIZE d" for h
    unfolding m'_def by (rule init_heads_inside(1) [OF that])
  moreover have "bucket_ok d fh m' (set [a]) h []" if "h < QM_HASH_SIZE d" for h
  proof -
    let ?hd = "free_head d fh h"
    have "0 < ?hd" using fh(1) by (simp add: free_head_def)
    moreover have "m' ?hd = 0" "m' (?hd + 4) = ?hd" "m' (?hd + sizeof_frag d + end_words d + 4) = ?hd"
      unfolding m'_def by (rule init_heads_inside [OF that])+
    ultimately show ?thesis
      unfolding bucket_ok_def ring_def links_def nxt_free_def prev_free_at_def FRAG_END_def by simp
  qed
  ultimately show ?thesis
    using fh b R out [of a] by (simp add: shape_def FRAG_NEXT_extent heads_def)
qed

lemma qm_malloc_init_spec:
  assumes addr: "0 < address" "address + ROUNDTO d \<le> 2 ^ 32" and top: "address + size0 \<le> 2 ^ 32" and size: "size0 < 2 ^ 32"
  obtains (small) "qm_malloc_init d address size0 m = Some None" and "size0 < init_overhead d + 2 * ROUNDTO d"
    | (ok) q f L where "qm_malloc_init d address size0 m = Some (Some q)" and "qm_inv d q [f] L" and "busy d [f] L = {}"
        and "size0 < qm_size q + init_overhead d + 2 * ROUNDTO d"
proof -
  define start where "start = ROUNDUP d address"
  define skip where "skip = sub32 start address"
  define size1 where "size1 = size0 - skip"
  define size2 where "size2 = ROUNDDOWN d size1"
  define io where "io = ROUNDUP d (sizeof_qm_block d) + sizeof_frag d + sizeof_frag_end d"
  have R: "0 < ROUNDTO d" by (simp add: ROUNDTO_def)
  have st: "address \<le> start" "start < address + ROUNDTO d" "start < 2 ^ 32" "ROUNDTO d dvd start"
    using ROUNDUP_ge [OF addr(2)] ROUNDUP_bounds unfolding start_def by auto
  have skip: "skip = start - address" unfolding skip_def using st by (intro sub32_id)
  have io: "io = init_overhead d" by (simp add: io_def init_overhead_def FRAG_OVERHEAD_def)
  have s2: "size2 \<le> size1" "size1 < size2 + ROUNDTO d" "ROUNDTO d dvd size2"
    using R div_mult_mod_eq [of size1 "ROUNDTO d"] mod_less_divisor [OF R, of size1]
    unfolding size2_def ROUNDDOWN_def by (linarith, linarith, simp)
  have min: "MIN_FRAG_SIZE d + FRAG_OVERHEAD d \<le> io + ROUNDTO d"
    by (simp add: io init_overhead_def MIN_FRAG_SIZE_def)
  show ?thesis
  proof (cases "size0 < skip \<or> size1 < MIN_FRAG_SIZE d + FRAG_OVERHEAD d \<or> size2 < io")
    case True
    then have "size0 < init_overhead d + 2 * ROUNDTO d"
      using st skip s2 min unfolding io size1_def by linarith
    moreover have "qm_malloc_init d address size0 m = Some None"
      using True unfolding qm_malloc_init_def Let_def start_def [symmetric] skip_def [symmetric]
        size1_def [symmetric] size2_def [symmetric] io_def [symmetric] by auto
    ultimately show ?thesis by (intro small)
  next
    case False
    define first where "first = start + ROUNDUP d (sizeof_qm_block d)"
    define size3 where "size3 = size2 - io"
    define le where "le = start + size2 - sizeof_frag_end d"
    define mb where "mb = (\<lambda>c. if start \<le> c \<and> c < start + sizeof_qm_block d then 0 else m c)"
    define mf where "mf = mb(first := size3, le + end_words d := size3)"
    define mc where "mc = (if d then mf(first + 20 := ST_CHECK_PATTERN, le := END_CHECK_PATTERN1,
                                     le + 4 := END_CHECK_PATTERN2) else mf)"
    define mh where "mh = init_heads d (start + 24) (QM_HASH_SIZE d) mc"
    define qi where "qi = \<lparr>qm_size = size3, qm_used = 0, qm_real_used = io, qm_max_real_used = io,
      qm_first_frag = first, qm_last_frag_end = le, qm_free_hash = start + 24, qm_mem = mh\<rparr>"
    have e: "qm_malloc_init d address size0 m = map_option Some (qm_insert_free d first qi)"
      using False unfolding qm_malloc_init_def Let_def start_def [symmetric] skip_def [symmetric]
        size1_def [symmetric] size2_def [symmetric] io_def [symmetric] qi_def mh_def mc_def mf_def mb_def
        first_def le_def size3_def by simp
    have le: "le = first + sizeof_frag d + size3" and tot: "first + FRAG_OVERHEAD d + size3 = start + size2"
      using False unfolding le_def first_def size3_def io_def FRAG_OVERHEAD_def by linarith+
    have b: "start + size2 \<le> 2 ^ 32" "size2 < 2 ^ 32" using False s2 st top size skip unfolding size1_def by linarith+
    have "ROUNDTO d dvd io" using ROUNDUP_block [of d] by (simp add: io init_overhead_def)
    then have dvd: "ROUNDTO d dvd size3" unfolding size3_def using s2(3) by (rule dvd_diff_nat [rotated])
    have mc: "mc first = size3" and fok: "frag_ok d mc first"
      using dvd by (cases d; simp add: mc_def mf_def le frag_ok_def qm_layout add_ac)+
    have "start + 24 + FRAG_OVERHEAD d * QM_HASH_SIZE d \<le> first"
      using ROUNDUP_block(1,3) [of d] unfolding first_def by linarith
    moreover have "ROUNDTO d dvd first" unfolding first_def using st(4) ROUNDUP_block(2) by (rule dvd_add)
    ultimately have "shape d (start + 24) first (first + FRAG_OVERHEAD d + mh first) mh [first] (\<lambda>_. [])"
      unfolding mh_def by (intro fresh_shape) (use mc fok b tot in simp_all)
    moreover have mh: "mh first = size3"
      unfolding mh_def mc [symmetric] using \<open>start + 24 + FRAG_OVERHEAD d * QM_HASH_SIZE d \<le> first\<close>
      by (intro init_heads_outside) simp
    ultimately have sh: "shape d (start + 24) first (le + sizeof_frag_end d) mh [first] (\<lambda>_. [])"
      by (simp add: le FRAG_OVERHEAD_def add_ac)
    have none: "free_set d (\<lambda>_. []) = {}" by (simp add: free_set_def)
    obtain h xs ys m' where h: "h < QM_HASH_SIZE d" "[] = xs @ ys"
      and ins: "qm_insert_free d first qi = Some (qi\<lparr>qm_mem := m'\<rparr>)"
      and sh': "shape d (qm_free_hash qi) first (le + sizeof_frag_end d) m' [first] ((\<lambda>_. [])(h := xs @ first # ys))"
    proof -
      have "shape d (qm_free_hash qi) first (le + sizeof_frag_end d) (qm_mem qi) [first] (\<lambda>_. [])"
        using sh by (simp add: qi_def)
      then show ?thesis
        by (rule insert_shape [of d qi first "le + sizeof_frag_end d" "[first]" "\<lambda>_. []" first])
          (simp, simp add: none, rule that)
    qed
    have free: "free_set d ((\<lambda>_. [])(h := xs @ first # ys)) = {first}"
      using free_set_add [where L = "\<lambda>_. []" and h = h, OF h(1), of xs ys first] h(2) none by simp
    have inv: "qm_inv d (qi\<lparr>qm_mem := m'\<rparr>) [first] ((\<lambda>_. [])(h := xs @ first # ys))"
      unfolding qm_inv_def free using sh' b tot False
      by (simp add: qi_def io le FRAG_OVERHEAD_def size3_def)
    have sz: "size0 < qm_size (qi\<lparr>qm_mem := m'\<rparr>) + init_overhead d + 2 * ROUNDTO d"
      using False st skip s2 unfolding size1_def io by (simp add: qi_def size3_def io)
    have none: "busy d [first] ((\<lambda>_. [])(h := xs @ first # ys)) = {}" unfolding free by simp
    have "qm_malloc_init d address size0 m = Some (Some (qi\<lparr>qm_mem := m'\<rparr>))" using e ins by simp
    then show ?thesis by (rule ok [OF _ inv none sz])
  qed
qed

end
