(* ===== verification/Qm_Safety.thy ===== *)
theory Qm_Safety
  imports Qm_Contract
begin

text \<open>
  The pool of mem/q\_malloc.c as its clients see it: the blocks in use, every way of using a pool
  as an inductive predicate, the allocator contract (locale \<open>allocator\<close> of the prelude, on which
  the components rely) as an interpretation, and the properties of the allocator.
\<close>

section \<open>Blocks in use\<close>

definition qm_live :: "bool \<Rightarrow> qm_block \<Rightarrow> ptr set" where
  "qm_live d q = (\<lambda>f. f + sizeof_frag d) ` {f \<in> set (frags_from d (qm_mem q) (qm_last_frag_end q) (qm_first_frag q)).
     nxt_free (qm_mem q) f = 0}"

text \<open>The addresses of a block that was given out at \<open>p\<close>.\<close>

definition qm_block_at :: "bool \<Rightarrow> qm_block \<Rightarrow> ptr \<Rightarrow> ptr set" where
  "qm_block_at d q p = {p ..< p + qm_mem q (p - sizeof_frag d)}"

definition qm_wf :: "bool \<Rightarrow> qm_block \<Rightarrow> bool" where
  "qm_wf d q \<longleftrightarrow> (\<exists>fs L. qm_inv d q fs L)"

lemma qm_live_busy:
  assumes "qm_inv d q fs L"
  shows "qm_live d q = (\<lambda>f. f + sizeof_frag d) ` busy d fs L"
proof -
  have "frags_from d (qm_mem q) (qm_last_frag_end q) (qm_first_frag q) = fs"
    by (rule frags_from_tiled [OF shapeD(1) [OF qm_inv_shape [OF assms]]])
  then have "{f \<in> set (frags_from d (qm_mem q) (qm_last_frag_end q) (qm_first_frag q)). nxt_free (qm_mem q) f = 0} =
      busy d fs L"
    using qm_inv_marks [OF assms] by auto
  then show ?thesis unfolding qm_live_def by simp
qed

text \<open>What a client writes into its block leaves the invariant as it is.\<close>

lemma client_write:
  assumes inv: "qm_inv d q fs L" and p: "p \<in> qm_live d q" and c: "c \<in> qm_block_at d q p"
  shows "qm_inv d (q\<lparr>qm_mem := (qm_mem q)(c := v)\<rparr>) fs L"
proof -
  note sh = qm_inv_shape [OF inv]
  let ?N = "heads d (qm_free_hash q) \<union> set fs"
  obtain f where f: "f \<in> busy d fs L" "p = f + sizeof_frag d" using p qm_live_busy [OF inv] by auto
  have cf: "f + sizeof_frag d \<le> c" "c < f + sizeof_frag d + qm_mem q f"
    using c f(2) by (auto simp: qm_block_at_def)
  then have ext: "c \<in> extent d (qm_mem q) f" by (simp add: extent_def FRAG_OVERHEAD_def)
  have cells: "((qm_mem q)(c := v)) e = qm_mem q e" if "x \<in> ?N" "e \<in> frag_cells d (qm_mem q) x" for x e
  proof (cases "x = f")
    case True
    then have "e \<noteq> c" using that cf by (auto simp: frag_cells_def qm_layout split: if_splits)
    then show ?thesis by simp
  next
    case False
    have "f \<in> ?N" using f(1) by blast
    then have "e \<noteq> c"
      using extents_disjoint [OF shape_spaced [OF sh] that(1) _ False] frag_cells_extent that(2) ext by blast
    then show ?thesis by simp
  qed
  have same: "((qm_mem q)(c := v)) x = qm_mem q x" and mark: "((qm_mem q)(c := v)) (x + 4) = qm_mem q (x + 4)"
    if "x \<in> set fs" for x
    by (rule cells [of x]; use that in \<open>simp add: frag_cells_def\<close>)+
  have "shape d (qm_free_hash q) (qm_first_frag q) (qm_last_frag_end q + sizeof_frag_end d) ((qm_mem q)(c := v)) fs L"
    by (rule shape_frame [OF sh]) (use cells in blast)
  moreover have "(\<Sum>f \<in> busy d fs L. ((qm_mem q)(c := v)) f) = (\<Sum>f \<in> busy d fs L. qm_mem q f)"
    by (rule sum.cong [OF refl], rule same) blast
  moreover have "\<forall>x \<in> busy d fs L. nxt_free ((qm_mem q)(c := v)) x = 0"
    using inv mark unfolding qm_inv_def nxt_free_def by auto
  ultimately show ?thesis using inv by (simp add: qm_inv_def del: fun_upd_apply)
qed

section \<open>The report\<close>

lemma count_free_shape:
  assumes sh: "shape d fh a b m fs L" and "\<forall>h \<in> set hs. h < QM_HASH_SIZE d"
  shows "count_free d m fh hs = Some (map (\<lambda>h. (h, length (L h))) (filter (\<lambda>h. L h \<noteq> []) hs))"
  using assms(2)
proof (induction hs)
  case (Cons h hs)
  then have "count_bucket m (free_head d fh h) (nxt_free m (free_head d fh h)) = Some (length (L h))"
    using bucket_ring(3,4) [OF sh, of h] by (intro count_bucket_seg [of d]) auto
  then show ?case using Cons by simp
qed simp

text \<open>\<open>qm_status\<close> returns; its rows are the blocks in use, its counts the lengths of the lists.\<close>

lemma qm_status_exact:
  assumes inv: "qm_inv d q fs L"
  obtains r where "qm_status d q = Some r" and "(\<lambda>(i, p, n). p) ` set (qr_allocated r) = qm_live d q"
    and "qr_free_counts r = map (\<lambda>h. (h, length (L h))) (filter (\<lambda>h. L h \<noteq> []) [0..<QM_HASH_SIZE d])"
proof -
  note sh = qm_inv_shape [OF inv]
  have fs: "frags_from d (qm_mem q) (qm_last_frag_end q) (qm_first_frag q) = fs"
    by (rule frags_from_tiled [OF shapeD(1) [OF sh]])
  let ?rows = "map (\<lambda>(i, f). (i, f + sizeof_frag d, qm_mem q f))
    (filter (\<lambda>(i, f). nxt_free (qm_mem q) f = 0) (zip [0..<length fs] fs))"
  have "(\<lambda>(i, p, n). p) ` set ?rows = (\<lambda>f. f + sizeof_frag d) ` (snd ` {x \<in> set (zip [0..<length fs] fs). nxt_free (qm_mem q) (snd x) = 0})"
    by (force simp: image_iff)
  also have "snd ` {x \<in> set (zip [0..<length fs] fs). nxt_free (qm_mem q) (snd x) = 0} =
      {f \<in> snd ` set (zip [0..<length fs] fs). nxt_free (qm_mem q) f = 0}" by auto
  also have "snd ` set (zip [0..<length fs] fs) = set fs" by (metis length_upt map_snd_zip list.set_map minus_nat.diff_0)
  finally have rows: "(\<lambda>(i, p, n). p) ` set ?rows = qm_live d q" unfolding qm_live_def fs .
  have counts: "count_free d (qm_mem q) (qm_free_hash q) [0..<QM_HASH_SIZE d] =
      Some (map (\<lambda>h. (h, length (L h))) (filter (\<lambda>h. L h \<noteq> []) [0..<QM_HASH_SIZE d]))"
    by (rule count_free_shape [OF sh]) simp
  have "qm_status d q = Some \<lparr>qr_counters = [qm_size q, qm_used q, qm_real_used q,
        sub32 (qm_size q) (qm_real_used q), qm_max_real_used q],
      qr_allocated = ?rows,
      qr_free_counts = map (\<lambda>h. (h, length (L h))) (filter (\<lambda>h. L h \<noteq> []) [0..<QM_HASH_SIZE d])\<rparr>"
    by (simp add: qm_status_def Let_def fs counts)
  then show ?thesis by (rule that) (simp_all only: qm_report.select_convs rows)
qed

section \<open>The allocator as its clients use it\<close>

text \<open>
  Every use of a pool: it is set up in an area of memory, blocks are asked for and given back
  by clients that release what they hold, and written to inside their bounds.
\<close>

inductive qm_reach :: "bool \<Rightarrow> qm_block \<Rightarrow> bool" for d where
  init: "0 < address \<Longrightarrow> address + ROUNDTO d \<le> 2 ^ 32 \<Longrightarrow> address + sz \<le> 2 ^ 32 \<Longrightarrow> sz < 2 ^ 32 \<Longrightarrow>
    qm_malloc_init d address sz m = Some (Some q) \<Longrightarrow> qm_reach d q"
| malloc: "qm_reach d q \<Longrightarrow> qm_malloc d loc sz q = Some (Ret (p, q')) \<Longrightarrow> qm_reach d q'"
| free: "qm_reach d q \<Longrightarrow> p \<in> qm_live d q \<Longrightarrow> qm_free d loc p q = Some (Ret q') \<Longrightarrow> qm_reach d q'"
| client: "qm_reach d q \<Longrightarrow> p \<in> qm_live d q \<Longrightarrow> c \<in> qm_block_at d q p \<Longrightarrow>
    qm_reach d (q\<lparr>qm_mem := (qm_mem q)(c := v)\<rparr>)"

lemma qm_reach_wf: "qm_reach d q \<Longrightarrow> qm_wf d q"
proof (induction rule: qm_reach.induct)
  case (init address sz m q)
  then show ?case
    by (cases rule: qm_malloc_init_spec [OF init(1-4), of m]) (auto simp: qm_wf_def)
next
  case (malloc q loc sz p q')
  then obtain fs L where inv: "qm_inv d q fs L" by (auto simp: qm_wf_def)
  show ?case
    by (cases rule: qm_malloc_spec [OF inv, of loc sz]) (use malloc inv in \<open>auto simp: qm_wf_def\<close>)
next
  case (free q p loc q')
  then obtain fs L where inv: "qm_inv d q fs L" by (auto simp: qm_wf_def)
  obtain f where "f \<in> busy d fs L" "p = f + sizeof_frag d" using free(2) qm_live_busy [OF inv] by auto
  then show ?case
    using free by (cases rule: qm_free_spec [OF inv, of f loc]) (auto simp: qm_wf_def)
next
  case (client q p c v)
  then obtain fs L where inv: "qm_inv d q fs L" by (auto simp: qm_wf_def)
  show ?case using client_write [OF inv client(2,3)] by (auto simp: qm_wf_def)
qed

lemma live_blocks_disjoint:
  assumes inv: "qm_inv d q fs L" and "p \<in> qm_live d q" and "p' \<in> qm_live d q" and "p \<noteq> p'"
  shows "qm_block_at d q p \<inter> qm_block_at d q p' = {}"
proof -
  obtain f g where f: "f \<in> set fs" "p = f + sizeof_frag d" and g: "g \<in> set fs" "p' = g + sizeof_frag d"
    using assms(2,3) qm_live_busy [OF inv] by auto
  have "extent d (qm_mem q) f \<inter> extent d (qm_mem q) g = {}"
    by (rule extents_disjoint [OF shape_spaced [OF qm_inv_shape [OF inv]]]) (use f g assms(4) in auto)
  moreover have "qm_block_at d q p \<subseteq> extent d (qm_mem q) f" "qm_block_at d q p' \<subseteq> extent d (qm_mem q) g"
    unfolding f g by (auto simp: qm_block_at_def extent_def FRAG_OVERHEAD_def)
  ultimately show ?thesis by blast
qed

section \<open>The contract of an allocator\<close>

text \<open>
  The calls as a client sees them that releases only blocks it was given (other releases are no
  calls of a correct client, and change nothing here). The equations below show that on a pool
  in order the calls always return, so that the default is never used.
\<close>

definition qm_alloc :: "bool \<Rightarrow> dbg_loc \<Rightarrow> nat \<Rightarrow> qm_block \<Rightarrow> ptr \<times> qm_block" where
  "qm_alloc d loc sz q = (case qm_malloc d loc sz q of Some (Ret r) \<Rightarrow> r | _ \<Rightarrow> (NULL, q))"

definition qm_release :: "bool \<Rightarrow> dbg_loc \<Rightarrow> ptr \<Rightarrow> qm_block \<Rightarrow> qm_block" where
  "qm_release d loc p q =
     (if p \<in> qm_live d q then case qm_free d loc p q of Some (Ret q') \<Rightarrow> q' | _ \<Rightarrow> q else q)"

lemma qm_malloc_live:
  assumes "qm_wf d q"
  obtains (fail) "qm_malloc d loc sz q = Some (Ret (NULL, q))"
    | (ok) p q' where "qm_malloc d loc sz q = Some (Ret (p, q'))" and "p \<noteq> NULL" and "qm_wf d q'"
        and "p \<notin> qm_live d q" and "qm_live d q' = insert p (qm_live d q)"
proof -
  obtain fs L where inv: "qm_inv d q fs L" using assms by (auto simp: qm_wf_def)
  show ?thesis
  proof (cases rule: qm_malloc_spec [OF inv, of loc sz])
    case 1
    then show ?thesis by (intro fail)
  next
    case (2 f q' fs' L')
    have "f + sizeof_frag d \<notin> qm_live d q" using 2(4) unfolding qm_live_busy [OF inv] by auto
    moreover have "qm_live d q' = insert (f + sizeof_frag d) (qm_live d q)"
      unfolding qm_live_busy [OF 2(3)] 2(5) qm_live_busy [OF inv] by simp
    moreover have "f + sizeof_frag d \<noteq> NULL" by (simp add: sizeof_frag_def)
    ultimately show ?thesis using 2(1,3) by (intro ok [of "f + sizeof_frag d" q']) (auto simp: qm_wf_def)
  qed
qed

lemma qm_free_live:
  assumes "qm_wf d q" and "p \<in> qm_live d q"
  obtains q' where "qm_free d loc p q = Some (Ret q')" and "qm_wf d q'" and "qm_live d q' = qm_live d q - {p}"
proof -
  obtain fs L where inv: "qm_inv d q fs L" using assms by (auto simp: qm_wf_def)
  obtain f where f: "f \<in> busy d fs L" "p = f + sizeof_frag d" using assms(2) qm_live_busy [OF inv] by auto
  show ?thesis
  proof (cases rule: qm_free_spec [OF inv f(1), of loc])
    case (1 q' L')
    have b: "busy d fs L' = busy d fs L - {f}" using 1(3) by blast
    have "inj (\<lambda>f. f + sizeof_frag d)" by (simp add: inj_def)
    then have "qm_live d q' = qm_live d q - {p}"
      unfolding qm_live_busy [OF 1(2)] qm_live_busy [OF inv] f(2) b by (simp add: image_set_diff)
    moreover have "qm_free d loc p q = Some (Ret q')" using 1(1) f(2) by simp
    moreover have "qm_wf d q'" using 1(2) unfolding qm_wf_def by blast
    ultimately show ?thesis by (intro that)
  qed
qed

interpretation qm: allocator "qm_alloc d loc sz" "qm_release d loc" "qm_live d" "qm_wf d"
  for d loc sz
proof
  fix q q' p
  assume wf: "qm_wf d q"
  show "qm_live d q' = qm_live d q" if "qm_alloc d loc sz q = (NULL, q')"
    using that by (cases rule: qm_malloc_live [OF wf, of loc sz]) (auto simp: qm_alloc_def)
  show "p \<notin> qm_live d q" if "qm_alloc d loc sz q = (p, q')" "p \<noteq> NULL"
    using that by (cases rule: qm_malloc_live [OF wf, of loc sz]) (auto simp: qm_alloc_def)
  show "qm_live d q' = insert p (qm_live d q)" if "qm_alloc d loc sz q = (p, q')" "p \<noteq> NULL"
    using that by (cases rule: qm_malloc_live [OF wf, of loc sz]) (auto simp: qm_alloc_def)
  show "qm_wf d q'" if "qm_alloc d loc sz q = (p, q')"
    using that wf by (cases rule: qm_malloc_live [OF wf, of loc sz]) (auto simp: qm_alloc_def)
  have "qm_wf d (qm_release d loc p q) \<and> qm_live d (qm_release d loc p q) = qm_live d q - {p}"
  proof (cases "p \<in> qm_live d q")
    case True
    then show ?thesis by (rule qm_free_live [OF wf, of p loc]) (simp add: qm_release_def True)
  qed (use wf in \<open>simp add: qm_release_def\<close>)
  then show "qm_live d (qm_release d loc p q) = qm_live d q - {p}" and "qm_wf d (qm_release d loc p q)" by blast+
qed

section \<open>Properties\<close>

lemma block_at_frag: "qm_block_at d q (f + sizeof_frag d) = {f + sizeof_frag d ..< f + sizeof_frag d + qm_mem q f}"
  by (simp add: qm_block_at_def)

lemma live_kept:
  assumes inv: "qm_inv d q fs L" and B: "B \<subseteq> busy d fs L"
    and keep: "\<forall>x \<in> B. \<forall>c \<in> extent d (qm_mem q) x. qm_mem q' c = qm_mem q c"
    and p: "p \<in> (\<lambda>f. f + sizeof_frag d) ` B"
  shows "qm_block_at d q' p = qm_block_at d q p" and "\<forall>c \<in> qm_block_at d q p. qm_mem q' c = qm_mem q c"
proof -
  obtain x where x: "x \<in> B" "p = x + sizeof_frag d" using p by blast
  have k: "qm_mem q' c = qm_mem q c" if "c \<in> extent d (qm_mem q) x" for c using keep x(1) that by blast
  have "qm_mem q' x = qm_mem q x" by (rule k) (simp add: extent_def)
  then show "qm_block_at d q' p = qm_block_at d q p" unfolding x(2) block_at_frag by simp
  show "\<forall>c \<in> qm_block_at d q p. qm_mem q' c = qm_mem q c"
    unfolding x(2) block_at_frag by (auto intro!: k simp: extent_def FRAG_OVERHEAD_def)
qed

lemma malloc_step_sound:
  assumes "qm_wf d q"
  shows "\<exists>p q'. qm_malloc d loc sz q = Some (Ret (p, q')) \<and> (p = NULL \<longrightarrow> q' = q) \<and>
    (p \<noteq> NULL \<longrightarrow> p \<notin> qm_live d q \<and> qm_live d q' = insert p (qm_live d q) \<and>
       (sz + ROUNDTO d \<le> 2 ^ 32 \<longrightarrow> sz \<le> card (qm_block_at d q' p))) \<and>
    (\<forall>x \<in> qm_live d q. qm_block_at d q' x = qm_block_at d q x \<and>
       (\<forall>c \<in> qm_block_at d q x. qm_mem q' c = qm_mem q c))"
proof -
  obtain fs L where inv: "qm_inv d q fs L" using assms by (auto simp: qm_wf_def)
  show ?thesis
  proof (cases rule: qm_malloc_spec [OF inv, of loc sz])
    case 1
    then show ?thesis by simp
  next
    case (2 f q' fs' L')
    have "f + sizeof_frag d \<notin> qm_live d q" using 2(4) unfolding qm_live_busy [OF inv] by auto
    moreover have "qm_live d q' = insert (f + sizeof_frag d) (qm_live d q)"
      unfolding qm_live_busy [OF 2(3)] 2(5) qm_live_busy [OF inv] by simp
    moreover have "sz + ROUNDTO d \<le> 2 ^ 32 \<longrightarrow> sz \<le> card (qm_block_at d q' (f + sizeof_frag d))"
      using ROUNDUP_ge [of sz d] 2(6) unfolding block_at_frag by auto
    moreover have "f + sizeof_frag d \<noteq> NULL" by (simp add: sizeof_frag_def)
    moreover have "\<forall>x \<in> qm_live d q. qm_block_at d q' x = qm_block_at d q x \<and>
       (\<forall>c \<in> qm_block_at d q x. qm_mem q' c = qm_mem q c)"
      using live_kept [OF inv order_refl 2(9)] unfolding qm_live_busy [OF inv] by blast
    ultimately show ?thesis using 2(1) by auto
  qed
qed

lemma free_step_sound:
  assumes "qm_wf d q" and "p \<in> qm_live d q"
  shows "\<exists>q'. qm_free d loc p q = Some (Ret q') \<and> qm_live d q' = qm_live d q - {p} \<and>
    (\<forall>x \<in> qm_live d q - {p}. qm_block_at d q' x = qm_block_at d q x \<and>
       (\<forall>c \<in> qm_block_at d q x. qm_mem q' c = qm_mem q c))"
proof -
  obtain fs L where inv: "qm_inv d q fs L" using assms by (auto simp: qm_wf_def)
  obtain f where f: "f \<in> busy d fs L" "p = f + sizeof_frag d" using assms(2) qm_live_busy [OF inv] by auto
  have inj: "inj (\<lambda>f. f + sizeof_frag d)" by (simp add: inj_def)
  then have rest: "qm_live d q - {p} = (\<lambda>f. f + sizeof_frag d) ` (busy d fs L - {f})"
    unfolding qm_live_busy [OF inv] f(2) by (simp add: image_set_diff)
  show ?thesis
  proof (cases rule: qm_free_spec [OF inv f(1), of loc])
    case (1 q' L')
    have b: "busy d fs L' = busy d fs L - {f}" using 1(3) by blast
    have "qm_live d q' = qm_live d q - {p}" unfolding rest qm_live_busy [OF 1(2)] b ..
    moreover have "\<forall>x \<in> qm_live d q - {p}. qm_block_at d q' x = qm_block_at d q x \<and>
       (\<forall>c \<in> qm_block_at d q x. qm_mem q' c = qm_mem q c)"
      using live_kept [OF inv Diff_subset 1(4)] unfolding rest by blast
    ultimately show ?thesis using 1(1) f(2) by blast
  qed
qed

text \<open>
  (C28) A pool that was set up by \<open>qm_malloc_init\<close> and is then used through \<open>qm_malloc\<close> and
  \<open>qm_free\<close> by clients that write inside their blocks and release only blocks they hold stays in
  order: every call returns (no loop of the allocator runs on, no check of the debugging
  build aborts), a block that is given out was not in use and has at least the size that was
  asked for unless the size wraps around when it is rounded up, the blocks in use do not overlap, and
  no call changes the extent or the contents of a block in use.
\<close>

theorem qm_pool_sound:
  assumes "qm_reach d q"
  shows "(\<forall>loc sz. \<exists>p q'. qm_malloc d loc sz q = Some (Ret (p, q')) \<and> (p = NULL \<longrightarrow> q' = q) \<and>
      (p \<noteq> NULL \<longrightarrow> p \<notin> qm_live d q \<and> qm_live d q' = insert p (qm_live d q) \<and>
         (sz + ROUNDTO d \<le> 2 ^ 32 \<longrightarrow> sz \<le> card (qm_block_at d q' p))) \<and>
      (\<forall>x \<in> qm_live d q. qm_block_at d q' x = qm_block_at d q x \<and>
         (\<forall>c \<in> qm_block_at d q x. qm_mem q' c = qm_mem q c))) \<and>
    (\<forall>loc. \<forall>p \<in> qm_live d q. \<exists>q'. qm_free d loc p q = Some (Ret q') \<and> qm_live d q' = qm_live d q - {p} \<and>
      (\<forall>x \<in> qm_live d q - {p}. qm_block_at d q' x = qm_block_at d q x \<and>
         (\<forall>c \<in> qm_block_at d q x. qm_mem q' c = qm_mem q c))) \<and>
    (\<forall>p \<in> qm_live d q. \<forall>p' \<in> qm_live d q. p \<noteq> p' \<longrightarrow> qm_block_at d q p \<inter> qm_block_at d q p' = {})"
proof -
  have wf: "qm_wf d q" by (rule qm_reach_wf [OF assms])
  then obtain fs L where inv: "qm_inv d q fs L" by (auto simp: qm_wf_def)
  have dis: "\<forall>p \<in> qm_live d q. \<forall>p' \<in> qm_live d q. p \<noteq> p' \<longrightarrow> qm_block_at d q p \<inter> qm_block_at d q p' = {}"
    by (intro ballI impI) (rule live_blocks_disjoint [OF inv])
  show ?thesis
    by (intro conjI dis) (intro allI malloc_step_sound [OF wf], intro allI ballI free_step_sound [OF wf])
qed

lemma fresh_pool:
  assumes addr: "0 < address" "address + ROUNDTO d \<le> 2 ^ 32" "address + size0 \<le> 2 ^ 32" "size0 < 2 ^ 32"
    and fit: "ROUNDUP d sz + 2 * init_overhead d + 2 * ROUNDTO d \<le> size0"
  obtains q L f p q' where "qm_malloc_init d address size0 m = Some (Some q)" and "qm_inv d q [f] L"
    and "busy d [f] L = {}" and "qm_live d q = {}" and "size0 < qm_size q + init_overhead d + 2 * ROUNDTO d"
    and "qm_malloc d loc sz q = Some (Ret (p, q'))" and "p \<noteq> NULL"
proof (cases rule: qm_malloc_init_spec [OF addr, of m])
  case 1
  then show ?thesis using fit by linarith
next
  case (2 q f L)
  have free: "free_set d L = {f}" using free_set_frags [OF qm_inv_shape [OF 2(2)]] 2(3) by auto
  have ru: "qm_real_used q = init_overhead d" "qm_mem q f = qm_size q" "qm_size q < 2 ^ 32"
    using 2(2) qm_inv_total [OF 2(2)] unfolding qm_inv_def free by auto
  have big: "ROUNDUP d sz \<le> qm_size q" and "ROUNDUP d sz \<le> sub32 (qm_size q) (qm_real_used q)"
    using 2(4) fit ru by (auto simp: sub32_id)
  have live: "qm_live d q = {}" unfolding qm_live_busy [OF 2(2)] using 2(3) by simp
  show ?thesis
  proof (cases rule: qm_malloc_spec [OF 2(2), of loc sz])
    case 1
    then show ?thesis using \<open>ROUNDUP d sz \<le> sub32 _ _\<close> big ru free by auto
  next
    case (2 g q' fs' L')
    then show ?thesis
      using that [OF \<open>qm_malloc_init d address size0 m = Some (Some q)\<close> \<open>qm_inv d q [f] L\<close>
          \<open>busy d [f] L = {}\<close> live \<open>size0 < qm_size q + init_overhead d + 2 * ROUNDTO d\<close>]
      by (simp add: sizeof_frag_def)
  qed
qed

lemma init_overhead_eval [simp]: "init_overhead False = 2448" "init_overhead True = 25704"
  by (simp_all add: init_overhead_def ROUNDUP_def add32_def sizeof_qm_block_def QM_HASH_SIZE_def
      QM_MALLOC_OPTIMIZE_def ROUNDTO_def FRAG_OVERHEAD_def sizeof_frag_def sizeof_frag_end_def)

theorem qm_pool_sound_witness:
  "\<exists>q p q' q''. qm_malloc_init True 4096 65536 (\<lambda>_. 0) = Some (Some q) \<and>
     qm_malloc True \<lparr>dl_file = 0, dl_func = 0, dl_line = 7, dl_split = 0\<rparr> 100 q = Some (Ret (p, q')) \<and>
     qm_live True q' = {p} \<and> 100 \<le> card (qm_block_at True q' p) \<and>
     qm_free True \<lparr>dl_file = 0, dl_func = 0, dl_line = 9, dl_split = 0\<rparr> p q' = Some (Ret q'') \<and> qm_live True q'' = {}"
proof -
  let ?loc = "\<lparr>dl_file = 0, dl_func = 0, dl_line = 7, dl_split = 0\<rparr>"
  obtain q L f p q' where q: "qm_malloc_init True 4096 65536 (\<lambda>_. 0) = Some (Some q)" "qm_live True q = {}"
    "qm_malloc True ?loc 100 q = Some (Ret (p, q'))" "p \<noteq> NULL"
    by (rule fresh_pool [of 4096 True 65536 100 "\<lambda>_. 0" ?loc]) (simp_all add: ROUNDTO_def ROUNDUP_def add32_def)
  have r: "qm_reach True q" by (rule qm_reach.init [OF _ _ _ _ q(1)]) (simp_all add: ROUNDTO_def)
  then have r': "qm_reach True q'" by (rule qm_reach.malloc [OF _ q(3)])
  have p: "qm_live True q' = {p}" "100 \<le> card (qm_block_at True q' p)"
    using qm_pool_sound [OF r, THEN conjunct1, rule_format, of ?loc 100] q by (auto simp: ROUNDTO_def)
  then show ?thesis
    using qm_pool_sound [OF r', THEN conjunct2, THEN conjunct1, rule_format, of p "?loc\<lparr>dl_line := 9\<rparr>"] q by auto
qed

text \<open>
  (C29) \<open>qm_malloc\<close> is a best-fit allocator up to the test of its counters. With the request
  rounded up to \<open>want\<close>, it succeeds exactly when some free fragment has \<open>want\<close> bytes and
  \<open>want\<close> is at most \<open>size - real_used\<close> in unsigned arithmetic; the block then starts in the smallest
  free fragment that is big enough and is larger than \<open>want\<close> by no more than a fragment that
  is not worth splitting off. Otherwise it returns the null pointer and changes nothing.
\<close>

theorem qm_malloc_best_fit:
  assumes "qm_inv d q fs L" and "want = ROUNDUP d sz"
  shows "\<exists>p q'. qm_malloc d loc sz q = Some (Ret (p, q')) \<and>
    (if (\<exists>g \<in> free_set d L. want \<le> qm_mem q g) \<and> want \<le> sub32 (qm_size q) (qm_real_used q)
     then \<exists>f \<in> free_set d L. p = f + sizeof_frag d \<and> want \<le> qm_mem q f \<and>
            (\<forall>g \<in> free_set d L. want \<le> qm_mem q g \<longrightarrow> qm_mem q f \<le> qm_mem q g) \<and>
            want \<le> qm_mem q' f \<and> qm_mem q' f \<le> want + FRAG_OVERHEAD d + MIN_FRAG_SIZE d
     else p = NULL \<and> q' = q)"
proof (cases rule: qm_malloc_spec [OF assms(1), of loc sz])
  case 1
  then have nb: "\<not> ((\<exists>g \<in> free_set d L. want \<le> qm_mem q g) \<and> want \<le> sub32 (qm_size q) (qm_real_used q))"
    unfolding assms(2) by (meson not_le)
  show ?thesis unfolding if_not_P [OF nb] using 1(1) by blast
next
  case (2 f q' fs' L')
  have w: "want \<le> qm_mem q f" using 2(10) assms(2) by simp
  then have "(\<exists>g \<in> free_set d L. want \<le> qm_mem q g) \<and> want \<le> sub32 (qm_size q) (qm_real_used q)"
    using 2(2,4) unfolding assms(2) by blast
  moreover have "want \<le> qm_mem q' f" "qm_mem q' f \<le> want + FRAG_OVERHEAD d + MIN_FRAG_SIZE d"
    "\<forall>g \<in> free_set d L. want \<le> qm_mem q g \<longrightarrow> qm_mem q f \<le> qm_mem q g"
    using 2(6-8) assms(2) by simp_all
  ultimately show ?thesis using 2(1,4) w by (intro exI [of _ "f + sizeof_frag d"] exI [of _ q']) auto
qed

theorem qm_malloc_best_fit_witness:
  "\<exists>q f L p q'. qm_malloc_init False 4096 65536 (\<lambda>_. 0) = Some (Some q) \<and> qm_inv False q [f] L \<and>
     free_set False L = {f} \<and> p = f + 8 \<and>
     qm_malloc False \<lparr>dl_file = 0, dl_func = 0, dl_line = 0, dl_split = 0\<rparr> 100 q = Some (Ret (p, q')) \<and>
     112 \<le> qm_mem q' f \<and> qm_mem q' f \<le> 144"
proof -
  let ?loc = "\<lparr>dl_file = 0, dl_func = 0, dl_line = 0, dl_split = 0\<rparr>"
  have R: "ROUNDUP False 100 = 112" by (simp add: ROUNDTO_def ROUNDUP_def add32_def)
  obtain q L f p q' where q: "qm_malloc_init False 4096 65536 (\<lambda>_. 0) = Some (Some q)" "qm_inv False q [f] L"
    "busy False [f] L = {}" "qm_malloc False ?loc 100 q = Some (Ret (p, q'))" "p \<noteq> NULL"
    by (rule fresh_pool [of 4096 False 65536 100 "\<lambda>_. 0" ?loc]) (simp_all add: ROUNDTO_def R)
  have free: "free_set False L = {f}" using free_set_frags [OF qm_inv_shape [OF q(2)]] q(3) by auto
  have "p = f + 8 \<and> 112 \<le> qm_mem q' f \<and> qm_mem q' f \<le> 144"
    using qm_malloc_best_fit [OF q(2) refl, of ?loc 100] q(4,5) unfolding R free
    by (auto simp: FRAG_OVERHEAD_def MIN_FRAG_SIZE_def ROUNDTO_def sizeof_frag_def sizeof_frag_end_def split: if_splits)
  then show ?thesis using q(1,2,4) free by blast
qed

text \<open>
  The debugging build stops the misuses that would corrupt the pool: a block that was
  released cannot be released again, and the null pointer or an address outside the pool
  cannot be released at all; each of these calls aborts.
\<close>

lemma qm_free_misuse:
  assumes "qm_inv True q fs L" and "p \<in> qm_live True q" and "a < qm_first_frag q \<or> qm_last_frag_end q < a"
  shows "qm_free True loc a q = Some Aborted \<and>
    (\<exists>q'. qm_free True loc p q = Some (Ret q') \<and> qm_free True loc' p q' = Some Aborted)"
proof -
  obtain f where f: "f \<in> busy True fs L" "p = f + sizeof_frag True"
    using assms(2) qm_live_busy [OF assms(1)] by auto
  have "\<exists>q'. qm_free True loc p q = Some (Ret q') \<and> qm_free True loc' p q' = Some Aborted"
  proof (cases rule: qm_free_spec [OF assms(1) f(1), of loc])
    case (1 q' L')
    then show ?thesis using qm_free_twice [OF 1(2), of f loc'] f(2) by auto
  qed
  then show ?thesis using assms(3) by (auto simp: qm_free_def)
qed

section \<open>Where the allocator falls short\<close>

text \<open>
  \<open>size\<close> does not count the initial overhead but \<open>real_used\<close> does, so the test of the counters
  refuses requests for the last \<open>init_overhead\<close> bytes although a fragment is free. (Once less
  than that is free the difference wraps around, and the test refuses nothing.)
\<close>

lemma qm_guard_short:
  assumes inv: "qm_inv d q fs L" and free: "(\<Sum>g \<in> free_set d L. qm_mem q g) = init_overhead d + n" and "n < ROUNDUP d sz"
  shows "qm_malloc d loc sz q = Some (Ret (NULL, q))"
proof -
  have "qm_size q = qm_real_used q + n" using qm_inv_counters(1) [OF inv] free by linarith
  moreover have "qm_size q < 2 ^ 32" using inv by (simp add: qm_inv_def)
  ultimately have "sub32 (qm_size q) (qm_real_used q) = n" by (subst sub32_id) simp_all
  then show ?thesis using assms(3) by (simp add: qm_malloc_def)
qed

text \<open>A request that wraps around when it is rounded up is served with a block that is far too small.\<close>

lemma qm_malloc_wraps:
  assumes inv: "qm_inv d q fs L" and "free_set d L \<noteq> {}" and sz: "2 ^ 32 < sz + ROUNDTO d" "sz < 2 ^ 32"
  shows "\<exists>f q'. qm_malloc d loc sz q = Some (Ret (f + sizeof_frag d, q')) \<and>
    qm_mem q' f \<le> FRAG_OVERHEAD d + MIN_FRAG_SIZE d"
proof -
  have "add32 sz (ROUNDTO d - 1) < ROUNDTO d"
  proof -
    have r: "0 < ROUNDTO d" by (simp add: ROUNDTO_def)
    then have "sz + (ROUNDTO d - 1) = 2 ^ 32 + (sz + ROUNDTO d - 1 - 2 ^ 32)" using sz(1) by linarith
    then have "add32 sz (ROUNDTO d - 1) = (sz + ROUNDTO d - 1 - 2 ^ 32) mod 2 ^ 32"
      unfolding add32_def by (metis mod_add_self1)
    also have "\<dots> \<le> sz + ROUNDTO d - 1 - 2 ^ 32" by (rule mod_less_eq_dividend)
    finally show ?thesis using sz(2) r by linarith
  qed
  then have w: "ROUNDUP d sz = 0" by (simp add: ROUNDUP_def)
  show ?thesis
  proof (cases rule: qm_malloc_spec [OF inv, of loc sz])
    case 1
    then show ?thesis using assms(2) unfolding w by auto
  next
    case (2 f q' fs' L')
    then show ?thesis unfolding w by auto
  qed
qed

end
