(* ===== verification/Module_Loader.thy ===== *)
theory Module_Loader
  imports Peer_Msg Session_Id
begin

text \<open>
  The application modules (aaa\_module.c): loading a module with its checks, initialising and
  destroying all of them, and the lookups by application and by name. The functions of libltdl
  and those that a module exports are parameters: \<open>me_dlopen\<close> gives the handle of a library and the
  address of its symbol \<open>exports\<close> with what it points to, \<open>me_init\<close> the result of \<open>mod_init\<close>.
\<close>

section \<open>State\<close>

datatype param_type = INT_TYPE | STR_TYPE | BAD_TYPE nat

text \<open>\<open>mp_value\<close> names the variable of the module that the parameter sets.\<close>

record module_param =
  mp_name :: bytes
  mp_type :: param_type
  mp_value :: ptr

text \<open>The function pointers of \<open>struct module_exports\<close> count only as being null or not.\<close>

record module_exports =
  ex_name :: bytes
  ex_type :: aaa_status
  ex_app_id :: u32
  ex_flags :: u32
  ex_params :: "module_param list"
  ex_has_init :: bool
  ex_has_destroy :: bool
  ex_has_msg :: bool

record loaded_module =
  lm_addr :: ptr
  lm_path :: ptr
  lm_handle :: ptr
  lm_exports :: module_exports
  lm_is_init :: bool

record mod_env =
  me_ok :: "nat \<Rightarrow> bool"
  me_dlopen :: "bytes \<Rightarrow> ptr \<times> module_exports option"
  me_init :: "module_exports \<Rightarrow> int"

text \<open>The list of modules, the libraries that were closed, the \<open>mod_destroy\<close> functions that were
  called (by the name of their module), and the memory.\<close>

record mod_world =
  mw_modules :: "loaded_module list"
  mw_closed :: "ptr list"
  mw_destroyed :: "bytes list"
  mw_shm :: shm

section \<open>Operations\<close>

text \<open>Where the walk along the list of modules ends: at its end, at the module that is loaded
  already, or at one with the same name or application.\<close>

datatype walk_end = Walk_end | Same_handle | Same_name | Same_app

fun link_walk :: "ptr \<Rightarrow> module_exports \<Rightarrow> loaded_module list \<Rightarrow> walk_end" where
  "link_walk h e [] = Walk_end"
| "link_walk h e (m # ms) =
     (if lm_handle m = h then Same_handle
      else if ex_name (lm_exports m) = ex_name e then Same_name
      else if ex_app_id (lm_exports m) = ex_app_id e then Same_app
      else link_walk h e ms)"

definition load_error :: "int \<Rightarrow> ptr \<Rightarrow> ptr \<Rightarrow> mod_world \<Rightarrow> int \<times> mod_world" where
  "load_error ret handle md w =
     (let w1 = (if handle \<noteq> NULL then w\<lparr>mw_closed := mw_closed w @ [handle]\<rparr> else w)
      in (ret, if md \<noteq> NULL then w1\<lparr>mw_shm := shm_free md (mw_shm w1)\<rparr> else w1))"

text \<open>The results of \<open>lt_dlinit\<close> and \<open>lt_dlsetsearchpath\<close> and the static \<open>initialised\<close>; the result, the new
  \<open>initialised\<close>, and whether \<open>lt_dlexit\<close> is called.\<close>

definition init_module_loading :: "int \<Rightarrow> int \<Rightarrow> bool \<Rightarrow> int \<times> bool \<times> bool" where
  "init_module_loading dlinit setpath initialised =
     (if initialised then (- 1, True, False)
      else if dlinit \<noteq> 0 then (- 1, False, True)
      else if setpath \<noteq> 0 then (- 1, False, True)
      else (setpath, True, False))"

text \<open>
  \<open>path\<close> is the address of the name, which the new entry keeps. A module without \<open>mod_msg\<close> sets
  the return value to -1 but is not left out.
\<close>

definition load_module :: "mod_env \<Rightarrow> aaa_status \<Rightarrow> ptr \<Rightarrow> bytes \<Rightarrow> mod_world \<Rightarrow> int \<times> mod_world" where
  "load_module me status path name w =
     (case me_dlopen me name of
        (handle, ex) \<Rightarrow>
          if handle = NULL then load_error (- 1) NULL NULL w
          else case ex of
            None \<Rightarrow> load_error (- 1) handle NULL w
          | Some e \<Rightarrow>
              if ex_type e \<noteq> AAA_CLIENT \<and> ex_type e \<noteq> AAA_SERVER then load_error (- 1) handle NULL w
              else if ex_type e \<noteq> status then load_error (- 1) handle NULL w
              else if ex_app_id e = AAA_APP_RELAY then load_error (- 1) handle NULL w
              else if ex_flags e OR DOES_AUTH OR DOES_AUTH = 0 then load_error (- 1) handle NULL w
              else let ret = (if \<not> ex_has_msg e then - 1 else 0);
                       (md, m) = shm_malloc (me_ok me) (mw_shm w);
                       w1 = w\<lparr>mw_shm := m\<rparr>
              in if md = NULL then load_error (- 2) handle NULL w1
              else case link_walk handle e (mw_modules w1) of
                Same_handle \<Rightarrow> (ret, w1\<lparr>mw_shm := shm_free md (mw_shm w1)\<rparr>)
              | Same_name \<Rightarrow> load_error (- 3) handle md w1
              | Same_app \<Rightarrow> load_error (- 4) handle md w1
              | Walk_end \<Rightarrow> (ret, w1\<lparr>mw_modules := mw_modules w1 @
                  [\<lparr>lm_addr = md, lm_path = path, lm_handle = handle, lm_exports = e, lm_is_init = False\<rparr>]\<rparr>))"

fun init_loop :: "mod_env \<Rightarrow> loaded_module list \<Rightarrow> int \<times> loaded_module list" where
  "init_loop me [] = (0, [])"
| "init_loop me (a # as) =
     (if ex_has_init (lm_exports a)
      then if me_init me (lm_exports a) \<noteq> 0 then (- 1, a # as)
           else (let (r, bs) = init_loop me as in (r, a\<lparr>lm_is_init := True\<rparr> # bs))
      else (let (r, bs) = init_loop me as in (r, a # bs)))"

definition init_modules :: "mod_env \<Rightarrow> mod_world \<Rightarrow> int \<times> mod_world" where
  "init_modules me w = (let (r, ms) = init_loop me (mw_modules w) in (r, w\<lparr>mw_modules := ms\<rparr>))"

fun free_modules :: "loaded_module list \<Rightarrow> shm \<Rightarrow> shm" where
  "free_modules [] m = m"
| "free_modules (a # as) m =
     (let m1 = (if lm_path a \<noteq> NULL then shm_free (lm_path a) m else m)
      in free_modules as (shm_free (lm_addr a) m1))"

definition destroy_modules :: "mod_world \<Rightarrow> mod_world" where
  "destroy_modules w =
     (let calls = map (\<lambda>a. ex_name (lm_exports a))
            (filter (\<lambda>a. ex_has_destroy (lm_exports a) \<and> lm_is_init a) (mw_modules w))
      in w\<lparr>mw_destroyed := mw_destroyed w @ calls, mw_shm := free_modules (mw_modules w) (mw_shm w),
           mw_modules := []\<rparr>)"

definition find_loaded :: "u32 \<Rightarrow> mod_world \<Rightarrow> loaded_module option" where
  "find_loaded i w = find (\<lambda>a. ex_app_id (lm_exports a) = i) (mw_modules w)"

definition find_module_by_name :: "bytes \<Rightarrow> mod_world \<Rightarrow> loaded_module option" where
  "find_module_by_name name w = find (\<lambda>a. ex_name (lm_exports a) = name) (mw_modules w)"

definition get_module_param :: "bytes \<Rightarrow> bytes \<Rightarrow> mod_world \<Rightarrow> module_param option" where
  "get_module_param md param w =
     (case find_module_by_name md w of
        None \<Rightarrow> None
      | Some a \<Rightarrow> find (\<lambda>p. mp_name p = param) (ex_params (lm_exports a)))"

text \<open>The modules as the messages between peers use them (Peer\_Msg).\<close>

definition module_view :: "mod_world \<Rightarrow> aaa_module list" where
  "module_view w = map (\<lambda>a. \<lparr>app_id = ex_app_id (lm_exports a), mod_flags = ex_flags (lm_exports a)\<rparr>) (mw_modules w)"

section \<open>Invariant\<close>

text \<open>
  No two modules share an application, a name or a library, none claims the application of
  relays, each fits the role of the node, and their blocks are in use.
\<close>

definition modules_ok :: "aaa_status \<Rightarrow> mod_world \<Rightarrow> bool" where
  "modules_ok status w \<longleftrightarrow>
     distinct (map (ex_app_id \<circ> lm_exports) (mw_modules w)) \<and> distinct (map (ex_name \<circ> lm_exports) (mw_modules w)) \<and>
     distinct (map lm_handle (mw_modules w)) \<and>
     (\<forall>a \<in> set (mw_modules w). ex_app_id (lm_exports a) \<noteq> AAA_APP_RELAY \<and> ex_type (lm_exports a) = status \<and>
        lm_addr a \<in> set (shm_live (mw_shm w))) \<and>
     distinct (map lm_addr (mw_modules w)) \<and> shm_wf (mw_shm w)"

lemma link_walk_end:
  "link_walk h e ms = Walk_end \<longleftrightarrow>
     (\<forall>m \<in> set ms. lm_handle m \<noteq> h \<and> ex_name (lm_exports m) \<noteq> ex_name e \<and> ex_app_id (lm_exports m) \<noteq> ex_app_id e)"
  by (induction ms) auto

lemma load_error_modules [simp]: "mw_modules (snd (load_error r h md w)) = mw_modules w"
  by (simp add: load_error_def Let_def)

lemma load_error_ok:
  assumes "modules_ok status w" and "md \<notin> lm_addr ` set (mw_modules w)"
  shows "modules_ok status (snd (load_error r h md w))"
  using assms by (auto simp: modules_ok_def load_error_def Let_def shm.free_live [simplified] shm.free_wf)

lemma null_not_module: "modules_ok status w \<Longrightarrow> NULL \<notin> lm_addr ` set (mw_modules w)"
  unfolding modules_ok_def shm_wf_def by (metis imageE less_irrefl)

lemma modules_ok_malloc:
  assumes "modules_ok status w" and "shm_malloc ok (mw_shm w) = (md, m)"
  shows "modules_ok status (w\<lparr>mw_shm := m\<rparr>)" and "md \<noteq> NULL \<Longrightarrow> md \<notin> lm_addr ` set (mw_modules w)"
    and "md \<noteq> NULL \<Longrightarrow> md \<in> set (shm_live m)"
proof -
  have wf: "shm_wf (mw_shm w)" and live: "\<forall>a \<in> set (mw_modules w). lm_addr a \<in> set (shm_live (mw_shm w))"
    using assms(1) by (auto simp: modules_ok_def)
  have sub: "set (shm_live (mw_shm w)) \<subseteq> set (shm_live m)"
    using shm.malloc_fail [OF wf, of ok m] shm.malloc_live [OF wf, of ok md m] assms(2) by (cases "md = NULL") auto
  have wf': "shm_wf m" by (rule shm.malloc_wf [OF wf assms(2)])
  show "modules_ok status (w\<lparr>mw_shm := m\<rparr>)" using assms(1) sub wf' by (auto simp: modules_ok_def)
  show "md \<noteq> NULL \<Longrightarrow> md \<notin> lm_addr ` set (mw_modules w)" using shm.malloc_fresh [OF wf assms(2)] live by auto
  show "md \<noteq> NULL \<Longrightarrow> md \<in> set (shm_live m)" using shm.malloc_live [OF wf assms(2)] by auto
qed

lemma load_module_ok:
  assumes ok: "modules_ok status w"
  shows "modules_ok status (snd (load_module me status path name w))"
proof -
  obtain h ex where op: "me_dlopen me name = (h, ex)" by (cases "me_dlopen me name")
  obtain md m where al: "shm_malloc (me_ok me) (mw_shm w) = (md, m)" by (cases "shm_malloc (me_ok me) (mw_shm w)")
  note mal = modules_ok_malloc [OF ok al]
  have err: "modules_ok status (snd (load_error r g NULL w))" for r g
    by (rule load_error_ok [OF ok null_not_module [OF ok]])
  have err1: "modules_ok status (snd (load_error r g md (w\<lparr>mw_shm := m\<rparr>)))" for r g
    by (rule load_error_ok [OF mal(1)])
      (use mal(2) null_not_module [OF ok] in \<open>cases "md = NULL"; simp\<close>)
  have skip: "modules_ok status (w\<lparr>mw_shm := shm_free md m\<rparr>)" if "md \<noteq> NULL"
    using err1 [of 0 NULL] that by (simp add: load_error_def Let_def)
  have new: "modules_ok status (w\<lparr>mw_shm := m, mw_modules := mw_modules w @
      [\<lparr>lm_addr = md, lm_path = path, lm_handle = h, lm_exports = e, lm_is_init = False\<rparr>]\<rparr>)"
    if "link_walk h e (mw_modules w) = Walk_end" "md \<noteq> NULL" "ex_type e = status" "ex_app_id e \<noteq> AAA_APP_RELAY" for e
    using mal(1) mal(2,3) [OF that(2)] that unfolding link_walk_end by (auto simp: modules_ok_def)
  show ?thesis
    unfolding load_module_def op using err err1 skip new al mal(1)
    by (auto simp: Let_def split: option.splits walk_end.splits)
qed

text \<open>A module whose application or name is taken is refused and its library closed again; a module
  that is loaded can be found by its application, and the messages between peers advertise it.\<close>

lemma load_module_found:
  assumes ok: "modules_ok status w" and op: "me_dlopen me name = (h, Some e)" and "fst (load_module me status path name w) = 0"
  shows "\<exists>a. find_loaded (ex_app_id e) (snd (load_module me status path name w)) = Some a \<and> lm_handle a = h \<or>
     (\<exists>a \<in> set (mw_modules w). lm_handle a = h)"
proof -
  have "find P (xs @ [x]) = Some x" if "\<forall>y \<in> set xs. \<not> P y" "P x" for P and xs :: "loaded_module list" and x
    using that by (induction xs) auto
  note f = this [where P = "\<lambda>a. ex_app_id (lm_exports a) = ex_app_id e"]
  have h: "link_walk h e ms = Same_handle \<Longrightarrow> \<exists>a \<in> set ms. lm_handle a = h" for ms
    by (induction ms) (auto split: if_splits)
  show ?thesis
  proof (cases "link_walk h e (mw_modules w)")
    case Walk_end
    then show ?thesis using assms(3) f [of "mw_modules w"] unfolding load_module_def op link_walk_end
      by (auto simp: load_error_def Let_def find_loaded_def link_walk_end Walk_end split: if_splits prod.splits)
  next
    case Same_handle
    then show ?thesis using h by blast
  qed (use assms(3) in \<open>auto simp: load_module_def op load_error_def Let_def split: if_splits prod.splits\<close>)
qed

lemma module_view_find:
  "map_option (\<lambda>a. \<lparr>app_id = ex_app_id (lm_exports a), mod_flags = ex_flags (lm_exports a)\<rparr>) (find_loaded i w) =
   find (\<lambda>a. app_id a = i) (module_view w)"
proof -
  have "map_option f (find (P \<circ> f) xs) = find P (map f xs)" for f :: "loaded_module \<Rightarrow> aaa_module" and P xs
    by (induction xs) auto
  from this [of "\<lambda>a. \<lparr>app_id = ex_app_id (lm_exports a), mod_flags = ex_flags (lm_exports a)\<rparr>" "\<lambda>a. app_id a = i" "mw_modules w"]
  show ?thesis by (simp add: find_loaded_def module_view_def comp_def)
qed

lemma advertised_once:
  assumes "modules_ok status w"
  shows "distinct (map app_id (module_view w))" and "AAA_APP_RELAY \<notin> app_id ` set (module_view w)"
  using assms by (auto simp: modules_ok_def module_view_def comp_def)

section \<open>From loading to the end\<close>

abbreviation (input) load_all :: "mod_env \<Rightarrow> aaa_status \<Rightarrow> (ptr \<times> bytes) list \<Rightarrow> mod_world \<Rightarrow> mod_world" where
  "load_all me status xs w \<equiv> foldl (\<lambda>w (path, name). snd (load_module me status path name w)) w xs"

lemma load_module_uninit:
  assumes "\<forall>a \<in> set (mw_modules w). \<not> lm_is_init a"
  shows "\<forall>a \<in> set (mw_modules (snd (load_module me status path name w))). \<not> lm_is_init a"
    and "mw_destroyed (snd (load_module me status path name w)) = mw_destroyed w"
  using assms by (auto simp: load_module_def load_error_def Let_def split: option.splits walk_end.splits prod.splits)

lemma load_all_ok:
  assumes "modules_ok status w" and "\<forall>a \<in> set (mw_modules w). \<not> lm_is_init a"
  shows "modules_ok status (load_all me status xs w) \<and> (\<forall>a \<in> set (mw_modules (load_all me status xs w)). \<not> lm_is_init a) \<and>
     mw_destroyed (load_all me status xs w) = mw_destroyed w"
  using assms
proof (induction xs arbitrary: w)
  case (Cons x xs)
  obtain p n where x: "x = (p, n)" by (cases x)
  show ?case using Cons.IH [OF load_module_ok load_module_uninit(1), OF Cons.prems, of me p n]
      load_module_uninit(2) [OF Cons.prems(2), of me status p n] x by simp
qed simp

lemma find_distinct: "distinct (map f xs) \<Longrightarrow> a \<in> set xs \<Longrightarrow> find (\<lambda>x. f x = f a) xs = Some a"
  by (induction xs) (auto simp: image_iff)

lemma init_loop_fields:
  "map lm_addr (snd (init_loop me as)) = map lm_addr as"
  by (induction as) (auto simp: Let_def split: prod.splits)

lemma init_loop_destroy:
  assumes "\<forall>a \<in> set as. \<not> lm_is_init a"
  shows "map (\<lambda>a. ex_name (lm_exports a)) (filter (\<lambda>a. ex_has_destroy (lm_exports a) \<and> lm_is_init a) (snd (init_loop me as))) =
    map (\<lambda>a. ex_name (lm_exports a)) (filter (\<lambda>a. ex_has_init (lm_exports a) \<and> ex_has_destroy (lm_exports a))
      (takeWhile (\<lambda>a. ex_has_init (lm_exports a) \<longrightarrow> me_init me (lm_exports a) = 0) as))"
  using assms by (induction as) (auto simp: Let_def filter_empty_conv split: prod.splits)

lemma free_modules_live:
  "shm_wf m \<Longrightarrow> shm_wf (free_modules as m) \<and> set (shm_live (free_modules as m)) \<subseteq> set (shm_live m) - lm_addr ` set as"
proof (induction as arbitrary: m)
  case (Cons a as)
  let ?m = "if lm_path a \<noteq> NULL then shm_free (lm_path a) m else m"
  have "shm_wf ?m" "set (shm_live ?m) \<subseteq> set (shm_live m)" using Cons.prems by (auto simp: shm.free_wf shm.free_live [simplified])
  then show ?case using Cons.IH [of "shm_free (lm_addr a) ?m"] by (auto simp: Let_def shm.free_wf shm.free_live [simplified])
qed simp

text \<open>
  (C32) However many modules a configuration loads, no two of those that are kept share an
  application, a name or a library, all have the type of the node and none the application of relays;
  each is the one that \<open>find_module\<close> finds for its application and that is found for its name. At
  the end of the program \<open>mod_destroy\<close> is called exactly for the modules, in their order, that
  \<open>init_modules\<close> initialised with success, and no module stays in memory.
\<close>

theorem modules_invariant:
  assumes "shm_wf m" and "w = load_all me status xs \<lparr>mw_modules = [], mw_closed = [], mw_destroyed = [], mw_shm = m\<rparr>"
    and "z = destroy_modules (snd (init_modules me w))"
  shows "modules_ok status w \<and>
    (\<forall>a \<in> set (mw_modules w). find_loaded (ex_app_id (lm_exports a)) w = Some a \<and>
       find_module_by_name (ex_name (lm_exports a)) w = Some a \<and> lm_addr a \<notin> set (shm_live (mw_shm z))) \<and>
    mw_modules z = [] \<and>
    mw_destroyed z = map (\<lambda>a. ex_name (lm_exports a)) (filter (\<lambda>a. ex_has_init (lm_exports a) \<and> ex_has_destroy (lm_exports a))
      (takeWhile (\<lambda>a. ex_has_init (lm_exports a) \<longrightarrow> me_init me (lm_exports a) = 0) (mw_modules w)))"
proof -
  have l: "modules_ok status w \<and> (\<forall>a \<in> set (mw_modules w). \<not> lm_is_init a) \<and> mw_destroyed w = []"
    unfolding assms(2) using load_all_ok [of status "\<lparr>mw_modules = [], mw_closed = [], mw_destroyed = [], mw_shm = m\<rparr>" me xs] assms(1)
    by (simp add: modules_ok_def)
  obtain r bs where i: "init_loop me (mw_modules w) = (r, bs)" by (cases "init_loop me (mw_modules w)")
  have z: "z = w\<lparr>mw_destroyed := map (\<lambda>a. ex_name (lm_exports a)) (filter (\<lambda>a. ex_has_destroy (lm_exports a) \<and> lm_is_init a) bs),
      mw_shm := free_modules bs (mw_shm w), mw_modules := []\<rparr>"
    using l unfolding assms(3) by (simp add: destroy_modules_def init_modules_def i)
  have "lm_addr ` set bs = lm_addr ` set (mw_modules w)"
    using arg_cong [OF init_loop_fields [of me "mw_modules w"], of set] i by simp
  then have "\<forall>a \<in> set (mw_modules w). lm_addr a \<notin> set (shm_live (mw_shm z))"
    using free_modules_live [of "mw_shm w" bs] l z by (fastforce simp: modules_ok_def)
  moreover have "\<forall>a \<in> set (mw_modules w). find_loaded (ex_app_id (lm_exports a)) w = Some a \<and>
       find_module_by_name (ex_name (lm_exports a)) w = Some a"
    using l find_distinct [of "ex_app_id \<circ> lm_exports" "mw_modules w"] find_distinct [of "ex_name \<circ> lm_exports" "mw_modules w"]
    by (simp add: modules_ok_def find_loaded_def find_module_by_name_def)
  ultimately show ?thesis using l z i init_loop_destroy [of "mw_modules w" me] by simp
qed

text \<open>Three libraries: the second fails to initialise, the third has the application of the first.\<close>

definition sample_exports :: "u8 \<Rightarrow> u32 \<Rightarrow> module_exports" where
  "sample_exports c i = \<lparr>ex_name = [c], ex_type = AAA_SERVER, ex_app_id = i, ex_flags = 1, ex_params = [],
     ex_has_init = True, ex_has_destroy = True, ex_has_msg = True\<rparr>"

definition sample_mod_env :: mod_env where
  "sample_mod_env = \<lparr>me_ok = \<lambda>_. True, me_dlopen = \<lambda>n. (unat (hd n), Some (sample_exports (hd n) (if hd n = 98 then 5 else 4))),
     me_init = \<lambda>e. if ex_app_id e = 5 then 1 else 0\<rparr>"

theorem modules_invariant_witness:
  "shm_wf \<lparr>shm_calls = 3, shm_live = [3, 2, 1]\<rparr> \<and>
   (\<exists>(w :: mod_world) (z :: mod_world). map lm_handle (mw_modules w) = [97, 98] \<and> modules_ok AAA_SERVER w \<and> mw_modules z = [] \<and> mw_destroyed z = [[97]])"
proof -
  let ?m = "\<lparr>shm_calls = 3, shm_live = [3, 2, 1]\<rparr>"
  obtain w where w: "w = load_all sample_mod_env AAA_SERVER [(1, [97]), (2, [98]), (3, [99])]
    \<lparr>mw_modules = [], mw_closed = [], mw_destroyed = [], mw_shm = ?m\<rparr>" by blast
  have wf: "shm_wf ?m" by (simp add: shm_wf_def)
  have h: "map lm_handle (mw_modules w) = [97, 98]" and d: "map (\<lambda>a. ex_name (lm_exports a))
      (filter (\<lambda>a. ex_has_init (lm_exports a) \<and> ex_has_destroy (lm_exports a))
      (takeWhile (\<lambda>a. ex_has_init (lm_exports a) \<longrightarrow> me_init sample_mod_env (lm_exports a) = 0) (mw_modules w))) = [[97]]"
    unfolding w by code_simp+
  obtain z where z: "z = destroy_modules (snd (init_modules sample_mod_env w))" by blast
  have "modules_ok AAA_SERVER w" "mw_modules z = []" "mw_destroyed z = [[97]]" using modules_invariant [OF wf w z] d by simp_all
  then show ?thesis using wf h by (intro conjI exI [of _ w] exI [of _ z])
qed

end
