(* ===== verification/Cfg_Parser.thy ===== *)
theory Cfg_Parser
  imports Route
begin

text \<open>
  The configuration file: the scanner of parser\_f.h, the line and stream parser cfg\_parser.c and
  the table of settings with its callbacks in cfg\_init.c. A line is a buffer of bytes with a null
  byte; the parser writes null bytes into it to end the strings that it reports as offsets. None
  is an access outside the buffer, a null pointer that is followed, or a call that does not return.
\<close>

section \<open>Scanner\<close>

abbreviation (input) CH_TAB :: u8 where "CH_TAB \<equiv> 9"
abbreviation (input) CH_LF :: u8 where "CH_LF \<equiv> 10"
abbreviation (input) CH_CR :: u8 where "CH_CR \<equiv> 13"
abbreviation (input) CH_SP :: u8 where "CH_SP \<equiv> 32"
abbreviation (input) CH_QUOTE :: u8 where "CH_QUOTE \<equiv> 34"
abbreviation (input) CH_HASH :: u8 where "CH_HASH \<equiv> 35"
abbreviation (input) CH_EQ :: u8 where "CH_EQ \<equiv> 61"

definition strlen :: "bytes \<Rightarrow> nat" where
  "strlen b = length (takeWhile (\<lambda>c. c \<noteq> 0) b)"

definition blank :: "u8 \<Rightarrow> bool" where
  "blank c \<longleftrightarrow> c = CH_SP \<or> c = CH_TAB"

definition token_stop :: "u8 \<Rightarrow> bool" where
  "token_stop c \<longleftrightarrow> c = CH_SP \<or> c = CH_TAB \<or> c = CH_LF \<or> c = CH_CR \<or> c = CH_HASH"

function eat_space_end :: "bytes \<Rightarrow> nat \<Rightarrow> nat \<Rightarrow> nat option" where
  "eat_space_end b p pend =
     (if p < pend then do { c \<leftarrow> peek b p; if blank c then eat_space_end b (p + 1) pend else Some p }
      else Some p)"
  by pat_completeness auto
termination by (relation "measure (\<lambda>(b, p, pend). pend - p)") auto

function token_scan :: "bytes \<Rightarrow> (u8 \<Rightarrow> bool) \<Rightarrow> nat \<Rightarrow> nat \<Rightarrow> nat \<Rightarrow> nat option" where
  "token_scan b stop quotes p pend =
     (if p < pend
      then do {
        c \<leftarrow> peek b p;
        if quotes mod 2 \<noteq> 0 \<or> \<not> stop c
        then token_scan b stop (if c = CH_QUOTE then quotes + 1 else quotes) (p + 1) pend
        else Some p
      }
      else Some p)"
  by pat_completeness auto
termination by (relation "measure (\<lambda>(b, stop, quotes, p, pend). pend - p)") auto

definition eat_token_end :: "bytes \<Rightarrow> nat \<Rightarrow> nat \<Rightarrow> nat option" where
  "eat_token_end b p pend = token_scan b token_stop 0 p pend"

definition eat_token2_end :: "bytes \<Rightarrow> nat \<Rightarrow> nat \<Rightarrow> u8 \<Rightarrow> nat option" where
  "eat_token2_end b p pend delim = token_scan b (\<lambda>c. c = delim \<or> token_stop c) 0 p pend"

definition is_empty_end :: "bytes \<Rightarrow> nat \<Rightarrow> nat \<Rightarrow> bool option" where
  "is_empty_end b p pend = do {
     p \<leftarrow> eat_space_end b p pend;
     if p < pend then do { c \<leftarrow> peek b p; Some (c = CH_CR \<or> c = CH_LF) } else Some False
   }"

declare eat_space_end.simps [simp del] token_scan.simps [simp del]

section \<open>Lines\<close>

datatype cfg_type = CFG_EMPTY | CFG_COMMENT | CFG_SKIP | CFG_DEF | CFG_ERROR

text \<open>\<open>cl_id\<close> and the entries of \<open>cl_value\<close> are offsets in the line; the entries of the C array behind
  the first \<open>token_no\<close> are null.\<close>

record cfg_line =
  cl_type :: cfg_type
  cl_id :: "nat option"
  has_equal :: bool
  cl_value :: "nat list"

definition token_no :: "cfg_line \<Rightarrow> nat" where
  "token_no cl = length (cl_value cl)"

definition CFG_TOKENS :: nat where
  "CFG_TOKENS = 100"

definition end_test :: "bytes \<Rightarrow> nat \<Rightarrow> nat \<Rightarrow> bool option" where
  "end_test b x e =
     (if e \<le> x then Some True
      else do { c \<leftarrow> peek b x; Some (c = CH_HASH \<or> c = CH_LF \<or> c = CH_CR) })"

text \<open>
  The loop over the values: \<open>n\<close> is \<open>CFG_TOKENS - r\<close>. The first component says whether the loop was
  left through \<open>goto end\<close>.
\<close>

primrec value_loop :: "nat \<Rightarrow> nat \<Rightarrow> bytes \<Rightarrow> nat \<Rightarrow> nat list \<Rightarrow> (bool \<times> bytes \<times> nat \<times> nat list) option" where
  "value_loop 0 lim b tmp vs = Some (False, b, tmp, vs)"
| "value_loop (Suc n) lim b tmp vs = do {
     tmp \<leftarrow> eat_space_end b tmp lim;
     e \<leftarrow> end_test b tmp lim;
     if e then Some (True, b, tmp, vs)
     else do {
       let t = tmp;
       tmp \<leftarrow> eat_token_end b t lim;
       (b, tmp) \<leftarrow> (if tmp < lim then do { b \<leftarrow> poke tmp [0] b; Some (b, tmp + 1) } else Some (b, tmp));
       value_loop n lim b tmp (vs @ [t])
     }
   }"

text \<open>The test for extra tokens after \<open>CFG_TOKENS\<close> values; True is \<open>goto error_extra_tokens\<close>.\<close>

definition extra_tokens :: "bytes \<Rightarrow> nat \<Rightarrow> nat \<Rightarrow> bool option" where
  "extra_tokens b tmp lim =
     (if tmp + 1 < lim
      then do {
        em \<leftarrow> is_empty_end b (tmp + 1) lim;
        if \<not> em
        then do { tmp \<leftarrow> eat_space_end b (tmp + 1) lim; e \<leftarrow> end_test b tmp lim; Some (\<not> e) }
        else Some False
      }
      else Some False)"

text \<open>The line buffer after the call, the filled \<open>cfg_line\<close> and the return value.\<close>

definition cfg_parse_line :: "bytes \<Rightarrow> (bytes \<times> cfg_line \<times> int) option" where
  "cfg_parse_line b = do {
     let cl = \<lparr>cl_type = CFG_EMPTY, cl_id = None, has_equal = False, cl_value = []\<rparr>;
     let lim = strlen b;
     tmp \<leftarrow> eat_space_end b 0 lim;
     e \<leftarrow> end_test b tmp lim;
     em \<leftarrow> (if e then Some True else is_empty_end b tmp lim);
     if em then Some (b, cl\<lparr>cl_type := CFG_EMPTY\<rparr>, 0)
     else do {
       c \<leftarrow> peek b tmp;
       if c = CH_HASH then Some (b, cl\<lparr>cl_type := CFG_COMMENT\<rparr>, 0)
       else do {
         let cl = cl\<lparr>cl_id := Some tmp\<rparr>;
         tmp \<leftarrow> eat_token2_end b tmp lim CH_EQ;
         e \<leftarrow> end_test b tmp lim;
         if e then Some (b, cl\<lparr>cl_type := CFG_ERROR\<rparr>, - 1)
         else do {
           let t = tmp;
           tmp \<leftarrow> eat_space_end b tmp lim;
           e \<leftarrow> end_test b tmp lim;
           if e then Some (b, cl\<lparr>cl_type := CFG_ERROR\<rparr>, - 1)
           else do {
             c \<leftarrow> peek b tmp;
             let (cl, tmp) = (if c = CH_EQ then (cl\<lparr>has_equal := True\<rparr>, tmp + 1) else (cl, tmp));
             b \<leftarrow> poke t [0] b;
             (stop, b, tmp, vs) \<leftarrow> value_loop CFG_TOKENS lim b tmp [];
             let cl = cl\<lparr>cl_value := vs\<rparr>;
             ex \<leftarrow> (if stop then Some False else extra_tokens b tmp lim);
             if ex then Some (b, cl\<lparr>cl_type := CFG_ERROR\<rparr>, - 1)
             else Some (b, cl\<lparr>cl_type := CFG_DEF\<rparr>, 0)
           }
         }
       }
     }
   }"

text \<open>The string at an offset of the buffer; None for the null pointer.\<close>

definition str_at :: "bytes \<Rightarrow> nat \<Rightarrow> bytes" where
  "str_at b i = c_str (drop i b)"

definition value_str :: "bytes \<Rightarrow> cfg_line \<Rightarrow> nat \<Rightarrow> bytes option" where
  "value_str b cl r = (if r < token_no cl then Some (str_at b (cl_value cl ! r)) else None)"

section \<open>Values\<close>

definition is_digit :: "u8 \<Rightarrow> bool" where
  "is_digit c \<longleftrightarrow> 48 \<le> c \<and> c \<le> 57"

text \<open>\<open>strtol (p, &end, 10)\<close>: the value, limited to the range of \<open>long\<close>, and the rest of the string.\<close>

definition is_space :: "u8 \<Rightarrow> bool" where
  "is_space c \<longleftrightarrow> c = 32 \<or> 9 \<le> c \<and> c \<le> 13"

definition strtol10 :: "bytes \<Rightarrow> int \<times> bytes" where
  "strtol10 s =
     (let s1 = dropWhile is_space s;
          neg = (s1 \<noteq> [] \<and> hd s1 = 45);
          s2 = (if s1 \<noteq> [] \<and> (hd s1 = 45 \<or> hd s1 = 43) then tl s1 else s1);
          ds = takeWhile is_digit s2;
          v = foldl (\<lambda>a c. 10 * a + (uint c - 48)) 0 ds
      in if ds = [] then (0, s)
         else (max (- (2 ^ 31)) (min (2 ^ 31 - 1) (if neg then - v else v)), drop (length ds) s2))"

text \<open>The value is stored before the rest of the string is looked at.\<close>

definition cfg_getint :: "bytes \<Rightarrow> int \<times> int" where
  "cfg_getint p = (let (v, rest) = strtol10 p in (if rest \<noteq> [] then - 3 else 0, v))"

text \<open>The return value and, on success, the copy and the address of its block.\<close>

definition cfg_getstr :: "(nat \<Rightarrow> bool) \<Rightarrow> bytes \<Rightarrow> shm \<Rightarrow> (int \<times> (ptr \<times> bytes) \<times> shm) option" where
  "cfg_getstr ok p m =
     (let (quotes, s) = (if p \<noteq> [] \<and> hd p = CH_QUOTE then (1, tl p) else (0, p));
          quotes = quotes + length (filter (\<lambda>c. c = CH_QUOTE) s)
      in if quotes mod 2 \<noteq> 0 then Some (- 3, (NULL, []), m)
         else if quotes \<noteq> 0 \<and> last p \<noteq> CH_QUOTE then Some (- 3, (NULL, []), m)
         else if s = [] then None
         else let v = (if quotes \<noteq> 0 then butlast s else s);
                  (a, m) = shm_malloc ok m
         in if a = NULL then Some (- 4, (NULL, []), m) else Some (0, (a, v), m))"


end
