(* ===== verification/Cfg_Line.thy ===== *)
theory Cfg_Line
  imports Cfg_Parser
begin

text \<open>
  What \<open>cfg_parse_line\<close> makes of a line: its scanner on a text, the loop over the values, and the
  round trip from a name and values to a line and back.
\<close>

section \<open>The scanner on a text\<close>

lemma eat_space_text:
  assumes "\<forall>c \<in> set s. blank c" and "b = pre @ s @ c # rest" and "p = length pre"
    and "\<not> blank c \<or> pend = length pre + length s" and "length pre + length s \<le> pend"
  shows "eat_space_end b p pend = Some (length pre + length s)"
  using assms
proof (induction s arbitrary: pre p)
  case Nil
  then show ?case by (subst eat_space_end.simps) (auto simp: peek_def nth_append)
next
  case (Cons x s)
  have "eat_space_end b (p + 1) pend = Some (length (pre @ [x]) + length s)"
    by (rule Cons.IH) (use Cons.prems in auto)
  moreover have "peek b p = Some x" using Cons.prems by (simp add: peek_def nth_append)
  ultimately show ?case using Cons.prems by (subst eat_space_end.simps) auto
qed

text \<open>The number of quotes after scanning over a whole text; None if the scan stops inside.\<close>

fun scans :: "(u8 \<Rightarrow> bool) \<Rightarrow> nat \<Rightarrow> bytes \<Rightarrow> nat option" where
  "scans stop quotes [] = Some quotes"
| "scans stop quotes (c # t) =
     (if quotes mod 2 \<noteq> 0 \<or> \<not> stop c then scans stop (if c = CH_QUOTE then quotes + 1 else quotes) t else None)"

lemma token_scan_text:
  assumes "scans stop quotes t = Some q'" and "b = pre @ t @ c # rest" and "p = length pre"
    and "q' mod 2 = 0 \<and> stop c \<or> pend = length pre + length t" and "length pre + length t \<le> pend"
  shows "token_scan b stop quotes p pend = Some (length pre + length t)"
  using assms
proof (induction t arbitrary: pre p quotes)
  case Nil
  then show ?case by (subst token_scan.simps) (auto simp: peek_def nth_append)
next
  case (Cons x t)
  let ?q = "if x = CH_QUOTE then quotes + 1 else quotes"
  have go: "quotes mod 2 \<noteq> 0 \<or> \<not> stop x" using Cons.prems(1) by (simp split: if_splits)
  have "token_scan b stop ?q (p + 1) pend = Some (length (pre @ [x]) + length t)"
    by (rule Cons.IH) (use Cons.prems go in \<open>auto split: if_splits\<close>)
  moreover have "peek b p = Some x" using Cons.prems by (simp add: peek_def nth_append)
  ultimately show ?case using Cons.prems go by (subst token_scan.simps) auto
qed

text \<open>A value: no null byte, and no blank, line end or comment sign outside quotes.\<close>

definition cfg_value_ok :: "bytes \<Rightarrow> bool" where
  "cfg_value_ok t \<longleftrightarrow> t \<noteq> [] \<and> 0 \<notin> set t \<and> (case scans token_stop 0 t of None \<Rightarrow> False | Some q \<Rightarrow> q mod 2 = 0)"

definition name_ok :: "bytes \<Rightarrow> bool" where
  "name_ok t \<longleftrightarrow> t \<noteq> [] \<and> 0 \<notin> set t \<and>
     (case scans (\<lambda>c. c = CH_EQ \<or> token_stop c) 0 t of None \<Rightarrow> False | Some q \<Rightarrow> q mod 2 = 0)"

lemma value_ok_scan:
  assumes "cfg_value_ok t" and "b = pre @ t @ c # rest" and "token_stop c \<or> pend = length pre + length t"
    and "length pre + length t \<le> pend"
  shows "eat_token_end b (length pre) pend = Some (length pre + length t)"
  using assms unfolding eat_token_end_def cfg_value_ok_def
  by (auto split: option.splits intro!: token_scan_text)

lemma value_ok_first: "cfg_value_ok (c # t) \<Longrightarrow> \<not> token_stop c" "name_ok (c # t) \<Longrightarrow> \<not> token_stop c \<and> c \<noteq> CH_EQ"
  by (auto simp: cfg_value_ok_def name_ok_def split: if_splits)

text \<open>
  What the loop over the values makes of a text: \<open>segs seg ts\<close> says that the text \<open>seg\<close> gives the
  values \<open>ts\<close>. The byte after a value is overwritten, whatever it is.
\<close>

inductive segs :: "bytes \<Rightarrow> bytes list \<Rightarrow> bool" where
  seg_end: "\<forall>c \<in> set s. blank c \<Longrightarrow> z = [] \<or> hd z \<in> {CH_HASH, CH_LF, CH_CR} \<Longrightarrow> segs (s @ z) []"
| seg_last: "\<forall>c \<in> set s. blank c \<Longrightarrow> cfg_value_ok t \<Longrightarrow> segs (s @ t) [t]"
| seg_more: "\<forall>c \<in> set s. blank c \<Longrightarrow> cfg_value_ok t \<Longrightarrow> token_stop c \<Longrightarrow> segs rest ts \<Longrightarrow>
    segs (s @ t @ c # rest) (t # ts)"

lemma end_test_stop: "b = pre @ c # rest \<Longrightarrow> p = length pre \<Longrightarrow>
    end_test b p e = Some (e \<le> p \<or> c = CH_HASH \<or> c = CH_LF \<or> c = CH_CR)"
  by (simp add: end_test_def peek_def nth_append)

lemma c_str_text: "0 \<notin> set t \<Longrightarrow> c_str (t @ 0 # rest) = t"
  by (induction t) (auto simp: c_str_def)

lemma str_at_text: "0 \<notin> set t \<Longrightarrow> b = pre @ t @ 0 # rest \<Longrightarrow> str_at b (length pre) = t"
  by (simp add: str_at_def c_str_text)

lemma value_loop_done:
  assumes "\<forall>c \<in> set s. blank c" and "z = [] \<or> hd z \<in> {CH_HASH, CH_LF, CH_CR}"
    and "b = pre @ s @ z @ 0 # junk" and "lim = length pre + length s + length z"
  shows "value_loop (Suc n) lim b (length pre) vs = Some (True, b, length pre + length s, vs)"
proof -
  obtain c rest where c: "z @ 0 # junk = c # rest" by (cases z) auto
  have "eat_space_end b (length pre) lim = Some (length pre + length s)"
    by (rule eat_space_text [of s b pre c rest]) (use assms c in \<open>cases z; auto simp: blank_def\<close>)+
  moreover have "end_test b (length pre + length s) lim = Some True"
    using assms c by (subst end_test_stop [of b "pre @ s" c rest]) (cases z; auto)+
  ultimately show ?thesis by simp
qed

lemma value_loop_segs:
  assumes "segs seg ts" and "length ts < n" and "b = pre @ seg @ 0 # junk" and "0 \<notin> set seg"
    and "lim = length pre + length seg"
  shows "\<exists>b' tmp vs'. value_loop n lim b (length pre) vs = Some (True, b', tmp, vs @ vs') \<and>
     map (str_at b') vs' = ts \<and> (\<exists>x. b' = pre @ x)"
  using assms
proof (induction arbitrary: n b pre vs rule: segs.induct)
  case (seg_end s z)
  then obtain k where "n = Suc k" by (cases n) auto
  then show ?case using seg_end value_loop_done [of s z b pre junk "lim" k vs] by auto
next
  case (seg_last s t)
  obtain k where n: "n = Suc (Suc k)" using seg_last.prems(1) by (cases n; cases "n - 1") auto
  obtain c0 t' where t: "t = c0 # t'" using seg_last(2) by (cases t) (auto simp: cfg_value_ok_def)
  have c0: "\<not> token_stop c0" using value_ok_first(1) seg_last(2) t by blast
  have sp: "eat_space_end b (length pre) lim = Some (length (pre @ s))"
    using eat_space_text [of s b pre c0 "t' @ 0 # junk" "length pre" "lim"] seg_last t c0
    by (auto simp: blank_def token_stop_def)
  have et: "end_test b (length (pre @ s)) lim = Some False"
    using end_test_stop [of b "pre @ s" c0 "t' @ 0 # junk" _ "lim"] seg_last t c0 by (auto simp: token_stop_def)
  have tk: "eat_token_end b (length (pre @ s)) lim = Some lim"
    using value_ok_scan [OF seg_last(2), of b "pre @ s" 0 junk "lim"] seg_last by simp
  have "value_loop (Suc k) lim b (length b - length (0 # junk)) (vs @ [length (pre @ s)]) =
      Some (True, b, lim, vs @ [length (pre @ s)])"
    using value_loop_done [of "[]" "[]" b "pre @ s @ t" junk "lim" k] seg_last by simp
  moreover have "length b - length (0 # junk) = lim" using seg_last by simp
  ultimately have "value_loop n lim b (length pre) vs = Some (True, b, lim, vs @ [length (pre @ s)])"
    unfolding n using sp et tk by (simp del: length_append)
  moreover have "str_at b (length (pre @ s)) = t"
    by (rule str_at_text) (use seg_last in \<open>auto simp: cfg_value_ok_def\<close>)
  ultimately show ?case using seg_last by auto
next
  case (seg_more s t c rest ts)
  then obtain k where n: "n = Suc k" by (cases n) auto
  obtain c0 t' where t: "t = c0 # t'" using seg_more(2) by (cases t) (auto simp: cfg_value_ok_def)
  have c0: "\<not> token_stop c0" using value_ok_first(1) seg_more(2) t by blast
  have b: "b = pre @ s @ t @ c # rest @ 0 # junk" and e: "lim = length pre + length s + length t + Suc (length rest)"
    using seg_more.prems(2,4) by simp_all
  have sp: "eat_space_end b (length pre) lim = Some (length (pre @ s))"
    using eat_space_text [of s b pre c0 "t' @ c # rest @ 0 # junk" "length pre" "lim"] seg_more(1) t c0 b e
    by (auto simp: blank_def token_stop_def)
  have et: "end_test b (length (pre @ s)) lim = Some False"
    using end_test_stop [of b "pre @ s" c0 "t' @ c # rest @ 0 # junk" _ "lim"] t c0 b e by (auto simp: token_stop_def)
  have tk: "eat_token_end b (length (pre @ s)) lim = Some (length (pre @ s @ t))"
    using value_ok_scan [OF seg_more(2), of b "pre @ s" c "rest @ 0 # junk" "lim"] seg_more(3) b e by simp
  let ?pre = "pre @ s @ t @ [0]"
  have po: "poke (length (pre @ s @ t)) [0] b = Some (?pre @ rest @ 0 # junk)"
    using poke_append_middle [of "length (pre @ s @ t)" "pre @ s @ t" "[0]" "[c]" "rest @ 0 # junk"] b by simp
  obtain b' tmp vs' where r: "value_loop k lim (?pre @ rest @ 0 # junk) (length ?pre) (vs @ [length (pre @ s)]) =
      Some (True, b', tmp, (vs @ [length (pre @ s)]) @ vs')" and m: "map (str_at b') vs' = ts" and x: "\<exists>x. b' = ?pre @ x"
    using seg_more.IH [of k "?pre @ rest @ 0 # junk" ?pre "vs @ [length (pre @ s)]"] seg_more.prems n e by auto
  have "value_loop n lim b (length pre) vs = Some (True, b', tmp, vs @ (length (pre @ s) # vs'))"
    unfolding n using sp et tk po r e by (simp del: length_append) simp
  moreover have "str_at b' (length (pre @ s)) = t"
  proof -
    obtain y where "b' = (pre @ s) @ t @ 0 # y" using x by auto
    then show ?thesis using seg_more(2) by (intro str_at_text) (auto simp: cfg_value_ok_def)
  qed
  moreover have "\<exists>x. b' = pre @ x" using x by auto
  ultimately show ?case using m by (intro exI [of _ b'] exI [of _ tmp] exI [of _ "length (pre @ s) # vs'"]) auto
qed

section \<open>Whole lines\<close>

text \<open>The line \<open>name = values\<close>, with blanks \<open>lead\<close> before the name and \<open>gap\<close> before the equal sign.\<close>

lemma parse_line_segs:
  assumes lead: "\<forall>c \<in> set lead. blank c" and name: "name_ok name" and gap: "\<forall>c \<in> set gap. blank c"
    and seg: "segs seg ts" "0 \<notin> set seg" "length ts < CFG_TOKENS"
  shows "\<exists>b' vs. cfg_parse_line (lead @ name @ gap @ CH_EQ # seg @ 0 # junk) =
      Some (b', \<lparr>cl_type = CFG_DEF, cl_id = Some (length lead), has_equal = True, cl_value = vs\<rparr>, 0) \<and>
    str_at b' (length lead) = name \<and> map (str_at b') vs = ts"
proof -
  let ?b = "lead @ name @ gap @ CH_EQ # seg @ 0 # junk"
  let ?lim = "length lead + length name + length gap + Suc (length seg)"
  obtain c0 nm where nm: "name = c0 # nm" using name by (cases name) (auto simp: name_ok_def)
  have c0: "\<not> token_stop c0" "c0 \<noteq> CH_EQ" "c0 \<noteq> 0"
    using value_ok_first(2) name nm by (auto simp: name_ok_def)
  have nz: "0 \<notin> set (lead @ name @ gap @ CH_EQ # seg)"
    using lead gap name seg(2) by (auto simp: name_ok_def blank_def)
  have "takeWhile (\<lambda>c. c \<noteq> 0) ((lead @ name @ gap @ CH_EQ # seg) @ 0 # junk) = lead @ name @ gap @ CH_EQ # seg"
    using c_str_text [OF nz] unfolding c_str_def .
  then have ln: "strlen ?b = ?lim" by (simp add: strlen_def)
  obtain g grest where g: "gap @ CH_EQ # seg @ 0 # junk = g # grest" and gs: "g = CH_EQ \<or> token_stop g"
    using gap by (cases gap) (auto simp: blank_def token_stop_def)
  have s1: "eat_space_end ?b 0 ?lim = Some (length lead)"
    using eat_space_text [OF lead, of ?b "[]" c0 "nm @ gap @ CH_EQ # seg @ 0 # junk" 0 ?lim] nm c0
    by (auto simp: blank_def token_stop_def)
  have e1: "end_test ?b (length lead) ?lim = Some False"
    using end_test_stop [of ?b lead c0 "nm @ gap @ CH_EQ # seg @ 0 # junk" _ ?lim] nm c0 by (auto simp: token_stop_def)
  have p1: "peek ?b (length lead) = Some c0" using nm by (simp add: peek_def nth_append)
  have em: "is_empty_end ?b (length lead) ?lim = Some False"
  proof -
    have "eat_space_end ?b (length lead) ?lim = Some (length lead)"
      using eat_space_text [of "[]" ?b lead c0 "nm @ gap @ CH_EQ # seg @ 0 # junk" "length lead" ?lim] nm c0
      by (auto simp: blank_def token_stop_def)
    then show ?thesis using p1 c0 by (auto simp: is_empty_end_def token_stop_def)
  qed
  have t1: "eat_token2_end ?b (length lead) ?lim CH_EQ = Some (length (lead @ name))"
  proof -
    obtain q where q: "scans (\<lambda>c. c = CH_EQ \<or> token_stop c) 0 name = Some q" "q mod 2 = 0"
      using name unfolding name_ok_def by (auto split: option.splits)
    show ?thesis
      unfolding eat_token2_end_def
      using token_scan_text [OF q(1), of ?b lead g grest "length lead" ?lim] q(2) g gs by simp
  qed
  have e2: "end_test ?b (length (lead @ name)) ?lim = Some False"
    using end_test_stop [of ?b "lead @ name" g grest _ ?lim] g gap by (cases gap) (auto simp: blank_def)
  have s2: "eat_space_end ?b (length (lead @ name)) ?lim = Some (length (lead @ name @ gap))"
    using eat_space_text [OF gap, of ?b "lead @ name" CH_EQ "seg @ 0 # junk" _ ?lim] by (auto simp: blank_def)
  have e3: "end_test ?b (length (lead @ name @ gap)) ?lim = Some False"
    using end_test_stop [of ?b "lead @ name @ gap" CH_EQ "seg @ 0 # junk" _ ?lim] by auto
  have p2: "peek ?b (length (lead @ name @ gap)) = Some CH_EQ" by (simp add: peek_def nth_append)
  obtain pre where pre: "poke (length (lead @ name)) [0] ?b = Some (pre @ seg @ 0 # junk)"
    and lp: "length pre = Suc (length (lead @ name @ gap))" and px: "\<exists>x. pre = lead @ name @ 0 # x"
  proof (cases gap)
    case Nil
    then show ?thesis using that [of "lead @ name @ [0]"] by (simp add: poke_def)
  next
    case (Cons c gap')
    then show ?thesis using that [of "lead @ name @ 0 # gap' @ [CH_EQ]"] by (simp add: poke_def)
  qed
  obtain b' tmp vs where v: "value_loop CFG_TOKENS ?lim (pre @ seg @ 0 # junk) (length pre) [] = Some (True, b', tmp, vs)"
    and m: "map (str_at b') vs = ts" and x: "\<exists>x. b' = pre @ x"
    using value_loop_segs [OF seg(1,3) refl seg(2), of ?lim pre junk "[]"] lp by auto
  have "str_at b' (length lead) = name"
    using x px name by (auto intro!: str_at_text simp: name_ok_def)
  moreover have "cfg_parse_line ?b =
      Some (b', \<lparr>cl_type = CFG_DEF, cl_id = Some (length lead), has_equal = True, cl_value = vs\<rparr>, 0)"
    unfolding cfg_parse_line_def ln Let_def using s1 e1 em p1 c0 t1 e2 s2 e3 p2 pre lp v
    by (simp del: length_append add: token_stop_def)
  ultimately show ?thesis using m by blast
qed

text \<open>
  What may follow the last value: nothing, the end of the line, or blanks and then anything that
  is a comment or the end of the line.
\<close>

definition tail_ok :: "bytes \<Rightarrow> bool" where
  "tail_ok tail \<longleftrightarrow> tail = [] \<or> tail = [CH_LF] \<or> tail = [CH_CR, CH_LF] \<or>
     (blank (hd tail) \<and> (let z = dropWhile blank tail in z = [] \<or> hd z \<in> {CH_HASH, CH_LF, CH_CR}))"

definition values_text :: "(bytes \<times> bytes) list \<Rightarrow> bytes" where
  "values_text ps = concat (map (\<lambda>(s, t). s @ t) ps)"

text \<open>The values \<open>ps\<close> with the blanks before each of them.\<close>

definition values_ok :: "(bytes \<times> bytes) list \<Rightarrow> bool" where
  "values_ok ps \<longleftrightarrow> (\<forall>(s, t) \<in> set ps. (\<forall>c \<in> set s. blank c) \<and> cfg_value_ok t) \<and> (\<forall>(s, t) \<in> set (tl ps). s \<noteq> [])"

lemma segs_blank_tail: "z = [] \<or> hd z \<in> {CH_HASH, CH_LF, CH_CR} \<Longrightarrow> segs z []"
  using segs.seg_end [of "[]" z] by simp

lemma tail_segs:
  assumes "tail_ok tail"
  shows "segs tail []" and "tail = c # rest \<Longrightarrow> token_stop c \<and> segs rest []"
proof -
  have drop: "segs xs []" if "let z = dropWhile blank xs in z = [] \<or> hd z \<in> {CH_HASH, CH_LF, CH_CR}" for xs
    using segs.seg_end [of "takeWhile blank xs" "dropWhile blank xs"] that
    by (auto simp: Let_def dest: set_takeWhileD)
  show "segs tail []"
    using assms drop [of tail] segs_blank_tail [of tail] unfolding tail_ok_def by fastforce
  show "token_stop c \<and> segs rest []" if t: "tail = c # rest"
  proof (cases "tail = [CH_LF] \<or> tail = [CH_CR, CH_LF]")
    case True
    then show ?thesis using t segs_blank_tail [of rest] by (auto simp: token_stop_def)
  next
    case False
    then have b: "blank c" "let z = dropWhile blank tail in z = [] \<or> hd z \<in> {CH_HASH, CH_LF, CH_CR}"
      using assms t unfolding tail_ok_def by auto
    then have "segs rest []" using t by (intro drop) simp
    then show ?thesis using b by (auto simp: blank_def token_stop_def)
  qed
qed

lemma values_segs_first:
  assumes tail: "tail_ok tail" and "values_ok ((s, t) # ps)"
  shows "segs (s @ t @ values_text ps @ tail) (t # map snd ps)"
  using assms(2)
proof (induction ps arbitrary: s t)
  case Nil
  have st: "\<forall>c \<in> set s. blank c" "cfg_value_ok t" using Nil by (auto simp: values_ok_def)
  show ?case
  proof (cases tail)
    case Nil
    then show ?thesis using segs.seg_last [OF st] by (simp add: values_text_def)
  next
    case (Cons c rest)
    then show ?thesis using segs.seg_more [OF st, of c rest "[]"] tail_segs(2) [OF tail Cons] by (simp add: values_text_def)
  qed
next
  case (Cons p ps)
  obtain s' t' where p: "p = (s', t')" by (cases p)
  have st: "\<forall>c \<in> set s. blank c" "cfg_value_ok t" and s': "s' \<noteq> []" "\<forall>c \<in> set s'. blank c"
    using Cons.prems p by (auto simp: values_ok_def)
  then obtain c s'' where c: "s' = c # s''" "token_stop c" by (cases s') (auto simp: blank_def token_stop_def)
  have "segs (s'' @ t' @ values_text ps @ tail) (t' # map snd ps)"
    by (rule Cons.IH) (use Cons.prems p c in \<open>auto simp: values_ok_def\<close>)
  then show ?case using segs.seg_more [OF st c(2)] p c by (simp add: values_text_def)
qed

lemma values_segs:
  assumes "values_ok ps" and "tail_ok tail"
  shows "segs (values_text ps @ tail) (map snd ps)"
proof (cases ps)
  case Nil
  then show ?thesis using tail_segs(1) [OF assms(2)] by (simp add: values_text_def)
next
  case (Cons p ps')
  then show ?thesis using values_segs_first [OF assms(2), of "fst p" "snd p" ps'] assms(1)
    by (cases p) (simp add: values_text_def)
qed

text \<open>A line that is written from a name and values is read back as this name and these values.\<close>

lemma cfg_line_roundtrip:
  assumes "\<forall>c \<in> set lead. blank c" and "name_ok name" and "\<forall>c \<in> set gap. blank c" and "values_ok ps"
    and "tail_ok tail" and "0 \<notin> set tail" and "length ps < CFG_TOKENS"
  obtains b vs where "cfg_parse_line (lead @ name @ gap @ CH_EQ # (values_text ps @ tail) @ 0 # junk) =
      Some (b, \<lparr>cl_type = CFG_DEF, cl_id = Some (length lead), has_equal = True, cl_value = vs\<rparr>, 0)"
    and "str_at b (length lead) = name" and "map (str_at b) vs = map snd ps"
proof -
  have "0 \<notin> set (values_text ps)"
    using assms(4) by (fastforce simp: values_text_def values_ok_def cfg_value_ok_def blank_def)
  then have "0 \<notin> set (values_text ps @ tail)" using assms(6) by simp
  then show ?thesis
    using parse_line_segs [OF assms(1-3) values_segs [OF assms(4,5)]] assms(7) that by (metis length_map)
qed


end
