(* ===== verification/Cfg_Init.thy ===== *)
theory Cfg_Init
  imports Cfg_Parser Module_Loader
begin

text \<open>
  The settings of the configuration file (cfg\_init.c) and the reading of files
  (\<open>cfg_run_def\<close> and \<open>cfg_parse_stream\<close> of cfg\_parser.c). The variables that settings without a
  callback fill are kept under their names in the table; peers, routes and modules are those of
  Route and Module\_Loader. Files, \<open>lt_dlsetsearchpath\<close> and the module functions are parameters.
  A file that includes itself makes the calls nest without end: the depth of nesting is bounded
  by fuel, and None is also a nesting that is deeper.
\<close>

section \<open>Table and state\<close>

datatype cfg_def_type = INT_VAL | STR_VAL | GEN_VAL

datatype cfg_callback = Set_module_path | Load_modules | Addpair_peer | Addpair_route | Echo | Error_cb
  | Include | Set_aaa_status | Set_mod_param

record cfg_def =
  def_name :: bytes
  def_type :: cfg_def_type
  def_cb :: "cfg_callback option"

abbreviation (input) mk_def :: "string \<Rightarrow> cfg_def_type \<Rightarrow> cfg_callback option \<Rightarrow> cfg_def" where
  "mk_def n t c \<equiv> \<lparr>def_name = asc n, def_type = t, def_cb = c\<rparr>"

definition cfg_ids :: "cfg_def list" where
  "cfg_ids =
     [mk_def ''debug'' INT_VAL None, mk_def ''log_stderr'' INT_VAL None,
      mk_def ''aaa_realm'' STR_VAL None, mk_def ''aaa_fqdn'' STR_VAL None,
      mk_def ''listen_port'' INT_VAL None, mk_def ''worker_threads'' INT_VAL None,
      mk_def ''reader_threads'' INT_VAL None, mk_def ''aaa_status'' STR_VAL (Some Set_aaa_status),
      mk_def ''dont_fork'' INT_VAL None, mk_def ''chroot'' STR_VAL None,
      mk_def ''workdir'' STR_VAL None, mk_def ''user'' STR_VAL None,
      mk_def ''group'' STR_VAL None, mk_def ''pid_file'' STR_VAL None,
      mk_def ''module_path'' STR_VAL (Some Set_module_path),
      mk_def ''set_mod_param'' GEN_VAL (Some Set_mod_param), mk_def ''module'' GEN_VAL (Some Load_modules),
      mk_def ''peer'' GEN_VAL (Some Addpair_peer), mk_def ''route'' GEN_VAL (Some Addpair_route),
      mk_def ''echo'' GEN_VAL (Some Echo), mk_def ''_error'' GEN_VAL (Some Error_cb),
      mk_def ''include'' STR_VAL (Some Include)]"

text \<open>
  \<open>cw_int\<close> and \<open>cw_str\<close> are the variables of the table by name (a string is None when its pointer is
  null, which it also becomes when there is no memory for a new value), \<open>cw_param_int\<close> and \<open>cw_param_str\<close>
  the variables of modules by address. The memory is the one of the routes; the modules share it.
\<close>

record cfg_world =
  cw_int :: "bytes \<Rightarrow> int"
  cw_str :: "bytes \<Rightarrow> bytes option"
  cw_status :: aaa_status
  cw_route :: route_world
  cw_mods :: mod_world
  cw_param_int :: "ptr \<Rightarrow> int"
  cw_param_str :: "ptr \<Rightarrow> bytes"
  cw_log :: "bytes list"

record cfg_env =
  ce_ok :: "nat \<Rightarrow> bool"
  ce_files :: "bytes \<Rightarrow> bytes option"
  ce_setpath :: "bytes \<Rightarrow> int"
  ce_mod :: mod_env

abbreviation (input) cw_shm :: "cfg_world \<Rightarrow> shm" where "cw_shm w \<equiv> rt_shm (cw_route w)"

definition set_shm :: "shm \<Rightarrow> cfg_world \<Rightarrow> cfg_world" where
  "set_shm m w = w\<lparr>cw_route := (cw_route w)\<lparr>rt_shm := m\<rparr>\<rparr>"

text \<open>Running a module operation on the common memory.\<close>

definition on_mods :: "(mod_world \<Rightarrow> int \<times> mod_world) \<Rightarrow> cfg_world \<Rightarrow> int \<times> cfg_world" where
  "on_mods f w =
     (let (r, mw) = f ((cw_mods w)\<lparr>mw_shm := cw_shm w\<rparr>)
      in (r, set_shm (mw_shm mw) (w\<lparr>cw_mods := mw\<rparr>)))"

abbreviation (input) CFG_OK :: int where "CFG_OK \<equiv> 0"
abbreviation (input) CFG_ERR :: int where "CFG_ERR \<equiv> - 1"
abbreviation (input) CFG_PARAM_ERR :: int where "CFG_PARAM_ERR \<equiv> - 2"
abbreviation (input) CFG_RUN_ERR :: int where "CFG_RUN_ERR \<equiv> - 3"
abbreviation (input) CFG_MEM_ERR :: int where "CFG_MEM_ERR \<equiv> - 2"

section \<open>Callbacks\<close>

text \<open>A line that is run: the buffer and what \<open>cfg_parse_line\<close> found in it.\<close>

type_synonym cfg_args = "bytes \<times> cfg_line"

definition arg :: "cfg_args \<Rightarrow> nat \<Rightarrow> bytes option" where
  "arg x r = value_str (fst x) (snd x) r"

definition store_str :: "bytes \<Rightarrow> int \<Rightarrow> bytes \<Rightarrow> cfg_world \<Rightarrow> cfg_world" where
  "store_str name ret s w =
     (if ret = 0 then w\<lparr>cw_str := (cw_str w)(name := Some s)\<rparr>
      else if ret = - 4 then w\<lparr>cw_str := (cw_str w)(name := None)\<rparr> else w)"

definition cfg_set_module_path :: "cfg_env \<Rightarrow> cfg_args \<Rightarrow> cfg_world \<Rightarrow> (int \<times> cfg_world) option" where
  "cfg_set_module_path e x w =
     (if token_no (snd x) \<noteq> 1 then Some (CFG_PARAM_ERR, w)
      else do {
        v \<leftarrow> arg x 0;
        (ret, (a, s), m) \<leftarrow> cfg_getstr (ce_ok e) v (cw_shm w);
        let w = store_str (asc ''module_path'') ret s (set_shm m w);
        Some (if ret \<noteq> 0 then ret else if ce_setpath e s \<noteq> 0 then CFG_RUN_ERR else CFG_OK, w)
      })"

text \<open>The loop over the names: \<open>ret\<close> is the result so far; a name that cannot be read ends the loop,
  a module that cannot be loaded does not.\<close>

fun load_loop :: "cfg_env \<Rightarrow> cfg_args \<Rightarrow> nat list \<Rightarrow> int \<Rightarrow> cfg_world \<Rightarrow> (int \<times> cfg_world) option" where
  "load_loop e x [] ret w = Some (ret, w)"
| "load_loop e x (r # rs) ret w = do {
     v \<leftarrow> arg x r;
     (ret, (a, s), m) \<leftarrow> cfg_getstr (ce_ok e) v (cw_shm w);
     let w = set_shm m w;
     if ret \<noteq> 0 then Some (ret, w)
     else case on_mods (load_module (ce_mod e) (cw_status w) a (c_str s)) w of
            (ret, w) \<Rightarrow> load_loop e x rs ret w
   }"

definition cfg_load_modules :: "cfg_env \<Rightarrow> cfg_args \<Rightarrow> cfg_world \<Rightarrow> (int \<times> cfg_world) option" where
  "cfg_load_modules e x w = load_loop e x [0..<token_no (snd x)] CFG_PARAM_ERR w"

definition cfg_echo :: "cfg_args \<Rightarrow> cfg_world \<Rightarrow> (int \<times> cfg_world) option" where
  "cfg_echo x w =
     Some (CFG_OK, w\<lparr>cw_log := cw_log w @ map (str_at (fst x)) (cl_value (snd x))\<rparr>)"

definition cfg_error :: "cfg_args \<Rightarrow> cfg_world \<Rightarrow> (int \<times> cfg_world) option" where
  "cfg_error x w =
     Some (CFG_ERR, w\<lparr>cw_log := cw_log w @ map (str_at (fst x)) (cl_value (snd x))\<rparr>)"

text \<open>\<open>inc\<close> is \<open>read_config_file\<close>, which calls back here.\<close>

definition cfg_include :: "cfg_env \<Rightarrow> (bytes \<Rightarrow> cfg_world \<Rightarrow> (int \<times> cfg_world) option) \<Rightarrow>
    cfg_args \<Rightarrow> cfg_world \<Rightarrow> (int \<times> cfg_world) option" where
  "cfg_include e inc x w =
     (if token_no (snd x) \<noteq> 1 then Some (CFG_PARAM_ERR, w)
      else do {
        v \<leftarrow> arg x 0;
        (ret, (a, s), m) \<leftarrow> cfg_getstr (ce_ok e) v (cw_shm w);
        let w = set_shm m w;
        if ret \<noteq> 0 then Some (ret, w)
        else do { (ret, w) \<leftarrow> inc (c_str s) w; Some (ret, set_shm (shm_free a (cw_shm w)) w) }
      })"

text \<open>\<open>strcasecmp\<close> on two strings.\<close>

definition strcasecmp_eq :: "bytes \<Rightarrow> bytes \<Rightarrow> bool" where
  "strcasecmp_eq a b \<longleftrightarrow> map to_lower (c_str a) = map to_lower (c_str b)"

text \<open>The loop starts at the last but one entry, so the third is never compared.\<close>

definition cfg_set_aaa_status :: "cfg_args \<Rightarrow> cfg_world \<Rightarrow> (int \<times> cfg_world) option" where
  "cfg_set_aaa_status x w =
     (if token_no (snd x) \<noteq> 1 then Some (CFG_PARAM_ERR, w)
      else if \<not> has_equal (snd x) then Some (CFG_PARAM_ERR, w)
      else do {
        v \<leftarrow> arg x 0;
        Some (if strcasecmp_eq v (asc ''aaa_server'') then (CFG_OK, w\<lparr>cw_status := AAA_SERVER\<rparr>)
              else if strcasecmp_eq v (asc ''aaa_client'') then (CFG_OK, w\<lparr>cw_status := AAA_CLIENT\<rparr>)
              else (CFG_ERR, w))
      })"

text \<open>Both \<open>str\<close> structures are freed at the end, also on success; the callee has copied them. The
  strings themselves are freed on no path of this function.\<close>

definition free_pair :: "ptr \<Rightarrow> ptr \<Rightarrow> cfg_world \<Rightarrow> cfg_world" where
  "free_pair s1 s2 w =
     (let w1 = (if s1 \<noteq> NULL then set_shm (shm_free s1 (cw_shm w)) w else w)
      in if s2 \<noteq> NULL then set_shm (shm_free s2 (cw_shm w1)) w1 else w1)"

definition cfg_addpair :: "cfg_env \<Rightarrow> (ptr \<times> bytes \<Rightarrow> ptr \<times> bytes \<Rightarrow> cfg_world \<Rightarrow> (int \<times> cfg_world) option) \<Rightarrow>
    cfg_args \<Rightarrow> cfg_world \<Rightarrow> (int \<times> cfg_world) option" where
  "cfg_addpair e callback x w =
     (if token_no (snd x) < 1 \<or> 2 < token_no (snd x) then Some (CFG_PARAM_ERR, w)
      else let (s1, m) = shm_malloc (ce_ok e) (cw_shm w); w = set_shm m w
      in if s1 = NULL then Some (CFG_MEM_ERR, w)
      else let (s2, m) = shm_malloc (ce_ok e) (cw_shm w); w = set_shm m w
      in if s2 = NULL then Some (CFG_MEM_ERR, free_pair s1 NULL w)
      else do {
        v \<leftarrow> arg x 0;
        (ret, p1, m) \<leftarrow> cfg_getstr (ce_ok e) v (cw_shm w);
        let w = set_shm m w;
        if ret \<noteq> 0 then Some (ret, free_pair s1 s2 w)
        else do {
          (ret, p2, m) \<leftarrow> (if token_no (snd x) = 2
             then do { v \<leftarrow> arg x 1; cfg_getstr (ce_ok e) v (cw_shm w) }
             else Some (0, (NULL, []), cw_shm w));
          let w = set_shm m w;
          if ret \<noteq> 0 then Some (ret, free_pair s1 s2 w)
          else do {
            (r, w) \<leftarrow> callback p1 p2 w;
            Some (if r \<noteq> 0 then CFG_RUN_ERR else CFG_OK, free_pair s1 s2 w)
          }
        }
      })"

definition peer_callback :: "cfg_env \<Rightarrow> ptr \<times> bytes \<Rightarrow> ptr \<times> bytes \<Rightarrow> cfg_world \<Rightarrow> (int \<times> cfg_world) option" where
  "peer_callback e uri al w = do {
     (r, rw) \<leftarrow> add_cfg_peer (ce_ok e) (snd uri) (snd al) (cw_route w);
     Some (r, w\<lparr>cw_route := rw\<rparr>)
   }"

definition route_callback :: "cfg_env \<Rightarrow> ptr \<times> bytes \<Rightarrow> ptr \<times> bytes \<Rightarrow> cfg_world \<Rightarrow> (int \<times> cfg_world) option" where
  "route_callback e realm dst w = do {
     res \<leftarrow> add_route (ce_ok e) (AAA_SERVER \<le> cw_status w) (snd realm) dst (cw_route w);
     (r, rw) \<leftarrow> res;
     Some (r, w\<lparr>cw_route := rw\<rparr>)
   }"

text \<open>On a bad value the message prints \<open>cl->value[3]\<close>, which is null when there are three tokens.\<close>

definition bad_value :: "cfg_args \<Rightarrow> cfg_world \<Rightarrow> (int \<times> cfg_world) option" where
  "bad_value x w = do { v \<leftarrow> arg x 3; Some (CFG_PARAM_ERR, w) }"

definition cfg_set_mod_param :: "cfg_env \<Rightarrow> cfg_args \<Rightarrow> cfg_world \<Rightarrow> (int \<times> cfg_world) option" where
  "cfg_set_mod_param e x w =
     (if token_no (snd x) < 3 then Some (CFG_PARAM_ERR, w)
      else do {
        v \<leftarrow> arg x 0;
        (ret, (a, md), m) \<leftarrow> cfg_getstr (ce_ok e) v (cw_shm w);
        let w = set_shm m w;
        if ret \<noteq> 0 then Some (ret, w)
        else do {
          v \<leftarrow> arg x 1;
          (ret, (a, param), m) \<leftarrow> cfg_getstr (ce_ok e) v (cw_shm w);
          let w = set_shm m w;
          if ret \<noteq> 0 then Some (ret, w)
          else case get_module_param (c_str md) (c_str param) (cw_mods w) of
            None \<Rightarrow> Some (CFG_RUN_ERR, w)
          | Some p \<Rightarrow>
              (case mp_type p of
                 INT_TYPE \<Rightarrow> do {
                   v \<leftarrow> arg x 2;
                   let (ret, i) = cfg_getint v;
                   if ret \<noteq> 0 then bad_value x w
                   else Some (CFG_OK, w\<lparr>cw_param_int := (cw_param_int w)(mp_value p := i)\<rparr>)
                 }
               | STR_TYPE \<Rightarrow> do {
                   v \<leftarrow> arg x 2;
                   (ret, (a, s), m) \<leftarrow> cfg_getstr (ce_ok e) v (cw_shm w);
                   let w = set_shm m w;
                   if ret \<noteq> 0 then bad_value x w
                   else Some (CFG_OK, w\<lparr>cw_param_str := (cw_param_str w)(mp_value p := s)\<rparr>)
                 }
               | BAD_TYPE _ \<Rightarrow> Some (CFG_PARAM_ERR, w))
        }
      })"

section \<open>Running a line\<close>

definition run_callback :: "cfg_env \<Rightarrow> (bytes \<Rightarrow> cfg_world \<Rightarrow> (int \<times> cfg_world) option) \<Rightarrow> cfg_callback \<Rightarrow>
    cfg_args \<Rightarrow> cfg_world \<Rightarrow> (int \<times> cfg_world) option" where
  "run_callback e inc c x w =
     (case c of
        Set_module_path \<Rightarrow> cfg_set_module_path e x w
      | Load_modules \<Rightarrow> cfg_load_modules e x w
      | Addpair_peer \<Rightarrow> cfg_addpair e (peer_callback e) x w
      | Addpair_route \<Rightarrow> cfg_addpair e (route_callback e) x w
      | Echo \<Rightarrow> cfg_echo x w
      | Error_cb \<Rightarrow> cfg_error x w
      | Include \<Rightarrow> cfg_include e inc x w
      | Set_aaa_status \<Rightarrow> cfg_set_aaa_status x w
      | Set_mod_param \<Rightarrow> cfg_set_mod_param e x w)"

definition cfg_run_def :: "cfg_env \<Rightarrow> (bytes \<Rightarrow> cfg_world \<Rightarrow> (int \<times> cfg_world) option) \<Rightarrow>
    cfg_args \<Rightarrow> cfg_world \<Rightarrow> (int \<times> cfg_world) option" where
  "cfg_run_def e inc x w = do {
     i \<leftarrow> cl_id (snd x);
     let name = str_at (fst x) i;
     case find (\<lambda>d. strcasecmp_eq name (def_name d)) cfg_ids of
       None \<Rightarrow> Some (- 1, w)
     | Some d \<Rightarrow>
         (case def_type d of
            INT_VAL \<Rightarrow>
              if \<not> has_equal (snd x) then Some (- 2, w)
              else if 1 < token_no (snd x) then Some (- 2, w)
              else (case def_cb d of
                 Some c \<Rightarrow> run_callback e inc c x w
               | None \<Rightarrow> do {
                   v \<leftarrow> arg x 0;
                   let (ret, i) = cfg_getint v;
                   Some (ret, w\<lparr>cw_int := (cw_int w)(def_name d := i)\<rparr>)
                 })
          | STR_VAL \<Rightarrow>
              if \<not> has_equal (snd x) then Some (- 2, w)
              else if 1 < token_no (snd x) then Some (- 2, w)
              else (case def_cb d of
                 Some c \<Rightarrow> run_callback e inc c x w
               | None \<Rightarrow> do {
                   v \<leftarrow> arg x 0;
                   (ret, (a, s), m) \<leftarrow> cfg_getstr (ce_ok e) v (cw_shm w);
                   Some (ret, store_str (def_name d) ret s (set_shm m w))
                 })
          | GEN_VAL \<Rightarrow>
              (case def_cb d of Some c \<Rightarrow> run_callback e inc c x w | None \<Rightarrow> Some (0, w)))
   }"

section \<open>Files\<close>

definition MAX_LINE_SIZE :: nat where
  "MAX_LINE_SIZE = 800"

text \<open>\<open>fgets (buf, MAX_LINE_SIZE, stream)\<close> on what is left of the stream: the buffer, with the null
  byte, and the rest.\<close>

definition fgets :: "bytes \<Rightarrow> bytes \<times> bytes" where
  "fgets s =
     (let l = takeWhile (\<lambda>c. c \<noteq> CH_LF) s;
          n = (if length l < MAX_LINE_SIZE - 1 then length l + 1 else MAX_LINE_SIZE - 1)
      in (take n s @ [0], drop n s))"

lemma fgets_shorter [simp]: "s \<noteq> [] \<Longrightarrow> length (snd (fgets s)) < length s"
  by (simp add: fgets_def Let_def MAX_LINE_SIZE_def)

text \<open>The result is 0 or the number of the line with the error.\<close>

function cfg_parse_stream :: "cfg_env \<Rightarrow> (bytes \<Rightarrow> cfg_world \<Rightarrow> (int \<times> cfg_world) option) \<Rightarrow> int \<Rightarrow>
    bytes \<Rightarrow> cfg_world \<Rightarrow> (int \<times> cfg_world) option" where
  "cfg_parse_stream e inc line s w =
     (if s = [] then Some (0, w)
      else case cfg_parse_line (fst (fgets s)) of
        None \<Rightarrow> None
      | Some (b, cl, r) \<Rightarrow>
          (case cl_type cl of
             CFG_DEF \<Rightarrow>
               (case cfg_run_def e inc (b, cl) w of
                  None \<Rightarrow> None
                | Some (ret, w) \<Rightarrow>
                    if ret \<noteq> 0 then Some (line, w) else cfg_parse_stream e inc (line + 1) (snd (fgets s)) w)
           | CFG_ERROR \<Rightarrow> Some (line, w)
           | _ \<Rightarrow> cfg_parse_stream e inc (line + 1) (snd (fgets s)) w))"
  by pat_completeness auto
termination by (relation "measure (\<lambda>(e, inc, line, s, w). length s)") auto

primrec read_config_file :: "nat \<Rightarrow> cfg_env \<Rightarrow> bytes \<Rightarrow> cfg_world \<Rightarrow> (int \<times> cfg_world) option" where
  "read_config_file 0 e f w = None"
| "read_config_file (Suc n) e f w =
     (case ce_files e f of
        None \<Rightarrow> Some (- 1, w)
      | Some s \<Rightarrow> do {
          (r, w) \<leftarrow> cfg_parse_stream e (read_config_file n e) 1 s w;
          Some (if r \<noteq> 0 then - 1 else 0, w)
        })"

declare cfg_parse_stream.simps [simp del]

end
