(* ===== verification/Config_File.thy ===== *)
theory Config_File
  imports Cfg_Line Cfg_Init
begin

text \<open>
  Reading a configuration file as a whole: a file of settings is read like a list of
  assignments, and the traps of the format.
\<close>

section \<open>Lookups in the table\<close>

lemma cfg_ids_lookup:
  assumes "d \<in> set cfg_ids"
  shows "find (\<lambda>d'. strcasecmp_eq (def_name d) (def_name d')) cfg_ids = Some d" and "name_ok (def_name d)"
    and "CH_LF \<notin> set (def_name d)"
proof -
  have "list_all (\<lambda>d. find (\<lambda>d'. strcasecmp_eq (def_name d) (def_name d')) cfg_ids = Some d \<and>
      name_ok (def_name d) \<and> CH_LF \<notin> set (def_name d)) cfg_ids"
    by code_simp
  then show "find (\<lambda>d'. strcasecmp_eq (def_name d) (def_name d')) cfg_ids = Some d" and "name_ok (def_name d)"
    and "CH_LF \<notin> set (def_name d)"
    using assms by (auto simp: list_all_iff)
qed

section \<open>A file as a list of assignments\<close>

text \<open>A line for one setting: blanks, the entry of the table, blanks, blanks and the value, and the rest.\<close>

record setting =
  st_lead :: bytes
  st_def :: cfg_def
  st_gap :: bytes
  st_sep :: bytes
  st_value :: bytes
  st_tail :: bytes

definition setting_text :: "setting \<Rightarrow> bytes" where
  "setting_text x = st_lead x @ def_name (st_def x) @ st_gap x @ CH_EQ # st_sep x @ st_value x @ st_tail x @ [CH_LF]"

text \<open>The string that a value stands for: without the quotes around it.\<close>

definition unquoted :: "bytes \<Rightarrow> bytes" where
  "unquoted v = (if hd v = CH_QUOTE then butlast (tl v) else v)"

definition plain_string :: "bytes \<Rightarrow> bool" where
  "plain_string v \<longleftrightarrow> v \<noteq> [] \<and> (CH_QUOTE \<notin> set v \<or> (\<exists>u. v = CH_QUOTE # u @ [CH_QUOTE] \<and> CH_QUOTE \<notin> set u))"

definition setting_ok :: "setting \<Rightarrow> bool" where
  "setting_ok x \<longleftrightarrow>
     st_def x \<in> set cfg_ids \<and> def_cb (st_def x) = None \<and> def_type (st_def x) \<noteq> GEN_VAL \<and>
     (\<forall>c \<in> set (st_lead x @ st_gap x @ st_sep x). blank c) \<and> cfg_value_ok (st_value x) \<and>
     tail_ok (st_tail x @ [CH_LF]) \<and> 0 \<notin> set (st_tail x) \<and> CH_LF \<notin> set (st_value x @ st_tail x) \<and>
     length (setting_text x) < MAX_LINE_SIZE \<and>
     (def_type (st_def x) = INT_VAL \<longrightarrow> fst (cfg_getint (st_value x)) = 0) \<and>
     (def_type (st_def x) = STR_VAL \<longrightarrow> plain_string (st_value x))"

text \<open>What a setting assigns.\<close>

definition assign :: "cfg_env \<Rightarrow> setting \<Rightarrow> cfg_world \<Rightarrow> cfg_world" where
  "assign e x w =
     (if def_type (st_def x) = INT_VAL
      then w\<lparr>cw_int := (cw_int w)(def_name (st_def x) := snd (cfg_getint (st_value x)))\<rparr>
      else store_str (def_name (st_def x)) 0 (unquoted (st_value x))
             (set_shm (snd (shm_malloc (ce_ok e) (cw_shm w))) w))"

lemma cfg_getstr_plain:
  assumes "plain_string v" and "ok (shm_calls m)"
  shows "\<exists>a. cfg_getstr ok v m = Some (0, (a, unquoted v), snd (shm_malloc ok m))"
proof -
  obtain a m' where al: "shm_malloc ok m = (a, m')" "a \<noteq> NULL" using assms(2) by (auto simp: shm_malloc_def Let_def)
  consider "CH_QUOTE \<notin> set v" "v \<noteq> []" | u where "v = CH_QUOTE # u @ [CH_QUOTE]" "CH_QUOTE \<notin> set u"
    using assms(1) unfolding plain_string_def by blast
  then show ?thesis
  proof cases
    case 1
    then have "filter (\<lambda>c. c = CH_QUOTE) v = []" by (auto simp: filter_empty_conv)
    moreover have "hd v \<noteq> CH_QUOTE" using 1 hd_in_set by metis
    ultimately show ?thesis using 1 al by (simp add: cfg_getstr_def unquoted_def)
  next
    case 2
    then have "filter (\<lambda>c. c = CH_QUOTE) u = []" by (auto simp: filter_empty_conv)
    then show ?thesis using 2 al by (simp add: cfg_getstr_def unquoted_def)
  qed
qed

lemma fgets_line:
  assumes "CH_LF \<notin> set l" and "length l + 1 < MAX_LINE_SIZE"
  shows "fgets (l @ CH_LF # rest) = (l @ [CH_LF, 0], rest)"
proof -
  have "takeWhile (\<lambda>c. c \<noteq> CH_LF) (l @ CH_LF # rest) = l" using assms(1) by (induction l) auto
  then show ?thesis using assms(2) by (simp add: fgets_def Let_def)
qed

lemma blanks_plain: assumes "\<forall>c \<in> set s. blank c" shows "CH_LF \<notin> set s" and "0 \<notin> set s"
  using assms by (fastforce simp: blank_def)+

text \<open>What the stream reader does with one line \<open>name = values\<close> for an entry of the table.\<close>

definition reads_line :: "cfg_env \<Rightarrow> (bytes \<Rightarrow> cfg_world \<Rightarrow> (int \<times> cfg_world) option) \<Rightarrow> bytes \<Rightarrow> bytes \<Rightarrow> cfg_args \<Rightarrow> bool" where
  "reads_line e inc text name x \<longleftrightarrow>
     cl_id (snd x) \<noteq> None \<and> has_equal (snd x) \<and> str_at (fst x) (the (cl_id (snd x))) = name \<and>
     (\<forall>rest line w. cfg_parse_stream e inc line (text @ CH_LF # rest) w =
        (case cfg_run_def e inc x w of
           None \<Rightarrow> None
         | Some (ret, w) \<Rightarrow> if ret \<noteq> 0 then Some (line, w) else cfg_parse_stream e inc (line + 1) rest w))"

lemma stream_line:
  assumes seg: "segs (seg @ [CH_LF]) ts" and "\<forall>c \<in> set lead. blank c" and "\<forall>c \<in> set gap. blank c" and d: "d \<in> set cfg_ids"
    and "0 \<notin> set seg" and "CH_LF \<notin> set seg" and "length ts < CFG_TOKENS"
    and "length (lead @ def_name d @ gap @ CH_EQ # seg) + 1 < MAX_LINE_SIZE"
  shows "\<exists>x. map (str_at (fst x)) (cl_value (snd x)) = ts \<and> reads_line e inc (lead @ def_name d @ gap @ CH_EQ # seg) (def_name d) x"
proof -
  let ?l = "lead @ def_name d @ gap @ CH_EQ # seg"
  note t = cfg_ids_lookup [OF d]
  have "CH_LF \<notin> set (lead @ gap)" using blanks_plain(1) assms(2,3) by simp
  then have f: "fgets (?l @ CH_LF # rest) = (?l @ [CH_LF, 0], rest)" for rest
    using assms(6,8) t(3) by (intro fgets_line) auto
  obtain b vs where p: "cfg_parse_line (?l @ [CH_LF, 0]) =
      Some (b, \<lparr>cl_type = CFG_DEF, cl_id = Some (length lead), has_equal = True, cl_value = vs\<rparr>, 0)"
    and b: "str_at b (length lead) = def_name d" "map (str_at b) vs = ts"
    using parse_line_segs [OF assms(2) t(2) assms(3) seg, of "[]"] assms(5,7) by auto
  have "cfg_parse_stream e inc line (?l @ CH_LF # rest) w =
      (case cfg_run_def e inc (b, \<lparr>cl_type = CFG_DEF, cl_id = Some (length lead), has_equal = True, cl_value = vs\<rparr>) w of
         None \<Rightarrow> None
       | Some (ret, w) \<Rightarrow> if ret \<noteq> 0 then Some (line, w) else cfg_parse_stream e inc (line + 1) rest w)" for rest line w
    using f [of rest] p by (subst cfg_parse_stream.simps) (simp split: option.split)
  then show ?thesis
    using b by (intro exI [of _ "(b, \<lparr>cl_type = CFG_DEF, cl_id = Some (length lead), has_equal = True, cl_value = vs\<rparr>)"])
      (simp add: reads_line_def)
qed

text \<open>The entry that such a line runs.\<close>

lemma reads_line_run:
  assumes "reads_line e inc text (def_name d) x" and d: "d \<in> set cfg_ids" "def_cb d = None" "def_type d \<noteq> GEN_VAL"
  shows "cfg_run_def e inc x w =
    (if 1 < token_no (snd x) then Some (- 2, w)
     else do {
       v \<leftarrow> arg x 0;
       if def_type d = INT_VAL
       then Some (fst (cfg_getint v), w\<lparr>cw_int := (cw_int w)(def_name d := snd (cfg_getint v))\<rparr>)
       else do {
         (ret, (a, s), m) \<leftarrow> cfg_getstr (ce_ok e) v (cw_shm w);
         Some (ret, store_str (def_name d) ret s (set_shm m w))
       }
     })"
  using assms cfg_ids_lookup(1) [OF d(1)]
  by (cases "def_type d") (auto simp: cfg_run_def_def reads_line_def case_prod_beta)

lemma stream_setting:
  assumes ok: "setting_ok x" and mem: "ce_ok e (shm_calls (cw_shm w))"
  shows "cfg_parse_stream e inc line (setting_text x @ rest) w = cfg_parse_stream e inc (line + 1) rest (assign e x w)"
proof -
  let ?d = "st_def x" and ?seg = "st_sep x @ st_value x @ st_tail x"
  have d: "?d \<in> set cfg_ids" "def_cb ?d = None" "def_type ?d \<noteq> GEN_VAL" using ok by (simp_all add: setting_ok_def)
  have blanks: "\<forall>c \<in> set (st_lead x). blank c" "\<forall>c \<in> set (st_gap x). blank c" "\<forall>c \<in> set (st_sep x). blank c"
    using ok by (simp_all add: setting_ok_def)
  then have bl: "CH_LF \<notin> set (st_sep x)" "0 \<notin> set (st_sep x)" using blanks_plain [of "st_sep x"] by simp_all
  have seg: "segs (?seg @ [CH_LF]) [st_value x]"
    using values_segs [of "[(st_sep x, st_value x)]" "st_tail x @ [CH_LF]"] ok
    by (simp add: setting_ok_def values_ok_def values_text_def)
  have pre: "0 \<notin> set ?seg" "CH_LF \<notin> set ?seg" "length [st_value x] < CFG_TOKENS"
      "length (st_lead x @ def_name ?d @ st_gap x @ CH_EQ # ?seg) + 1 < MAX_LINE_SIZE"
    using ok bl by (simp_all add: setting_ok_def cfg_value_ok_def setting_text_def CFG_TOKENS_def)
  obtain l :: cfg_args where vs: "map (str_at (fst l)) (cl_value (snd l)) = [st_value x]"
    and l: "reads_line e inc (st_lead x @ def_name ?d @ st_gap x @ CH_EQ # ?seg) (def_name ?d) l"
    using stream_line [OF seg blanks(1,2) d(1) pre, of e inc]
    by (elim exE conjE) (rule that)
  have a: "token_no (snd l) = 1" "arg l 0 = Some (st_value x)"
    using vs by (auto simp: arg_def value_str_def token_no_def)
  have "cfg_run_def e inc l w = Some (0, assign e x w)"
  proof (cases "def_type ?d = INT_VAL")
    case True
    then show ?thesis using reads_line_run [OF l d] a ok by (simp add: setting_ok_def assign_def)
  next
    case False
    then have "plain_string (st_value x)" using ok d(3) by (cases "def_type ?d") (simp_all add: setting_ok_def)
    then obtain p where "cfg_getstr (ce_ok e) (st_value x) (cw_shm w) =
        Some (0, (p, unquoted (st_value x)), snd (shm_malloc (ce_ok e) (cw_shm w)))"
      using cfg_getstr_plain mem by blast
    then show ?thesis using reads_line_run [OF l d] a False by (simp add: assign_def)
  qed
  then show ?thesis using l by (simp add: reads_line_def setting_text_def)
qed

lemma stream_settings:
  assumes "\<forall>x \<in> set xs. setting_ok x" and "\<forall>i. ce_ok e i"
  shows "cfg_parse_stream e inc line (concat (map setting_text xs) @ rest) w =
    cfg_parse_stream e inc (line + int (length xs)) rest (foldl (\<lambda>w x. assign e x w) w xs)"
  using assms(1)
proof (induction xs arbitrary: line w)
  case (Cons x xs)
  then show ?case using stream_setting [of x e w] assms(2) by (simp add: add.assoc)
qed simp

text \<open>
  (C30) A file of lines that each set a number or a string is read completely and has exactly
  the effect of the assignments in their order: the line is recognised with any blanks before
  the name and around the equal sign, with quotes around the value, and with a comment or a
  carriage return at its end.
\<close>

theorem config_file_read:
  assumes "\<forall>x \<in> set xs. setting_ok x" and "\<forall>i. ce_ok e i" and "ce_files e f = Some (concat (map setting_text xs))"
  shows "read_config_file (Suc n) e f w = Some (0, foldl (\<lambda>w x. assign e x w) w xs)"
  using stream_settings [OF assms(1,2), of _ _ "[]"] assms(3) by (simp add: cfg_parse_stream.simps)

text \<open>Two lines, \<open>debug = 3 # level\<close> and \<open>aaa_realm="a.b"\<close> with a carriage return.\<close>

definition sample_settings :: "setting list" where
  "sample_settings =
     [\<lparr>st_lead = asc '' '', st_def = cfg_ids ! 0, st_gap = asc '' '', st_sep = asc '' '', st_value = asc ''3'',
        st_tail = asc '' # level''\<rparr>,
      \<lparr>st_lead = [], st_def = cfg_ids ! 2, st_gap = [], st_sep = [], st_value = CH_QUOTE # asc ''a.b'' @ [CH_QUOTE],
        st_tail = [CH_CR]\<rparr>]"

text \<open>An environment with memory for every request, one file and no modules.\<close>

definition sample_cfg_env :: "bytes \<Rightarrow> cfg_env" where
  "sample_cfg_env t = \<lparr>ce_ok = \<lambda>_. True, ce_files = \<lambda>f. if f = asc ''disc.cfg'' then Some t else None,
     ce_setpath = \<lambda>_. 0, ce_mod = \<lparr>me_ok = \<lambda>_. True, me_dlopen = \<lambda>_. (NULL, None), me_init = \<lambda>_. 0\<rparr>\<rparr>"

definition sample_cfg_world :: cfg_world where
  "sample_cfg_world =
     \<lparr>cw_int = \<lambda>_. 0, cw_str = \<lambda>_. None, cw_status = AAA_CLIENT,
      cw_route = \<lparr>cfg_peer_lst = [], re_heap = Map.empty, route_lst = NULL, rt_shm = \<lparr>shm_calls = 0, shm_live = []\<rparr>\<rparr>,
      cw_mods = \<lparr>mw_modules = [], mw_closed = [], mw_destroyed = [], mw_shm = \<lparr>shm_calls = 0, shm_live = []\<rparr>\<rparr>,
      cw_param_int = \<lambda>_. 0, cw_param_str = \<lambda>_. [], cw_log = []\<rparr>"

lemma plain_string_exec:
  "plain_string v \<longleftrightarrow> v \<noteq> [] \<and> (CH_QUOTE \<notin> set v \<or> 2 \<le> length v \<and> hd v = CH_QUOTE \<and> last v = CH_QUOTE \<and>
     CH_QUOTE \<notin> set (butlast (tl v)))" (is "_ \<longleftrightarrow> ?r")
proof
  assume ?r
  moreover have "v = CH_QUOTE # butlast (tl v) @ [CH_QUOTE]" if "2 \<le> length v" "hd v = CH_QUOTE" "last v = CH_QUOTE"
  proof -
    obtain c t where "v = c # t" "t \<noteq> []" using \<open>2 \<le> length v\<close> by (cases v; cases "tl v") auto
    then show ?thesis using that append_butlast_last_id [of t] by simp
  qed
  ultimately show "plain_string v" unfolding plain_string_def by metis
qed (auto simp: plain_string_def)

lemma sample_settings_ok: "\<forall>x \<in> set sample_settings. setting_ok x"
proof -
  have "list_all (\<lambda>x. st_def x \<in> set cfg_ids) sample_settings" by code_simp
  moreover have "list_all (\<lambda>x. def_cb (st_def x) = None \<and> def_type (st_def x) \<noteq> GEN_VAL) sample_settings" by code_simp
  moreover have "list_all (\<lambda>x. (\<forall>c \<in> set (st_lead x @ st_gap x @ st_sep x). blank c) \<and> cfg_value_ok (st_value x)) sample_settings"
    by code_simp
  moreover have "list_all (\<lambda>x. tail_ok (st_tail x @ [CH_LF]) \<and> 0 \<notin> set (st_tail x) \<and> CH_LF \<notin> set (st_value x @ st_tail x) \<and>
     length (setting_text x) < MAX_LINE_SIZE) sample_settings" by code_simp
  moreover have "list_all (\<lambda>x. (def_type (st_def x) = INT_VAL \<longrightarrow> fst (cfg_getint (st_value x)) = 0)) sample_settings" by code_simp
  moreover have "list_all (\<lambda>x. (def_type (st_def x) = STR_VAL \<longrightarrow> plain_string (st_value x))) sample_settings"
    unfolding plain_string_exec by code_simp
  ultimately show ?thesis by (simp add: setting_ok_def list_all_iff)
qed

theorem config_file_read_witness:
  "\<exists>w. read_config_file 1 (sample_cfg_env (concat (map setting_text sample_settings))) (asc ''disc.cfg'') sample_cfg_world = Some (0, w) \<and>
     cw_int w (asc ''debug'') = 3 \<and> cw_str w (asc ''aaa_realm'') = Some (asc ''a.b'')"
proof -
  let ?e = "sample_cfg_env (concat (map setting_text sample_settings))"
  have "read_config_file (Suc 0) ?e (asc ''disc.cfg'') sample_cfg_world =
      Some (0, foldl (\<lambda>w x. assign ?e x w) sample_cfg_world sample_settings)"
    by (rule config_file_read) (use sample_settings_ok in \<open>simp_all add: sample_cfg_env_def\<close>)
  moreover have "cw_int (foldl (\<lambda>w x. assign (sample_cfg_env t) x w) sample_cfg_world sample_settings) (asc ''debug'') = 3 \<and>
      cw_str (foldl (\<lambda>w x. assign (sample_cfg_env t) x w) sample_cfg_world sample_settings) (asc ''aaa_realm'') = Some (asc ''a.b'')" for t
    by (simp add: sample_settings_def assign_def sample_cfg_world_def sample_cfg_env_def cfg_ids_def store_str_def set_shm_def
        unquoted_def asc_def cfg_getint_def strtol10_def is_digit_def is_space_def)
  ultimately show ?thesis by simp
qed

section \<open>Lines that stop the reader\<close>

text \<open>
  (C31) Two mistakes in a line for a number or a string, after any number of good lines. A line
  without a value, \<open>name =\<close>, passes the checks on the equal sign and on the number of values and
  makes the reader follow a null pointer. A comment directly behind a value is not a comment: its
  sign is overwritten by the end of the value and its first word is a second value, so the file is
  refused with the settings before it in force.
\<close>

theorem config_line_traps:
  assumes xs: "\<forall>x \<in> set xs. setting_ok x" "\<forall>i. ce_ok e i" and d: "d \<in> set cfg_ids" "def_cb d = None" "def_type d \<noteq> GEN_VAL"
    and sp: "\<forall>c \<in> set sp. blank c" and v: "cfg_value_ok v" "cfg_value_ok com" "CH_LF \<notin> set (v @ com)"
    and len: "length (def_name d @ CH_EQ # sp @ v @ CH_HASH # com) + 1 < MAX_LINE_SIZE"
  shows "(ce_files e f = Some (concat (map setting_text xs) @ def_name d @ CH_EQ # sp @ CH_LF # rest) \<longrightarrow>
      read_config_file (Suc n) e f w = None) \<and>
    (ce_files e f = Some (concat (map setting_text xs) @ def_name d @ CH_EQ # sp @ v @ CH_HASH # com @ CH_LF # rest) \<longrightarrow>
      read_config_file (Suc n) e f w = Some (- 1, foldl (\<lambda>w x. assign e x w) w xs))"
proof (intro conjI impI)
  note t = cfg_ids_lookup [OF d(1)] and bl = blanks_plain [OF sp]
  let ?inc = "read_config_file n e" and ?w = "foldl (\<lambda>w x. assign e x w) w xs"
  show "read_config_file (Suc n) e f w = None"
    if f: "ce_files e f = Some (concat (map setting_text xs) @ def_name d @ CH_EQ # sp @ CH_LF # rest)"
  proof -
    have "segs (sp @ [CH_LF]) []" using segs.seg_end [OF sp] by simp
    then obtain l where l: "map (str_at (fst l)) (cl_value (snd l)) = []" "reads_line e ?inc ([] @ def_name d @ [] @ CH_EQ # sp) (def_name d) l"
      using stream_line [of sp "[]" "[]" "[]" d e ?inc] d bl len by (auto simp: CFG_TOKENS_def)
    then have "cfg_run_def e ?inc l ?w = None"
      using reads_line_run [OF l(2) d] by (simp add: arg_def value_str_def token_no_def)
    then have "cfg_parse_stream e ?inc line (def_name d @ CH_EQ # sp @ CH_LF # rest) ?w = None" for line
      using l(2) by (simp add: reads_line_def)
    then show ?thesis using f stream_settings [OF xs] by simp
  qed
  show "read_config_file (Suc n) e f w = Some (- 1, ?w)"
    if f: "ce_files e f = Some (concat (map setting_text xs) @ def_name d @ CH_EQ # sp @ v @ CH_HASH # com @ CH_LF # rest)"
  proof -
    have "segs (com @ [CH_LF]) [com]"
      using values_segs_first [of "[CH_LF]" "[]" com "[]"] v(2) by (simp add: tail_ok_def values_ok_def values_text_def)
    then have seg: "segs ((sp @ v @ CH_HASH # com) @ [CH_LF]) [v, com]"
      using segs.seg_more [OF sp v(1), of CH_HASH] by (simp add: token_stop_def)
    have nil: "\<forall>c \<in> set []. blank c" by simp
    have pre: "0 \<notin> set (sp @ v @ CH_HASH # com)" "CH_LF \<notin> set (sp @ v @ CH_HASH # com)" "length [v, com] < CFG_TOKENS"
        "length ([] @ def_name d @ [] @ CH_EQ # sp @ v @ CH_HASH # com) + 1 < MAX_LINE_SIZE"
      using bl v len by (simp_all add: CFG_TOKENS_def cfg_value_ok_def)
    obtain l :: cfg_args where l: "map (str_at (fst l)) (cl_value (snd l)) = [v, com]"
        "reads_line e ?inc ([] @ def_name d @ [] @ CH_EQ # sp @ v @ CH_HASH # com) (def_name d) l"
      using stream_line [OF seg nil nil d(1) pre, of e ?inc] by (elim exE conjE) (rule that)
    have "token_no (snd l) = 2" using arg_cong [OF l(1), of length] by (simp add: token_no_def)
    then have "cfg_run_def e ?inc l ?w = Some (- 2, ?w)" using reads_line_run [OF l(2) d] by simp
    then have "cfg_parse_stream e ?inc line (def_name d @ CH_EQ # sp @ v @ CH_HASH # com @ CH_LF # rest) ?w = Some (line, ?w)" for line
      using l(2) by (simp add: reads_line_def)
    then show ?thesis using f stream_settings [OF xs] by (simp add: add_eq_0_iff)
  qed
qed

theorem config_line_traps_witness:
  "read_config_file 1 (sample_cfg_env (asc ''debug='' @ [CH_LF])) (asc ''disc.cfg'') sample_cfg_world = None \<and>
   read_config_file 1 (sample_cfg_env (asc ''debug=3#high'' @ [CH_LF])) (asc ''disc.cfg'') sample_cfg_world = Some (- 1, sample_cfg_world)"
proof -
  have d: "cfg_ids ! 0 \<in> set cfg_ids" "def_cb (cfg_ids ! 0) = None" "def_type (cfg_ids ! 0) \<noteq> GEN_VAL"
    "def_name (cfg_ids ! 0) = asc ''debug''"
    by (simp_all add: cfg_ids_def)
  have v: "cfg_value_ok (asc ''3'')" "cfg_value_ok (asc ''high'')" "CH_LF \<notin> set (asc ''3'' @ asc ''high'')"
    "length (def_name (cfg_ids ! 0) @ CH_EQ # [] @ asc ''3'' @ CH_HASH # asc ''high'') + 1 < MAX_LINE_SIZE"
    by code_simp+
  have t: "asc ''debug='' @ [CH_LF] = asc ''debug'' @ CH_EQ # [] @ CH_LF # []"
    "asc ''debug=3#high'' @ [CH_LF] = asc ''debug'' @ CH_EQ # [] @ asc ''3'' @ CH_HASH # asc ''high'' @ CH_LF # []"
    by code_simp+
  have "ce_files (sample_cfg_env s) (asc ''disc.cfg'') = Some s" "\<forall>i. ce_ok (sample_cfg_env s) i" for s by (simp_all add: sample_cfg_env_def)
  note env = this
  note traps = config_line_traps [where xs = "[]" and sp = "[]" and n = 0 and f = "asc ''disc.cfg''" and w = sample_cfg_world
      and rest = "[]", OF _ env(2) d(1,2,3) _ v, unfolded d(4) t(1) [symmetric] list.map concat.simps append_Nil]
  show ?thesis
    using traps [of "asc ''debug='' @ [CH_LF]"] traps [of "asc ''debug=3#high'' @ [CH_LF]"] env(1) t
    by (simp del: read_config_file.simps)
qed

end
