(* ===== verification/Digest_Parser.thy ===== *)
theory Digest_Parser
  imports Disc_Prelude
begin

text \<open>
  The parser for digest credentials (param\_parser.c, digest\_parser.c and the trimming functions of
  trim.h). A string is an offset in a buffer with a length, which the source keeps as a signed
  number and which can become negative; None is a read outside the buffer. The parser reads
  names four bytes at a time, also behind the end of its string.
\<close>

section \<open>Strings\<close>

type_synonym cstr = "nat \<times> int"

definition trim_char :: "u8 \<Rightarrow> bool" where
  "trim_char c \<longleftrightarrow> c = 32 \<or> c = 9 \<or> c = 13 \<or> c = 10"

function trim_leading :: "bytes \<Rightarrow> nat \<Rightarrow> int \<Rightarrow> cstr option" where
  "trim_leading b s l =
     (if 0 < l then do { c \<leftarrow> peek b s; if trim_char c then trim_leading b (s + 1) (l - 1) else Some (s, l) }
      else Some (s, l))"
  by pat_completeness auto
termination by (relation "measure (\<lambda>(b, s, l). nat l)") auto

function trim_trailing :: "bytes \<Rightarrow> nat \<Rightarrow> int \<Rightarrow> cstr option" where
  "trim_trailing b s l =
     (if 0 < l then do { c \<leftarrow> peek b (s + nat l - 1); if trim_char c then trim_trailing b s (l - 1) else Some (s, l) }
      else Some (s, l))"
  by pat_completeness auto
termination by (relation "measure (\<lambda>(b, s, l). nat l)") auto

definition trim :: "bytes \<Rightarrow> cstr \<Rightarrow> cstr option" where
  "trim b x = do { (s, l) \<leftarrow> trim_leading b (fst x) (snd x); trim_trailing b s l }"

text \<open>The size is unsigned: a negative length gives, in 32-bit addresses, an end before the start, so the loop
  does not run.\<close>

function q_memchr :: "bytes \<Rightarrow> nat \<Rightarrow> u8 \<Rightarrow> int \<Rightarrow> nat option option" where
  "q_memchr b p c n =
     (if 0 < n then do { x \<leftarrow> peek b p; if x = c then Some (Some p) else q_memchr b (p + 1) c (n - 1) }
      else Some None)"
  by pat_completeness auto
termination by (relation "measure (\<lambda>(b, p, c, n). nat n)") auto

declare trim_leading.simps [simp del] trim_trailing.simps [simp del] q_memchr.simps [simp del]

section \<open>Names of parameters\<close>

datatype dig_par = PAR_USERNAME | PAR_REALM | PAR_NONCE | PAR_URI | PAR_RESPONSE | PAR_CNONCE | PAR_OPAQUE | PAR_QOP
  | PAR_NC | PAR_ALGORITHM | PAR_OTHER

definition LOWER_BYTE :: "u8 \<Rightarrow> u8" where
  "LOWER_BYTE c = c OR 0x20"

definition LOWER_DWORD :: "u32 \<Rightarrow> u32" where
  "LOWER_DWORD d = d OR 0x20202020"

text \<open>The bytes are of type \<open>char\<close>, which is signed, and are added.\<close>

definition READ :: "bytes \<Rightarrow> nat \<Rightarrow> u32 option" where
  "READ b p = do {
     c0 \<leftarrow> peek b p; c1 \<leftarrow> peek b (p + 1); c2 \<leftarrow> peek b (p + 2); c3 \<leftarrow> peek b (p + 3);
     Some (scast c0 + push_bit 8 (scast c1) + push_bit 16 (scast c2) + push_bit 24 (scast c3))
   }"

text \<open>Where the name ends: at the label \<open>end\<close> with a type or at the label \<open>other\<close>, and the pointer p there.\<close>

datatype name_end = At_end dig_par nat | At_other nat

definition PARSE_SHORT :: "bytes \<Rightarrow> nat \<Rightarrow> name_end option" where
  "PARSE_SHORT b p = do {
     c \<leftarrow> peek b p;
     if LOWER_BYTE c = 117 then do {
       c \<leftarrow> peek b (p + 1);
       if LOWER_BYTE c = 114 then do {
         c \<leftarrow> peek b (p + 2);
         Some (if LOWER_BYTE c = 105 then At_end PAR_URI (p + 3) else At_other p)
       } else Some (At_other p)
     }
     else if LOWER_BYTE c = 113 then do {
       c \<leftarrow> peek b (p + 1);
       if LOWER_BYTE c = 111 then do {
         c \<leftarrow> peek b (p + 2);
         Some (if LOWER_BYTE c = 112 then At_end PAR_QOP (p + 3) else At_other p)
       } else Some (At_other p)
     }
     else if LOWER_BYTE c = 110 then do {
       c \<leftarrow> peek b (p + 1);
       Some (if LOWER_BYTE c = 99 then At_end PAR_NC (p + 2) else At_other p)
     }
     else Some (At_other p)
   }"

definition user_CASE :: "bytes \<Rightarrow> nat \<Rightarrow> name_end option" where
  "user_CASE b p = do {
     let p = p + 4;
     val \<leftarrow> READ b p;
     Some (if LOWER_DWORD val = 0x656d616e then At_end PAR_USERNAME (p + 4) else At_other p)
   }"

definition resp_CASE :: "bytes \<Rightarrow> nat \<Rightarrow> name_end option" where
  "resp_CASE b p = do {
     let p = p + 4;
     val \<leftarrow> READ b p;
     Some (if LOWER_DWORD val = 0x65736e6f then At_end PAR_RESPONSE (p + 4) else At_other p)
   }"

text \<open>These two have no jump at their end: without a match the next case is run.\<close>

definition nonc_CASE :: "bytes \<Rightarrow> nat \<Rightarrow> name_end option" where
  "nonc_CASE b p = do {
     let p = p + 4;
     c \<leftarrow> peek b p;
     if LOWER_BYTE c = 101 then Some (At_end PAR_NONCE (p + 1)) else resp_CASE b p
   }"

definition real_CASE :: "bytes \<Rightarrow> nat \<Rightarrow> name_end option" where
  "real_CASE b p = do {
     let p = p + 4;
     c \<leftarrow> peek b p;
     if LOWER_BYTE c = 109 then Some (At_end PAR_REALM (p + 1)) else nonc_CASE b p
   }"

definition cnon_CASE :: "bytes \<Rightarrow> nat \<Rightarrow> name_end option" where
  "cnon_CASE b p = do {
     let p = p + 4;
     c \<leftarrow> peek b p;
     if LOWER_BYTE c = 99 then do {
       let p = p + 1;
       c \<leftarrow> peek b p;
       Some (if LOWER_BYTE c = 101 then At_end PAR_CNONCE (p + 1) else At_other p)
     }
     else Some (At_other p)
   }"

definition opaq_CASE :: "bytes \<Rightarrow> nat \<Rightarrow> name_end option" where
  "opaq_CASE b p = do {
     let p = p + 4;
     c \<leftarrow> peek b p;
     if LOWER_BYTE c = 117 then do {
       let p = p + 1;
       c \<leftarrow> peek b p;
       Some (if LOWER_BYTE c = 101 then At_end PAR_OPAQUE (p + 1) else At_other p)
     }
     else Some (At_other p)
   }"

definition algo_CASE :: "bytes \<Rightarrow> nat \<Rightarrow> name_end option" where
  "algo_CASE b p = do {
     let p = p + 4;
     val \<leftarrow> READ b p;
     if LOWER_DWORD val = 0x68746972 then do {
       let p = p + 4;
       c \<leftarrow> peek b p;
       Some (if LOWER_BYTE c = 109 then At_end PAR_ALGORITHM (p + 1) else At_other p)
     }
     else Some (At_other p)
   }"

definition FIRST_QUATERNIONS :: "bytes \<Rightarrow> nat \<Rightarrow> u32 \<Rightarrow> name_end option" where
  "FIRST_QUATERNIONS b p v =
     (if v = 0x72657375 then user_CASE b p
      else if v = 0x6c616572 then real_CASE b p
      else if v = 0x636e6f6e then nonc_CASE b p
      else if v = 0x70736572 then resp_CASE b p
      else if v = 0x6e6f6e63 then cnon_CASE b p
      else if v = 0x7161706f then opaq_CASE b p
      else if v = 0x6f676c61 then algo_CASE b p
      else PARSE_SHORT b p)"

text \<open>The label \<open>other\<close>; the string has been moved to (s, l) before. The result is the return value with
  the moved string and the type.\<close>

definition name_other :: "bytes \<Rightarrow> int \<Rightarrow> nat \<Rightarrow> nat \<Rightarrow> int \<Rightarrow> (int \<times> cstr \<times> dig_par) option" where
  "name_other b pend p s l = do {
     r \<leftarrow> q_memchr b p 61 (pend - int p);
     (case r of
        None \<Rightarrow> Some (- 1, (s, l), PAR_OTHER)
      | Some q \<Rightarrow> Some (0, (q, l - (int q - int s)), PAR_OTHER))
   }"

text \<open>The labels \<open>end\<close> and \<open>other\<close>, for the string (s, l) as it was at the start.\<close>

definition name_finish :: "bytes \<Rightarrow> int \<Rightarrow> nat \<Rightarrow> int \<Rightarrow> name_end \<Rightarrow> (int \<times> cstr \<times> dig_par) option" where
  "name_finish b pend s l e =
     (case e of
        At_other p \<Rightarrow> name_other b pend p s l
      | At_end t p \<Rightarrow> do {
          (s, l) \<leftarrow> trim_leading b p (l - (int p - int s));
          c \<leftarrow> peek b s;
          if c = 61 then Some (0, (s, l), t) else name_other b pend p s l
        })"

definition parse_param_name :: "bytes \<Rightarrow> cstr \<Rightarrow> (int \<times> cstr \<times> dig_par) option" where
  "parse_param_name b x = do {
     let (s, l) = x;
     val \<leftarrow> READ b s;
     e \<leftarrow> (if l < 4 then Some (At_other s) else FIRST_QUATERNIONS b s (LOWER_DWORD val));
     name_finish b (int s + l) s l e
   }"

section \<open>Credentials\<close>

datatype alg_type = ALG_UNSPEC | ALG_MD5 | ALG_MD5SESS | ALG_OTHER

datatype qop_type = QOP_UNSPEC | QOP_AUTH | QOP_AUTHINT | QOP_OTHER

text \<open>A string field is None while its pointer is null.\<close>

record dig_cred =
  dc_whole :: "cstr option"
  dc_user :: "cstr option"
  dc_domain :: "cstr option"
  dc_realm :: "cstr option"
  dc_nonce :: "cstr option"
  dc_uri :: "cstr option"
  dc_response :: "cstr option"
  dc_alg :: "cstr option"
  dc_alg_parsed :: alg_type
  dc_cnonce :: "cstr option"
  dc_opaque :: "cstr option"
  dc_qop :: "cstr option"
  dc_qop_parsed :: qop_type
  dc_nc :: "cstr option"

definition init_dig_cred :: dig_cred where
  "init_dig_cred =
     \<lparr>dc_whole = None, dc_user = None, dc_domain = None, dc_realm = None, dc_nonce = None, dc_uri = None,
      dc_response = None, dc_alg = None, dc_alg_parsed = ALG_UNSPEC, dc_cnonce = None, dc_opaque = None,
      dc_qop = None, dc_qop_parsed = QOP_UNSPEC, dc_nc = None\<rparr>"

text \<open>The field that a parameter is stored in; the fields of unknown parameters are lost.\<close>

fun par_field :: "dig_par \<Rightarrow> dig_cred \<Rightarrow> cstr option" where
  "par_field PAR_USERNAME c = dc_whole c"
| "par_field PAR_REALM c = dc_realm c"
| "par_field PAR_NONCE c = dc_nonce c"
| "par_field PAR_URI c = dc_uri c"
| "par_field PAR_RESPONSE c = dc_response c"
| "par_field PAR_CNONCE c = dc_cnonce c"
| "par_field PAR_OPAQUE c = dc_opaque c"
| "par_field PAR_QOP c = dc_qop c"
| "par_field PAR_NC c = dc_nc c"
| "par_field PAR_ALGORITHM c = dc_alg c"
| "par_field PAR_OTHER c = None"

fun set_field :: "dig_par \<Rightarrow> cstr \<Rightarrow> dig_cred \<Rightarrow> dig_cred" where
  "set_field PAR_USERNAME x c = c\<lparr>dc_whole := Some x\<rparr>"
| "set_field PAR_REALM x c = c\<lparr>dc_realm := Some x\<rparr>"
| "set_field PAR_NONCE x c = c\<lparr>dc_nonce := Some x\<rparr>"
| "set_field PAR_URI x c = c\<lparr>dc_uri := Some x\<rparr>"
| "set_field PAR_RESPONSE x c = c\<lparr>dc_response := Some x\<rparr>"
| "set_field PAR_CNONCE x c = c\<lparr>dc_cnonce := Some x\<rparr>"
| "set_field PAR_OPAQUE x c = c\<lparr>dc_opaque := Some x\<rparr>"
| "set_field PAR_QOP x c = c\<lparr>dc_qop := Some x\<rparr>"
| "set_field PAR_NC x c = c\<lparr>dc_nc := Some x\<rparr>"
| "set_field PAR_ALGORITHM x c = c\<lparr>dc_alg := Some x\<rparr>"
| "set_field PAR_OTHER x c = c"

text \<open>The return value, the moved string and the result.\<close>

definition parse_quoted :: "bytes \<Rightarrow> cstr \<Rightarrow> (int \<times> cstr \<times> cstr option) option" where
  "parse_quoted b x =
     (let (s, l) = x
      in if l < 2 then Some (- 1, (s, l), None)
      else do {
        let (s, l) = (s + 1, l - 1);
        q \<leftarrow> q_memchr b s 34 l;
        (case q of
           None \<Rightarrow> Some (- 2, (s, l), None)
         | Some e \<Rightarrow> Some (0, (e + 1, l - (int e - int s + 1)), Some (s, int e - int s)))
      })"

definition token_char :: "u8 \<Rightarrow> bool" where
  "token_char c \<longleftrightarrow> c \<noteq> 32 \<and> c \<noteq> 9 \<and> c \<noteq> 13 \<and> c \<noteq> 10 \<and> c \<noteq> 44"

function token_len :: "bytes \<Rightarrow> nat \<Rightarrow> int \<Rightarrow> nat \<Rightarrow> nat option" where
  "token_len b s l i =
     (if int i < l then do { c \<leftarrow> peek b (s + i); if token_char c then token_len b s l (i + 1) else Some i } else Some i)"
  by pat_completeness auto
termination by (relation "measure (\<lambda>(b, s, l, i). nat (l - int i))") auto

declare token_len.simps [simp del]

text \<open>The pointer of the result is set before the token is found to be empty; its length is then the old one.\<close>

definition parse_token :: "bytes \<Rightarrow> cstr \<Rightarrow> cstr option \<Rightarrow> (int \<times> cstr \<times> cstr) option" where
  "parse_token b x old = do {
     let (s, l) = x;
     i \<leftarrow> token_len b s l 0;
     Some (if i = 0 then (- 2, (s, l), (s, case old of None \<Rightarrow> 0 | Some (_, n) \<Rightarrow> n))
           else (0, (s + i, l - int i), (s, int i)))
   }"

definition parse_digest_param :: "bytes \<Rightarrow> cstr \<Rightarrow> dig_cred \<Rightarrow> (int \<times> cstr \<times> dig_cred) option" where
  "parse_digest_param b x c = do {
     (r, (s, l), t) \<leftarrow> parse_param_name b x;
     if r < 0 then Some (- 1, (s, l), c)
     else do {
       (s, l) \<leftarrow> trim_leading b (s + 1) (l - 1);
       if l = 0 then Some (- 2, (s, l), c)
       else do {
         ch \<leftarrow> peek b s;
         if ch = 34
         then do {
           (r, y, v) \<leftarrow> parse_quoted b (s, l);
           Some (if r < 0 then (- 3, y, c) else (0, y, case v of None \<Rightarrow> c | Some v \<Rightarrow> set_field t v c))
         }
         else do {
           (r, y, v) \<leftarrow> parse_token b (s, l) (par_field t c);
           Some (if r < 0 then - 4 else 0, y, set_field t v c)
         }
       }
     }
   }"

definition str_bytes :: "bytes \<Rightarrow> cstr \<Rightarrow> bytes option" where
  "str_bytes b x = peekn b (fst x) (nat (snd x))"

definition parse_qop :: "bytes \<Rightarrow> cstr \<Rightarrow> dig_cred \<Rightarrow> dig_cred option" where
  "parse_qop b x c = do {
     y \<leftarrow> trim b x;
     t \<leftarrow> (if snd y = 4 \<or> snd y = 8 then str_bytes b y else Some []);
     Some (c\<lparr>dc_qop_parsed :=
       (if snd y = 4 \<and> strncasecmp_eq t (asc ''auth'') then QOP_AUTH
        else if snd y = 8 \<and> strncasecmp_eq t (asc ''auth-int'') then QOP_AUTHINT
        else QOP_OTHER)\<rparr>)
   }"

definition parse_algorithm :: "bytes \<Rightarrow> cstr \<Rightarrow> dig_cred \<Rightarrow> dig_cred option" where
  "parse_algorithm b x c = do {
     y \<leftarrow> trim b x;
     t \<leftarrow> (if snd y = 3 \<or> snd y = 8 then str_bytes b y else Some []);
     Some (c\<lparr>dc_alg_parsed :=
       (if snd y = 3 \<and> strncasecmp_eq t (asc ''MD5'') then ALG_MD5
        else if snd y = 8 \<and> strncasecmp_eq t (asc ''MD5-sess'') then ALG_MD5SESS
        else ALG_OTHER)\<rparr>)
   }"

definition parse_username :: "bytes \<Rightarrow> cstr \<Rightarrow> dig_cred \<Rightarrow> dig_cred option" where
  "parse_username b x c =
     (let c = c\<lparr>dc_user := Some x\<rparr>
      in if snd x \<le> 2 then Some c
      else do {
        d \<leftarrow> q_memchr b (fst x) 64 (snd x);
        (case d of
           None \<Rightarrow> Some c
         | Some d \<Rightarrow> Some (c\<lparr>dc_domain := Some (d + 1, snd x - (int d - int (fst x)) - 1), dc_user := Some (fst x, int d - int (fst x))\<rparr>))
      })"

section \<open>The loop over the parameters\<close>

lemma trim_leading_le: "trim_leading b s l = Some (s', l') \<Longrightarrow> s \<le> s' \<and> l' = l - (int s' - int s) \<and> (0 \<le> l \<longrightarrow> 0 \<le> l')"
proof (induction b s l rule: trim_leading.induct)
  case (1 b s l)
  then show ?case by (subst (asm) (2) trim_leading.simps) (fastforce split: if_splits bind_splits)
qed

lemma q_memchr_le: "q_memchr b p c n = Some (Some q) \<Longrightarrow> p \<le> q \<and> int q < int p + n \<and> q < length b \<and> b ! q = c"
proof (induction b p c n rule: q_memchr.induct)
  case (1 b p c n)
  then show ?case by (subst (asm) (2) q_memchr.simps) (fastforce simp: peek_def split: if_splits bind_splits)
qed

fun name_ptr :: "name_end \<Rightarrow> nat" where
  "name_ptr (At_end _ p) = p"
| "name_ptr (At_other p) = p"

lemmas name_cases = user_CASE_def real_CASE_def nonc_CASE_def resp_CASE_def cnon_CASE_def opaq_CASE_def algo_CASE_def

lemma name_ptr_ge: "FIRST_QUATERNIONS b s v = Some e \<Longrightarrow> s \<le> name_ptr e"
  by (auto simp: FIRST_QUATERNIONS_def PARSE_SHORT_def name_cases Let_def split: if_splits bind_splits)

lemma name_other_le: "name_other b pend p s l = Some (0, (q, l'), t) \<Longrightarrow> p \<le> q \<and> l' = l - (int q - int s)"
  by (auto simp: name_other_def dest!: q_memchr_le split: bind_splits option.splits)

lemma name_other_result: "name_other b pend p s l = Some (r, x, t) \<Longrightarrow> r = 0 \<or> r = - 1"
  by (auto simp: name_other_def split: bind_splits option.splits)

lemma name_finish_shrinks:
  assumes "name_finish b pend s l e = Some (r, (s', l'), t)" and "\<not> r < 0" and "s \<le> name_ptr e"
  shows "l' \<le> l"
proof (cases e)
  case (At_other p)
  then have o: "name_other b pend p s l = Some (r, (s', l'), t)" using assms(1) by (simp add: name_finish_def)
  then have "r = 0" using name_other_result assms(2) by fastforce
  then show ?thesis using name_other_le o assms(3) At_other by fastforce
next
  case (At_end u p)
  then obtain s1 l1 and c :: u8 where t: "trim_leading b p (l - (int p - int s)) = Some (s1, l1)"
    and c: "(if c = 61 then Some (0, (s1, l1), u) else name_other b pend p s1 l1) = Some (r, (s', l'), t)"
    using assms(1) by (auto simp: name_finish_def bind_eq_Some_conv)
  have le: "p \<le> s1" "l1 = l - (int s1 - int s)" "s \<le> p" using trim_leading_le [OF t] assms(3) At_end by auto
  show ?thesis
  proof (cases "c = 61")
    case False
    then have "r = 0" using c name_other_result assms(2) by fastforce
    then show ?thesis using c False le name_other_le by fastforce
  qed (use c le in auto)
qed

lemma parse_param_name_shrinks:
  assumes "parse_param_name b (s, l) = Some (r, (s', l'), t)" and "\<not> r < 0"
  shows "l' \<le> l"
proof -
  obtain v e where "(if l < 4 then Some (At_other s) else FIRST_QUATERNIONS b s v) = Some e"
    and "name_finish b (int s + l) s l e = Some (r, (s', l'), t)"
    using assms(1) by (auto simp: parse_param_name_def bind_eq_Some_conv)
  moreover from this(1) have "s \<le> name_ptr e" using name_ptr_ge by (auto split: if_splits)
  ultimately show ?thesis using name_finish_shrinks assms(2) by blast
qed

lemma token_len_le: "token_len b s l i = Some j \<Longrightarrow> int i \<le> l \<Longrightarrow> i \<le> j \<and> int j \<le> l"
proof (induction b s l i rule: token_len.induct)
  case (1 b s l i)
  then show ?case by (subst (asm) (2) token_len.simps) (fastforce split: if_splits bind_splits)
qed

lemma token_len_short: "l \<le> 0 \<Longrightarrow> token_len b s l 0 = Some 0"
  by (simp add: token_len.simps)

lemma parse_digest_param_shrinks:
  assumes "parse_digest_param b (s, l) c = Some (r, (s', l'), c')" and "\<not> r < 0"
  shows "0 \<le> l' \<and> l' < l"
proof -
  obtain r1 s1 l1 t where n: "parse_param_name b (s, l) = Some (r1, (s1, l1), t)" "\<not> r1 < 0"
    using assms by (auto simp: parse_digest_param_def bind_eq_Some_conv split: if_splits)
  obtain s2 l2 where t: "trim_leading b (s1 + 1) (l1 - 1) = Some (s2, l2)" "l2 \<noteq> 0"
    using assms n by (auto simp: parse_digest_param_def bind_eq_Some_conv split: if_splits)
  have l2: "l2 < l" using parse_param_name_shrinks [OF n] trim_leading_le [OF t(1)] by simp
  obtain ch where ch: "peek b s2 = Some ch" using assms n t by (auto simp: parse_digest_param_def bind_eq_Some_conv)
  show ?thesis
  proof (cases "ch = 34")
    case True
    then obtain v where q: "parse_quoted b (s2, l2) = Some (0, (s', l'), v)"
      using assms n t ch by (auto simp: parse_digest_param_def bind_eq_Some_conv parse_quoted_def Let_def split: if_splits option.splits)
    then show ?thesis using l2
      by (auto simp: parse_quoted_def Let_def bind_eq_Some_conv dest!: q_memchr_le split: if_splits option.splits)
  next
    case False
    then obtain i where i: "token_len b s2 l2 0 = Some i" "i \<noteq> 0" "l' = l2 - int i"
      using assms n t ch by (auto simp: parse_digest_param_def bind_eq_Some_conv parse_token_def Let_def split: if_splits)
    then have "0 < l2" using token_len_short [of l2 b s2] by (cases "0 < l2") auto
    then show ?thesis using i token_len_le [OF i(1)] l2 by simp
  qed
qed

function param_loop :: "bytes \<Rightarrow> nat \<Rightarrow> int \<Rightarrow> dig_cred \<Rightarrow> (int \<times> dig_cred) option" where
  "param_loop b s l c =
     (case parse_digest_param b (s, l) c of
        None \<Rightarrow> None
      | Some (r, (s', l'), c') \<Rightarrow>
          if r < 0 then Some (- 1, c')
          else (case q_memchr b s' 44 l' of
             None \<Rightarrow> None
           | Some None \<Rightarrow> Some (0, c')
           | Some (Some comma) \<Rightarrow>
               (case trim_leading b (comma + 1) (l' - (int comma - int s' + 1)) of
                  None \<Rightarrow> None
                | Some (s'', l'') \<Rightarrow> param_loop b s'' l'' c')))"
  by pat_completeness auto
termination
proof (relation "measure (\<lambda>(b, s, l, c). nat l)", simp, goal_cases)
  case (1 b s l c z r y c' s' l' x comma z' s'' l'')
  then show ?case
    by (auto dest!: parse_digest_param_shrinks q_memchr_le trim_leading_le)
qed

declare param_loop.simps [simp del]

definition parse_digest_params :: "bytes \<Rightarrow> cstr \<Rightarrow> dig_cred \<Rightarrow> (int \<times> dig_cred) option" where
  "parse_digest_params b x c = do {
     (r, c) \<leftarrow> param_loop b (fst x) (snd x) c;
     if r < 0 then Some (- 1, c)
     else do {
       c \<leftarrow> (case dc_qop c of None \<Rightarrow> Some c | Some y \<Rightarrow> parse_qop b y c);
       c \<leftarrow> (case dc_alg c of None \<Rightarrow> Some c | Some y \<Rightarrow> parse_algorithm b y c);
       c \<leftarrow> (case dc_whole c of None \<Rightarrow> Some c | Some y \<Rightarrow> parse_username b y c);
       Some (0, c)
     }
   }"

text \<open>The third of the characters allowed after the scheme is the letter n, not a line feed.\<close>

definition parse_digest_cred :: "bytes \<Rightarrow> cstr \<Rightarrow> dig_cred \<Rightarrow> (int \<times> dig_cred) option" where
  "parse_digest_cred b x c = do {
     (s, l) \<leftarrow> trim_leading b (fst x) (snd x);
     if l < 7 then Some (- 1, c)
     else do {
       t \<leftarrow> peekn b s 6;
       ch \<leftarrow> peek b (s + 6);
       if strncasecmp_eq t (asc ''digest'') \<and> (ch = 32 \<or> ch = 13 \<or> ch = 110 \<or> ch = 9 \<or> ch = 44)
       then do {
         y \<leftarrow> trim_leading b (s + 7) (l - 7);
         (r, c) \<leftarrow> parse_digest_params b y c;
         Some (if r < 0 then - 2 else 1, c)
       }
       else Some (- 1, c)
     }
   }"

end
