(* ===== verification/Digest_Cred.thy ===== *)
theory Digest_Cred
  imports Digest_Parser
begin

text \<open>
  Reading digest credentials back: names of parameters in any case, quoted and unquoted values, blanks around
  equal signs and commas, any order.
\<close>

section \<open>Names\<close>

lemma lower_ascii:
  assumes "LOWER_BYTE c = k" and "k < 128"
  shows "c < 128"
proof -
  have "c \<le> LOWER_BYTE c" unfolding LOWER_BYTE_def by (rule le_word_or2)
  then show ?thesis using assms by simp
qed

lemma scast_ascii:
  assumes "c < (128 :: u8)"
  shows "(scast c :: u32) = ucast c"
proof -
  have "uint c < 128" using assms by (simp add: word_less_def)
  then have "sint c = uint c" unfolding sint_uint
    by (intro signed_take_bit_int_eq_self) (simp_all add: order_trans [OF _ unsigned_greater_eq])
  then show ?thesis by (simp only: scast_eq ucast_eq)
qed

lemma push_24_scast: "push_bit 24 (scast (c :: u8)) = (push_bit 24 (ucast c) :: u32)"
  by (rule bit_word_eqI) (auto simp: bit_simps)

lemma of_be32_inject [simp]: "of_be32 a b c d = of_be32 a' b' c' d' \<longleftrightarrow> a = a' \<and> b = b' \<and> c = c' \<and> d = d'"
proof
  assume "of_be32 a b c d = of_be32 a' b' c' d'"
  from arg_cong [OF this, of be32] show "a = a' \<and> b = b' \<and> c = c' \<and> d = d'" by simp
qed simp

lemma of_be32_add: "ucast d + push_bit 8 (ucast c) + push_bit 16 (ucast b) + push_bit 24 (ucast a) = of_be32 a b c d"
proof -
  have "(ucast d :: u32) AND push_bit 8 (ucast c) = 0"
    and "(ucast d OR push_bit 8 (ucast c) :: u32) AND push_bit 16 (ucast b) = 0"
    and "((ucast d OR push_bit 8 (ucast c)) OR push_bit 16 (ucast b) :: u32) AND push_bit 24 (ucast a) = 0"
    by (rule bit_word_eqI, auto simp: bit_simps dest: bit_imp_le_length)+
  then show ?thesis by (simp add: disjunctive_add_eq_or of_be32_def or.assoc or.left_commute or.commute)
qed

lemma of_be32_or: "of_be32 a b c d OR of_be32 a' b' c' d' = of_be32 (a OR a') (b OR b') (c OR c') (d OR d')"
  unfolding of_be32_def by (simp add: push_bit_or unsigned_or_eq or.assoc or.left_commute or.commute)

lemma READ_lower:
  assumes "peek b p = Some c0" and "peek b (p + 1) = Some c1" and "peek b (p + 2) = Some c2" and "peek b (p + 3) = Some c3"
    and "c0 < 128" and "c1 < 128" and "c2 < 128"
  shows "\<exists>v. READ b p = Some v \<and> LOWER_DWORD v = of_be32 (LOWER_BYTE c3) (LOWER_BYTE c2) (LOWER_BYTE c1) (LOWER_BYTE c0)"
proof -
  have k: "(0x20202020 :: u32) = of_be32 0x20 0x20 0x20 0x20" by (simp add: of_be32_def)
  have "LOWER_DWORD (of_be32 c3 c2 c1 c0) = of_be32 (LOWER_BYTE c3) (LOWER_BYTE c2) (LOWER_BYTE c1) (LOWER_BYTE c0)"
    unfolding LOWER_DWORD_def LOWER_BYTE_def k of_be32_or by (rule refl)
  moreover have "READ b p = Some (of_be32 c3 c2 c1 c0)"
    unfolding READ_def assms(1-4) by (simp only: bind.bind_lunit scast_ascii assms(5-7) push_24_scast of_be32_add)
  ultimately show ?thesis by simp
qed

text \<open>The constants of the source spelled out in letters.\<close>

lemma quaternions:
  "(0x72657375 :: u32) = of_be32 114 101 115 117" "(0x6c616572 :: u32) = of_be32 108 97 101 114"
  "(0x636e6f6e :: u32) = of_be32 99 110 111 110" "(0x70736572 :: u32) = of_be32 112 115 101 114"
  "(0x6e6f6e63 :: u32) = of_be32 110 111 110 99" "(0x7161706f :: u32) = of_be32 113 97 112 111"
  "(0x6f676c61 :: u32) = of_be32 111 103 108 97" "(0x656d616e :: u32) = of_be32 101 109 97 110"
  "(0x65736e6f :: u32) = of_be32 101 115 110 111" "(0x68746972 :: u32) = of_be32 104 116 105 114"
  by (simp_all add: of_be32_def)

fun name_of :: "dig_par \<Rightarrow> bytes" where
  "name_of PAR_USERNAME = [117, 115, 101, 114, 110, 97, 109, 101]"
| "name_of PAR_REALM = [114, 101, 97, 108, 109]"
| "name_of PAR_NONCE = [110, 111, 110, 99, 101]"
| "name_of PAR_URI = [117, 114, 105]"
| "name_of PAR_RESPONSE = [114, 101, 115, 112, 111, 110, 115, 101]"
| "name_of PAR_CNONCE = [99, 110, 111, 110, 99, 101]"
| "name_of PAR_OPAQUE = [111, 112, 97, 113, 117, 101]"
| "name_of PAR_QOP = [113, 111, 112]"
| "name_of PAR_NC = [110, 99]"
| "name_of PAR_ALGORITHM = [97, 108, 103, 111, 114, 105, 116, 104, 109]"
| "name_of PAR_OTHER = []"

lemma name_of_text:
  "name_of PAR_USERNAME = asc ''username'' \<and> name_of PAR_REALM = asc ''realm'' \<and> name_of PAR_NONCE = asc ''nonce'' \<and>
   name_of PAR_URI = asc ''uri'' \<and> name_of PAR_RESPONSE = asc ''response'' \<and> name_of PAR_CNONCE = asc ''cnonce'' \<and>
   name_of PAR_OPAQUE = asc ''opaque'' \<and> name_of PAR_QOP = asc ''qop'' \<and> name_of PAR_NC = asc ''nc'' \<and>
   name_of PAR_ALGORITHM = asc ''algorithm''"
  by code_simp

lemma peek_at: "k < length x \<Longrightarrow> peek (pre @ x) (length pre + k) = Some (x ! k)"
  by (simp add: peek_def nth_append)

lemma quaternion_at:
  assumes "k + 3 < length x" and "x ! k < 128" and "x ! (k + 1) < 128" and "x ! (k + 2) < 128"
  shows "\<exists>v. READ (pre @ x) (length pre + k) = Some v \<and>
    LOWER_DWORD v = of_be32 (LOWER_BYTE (x ! (k + 3))) (LOWER_BYTE (x ! (k + 2))) (LOWER_BYTE (x ! (k + 1))) (LOWER_BYTE (x ! k))"
  using assms by (intro READ_lower) (simp_all add: peek_def nth_append)

lemma lower_blank: "trim_char d \<or> d = 61 \<Longrightarrow> d < 128 \<and> LOWER_BYTE d \<in> {32, 41, 45, 42, 61}"
  by (auto simp: trim_char_def LOWER_BYTE_def)

lemma name_found:
  assumes n: "map LOWER_BYTE n = name_of t" and "t \<noteq> PAR_OTHER" and d: "trim_char d \<or> d = 61" and r: "r \<noteq> []"
  shows "\<exists>v. READ (pre @ n @ d # r) (length pre) = Some v \<and>
    FIRST_QUATERNIONS (pre @ n @ d # r) (length pre) (LOWER_DWORD v) = Some (At_end t (length pre + length n))"
proof -
  have ascii: "\<forall>i < length n. n ! i < 128"
  proof (intro allI impI)
    fix i assume "i < length n"
    moreover have "\<forall>k \<in> set (name_of t). k < 128" by (cases t) simp_all
    ultimately show "n ! i < 128" using lower_ascii n by (metis length_map nth_map nth_mem)
  qed
  let ?x = "n @ d # r"
  have len: "length n = length (name_of t)" using arg_cong [OF n, of length] by simp
  have nth: "?x ! i = n ! i \<and> LOWER_BYTE (n ! i) = name_of t ! i \<and> n ! i < 128 \<and> peek (pre @ ?x) (length pre + i) = Some (n ! i)"
    if "i < length (name_of t)" for i
    using that n ascii len peek_at [of i ?x pre] by (metis length_append nth_append nth_map trans_less_add1)
  have dn: "?x ! length (name_of t) = d" using nth_append_length [of n d r] by (simp only: len)
  have d2: "d < 128" "t = PAR_NC \<Longrightarrow> ?x ! 2 = d \<and> ?x ! Suc (Suc 0) = d" using lower_blank [OF d] dn by (simp_all add: numeral_2_eq_2)
  have r: "0 < length r" using r by simp
  have p0: "peek (pre @ ?x) (length pre) = Some (n ! 0)" using nth [of 0] assms(2) by (cases t) simp_all
  have pc: "peek (pre @ ?x) (i + length pre) = Some (n ! i)" if "i < length (name_of t)" for i
    using nth [OF that] by (simp add: add.commute)
  have p2: "2 < length (name_of t) \<Longrightarrow> peek (pre @ ?x) (Suc (Suc (length pre))) = Some (n ! 2)" using nth [of 2] by simp
  have p1: "peek (pre @ ?x) (Suc (length pre)) = Some (n ! 1)" using nth [of 1] assms(2) by (cases t) simp_all
  show ?thesis
  proof (cases t)
    case PAR_USERNAME
    note f = nth [unfolded PAR_USERNAME, simplified]
    show ?thesis
      using quaternion_at [of 0 ?x pre] quaternion_at [of 4 ?x pre] len PAR_USERNAME
      by (auto simp: f FIRST_QUATERNIONS_def quaternions user_CASE_def)
  next
    case PAR_REALM
    note f = nth [unfolded PAR_REALM, simplified]
    show ?thesis
      using quaternion_at [of 0 ?x pre] len PAR_REALM
      by (auto simp: f FIRST_QUATERNIONS_def quaternions real_CASE_def)
  next
    case PAR_URI
    note f = nth [unfolded PAR_URI, simplified]
    obtain v where "READ (pre @ ?x) (length pre) = Some v" "LOWER_DWORD v = of_be32 (LOWER_BYTE (?x ! 3)) (LOWER_BYTE (?x ! 2)) (LOWER_BYTE (n ! 1)) (LOWER_BYTE (n ! 0))"
      using quaternion_at [of 0 ?x pre] len d2 PAR_URI r by (auto simp: f)
    then show ?thesis
      using len PAR_URI by (intro exI [of _ v] conjI) (simp_all add: f p0 p1 p2 FIRST_QUATERNIONS_def quaternions PARSE_SHORT_def)
  next
    case PAR_NONCE
    note f = nth [unfolded PAR_NONCE, simplified]
    show ?thesis
      using quaternion_at [of 0 ?x pre] len PAR_NONCE
      by (auto simp: f FIRST_QUATERNIONS_def quaternions nonc_CASE_def)
  next
    case PAR_RESPONSE
    note f = nth [unfolded PAR_RESPONSE, simplified]
    show ?thesis
      using quaternion_at [of 0 ?x pre] quaternion_at [of 4 ?x pre] len PAR_RESPONSE
      by (auto simp: f FIRST_QUATERNIONS_def quaternions resp_CASE_def)
  next
    case PAR_CNONCE
    note f = nth [unfolded PAR_CNONCE, simplified]
    show ?thesis
      using quaternion_at [of 0 ?x pre] len PAR_CNONCE
      by (auto simp: f pc Let_def FIRST_QUATERNIONS_def quaternions cnon_CASE_def)
  next
    case PAR_OPAQUE
    note f = nth [unfolded PAR_OPAQUE, simplified]
    show ?thesis
      using quaternion_at [of 0 ?x pre] len PAR_OPAQUE
      by (auto simp: f pc Let_def FIRST_QUATERNIONS_def quaternions opaq_CASE_def)
  next
    case PAR_QOP
    note f = nth [unfolded PAR_QOP, simplified]
    obtain v where "READ (pre @ ?x) (length pre) = Some v" "LOWER_DWORD v = of_be32 (LOWER_BYTE (?x ! 3)) (LOWER_BYTE (?x ! 2)) (LOWER_BYTE (n ! 1)) (LOWER_BYTE (n ! 0))"
      using quaternion_at [of 0 ?x pre] len d2 PAR_QOP r by (auto simp: f)
    then show ?thesis
      using len PAR_QOP by (intro exI [of _ v] conjI) (simp_all add: f p0 p1 p2 FIRST_QUATERNIONS_def quaternions PARSE_SHORT_def)
  next
    case PAR_NC
    note f = nth [unfolded PAR_NC, simplified]
    obtain v where "READ (pre @ ?x) (length pre) = Some v" "LOWER_DWORD v = of_be32 (LOWER_BYTE (?x ! 3)) (LOWER_BYTE (?x ! 2)) (LOWER_BYTE (n ! 1)) (LOWER_BYTE (n ! 0))"
      using quaternion_at [of 0 ?x pre] len d2 PAR_NC r by (auto simp: f)
    then show ?thesis
      using len PAR_NC by (intro exI [of _ v] conjI) (simp_all add: f p0 p1 p2 FIRST_QUATERNIONS_def quaternions PARSE_SHORT_def)
  next
    case PAR_ALGORITHM
    note f = nth [unfolded PAR_ALGORITHM, simplified]
    show ?thesis
      using quaternion_at [of 0 ?x pre] quaternion_at [of 4 ?x pre] len PAR_ALGORITHM
      by (auto simp: f pc Let_def FIRST_QUATERNIONS_def quaternions algo_CASE_def)
  qed (use assms(2) in simp)
qed

section \<open>Scanning a text\<close>

lemma trim_leading_text:
  assumes "\<forall>c \<in> set w. trim_char c" and "x = [] \<or> \<not> trim_char (hd x)" and "l = int (length w + length x)"
  shows "trim_leading (pre @ w @ x @ post) (length pre) l = Some (length pre + length w, int (length x))"
  using assms
proof (induction w arbitrary: pre l)
  case Nil
  then show ?case by (subst trim_leading.simps) (cases x; auto simp: peek_def nth_append)
next
  case (Cons c w)
  have "trim_leading ((pre @ [c]) @ w @ x @ post) (length (pre @ [c])) (l - 1) = Some (length (pre @ [c]) + length w, int (length x))"
    by (rule Cons.IH) (use Cons.prems in auto)
  then show ?case using Cons.prems by (subst trim_leading.simps) (simp add: peek_def nth_append)
qed

lemma q_memchr_text:
  assumes "c \<notin> set w" and "int (length w) < n"
  shows "q_memchr (pre @ w @ c # post) (length pre) c n = Some (Some (length pre + length w))"
  using assms
proof (induction w arbitrary: pre n)
  case Nil
  then show ?case by (subst q_memchr.simps) (simp add: peek_def nth_append)
next
  case (Cons x w)
  have "q_memchr ((pre @ [x]) @ w @ c # post) (length (pre @ [x])) c (n - 1) = Some (Some (length (pre @ [x]) + length w))"
    by (rule Cons.IH) (use Cons.prems in auto)
  then show ?case using Cons.prems by (subst q_memchr.simps) (auto simp: peek_def nth_append)
qed

lemma q_memchr_none:
  assumes "c \<notin> set w"
  shows "q_memchr (pre @ w @ post) (length pre) c (int (length w)) = Some None"
  using assms
proof (induction w arbitrary: pre)
  case Nil
  then show ?case by (subst q_memchr.simps) simp
next
  case (Cons x w)
  have "q_memchr ((pre @ [x]) @ w @ post) (length (pre @ [x])) c (int (length w)) = Some None"
    by (rule Cons.IH) (use Cons.prems in auto)
  then show ?case using Cons.prems by (subst q_memchr.simps) (auto simp: peek_def nth_append)
qed

lemma token_len_text:
  assumes "\<forall>c \<in> set w. token_char c" and "x = [] \<or> \<not> token_char (hd x)"
  shows "token_len (pre @ u @ w @ x @ post) (length pre) (int (length u + length w + length x)) (length u) = Some (length u + length w)"
  using assms
proof (induction w arbitrary: u)
  case Nil
  then show ?case by (subst token_len.simps) (cases x; auto simp: peek_def nth_append)
next
  case (Cons c w)
  have "token_len (pre @ (u @ [c]) @ w @ x @ post) (length pre) (int (length (u @ [c]) + length w + length x)) (length (u @ [c])) =
      Some (length (u @ [c]) + length w)"
    by (rule Cons.IH) (use Cons.prems in auto)
  then show ?case using Cons.prems by (subst token_len.simps) (simp add: peek_def nth_append)
qed

section \<open>Parameters\<close>

text \<open>A parameter as it is written: blanks before and after the equal sign, quotes or not, blanks after the value
  and after a comma that follows.\<close>

record cred_param =
  cp_type :: dig_par
  cp_name :: bytes
  cp_before :: bytes
  cp_after :: bytes
  cp_quoted :: bool
  cp_value :: bytes
  cp_end :: bytes
  cp_next :: bytes

definition body_text :: "cred_param \<Rightarrow> bytes" where
  "body_text q = (if cp_quoted q then 34 # cp_value q @ [34] else cp_value q)"

definition param_text :: "cred_param \<Rightarrow> bytes" where
  "param_text q = cp_name q @ cp_before q @ 61 # cp_after q @ body_text q"

definition param_ok :: "cred_param \<Rightarrow> bool" where
  "param_ok q \<longleftrightarrow> cp_type q \<noteq> PAR_OTHER \<and> map LOWER_BYTE (cp_name q) = name_of (cp_type q) \<and>
     (\<forall>c \<in> set (cp_before q @ cp_after q @ cp_end q @ cp_next q). trim_char c) \<and>
     (if cp_quoted q then 34 \<notin> set (cp_value q)
      else cp_value q \<noteq> [] \<and> hd (cp_value q) \<noteq> 34 \<and> (\<forall>c \<in> set (cp_value q). token_char c))"

lemma body_first: "param_ok q \<Longrightarrow> body_text q \<noteq> [] \<and> \<not> trim_char (hd (body_text q))"
  by (cases "cp_quoted q"; cases "cp_value q") (auto simp: param_ok_def body_text_def trim_char_def token_char_def)

lemma parse_name_text:
  assumes q: "param_ok q" and l: "l = int (length (param_text q) + length x)"
  shows "parse_param_name (pre @ param_text q @ x @ post) (length pre, l) =
    Some (0, (length (pre @ cp_name q @ cp_before q), int (length (61 # cp_after q @ body_text q @ x))), cp_type q)"
proof -
  let ?n = "cp_name q" and ?w = "cp_before q" and ?r = "cp_after q @ body_text q @ x @ post"
  let ?b = "pre @ ?n @ ?w @ 61 # ?r"
  have b: "pre @ param_text q @ x @ post = ?b" by (simp add: param_text_def)
  obtain d r where d: "?w @ 61 # ?r = d # r" "trim_char d \<or> d = 61" "r \<noteq> []"
    using body_first [OF q] q by (cases ?w) (auto simp: param_ok_def)
  have n: "map LOWER_BYTE ?n = name_of (cp_type q)" "cp_type q \<noteq> PAR_OTHER" using q by (simp_all add: param_ok_def)
  obtain v where v: "READ ?b (length pre) = Some v"
      "FIRST_QUATERNIONS ?b (length pre) (LOWER_DWORD v) = Some (At_end (cp_type q) (length pre + length ?n))"
    using name_found [OF n d(2,3), of pre] d(1) by auto
  have len: "length ?n = length (name_of (cp_type q))" using arg_cong [OF n(1), of length] by simp
  then have l4: "\<not> l < 4" using body_first [OF q] n(2) l by (cases "cp_type q"; cases "body_text q") (auto simp: param_text_def)
  have t: "trim_leading ?b (length pre + length ?n) (l - int (length ?n)) =
      Some (length (pre @ ?n @ ?w), int (length (61 # cp_after q @ body_text q @ x)))"
    using trim_leading_text [of ?w "61 # cp_after q @ body_text q @ x" "l - int (length ?n)" "pre @ ?n" post] q l
    by (simp add: param_ok_def trim_char_def param_text_def add.assoc)
  have "peek ?b (length (pre @ ?n @ ?w)) = Some 61" by (simp add: peek_def nth_append)
  then show ?thesis
    unfolding b parse_param_name_def using v l4 t by (simp add: name_finish_def del: length_append)
qed

text \<open>What a field holds: the bytes of its string.\<close>

definition field_text :: "bytes \<Rightarrow> cstr option \<Rightarrow> bytes option" where
  "field_text b f = (case f of None \<Rightarrow> None | Some x \<Rightarrow> if snd x < 0 then None else str_bytes b x)"

lemma field_text_at: "field_text (pre @ v @ post) (Some (length pre, int (length v))) = Some v"
  by (simp add: field_text_def str_bytes_def peekn_def)

lemma par_set_field: "t \<noteq> PAR_OTHER \<Longrightarrow> par_field p (set_field t x c) = (if p = t then Some x else par_field p c)"
  by (cases t; cases p) simp_all

text \<open>The fields that the parameters do not fill.\<close>

definition derived :: "dig_cred \<Rightarrow> cstr option \<times> cstr option \<times> alg_type \<times> qop_type" where
  "derived c = (dc_user c, dc_domain c, dc_alg_parsed c, dc_qop_parsed c)"

lemma derived_set_field [simp]: "derived (set_field t x c) = derived c"
  by (cases t) (simp_all add: derived_def)

lemma parse_param_text:
  assumes q: "param_ok q" and x: "x = [] \<or> \<not> token_char (hd x)" and b: "b = pre @ param_text q @ x @ post"
    and l: "l = int (length (param_text q) + length x)"
  shows "\<exists>f. parse_digest_param b (length pre, l) c =
      Some (0, (length (pre @ param_text q), int (length x)), set_field (cp_type q) f c) \<and> field_text b (Some f) = Some (cp_value q)"
proof -
  let ?p = "pre @ cp_name q @ cp_before q @ [61]" and ?v = "cp_value q"
  note name = parse_name_text [OF q l, of pre post]
  have tl: "trim_leading b (length ?p) (int (length (cp_after q @ body_text q @ x))) =
      Some (length (?p @ cp_after q), int (length (body_text q @ x)))"
    using trim_leading_text [of "cp_after q" "body_text q @ x" _ ?p post] body_first [OF q] q b
    by (simp add: param_ok_def param_text_def)
  have nz: "body_text q \<noteq> []" using body_first [OF q] by simp
  have pk: "peek b (length (?p @ cp_after q)) = Some (hd (body_text q))"
    using b nz by (cases "body_text q") (simp_all add: param_text_def peek_def nth_append)
  show ?thesis
  proof (cases "cp_quoted q")
    case True
    let ?f = "(length (?p @ cp_after q @ [34]), int (length ?v))"
    have v: "34 \<notin> set ?v" using q True by (simp add: param_ok_def)
    have bb: "b = (?p @ cp_after q @ [34]) @ ?v @ 34 # x @ post" using b True by (simp add: param_text_def body_text_def)
    have "q_memchr b (length (?p @ cp_after q @ [34])) 34 (int (length (?v @ 34 # x))) = Some (Some (length (?p @ cp_after q @ [34]) + length ?v))"
      unfolding bb by (rule q_memchr_text [OF v]) simp
    then have "parse_quoted b (length (?p @ cp_after q), int (length (body_text q @ x))) =
        Some (0, (length (pre @ param_text q), int (length x)), Some ?f)"
      using True by (simp add: parse_quoted_def Let_def body_text_def param_text_def)
    moreover have "field_text b (Some ?f) = Some ?v" unfolding bb by (rule field_text_at)
    ultimately show ?thesis
      using name tl pk True b by (intro exI [of _ ?f]) (simp add: parse_digest_param_def body_text_def)
  next
    case False
    let ?f = "(length (?p @ cp_after q), int (length ?v))"
    have v: "?v \<noteq> []" "hd ?v \<noteq> 34" "\<forall>c \<in> set ?v. token_char c" using q False by (simp_all add: param_ok_def)
    have bb: "b = (?p @ cp_after q) @ ?v @ x @ post" using b False by (simp add: param_text_def body_text_def)
    have "token_len b (length (?p @ cp_after q)) (int (length (body_text q @ x))) 0 = Some (length ?v)"
      using token_len_text [OF v(3) x, of "?p @ cp_after q" "[]" post] bb False by (simp add: body_text_def)
    then have "parse_token b (length (?p @ cp_after q), int (length (body_text q @ x))) old =
        Some (0, (length (pre @ param_text q), int (length x)), ?f)" for old
      using v(1) False by (simp add: parse_token_def body_text_def param_text_def)
    moreover have "field_text b (Some ?f) = Some ?v" unfolding bb by (rule field_text_at)
    moreover have "int (length ?v) + int (length x) \<noteq> 0" using v(1) by (cases ?v) simp_all
    ultimately show ?thesis
      using name tl pk False b v(2) by (intro exI [of _ ?f]) (simp add: parse_digest_param_def body_text_def)
  qed
qed

section \<open>Lists of parameters\<close>

fun params_text :: "cred_param list \<Rightarrow> bytes" where
  "params_text [] = []"
| "params_text [q] = param_text q @ cp_end q"
| "params_text (q # qs) = param_text q @ cp_end q @ 44 # cp_next q @ params_text qs"

text \<open>The value of a parameter in a list; the last one counts.\<close>

definition param_value :: "cred_param list \<Rightarrow> dig_par \<Rightarrow> bytes option" where
  "param_value qs = map_of (rev (map (\<lambda>q. (cp_type q, cp_value q)) qs))"

definition holds :: "bytes \<Rightarrow> cred_param list \<Rightarrow> dig_cred \<Rightarrow> dig_cred \<Rightarrow> bool" where
  "holds b qs c c' \<longleftrightarrow> derived c' = derived c \<and>
     (\<forall>p. if param_value qs p = None then par_field p c' = par_field p c
          else field_text b (par_field p c') = param_value qs p)"

lemma param_value_Cons: "param_value (q # qs) p = (case param_value qs p of None \<Rightarrow> if p = cp_type q then Some (cp_value q) else None | Some v \<Rightarrow> Some v)"
  by (auto simp: param_value_def map_add_def split: option.splits)

lemma name_first: "param_ok q \<Longrightarrow> cp_name q \<noteq> [] \<and> \<not> trim_char (hd (cp_name q))"
proof -
  assume q: "param_ok q"
  then have n: "map LOWER_BYTE (cp_name q) = name_of (cp_type q)" "cp_type q \<noteq> PAR_OTHER" by (simp_all add: param_ok_def)
  then have h: "hd (name_of (cp_type q)) \<notin> {32, 41, 45, 42, 61}" "name_of (cp_type q) \<noteq> []" by (cases "cp_type q"; simp)+
  have ne: "cp_name q \<noteq> []" using n(1) h(2) by (metis list.map_disc_iff)
  then have "LOWER_BYTE (hd (cp_name q)) = hd (name_of (cp_type q))" using n(1) by (metis hd_map)
  then show ?thesis using lower_blank [of "hd (cp_name q)"] h(1) ne by metis
qed

lemma trim_not_token: "\<forall>c \<in> set w. trim_char c \<Longrightarrow> w = [] \<or> \<not> token_char (hd w)" "trim_char c \<Longrightarrow> c \<noteq> 44"
  by (cases w) (auto simp: trim_char_def token_char_def)

lemma param_loop_text:
  assumes "qs \<noteq> []" and "\<forall>q \<in> set qs. param_ok q" and "b = pre @ params_text qs @ post"
  shows "\<exists>c'. param_loop b (length pre) (int (length (params_text qs))) c = Some (0, c') \<and> holds b qs c c'"
  using assms
proof (induction qs arbitrary: pre c rule: params_text.induct)
  case (2 q)
  have q: "param_ok q" "\<forall>c \<in> set (cp_end q). trim_char c" using 2 by (auto simp: param_ok_def)
  obtain f where f: "parse_digest_param b (length pre, int (length (params_text [q]))) c =
      Some (0, (length (pre @ param_text q), int (length (cp_end q))), set_field (cp_type q) f c)" "field_text b (Some f) = Some (cp_value q)"
    using parse_param_text [OF q(1) trim_not_token(1) [OF q(2)], of b pre post "int (length (params_text [q]))" c] 2(3) by auto
  have "44 \<notin> set (cp_end q)" using q(2) trim_not_token(2) by blast
  then have "q_memchr b (length (pre @ param_text q)) 44 (int (length (cp_end q))) = Some None"
    using q_memchr_none [of 44 "cp_end q" "pre @ param_text q" post] 2(3) by simp
  then have "param_loop b (length pre) (int (length (params_text [q]))) c = Some (0, set_field (cp_type q) f c)"
    by (subst param_loop.simps) (simp only: f(1) option.case prod.case if_False less_irrefl)
  moreover have "holds b [q] c (set_field (cp_type q) f c)"
    using q(1) f(2) by (auto simp: holds_def param_value_def par_set_field param_ok_def)
  ultimately show ?case by blast
next
  case (3 q q' qs)
  let ?qs = "q' # qs"
  let ?x = "cp_end q @ 44 # cp_next q @ params_text ?qs"
  have q: "param_ok q" "\<forall>c \<in> set (cp_end q). trim_char c" "\<forall>c \<in> set (cp_next q). trim_char c" using 3 by (auto simp: param_ok_def)
  have x: "?x = [] \<or> \<not> token_char (hd ?x)" using trim_not_token(1) [OF q(2)] by (cases "cp_end q") (auto simp: token_char_def)
  obtain f where f: "parse_digest_param b (length pre, int (length (params_text (q # ?qs)))) c =
      Some (0, (length (pre @ param_text q), int (length ?x)), set_field (cp_type q) f c)" "field_text b (Some f) = Some (cp_value q)"
    using parse_param_text [OF q(1) x, of b pre post "int (length (params_text (q # ?qs)))" c] 3(4) by auto
  have "44 \<notin> set (cp_end q)" using q(2) trim_not_token(2) by blast
  then have m: "q_memchr b (length (pre @ param_text q)) 44 (int (length ?x)) = Some (Some (length (pre @ param_text q @ cp_end q)))"
    using q_memchr_text [of 44 "cp_end q" _ "pre @ param_text q"] 3(4) by simp
  let ?pre = "(pre @ param_text q @ cp_end q @ [44]) @ cp_next q"
  have nf: "params_text ?qs = [] \<or> \<not> trim_char (hd (params_text ?qs))"
    using name_first [of q'] 3(3) by (cases qs) (auto simp: param_text_def)
  have t: "trim_leading b (length (pre @ param_text q @ cp_end q) + 1) (int (length ?x) - (int (length (pre @ param_text q @ cp_end q)) - int (length (pre @ param_text q)) + 1)) =
      Some (length ?pre, int (length (params_text ?qs)))"
    using trim_leading_text [OF q(3) nf refl, of "pre @ param_text q @ cp_end q @ [44]" post] 3(4) by simp
  obtain c' where c': "param_loop b (length ?pre) (int (length (params_text ?qs))) (set_field (cp_type q) f c) = Some (0, c')"
      "holds b ?qs (set_field (cp_type q) f c) c'"
    using 3(1) [of ?pre "set_field (cp_type q) f c"] 3(3,4) by auto
  have "param_loop b (length pre) (int (length (params_text (q # ?qs)))) c = Some (0, c')"
    by (subst param_loop.simps) (simp only: f(1) m t c'(1) option.case prod.case if_False less_irrefl)
  moreover have "holds b (q # ?qs) c c'"
    using q(1) f(2) c'(2) unfolding holds_def param_value_Cons [of q]
    by (auto simp: par_set_field param_ok_def split: option.splits if_splits)
  ultimately show ?case by blast
qed simp

section \<open>Credentials\<close>

lemma field_split:
  assumes "field_text b (Some f) = Some v"
  shows "\<exists>pre post. b = pre @ v @ post \<and> f = (length pre, int (length v))"
proof -
  obtain s n where f: "f = (s, n)" by (cases f)
  then have n: "0 \<le> n" "s + nat n \<le> length b" "v = take (nat n) (drop s b)"
    using assms by (auto simp: field_text_def str_bytes_def peekn_def split: if_splits)
  then have "b = take s b @ v @ drop (nat n) (drop s b)" by (simp only: append_take_drop_id)
  moreover have "length (take s b) = s" "int (length v) = n" using n by simp_all
  ultimately show ?thesis using f by metis
qed

definition strip :: "bytes \<Rightarrow> bytes" where
  "strip v = rev (dropWhile trim_char (rev (dropWhile trim_char v)))"

lemma trim_trailing_text:
  assumes "\<forall>c \<in> set w. trim_char c" and "x = [] \<or> \<not> trim_char (last x)"
  shows "trim_trailing (pre @ x @ w @ post) (length pre) (int (length x + length w)) = Some (length pre, int (length x))"
  using assms
proof (induction w arbitrary: post rule: rev_induct)
  case Nil
  then show ?case by (subst trim_trailing.simps) (cases x rule: rev_cases; auto simp: peek_def nth_append)
next
  case (snoc c w)
  have "trim_trailing (pre @ x @ w @ c # post) (length pre) (int (length x + length w)) = Some (length pre, int (length x))"
    by (rule snoc.IH) (use snoc.prems in auto)
  moreover have "peek (pre @ x @ (w @ [c]) @ post) (length pre + nat (int (length x + length (w @ [c]))) - 1) = Some c"
    by (simp add: peek_def nth_append nat_add_distrib)
  ultimately show ?case using snoc.prems by (subst trim_trailing.simps) simp
qed

lemma trim_text:
  assumes "field_text b (Some f) = Some v"
  shows "\<exists>y. trim b f = Some y \<and> snd y = int (length (strip v)) \<and> str_bytes b y = Some (strip v)"
proof -
  obtain pre post where b: "b = pre @ v @ post" "f = (length pre, int (length v))" using field_split [OF assms] by blast
  let ?w = "takeWhile trim_char v" and ?x = "dropWhile trim_char v"
  let ?u = "rev (takeWhile trim_char (rev ?x))"
  have x: "?x = strip v @ ?u" unfolding strip_def by (metis rev_append rev_rev_ident takeWhile_dropWhile_id)
  have w: "\<forall>c \<in> set ?w. trim_char c" "?x = [] \<or> \<not> trim_char (hd ?x)" "\<forall>c \<in> set ?u. trim_char c"
    using hd_dropWhile [of trim_char v] by (auto dest: set_takeWhileD)
  have l: "strip v = [] \<or> \<not> trim_char (last (strip v))"
    unfolding strip_def using hd_dropWhile [of trim_char "rev ?x"] by (auto simp: last_rev)
  have bw: "b = pre @ ?w @ ?x @ post" using b(1) by (metis append.assoc takeWhile_dropWhile_id)
  have len: "int (length v) = int (length ?w + length ?x)" by (metis length_append takeWhile_dropWhile_id)
  have t: "trim_leading b (length pre) (int (length v)) = Some (length pre + length ?w, int (length ?x))"
    unfolding bw by (rule trim_leading_text [OF w(1,2) len])
  have bu: "b = (pre @ ?w) @ strip v @ ?u @ post" using bw x by (metis append.assoc)
  have "trim_trailing b (length (pre @ ?w)) (int (length (strip v) + length ?u)) = Some (length (pre @ ?w), int (length (strip v)))"
    unfolding bu by (rule trim_trailing_text [OF w(3) l])
  moreover have "int (length (strip v) + length ?u) = int (length ?x)" by (metis length_append x)
  ultimately have "trim_trailing b (length (pre @ ?w)) (int (length ?x)) = Some (length (pre @ ?w), int (length (strip v)))"
    by (simp only:)
  then have "trim b f = Some (length (pre @ ?w), int (length (strip v)))" using t b(2) by (simp add: trim_def)
  moreover have "field_text b (Some (length (pre @ ?w), int (length (strip v)))) = Some (strip v)"
    by (subst bu) (rule field_text_at)
  ultimately show ?thesis by (simp add: field_text_def)
qed

definition user_part :: "bytes \<Rightarrow> bytes" where
  "user_part v = (if 2 < length v \<and> 64 \<in> set v then takeWhile (\<lambda>c. c \<noteq> 64) v else v)"

definition qop_of :: "bytes \<Rightarrow> qop_type" where
  "qop_of v =
     (if length (strip v) = 4 \<and> strncasecmp_eq (strip v) (asc ''auth'') then QOP_AUTH
      else if length (strip v) = 8 \<and> strncasecmp_eq (strip v) (asc ''auth-int'') then QOP_AUTHINT
      else QOP_OTHER)"

lemma parse_qop_text:
  assumes "field_text b (Some f) = Some v"
  shows "parse_qop b f c = Some (c\<lparr>dc_qop_parsed := qop_of v\<rparr>)"
  using trim_text [OF assms] by (auto simp: parse_qop_def qop_of_def)

lemma parse_algorithm_text:
  assumes "field_text b (Some f) = Some v"
  shows "\<exists>a. parse_algorithm b f c = Some (c\<lparr>dc_alg_parsed := a\<rparr>)"
  using trim_text [OF assms] by (auto simp: parse_algorithm_def)

lemma parse_username_text:
  assumes "field_text b (Some f) = Some v"
  shows "\<exists>u d. parse_username b f c = Some (c\<lparr>dc_user := Some u, dc_domain := d\<rparr>) \<and> field_text b (Some u) = Some (user_part v)"
proof -
  obtain pre post where b: "b = pre @ v @ post" "f = (length pre, int (length v))" using field_split [OF assms] by blast
  consider "\<not> 2 < length v" | "2 < length v" "64 \<notin> set v" | "2 < length v" "64 \<in> set v" by blast
  then show ?thesis
  proof cases
    case 1
    then show ?thesis using assms b(2) by (intro exI [of _ f] exI [of _ "dc_domain c"]) (simp add: parse_username_def user_part_def)
  next
    case 2
    then show ?thesis using assms b q_memchr_none [of 64 v pre post]
      by (intro exI [of _ f] exI [of _ "dc_domain c"]) (simp add: parse_username_def user_part_def)
  next
    case 3
    let ?u = "takeWhile (\<lambda>c. c \<noteq> 64) v"
    have u: "64 \<notin> set ?u" by (auto dest: set_takeWhileD)
    have "dropWhile (\<lambda>c. c \<noteq> 64) v \<noteq> []" using 3(2) by (simp add: dropWhile_eq_Nil_conv)
    then obtain w where w: "v = ?u @ 64 # w"
      using hd_dropWhile [of "\<lambda>c. c \<noteq> 64" v] takeWhile_dropWhile_id [of "\<lambda>c. c \<noteq> 64" v] by (metis list.exhaust_sel)
    have bw: "b = pre @ ?u @ 64 # w @ post" using b(1) w by (metis append.assoc append_Cons)
    have "int (length ?u) < int (length v)" using arg_cong [OF w, of length] by simp
    then have "q_memchr b (length pre) 64 (int (length v)) = Some (Some (length pre + length ?u))"
      unfolding bw by (intro q_memchr_text u)
    then have "parse_username b f c =
        Some (c\<lparr>dc_user := Some (length pre, int (length ?u)),
          dc_domain := Some (length pre + length ?u + 1, int (length v) - int (length ?u) - 1)\<rparr>)"
      using 3 b(2) by (simp add: parse_username_def)
    moreover have "field_text b (Some (length pre, int (length ?u))) = Some (user_part v)"
      using field_text_at [of pre ?u "64 # w @ post"] 3 bw by (simp add: user_part_def)
    ultimately show ?thesis by blast
  qed
qed

definition cred_text :: "bytes \<Rightarrow> bytes \<Rightarrow> u8 \<Rightarrow> bytes \<Rightarrow> cred_param list \<Rightarrow> bytes" where
  "cred_text lead scheme ch gap qs = lead @ scheme @ ch # gap @ params_text qs"

definition cred_ok :: "bytes \<Rightarrow> bytes \<Rightarrow> u8 \<Rightarrow> bytes \<Rightarrow> cred_param list \<Rightarrow> bool" where
  "cred_ok lead scheme ch gap qs \<longleftrightarrow> (\<forall>c \<in> set (lead @ gap). trim_char c) \<and> map to_lower scheme = asc ''digest'' \<and>
     (ch = 32 \<or> ch = 13 \<or> ch = 9 \<or> ch = 44) \<and> qs \<noteq> [] \<and> (\<forall>q \<in> set qs. param_ok q)"

text \<open>What the credentials hold after a list of parameters has been read.\<close>

definition cred_holds :: "bytes \<Rightarrow> cred_param list \<Rightarrow> dig_cred \<Rightarrow> bool" where
  "cred_holds b qs c \<longleftrightarrow> (\<forall>p. field_text b (par_field p c) = param_value qs p) \<and>
     field_text b (dc_user c) = map_option user_part (param_value qs PAR_USERNAME) \<and>
     dc_qop_parsed c = (case param_value qs PAR_QOP of None \<Rightarrow> QOP_UNSPEC | Some v \<Rightarrow> qop_of v) \<and>
     (\<forall>p. par_field p c = None \<longleftrightarrow> param_value qs p = None) \<and> (dc_user c = None \<longleftrightarrow> param_value qs PAR_USERNAME = None)"

lemma holds_init:
  assumes "holds b qs init_dig_cred c"
  shows "derived c = derived init_dig_cred"
    and "par_field p c = None \<and> param_value qs p = None \<or>
      (\<exists>f v. par_field p c = Some f \<and> param_value qs p = Some v \<and> field_text b (Some f) = Some v)"
proof -
  have "if param_value qs p = None then par_field p c = par_field p init_dig_cred else field_text b (par_field p c) = param_value qs p"
    using assms by (simp add: holds_def)
  moreover have "par_field p init_dig_cred = None" by (cases p) (simp_all add: init_dig_cred_def)
  ultimately show "par_field p c = None \<and> param_value qs p = None \<or>
      (\<exists>f v. par_field p c = Some f \<and> param_value qs p = Some v \<and> field_text b (Some f) = Some v)"
    by (cases "param_value qs p"; cases "par_field p c") (simp_all add: field_text_def)
  show "derived c = derived init_dig_cred" using assms by (simp add: holds_def)
qed

lemma parse_params_text:
  assumes "qs \<noteq> []" and "\<forall>q \<in> set qs. param_ok q" and "b = pre @ params_text qs @ post"
  shows "\<exists>c. parse_digest_params b (length pre, int (length (params_text qs))) init_dig_cred = Some (0, c) \<and> cred_holds b qs c"
proof -
  obtain c0 where c0: "param_loop b (length pre) (int (length (params_text qs))) init_dig_cred = Some (0, c0)" "holds b qs init_dig_cred c0"
    using param_loop_text [OF assms] by blast
  note h = holds_init(2) [OF c0(2)]
  have dv: "dc_user c0 = None" "dc_qop_parsed c0 = QOP_UNSPEC"
    using holds_init(1) [OF c0(2)] by (simp_all add: derived_def init_dig_cred_def)
  let ?q = "case param_value qs PAR_QOP of None \<Rightarrow> QOP_UNSPEC | Some v \<Rightarrow> qop_of v"
  have 1: "(case dc_qop c0 of None \<Rightarrow> Some c0 | Some y \<Rightarrow> parse_qop b y c0) = Some (c0\<lparr>dc_qop_parsed := ?q\<rparr>)"
    using h [of PAR_QOP] dv(2) parse_qop_text [of b _ _ c0] by auto
  have "\<exists>a. (case dc_alg c0 of None \<Rightarrow> Some c | Some y \<Rightarrow> parse_algorithm b y c) = Some (c\<lparr>dc_alg_parsed := a\<rparr>)"
    if "c = c0\<lparr>dc_qop_parsed := ?q\<rparr>" for c
    using h [of PAR_ALGORITHM] parse_algorithm_text [of b _ _ c] that by (cases "dc_alg c0") (auto intro: exI [of _ "dc_alg_parsed c"])
  then obtain a where 2: "(case dc_alg c0 of None \<Rightarrow> Some (c0\<lparr>dc_qop_parsed := ?q\<rparr>) | Some y \<Rightarrow> parse_algorithm b y (c0\<lparr>dc_qop_parsed := ?q\<rparr>)) =
      Some (c0\<lparr>dc_qop_parsed := ?q, dc_alg_parsed := a\<rparr>)"
    by blast
  let ?c = "c0\<lparr>dc_qop_parsed := ?q, dc_alg_parsed := a\<rparr>"
  have "\<exists>u d. (case dc_whole c0 of None \<Rightarrow> Some c | Some y \<Rightarrow> parse_username b y c) = Some (c\<lparr>dc_user := u, dc_domain := d\<rparr>) \<and>
      field_text b u = map_option user_part (param_value qs PAR_USERNAME) \<and> (u = None \<longleftrightarrow> param_value qs PAR_USERNAME = None)" if c: "c = ?c" for c
  proof (cases "dc_whole c0")
    case None
    then have "param_value qs PAR_USERNAME = None" using h [of PAR_USERNAME] by auto
    then show ?thesis using None dv(1) c
      by (intro exI [of _ None] exI [of _ "dc_domain c"]) (simp add: field_text_def)
  next
    case (Some f)
    then obtain v where v: "param_value qs PAR_USERNAME = Some v" "field_text b (Some f) = Some v" using h [of PAR_USERNAME] by auto
    obtain u d where u: "parse_username b f c = Some (c\<lparr>dc_user := Some u, dc_domain := d\<rparr>)" "field_text b (Some u) = Some (user_part v)"
      using parse_username_text [OF v(2)] by blast
    show ?thesis by (intro exI [of _ "Some u"] exI [of _ d]) (use u v(1) Some in simp)
  qed
  then obtain u d where 3: "(case dc_whole c0 of None \<Rightarrow> Some ?c | Some y \<Rightarrow> parse_username b y ?c) = Some (?c\<lparr>dc_user := u, dc_domain := d\<rparr>)"
    "field_text b u = map_option user_part (param_value qs PAR_USERNAME)" "u = None \<longleftrightarrow> param_value qs PAR_USERNAME = None"
    by blast
  have "parse_digest_params b (length pre, int (length (params_text qs))) init_dig_cred = Some (0, ?c\<lparr>dc_user := u, dc_domain := d\<rparr>)"
    by (simp add: parse_digest_params_def c0(1) 1 2 3(1))
  moreover have "par_field p (?c\<lparr>dc_user := u, dc_domain := d\<rparr>) = par_field p c0" for p by (cases p) simp_all
  moreover have "field_text b (par_field p c0) = param_value qs p \<and> (par_field p c0 = None \<longleftrightarrow> param_value qs p = None)" for p
    using h [of p] by (auto simp: field_text_def)
  ultimately have "cred_holds b qs (?c\<lparr>dc_user := u, dc_domain := d\<rparr>)" "parse_digest_params b (length pre, int (length (params_text qs))) init_dig_cred = Some (0, ?c\<lparr>dc_user := u, dc_domain := d\<rparr>)"
    using 3(2,3) by (simp_all add: cred_holds_def)
  then show ?thesis by blast
qed

lemma scheme_text:
  assumes "map to_lower scheme = asc ''digest''"
  shows "length scheme = 6" and "scheme \<noteq> [] \<and> \<not> trim_char (hd scheme)" and "strncasecmp_eq scheme (asc ''digest'')"
proof -
  have d: "asc ''digest'' = [100, 105, 103, 101, 115, 116]" by code_simp
  show l: "length scheme = 6" using arg_cong [OF assms, of length] d by simp
  have "to_lower (hd scheme) = 100" using assms d by (cases scheme) auto
  then show "scheme \<noteq> [] \<and> \<not> trim_char (hd scheme)" using l by (auto simp: to_lower_def trim_char_def)
  have "0 \<notin> set (map to_lower scheme)" unfolding assms d by simp
  then have "\<forall>c \<in> set scheme. c \<noteq> 0" by (force simp: to_lower_def)
  then have "takeWhile (\<lambda>c. c \<noteq> 0) scheme = scheme" by simp
  moreover have "takeWhile (\<lambda>c. c \<noteq> 0) (asc ''digest'') = asc ''digest''" "map to_lower (asc ''digest'') = asc ''digest''"
    unfolding d by (simp_all add: to_lower_def)
  ultimately show "strncasecmp_eq scheme (asc ''digest'')" unfolding strncasecmp_eq_def using assms by (simp only:)
qed

lemma cred_text_parsed:
  assumes "cred_ok lead scheme ch gap qs" and "b = pre @ cred_text lead scheme ch gap qs @ post"
  shows "\<exists>c. parse_digest_cred b (length pre, int (length (cred_text lead scheme ch gap qs))) init_dig_cred = Some (1, c) \<and> cred_holds b qs c"
proof -
  let ?P = "params_text qs" and ?x = "scheme @ ch # gap @ params_text qs"
  have ok: "\<forall>c \<in> set lead. trim_char c" "\<forall>c \<in> set gap. trim_char c" "map to_lower scheme = asc ''digest''" "qs \<noteq> []"
    "\<forall>q \<in> set qs. param_ok q" "ch = 32 \<or> ch = 13 \<or> ch = 9 \<or> ch = 44" using assms(1) by (auto simp: cred_ok_def)
  note sch = scheme_text [OF ok(3)]
  have b: "b = pre @ lead @ ?x @ post" using assms(2) by (simp add: cred_text_def)
  have 1: "trim_leading b (length pre) (int (length (cred_text lead scheme ch gap qs))) = Some (length pre + length lead, int (length ?x))"
    unfolding b by (rule trim_leading_text [OF ok(1)]) (use sch in \<open>auto simp: cred_text_def\<close>)
  have x: "\<not> int (length ?x) < 7" "peekn b (length pre + length lead) 6 = Some scheme" "peek b (length pre + length lead + 6) = Some ch"
    using sch b by (simp_all add: peekn_def peek_def nth_append)
  have "?P = [] \<or> \<not> trim_char (hd ?P)"
    using name_first ok(4,5) by (cases qs rule: params_text.cases) (auto simp: param_text_def)
  then have 2: "trim_leading b (length pre + length lead + 7) (int (length ?x) - 7) = Some (length (pre @ lead @ scheme @ ch # gap), int (length ?P))"
    using trim_leading_text [OF ok(2), of ?P _ "pre @ lead @ scheme @ [ch]" post] b sch by (simp add: add.assoc)
  obtain c where c: "parse_digest_params b (length (pre @ lead @ scheme @ ch # gap), int (length ?P)) init_dig_cred = Some (0, c)" "cred_holds b qs c"
    using parse_params_text [OF ok(4,5), of b "pre @ lead @ scheme @ ch # gap" post] b by auto
  have ch: "strncasecmp_eq scheme (asc ''digest'') \<and> (ch = 32 \<or> ch = 13 \<or> ch = 110 \<or> ch = 9 \<or> ch = 44)" using sch(3) ok(6) by blast
  have "parse_digest_cred b (length pre, int (length (cred_text lead scheme ch gap qs))) init_dig_cred = Some (1, c)"
    unfolding parse_digest_cred_def fst_conv snd_conv 1
    using x ch 2 c(1) by (simp del: length_append list.size)
  then show ?thesis using c(2) by blast
qed

text \<open>
  (C33) Credentials that are written as a list of parameters are read back exactly: whatever the
  order of the parameters, the case of the scheme and of their names, the blanks around names, equal signs,
  values and commas, with quotes or without, every known field holds the value that was written, the
  user name is split at its first at-sign, and a field that was not written stays empty. The bytes
  around the credentials do not matter.
\<close>

theorem digest_cred_roundtrip:
  assumes "cred_ok lead scheme ch gap qs" and "b = pre @ cred_text lead scheme ch gap qs @ post"
  shows "\<exists>c. parse_digest_cred b (length pre, int (length (cred_text lead scheme ch gap qs))) init_dig_cred = Some (1, c) \<and> cred_holds b qs c"
  by (rule cred_text_parsed [OF assms])

text \<open>Two parameters in mixed case, one with quotes, with blanks around the equal sign and the comma.\<close>

definition sample_params :: "cred_param list" where
  "sample_params =
     [\<lparr>cp_type = PAR_URI, cp_name = asc ''URI'', cp_before = [32], cp_after = [9], cp_quoted = True, cp_value = asc ''sip:a'', cp_end = [], cp_next = [32]\<rparr>,
      \<lparr>cp_type = PAR_USERNAME, cp_name = asc ''userName'', cp_before = [], cp_after = [], cp_quoted = True, cp_value = asc ''joe@x'', cp_end = [32], cp_next = []\<rparr>]"

theorem digest_cred_roundtrip_witness:
  "\<exists>c. parse_digest_cred (asc '' DiGest URI ='' @ [9, 34] @ asc ''sip:a'' @ [34] @ asc '', userName='' @ [34] @ asc ''joe@x'' @ [34, 32]) (0, 40) init_dig_cred = Some (1, c) \<and>
     dc_user c \<noteq> None \<and> dc_nonce c = None \<and>
     field_text (asc '' DiGest URI ='' @ [9, 34] @ asc ''sip:a'' @ [34] @ asc '', userName='' @ [34] @ asc ''joe@x'' @ [34, 32]) (dc_user c) = Some (asc ''joe'')"
proof -
  let ?t = "cred_text [32] (asc ''DiGest'') 32 [] sample_params"
  have t: "asc '' DiGest URI ='' @ [9, 34] @ asc ''sip:a'' @ [34] @ asc '', userName='' @ [34] @ asc ''joe@x'' @ [34, 32] = ?t" "length ?t = 40"
    by code_simp+
  have ok: "cred_ok [32] (asc ''DiGest'') 32 [] sample_params" by code_simp
  have v: "param_value sample_params PAR_USERNAME = Some (asc ''joe@x'')" "param_value sample_params PAR_NONCE = None" "user_part (asc ''joe@x'') = asc ''joe''"
    by code_simp+
  obtain c where c: "parse_digest_cred ?t (0, 40) init_dig_cred = Some (1, c)" "cred_holds ?t sample_params c"
    using digest_cred_roundtrip [OF ok, of ?t "[]" "[]"] t(2) by auto
  have "par_field PAR_NONCE c = None" using c(2) v(2) unfolding cred_holds_def by blast
  moreover have "field_text ?t (dc_user c) = Some (asc ''joe'')" using c(2) v by (simp add: cred_holds_def)
  moreover have "dc_user c \<noteq> None" using calculation(2) by (auto simp: field_text_def split: option.splits)
  ultimately show ?thesis unfolding t(1) using c(1) by (intro exI [of _ c]) simp
qed

end
