(* ===== verification/Md5.thy ===== *)
theory Md5
  imports Disc_Prelude
begin

text \<open>
  The message digest of the server module for SIP authentication (md5.c). A context that is filled by
  any sequence of updates ends in the digest of the whole message, computed block by block on
  the padded message. \<open>UINT4\<close> is \<open>unsigned long\<close>, 32 bits wide on the machines that the rest of
  the program is written for.
\<close>

section \<open>Transformation of a block\<close>

type_synonym md5_state = "u32 \<times> u32 \<times> u32 \<times> u32"

definition F_md5 :: "u32 \<Rightarrow> u32 \<Rightarrow> u32 \<Rightarrow> u32" where
  "F_md5 x y z = ((x AND y) OR (NOT x AND z))"

definition G_md5 :: "u32 \<Rightarrow> u32 \<Rightarrow> u32 \<Rightarrow> u32" where
  "G_md5 x y z = ((x AND z) OR (y AND NOT z))"

definition H_md5 :: "u32 \<Rightarrow> u32 \<Rightarrow> u32 \<Rightarrow> u32" where
  "H_md5 x y z = (x XOR y XOR z)"

definition I_md5 :: "u32 \<Rightarrow> u32 \<Rightarrow> u32 \<Rightarrow> u32" where
  "I_md5 x y z = (y XOR (x OR NOT z))"

definition ROTATE_LEFT :: "u32 \<Rightarrow> nat \<Rightarrow> u32" where
  "ROTATE_LEFT x n = (push_bit n x OR drop_bit (32 - n) x)"

text \<open>
  The macros FF, GG, HH and II with their function as an argument. The four variables change their
  places from one call to the next, (a, b, c, d), (d, a, b, c), (c, d, a, b), (b, c, d, a); here
  the tuple is turned instead, and is back in its order after each four steps.
\<close>

definition md5_step :: "(u32 \<Rightarrow> u32 \<Rightarrow> u32 \<Rightarrow> u32) \<Rightarrow> u32 list \<Rightarrow> md5_state \<Rightarrow> nat \<times> nat \<times> u32 \<Rightarrow> md5_state" where
  "md5_step f x st step =
     (case st of (a, b, c, d) \<Rightarrow> case step of (k, s, ac) \<Rightarrow>
        let a = a + (f b c d + x ! k + ac); a = ROTATE_LEFT a s; a = a + b in (d, a, b, c))"

text \<open>Index of the word, distance of the rotation and constant of each step.\<close>

definition FF_steps :: "(nat \<times> nat \<times> u32) list" where
  "FF_steps =
     [(0, 7, 0xd76aa478), (1, 12, 0xe8c7b756), (2, 17, 0x242070db), (3, 22, 0xc1bdceee),
      (4, 7, 0xf57c0faf), (5, 12, 0x4787c62a), (6, 17, 0xa8304613), (7, 22, 0xfd469501),
      (8, 7, 0x698098d8), (9, 12, 0x8b44f7af), (10, 17, 0xffff5bb1), (11, 22, 0x895cd7be),
      (12, 7, 0x6b901122), (13, 12, 0xfd987193), (14, 17, 0xa679438e), (15, 22, 0x49b40821)]"

definition GG_steps :: "(nat \<times> nat \<times> u32) list" where
  "GG_steps =
     [(1, 5, 0xf61e2562), (6, 9, 0xc040b340), (11, 14, 0x265e5a51), (0, 20, 0xe9b6c7aa),
      (5, 5, 0xd62f105d), (10, 9, 0x2441453), (15, 14, 0xd8a1e681), (4, 20, 0xe7d3fbc8),
      (9, 5, 0x21e1cde6), (14, 9, 0xc33707d6), (3, 14, 0xf4d50d87), (8, 20, 0x455a14ed),
      (13, 5, 0xa9e3e905), (2, 9, 0xfcefa3f8), (7, 14, 0x676f02d9), (12, 20, 0x8d2a4c8a)]"

definition HH_steps :: "(nat \<times> nat \<times> u32) list" where
  "HH_steps =
     [(5, 4, 0xfffa3942), (8, 11, 0x8771f681), (11, 16, 0x6d9d6122), (14, 23, 0xfde5380c),
      (1, 4, 0xa4beea44), (4, 11, 0x4bdecfa9), (7, 16, 0xf6bb4b60), (10, 23, 0xbebfbc70),
      (13, 4, 0x289b7ec6), (0, 11, 0xeaa127fa), (3, 16, 0xd4ef3085), (6, 23, 0x4881d05),
      (9, 4, 0xd9d4d039), (12, 11, 0xe6db99e5), (15, 16, 0x1fa27cf8), (2, 23, 0xc4ac5665)]"

definition II_steps :: "(nat \<times> nat \<times> u32) list" where
  "II_steps =
     [(0, 6, 0xf4292244), (7, 10, 0x432aff97), (14, 15, 0xab9423a7), (5, 21, 0xfc93a039),
      (12, 6, 0x655b59c3), (3, 10, 0x8f0ccc92), (10, 15, 0xffeff47d), (1, 21, 0x85845dd1),
      (8, 6, 0x6fa87e4f), (15, 10, 0xfe2ce6e0), (6, 15, 0xa3014314), (13, 21, 0x4e0811a1),
      (4, 6, 0xf7537e82), (11, 10, 0xbd3af235), (2, 15, 0x2ad7d2bb), (9, 21, 0xeb86d391)]"

text \<open>The bytes of a block as words; the source reads 64 bytes.\<close>

fun Decode :: "bytes \<Rightarrow> u32 list" where
  "Decode (a # b # c # d # r) =
     (ucast a OR push_bit 8 (ucast b) OR push_bit 16 (ucast c) OR push_bit 24 (ucast d)) # Decode r"
| "Decode _ = []"

definition Encode :: "u32 list \<Rightarrow> bytes" where
  "Encode ws = concat (map (\<lambda>w. [ucast (w AND 0xff), ucast (drop_bit 8 w AND 0xff),
     ucast (drop_bit 16 w AND 0xff), ucast (drop_bit 24 w AND 0xff)]) ws)"

definition MD5Transform :: "md5_state \<Rightarrow> bytes \<Rightarrow> md5_state" where
  "MD5Transform state block =
     (let x = Decode block;
          st = foldl (md5_step F_md5 x) state FF_steps;
          st = foldl (md5_step G_md5 x) st GG_steps;
          st = foldl (md5_step H_md5 x) st HH_steps;
          st = foldl (md5_step I_md5 x) st II_steps
      in case state of (a', b', c', d') \<Rightarrow> case st of (a, b, c, d) \<Rightarrow> (a' + a, b' + b, c' + c, d' + d))"

section \<open>Contexts\<close>

record MD5_CTX =
  md5_state :: md5_state
  count0 :: u32
  count1 :: u32
  md5_buffer :: bytes

definition md5_magic :: md5_state where
  "md5_magic = (0x67452301, 0xefcdab89, 0x98badcfe, 0x10325476)"

text \<open>The buffer is not initialised.\<close>

definition MD5Init :: "MD5_CTX \<Rightarrow> MD5_CTX" where
  "MD5Init ctx = ctx\<lparr>count0 := 0, count1 := 0, md5_state := md5_magic\<rparr>"

text \<open>The loop over the complete blocks in the input, from offset i on.\<close>

function md5_loop :: "bytes \<Rightarrow> nat \<Rightarrow> md5_state \<Rightarrow> nat \<times> md5_state" where
  "md5_loop input i st =
     (if i + 63 < length input then md5_loop input (i + 64) (MD5Transform st (take 64 (drop i input))) else (i, st))"
  by pat_completeness auto
termination by (relation "measure (\<lambda>(input, i, st). length input - i)") auto

declare md5_loop.simps [simp del]

definition md5_index :: "MD5_CTX \<Rightarrow> nat" where
  "md5_index ctx = unat (drop_bit 3 (count0 ctx) AND 0x3F)"

text \<open>None would be a write behind the buffer.\<close>

definition MD5Update :: "MD5_CTX \<Rightarrow> bytes \<Rightarrow> MD5_CTX option" where
  "MD5Update ctx input = do {
     let index = md5_index ctx;
     let inputLen = (of_nat (length input) :: u32);
     let c0 = count0 ctx + push_bit 3 inputLen;
     let c1 = (if c0 < push_bit 3 inputLen then count1 ctx + 1 else count1 ctx);
     let ctx = ctx\<lparr>count0 := c0, count1 := c1 + drop_bit 29 inputLen\<rparr>;
     let partLen = 64 - index;
     (i, index, ctx) \<leftarrow>
       (if partLen \<le> length input
        then do {
          buf \<leftarrow> poke index (take partLen input) (md5_buffer ctx);
          let (i, st) = md5_loop input partLen (MD5Transform (md5_state ctx) buf);
          Some (i, 0, ctx\<lparr>md5_buffer := buf, md5_state := st\<rparr>)
        }
        else Some (0, index, ctx));
     buf \<leftarrow> poke index (drop i input) (md5_buffer ctx);
     Some (ctx\<lparr>md5_buffer := buf\<rparr>)
   }"

definition PADDING :: bytes where
  "PADDING = 0x80 # replicate 63 0"

text \<open>The digest; the context is cleared.\<close>

definition MD5Final :: "MD5_CTX \<Rightarrow> (bytes \<times> MD5_CTX) option" where
  "MD5Final ctx = do {
     let bits = Encode [count0 ctx, count1 ctx];
     let index = md5_index ctx;
     let padLen = (if index < 56 then 56 - index else 120 - index);
     ctx \<leftarrow> MD5Update ctx (take padLen PADDING);
     ctx \<leftarrow> MD5Update ctx bits;
     (case md5_state ctx of (a, b, c, d) \<Rightarrow>
        Some (Encode [a, b, c, d], \<lparr>md5_state = (0, 0, 0, 0), count0 = 0, count1 = 0, md5_buffer = replicate 64 0\<rparr>))
   }"

section \<open>The digest of a message\<close>

text \<open>All complete blocks of a message, one after the other.\<close>

function md5_run :: "md5_state \<Rightarrow> bytes \<Rightarrow> md5_state" where
  "md5_run st m = (if length m < 64 then st else md5_run (MD5Transform st (take 64 m)) (drop 64 m))"
  by pat_completeness auto
termination by (relation "measure (\<lambda>(st, m). length m)") auto

declare md5_run.simps [simp del]

text \<open>Padding: one bit, zeros up to 56 bytes modulo 64, and the number of bits modulo \<open>2 ^ 64\<close> in eight bytes.\<close>

definition md5_bits :: "nat \<Rightarrow> bytes" where
  "md5_bits n = le32 (of_nat (8 * n)) @ le32 (of_nat (8 * n div 2 ^ 32))"

definition md5_pad :: "bytes \<Rightarrow> bytes" where
  "md5_pad m = m @ 0x80 # replicate ((119 - length m mod 64) mod 64) 0 @ md5_bits (length m)"

definition md5 :: "bytes \<Rightarrow> bytes" where
  "md5 m = (case md5_run md5_magic (md5_pad m) of (a, b, c, d) \<Rightarrow> le32 a @ le32 b @ le32 c @ le32 d)"

lemma Encode_le32: "Encode ws = concat (map le32 ws)"
proof -
  have "w AND 0xff = take_bit 8 w" for w :: u32 by (simp add: take_bit_eq_mask mask_eq_exp_minus_1)
  then have "ucast (drop_bit n w AND 0xff) = (ucast (drop_bit n w) :: u8)" for n and w :: u32
    by (intro bit_word_eqI) (auto simp: bit_simps)
  from this [of 0] this show ?thesis by (simp add: Encode_def le32_def [abs_def] be32_def)
qed

lemma md5_run_short [simp]: "length m < 64 \<Longrightarrow> md5_run st m = st"
  by (simp add: md5_run.simps)

lemma md5_run_append:
  "length m mod 64 = 0 \<Longrightarrow> md5_run st (m @ n) = md5_run (md5_run st m) n"
proof (induction st m rule: md5_run.induct)
  case (1 st m)
  show ?case
  proof (cases "length m < 64")
    case True
    then have "m = []" using 1(2) by (cases m) auto
    then show ?thesis by simp
  next
    case False
    then have "length (drop 64 m) mod 64 = 0" using 1(2) by (simp add: mod_if)
    then show ?thesis using 1(1) False by (subst (1 2) md5_run.simps) simp
  qed
qed

text \<open>Only the complete blocks count.\<close>

lemma md5_run_blocks: "md5_run st m = md5_run st (take (length m div 64 * 64) m)"
proof -
  have "md5_run st (take (length m div 64 * 64) m @ drop (length m div 64 * 64) m) =
      md5_run (md5_run st (take (length m div 64 * 64) m)) (drop (length m div 64 * 64) m)"
    by (rule md5_run_append) (simp add: min_absorb2 [OF div_times_less_eq_dividend])
  moreover have "length (drop (length m div 64 * 64) m) < 64" by (simp add: minus_div_mult_eq_mod)
  ultimately show ?thesis by simp
qed

lemma md5_loop_run:
  "i \<le> length input \<Longrightarrow> md5_loop input i st = (i + (length input - i) div 64 * 64, md5_run st (drop i input))"
proof (induction input i st rule: md5_loop.induct)
  case (1 input i st)
  show ?case
  proof (cases "i + 63 < length input")
    case True
    then have "(length input - i) div 64 = Suc ((length input - (i + 64)) div 64)" by (simp add: div_if)
    moreover have "\<not> length input - i < 64" using True by simp
    ultimately show ?thesis using 1 True
      by (subst md5_loop.simps, subst md5_run.simps) (simp add: add.commute)
  next
    case False
    then show ?thesis using 1(2) by (subst md5_loop.simps) simp
  qed
qed

text \<open>A context that has taken in the message m.\<close>

definition md5_rep :: "bytes \<Rightarrow> MD5_CTX \<Rightarrow> bool" where
  "md5_rep m ctx \<longleftrightarrow> length (md5_buffer ctx) = 64 \<and> md5_state ctx = md5_run md5_magic m \<and>
     take (length m mod 64) (md5_buffer ctx) = drop (length m div 64 * 64) m \<and>
     count0 ctx = of_nat (8 * length m) \<and> count1 ctx = of_nat (8 * length m div 2 ^ 32)"

lemma md5_rep_init: "length (md5_buffer ctx) = 64 \<Longrightarrow> md5_rep [] (MD5Init ctx)"
  by (simp add: md5_rep_def MD5Init_def)

lemma index_of_count:
  assumes "unat (w :: u32) = 8 * n mod 2 ^ 32"
  shows "unat (drop_bit 3 w AND 0x3F) = n mod 64"
proof -
  have less: "unat w < 2 ^ LENGTH(32)" by (rule unsigned_less)
  have "unat (drop_bit 3 w AND 0x3F) = unat (take_bit 6 (drop_bit 3 w))" by (simp add: take_bit_eq_mask mask_eq_exp_minus_1)
  also have "\<dots> = unat w div 8 mod 64"
    unfolding unsigned_take_bit_eq unsigned_drop_bit_eq using less by (simp add: drop_bit_eq_div take_bit_eq_mod)
  also have "unat w = 8 * (n mod 2 ^ 29)" using assms mult_mod_right [of 8 n "2 ^ 29"] by simp
  finally show ?thesis by (simp add: mod_mod_cancel)
qed

lemma md5_rep_index: "md5_rep m ctx \<Longrightarrow> md5_index ctx = length m mod 64"
  unfolding md5_rep_def md5_index_def by (intro index_of_count) (simp add: unat_of_nat take_bit_eq_mod del: of_nat_mult)

lemma add_carry:
  fixes x y M :: nat
  assumes "x < M" and "y < M"
  shows "(x + y) div M = (if (x + y) mod M < y then 1 else 0)"
proof (cases "x + y < M")
  case False
  then have "(x + y) mod M = x + y - M" "(x + y) div M = 1" using assms by (simp_all add: le_mod_geq le_div_geq)
  then show ?thesis using assms False by simp
qed simp

lemma div_add_carry:
  fixes a b M :: nat
  assumes "0 < M"
  shows "(a + b) div M = a div M + b div M + (if (a + b) mod M < b mod M then 1 else 0)"
  using div_add1_eq [of a b M] add_carry [of "a mod M" M "b mod M"] assms by (simp add: mod_add_eq)

text \<open>The carry from the low to the high half of the number of bits.\<close>

lemma count_carry:
  fixes k n :: nat
  assumes "n < 2 ^ 32" and c0: "c0 = (of_nat (8 * k) :: u32)" and c1: "c1 = (of_nat (8 * k div 2 ^ 32) :: u32)"
  shows "c0 + push_bit 3 (of_nat n) = of_nat (8 * (k + n))"
    and "(if c0 + push_bit 3 (of_nat n) < push_bit 3 (of_nat n) then c1 + 1 else c1) + drop_bit 29 (of_nat n) =
      of_nat (8 * (k + n) div 2 ^ 32)"
proof -
  have p: "push_bit 3 (of_nat n :: u32) = of_nat (8 * n)" by (simp add: push_bit_eq_mult)
  show s: "c0 + push_bit 3 (of_nat n) = of_nat (8 * (k + n))" unfolding p c0 by (simp add: distrib_left)
  have d: "drop_bit 29 (of_nat n :: u32) = of_nat (8 * n div 2 ^ 32)"
    unfolding word_unat_eq_iff unsigned_drop_bit_eq unat_of_nat
    using assms(1) by (simp add: take_bit_eq_mod drop_bit_eq_div)
  let ?a = "8 * k" and ?b = "8 * n" and ?M = "2 ^ 32 :: nat"
  have lt: "c0 + push_bit 3 (of_nat n) < push_bit 3 (of_nat n) \<longleftrightarrow> (?a + ?b) mod ?M < ?b mod ?M"
    unfolding s unfolding p word_less_nat_alt unat_of_nat by (simp add: take_bit_eq_mod distrib_left)
  have "(?a + ?b) div ?M = ?a div ?M + ?b div ?M + (if (?a + ?b) mod ?M < ?b mod ?M then 1 else 0)"
    by (rule div_add_carry) simp
  then show "(if c0 + push_bit 3 (of_nat n) < push_bit 3 (of_nat n) then c1 + 1 else c1) + drop_bit 29 (of_nat n) =
      of_nat (8 * (k + n) div 2 ^ 32)"
    unfolding lt d c1 distrib_left by simp
qed

lemma take_drop_append: "take k xs @ drop k xs @ ys = xs @ ys"
  by (metis append.assoc append_take_drop_id)

lemma md5_rep_blocks:
  assumes "length c = 64 * q" and "length r < 64" and "length (md5_buffer ctx) = 64"
    and "md5_state ctx = md5_run md5_magic c" and "take (length r) (md5_buffer ctx) = r"
    and "count0 ctx = of_nat (8 * length (c @ r))" and "count1 ctx = of_nat (8 * length (c @ r) div 2 ^ 32)"
  shows "md5_rep (c @ r) ctx"
proof -
  have "length (c @ r) mod 64 = length r" "length (c @ r) div 64 * 64 = length c" using assms(1,2) by simp_all
  moreover have "md5_run md5_magic (c @ r) = md5_run md5_magic c" using md5_run_append [of c _ r] assms(1,2) by simp
  ultimately show ?thesis using assms unfolding md5_rep_def by simp
qed

lemma MD5Update_rep:
  assumes rep: "md5_rep m ctx" and len: "length input < 2 ^ 32"
  shows "\<exists>ctx'. MD5Update ctx input = Some ctx' \<and> md5_rep (m @ input) ctx'"
proof -
  let ?n = "length m mod 64" and ?k = "length m div 64 * 64" and ?B = "md5_buffer ctx"
  let ?c = "take ?k m" and ?r = "drop ?k m"
  have r: "take ?n ?B = ?r" "length ?B = 64" "md5_state ctx = md5_run md5_magic m" using rep by (simp_all add: md5_rep_def)
  have c: "length ?c = 64 * (length m div 64)" "length ?r = ?n" "?n < 64"
    by (simp_all add: min_absorb2 [OF div_times_less_eq_dividend] minus_div_mult_eq_mod)
  note cnt = count_carry [OF len, of "count0 ctx" "length m" "count1 ctx"]
  have cnt0: "count0 ctx + push_bit 3 (of_nat (length input)) = of_nat (8 * length (m @ input))"
    and cnt1: "(if count0 ctx + push_bit 3 (of_nat (length input)) < push_bit 3 (of_nat (length input)) then count1 ctx + 1 else count1 ctx) +
      drop_bit 29 (of_nat (length input)) = of_nat (8 * length (m @ input) div 2 ^ 32)"
    using cnt rep unfolding md5_rep_def length_append by blast+
  show ?thesis
  proof (cases "64 - ?n \<le> length input")
    case True
    define buf where "buf = ?r @ take (64 - ?n) input"
    define i where "i = 64 - ?n + (length input - (64 - ?n)) div 64 * 64"
    have buf: "poke ?n (take (64 - ?n) input) ?B = Some buf" "length buf = 64" "MD5Transform (md5_run md5_magic m) buf = md5_run md5_magic (?c @ buf)"
    proof -
      show b: "length buf = 64" using c True by (simp add: buf_def)
      show "poke ?n (take (64 - ?n) input) ?B = Some buf" using c r True by (simp add: poke_def buf_def)
      have "md5_run (md5_run md5_magic ?c) buf = MD5Transform (md5_run md5_magic ?c) buf" using b by (subst md5_run.simps) simp
      then show "MD5Transform (md5_run md5_magic m) buf = md5_run md5_magic (?c @ buf)"
        using md5_run_blocks [of md5_magic m] md5_run_append [of ?c md5_magic buf] c(1) by simp
    qed
    have loop: "md5_loop input (64 - ?n) (md5_run md5_magic (?c @ buf)) = (i, md5_run md5_magic ((?c @ buf) @ drop (64 - ?n) input))"
      unfolding i_def md5_loop_run [OF True] using md5_run_append [of "?c @ buf" md5_magic] c(1) buf(2) by simp
    let ?in = "drop (64 - ?n) input"
    define d where "d = ?c @ buf @ take (length ?in div 64 * 64) ?in"
    define e where "e = drop (length ?in div 64 * 64) ?in"
    have split: "m @ input = d @ e" "(?c @ buf) @ ?in = d @ e"
      by (simp_all only: d_def e_def buf_def append_assoc append_take_drop_id take_drop_append)
    have e: "drop i input = e" "length e < 64"
      by (simp_all add: e_def i_def add.commute minus_div_mult_eq_mod)
    have d: "length d = 64 * (length m div 64 + 1 + length ?in div 64)"
      using c(1) buf(2) by (simp add: d_def min_absorb2 [OF div_times_less_eq_dividend])
    have run: "md5_run md5_magic ((?c @ buf) @ ?in) = md5_run md5_magic d"
      using md5_run_append [of d md5_magic e] d md5_run_short [OF e(2)] by (simp only: split mod_mult_self1_is_0)
    have pk: "poke 0 e buf = Some (e @ drop (length e) buf)" using buf(2) e(2) by (simp add: poke_def)
    let ?ctx = "ctx\<lparr>count0 := of_nat (8 * length (m @ input)), count1 := of_nat (8 * length (m @ input) div 2 ^ 32),
      md5_buffer := e @ drop (length e) buf, md5_state := md5_run md5_magic d\<rparr>"
    have "MD5Update ctx input = Some ?ctx"
      unfolding MD5Update_def md5_rep_index [OF rep] cnt0 [symmetric] cnt1 [symmetric] Let_def
      using True buf r(3) loop run e(1) pk by simp
    moreover have "md5_rep (d @ e) ?ctx"
      by (rule md5_rep_blocks [OF d e(2)]) (use buf(2) e(2) in \<open>simp_all add: split(1) del: length_append\<close>, simp)
    ultimately show ?thesis unfolding split(1) by blast
  next
    case False
    let ?ctx = "ctx\<lparr>count0 := of_nat (8 * length (m @ input)), count1 := of_nat (8 * length (m @ input) div 2 ^ 32),
      md5_buffer := ?r @ input @ drop (?n + length input) ?B\<rparr>"
    have split: "m @ input = ?c @ (?r @ input)" by simp
    have pk: "poke ?n input ?B = Some (?r @ input @ drop (?n + length input) ?B)" using False r c by (simp add: poke_def)
    then have "MD5Update ctx input = Some ?ctx"
      unfolding MD5Update_def md5_rep_index [OF rep] cnt0 [symmetric] cnt1 [symmetric] Let_def using False by simp
    moreover have "md5_rep (?c @ (?r @ input)) ?ctx"
      by (rule md5_rep_blocks [OF c(1)]) (use False r c md5_run_blocks [of md5_magic m] split in simp_all)
    ultimately show ?thesis unfolding split by blast
  qed
qed

lemma padding_length:
  assumes "n < 64"
  shows "(if n < 56 then 56 - n else 120 - n) = Suc ((119 - n) mod 64)"
proof (cases "n < 56")
  case True
  then have "(119 - n) mod 64 = 55 - n" by (simp add: le_mod_geq)
  then show ?thesis using True by simp
qed (use assms in simp)

lemma MD5Final_rep:
  assumes rep: "md5_rep m ctx"
  shows "MD5Final ctx = Some (md5 m, \<lparr>md5_state = (0, 0, 0, 0), count0 = 0, count1 = 0, md5_buffer = replicate 64 0\<rparr>)"
proof -
  let ?n = "length m mod 64"
  have pad: "take (if ?n < 56 then 56 - ?n else 120 - ?n) PADDING = 0x80 # replicate ((119 - ?n) mod 64) 0"
    unfolding padding_length [of ?n, simplified] by (simp add: PADDING_def less_imp_le_nat take_Cons' min_absorb1)
  have bits: "Encode [count0 ctx, count1 ctx] = md5_bits (length m)"
    using rep by (simp add: md5_rep_def Encode_le32 md5_bits_def)
  obtain c1 where c1: "MD5Update ctx (0x80 # replicate ((119 - ?n) mod 64) 0) = Some c1"
      "md5_rep (m @ 0x80 # replicate ((119 - ?n) mod 64) 0) c1"
    using MD5Update_rep [OF rep, of "0x80 # replicate ((119 - ?n) mod 64) 0"] mod_less_divisor [of 64 "119 - ?n"] by force
  obtain c2 where c2: "MD5Update c1 (md5_bits (length m)) = Some c2" "md5_rep (md5_pad m) c2"
    using MD5Update_rep [OF c1(2), of "md5_bits (length m)"] by (auto simp: md5_bits_def md5_pad_def)
  have "md5_state c2 = md5_run md5_magic (md5_pad m)" using c2(2) by (simp add: md5_rep_def)
  then show ?thesis
    unfolding MD5Final_def Let_def md5_rep_index [OF rep] pad bits
    by (simp add: c1(1) c2(1) md5_def Encode_le32 split: prod.splits)
qed

text \<open>A digest of several pieces, the way the callers use a context: one update for each piece.\<close>

primrec MD5Updates :: "bytes list \<Rightarrow> MD5_CTX \<Rightarrow> MD5_CTX option" where
  "MD5Updates [] ctx = Some ctx"
| "MD5Updates (c # cs) ctx = do { ctx \<leftarrow> MD5Update ctx c; MD5Updates cs ctx }"

definition md5_pieces :: "MD5_CTX \<Rightarrow> bytes list \<Rightarrow> bytes option" where
  "md5_pieces ctx cs = do { ctx \<leftarrow> MD5Updates cs (MD5Init ctx); (digest, ctx) \<leftarrow> MD5Final ctx; Some digest }"

lemma MD5Updates_rep:
  "md5_rep m ctx \<Longrightarrow> \<forall>c \<in> set cs. length c < 2 ^ 32 \<Longrightarrow> \<exists>ctx'. MD5Updates cs ctx = Some ctx' \<and> md5_rep (m @ concat cs) ctx'"
proof (induction cs arbitrary: m ctx)
  case (Cons c cs)
  then obtain ctx' where "MD5Update ctx c = Some ctx'" "md5_rep (m @ c) ctx'" using MD5Update_rep [of m ctx c] by auto
  then show ?case using Cons.IH [of "m @ c" ctx'] Cons.prems(2) by simp
qed simp

lemma md5_pieces_md5 [simp]:
  assumes "length (md5_buffer ctx) = 64" and "\<forall>c \<in> set cs. length c < 2 ^ 32"
  shows "md5_pieces ctx cs = Some (md5 (concat cs))"
  using MD5Updates_rep [OF md5_rep_init [OF assms(1)] assms(2)] MD5Final_rep by (auto simp: md5_pieces_def)

lemma length_md5 [simp]: "length (md5 m) = 16"
  by (simp add: md5_def split: prod.splits)

lemma md5_nonempty [simp]: "md5 m \<noteq> []"
  using length_md5 [of m] by (metis list.size(3) zero_neq_numeral)

text \<open>
  (C34) Whatever the pieces in which a message is handed over (empty ones, ones that end inside
  a block, ones of many blocks) and whatever the context held before, no byte is written outside the
  buffer and the result is the digest of the whole message, computed on its padded blocks.
\<close>

theorem md5_streaming:
  assumes "length (md5_buffer ctx) = 64" and "\<forall>c \<in> set cs. length c < 2 ^ 32"
  shows "md5_pieces ctx cs = Some (md5 (concat cs))"
  using assms by (rule md5_pieces_md5)

theorem md5_streaming_witness:
  "md5_pieces \<lparr>md5_state = (1, 2, 3, 4), count0 = 7, count1 = 9, md5_buffer = replicate 64 255\<rparr> [[97], [], [98, 99]] =
   Some [0x90, 0x01, 0x50, 0x98, 0x3c, 0xd2, 0x4f, 0xb0, 0xd6, 0x96, 0x3f, 0x7d, 0x28, 0xe1, 0x7f, 0x72]"
proof -
  have "md5_pad [97, 98, 99] = [97, 98, 99, 128] @ replicate 52 0 @ [24, 0, 0, 0, 0, 0, 0, 0]"
    by (simp add: md5_pad_def md5_bits_def le32_def be32_def)
  moreover have "md5_run md5_magic ([97, 98, 99, 128] @ replicate 52 0 @ [24, 0, 0, 0, 0, 0, 0, 0]) =
      (0x98500190, 0xb04fd23c, 0x7d3f96d6, 0x727fe128)"
    by code_simp
  ultimately have "md5 [97, 98, 99] =
      [0x90, 0x01, 0x50, 0x98, 0x3c, 0xd2, 0x4f, 0xb0, 0xd6, 0x96, 0x3f, 0x7d, 0x28, 0xe1, 0x7f, 0x72]"
    by (simp add: md5_def le32_def be32_def drop_bit_eq_div)
  then show ?thesis using md5_streaming [of "\<lparr>md5_state = (1, 2, 3, 4), count0 = 7, count1 = 9, md5_buffer = replicate 64 255\<rparr>"
        "[[97], [], [98, 99]]"] by simp
qed

end
