(* ===== verification/Digest_Hash.thy ===== *)
theory Digest_Hash
  imports Md5 Digest_Parser
begin

text \<open>
  Digest authentication in the server module: hexadecimal numbers (ut.h), nonces (nonce.c), the hashes of
  RFC 2617 (rfc2617.c) and the challenge (challenge.c). Every function with a digest has a
  context on its stack, which is a parameter; None is an access outside a buffer.
\<close>

section \<open>Hexadecimal numbers\<close>

definition low_hex_digit :: "u8 \<Rightarrow> u8" where
  "low_hex_digit j = (if j \<le> 9 then j + 48 else j + 97 - 10)"

definition fourbits2char :: "u8 list" where
  "fourbits2char = map (of_nat \<circ> of_char) ''0123456789abcdef''"

fun hex_pairs :: "bytes \<Rightarrow> bytes" where
  "hex_pairs [] = []"
| "hex_pairs (c # cs) = fourbits2char ! unat (drop_bit 4 c) # fourbits2char ! unat (c AND 0xf) # hex_pairs cs"

definition string2hex :: "bytes \<Rightarrow> bytes" where
  "string2hex s = (if s = [] then [48] else hex_pairs s)"

definition integer2hex :: "u32 \<Rightarrow> bytes" where
  "integer2hex s = concat (map (\<lambda>c. [low_hex_digit (drop_bit 4 c AND 0xf), low_hex_digit (c AND 0xf)]) (be32 s))"

text \<open>The loop of \<open>hex2integer\<close> with n digits left.\<close>

primrec hex_loop :: "nat \<Rightarrow> bytes \<Rightarrow> nat \<Rightarrow> u32 \<Rightarrow> u32 option" where
  "hex_loop 0 s i res = Some res"
| "hex_loop (Suc n) s i res = do {
     c \<leftarrow> peek s i;
     if 48 \<le> c \<and> c \<le> 57 then hex_loop n s (i + 1) (res * 16 + (ucast c - 48))
     else if 97 \<le> c \<and> c \<le> 102 then hex_loop n s (i + 1) (res * 16 + (ucast c - 97 + 10))
     else if 65 \<le> c \<and> c \<le> 70 then hex_loop n s (i + 1) (res * 16 + (ucast c - 65 + 10))
     else Some 0
   }"

definition hex2integer :: "bytes \<Rightarrow> u32 option" where
  "hex2integer s = hex_loop 8 s 0 0"

section \<open>Nonces\<close>

definition NONCE_LEN :: nat where
  "NONCE_LEN = 8 + 32"

text \<open>The bytes that are written, with the null byte at the end.\<close>

definition calc_nonce :: "MD5_CTX \<Rightarrow> u32 \<Rightarrow> bytes \<Rightarrow> bytes option" where
  "calc_nonce ctx expires secret = do {
     let nonce = integer2hex expires;
     bin \<leftarrow> md5_pieces ctx [nonce, secret];
     Some (nonce @ string2hex bin @ [0])
   }"

definition get_nonce_expires :: "bytes \<Rightarrow> u32 option" where
  "get_nonce_expires n = hex2integer n"

text \<open>A nonce is None when its pointer is null.\<close>

definition check_nonce :: "MD5_CTX \<Rightarrow> bytes option \<Rightarrow> bytes \<Rightarrow> int option" where
  "check_nonce ctx nonce secret =
     (case nonce of
        None \<Rightarrow> Some (- 1)
      | Some n \<Rightarrow>
          if NONCE_LEN \<noteq> length n then Some (- 1)
          else do {
            expires \<leftarrow> get_nonce_expires n;
            non \<leftarrow> calc_nonce ctx expires secret;
            Some (if take (length n) non = n then 0 else - 1)
          })"

definition is_nonce_stale :: "u32 \<Rightarrow> bytes option \<Rightarrow> bool option" where
  "is_nonce_stale now nonce =
     (case nonce of
        None \<Rightarrow> Some False
      | Some n \<Rightarrow> do { expires \<leftarrow> get_nonce_expires n; Some (expires <s now) })"

section \<open>Hashes of RFC 2617\<close>

definition HASHHEXLEN :: nat where
  "HASHHEXLEN = 32"

definition cvt_hex :: "bytes \<Rightarrow> bytes" where
  "cvt_hex b = concat (map (\<lambda>c. [low_hex_digit (drop_bit 4 c AND 0xf), low_hex_digit (c AND 0xf)]) b) @ [0]"

datatype ha_alg = HA_MD5 | HA_MD5_SESS

abbreviation (input) COLON :: bytes where "COLON \<equiv> [58]"

definition calc_HA1 :: "MD5_CTX \<Rightarrow> ha_alg \<Rightarrow> bytes \<Rightarrow> bytes \<Rightarrow> bytes \<Rightarrow> bytes \<Rightarrow> bytes \<Rightarrow> bytes option" where
  "calc_HA1 ctx alg username realm password nonce cnonce = do {
     HA1 \<leftarrow> md5_pieces ctx [username, COLON, realm, COLON, password];
     HA1 \<leftarrow> (if alg = HA_MD5_SESS
       then md5_pieces \<lparr>md5_state = (0, 0, 0, 0), count0 = 0, count1 = 0, md5_buffer = replicate 64 0\<rparr>
              [HA1, COLON, nonce, COLON, cnonce]
       else Some HA1);
     Some (cvt_hex HA1)
   }"

text \<open>The arguments \<open>ha1\<close> and \<open>hentity\<close> are buffers from which the first 32 bytes are read.\<close>

definition calc_response :: "MD5_CTX \<Rightarrow> bytes \<Rightarrow> bytes \<Rightarrow> bytes \<Rightarrow> bytes \<Rightarrow> bytes \<Rightarrow> bool \<Rightarrow> bytes \<Rightarrow> bytes \<Rightarrow> bytes \<Rightarrow>
    bytes option" where
  "calc_response ctx ha1 nonce nc cnonce qop auth_int method uri hentity = do {
     ent \<leftarrow> (if auth_int then do { h \<leftarrow> peekn hentity 0 HASHHEXLEN; Some [COLON, h] } else Some []);
     HA2 \<leftarrow> md5_pieces ctx ([method, COLON, uri] @ ent);
     let HA2Hex = cvt_hex HA2;
     h1 \<leftarrow> peekn ha1 0 HASHHEXLEN;
     h2 \<leftarrow> peekn HA2Hex 0 HASHHEXLEN;
     RespHash \<leftarrow> md5_pieces \<lparr>md5_state = (0, 0, 0, 0), count0 = 0, count1 = 0, md5_buffer = replicate 64 0\<rparr>
       ([h1, COLON, nonce, COLON] @ (if length qop \<noteq> 0 then [nc, COLON, cnonce, COLON, qop, COLON] else []) @ [h2]);
     Some (cvt_hex RespHash)
   }"

section \<open>The challenge\<close>

definition QOP_AUTH_PARAM :: bytes where "QOP_AUTH_PARAM = asc '', qop='' @ [34] @ asc ''auth'' @ [34]"
definition QOP_AUTHINT_PARAM :: bytes where "QOP_AUTHINT_PARAM = asc '', qop='' @ [34] @ asc ''auth-int'' @ [34]"
definition STALE_PARAM :: bytes where "STALE_PARAM = asc '', stale=true''"
definition DIGEST_REALM :: bytes where "DIGEST_REALM = asc ''Digest realm='' @ [34]"
definition DIGEST_NONCE :: bytes where "DIGEST_NONCE = [34] @ asc '', nonce='' @ [34]"
definition CRLF :: bytes where "CRLF = [13, 10]"

text \<open>Writing at p and moving p behind what was written.\<close>

definition put_bytes :: "bytes \<Rightarrow> nat \<times> bytes \<Rightarrow> (nat \<times> bytes) option" where
  "put_bytes d x = (case x of (p, b) \<Rightarrow> do { b \<leftarrow> poke p d b; Some (p + length d, b) })"

text \<open>
  \<open>mem\<close> is what the new block holds at first. The nonce is written with a null byte, which the
  quote after it replaces. The result None is an overflow, \<open>Some None\<close> a failed allocation; the
  block has the size that is computed first.
\<close>

definition build_challenge :: "MD5_CTX \<Rightarrow> bool \<Rightarrow> (nat \<Rightarrow> bytes) \<Rightarrow> u32 \<Rightarrow> u32 \<Rightarrow> bytes \<Rightarrow> bool \<Rightarrow> bytes \<Rightarrow> qop_type \<Rightarrow>
    bytes option option" where
  "build_challenge ctx ok mem now nonce_expire secret stale realm qop =
     (let len = length DIGEST_REALM + length realm + length DIGEST_NONCE + NONCE_LEN + 1 +
            (if qop = QOP_AUTH then length QOP_AUTH_PARAM else 0) +
            (if qop = QOP_AUTHINT then length QOP_AUTHINT_PARAM else 0) +
            (if stale then length STALE_PARAM else 0) + length CRLF
      in if \<not> ok then Some None
      else do {
        x \<leftarrow> put_bytes DIGEST_REALM (0, mem (len + 1));
        x \<leftarrow> put_bytes realm x;
        x \<leftarrow> put_bytes DIGEST_NONCE x;
        non \<leftarrow> calc_nonce ctx (now + nonce_expire) secret;
        b \<leftarrow> poke (fst x) non (snd x);
        x \<leftarrow> put_bytes [34] (fst x + NONCE_LEN, b);
        x \<leftarrow> (if qop = QOP_AUTH then put_bytes QOP_AUTH_PARAM x else Some x);
        x \<leftarrow> (if qop = QOP_AUTHINT then put_bytes QOP_AUTHINT_PARAM x else Some x);
        x \<leftarrow> (if stale then put_bytes STALE_PARAM x else Some x);
        x \<leftarrow> put_bytes CRLF x;
        b \<leftarrow> poke (fst x) [0] (snd x);
        Some (Some b)
      })"

section \<open>Hexadecimal round trip\<close>

definition hex :: "bytes \<Rightarrow> bytes" where
  "hex b = concat (map (\<lambda>c. [low_hex_digit (drop_bit 4 c), low_hex_digit (c AND 0xf)]) b)"

lemma length_hex [simp]: "length (hex b) = 2 * length b"
  by (simp add: hex_def) (induction b; simp)

lemma and_15: "c AND 0xf = (take_bit 4 c :: u8)"
  by (simp add: take_bit_eq_mask mask_eq_exp_minus_1)

lemma high_nibble: "drop_bit 4 c AND 0xf = (drop_bit 4 c :: u8)"
  unfolding and_15 by (rule bit_word_eqI) (auto simp: bit_simps dest: bit_imp_le_length)

lemma nibble_less: "unat (drop_bit 4 c :: u8) < 16" "unat (c AND 0xf :: u8) < 16"
proof -
  have "unat c < 2 ^ LENGTH(8)" by (rule unsigned_less)
  then show "unat (drop_bit 4 c) < 16" unfolding unsigned_drop_bit_eq by (simp add: drop_bit_eq_div take_bit_nat_eq_self)
  show "unat (c AND 0xf) < 16" unfolding and_15 unsigned_take_bit_eq using take_bit_nat_less_exp [of 4] by simp
qed

lemma table_digit:
  assumes "unat (j :: u8) < 16"
  shows "fourbits2char ! unat j = low_hex_digit j"
proof -
  have "\<forall>n \<in> set [0..<16]. fourbits2char ! n = low_hex_digit (of_nat n)" by code_simp
  then have "fourbits2char ! unat j = low_hex_digit (of_nat (unat j))" using assms by auto
  then show ?thesis by simp
qed

lemma hex_pairs_hex: "hex_pairs b = hex b"
  by (induction b) (simp_all add: hex_def table_digit nibble_less)

lemma cvt_hex_hex: "cvt_hex b = hex b @ [0]"
  by (simp add: cvt_hex_def hex_def high_nibble)

lemma integer2hex_hex: "integer2hex w = hex (be32 w)"
  by (simp add: integer2hex_def hex_def high_nibble)

lemma hex_loop_digit:
  assumes "unat (d :: u8) < 16" and "peek s i = Some (low_hex_digit d)"
  shows "hex_loop (Suc n) s i res = hex_loop n s (i + 1) (res * 16 + ucast d)"
proof -
  have "\<forall>k \<in> set [0..<16]. let d = (of_nat k :: u8); c = low_hex_digit d in
      if 48 \<le> c \<and> c \<le> 57 then (ucast c :: u32) - 48 = ucast d
      else 97 \<le> c \<and> c \<le> 102 \<and> (ucast c :: u32) - 97 + 10 = ucast d" by code_simp
  then have "let d = (of_nat (unat d) :: u8); c = low_hex_digit d in
      if 48 \<le> c \<and> c \<le> 57 then (ucast c :: u32) - 48 = ucast d
      else 97 \<le> c \<and> c \<le> 102 \<and> (ucast c :: u32) - 97 + 10 = ucast d"
    using assms(1) by (simp only: set_upt atLeastLessThan_iff le0 simp_thms)
  then show ?thesis using assms(2) by (auto simp: Let_def split: if_splits)
qed

lemma hex_loop_byte:
  assumes "s = pre @ hex [c] @ rest" and "n = k + 2" and "p = length pre" and "q = p + 2"
  shows "hex_loop n s p res = hex_loop k s q (res * 256 + ucast c)"
proof -
  have "peek s p = Some (low_hex_digit (drop_bit 4 c))" "peek s (p + 1) = Some (low_hex_digit (c AND 0xf))"
    using assms by (simp_all add: peek_def hex_def nth_append)
  then have "hex_loop (Suc (Suc k)) s p res = hex_loop k s (p + 1 + 1) ((res * 16 + ucast (drop_bit 4 c)) * 16 + ucast (c AND 0xf))"
    using hex_loop_digit [OF nibble_less(1), of s p c "Suc k" res] hex_loop_digit [OF nibble_less(2), of s "p + 1" c k]
    by (simp only:)
  moreover have "(res * 16 + ucast (drop_bit 4 c)) * 16 + ucast (c AND 0xf) = res * 256 + (ucast c :: u32)"
  proof -
    have "(ucast (drop_bit 4 c) :: u32) = drop_bit 4 (ucast c)" "(ucast (c AND 0xf) :: u32) = take_bit 4 (ucast c)"
      unfolding and_15 by (rule bit_word_eqI, auto simp: bit_simps dest: bit_imp_le_length)+
    moreover have "drop_bit 4 x * 16 + take_bit 4 x = x" for x :: u32
      by (simp add: drop_bit_eq_div take_bit_eq_mod div_mult_mod_eq)
    ultimately have "ucast (drop_bit 4 c) * 16 + ucast (c AND 0xf) = (ucast c :: u32)" by metis
    then show ?thesis by (simp add: distrib_right add.assoc)
  qed
  moreover have "n = Suc (Suc k)" "q = p + 1 + 1" using assms(2,4) by simp_all
  ultimately show ?thesis by (simp only:)
qed

lemma horner_byte: "drop_bit (k + 8) w * 256 + ucast (ucast (drop_bit k w) :: u8) = (drop_bit k w :: u32)"
proof -
  have "(ucast (ucast (drop_bit k w) :: u8) :: u32) = take_bit 8 (drop_bit k w)"
    by (rule bit_word_eqI) (auto simp: bit_simps)
  moreover have "drop_bit (k + 8) w = drop_bit 8 (drop_bit k w)" by (simp add: add.commute)
  moreover have "drop_bit 8 x * 256 + take_bit 8 x = x" for x :: u32
    by (simp add: drop_bit_eq_div take_bit_eq_mod div_mult_mod_eq)
  ultimately show ?thesis by metis
qed

lemma hex2integer_hex: "hex2integer (hex (be32 w) @ rest) = Some w"
proof -
  let ?c = "\<lambda>k. ucast (drop_bit k w) :: u8"
  let ?s = "hex [?c 24] @ hex [?c 16] @ hex [?c 8] @ hex [?c 0] @ rest"
  have s: "hex (be32 w) @ rest = ?s" by (simp add: be32_def hex_def)
  have "hex_loop 8 ?s 0 0 = hex_loop 6 ?s 2 (0 * 256 + ucast (?c 24))"
    by (rule hex_loop_byte [of _ "[]"]) simp_all
  also have "\<dots> = hex_loop 4 ?s 4 ((0 * 256 + ucast (?c 24)) * 256 + ucast (?c 16))"
    by (rule hex_loop_byte [of _ "hex [?c 24]"]) simp_all
  also have "\<dots> = hex_loop 2 ?s 6 (((0 * 256 + ucast (?c 24)) * 256 + ucast (?c 16)) * 256 + ucast (?c 8))"
    by (rule hex_loop_byte [of _ "hex [?c 24] @ hex [?c 16]"]) simp_all
  also have "\<dots> = hex_loop 0 ?s 8 ((((0 * 256 + ucast (?c 24)) * 256 + ucast (?c 16)) * 256 + ucast (?c 8)) * 256 + ucast (?c 0))"
    by (rule hex_loop_byte [of _ "hex [?c 24] @ hex [?c 16] @ hex [?c 8]"]) simp_all
  also have "\<dots> = Some w"
    using horner_byte [of 24 w] horner_byte [of 16 w] horner_byte [of 8 w] horner_byte [of 0 w] by simp
  finally show ?thesis unfolding hex2integer_def s .
qed

section \<open>Nonces and responses\<close>

text \<open>The context of a function may hold anything, in a buffer of 64 bytes.\<close>

abbreviation (input) some_ctx :: "MD5_CTX \<Rightarrow> bool" where "some_ctx ctx \<equiv> length (md5_buffer ctx) = 64"

definition nonce_text :: "u32 \<Rightarrow> bytes \<Rightarrow> bytes" where
  "nonce_text expires secret = hex (be32 expires) @ hex (md5 (hex (be32 expires) @ secret))"

lemma length_nonce_text [simp]: "length (nonce_text e k) = NONCE_LEN"
  by (simp add: nonce_text_def NONCE_LEN_def be32_def)

lemma calc_nonce_text: "some_ctx ctx \<Longrightarrow> length secret < 2 ^ 32 \<Longrightarrow> calc_nonce ctx e secret = Some (nonce_text e secret @ [0])"
  by (simp add: calc_nonce_def integer2hex_hex string2hex_def hex_pairs_hex nonce_text_def Let_def)

lemma nonce_expires: "get_nonce_expires (nonce_text e secret) = Some e"
  by (simp add: get_nonce_expires_def nonce_text_def hex2integer_hex)

lemma check_nonce_iff:
  assumes "some_ctx ctx" and "length secret < 2 ^ 32" and "length n = NONCE_LEN"
  shows "check_nonce ctx (Some n) secret = Some (if n = nonce_text (the (get_nonce_expires n)) secret then 0 else - 1)"
    and "get_nonce_expires n \<noteq> None"
proof -
  show e: "get_nonce_expires n \<noteq> None"
  proof -
    have "i + k \<le> length n \<Longrightarrow> hex_loop k n i res \<noteq> None" for k i res by (induction k arbitrary: i res) (auto simp: peek_def)
    from this [of 0 8] show ?thesis using assms(3) by (simp add: get_nonce_expires_def hex2integer_def NONCE_LEN_def)
  qed
  then show "check_nonce ctx (Some n) secret = Some (if n = nonce_text (the (get_nonce_expires n)) secret then 0 else - 1)"
    using assms by (auto simp: check_nonce_def calc_nonce_text)
qed

text \<open>The response of RFC 2617 for the arguments that this server uses.\<close>

definition rfc_ha1 :: "bytes \<Rightarrow> bytes \<Rightarrow> bytes \<Rightarrow> bytes" where
  "rfc_ha1 user realm password = hex (md5 (user @ COLON @ realm @ COLON @ password))"

definition rfc_response :: "bytes \<Rightarrow> bytes \<Rightarrow> bytes \<Rightarrow> bytes \<Rightarrow> bytes \<Rightarrow> bytes \<Rightarrow> bytes \<Rightarrow> bytes" where
  "rfc_response ha1 nonce nc cnonce qop method uri =
     hex (md5 (ha1 @ COLON @ nonce @ COLON @ (if qop = [] then [] else nc @ COLON @ cnonce @ COLON @ qop @ COLON) @
       hex (md5 (method @ COLON @ uri))))"

lemma calc_HA1_rfc:
  assumes "some_ctx ctx" and "\<forall>s \<in> {user, realm, password}. length s < 2 ^ 32"
  shows "calc_HA1 ctx HA_MD5 user realm password nonce cnonce = Some (rfc_ha1 user realm password @ [0])"
  using assms by (simp add: calc_HA1_def cvt_hex_hex rfc_ha1_def)

lemma calc_response_rfc:
  assumes "some_ctx ctx" and "\<forall>s \<in> {nonce, nc, cnonce, qop, method, uri}. length s < 2 ^ 32" and "length ha1 = 32"
  shows "calc_response ctx (ha1 @ rest) nonce nc cnonce qop False method uri hentity =
    Some (rfc_response ha1 nonce nc cnonce qop method uri @ [0])"
  using assms by (simp add: calc_response_def cvt_hex_hex rfc_response_def peekn_def HASHHEXLEN_def)

section \<open>The challenge and the life of its nonce\<close>

text \<open>The text \<open>pre\<close> is written and n bytes of the block are left.\<close>

definition written :: "nat \<times> bytes \<Rightarrow> bytes \<Rightarrow> nat \<Rightarrow> bool" where
  "written x pre n \<longleftrightarrow> (\<exists>junk. x = (length pre, pre @ junk) \<and> length junk = n)"

lemma put_written:
  assumes "written x pre (length d + n)"
  shows "\<exists>y. put_bytes d x = Some y \<and> written y (pre @ d) n"
  using assms by (auto simp: written_def put_bytes_def poke_def)

text \<open>Several pieces after each other; an empty piece changes nothing.\<close>

primrec puts :: "bytes list \<Rightarrow> nat \<times> bytes \<Rightarrow> (nat \<times> bytes) option" where
  "puts [] x = Some x"
| "puts (d # ds) x = do { x \<leftarrow> put_bytes d x; puts ds x }"

lemma puts_written:
  "written x pre (length (concat ds) + n) \<Longrightarrow> \<exists>y. puts ds x = Some y \<and> written y (pre @ concat ds) n"
proof (induction ds arbitrary: x pre)
  case (Cons d ds)
  obtain y where "put_bytes d x = Some y" "written y (pre @ d) (length (concat ds) + n)"
    using put_written [of x pre d "length (concat ds) + n"] Cons.prems by (auto simp: add.assoc)
  then show ?case using Cons.IH [of y "pre @ d"] by simp
qed simp

lemma put_if: "fst x \<le> length (snd x) \<Longrightarrow> (if b then put_bytes d x else Some x) = put_bytes (if b then d else []) x"
  by (cases x) (simp add: put_bytes_def poke_def)

lemma put_fst: "put_bytes d x = Some y \<Longrightarrow> fst y \<le> length (snd y)"
  by (auto simp: put_bytes_def poke_def split: prod.splits bind_splits if_splits)

definition challenge_options :: "bool \<Rightarrow> qop_type \<Rightarrow> bytes" where
  "challenge_options stale qop =
     (if qop = QOP_AUTH then QOP_AUTH_PARAM else []) @ (if qop = QOP_AUTHINT then QOP_AUTHINT_PARAM else []) @
     (if stale then STALE_PARAM else [])"

definition challenge_text :: "bytes \<Rightarrow> bytes \<Rightarrow> bytes \<Rightarrow> bytes" where
  "challenge_text realm nonce opts = DIGEST_REALM @ realm @ DIGEST_NONCE @ nonce @ [34] @ opts @ CRLF"

lemma build_challenge_text:
  assumes "some_ctx ctx" and "length secret < 2 ^ 32" and "\<And>n. length (mem n) = n"
  shows "build_challenge ctx True mem now life secret stale realm qop =
    Some (Some (challenge_text realm (nonce_text (now + life) secret) (challenge_options stale qop) @ [0]))"
proof -
  let ?n = "nonce_text (now + life) secret"
  define head where "head = [DIGEST_REALM, realm, DIGEST_NONCE]"
  define opts where "opts = [if qop = QOP_AUTH then QOP_AUTH_PARAM else [], if qop = QOP_AUTHINT then QOP_AUTHINT_PARAM else [],
    if stale then STALE_PARAM else [], CRLF]"
  define len where "len = length DIGEST_REALM + length realm + length DIGEST_NONCE + NONCE_LEN + 1 +
      (if qop = QOP_AUTH then length QOP_AUTH_PARAM else 0) + (if qop = QOP_AUTHINT then length QOP_AUTHINT_PARAM else 0) +
      (if stale then length STALE_PARAM else 0) + length CRLF"
  have len: "len + 1 = length (concat head) + (NONCE_LEN + (1 + (length (concat opts) + 1)))"
    by (simp add: len_def head_def opts_def)
  then have "written (0, mem (len + 1)) [] (length (concat head) + (NONCE_LEN + (1 + (length (concat opts) + 1))))"
    using assms(3) by (simp add: written_def)
  then obtain x where x: "puts head (0, mem (len + 1)) = Some x" "written x (concat head) (NONCE_LEN + (1 + (length (concat opts) + 1)))"
    using puts_written by fastforce
  then obtain b where b: "poke (fst x) (?n @ [0]) (snd x) = Some b"
    "written (fst x + NONCE_LEN, b) (concat head @ ?n) (1 + (length (concat opts) + 1))"
    by (auto simp: poke_def written_def)
  obtain y where y: "put_bytes [34] (fst x + NONCE_LEN, b) = Some y" "written y ((concat head @ ?n) @ [34]) (length (concat opts) + 1)"
    using put_written [of _ _ "[34]"] b(2) by fastforce
  obtain z where z: "puts opts y = Some z" "written z (((concat head @ ?n) @ [34]) @ concat opts) 1"
    using puts_written [OF y(2)] by blast
  have "poke (fst z) [0] (snd z) = Some (((concat head @ ?n) @ [34]) @ concat opts @ [0])"
    using z(2) by (auto simp: written_def poke_def length_Suc_conv)
  moreover have "concat head @ ?n @ [34] @ concat opts = challenge_text realm ?n (challenge_options stale qop)"
    by (simp add: head_def opts_def challenge_text_def challenge_options_def)
  ultimately have w: "poke (fst z) [0] (snd z) = Some (challenge_text realm ?n (challenge_options stale qop) @ [0])" by (metis append.assoc)
  obtain p q where h: "put_bytes DIGEST_REALM (0, mem (len + 1)) = Some p" "put_bytes realm p = Some q" "put_bytes DIGEST_NONCE q = Some x"
    using x(1) by (auto simp: head_def bind_eq_Some_conv)
  obtain r s t where o: "put_bytes (if qop = QOP_AUTH then QOP_AUTH_PARAM else []) y = Some r"
    "put_bytes (if qop = QOP_AUTHINT then QOP_AUTHINT_PARAM else []) r = Some s" "put_bytes (if stale then STALE_PARAM else []) s = Some t"
    "put_bytes CRLF t = Some z"
    using z(1) unfolding opts_def puts.simps bind_eq_Some_conv by blast
  have if_put: "(if qop = QOP_AUTH then put_bytes QOP_AUTH_PARAM y else Some y) = Some r"
    "(if qop = QOP_AUTHINT then put_bytes QOP_AUTHINT_PARAM r else Some r) = Some s" "(if stale then put_bytes STALE_PARAM s else Some s) = Some t"
    unfolding put_if [OF put_fst [OF y(1)]] put_if [OF put_fst [OF o(1)]] put_if [OF put_fst [OF o(2)]] by (fact o)+
  show ?thesis
    unfolding build_challenge_def Let_def len_def [symmetric] calc_nonce_text [OF assms(1,2)]
    by (simp add: h b(1) y(1) if_put o(4) w del: One_nat_def)
qed

lemma sint_add:
  fixes a b :: u32
  assumes "0 \<le> sint a" and "0 \<le> sint b" and "sint a + sint b < 2 ^ 31"
  shows "sint (a + b) = sint a + sint b"
  unfolding sint_word_add using assms by (simp add: signed_take_bit_int_eq_self)

text \<open>
  (C35) A challenge never leaves its block: the text is the one of RFC 2617, with the nonce between
  quotes. The server that sent it, with the same secret, accepts this nonce, holds it for stale exactly
  after the lifetime, and accepts no string of this length that it would not itself make.
\<close>

theorem challenge_nonce:
  assumes "some_ctx ctx" and "some_ctx ctx'" and "length secret < 2 ^ 32" and "\<And>n. length (mem n) = n"
    and "0 \<le> sint t" and "0 \<le> sint life" and "sint t + sint life < 2 ^ 31"
  shows "\<exists>n. build_challenge ctx True mem t life secret stale realm qop =
      Some (Some (challenge_text realm n (challenge_options stale qop) @ [0])) \<and>
    check_nonce ctx' (Some n) secret = Some 0 \<and>
    (\<forall>now. is_nonce_stale now (Some n) = Some (sint t + sint life < sint now)) \<and>
    (\<forall>n'. check_nonce ctx' (Some n') secret = Some 0 \<longrightarrow> (\<exists>e. calc_nonce ctx e secret = Some (n' @ [0])))"
proof (intro exI [of _ "nonce_text (t + life) secret"] conjI allI impI)
  show "check_nonce ctx' (Some (nonce_text (t + life) secret)) secret = Some 0"
    using check_nonce_iff [OF assms(2,3), of "nonce_text (t + life) secret"] by (simp add: nonce_expires)
  show "is_nonce_stale now (Some (nonce_text (t + life) secret)) = Some (sint t + sint life < sint now)" for now
    using sint_add assms(5-7) by (simp add: is_nonce_stale_def nonce_expires word_sless_alt)
  show "\<exists>e. calc_nonce ctx e secret = Some (n' @ [0])" if n': "check_nonce ctx' (Some n') secret = Some 0" for n'
  proof -
    have "length n' = NONCE_LEN" using n' by (auto simp: check_nonce_def split: if_splits)
    then have "n' = nonce_text (the (get_nonce_expires n')) secret"
      using check_nonce_iff(1) [OF assms(2,3), of n'] n' by (simp split: if_splits)
    then show ?thesis using calc_nonce_text [OF assms(1,3)] by metis
  qed
qed (rule build_challenge_text [OF assms(1,3,4)])

theorem challenge_nonce_witness:
  "\<exists>n. build_challenge \<lparr>md5_state = (1, 2, 3, 4), count0 = 5, count1 = 6, md5_buffer = replicate 64 7\<rparr> True (\<lambda>n. replicate n 1)
      1000 300 (asc ''key'') False (asc ''iptel.org'') QOP_AUTH = Some (Some (challenge_text (asc ''iptel.org'') n QOP_AUTH_PARAM @ [0])) \<and>
    is_nonce_stale 1300 (Some n) = Some False \<and> is_nonce_stale 1301 (Some n) = Some True"
proof -
  let ?ctx = "\<lparr>md5_state = (1, 2, 3, 4), count0 = 5, count1 = 6, md5_buffer = replicate 64 7\<rparr>"
  have s: "some_ctx ?ctx" "length (asc ''key'') < 2 ^ 32" by (simp_all add: asc_def)
  have "sint (1000 :: u32) = 1000" "sint (300 :: u32) = 300" "sint (1300 :: u32) = 1300" "sint (1301 :: u32) = 1301"
    by code_simp+
  then show ?thesis
    using challenge_nonce [OF s(1,1,2), of "\<lambda>n. replicate n 1" 1000 300 False "asc ''iptel.org''" QOP_AUTH]
    by (fastforce simp: challenge_options_def)
qed

end
