(* ===== verification/Sip_Db.thy ===== *)
theory Sip_Db
  imports Digest_Cred Digest_Hash Message_Codec "HOL-Library.Multiset"
begin

text \<open>
  The decisions of the SIP authentication module (server/modules/sipauth/db.c): whether a user has
  proved a password, whether a user belongs to a group, and the record of a call. MySQL is a
  parameter: the answer to a query depends on the queries sent before. The contents of
  uninitialised variables and of new blocks, the clock and the text of the date are parameters too.
  The value None stands for undefined behaviour.
\<close>

section \<open>The environment of the module\<close>

datatype sql_result = Sql_error | Sql_no_result | Sql_rows "bytes list list"

text \<open>
  \<open>au_ctx\<close> gives the uninitialised MD5 contexts, \<open>au_ha1\<close> and \<open>au_hent\<close> the arrays on the stack of
  \<open>do_auth\<close>, \<open>au_mem\<close> a new block of a size. \<open>au_now\<close> is the time when a nonce is tested, \<open>au_later\<close> the
  time when a challenge is made, \<open>au_date\<close> the text that \<open>strftime\<close> makes. \<open>au_mysql\<close> tells whether
  there is a connection.
\<close>

record auth_env =
  au_ctx :: "nat \<Rightarrow> MD5_CTX"
  au_mem :: "nat \<Rightarrow> bytes"
  au_ha1 :: bytes
  au_hent :: bytes
  au_now :: u32
  au_later :: u32
  au_date :: bytes
  au_mysql :: bool
  au_sql :: "bytes list \<Rightarrow> bytes \<Rightarrow> sql_result"
  au_secret :: bytes
  computeHA1 :: bool
  au_qop :: qop_type
  nonce_expire :: u32

abbreviation (input) vendorID :: u32 where "vendorID \<equiv> 0"
abbreviation (input) AVP_User_Name :: u32 where "AVP_User_Name \<equiv> 1"
abbreviation (input) AVP_Response :: u32 where "AVP_Response \<equiv> 401"
abbreviation (input) AVP_Chalenge :: u32 where "AVP_Chalenge \<equiv> 402"
abbreviation (input) AVP_Method :: u32 where "AVP_Method \<equiv> 403"
abbreviation (input) AVP_Service_Type :: u32 where "AVP_Service_Type \<equiv> 404"
abbreviation (input) AVP_User_Group :: u32 where "AVP_User_Group \<equiv> 405"

abbreviation (input) AUTHORIZED :: int where "AUTHORIZED \<equiv> 1"
abbreviation (input) NOT_AUTHORIZED :: int where "NOT_AUTHORIZED \<equiv> 2"
abbreviation (input) REJECTED :: int where "REJECTED \<equiv> 3"
abbreviation (input) MYSQL_ERROR :: int where "MYSQL_ERROR \<equiv> 4"
abbreviation (input) NONCE_STALE :: int where "NONCE_STALE \<equiv> 5"
abbreviation (input) NOT_USER_IN :: int where "NOT_USER_IN \<equiv> 6"
abbreviation (input) USER_IN :: int where "USER_IN \<equiv> 7"

text \<open>The shared memory and the queries sent.\<close>

type_synonym db_state = "shm \<times> bytes list"

text \<open>A query ends at its first null byte.\<close>

definition mysql_query :: "auth_env \<Rightarrow> bytes \<Rightarrow> bytes list \<Rightarrow> sql_result \<times> bytes list" where
  "mysql_query E q qs = (let q = takeWhile (\<lambda>c. c \<noteq> 0) q in (au_sql E qs q, qs @ [q]))"

section \<open>Queries with two arguments\<close>

text \<open>The text of a query with two arguments, written into a block of the size that is computed first.\<close>

definition two_arg_query :: "auth_env \<Rightarrow> bytes \<Rightarrow> bytes \<Rightarrow> bytes \<Rightarrow> bytes \<Rightarrow> bytes option" where
  "two_arg_query E select u selectc v = do {
     let query_len = length select + length u + length selectc + length v + 5;
     x \<leftarrow> put_bytes select (0, au_mem E query_len);
     x \<leftarrow> put_bytes u x;
     x \<leftarrow> put_bytes selectc x;
     x \<leftarrow> put_bytes v x;
     poke (fst x) [34, 0] (snd x)
   }"

text \<open>The answer to a query: the rows, or None when there is no connection, an error or no result.\<close>

definition query_rows :: "auth_env \<Rightarrow> bytes \<Rightarrow> bytes list \<Rightarrow> bytes list list option \<times> bytes list" where
  "query_rows E q qs =
     (if \<not> au_mysql E then (None, qs)
      else case mysql_query E q qs of
        (Sql_error, qs) \<Rightarrow> (None, qs)
      | (Sql_no_result, qs) \<Rightarrow> (None, qs)
      | (Sql_rows l, qs) \<Rightarrow> (Some l, qs))"

section \<open>do\_auth\<close>

text \<open>
  The data of an AVP lies in the buffer of its message; what follows it there can be read. An AVP
  that is not part of the buffer has a block of its own.
\<close>

definition avp_memory :: "AAAMessage \<Rightarrow> AAA_AVP \<Rightarrow> bytes \<times> nat" where
  "avp_memory msg a =
     (if buf_s msg \<noteq> NULL \<and> buf_s msg \<le> avp_data_s a \<and>
         peekn (msg_buf msg) (avp_data_s a - buf_s msg) (length (avp_data a)) = Some (avp_data a)
      then (msg_buf msg, avp_data_s a - buf_s msg) else (avp_data a, 0))"

text \<open>The bytes of a string of the credentials: a null string has no bytes.\<close>

definition cred_str :: "bytes \<Rightarrow> cstr option \<Rightarrow> bytes option" where
  "cred_str b f = (case f of None \<Rightarrow> Some [] | Some x \<Rightarrow> if snd x < 0 then None else str_bytes b x)"

definition cred_len :: "cstr option \<Rightarrow> int" where
  "cred_len f = (case f of None \<Rightarrow> 0 | Some x \<Rightarrow> snd x)"

definition AUTH_SELECT :: bytes where
  "AUTH_SELECT = asc ''SELECT passwd_h FROM authentication WHERE username='' @ [34]"

definition AUTH_SELECTC :: bytes where
  "AUTH_SELECTC = [34] @ asc '' AND domain='' @ [34]"

text \<open>
  The array \<open>ha1\<close>: computed from the password or copied from the database. The block for the
  password is used without a test and never freed.
\<close>

definition auth_ha1 :: "auth_env \<Rightarrow> (nat \<Rightarrow> bool) \<Rightarrow> bytes \<Rightarrow> bytes \<Rightarrow> bytes \<Rightarrow> shm \<Rightarrow> (bytes \<times> shm) option" where
  "auth_ha1 E ok user realm row0 m =
     (if computeHA1 E then
        let (p, m) = shm_malloc ok m
        in if p = NULL \<and> row0 \<noteq> [] then None
           else do {
             h \<leftarrow> calc_HA1 (au_ctx E 1) HA_MD5 user realm row0 [] [];
             ha1 \<leftarrow> poke 0 h (au_ha1 E);
             Some (ha1, m)
           }
      else do {
        ha1 \<leftarrow> poke 0 row0 (au_ha1 E);
        ha1 \<leftarrow> poke (length row0) [0] ha1;
        Some (ha1, m)
      })"

definition auth_verdict :: "auth_env \<Rightarrow> AAAMessage \<Rightarrow> bytes \<Rightarrow> dig_cred \<Rightarrow> bytes \<Rightarrow> bytes \<Rightarrow> int option" where
  "auth_verdict E msg b cred nonce ha1 =
     (if cred_len (dc_response cred) \<noteq> int HASHHEXLEN then Some NOT_AUTHORIZED
      else case AAAFindMatchingAVP (Some msg) NULL AVP_Method vendorID AAA_FORWARD_SEARCH of
        None \<Rightarrow> Some NOT_AUTHORIZED
      | Some avp \<Rightarrow> do {
          nc \<leftarrow> cred_str b (dc_nc cred);
          cnonce \<leftarrow> cred_str b (dc_cnonce cred);
          qop \<leftarrow> cred_str b (dc_qop cred);
          uri \<leftarrow> cred_str b (dc_uri cred);
          resp \<leftarrow> calc_response (au_ctx E 2) ha1 nonce nc cnonce qop (dc_qop_parsed cred = QOP_AUTHINT)
            (avp_data avp) uri (au_hent E);
          response \<leftarrow> cred_str b (dc_response cred);
          Some (if take HASHHEXLEN resp = take HASHHEXLEN response then AUTHORIZED else NOT_AUTHORIZED)
        })"

text \<open>The part of \<open>do_auth\<close> that asks the database. The block of the query is never freed.\<close>

definition auth_lookup :: "auth_env \<Rightarrow> (nat \<Rightarrow> bool) \<Rightarrow> AAAMessage \<Rightarrow> bytes \<Rightarrow> dig_cred \<Rightarrow> bytes \<Rightarrow> db_state \<Rightarrow> (int \<times> db_state) option" where
  "auth_lookup E ok msg b cred nonce s = do {
     user \<leftarrow> cred_str b (dc_user cred);
     realm \<leftarrow> cred_str b (dc_realm cred);
     let (query, m) = shm_malloc ok (fst s);
     if query = NULL then Some (NOT_AUTHORIZED, m, snd s)
     else do {
       q \<leftarrow> two_arg_query E AUTH_SELECT user AUTH_SELECTC realm;
       case query_rows E q (snd s) of
         (None, qs) \<Rightarrow> Some (MYSQL_ERROR, m, qs)
       | (Some [], qs) \<Rightarrow> Some (REJECTED, m, qs)
       | (Some ([] # _), qs) \<Rightarrow> None
       | (Some ((row0 # _) # _), qs) \<Rightarrow> do {
           (ha1, m) \<leftarrow> auth_ha1 E ok user realm row0 m;
           v \<leftarrow> auth_verdict E msg b cred nonce ha1;
           Some (v, m, qs)
         }
     }
   }"

text \<open>The result of \<open>parse_digest_cred\<close> is not looked at.\<close>

definition do_auth :: "auth_env \<Rightarrow> (nat \<Rightarrow> bool) \<Rightarrow> AAAMessage \<Rightarrow> db_state \<Rightarrow> (int \<times> db_state) option" where
  "do_auth E ok msg s =
     (case AAAFindMatchingAVP (Some msg) NULL AVP_Response vendorID AAA_FORWARD_SEARCH of
        None \<Rightarrow> Some (NOT_AUTHORIZED, s)
      | Some avp \<Rightarrow> do {
          let (b, p) = avp_memory msg avp;
          (_, cred) \<leftarrow> parse_digest_cred b (p, int (length (avp_data avp))) init_dig_cred;
          nonce \<leftarrow> cred_str b (dc_nonce cred);
          let n = (if dc_nonce cred = None then None else Some nonce);
          bad \<leftarrow> check_nonce (au_ctx E 0) n (au_secret E);
          if bad \<noteq> 0 then Some (NOT_AUTHORIZED, s)
          else do {
            stale \<leftarrow> is_nonce_stale (au_now E) n;
            if stale then Some (NONCE_STALE, s) else auth_lookup E ok msg b cred nonce s
          }
        })"

section \<open>check\_group\<close>

definition GROUP_SELECT :: bytes where
  "GROUP_SELECT = asc ''SELECT * FROM sipgroups WHERE user='' @ [34]"

definition GROUP_SELECTC :: bytes where
  "GROUP_SELECTC = [34] @ asc '' AND user_group='' @ [34]"

text \<open>The second test is made on the user instead of the group: without a group a null pointer is followed.\<close>

definition check_group :: "auth_env \<Rightarrow> (nat \<Rightarrow> bool) \<Rightarrow> AAAMessage \<Rightarrow> db_state \<Rightarrow> (int \<times> db_state) option" where
  "check_group E ok msg s =
     (case AAAFindMatchingAVP (Some msg) NULL AVP_User_Name vendorID AAA_FORWARD_SEARCH of
        None \<Rightarrow> Some (NOT_USER_IN, s)
      | Some avp_u \<Rightarrow> do {
          avp_g \<leftarrow> AAAFindMatchingAVP (Some msg) NULL AVP_User_Group vendorID AAA_FORWARD_SEARCH;
          let (query, m) = shm_malloc ok (fst s);
          if query = NULL then Some (NOT_USER_IN, m, snd s)
          else do {
            q \<leftarrow> two_arg_query E GROUP_SELECT (avp_data avp_u) GROUP_SELECTC (avp_data avp_g);
            case query_rows E q (snd s) of
              (None, qs) \<Rightarrow> Some (MYSQL_ERROR, m, qs)
            | (Some [], qs) \<Rightarrow> Some (NOT_USER_IN, m, qs)
            | (Some (_ # _), qs) \<Rightarrow> Some (USER_IN, m, qs)
          }
        })"

section \<open>do\_acc\<close>

definition acc_col :: "string list" where
  "acc_col = [''SIP_FROM'', ''SIP_TO'', ''SIP_STATUS'', ''SIP_METHOD'', ''I_URI'', ''O_URI'', ''FROM_URI'', ''TO_URI'', ''SIP_CALLID'',
     ''USERNAME'', ''FROMTAG'', ''TOTAG'', ''TIME'']"

definition col_len :: "nat list" where
  "col_len = [8, 6, 10, 10, 5, 5, 8, 6, 10, 8, 7, 5, 4]"

definition avpname :: "u32 list" where
  "avpname = [560, 561, 554, 553, 558, 559, 551, 552, 550, AVP_User_Name, 555, 556]"

text \<open>The first loop: copies of the data of the AVPs, or None when memory is short.\<close>

fun acc_values :: "(nat \<Rightarrow> bool) \<Rightarrow> AAAMessage \<Rightarrow> u32 list \<Rightarrow> shm \<Rightarrow> (ptr \<times> bytes) list option \<times> shm" where
  "acc_values ok msg [] m = (Some [], m)"
| "acc_values ok msg (c # cs) m =
     (case AAAFindMatchingAVP (Some msg) NULL c vendorID AAA_FORWARD_SEARCH of
        Some avp \<Rightarrow>
          (let (p, m) = shm_malloc ok m
           in if p = NULL then (None, m)
              else case acc_values ok msg cs m of
                (None, m) \<Rightarrow> (None, m)
              | (Some l, m) \<Rightarrow> (Some ((p, avp_data avp) # l), m))
      | None \<Rightarrow>
          (case acc_values ok msg cs m of
             (None, m) \<Rightarrow> (None, m)
           | (Some l, m) \<Rightarrow> (Some ((NULL, []) # l), m)))"

text \<open>The second loop over the columns writes both blocks and frees the values.\<close>

fun acc_write :: "((string \<times> nat) \<times> ptr \<times> bytes) list \<Rightarrow> nat \<times> bytes \<Rightarrow> nat \<times> bytes \<Rightarrow> shm \<Rightarrow>
    ((nat \<times> bytes) \<times> (nat \<times> bytes) \<times> shm) option" where
  "acc_write [] q t m = Some (q, t, m)"
| "acc_write (((c, n), p, v) # l) q t m =
     (if p = NULL then acc_write l q t m
      else do {
        name \<leftarrow> peekn (asc c @ replicate (20 - length c) 0) 0 n;
        q \<leftarrow> put_bytes name q;
        q \<leftarrow> put_bytes [44] q;
        t \<leftarrow> put_bytes [34] t;
        t \<leftarrow> put_bytes v t;
        t \<leftarrow> put_bytes [34, 44] t;
        acc_write l q t (shm_free p m)
      })"

definition ACC_INSERT :: bytes where
  "ACC_INSERT = asc ''INSERT INTO acc (''"

definition ACC_VALUES :: bytes where
  "ACC_VALUES = asc '' VALUES (''"

text \<open>Filling the two blocks and sending the query; the blocks \<open>query\<close> and \<open>tmp\<close> are freed at the end.\<close>

definition acc_query :: "auth_env \<Rightarrow> nat \<Rightarrow> nat \<Rightarrow> (ptr \<times> bytes) list \<Rightarrow> shm \<Rightarrow> (bytes \<times> shm) option" where
  "acc_query E len cnt_values vals m = do {
     q \<leftarrow> put_bytes ACC_INSERT (0, au_mem E len);
     (q, t, m) \<leftarrow> acc_write (zip (zip acc_col col_len) vals) q (0, au_mem E cnt_values) m;
     qb \<leftarrow> poke (fst q - 1) [41] (snd q);
     tb \<leftarrow> poke (fst t - 1) [41] (snd t);
     q \<leftarrow> put_bytes ACC_VALUES (fst q, qb);
     d \<leftarrow> peekn tb 0 (fst t);
     q \<leftarrow> put_bytes d q;
     qb \<leftarrow> poke (fst q) [0] (snd q);
     Some (qb, m)
   }"

definition do_acc :: "auth_env \<Rightarrow> (nat \<Rightarrow> bool) \<Rightarrow> AAAMessage \<Rightarrow> db_state \<Rightarrow> (int \<times> db_state) option" where
  "do_acc E ok msg s =
     (case acc_values ok msg avpname (fst s) of
        (None, m) \<Rightarrow> Some (AAA_ERR_FAILURE, m, snd s)
      | (Some vals, m) \<Rightarrow>
          (let (p, m) = shm_malloc ok m
           in if p = NULL then Some (AAA_ERR_FAILURE, m, snd s)
           else do {
             d \<leftarrow> poke 0 (au_date E @ [0]) (au_mem E 20);
             let vals = vals @ [(p, takeWhile (\<lambda>c. c \<noteq> 0) d)];
             let used = filter (\<lambda>(c, p, v). p \<noteq> NULL) (zip acc_col vals);
             let cnt_col = sum_list (map (\<lambda>(c, p, v). length c + 1) used);
             let cnt_values = sum_list (map (\<lambda>(c, p, v). length v + 3) used);
             let len = 17 + cnt_col + 9 + cnt_values + 1;
             let (query, m) = shm_malloc ok m;
             if query = NULL then Some (AAA_ERR_FAILURE, m, snd s)
             else let (tmp, m) = shm_malloc ok m
               in if tmp = NULL then Some (AAA_ERR_FAILURE, shm_free query m, snd s)
                  else do {
                    (qb, m) \<leftarrow> acc_query E len cnt_values vals m;
                    let m = shm_free tmp m;
                    if \<not> au_mysql E then None
                    else let (r, qs) = mysql_query E qb (snd s)
                      in Some (if r = Sql_error then AAA_ERR_FAILURE else AAA_ERR_SUCCESS, shm_free query m, qs)
                  }
           }))"

section \<open>Queries\<close>

text \<open>What the parameters of the environment satisfy: arrays and blocks have their sizes.\<close>

definition auth_env_ok :: "auth_env \<Rightarrow> bool" where
  "auth_env_ok E \<longleftrightarrow> (\<forall>i. length (md5_buffer (au_ctx E i)) = 64) \<and> (\<forall>n. length (au_mem E n) = n) \<and> length (au_ha1 E) = 256 \<and>
     length (au_hent E) = 33 \<and> length (au_secret E) < 2 ^ 32 \<and> au_mysql E"

definition query_text :: "bytes \<Rightarrow> bytes \<Rightarrow> bytes \<Rightarrow> bytes \<Rightarrow> bytes" where
  "query_text select u selectc v = takeWhile (\<lambda>c. c \<noteq> 0) (select @ u @ selectc @ v @ [34])"

lemma two_arg_query_text:
  assumes "\<And>n. length (au_mem E n) = n"
  shows "\<exists>q. two_arg_query E s u c v = Some q \<and> takeWhile (\<lambda>c. c \<noteq> 0) q = query_text s u c v"
proof -
  define len where "len = length s + length u + length c + length v + 5"
  have "written (0, au_mem E len) [] (length (concat [s, u, c, v]) + 5)" using assms by (simp add: written_def len_def)
  then obtain x where x: "puts [s, u, c, v] (0, au_mem E len) = Some x" "written x (concat [s, u, c, v]) 5"
    using puts_written by fastforce
  obtain r where r: "snd x = concat [s, u, c, v] @ r" "fst x = length (concat [s, u, c, v])" "length r = 5"
    using x(2) by (auto simp: written_def)
  then have "poke (fst x) [34, 0] (snd x) = Some (concat [s, u, c, v] @ [34, 0] @ drop 2 r)" by (simp add: poke_def)
  then have "two_arg_query E s u c v = Some (concat [s, u, c, v] @ [34, 0] @ drop 2 r)"
    using x(1) by (cases x) (auto simp: two_arg_query_def Let_def len_def bind_eq_Some_conv)
  moreover have "takeWhile (\<lambda>c. c \<noteq> 0) (xs @ 34 # 0 # ys) = takeWhile (\<lambda>c. c \<noteq> 0) (xs @ [34])" for xs ys :: bytes
    by (induction xs) auto
  from this [of "concat [s, u, c, v]" "drop 2 r"] have "takeWhile (\<lambda>c. c \<noteq> 0) (concat [s, u, c, v] @ [34, 0] @ drop 2 r) = query_text s u c v"
    by (simp add: query_text_def)
  ultimately show ?thesis by blast
qed

section \<open>The verdict\<close>

lemma avp_memory_text:
  obtains pre post where "avp_memory msg a = (pre @ avp_data a @ post, length pre)"
proof (cases "buf_s msg \<noteq> NULL \<and> buf_s msg \<le> avp_data_s a \<and>
    peekn (msg_buf msg) (avp_data_s a - buf_s msg) (length (avp_data a)) = Some (avp_data a)")
  case True
  let ?i = "avp_data_s a - buf_s msg" and ?n = "length (avp_data a)"
  from True have p: "?i + ?n \<le> length (msg_buf msg)" "take ?n (drop ?i (msg_buf msg)) = avp_data a"
    by (auto simp: peekn_def split: if_splits)
  have "msg_buf msg = take ?i (msg_buf msg) @ take ?n (drop ?i (msg_buf msg)) @ drop (?i + ?n) (msg_buf msg)"
    by (metis append_take_drop_id add.commute drop_drop)
  then have "avp_memory msg a = (take ?i (msg_buf msg) @ avp_data a @ drop (?i + ?n) (msg_buf msg), length (take ?i (msg_buf msg)))"
    using True p by (simp add: avp_memory_def)
  then show ?thesis by (rule that)
next
  case False
  then have "avp_memory msg a = ([] @ avp_data a @ [], length [])" by (simp only: avp_memory_def if_False) simp
  then show ?thesis by (rule that)
qed

text \<open>The value that credentials give to a parameter, empty when they do not have it.\<close>

definition cred_val :: "cred_param list \<Rightarrow> dig_par \<Rightarrow> bytes" where
  "cred_val qs p = (case param_value qs p of None \<Rightarrow> [] | Some v \<Rightarrow> v)"

definition cred_user :: "cred_param list \<Rightarrow> bytes" where
  "cred_user qs = (case param_value qs PAR_USERNAME of None \<Rightarrow> [] | Some v \<Rightarrow> user_part v)"

lemma cred_str_field: "cred_str b (Some f) = field_text b (Some f)"
  by (simp add: cred_str_def field_text_def)

lemma cred_str_val:
  assumes "cred_holds b qs c"
  shows "cred_str b (par_field p c) = Some (cred_val qs p)"
proof (cases "par_field p c")
  case None
  then have "param_value qs p = None" using assms unfolding cred_holds_def by metis
  then show ?thesis using None by (simp add: cred_str_def cred_val_def)
next
  case (Some f)
  moreover have "field_text b (par_field p c) = param_value qs p" "par_field p c = None \<longleftrightarrow> param_value qs p = None"
    using assms unfolding cred_holds_def by metis+
  ultimately show ?thesis by (auto simp: cred_str_field cred_val_def)
qed

lemma cred_str_user:
  assumes "cred_holds b qs c"
  shows "cred_str b (dc_user c) = Some (cred_user qs)"
  using assms by (cases "dc_user c") (auto simp: cred_holds_def cred_user_def cred_str_def field_text_def)

lemma cred_str_length: "cred_str b f = Some v \<Longrightarrow> length v \<le> length b \<and> cred_len f = int (length v)"
  by (auto simp: cred_str_def cred_len_def str_bytes_def peekn_def split: option.splits if_splits)


text \<open>The hash of user, realm and password, or the hash that the database holds.\<close>

definition stored_ha1 :: "auth_env \<Rightarrow> bytes \<Rightarrow> bytes \<Rightarrow> bytes \<Rightarrow> bytes" where
  "stored_ha1 E user realm row0 = (if computeHA1 E then rfc_ha1 user realm row0 else take HASHHEXLEN row0)"

text \<open>A password, or a hash that fits into the array.\<close>

definition row_ok :: "auth_env \<Rightarrow> bytes \<Rightarrow> bool" where
  "row_ok E row0 \<longleftrightarrow> (if computeHA1 E then length row0 < 2 ^ 32 else HASHHEXLEN \<le> length row0 \<and> length row0 < 256)"

lemma length_rfc [simp]: "length (rfc_ha1 u r p) = HASHHEXLEN" "length (rfc_response h n nc cn q mt ur) = HASHHEXLEN"
  by (simp_all add: rfc_ha1_def rfc_response_def HASHHEXLEN_def)

lemma auth_ha1_text:
  assumes "auth_env_ok E" and "\<And>i. ok i" and "row_ok E row0" and "length user < 2 ^ 32" and "length realm < 2 ^ 32"
  shows "\<exists>rest. auth_ha1 E ok user realm row0 m =
    Some (stored_ha1 E user realm row0 @ rest, if computeHA1 E then snd (shm_malloc ok m) else m) \<and> length (stored_ha1 E user realm row0) = HASHHEXLEN"
proof (cases "computeHA1 E")
  case True
  have l: "length (au_ha1 E) = 256" "length (md5_buffer (au_ctx E 1)) = 64" using assms(1) by (simp_all add: auth_env_ok_def)
  have "calc_HA1 (au_ctx E 1) HA_MD5 user realm row0 [] [] = Some (rfc_ha1 user realm row0 @ [0])"
    by (rule calc_HA1_rfc) (use assms(3-5) True l(2) in \<open>simp_all add: row_ok_def\<close>)
  then show ?thesis using True assms(2) l(1)
    by (auto simp: auth_ha1_def stored_ha1_def shm_malloc_def Let_def poke_def HASHHEXLEN_def)
next
  case False
  let ?ha = "au_ha1 E"
  have l: "length ?ha = 256" "HASHHEXLEN \<le> length row0" "length row0 < 256" using assms(1,3) False by (simp_all add: auth_env_ok_def row_ok_def)
  then have "poke 0 row0 ?ha = Some (row0 @ drop (length row0) ?ha)" by (simp add: poke_def)
  moreover have "poke (length row0) [0] (row0 @ drop (length row0) ?ha) = Some (row0 @ 0 # drop (length row0 + 1) ?ha)"
    using l by (simp add: poke_def)
  ultimately have "auth_ha1 E ok user realm row0 m = Some (row0 @ 0 # drop (length row0 + 1) ?ha, m)" using False by (simp add: auth_ha1_def)
  also have "row0 @ 0 # drop (length row0 + 1) ?ha = take HASHHEXLEN row0 @ drop HASHHEXLEN row0 @ 0 # drop (length row0 + 1) ?ha" by simp
  finally show ?thesis using False l by (auto simp: stored_ha1_def)
qed

lemma auth_verdict_text:
  assumes E: "auth_env_ok E" and c: "cred_holds b qs c" and mt: "AAAFindMatchingAVP (Some msg) NULL AVP_Method vendorID AAA_FORWARD_SEARCH = Some mt"
    and q: "dc_qop_parsed c \<noteq> QOP_AUTHINT" and l: "length b < 2 ^ 32" "length (avp_data mt) < 2 ^ 32" "length ha1 = HASHHEXLEN"
  shows "auth_verdict E msg b c (cred_val qs PAR_NONCE) (ha1 @ rest) = Some
    (if param_value qs PAR_RESPONSE = Some (rfc_response ha1 (cred_val qs PAR_NONCE) (cred_val qs PAR_NC) (cred_val qs PAR_CNONCE)
       (cred_val qs PAR_QOP) (avp_data mt) (cred_val qs PAR_URI)) then AUTHORIZED else NOT_AUTHORIZED)"
proof -
  let ?r = "rfc_response ha1 (cred_val qs PAR_NONCE) (cred_val qs PAR_NC) (cred_val qs PAR_CNONCE) (cred_val qs PAR_QOP) (avp_data mt) (cred_val qs PAR_URI)"
  note s = cred_str_val [OF c]
  have short: "length (cred_val qs p) < 2 ^ 32" for p using cred_str_length [OF s [of p]] l(1) by linarith
  have len: "cred_len (dc_response c) = int (length (cred_val qs PAR_RESPONSE))" using cred_str_length [OF s [of PAR_RESPONSE]] by simp
  have "length (md5_buffer (au_ctx E 2)) = 64" using E by (simp add: auth_env_ok_def)
  then have resp: "calc_response (au_ctx E 2) (ha1 @ rest) (cred_val qs PAR_NONCE) (cred_val qs PAR_NC) (cred_val qs PAR_CNONCE) (cred_val qs PAR_QOP)
      False (avp_data mt) (cred_val qs PAR_URI) (au_hent E) = Some (?r @ [0])"
    by (rule calc_response_rfc) (use short l in \<open>simp_all add: HASHHEXLEN_def\<close>)
  have eq: "param_value qs PAR_RESPONSE = Some ?r \<longleftrightarrow> length (cred_val qs PAR_RESPONSE) = HASHHEXLEN \<and> cred_val qs PAR_RESPONSE = ?r"
    by (auto simp: cred_val_def HASHHEXLEN_def split: option.splits)
  show ?thesis
  proof (cases "length (cred_val qs PAR_RESPONSE) = HASHHEXLEN")
    case True
    then show ?thesis unfolding eq
      using s [of PAR_NC] s [of PAR_CNONCE] s [of PAR_QOP] s [of PAR_URI] s [of PAR_RESPONSE] len mt q resp
      by (auto simp: auth_verdict_def)
  next
    case False
    then show ?thesis unfolding eq using len by (simp add: auth_verdict_def)
  qed
qed


text \<open>Credentials in a message, and what the database has for their user and realm.\<close>

definition has_creds :: "AAAMessage \<Rightarrow> AAA_AVP \<Rightarrow> cred_param list \<Rightarrow> bool" where
  "has_creds msg avp qs \<longleftrightarrow> AAAFindMatchingAVP (Some msg) NULL AVP_Response vendorID AAA_FORWARD_SEARCH = Some avp \<and>
     (\<exists>lead scheme ch gap. cred_ok lead scheme ch gap qs \<and> avp_data avp = cred_text lead scheme ch gap qs) \<and>
     length (fst (avp_memory msg avp)) < 2 ^ 32 \<and> qop_of (cred_val qs PAR_QOP) \<noteq> QOP_AUTHINT"

definition auth_query :: "cred_param list \<Rightarrow> bytes" where
  "auth_query qs = query_text AUTH_SELECT (cred_user qs) AUTH_SELECTC (cred_val qs PAR_REALM)"

definition passwd_row :: "auth_env \<Rightarrow> bytes list \<Rightarrow> cred_param list \<Rightarrow> bytes option \<Rightarrow> bool" where
  "passwd_row E h qs row \<longleftrightarrow> au_sql E h (auth_query qs) = Sql_rows (case row of None \<Rightarrow> [] | Some v \<Rightarrow> [[v]]) \<and>
     (\<forall>v. row = Some v \<longrightarrow> row_ok E v)"

text \<open>The response that a client makes that knows the password.\<close>

definition good_response :: "auth_env \<Rightarrow> bytes \<Rightarrow> cred_param list \<Rightarrow> bytes \<Rightarrow> bool" where
  "good_response E method qs row0 \<longleftrightarrow> param_value qs PAR_RESPONSE =
     Some (rfc_response (stored_ha1 E (cred_user qs) (cred_val qs PAR_REALM) row0) (cred_val qs PAR_NONCE) (cred_val qs PAR_NC)
       (cred_val qs PAR_CNONCE) (cred_val qs PAR_QOP) method (cred_val qs PAR_URI))"

text \<open>A nonce that was made with the secret for a time.\<close>

definition own_nonce :: "auth_env \<Rightarrow> cred_param list \<Rightarrow> u32 \<Rightarrow> bool" where
  "own_nonce E qs t \<longleftrightarrow> param_value qs PAR_NONCE = Some (nonce_text t (au_secret E))"

definition two_blocks :: "auth_env \<Rightarrow> bytes option \<Rightarrow> bool" where
  "two_blocks E row \<longleftrightarrow> computeHA1 E \<and> row \<noteq> None"

lemma auth_lookup_text:
  assumes E: "auth_env_ok E" and ok: "\<And>i. ok i" and c: "cred_holds b qs c" and l: "length b < 2 ^ 32" "length (avp_data mt) < 2 ^ 32"
    and mt: "AAAFindMatchingAVP (Some msg) NULL AVP_Method vendorID AAA_FORWARD_SEARCH = Some mt" and q: "dc_qop_parsed c \<noteq> QOP_AUTHINT"
    and row: "passwd_row E h qs row"
  shows "auth_lookup E ok msg b c (cred_val qs PAR_NONCE) (m, h) = Some
    (case row of None \<Rightarrow> REJECTED | Some v \<Rightarrow> if good_response E (avp_data mt) qs v then AUTHORIZED else NOT_AUTHORIZED,
     (if two_blocks E row then snd (shm_malloc ok (snd (shm_malloc ok m))) else snd (shm_malloc ok m)), h @ [auth_query qs])"
proof -
  have s: "cred_str b (dc_user c) = Some (cred_user qs)" "cred_str b (dc_realm c) = Some (cred_val qs PAR_REALM)"
    using cred_str_user [OF c] cred_str_val [OF c, of PAR_REALM] by simp_all
  have short: "length (cred_user qs) < 2 ^ 32" "length (cred_val qs PAR_REALM) < 2 ^ 32"
    using cred_str_length [OF s(1)] cred_str_length [OF s(2)] l(1) by linarith+
  obtain t where t: "two_arg_query E AUTH_SELECT (cred_user qs) AUTH_SELECTC (cred_val qs PAR_REALM) = Some t"
    "takeWhile (\<lambda>c. c \<noteq> 0) t = auth_query qs"
    using two_arg_query_text E unfolding auth_env_ok_def auth_query_def by metis
  have rows: "query_rows E t h = (Some (case row of None \<Rightarrow> [] | Some v \<Rightarrow> [[v]]), h @ [auth_query qs])"
    using E row t(2) by (simp add: query_rows_def mysql_query_def Let_def passwd_row_def auth_env_ok_def)
  define m1 where "m1 = snd (shm_malloc ok m)"
  have al: "shm_malloc ok m = (Suc (shm_calls m), m1)" using ok by (simp add: shm_malloc_def Let_def m1_def)
  show ?thesis
  proof (cases row)
    case None
    then show ?thesis using s t(1) rows al by (simp add: auth_lookup_def two_blocks_def)
  next
    case (Some v)
    obtain rest where ha1: "auth_ha1 E ok (cred_user qs) (cred_val qs PAR_REALM) v m1 =
        Some (stored_ha1 E (cred_user qs) (cred_val qs PAR_REALM) v @ rest, if computeHA1 E then snd (shm_malloc ok m1) else m1)"
      "length (stored_ha1 E (cred_user qs) (cred_val qs PAR_REALM) v) = HASHHEXLEN"
      using auth_ha1_text [where ok = ok, OF E ok _ short, of v m1] row Some by (auto simp: passwd_row_def)
    have "auth_lookup E ok msg b c (cred_val qs PAR_NONCE) (m, h) =
        do { (ha1, m) \<leftarrow> auth_ha1 E ok (cred_user qs) (cred_val qs PAR_REALM) v m1;
             r \<leftarrow> auth_verdict E msg b c (cred_val qs PAR_NONCE) ha1; Some (r, m, h @ [auth_query qs]) }"
      using s t(1) rows Some al by (simp add: auth_lookup_def)
    then show ?thesis
      using ha1(1) auth_verdict_text [OF E c mt q l ha1(2)] Some by (simp add: good_response_def two_blocks_def m1_def)
  qed
qed


lemma nonce_tests:
  assumes "auth_env_ok E"
  shows "check_nonce (au_ctx E 0) (Some n) (au_secret E) = Some (if \<exists>t. n = nonce_text t (au_secret E) then 0 else - 1)"
    and "is_nonce_stale now (Some (nonce_text t (au_secret E))) = Some (t <s now)"
proof -
  have E: "length (md5_buffer (au_ctx E 0)) = 64" "length (au_secret E) < 2 ^ 32" using assms by (simp_all add: auth_env_ok_def)
  show "check_nonce (au_ctx E 0) (Some n) (au_secret E) = Some (if \<exists>t. n = nonce_text t (au_secret E) then 0 else - 1)"
  proof (cases "length n = NONCE_LEN")
    case True
    have "n = nonce_text (the (get_nonce_expires n)) (au_secret E) \<longleftrightarrow> (\<exists>t. n = nonce_text t (au_secret E))"
      by (metis nonce_expires option.sel)
    then show ?thesis using check_nonce_iff(1) [OF E True] by simp
  next
    case False
    then have "\<nexists>t. n = nonce_text t (au_secret E)" by auto
    then show ?thesis using False by (simp add: check_nonce_def)
  qed
  show "is_nonce_stale now (Some (nonce_text t (au_secret E))) = Some (t <s now)"
    by (simp add: is_nonce_stale_def nonce_expires)
qed

lemma own_nonce_unique: "own_nonce E qs t \<Longrightarrow> own_nonce E qs t' \<Longrightarrow> t = t'"
  unfolding own_nonce_def by (metis nonce_expires option.sel)

text \<open>The memory and the queries after the database was asked.\<close>

definition asked :: "auth_env \<Rightarrow> (nat \<Rightarrow> bool) \<Rightarrow> cred_param list \<Rightarrow> bytes option \<Rightarrow> db_state \<Rightarrow> db_state" where
  "asked E ok qs row s =
     ((if two_blocks E row then snd (shm_malloc ok (snd (shm_malloc ok (fst s)))) else snd (shm_malloc ok (fst s))), snd s @ [auth_query qs])"

lemma do_auth_text:
  assumes E: "auth_env_ok E" and ok: "\<And>i. ok i" and cr: "has_creds msg avp qs" and row: "passwd_row E (snd s) qs row"
    and mt: "AAAFindMatchingAVP (Some msg) NULL AVP_Method vendorID AAA_FORWARD_SEARCH = Some mt" "length (avp_data mt) < 2 ^ 32"
  shows "\<nexists>t. own_nonce E qs t \<Longrightarrow> do_auth E ok msg s = Some (NOT_AUTHORIZED, s)"
    and "own_nonce E qs t \<Longrightarrow> do_auth E ok msg s =
      (if t <s au_now E then Some (NONCE_STALE, s)
       else Some (case row of None \<Rightarrow> REJECTED | Some v \<Rightarrow> if good_response E (avp_data mt) qs v then AUTHORIZED else NOT_AUTHORIZED,
         asked E ok qs row s))"
proof -
  obtain pre post where b: "avp_memory msg avp = (pre @ avp_data avp @ post, length pre)" by (rule avp_memory_text)
  define b where "b = pre @ avp_data avp @ post"
  obtain lead scheme ch gap where t: "cred_ok lead scheme ch gap qs" "avp_data avp = cred_text lead scheme ch gap qs"
    using cr by (auto simp: has_creds_def)
  obtain c where c: "parse_digest_cred b (length pre, int (length (avp_data avp))) init_dig_cred = Some (1, c)" "cred_holds b qs c"
    using cred_text_parsed [OF t(1), of b pre post] t(2) b_def by auto
  have f: "AAAFindMatchingAVP (Some msg) NULL AVP_Response vendorID AAA_FORWARD_SEARCH = Some avp" "length b < 2 ^ 32"
    "qop_of (cred_val qs PAR_QOP) \<noteq> QOP_AUTHINT" using cr b by (simp_all add: has_creds_def b_def)
  have q: "dc_qop_parsed c \<noteq> QOP_AUTHINT" using c(2) f(3) by (auto simp: cred_holds_def cred_val_def split: option.splits)
  have n: "cred_str b (dc_nonce c) = Some (cred_val qs PAR_NONCE)" "dc_nonce c = None \<longleftrightarrow> param_value qs PAR_NONCE = None"
    using cred_str_val [OF c(2), of PAR_NONCE] c(2) unfolding cred_holds_def by (simp, metis par_field.simps(3))
  have nn: "(if dc_nonce c = None then None else Some (cred_val qs PAR_NONCE)) = param_value qs PAR_NONCE"
    using n(2) by (auto simp: cred_val_def)
  have bm: "avp_memory msg avp = (b, length pre)" using b by (simp add: b_def)
  have d: "do_auth E ok msg s = do {
      bad \<leftarrow> check_nonce (au_ctx E 0) (param_value qs PAR_NONCE) (au_secret E);
      if bad \<noteq> 0 then Some (NOT_AUTHORIZED, s)
      else do { stale \<leftarrow> is_nonce_stale (au_now E) (param_value qs PAR_NONCE);
        if stale then Some (NONCE_STALE, s) else auth_lookup E ok msg b c (cred_val qs PAR_NONCE) s } }"
    using nn n(1) f(1) c(1) bm by (simp add: do_auth_def) (simp only: Let_def)
  note look = auth_lookup_text [where ok = ok, OF E ok c(2) f(2) mt(2,1) q row, of "fst s"]
  show "do_auth E ok msg s = Some (NOT_AUTHORIZED, s)" if "\<nexists>t. own_nonce E qs t"
    using that nonce_tests(1) [OF E] unfolding d own_nonce_def
    by (cases "param_value qs PAR_NONCE") (auto simp: check_nonce_def)
  show "do_auth E ok msg s = (if t <s au_now E then Some (NONCE_STALE, s)
       else Some (case row of None \<Rightarrow> REJECTED | Some v \<Rightarrow> if good_response E (avp_data mt) qs v then AUTHORIZED else NOT_AUTHORIZED,
         asked E ok qs row s))" if "own_nonce E qs t"
  proof -
    have "param_value qs PAR_NONCE = Some (nonce_text t (au_secret E))" using that by (simp add: own_nonce_def)
    then show ?thesis unfolding d asked_def using nonce_tests [OF E] look by auto
  qed
qed


lemma asked_live:
  assumes "\<And>i. ok i"
  shows "\<exists>l. shm_live (fst (asked E ok qs row s)) = l @ shm_live (fst s) \<and> length l = (if two_blocks E row then 2 else 1)"
  using assms by (auto simp: asked_def shm_malloc_def Let_def)

lemma snd_asked: "snd (asked E ok qs row s) = snd s @ [auth_query qs]"
  by (simp add: asked_def)


text \<open>A user with a stored hash, a nonce for the time 1000, and the response that belongs to them.\<close>

lemma hex_no_quote: "34 \<notin> set (hex b) \<and> 0 \<notin> set (hex b)"
proof -
  have "low_hex_digit j \<noteq> 34 \<and> low_hex_digit j \<noteq> 0" if "j < 16" for j :: u8
  proof -
    from that have "unat j < 16" by (simp add: word_less_nat_alt)
    moreover have "j = of_nat (unat j)" by simp
    moreover have "\<forall>n \<in> set [0..<16]. low_hex_digit (of_nat n) \<noteq> 34 \<and> low_hex_digit (of_nat n) \<noteq> 0" by code_simp
    ultimately show ?thesis by (metis atLeastLessThan_iff le0 set_upt)
  qed
  moreover have "c AND 0xf < 16" "drop_bit 4 c < 16" for c :: u8
  proof -
    have "unat (c AND 0xf) < 16"
      using take_bit_nat_less_exp [of 4 "unat c"] by (simp only: and_15 unsigned_take_bit_eq) simp
    then show "c AND 0xf < 16" by (simp add: word_less_nat_alt)
    have "unat (drop_bit 4 c) = unat c div 16" by (simp add: unsigned_drop_bit_eq drop_bit_eq_div unat_div)
    moreover have "unat c < 256" using unsigned_less [of c] by simp
    ultimately have "unat (drop_bit 4 c) < 16" by linarith
    then show "drop_bit 4 c < 16" by (simp only: word_less_nat_alt) simp
  qed
  ultimately show ?thesis unfolding hex_def by force
qed

lemma length_asc [simp]: "length (asc c) = length c"
  by (simp add: asc_def)

definition sample_hash :: bytes where
  "sample_hash = replicate 32 97"

definition sample_auth_params :: "cred_param list" where
  "sample_auth_params = (let n = nonce_text 1000 (asc ''key'') in
     [\<lparr>cp_type = PAR_USERNAME, cp_name = asc ''username'', cp_before = [], cp_after = [], cp_quoted = True, cp_value = asc ''joe'', cp_end = [], cp_next = [32]\<rparr>,
      \<lparr>cp_type = PAR_REALM, cp_name = asc ''realm'', cp_before = [], cp_after = [], cp_quoted = True, cp_value = asc ''x.org'', cp_end = [], cp_next = [32]\<rparr>,
      \<lparr>cp_type = PAR_RESPONSE, cp_name = asc ''response'', cp_before = [], cp_after = [], cp_quoted = True,
        cp_value = rfc_response sample_hash n [] [] [] (asc ''INVITE'') [], cp_end = [], cp_next = [32]\<rparr>,
      \<lparr>cp_type = PAR_NONCE, cp_name = asc ''nonce'', cp_before = [], cp_after = [], cp_quoted = True, cp_value = n, cp_end = [], cp_next = []\<rparr>])"

definition sample_auth_env :: auth_env where
  "sample_auth_env = \<lparr>au_ctx = (\<lambda>_. \<lparr>md5_state = (0, 0, 0, 0), count0 = 0, count1 = 0, md5_buffer = replicate 64 0\<rparr>), au_mem = (\<lambda>n. replicate n 0),
     au_ha1 = replicate 256 0, au_hent = replicate 33 0, au_now = 900, au_later = 900, au_date = [], au_mysql = True,
     au_sql = (\<lambda>_ _. Sql_rows [[sample_hash]]), au_secret = asc ''key'', computeHA1 = False, au_qop = QOP_UNSPEC, nonce_expire = 300\<rparr>"

definition sample_auth_avp :: "ptr \<Rightarrow> u32 \<Rightarrow> bytes \<Rightarrow> AAA_AVP" where
  "sample_auth_avp a code d = \<lparr>avp_addr = a, packetType = AAA_DIAMETER, avp_code = code, avp_flags = 0, avp_type = AAA_AVP_DATA_TYPE,
     avp_vendorId = 0, avp_data_s = a + 100, avp_data = d, free_it = False\<rparr>"

definition sample_auth_msg :: AAAMessage where
  "sample_auth_msg = (zero_msg 1)\<lparr>msg_flags := 0x80, commandCode := 265, applicationId := 1,
     avpList := [sample_auth_avp 2 403 (asc ''INVITE''), sample_auth_avp 3 401 (cred_text [] (asc ''Digest'') 32 [] sample_auth_params)]\<rparr>"

lemma sample_auth_params_ok: "cred_ok [] (asc ''Digest'') 32 [] sample_auth_params"
proof -
  have "map LOWER_BYTE (asc ''username'') = name_of PAR_USERNAME" "map LOWER_BYTE (asc ''realm'') = name_of PAR_REALM"
    "map LOWER_BYTE (asc ''response'') = name_of PAR_RESPONSE" "map LOWER_BYTE (asc ''nonce'') = name_of PAR_NONCE"
    "34 \<notin> set (asc ''joe'')" "34 \<notin> set (asc ''x.org'')" "map to_lower (asc ''Digest'') = asc ''digest''"
    by code_simp+
  then show ?thesis
    by (simp add: cred_ok_def sample_auth_params_def Let_def param_ok_def trim_char_def nonce_text_def rfc_response_def hex_no_quote)
qed

lemma sample_auth_values:
  "param_value sample_auth_params PAR_NONCE = Some (nonce_text 1000 (asc ''key''))"
  "param_value sample_auth_params PAR_RESPONSE = Some (rfc_response sample_hash (nonce_text 1000 (asc ''key'')) [] [] [] (asc ''INVITE'') [])"
  "param_value sample_auth_params PAR_NC = None" "param_value sample_auth_params PAR_CNONCE = None"
  "param_value sample_auth_params PAR_QOP = None" "param_value sample_auth_params PAR_URI = None"
  by (simp_all add: param_value_def sample_auth_params_def Let_def)

lemma sample_auth_env_ok: "auth_env_ok sample_auth_env"
  by (simp add: auth_env_ok_def sample_auth_env_def asc_def)

lemma sample_row: "passwd_row sample_auth_env h sample_auth_params (Some sample_hash)"
  by (simp add: passwd_row_def sample_auth_env_def row_ok_def sample_hash_def HASHHEXLEN_def)

lemma sample_own_nonce: "own_nonce sample_auth_env sample_auth_params 1000" "\<not> 1000 <s au_now sample_auth_env"
  using sample_auth_values(1) by (simp_all add: own_nonce_def sample_auth_env_def word_sless_alt)

lemma sample_good_response: "good_response sample_auth_env (asc ''INVITE'') sample_auth_params sample_hash"
  using sample_auth_values by (simp add: good_response_def stored_ha1_def sample_auth_env_def cred_val_def sample_hash_def HASHHEXLEN_def)

lemma sample_has_creds:
  assumes "buf_s msg = NULL"
    and "AAAFindMatchingAVP (Some msg) NULL 401 0 AAA_FORWARD_SEARCH = Some (sample_auth_avp a 401 (cred_text [] (asc ''Digest'') 32 [] sample_auth_params))"
  shows "has_creds msg (sample_auth_avp a 401 (cred_text [] (asc ''Digest'') 32 [] sample_auth_params)) sample_auth_params"
proof -
  let ?avp = "sample_auth_avp a 401 (cred_text [] (asc ''Digest'') 32 [] sample_auth_params)"
  have small: "length (avp_data ?avp) < 2 ^ 32"
    by (simp add: sample_auth_avp_def cred_text_def sample_auth_params_def Let_def param_text_def body_text_def asc_def NONCE_LEN_def HASHHEXLEN_def)
  have mem: "avp_memory msg ?avp = (avp_data ?avp, 0)" using assms(1) by (simp add: avp_memory_def)
  have "qop_of [] = QOP_OTHER" by code_simp
  then show ?thesis
    unfolding has_creds_def mem using assms(2) sample_auth_params_ok small sample_auth_values(5) by (auto simp: cred_val_def sample_auth_avp_def)
qed


section \<open>The record of a call\<close>

text \<open>The columns that get a value, and the statement that is meant.\<close>

definition acc_used :: "string list \<Rightarrow> (ptr \<times> bytes) list \<Rightarrow> (bytes \<times> bytes) list" where
  "acc_used cs vals = List.map_filter (\<lambda>(c, p, v). if p = NULL then None else Some (asc c, v)) (zip cs vals)"

fun commas :: "bytes list \<Rightarrow> bytes" where
  "commas [] = []"
| "commas [x] = x"
| "commas (x # xs) = x @ 44 # commas xs"

definition acc_statement :: "(bytes \<times> bytes) list \<Rightarrow> bytes" where
  "acc_statement l = ACC_INSERT @ commas (map fst l) @ [41] @ ACC_VALUES @ commas (map (\<lambda>(c, v). 34 # v @ [34]) l) @ [41]"

definition acc_row :: "auth_env \<Rightarrow> AAAMessage \<Rightarrow> (bytes \<times> bytes) list" where
  "acc_row E msg = List.map_filter (\<lambda>(c, x). map_option (Pair (asc c)) x)
     (zip acc_col (map (\<lambda>code. map_option avp_data (AAAFindMatchingAVP (Some msg) NULL code vendorID AAA_FORWARD_SEARCH)) avpname @ [Some (au_date E)]))"

abbreviation (input) col_parts :: "(bytes \<times> bytes) list \<Rightarrow> bytes list" where "col_parts \<equiv> map (\<lambda>(c, v). c @ [44])"
abbreviation (input) val_parts :: "(bytes \<times> bytes) list \<Rightarrow> bytes list" where "val_parts \<equiv> map (\<lambda>(c, v). (34 # v @ [34]) @ [44])"

lemma acc_used_simps [simp]:
  "acc_used [] vals = []" "acc_used (c # cs) ((p, v) # vals) = (if p = NULL then acc_used cs vals else (asc c, v) # acc_used cs vals)"
  by (simp_all add: acc_used_def map_filter_simps)

lemma acc_write_text:
  assumes "length vals = length cs" and "\<forall>c \<in> set cs. length c \<le> 20"
    and "written q pq (length (concat (col_parts (acc_used cs vals))) + n)"
    and "written t pt (length (concat (val_parts (acc_used cs vals))) + k)"
  shows "\<exists>q' t'. acc_write (zip (zip cs (map length cs)) vals) q t m = Some (q', t', fold shm_free (filter (\<lambda>p. p \<noteq> NULL) (map fst vals)) m) \<and>
    written q' (pq @ concat (col_parts (acc_used cs vals))) n \<and> written t' (pt @ concat (val_parts (acc_used cs vals))) k"
  using assms
proof (induction vals cs arbitrary: q t m pq pt rule: list_induct2)
  case (Cons x vals c cs)
  obtain p v where x: "x = (p, v)" by (cases x)
  show ?case
  proof (cases "p = NULL")
    case True
    then show ?thesis using Cons.IH Cons.prems x by simp
  next
    case False
    have name: "peekn (asc c @ replicate (20 - length c) 0) 0 (length c) = Some (asc c)" by (simp add: peekn_def)
    let ?n = "length (concat (col_parts (acc_used cs vals))) + n" and ?k = "length (concat (val_parts (acc_used cs vals))) + k"
    have w: "written q pq (length (concat [asc c, [44]]) + ?n)" "written t pt (length (concat [[34], v, [34, 44]]) + ?k)"
      using Cons.prems(2,3) False x by (simp_all add: add_ac)
    obtain q1 q2 where q: "put_bytes (asc c) q = Some q1" "put_bytes [44] q1 = Some q2" "written q2 (pq @ asc c @ [44]) ?n"
      using puts_written [OF w(1)] by (auto simp: bind_eq_Some_conv)
    obtain t1 t2 t3 where t: "put_bytes [34] t = Some t1" "put_bytes v t1 = Some t2" "put_bytes [34, 44] t2 = Some t3" "written t3 (pt @ 34 # v @ [34, 44]) ?k"
      using puts_written [OF w(2)] by (auto simp: bind_eq_Some_conv)
    show ?thesis
      using Cons.IH [of q2 "pq @ asc c @ [44]" t3 "pt @ 34 # v @ [34, 44]" "shm_free p m"] Cons.prems(1) q t False name x by simp
  qed
qed simp

lemma concat_commas: "l \<noteq> [] \<Longrightarrow> concat (map (\<lambda>x. f x @ [44]) l) = commas (map f l) @ [44]"
  by (induction l rule: induct_list012) auto

lemma replace_last: "written q (pre @ [44]) n \<Longrightarrow> \<exists>b. poke (fst q - 1) [41] (snd q) = Some b \<and> written (fst q, b) (pre @ [41]) n"
  by (auto simp: written_def poke_def)

lemma acc_query_text:
  fixes vals m
  defines "u \<equiv> acc_used acc_col vals"
  assumes mem: "\<And>n. length (au_mem E n) = n" and len: "length vals = length acc_col" and u: "u \<noteq> []"
  shows "\<exists>qb. acc_query E (17 + length (concat (col_parts u)) + 9 + length (concat (val_parts u)) + 1) (length (concat (val_parts u))) vals m =
      Some (qb, fold shm_free (filter (\<lambda>p. p \<noteq> NULL) (map fst vals)) m) \<and>
    takeWhile (\<lambda>c. c \<noteq> 0) qb = takeWhile (\<lambda>c. c \<noteq> 0) (acc_statement u)"
proof -
  let ?C = "concat (col_parts u)" and ?V = "concat (val_parts u)"
  define cs vs where "cs = commas (map fst u)" and "vs = commas (map (\<lambda>(c, v). 34 # v @ [34]) u)"
  define l where "l = 17 + length ?C + 9 + length ?V + 1"
  have C: "?C = cs @ [44]" "?V = vs @ [44]"
    using concat_commas [OF u, of fst] concat_commas [OF u, of "\<lambda>(c, v). 34 # v @ [34]"] unfolding cs_def vs_def by (simp_all add: case_prod_unfold)
  have k: "length ACC_INSERT = 17" "length ACC_VALUES = 9" by code_simp+
  have w: "written (0, au_mem E l) [] (length ACC_INSERT + (length ?C + (9 + (length ?V + 1))))" "written (0, au_mem E (length ?V)) [] (length ?V + 0)"
    using mem by (simp_all add: written_def k(1) l_def)
  obtain q where q: "put_bytes ACC_INSERT (0, au_mem E l) = Some q" "written q ACC_INSERT (length ?C + (9 + (length ?V + 1)))"
    using put_written [OF w(1)] by auto
  have cl: "col_len = map length acc_col" "\<forall>c \<in> set acc_col. length c \<le> 20" by code_simp+
  obtain q1 t1 where a: "acc_write (zip (zip acc_col col_len) vals) q (0, au_mem E (length ?V)) m =
      Some (q1, t1, fold shm_free (filter (\<lambda>p. p \<noteq> NULL) (map fst vals)) m)"
    "written q1 (ACC_INSERT @ ?C) (9 + (length ?V + 1))" "written t1 ([] @ ?V) 0"
    using acc_write_text [OF len cl(2) q(2) [unfolded u_def] w(2) [unfolded u_def], of m] unfolding cl(1) u_def by blast
  obtain qb where qb: "poke (fst q1 - 1) [41] (snd q1) = Some qb" "written (fst q1, qb) (ACC_INSERT @ cs @ [41]) (length ACC_VALUES + (length ?V + 1))"
    using replace_last [of q1 "ACC_INSERT @ cs"] a(2) C(1) k(2) by auto
  obtain tb where tb: "poke (fst t1 - 1) [41] (snd t1) = Some tb" "written (fst t1, tb) (vs @ [41]) 0"
    using replace_last [of t1 vs] a(3) C(2) by auto
  then have d: "peekn tb 0 (fst t1) = Some (vs @ [41])" by (auto simp: written_def peekn_def)
  obtain q2 where q2: "put_bytes ACC_VALUES (fst q1, qb) = Some q2" "written q2 (ACC_INSERT @ cs @ [41] @ ACC_VALUES) (length (vs @ [41]) + 1)"
    using put_written [OF qb(2)] C(2) by auto
  obtain q3 where q3: "put_bytes (vs @ [41]) q2 = Some q3" "written q3 (ACC_INSERT @ cs @ [41] @ ACC_VALUES @ vs @ [41]) 1"
    using put_written [OF q2(2)] by auto
  have st: "acc_statement u = ACC_INSERT @ cs @ [41] @ ACC_VALUES @ vs @ [41]" by (simp add: acc_statement_def cs_def vs_def)
  have "poke (fst q3) [0] (snd q3) = Some (acc_statement u @ [0])" using q3(2) unfolding st by (auto simp: written_def poke_def length_Suc_conv)
  then have "acc_query E l (length ?V) vals m = Some (acc_statement u @ [0], fold shm_free (filter (\<lambda>p. p \<noteq> NULL) (map fst vals)) m)"
    by (simp only: acc_query_def q(1) a(1) qb(1) tb(1) q2(1) d q3(1) Option.bind_lunit prod.case)
  moreover have "takeWhile (\<lambda>c. c \<noteq> 0) (xs @ [0]) = takeWhile (\<lambda>c. c \<noteq> 0) xs" for xs :: bytes by (induction xs) auto
  ultimately show ?thesis unfolding l_def by blast
qed

lemma acc_values_found:
  assumes "\<And>i. ok i"
  shows "\<exists>vals m'. acc_values ok msg cs m = (Some vals, m') \<and> length vals = length cs \<and>
    map (\<lambda>(p, v). if p = NULL then None else Some v) vals =
      map (\<lambda>code. map_option avp_data (AAAFindMatchingAVP (Some msg) NULL code vendorID AAA_FORWARD_SEARCH)) cs \<and>
    mset (shm_live m') = mset (filter (\<lambda>p. p \<noteq> NULL) (map fst vals)) + mset (shm_live m)"
proof (induction cs arbitrary: m)
  case (Cons c cs)
  show ?case
  proof (cases "AAAFindMatchingAVP (Some msg) NULL c vendorID AAA_FORWARD_SEARCH")
    case None
    then show ?thesis using Cons.IH [of m] by auto
  next
    case (Some avp)
    let ?m = "m\<lparr>shm_calls := Suc (shm_calls m), shm_live := Suc (shm_calls m) # shm_live m\<rparr>"
    have "shm_malloc ok m = (Suc (shm_calls m), ?m)" using assms by (simp add: shm_malloc_def Let_def)
    moreover obtain vals m' where "acc_values ok msg cs ?m = (Some vals, m')" "length vals = length cs"
      "map (\<lambda>(p, v). if p = NULL then None else Some v) vals =
        map (\<lambda>code. map_option avp_data (AAAFindMatchingAVP (Some msg) NULL code vendorID AAA_FORWARD_SEARCH)) cs"
      "mset (shm_live m') = mset (filter (\<lambda>p. p \<noteq> NULL) (map fst vals)) + mset (shm_live ?m)" using Cons.IH [of ?m] by auto
    ultimately show ?thesis using Some by simp
  qed
qed simp

lemma acc_used_row:
  "acc_used cs vals = List.map_filter (\<lambda>(c, x). map_option (Pair (asc c)) x) (zip cs (map (\<lambda>(p, v). if p = NULL then None else Some v) vals))"
proof (induction cs arbitrary: vals)
  case (Cons c cs)
  then show ?case by (cases vals) (auto simp: map_filter_simps acc_used_def)
qed (simp add: map_filter_simps)

lemma acc_counts:
  "sum_list (map (\<lambda>(c, p, v). length c + 1) (filter (\<lambda>(c, p, v). p \<noteq> NULL) (zip cs vals))) = length (concat (col_parts (acc_used cs vals)))"
  "sum_list (map (\<lambda>(c, p, v). length v + 3) (filter (\<lambda>(c, p, v). p \<noteq> NULL) (zip cs vals))) = length (concat (val_parts (acc_used cs vals)))"
  by (induction cs vals rule: list_induct2') (auto simp: acc_used_def map_filter_simps)

lemma fold_free: "mset (shm_live (fold shm_free ps m)) = mset (shm_live m) - mset ps"
  by (induction ps arbitrary: m) (simp_all add: shm_free_def)

lemma date_value:
  assumes "length (au_mem E 20) = 20" and "length (au_date E) = 19" and "0 \<notin> set (au_date E)"
  shows "\<exists>d. poke 0 (au_date E @ [0]) (au_mem E 20) = Some d \<and> takeWhile (\<lambda>c. c \<noteq> 0) d = au_date E"
proof -
  have "takeWhile (\<lambda>c. c \<noteq> 0) (xs @ 0 # ys) = xs" if "0 \<notin> set xs" for xs ys :: bytes
    using that by (induction xs) auto
  then show ?thesis using assms by (auto simp: poke_def)
qed

lemma col_count: "length avpname + 1 = length acc_col"
  by code_simp

lemma acc_used_last: "length vals = length avpname \<Longrightarrow> p \<noteq> NULL \<Longrightarrow> acc_used acc_col (vals @ [(p, v)]) \<noteq> []"
proof -
  assume l: "length vals = length avpname" and p: "p \<noteq> NULL"
  obtain cs c where c: "acc_col = cs @ [c]" "length cs = length vals"
    using col_count l by (metis Suc_eq_plus1 append_butlast_last_id length_append_singleton length_0_conv add_is_0 one_neq_zero nat.inject)
  then show ?thesis using p unfolding acc_used_def map_filter_def c(1) by simp
qed


definition sample_acc_msg :: AAAMessage where
  "sample_acc_msg = (zero_msg 1)\<lparr>commandCode := 271, avpList := [sample_auth_avp 2 553 (asc ''BYE''), sample_auth_avp 3 560 (asc ''a@b'')]\<rparr>"


section \<open>Groups\<close>

text \<open>
  A user is in a group when the database has a row for both. A request with a user and without a
  group makes the code follow a null pointer.
\<close>

lemma check_group_found:
  assumes "auth_env_ok E" and "\<And>i. ok i" and "au_sql E (snd s) (query_text GROUP_SELECT (avp_data a) GROUP_SELECTC (avp_data g)) = Sql_rows l"
    and "AAAFindMatchingAVP (Some msg) NULL AVP_User_Name vendorID AAA_FORWARD_SEARCH = Some a"
    and "AAAFindMatchingAVP (Some msg) NULL AVP_User_Group vendorID AAA_FORWARD_SEARCH = Some g"
  shows "check_group E ok msg s = Some (if l = [] then NOT_USER_IN else USER_IN, snd (shm_malloc ok (fst s)),
    snd s @ [query_text GROUP_SELECT (avp_data a) GROUP_SELECTC (avp_data g)])"
proof -
  obtain q where q: "two_arg_query E GROUP_SELECT (avp_data a) GROUP_SELECTC (avp_data g) = Some q"
    "takeWhile (\<lambda>c. c \<noteq> 0) q = query_text GROUP_SELECT (avp_data a) GROUP_SELECTC (avp_data g)"
    using two_arg_query_text assms(1) unfolding auth_env_ok_def by metis
  show ?thesis
    using assms q by (cases l) (simp_all add: check_group_def query_rows_def mysql_query_def shm_malloc_def Let_def auth_env_ok_def)
qed

lemma check_group_no_group:
  assumes "AAAFindMatchingAVP (Some msg) NULL AVP_User_Name vendorID AAA_FORWARD_SEARCH = Some a"
    and "AAAFindMatchingAVP (Some msg) NULL AVP_User_Group vendorID AAA_FORWARD_SEARCH = None"
  shows "check_group E ok msg s = None"
  using assms by (simp add: check_group_def)

end
