(* ===== verification/Sip_Auth.thy ===== *)
theory Sip_Auth
  imports Sip_Db Error_Reply
begin

text \<open>
  The module of the server that serves SIP requests (server/modules/sipauth/sipauth.c): a request is
  answered with the verdict of db.c, and a client that has not yet proved its password gets a
  challenge. The module works on the node of Sender and keeps the list of the queries sent to the
  database. The value None stands for undefined behaviour.
\<close>

section \<open>Starting and stopping\<close>

text \<open>\<open>rand\<close> gives numbers below \<open>RAND_MAX + 1 = 2 ^ 31\<close>; the product and the quotient are exact in doubles.\<close>

definition random_char :: "nat \<Rightarrow> u8" where
  "random_char r = of_nat (32 + 95 * r div 2 ^ 31)"

definition RAND_SECRET_LEN :: nat where
  "RAND_SECRET_LEN = 32"

definition generate_random_secret :: "(nat \<Rightarrow> bool) \<Rightarrow> (nat \<Rightarrow> nat) \<Rightarrow> shm \<Rightarrow> int \<times> bytes option \<times> shm" where
  "generate_random_secret ok rand m =
     (let (p, m) = shm_malloc ok m
      in if p = NULL then (- 1, None, m) else (0, Some (map (\<lambda>i. random_char (rand i)) [0..<RAND_SECRET_LEN]), m))"

text \<open>The result, the secret and the connection. \<open>connect\<close> tells whether \<open>mysql_real_connect\<close> succeeds.\<close>

abbreviation (input) AAA_ERR_NOT_INITIALIZED :: int where "AAA_ERR_NOT_INITIALIZED \<equiv> 13"

definition init_db_connection :: "bool \<Rightarrow> int \<times> bool" where
  "init_db_connection connect = (if connect then (AAA_ERR_SUCCESS, True) else (AAA_ERR_NOT_INITIALIZED, False))"

definition mod_init :: "(nat \<Rightarrow> bool) \<Rightarrow> (nat \<Rightarrow> nat) \<Rightarrow> bool \<Rightarrow> bytes option \<Rightarrow> shm \<Rightarrow> int \<times> bytes option \<times> bool \<times> shm" where
  "mod_init ok rand connect sec_param m =
     (let (r, secret, m) = (case sec_param of
            None \<Rightarrow> generate_random_secret ok rand m
          | Some s \<Rightarrow> (0, Some s, m))
      in if r < 0 then (- 1, secret, False, m)
         else let (r, mysql) = init_db_connection connect
           in if r \<noteq> AAA_ERR_SUCCESS then (- 1, secret, mysql, m) else (0, secret, mysql, m))"

definition mod_tout :: "ptr \<Rightarrow> node \<Rightarrow> (int \<times> node) option" where
  "mod_tout sid n = do { (_, n) \<leftarrow> on_sessions (AAAEndSession sid) n; Some (1, n) }"

text \<open>A random secret has 32 printable characters.\<close>

lemma random_secret_printable:
  assumes "\<And>i. rand i < 2 ^ 31" and "generate_random_secret ok rand m = (0, Some s, m')"
  shows "length s = RAND_SECRET_LEN \<and> (\<forall>c \<in> set s. 32 \<le> unat c \<and> unat c \<le> 126)"
proof -
  have "32 \<le> unat (random_char r) \<and> unat (random_char r) \<le> 126" if "r < 2 ^ 31" for r
  proof -
    have "95 * r div 2 ^ 31 \<le> 94" using that by simp
    then have "unat (random_char r) = 32 + 95 * r div 2 ^ 31" unfolding random_char_def unat_of_nat by (simp add: take_bit_eq_mod)
    then show ?thesis using \<open>95 * r div 2 ^ 31 \<le> 94\<close> by simp
  qed
  then show ?thesis using assms by (auto simp: generate_random_secret_def Let_def split: prod.splits if_splits)
qed

section \<open>Serving a request\<close>

abbreviation (input) AAA_APP_NASREQ :: u32 where "AAA_APP_NASREQ \<equiv> 1"
abbreviation (input) AAA_AUTHENTICATION_REJECTED :: u32 where "AAA_AUTHENTICATION_REJECTED \<equiv> 4001"
abbreviation (input) AAA_AUTHORIZATION_REJECTED :: u32 where "AAA_AUTHORIZATION_REJECTED \<equiv> 5003"
abbreviation (input) SIP_AUTH_SERVICE :: u8 where "SIP_AUTH_SERVICE \<equiv> 54"
abbreviation (input) SIP_GROUP_SERVICE :: u8 where "SIP_GROUP_SERVICE \<equiv> 56"
abbreviation (input) SIP_ACC_SERVICE :: u8 where "SIP_ACC_SERVICE \<equiv> 57"

text \<open>How the handler goes on: send the answer, jump to \<open>error\<close>, or return with the answer left alone.\<close>

datatype served = Send AAAMessage | Fail AAAMessage | Leave int

definition set_code :: "AAAMessage \<Rightarrow> u32 \<Rightarrow> served option" where
  "set_code ans code = do {
     (r, ans) \<leftarrow> AAASetMessageResultCode ans code;
     Some (if r \<noteq> AAA_ERR_SUCCESS then Fail ans else Send ans)
   }"

text \<open>The challenge: the text is a block of its own, which the AVP owns; it is lost when no AVP can be made.\<close>

definition add_challenge :: "auth_env \<Rightarrow> (nat \<Rightarrow> bool) \<Rightarrow> AAAMessage \<Rightarrow> AAAMessage \<Rightarrow> bool \<Rightarrow> shm \<Rightarrow> (served \<times> shm) option" where
  "add_challenge E ok msg ans stale m = do {
     realm \<leftarrow> avp_data_at msg (dest_realm msg);
     let (p, m) = shm_malloc ok m;
     ch \<leftarrow> build_challenge (au_ctx E 3) (p \<noteq> NULL) (au_mem E) (au_later E) (nonce_expire E) (au_secret E) stale realm (au_qop E);
     case ch of
       None \<Rightarrow> Some (Fail ans, m)
     | Some challenge \<Rightarrow>
         (case AAACreateAVP ok AVP_Chalenge 0 0 p (takeWhile (\<lambda>c. c \<noteq> 0) challenge) AVP_FREE_DATA m of
            (None, m) \<Rightarrow> Some (Fail ans, m)
          | (Some avp, m) \<Rightarrow>
              (case AAAAddAVPToMessage (Some ans) (Some avp) (avp_ptr (AAAGetLastAVP (avpList ans))) of
                 (r, Some ans') \<Rightarrow>
                   if r \<noteq> AAA_ERR_SUCCESS then Some (Fail ans', snd (AAAFreeAVP (Some avp) m)) else Some (Send ans', m)
               | (r, None) \<Rightarrow> None))
   }"

definition serve_auth :: "auth_env \<Rightarrow> (nat \<Rightarrow> bool) \<Rightarrow> AAAMessage \<Rightarrow> AAAMessage \<Rightarrow> db_state \<Rightarrow> (served \<times> db_state) option" where
  "serve_auth E ok msg ans s = do {
     (ret, m, qs) \<leftarrow> do_auth E ok msg s;
     if ret = AUTHORIZED then do { r \<leftarrow> set_code ans AAA_SUCCESS; Some (r, m, qs) }
     else if ret = NOT_AUTHORIZED \<or> ret = NONCE_STALE then do {
       r \<leftarrow> set_code ans AAA_AUTHENTICATION_REJECTED;
       case r of
         Send ans \<Rightarrow> do { (r, m) \<leftarrow> add_challenge E ok msg ans (ret = NONCE_STALE) m; Some (r, m, qs) }
       | _ \<Rightarrow> Some (r, m, qs)
     }
     else if ret = REJECTED then do { r \<leftarrow> set_code ans AAA_AUTHORIZATION_REJECTED; Some (r, m, qs) }
     else if ret = MYSQL_ERROR then do { _ \<leftarrow> set_code ans AAA_AUTHORIZATION_REJECTED; Some (Leave (- 1), m, qs) }
     else Some (Send ans, m, qs)
   }"

text \<open>The services other than authentication answer success or 4001.\<close>

definition serve :: "auth_env \<Rightarrow> (nat \<Rightarrow> bool) \<Rightarrow> u8 \<Rightarrow> AAAMessage \<Rightarrow> AAAMessage \<Rightarrow> db_state \<Rightarrow> (served \<times> db_state) option" where
  "serve E ok service msg ans s =
     (if service = SIP_AUTH_SERVICE then serve_auth E ok msg ans s
      else if service = SIP_GROUP_SERVICE then do {
        (ret, s) \<leftarrow> check_group E ok msg s;
        r \<leftarrow> set_code ans (if ret = USER_IN then AAA_SUCCESS else AAA_AUTHENTICATION_REJECTED);
        Some (r, s)
      }
      else if service = SIP_ACC_SERVICE then do {
        (ret, s) \<leftarrow> do_acc E ok msg s;
        r \<leftarrow> set_code ans (if ret = AAA_ERR_SUCCESS then AAA_SUCCESS else AAA_AUTHENTICATION_REJECTED);
        Some (r, s)
      }
      else Some (Leave 1, s))"

text \<open>The session id of the request, as the worker thread has set it.\<close>

definition session_str :: "AAAMessage \<Rightarrow> (ptr \<times> ptr \<times> bytes) option option" where
  "session_str msg =
     (if sId msg = NULL then Some None
      else map_option (\<lambda>a. Some (avp_addr a, avp_data_s a, avp_data a)) (find (\<lambda>a. avp_addr a = sId msg) (avpList msg)))"

definition mod_msg :: "auth_env \<Rightarrow> node_env \<Rightarrow> AAAMessage \<Rightarrow> node \<times> bytes list \<Rightarrow> (int \<times> node \<times> bytes list) option" where
  "mod_msg E e msg x =
     (if \<not> is_req msg then Some (1, x)
      else if commandCode msg \<notin> {265, 271} then Some (1, x)
      else do {
        let n = fst x;
        sid \<leftarrow> session_str msg;
        (ans, m) \<leftarrow> AAANewMessage (env_ok (ne_peer e)) (ne_identity_s e, cfg_identity (env_cfg (ne_peer e)))
          (ne_realm_s e, cfg_realm (env_cfg (ne_peer e))) (commandCode msg) AAA_APP_NASREQ sid (Some msg) (nd_shm n);
        let n = set_shm m n;
        case ans of
          None \<Rightarrow> Some (- 1, n, snd x)
        | Some ans \<Rightarrow>
            (case AAAFindMatchingAVP (Some msg) NULL AVP_Service_Type vendorID AAA_FORWARD_SEARCH of
               None \<Rightarrow> Some (1, n, snd x)
             | Some avp \<Rightarrow> do {
                 service \<leftarrow> peek (avp_data avp) 0;
                 (r, m, qs) \<leftarrow> serve E (env_ok (ne_peer e)) service msg ans (nd_shm n, snd x);
                 let n = set_shm m n;
                 case r of
                   Send ans \<Rightarrow> do {
                     (_, ans, n) \<leftarrow> AAASendMessage e (Some ans) n;
                     Some (1, free_message ans n, qs)
                   }
                 | Fail ans \<Rightarrow> Some (- 1, free_message ans n, qs)
                 | Leave r \<Rightarrow> Some (r, n, qs)
               })
      })"

section \<open>The answer that is sent\<close>

text \<open>The blocks of a message without buffer.\<close>

definition avp_blocks :: "AAA_AVP \<Rightarrow> ptr list" where
  "avp_blocks a = (if free_it a \<and> avp_data_s a \<noteq> NULL then [avp_data_s a] else []) @ [avp_addr a]"

definition msg_blocks :: "AAAMessage \<Rightarrow> ptr list" where
  "msg_blocks g = concat (map avp_blocks (avpList g)) @ [msg_addr g]"

lemma free_avp_mset: "mset (shm_live (snd (AAAFreeAVP (Some a) m))) = mset (shm_live m) - mset (avp_blocks a)"
  by (simp add: AAAFreeAVP_def Let_def shm_free_def avp_blocks_def)

lemma free_avps_mset: "mset (shm_live (fold (\<lambda>a m. snd (AAAFreeAVP (Some a) m)) l m)) = mset (shm_live m) - mset (concat (map avp_blocks l))"
  by (induction l arbitrary: m) (simp_all add: free_avp_mset)

lemma free_message_mset:
  "buf_s g = NULL \<Longrightarrow> mset (shm_live (nd_shm (free_message g n))) = mset (shm_live (nd_shm n)) - mset (msg_blocks g)"
  by (simp add: free_message_def AAAFreeMessage_def Let_def shm_free_def free_avps_mset msg_blocks_def nd_shm_def set_shm_def)

lemma free_message_peers: "pw_writes (nd_pw (free_message g n)) = pw_writes (nd_pw n)" "nd_sw (free_message g n) = nd_sw n"
  by (simp_all add: free_message_def set_shm_def)

text \<open>Codes and data of the AVPs of an answer, and the answer itself with its blocks after \<open>k\<close>.\<close>

definition sip_avps :: "node_env \<Rightarrow> AAA_AVP \<Rightarrow> u32 \<Rightarrow> bytes option \<Rightarrow> (u32 \<times> bytes) list" where
  "sip_avps e sid code ch = [(AVP_Session_Id, avp_data sid), (AVP_Result_Code, be32 code), (AVP_Origin_Host, cfg_identity (env_cfg (ne_peer e))),
     (AVP_Origin_Realm, cfg_realm (env_cfg (ne_peer e)))] @ (case ch of None \<Rightarrow> [] | Some c \<Rightarrow> [(AVP_Chalenge, c)])"

definition avps_len :: "(u32 \<times> bytes) list \<Rightarrow> nat" where
  "avps_len l = 20 + sum_list (map (\<lambda>(c, d). 8 + pad_len (length d)) l)"

definition chal_avp :: "ptr \<Rightarrow> ptr \<Rightarrow> bytes \<Rightarrow> AAA_AVP" where
  "chal_avp a p c = \<lparr>avp_addr = a, packetType = AAA_DIAMETER, avp_code = AVP_Chalenge, avp_flags = 0, avp_type = AAA_AVP_DATA_TYPE,
     avp_vendorId = 0, avp_data_s = p, avp_data = c, free_it = True\<rparr>"

definition sip_answer :: "node_env \<Rightarrow> AAAMessage \<Rightarrow> AAA_AVP \<Rightarrow> u32 \<Rightarrow> nat \<Rightarrow> (ptr \<times> bytes) option \<Rightarrow> AAAMessage" where
  "sip_answer e msg sid code k ch = (let g = error_answer e msg sid code k in
     case ch of None \<Rightarrow> g | Some (p, c) \<Rightarrow> g\<lparr>avpList := avpList g @ [chal_avp (Suc p) p c]\<rparr>)"

lemma sip_answer_fields:
  "map (\<lambda>a. (avp_code a, avp_data a)) (avpList (sip_answer e msg sid code k ch)) = sip_avps e sid code (map_option snd ch)"
  "msg_len (avpList (sip_answer e msg sid code k ch)) = avps_len (sip_avps e sid code (map_option snd ch))"
  "commandCode (sip_answer e msg sid code k ch) = commandCode msg" "applicationId (sip_answer e msg sid code k ch) = applicationId msg"
  "in_peer (sip_answer e msg sid code k ch) = in_peer msg" "hopbyhopId (sip_answer e msg sid code k ch) = hopbyhopId msg"
  "endtoendId (sip_answer e msg sid code k ch) = endtoendId msg" "buf_s (sip_answer e msg sid code k ch) = NULL"
  "msg_buf (sip_answer e msg sid code k ch) = []" "\<not> is_req (sip_answer e msg sid code k ch)"
proof -
  have fl: "(x AND 0x40) AND 0x80 = 0" for x :: u8 by (simp add: and.assoc)
  note defs = sip_answer_def error_answer_def plain_avp_def chal_avp_def
  show "\<not> is_req (sip_answer e msg sid code k ch)" using fl by (cases ch) (auto simp: defs is_req_def)
  show "msg_len (avpList (sip_answer e msg sid code k ch)) = avps_len (sip_avps e sid code (map_option snd ch))"
    by (cases ch) (auto simp: defs msg_len_def AAA_MSG_HDR_SIZE_def AVP_HDR_SIZE_def avps_len_def sip_avps_def)
  show "map (\<lambda>a. (avp_code a, avp_data a)) (avpList (sip_answer e msg sid code k ch)) = sip_avps e sid code (map_option snd ch)"
    by (cases ch) (auto simp: defs sip_avps_def)
qed (cases ch; auto simp: sip_answer_def error_answer_def)+

lemma sip_answer_blocks:
  "mset (msg_blocks (sip_answer e msg sid code k ch)) = mset (blocks k) + (case ch of None \<Rightarrow> {#} | Some (p, c) \<Rightarrow> if p = NULL then {#Suc p#} else {#p, Suc p#})"
  by (cases ch) (auto simp: sip_answer_def error_answer_def plain_avp_def chal_avp_def msg_blocks_def avp_blocks_def)

lemma set_code_answer: "set_code (error_answer e msg sid c k) code = Some (Send (error_answer e msg sid code k))"
  by (simp add: set_code_def answer_code)

lemma challenge_no_null: "0 \<notin> set realm \<Longrightarrow> 0 \<notin> set (challenge_text realm (nonce_text t secret) (challenge_options stale qop))"
proof -
  assume "0 \<notin> set realm"
  moreover have "0 \<notin> set DIGEST_REALM" "0 \<notin> set DIGEST_NONCE" "0 \<notin> set CRLF" "0 \<notin> set QOP_AUTH_PARAM" "0 \<notin> set QOP_AUTHINT_PARAM" "0 \<notin> set STALE_PARAM"
    by code_simp+
  ultimately show ?thesis by (auto simp: challenge_text_def challenge_options_def nonce_text_def hex_no_quote)
qed

definition new_challenge :: "auth_env \<Rightarrow> bytes \<Rightarrow> bool \<Rightarrow> bytes" where
  "new_challenge E realm stale = challenge_text realm (nonce_text (au_later E + nonce_expire E) (au_secret E)) (challenge_options stale (au_qop E))"

lemma add_challenge_sent:
  fixes e msg sid k m realm stale
  defines "ans \<equiv> error_answer e msg sid AAA_AUTHENTICATION_REJECTED k" and "p \<equiv> Suc (shm_calls m)"
  assumes E: "auth_env_ok E" and ok: "\<And>i. ok i" and realm: "avp_data_at msg (dest_realm msg) = Some realm" "0 \<notin> set realm"
  shows "add_challenge E ok msg ans stale m =
    Some (Send (sip_answer e msg sid AAA_AUTHENTICATION_REJECTED k (Some (p, new_challenge E realm stale))),
      m\<lparr>shm_calls := Suc p, shm_live := Suc p # p # shm_live m\<rparr>)"
proof -
  let ?c = "new_challenge E realm stale"
  have ch: "build_challenge (au_ctx E 3) True (au_mem E) (au_later E) (nonce_expire E) (au_secret E) stale realm (au_qop E) = Some (Some (?c @ [0]))"
    unfolding new_challenge_def by (rule build_challenge_text) (use E in \<open>auto simp: auth_env_ok_def\<close>)
  have "takeWhile (\<lambda>c. c \<noteq> 0) (xs @ [0]) = xs" if "0 \<notin> set xs" for xs :: bytes using that by (induction xs) auto
  then have tw: "takeWhile (\<lambda>c. c \<noteq> 0) (?c @ [0]) = ?c" using challenge_no_null [OF realm(2)] by (simp add: new_challenge_def)
  have ne: "?c \<noteq> []" by (simp add: new_challenge_def challenge_text_def DIGEST_REALM_def)
  have cr: "AAACreateAVP ok AVP_Chalenge 0 0 p ?c AVP_FREE_DATA (m\<lparr>shm_calls := p, shm_live := p # shm_live m\<rparr>) =
      (Some (chal_avp (Suc p) p ?c), m\<lparr>shm_calls := Suc p, shm_live := Suc p # p # shm_live m\<rparr>)"
    using ok ne by (simp add: AAACreateAVP_def shm_malloc_def Let_def set_avp_fields_def chal_avp_def p_def)
  have add: "AAAAddAVPToMessage (Some ans) (Some (chal_avp (Suc p) p ?c)) (avp_ptr (AAAGetLastAVP (avpList ans))) =
      (AAA_ERR_SUCCESS, Some (sip_answer e msg sid AAA_AUTHENTICATION_REJECTED k (Some (p, ?c))))"
    by (simp add: AAAAddAVPToMessage_def ans_def error_answer_def plain_avp_def chal_avp_def sip_answer_def set_shortcut_def AAAGetLastAVP_def avp_ptr_def)
  have al: "shm_malloc ok m = (p, m\<lparr>shm_calls := p, shm_live := p # shm_live m\<rparr>)" "0 < p" using ok by (simp_all add: shm_malloc_def Let_def p_def)
  show ?thesis by (simp add: add_challenge_def realm(1) al ch tw cr add)
qed

text \<open>The verdict on a request, the result code and the challenge that belong to it.\<close>

definition sip_verdict :: "auth_env \<Rightarrow> bytes \<Rightarrow> cred_param list \<Rightarrow> bytes option \<Rightarrow> int" where
  "sip_verdict E method qs row =
     (if \<nexists>t. own_nonce E qs t then NOT_AUTHORIZED
      else if \<exists>t. own_nonce E qs t \<and> t <s au_now E then NONCE_STALE
      else case row of None \<Rightarrow> REJECTED | Some w \<Rightarrow> if good_response E method qs w then AUTHORIZED else NOT_AUTHORIZED)"

definition verdict_code :: "int \<Rightarrow> u32" where
  "verdict_code v = (if v = AUTHORIZED then AAA_SUCCESS else if v = REJECTED then AAA_AUTHORIZATION_REJECTED else AAA_AUTHENTICATION_REJECTED)"

definition verdict_challenge :: "auth_env \<Rightarrow> bytes \<Rightarrow> int \<Rightarrow> bytes option" where
  "verdict_challenge E realm v = (if v = NOT_AUTHORIZED \<or> v = NONCE_STALE then Some (new_challenge E realm (v = NONCE_STALE)) else None)"

text \<open>The number of blocks that are lost: the query and the password.\<close>

definition lost_blocks :: "auth_env \<Rightarrow> cred_param list \<Rightarrow> bytes option \<Rightarrow> nat" where
  "lost_blocks E qs row = (if \<exists>t. own_nonce E qs t \<and> \<not> t <s au_now E then if computeHA1 E \<and> row \<noteq> None then 2 else 1 else 0)"

abbreviation (input) bounded :: "shm \<Rightarrow> bool" where "bounded m \<equiv> \<forall>x \<in> set (shm_live m). x \<le> shm_calls m"

lemma malloc_bounded: "bounded m \<Longrightarrow> bounded (snd (shm_malloc ok m))"
  by (auto simp: shm_malloc_def Let_def le_SucI)

lemma do_auth_verdict:
  assumes E: "auth_env_ok E" and ok: "\<And>i. ok i" and cr: "has_creds msg avp qs" and row: "passwd_row E h qs row"
    and mt: "AAAFindMatchingAVP (Some msg) NULL AVP_Method vendorID AAA_FORWARD_SEARCH = Some mt" "length (avp_data mt) < 2 ^ 32"
    and m: "bounded m"
  shows "\<exists>m' h' lost. do_auth E ok msg (m, h) = Some (sip_verdict E (avp_data mt) qs row, m', h') \<and> bounded m' \<and>
    shm_live m' = lost @ shm_live m \<and> length lost = lost_blocks E qs row"
proof (cases "\<exists>t. own_nonce E qs t")
  case False
  then show ?thesis
    using do_auth_text(1) [where ok = ok and s = "(m, h)", OF E ok cr _ mt] row m by (auto simp: sip_verdict_def lost_blocks_def)
next
  case True
  then obtain t where t: "own_nonce E qs t" by blast
  then have u: "own_nonce E qs t' \<longleftrightarrow> t' = t" for t' using own_nonce_unique by blast
  have row': "passwd_row E (snd (m, h)) qs row" using row by simp
  note d = do_auth_text(2) [where ok = ok, OF E ok cr row' mt t]
  show ?thesis
  proof (cases "t <s au_now E")
    case True
    then show ?thesis using d m by (auto simp: sip_verdict_def lost_blocks_def u)
  next
    case False
    obtain m2 h2 where a: "asked E ok qs row (m, h) = (m2, h2)" by fastforce
    then have "m2 = fst (asked E ok qs row (m, h))" by simp
    then have "bounded m2" using malloc_bounded [OF m] malloc_bounded [OF malloc_bounded [OF m]] by (simp add: asked_def)
    moreover obtain l where "shm_live m2 = l @ shm_live m" "length l = (if two_blocks E row then 2 else 1)"
      using asked_live [where ok = ok, OF ok, of E qs row "(m, h)"] a by auto
    moreover have "do_auth E ok msg (m, h) = Some (sip_verdict E (avp_data mt) qs row, m2, h2)"
      using d False a by (simp add: sip_verdict_def u)
    ultimately show ?thesis
      by (intro exI [of _ m2] exI [of _ h2] exI [of _ l]) (use False in \<open>simp add: lost_blocks_def u two_blocks_def\<close>)
  qed
qed

lemma serve_auth_sent:
  fixes e msg sid k m' v realm E
  defines "p \<equiv> Suc (shm_calls m')" and "c \<equiv> verdict_challenge E realm v"
  assumes d: "do_auth E ok msg s = Some (v, m', h')" and v: "v \<in> {AUTHORIZED, NOT_AUTHORIZED, REJECTED, NONCE_STALE}"
    and E: "auth_env_ok E" and ok: "\<And>i. ok i" and realm: "avp_data_at msg (dest_realm msg) = Some realm" "0 \<notin> set realm" and b: "bounded m'"
  shows "\<exists>m. serve_auth E ok msg (error_answer e msg sid AAA_SUCCESS k) s =
      Some (Send (sip_answer e msg sid (verdict_code v) k (map_option (Pair p) c)), m, h') \<and> bounded m \<and>
    mset (shm_live m) = mset (shm_live m') + (if c = None then {#} else {#p, Suc p#})"
proof (cases "v = NOT_AUTHORIZED \<or> v = NONCE_STALE")
  case True
  have b': "bounded (m'\<lparr>shm_calls := Suc p, shm_live := Suc p # p # shm_live m'\<rparr>)" using b by (auto simp: p_def)
  have "serve_auth E ok msg (error_answer e msg sid AAA_SUCCESS k) s =
      Some (Send (sip_answer e msg sid (verdict_code v) k (map_option (Pair p) c)), m'\<lparr>shm_calls := Suc p, shm_live := Suc p # p # shm_live m'\<rparr>, h')"
    using True add_challenge_sent [where ok = ok, OF E ok realm, of e sid k "v = NONCE_STALE" m']
    by (auto simp: serve_auth_def d set_code_answer verdict_code_def c_def verdict_challenge_def p_def)
  moreover have "c \<noteq> None" using True by (simp add: c_def verdict_challenge_def)
  ultimately show ?thesis using b' by (intro exI [of _ "m'\<lparr>shm_calls := Suc p, shm_live := Suc p # p # shm_live m'\<rparr>"]) simp
next
  case False
  then have "serve_auth E ok msg (error_answer e msg sid AAA_SUCCESS k) s = Some (Send (sip_answer e msg sid (verdict_code v) k None), m', h')"
    using v by (auto simp: serve_auth_def d set_code_answer verdict_code_def sip_answer_def)
  moreover have "c = None" using False by (simp add: c_def verdict_challenge_def)
  ultimately show ?thesis using b by simp
qed

text \<open>What the node must be for a request to be answered, apart from the decision.\<close>

definition sip_request :: "node_env \<Rightarrow> AAAMessage \<Rightarrow> AAA_AVP \<Rightarrow> bytes \<Rightarrow> u8 \<Rightarrow> node \<Rightarrow> bool" where
  "sip_request e msg sid realm service n \<longleftrightarrow> answerable e msg sid \<and> my_aaa_status e = AAA_SERVER \<and> in_peer msg \<noteq> NULL \<and>
     ready (in_peer msg) (nd_pw n) \<and> shm_wf (nd_shm n) \<and> is_req msg \<and> commandCode msg = 265 \<and> applicationId msg = AAA_APP_NASREQ \<and>
     sId msg = msg_sessionId msg \<and> avp_data_at msg (dest_realm msg) = Some realm \<and> 0 \<notin> set realm \<and>
     (\<exists>a r. AAAFindMatchingAVP (Some msg) NULL AVP_Service_Type vendorID AAA_FORWARD_SEARCH = Some a \<and> avp_data a = service # r)"

lemma mod_msg_sent:
  fixes e msg sid n h code ch E
  defines "k \<equiv> shm_calls (nd_shm n)"
  defines "g \<equiv> sip_answer e msg sid code k ch"
  assumes rq: "sip_request e msg sid realm service n"
    and sv: "serve E (env_ok (ne_peer e)) service msg (error_answer e msg sid AAA_SUCCESS k)
        (\<lparr>shm_calls = blk6 k, shm_live = blocks k @ shm_live (nd_shm n)\<rparr>, h) = Some (Send g, m, h')"
    and b: "bounded m" and l: "avps_len (sip_avps e sid code (map_option snd ch)) < 2 ^ 31"
    and wr: "env_write (ne_peer e) (pw_calls (nd_pw n)) = W_bytes (avps_len (sip_avps e sid code (map_option snd ch)))"
  shows "\<exists>n'. mod_msg E e msg (n, h) = Some (1, n', h') \<and>
    pw_writes (nd_pw n') = pw_writes (nd_pw n) @ [(p_sock (pw_peers (nd_pw n) (in_peer msg)), encode_msg g)] \<and>
    mset (shm_live (nd_shm n')) = mset (shm_live m) - mset (msg_blocks g)"
proof -
  have r: "answerable e msg sid" "my_aaa_status e = AAA_SERVER" "in_peer msg \<noteq> NULL" "ready (in_peer msg) (nd_pw n)" "is_req msg"
    "commandCode msg = 265" "applicationId msg = 1" "sId msg = msg_sessionId msg" "\<And>i. env_ok (ne_peer e) i"
    using rq by (auto simp: sip_request_def answerable_def)
  obtain a d where a: "AAAFindMatchingAVP (Some msg) NULL AVP_Service_Type vendorID AAA_FORWARD_SEARCH = Some a" "avp_data a = service # d"
    using rq by (auto simp: sip_request_def)
  have ss: "session_str msg = Some (Some (avp_addr sid, avp_data_s sid, avp_data sid))"
    using r(1,8) by (simp add: session_str_def answerable_def)
  note new = answer_made [OF r(1), of "nd_shm n", unfolded r(7) k_def [symmetric]]
  note gf = sip_answer_fields [of e msg sid code k ch, folded g_def]
  define n1 where "n1 = set_shm m (set_shm \<lparr>shm_calls = blk6 k, shm_live = blocks k @ shm_live (nd_shm n)\<rparr> n)"
  have n1: "nd_shm n1 = m" "pw_calls (nd_pw n1) = pw_calls (nd_pw n)" "pw_writes (nd_pw n1) = pw_writes (nd_pw n)"
    "pw_peers (nd_pw n1) = pw_peers (nd_pw n)" by (simp_all add: n1_def nd_shm_def set_shm_def)
  have le: "length (encode_msg g) = avps_len (sip_avps e sid code (map_option snd ch))" by (simp add: length_encode_msg gf(2))
  let ?n2 = "set_shm \<lparr>shm_calls = Suc (shm_calls m), shm_live = shm_live m\<rparr> (n1\<lparr>nd_pw := (nd_pw n1)\<lparr>pw_calls := Suc (pw_calls (nd_pw n1)),
      pw_writes := pw_writes (nd_pw n1) @ [(p_sock (pw_peers (nd_pw n1) (in_peer g)), encode_msg g)]\<rparr>\<rparr>)"
  have "AAASendMessage e (Some g) n1 = Some (AAA_ERR_SUCCESS, g, ?n2)"
    by (rule send_any_answer) (use r gf l wr le n1 b in \<open>auto simp: ready_def\<close>)
  then have "mod_msg E e msg (n, h) = Some (1, free_message g ?n2, h')"
    using r(5,6) ss new a sv n1_def by (simp add: mod_msg_def peek_def nd_shm_def set_shm_def)
  moreover have "mset (shm_live (nd_shm (free_message g ?n2))) = mset (shm_live m) - mset (msg_blocks g)"
    using free_message_mset [OF gf(8), of ?n2] by (simp add: nd_shm_def set_shm_def)
  moreover have "pw_writes (nd_pw (free_message g ?n2)) = pw_writes (nd_pw n) @ [(p_sock (pw_peers (nd_pw n) (in_peer msg)), encode_msg g)]"
    by (simp add: free_message_peers set_shm_def n1 gf)
  ultimately show ?thesis by blast
qed


text \<open>A request of a node that is connected as peer 7, with the credentials of the sample user.\<close>

definition sip_msg :: AAAMessage where
  "sip_msg = (zero_msg 501)\<lparr>msg_flags := 0x80, commandCode := 265, applicationId := 1, hopbyhopId := 9, endtoendId := 171, sId := 502,
     msg_sessionId := 502, dest_realm := 504, in_peer := 7,
     avpList := [plain_avp 502 263 AAA_AVP_STRING_TYPE 503 [115] False, plain_avp 504 283 AAA_AVP_STRING_TYPE 505 (asc ''x.org'') False,
       sample_auth_avp 506 404 [54], sample_auth_avp 507 403 (asc ''INVITE''),
       sample_auth_avp 508 401 (cred_text [] (asc ''Digest'') 32 [] sample_auth_params)]\<rparr>"

abbreviation (input) sip_sid :: AAA_AVP where "sip_sid \<equiv> plain_avp 502 263 AAA_AVP_STRING_TYPE 503 [115] False"

definition sip_env :: node_env where
  "sip_env = sample_node_env AAA_SERVER (\<lambda>_. W_bytes (avps_len (sip_avps (sample_node_env AAA_SERVER (\<lambda>_. W_error)) sip_sid AAA_SUCCESS None)))"

lemma sip_avps_env: "sip_avps sip_env sid c ch = sip_avps (sample_node_env AAA_SERVER (\<lambda>_. W_error)) sid c ch"
  by (simp add: sip_avps_def sip_env_def sample_node_env_def sample_env_def)

lemma sip_msg_finds:
  "AAAFindMatchingAVP (Some sip_msg) NULL 401 0 AAA_FORWARD_SEARCH = Some (sample_auth_avp 508 401 (cred_text [] (asc ''Digest'') 32 [] sample_auth_params))"
  "AAAFindMatchingAVP (Some sip_msg) NULL 403 0 AAA_FORWARD_SEARCH = Some (sample_auth_avp 507 403 (asc ''INVITE''))"
  "AAAFindMatchingAVP (Some sip_msg) NULL 404 0 AAA_FORWARD_SEARCH = Some (sample_auth_avp 506 404 [54])"
  by (simp_all add: AAAFindMatchingAVP_def sip_msg_def sample_auth_avp_def plain_avp_def)

lemma sip_msg_request: "sip_request sip_env sip_msg sip_sid (asc ''x.org'') SIP_AUTH_SERVICE \<lparr>nd_pw = sample_pair, nd_sw = sample_world\<rparr>"
proof -
  have "answerable sip_env sip_msg sip_sid"
    by (auto simp: answerable_def sip_env_def sample_node_env_def sample_env_def sample_config_def sip_msg_def plain_avp_def sample_auth_avp_def
        zero_msg_def msg_wf_def avps_wf_def shortcut_def)
  moreover have "my_aaa_status sip_env = AAA_SERVER" "in_peer sip_msg = 7" "is_req sip_msg" "commandCode sip_msg = 265" "applicationId sip_msg = 1"
    "sId sip_msg = msg_sessionId sip_msg" "avp_data_at sip_msg (dest_realm sip_msg) = Some (asc ''x.org'')"
    by (simp_all add: sip_env_def sample_node_env_def sip_msg_def is_req_def zero_msg_def avp_data_at_def plain_avp_def)
  moreover have "ready 7 (nd_pw \<lparr>nd_pw = sample_pair, nd_sw = sample_world\<rparr>)" by (simp add: ready_def sample_pair_def)
  moreover have "shm_wf (nd_shm \<lparr>nd_pw = sample_pair, nd_sw = sample_world\<rparr>)" by (simp add: nd_shm_def sample_pair_def shm_wf_def)
  moreover have "0 \<notin> set (asc ''x.org'')" by code_simp
  ultimately show ?thesis unfolding sip_request_def using sip_msg_finds(3) by (auto simp: sample_auth_avp_def)
qed


end
