(* ===== verification/Sip_Client.thy ===== *)
theory Sip_Client
  imports Client Tcp_Receive
begin

text \<open>
  The module of the client that serves a SIP server (client/modules/sipauth: sipauth.c and
  tcp\_socket.c): requests are read from the socket of the SIP server, get a session and are sent to
  the AAA server; the answer is to be written back to the socket. The contexts of sessions and what is
  written to the sockets are kept beside the node. The value None stands for undefined behaviour or a
  loop that does not end.
\<close>

section \<open>Reading a request\<close>

record rd_buf =
  rb_first_4bytes :: u32
  rb_buf_len :: u32
  rb_buf :: "ptr \<times> bytes"

definition reset_read_buffer :: rd_buf where
  "reset_read_buffer = \<lparr>rb_first_4bytes = 0, rb_buf_len = 0, rb_buf = (NULL, [])\<rparr>"

datatype conn = CONN_SUCCESS | CONN_ERROR | CONN_CLOSED

text \<open>\<open>recv\<close> writes at offset \<open>off\<close> into the four bytes of the length or into the buffer.\<close>

definition rb_store :: "nat \<Rightarrow> bytes \<Rightarrow> rd_buf \<Rightarrow> rd_buf option" where
  "rb_store off d p =
     (if fst (rb_buf p) = NULL then do {
        b \<leftarrow> poke off d (le32 (rb_first_4bytes p));
        v \<leftarrow> peek4le b 0;
        Some (p\<lparr>rb_first_4bytes := v\<rparr>)
      } else do {
        b \<leftarrow> poke off d (snd (rb_buf p));
        Some (p\<lparr>rb_buf := (fst (rb_buf p), b)\<rparr>)
      })"

definition rb_start :: "(nat \<Rightarrow> bool) \<Rightarrow> (nat \<Rightarrow> u8) \<Rightarrow> rd_buf \<Rightarrow> shm \<Rightarrow> (rd_buf option \<times> shm) option" where
  "rb_start ok junk p m = do {
     v \<leftarrow> peek4 (le32 (rb_first_4bytes p)) 0;
     let len = v AND 0x00ffffff;
     if len < of_nat AAA_MSG_HDR_SIZE \<or> MAX_AAA_MSG_SIZE < len then Some (None, m)
     else let (b, m) = shm_malloc ok m
       in if b = NULL then Some (None, m)
          else do {
            d \<leftarrow> poke 0 (le32 (rb_first_4bytes p)) (map junk [0..<unat len]);
            Some (Some (p\<lparr>rb_buf := (b, d), rb_buf_len := 4, rb_first_4bytes := len\<rparr>), m)
          }
   }"

text \<open>A socket that has nothing to read at the moment is an error like any other.\<close>

function (sequential) rb_loop :: "(nat \<Rightarrow> bool) \<Rightarrow> (nat \<Rightarrow> u8) \<Rightarrow> nat \<Rightarrow> u32 \<Rightarrow> socket \<Rightarrow> rd_buf \<Rightarrow> shm \<Rightarrow>
    (conn \<times> socket \<times> rd_buf \<times> shm) option" where
  "rb_loop ok junk off wanted s p m =
     (case recv (unat wanted) s of
        (R_again, s1) \<Rightarrow> Some (CONN_ERROR, s1, p, m)
      | (R_error, s1) \<Rightarrow> Some (CONN_ERROR, s1, p, m)
      | (R_bytes d, s1) \<Rightarrow>
          if d = [] then Some (CONN_CLOSED, s1, p, m)
          else case rb_store off d p of
            None \<Rightarrow> None
          | Some p \<Rightarrow>
              let p = p\<lparr>rb_buf_len := rb_buf_len p + of_nat (length d)\<rparr>
              in if of_nat (length d) < wanted
                 then rb_loop ok junk (off + length d) (wanted - of_nat (length d)) s1 p m
                 else if fst (rb_buf p) = NULL
                 then (case rb_start ok junk p m of
                         None \<Rightarrow> None
                       | Some (None, m) \<Rightarrow> Some (CONN_ERROR, s1, p, m)
                       | Some (Some p, m) \<Rightarrow> rb_loop ok junk (unat (rb_buf_len p)) (rb_first_4bytes p - rb_buf_len p) s1 p m)
                 else Some (CONN_SUCCESS, s1, p, m))"
  by pat_completeness auto
termination rb_loop
  by (relation "measure (\<lambda>(ok, junk, off, wanted, s, p, m). length (so_stream s))") (auto dest: recv_bytes(3) [OF sym])

declare rb_loop.simps [simp del]

definition sip_do_read :: "(nat \<Rightarrow> bool) \<Rightarrow> (nat \<Rightarrow> u8) \<Rightarrow> socket \<Rightarrow> rd_buf \<Rightarrow> shm \<Rightarrow> (conn \<times> socket \<times> rd_buf \<times> shm) option" where
  "sip_do_read ok junk s p m =
     rb_loop ok junk (unat (rb_buf_len p)) (if fst (rb_buf p) = NULL then 4 - rb_buf_len p else rb_first_4bytes p - rb_buf_len p) s p m"

section \<open>Handling a request\<close>

record ctx_entry =
  ctx_in_port :: int
  ctx_serviceType :: u8
  ctx_sip_msg_id :: u32

abbreviation (input) AVP_Auth_Application_Id :: u32 where "AVP_Auth_Application_Id \<equiv> 258"
abbreviation (input) AVP_Acct_Application_Id :: u32 where "AVP_Acct_Application_Id \<equiv> 259"
abbreviation (input) AVP_SIP_MSGID :: u32 where "AVP_SIP_MSGID \<equiv> 406"

text \<open>
  Four AVPs are put in front of the AVPs of the message, the last one is the first in the end.
  \<open>new_avp\<close> of Message\_Codec is the same sequence of calls. The literal \<open>APP_ID_1\<close> has the address 1.
\<close>

definition update_message :: "node_env \<Rightarrow> AAAMessage \<Rightarrow> ptr \<times> ptr \<times> bytes \<Rightarrow> bool \<Rightarrow> shm \<Rightarrow> bool \<times> AAAMessage \<times> shm" where
  "update_message e msg sid acc m =
     (let ok = env_ok (ne_peer e); cfg = env_cfg (ne_peer e);
          (r, msg, m) = new_avp ok AVP_Origin_Realm (ne_realm_s e) (cfg_realm cfg) AVP_DUPLICATE_DATA (\<lambda>_. NULL) msg m
      in if \<not> r then (False, msg, m) else
      let (r, msg, m) = new_avp ok AVP_Origin_Host (ne_identity_s e) (cfg_identity cfg) AVP_DUPLICATE_DATA (\<lambda>_. NULL) msg m
      in if \<not> r then (False, msg, m) else
      let (r, msg, m) = new_avp ok (if acc then AVP_Acct_Application_Id else AVP_Auth_Application_Id) 1 [49] AVP_DUPLICATE_DATA (\<lambda>_. NULL) msg m
      in if \<not> r then (False, msg, m) else
      let (r, msg, m) = new_avp ok AVP_Session_Id (fst (snd sid)) (snd (snd sid)) AVP_DUPLICATE_DATA (\<lambda>_. NULL) msg m
      in if \<not> r then (False, msg, m) else (True, msg\<lparr>sId := fst sid\<rparr>, m))"

text \<open>The node, the contexts of the sessions by their addresses and what was written to sockets of the SIP server.\<close>

record sip_client =
  sc_node :: node
  sc_ctx :: "ptr \<Rightarrow> ctx_entry option"
  sc_calls :: nat
  sc_writes :: "(int \<times> bytes) list"

definition start_session :: "node_env \<Rightarrow> u32 \<Rightarrow> ptr \<Rightarrow> ptr \<Rightarrow> node \<Rightarrow> (session option \<times> node) option" where
  "start_session e rnd appref context n = on_sessions (\<lambda>w. do {
     (r, ses, mgr, m) \<leftarrow> AAAStartSession (env_ok (ne_peer e)) rnd (cfg_identity (env_cfg (ne_peer e))) 1 appref context (sw_mgr w) (sw_shm w);
     let w = w\<lparr>sw_mgr := mgr, sw_shm := m\<rparr>;
     Some (case ses of
         None \<Rightarrow> (None, w)
       | Some x \<Rightarrow> (if r = AAA_ERR_SUCCESS then Some x else None, w\<lparr>sw_sessions := (sw_sessions w)(hl_addr (ses_linker x) \<mapsto> x)\<rparr>))
   }) n"

text \<open>
  The body of the loop of \<open>sipauth_worker\<close> for a message that was read completely: \<open>b\<close> is the buffer at the
  address \<open>src\<close>, \<open>i\<close> the socket. The labels \<open>error1\<close> and \<open>error\<close> are \<open>give_up\<close>. Neither the
  buffer nor, on success, the message is freed.
\<close>

definition give_up :: "ptr \<Rightarrow> AAAMessage \<Rightarrow> sip_client \<Rightarrow> sip_client" where
  "give_up ctx msg c =
     (let n = (if ctx = NULL then sc_node c else node_free ctx (sc_node c))
      in c\<lparr>sc_node := free_message msg n, sc_ctx := (sc_ctx c)(ctx := None)\<rparr>)"

definition serve_request :: "node_env \<Rightarrow> u32 \<Rightarrow> ptr \<Rightarrow> int \<Rightarrow> ptr \<Rightarrow> bytes \<Rightarrow> AAAMessage \<Rightarrow> sip_client \<Rightarrow> sip_client option" where
  "serve_request e rnd appref i src b msg c =
     (let (ctx, m) = shm_malloc (env_ok (ne_peer e)) (nd_shm (sc_node c));
          c = c\<lparr>sc_node := set_shm m (sc_node c)\<rparr>
      in if ctx = NULL then Some (give_up NULL msg c)
      else case AAAFindMatchingAVP (Some msg) NULL AVP_SIP_MSGID 0 AAA_FORWARD_SEARCH of
        None \<Rightarrow> Some (give_up ctx msg c)
      | Some a \<Rightarrow> do {
          id \<leftarrow> peek4le b (avp_data_s a - src);
          (case AAAFindMatchingAVP (Some msg) NULL 404 0 AAA_FORWARD_SEARCH of
             None \<Rightarrow> Some (give_up ctx msg c)
           | Some a \<Rightarrow> do {
               service \<leftarrow> peek (avp_data a) 0;
               let c = c\<lparr>sc_ctx := (sc_ctx c)(ctx \<mapsto> \<lparr>ctx_in_port = i, ctx_serviceType = service, ctx_sip_msg_id = id\<rparr>)\<rparr>;
               (ses, n) \<leftarrow> start_session e rnd appref ctx (sc_node c);
               let c = c\<lparr>sc_node := n\<rparr>;
               case ses of
                 None \<Rightarrow> Some (give_up ctx msg c)
               | Some x \<Rightarrow>
                   (let (r, msg, m) = update_message e msg (hl_addr (ses_linker x), ses_sID_s x, ses_sID x) (service = 57) (nd_shm n);
                        c = c\<lparr>sc_node := set_shm m n\<rparr>
                    in if \<not> r then Some (give_up ctx msg c)
                       else do {
                         (r, msg, n) \<leftarrow> AAASendMessage e (Some msg) (sc_node c);
                         let c = c\<lparr>sc_node := n\<rparr>;
                         Some (if r \<noteq> AAA_ERR_SUCCESS then give_up ctx msg c else c)
                       })
             })
        })"

text \<open>A socket of the SIP server is readable. The result tells whether it stays open.\<close>

definition sip_readable :: "node_env \<Rightarrow> (nat \<Rightarrow> u8) \<Rightarrow> u32 \<Rightarrow> ptr \<Rightarrow> int \<Rightarrow> socket \<Rightarrow> sip_client \<Rightarrow> (bool \<times> socket \<times> sip_client) option" where
  "sip_readable e junk rnd appref i s c = do {
     (r, s, rb, m) \<leftarrow> sip_do_read (env_ok (ne_peer e)) junk s reset_read_buffer (nd_shm (sc_node c));
     let c = c\<lparr>sc_node := set_shm m (sc_node c)\<rparr>;
     if r \<noteq> CONN_SUCCESS then Some (False, s, c)
     else do {
       let b = take (unat (rb_buf_len rb)) (snd (rb_buf rb));
       (msg, m) \<leftarrow> AAATranslateMessage (env_ok (ne_peer e)) (fst (rb_buf rb)) b False (nd_shm (sc_node c));
       let c = c\<lparr>sc_node := set_shm m (sc_node c)\<rparr>;
       case msg of
         None \<Rightarrow> Some (True, s, c)
       | Some msg \<Rightarrow> do { c \<leftarrow> serve_request e rnd appref i (fst (rb_buf rb)) b msg c; Some (True, s, c) }
     }
   }"

section \<open>Handling an answer\<close>

text \<open>\<open>write\<close>, repeated while it is interrupted; \<open>wr\<close> gives the outcome of each call.\<close>

partial_function (option) sip_write :: "(nat \<Rightarrow> write_result) \<Rightarrow> int \<Rightarrow> bytes \<Rightarrow> sip_client \<Rightarrow> (int \<times> sip_client) option" where
  "sip_write wr sock b c =
     (case wr (sc_calls c) of
        W_eintr \<Rightarrow> sip_write wr sock b (c\<lparr>sc_calls := Suc (sc_calls c)\<rparr>)
      | W_error \<Rightarrow> Some (- 1, c\<lparr>sc_calls := Suc (sc_calls c)\<rparr>)
      | W_bytes k \<Rightarrow> Some (int (min k (length b)), c\<lparr>sc_calls := Suc (sc_calls c), sc_writes := sc_writes c @ [(sock, take k b)]\<rparr>))"

definition send_to_sip :: "node_env \<Rightarrow> (nat \<Rightarrow> write_result) \<Rightarrow> u32 \<Rightarrow> ctx_entry \<Rightarrow> AAAMessage \<Rightarrow> sip_client \<Rightarrow> (int \<times> AAAMessage \<times> sip_client) option" where
  "send_to_sip e wr ticks myctx msg c = do {
     (r, msg, m) \<leftarrow> AAABuildMsgBuffer (env_ok (ne_peer e)) msg (nd_shm (sc_node c));
     let c = c\<lparr>sc_node := set_shm m (sc_node c)\<rparr>;
     if r \<noteq> AAA_ERR_SUCCESS then Some (- 1, msg, c)
     else do {
       (k, c) \<leftarrow> sip_write wr (ctx_in_port myctx) (msg_buf msg) c;
       if k \<noteq> int (length (msg_buf msg)) then Some (- 1, msg, c)
       else do {
         (_, n) \<leftarrow> on_sessions (AAASessionTimerStart (sId msg) ticks 5) (sc_node c);
         Some (1, msg, c\<lparr>sc_node := n\<rparr>)
       }
     }
   }"

definition sip_mod_msg :: "node_env \<Rightarrow> (nat \<Rightarrow> write_result) \<Rightarrow> u32 \<Rightarrow> AAAMessage option \<Rightarrow> ptr \<Rightarrow> sip_client \<Rightarrow>
    (int \<times> AAAMessage option \<times> sip_client) option" where
  "sip_mod_msg e wr ticks msg context c =
     (case msg of
        None \<Rightarrow> Some (- 1, None, c)
      | Some msg \<Rightarrow>
          if context = NULL \<or> is_req msg \<or> commandCode msg \<noteq> 265 \<and> commandCode msg \<noteq> 271 then Some (- 1, Some msg, c)
          else do {
            myctx \<leftarrow> sc_ctx c context;
            let (r, msg, m) = new_avp (env_ok (ne_peer e)) AVP_SIP_MSGID context (le32 (ctx_sip_msg_id myctx)) AVP_DUPLICATE_DATA (\<lambda>_. NULL) msg (nd_shm (sc_node c));
            if \<not> r then Some (- 1, Some msg, c\<lparr>sc_node := set_shm m (sc_node c)\<rparr>)
            else do {
              let (r, msg, m) = new_avp (env_ok (ne_peer e)) 404 context [ctx_serviceType myctx] AVP_DUPLICATE_DATA (\<lambda>_. NULL) msg m;
              let c = c\<lparr>sc_node := set_shm m (sc_node c)\<rparr>;
              if \<not> r then Some (- 1, Some msg, c)
              else do { (r, msg, c) \<leftarrow> send_to_sip e wr ticks myctx msg c; Some (r, Some msg, c) }
            }
          })"

definition sip_mod_tout :: "ptr \<Rightarrow> node \<Rightarrow> (int \<times> node) option" where
  "sip_mod_tout sid n = do { (_, n) \<leftarrow> on_sessions (AAAEndSession sid) n; Some (1, n) }"

section \<open>Requests are read like messages of peers\<close>

text \<open>
  The loop of tcp\_socket.c is the loop of tcp\_receive.c on another structure; only what the result
  means differs.
\<close>

definition as_peer :: "peer \<Rightarrow> rd_buf \<Rightarrow> peer" where
  "as_peer x p = x\<lparr>p_buf := rb_buf p, buf_len := rb_buf_len p, first_4bytes := rb_first_4bytes p\<rparr>"

lemma as_peer_simps [simp]:
  "p_buf (as_peer x p) = rb_buf p" "buf_len (as_peer x p) = rb_buf_len p" "first_4bytes (as_peer x p) = rb_first_4bytes p"
  by (simp_all add: as_peer_def)

lemma store_as_peer: "store_read off d (as_peer x p) = map_option (as_peer x) (rb_store off d p)"
proof (cases "fst (rb_buf p) = NULL")
  case True
  then show ?thesis
    by (cases "poke off d (le32 (rb_first_4bytes p))"; cases "peek4le (the (poke off d (le32 (rb_first_4bytes p)))) 0")
      (simp_all add: store_read_def rb_store_def as_peer_def)
next
  case False
  then show ?thesis by (cases "poke off d (snd (rb_buf p))") (simp_all add: store_read_def rb_store_def as_peer_def)
qed

lemma start_as_peer:
  "start_message ok junk (as_peer x p) m = map_option (map_prod (map_option (as_peer x)) id) (rb_start ok junk p m)"
  by (auto simp: start_message_def rb_start_def as_peer_def Let_def split: prod.splits bind_splits)

definition same_outcome :: "(read_outcome \<times> socket \<times> peer \<times> shm) option \<Rightarrow> (conn \<times> socket \<times> rd_buf \<times> shm) option \<Rightarrow> bool" where
  "same_outcome r r' \<longleftrightarrow> (case r of
       None \<Rightarrow> r' = None
     | Some (out, s, x, m) \<Rightarrow> (\<exists>c p. r' = Some (c, s, p, m) \<and> (case out of
           RO_msg (b, msg) \<Rightarrow> c = CONN_SUCCESS \<and> fst (rb_buf p) = b \<and> take (unat (rb_buf_len p)) (snd (rb_buf p)) = msg
         | RO_fin \<Rightarrow> c = CONN_CLOSED
         | _ \<Rightarrow> c = CONN_ERROR)))"

lemma rb_loop_as_peer: "same_outcome (read_loop ok junk off wanted s (as_peer x p) m) (rb_loop ok junk off wanted s p m)"
proof (induction ok junk off wanted s p m rule: rb_loop.induct)
  case (1 ok junk off wanted s p m)
  obtain r s1 where r: "recv (unat wanted) s = (r, s1)" by force
  show ?case
  proof (cases "\<exists>d. r = R_bytes d \<and> d \<noteq> []")
    case False
    then show ?thesis by (subst read_loop.simps, subst rb_loop.simps) (auto simp: r same_outcome_def split: recv_result.splits)
  next
    case True
    then obtain d where d: "r = R_bytes d" "d \<noteq> []" by blast
    show ?thesis
    proof (cases "rb_store off d p")
      case None
      then show ?thesis by (subst read_loop.simps, subst rb_loop.simps) (simp add: r d store_as_peer same_outcome_def)
    next
      case (Some p1)
      define p2 where "p2 = p1\<lparr>rb_buf_len := rb_buf_len p1 + of_nat (length d)\<rparr>"
      have x2: "(as_peer x p1)\<lparr>buf_len := buf_len (as_peer x p1) + of_nat (length d)\<rparr> = as_peer x p2" by (simp add: as_peer_def p2_def)
      note IH = "1.IH" [OF r [symmetric, unfolded d(1)] refl d(2) Some p2_def]
      have L: "read_loop ok junk off wanted s (as_peer x p) m =
          (if of_nat (length d) < wanted then read_loop ok junk (off + length d) (wanted - of_nat (length d)) s1 (as_peer x p2) m
           else if fst (rb_buf p2) = NULL
           then (case start_message ok junk (as_peer x p2) m of None \<Rightarrow> None
               | Some (None, m1) \<Rightarrow> Some (RO_refused, s1, as_peer x p2, m1)
               | Some (Some x3, m1) \<Rightarrow> read_loop ok junk (unat (buf_len x3)) (first_4bytes x3 - buf_len x3) s1 x3 m1)
           else Some (RO_msg (fst (rb_buf p2), take (unat (rb_buf_len p2)) (snd (rb_buf p2))), s1,
             (as_peer x p2)\<lparr>p_buf := (NULL, []), buf_len := 0, first_4bytes := 0\<rparr>, m))"
        by (subst read_loop.simps) (simp add: r d store_as_peer Some x2 [simplified] p2_def [symmetric] Let_def)
      have R: "rb_loop ok junk off wanted s p m =
          (if of_nat (length d) < wanted then rb_loop ok junk (off + length d) (wanted - of_nat (length d)) s1 p2 m
           else if fst (rb_buf p2) = NULL
           then (case rb_start ok junk p2 m of None \<Rightarrow> None
               | Some (None, m) \<Rightarrow> Some (CONN_ERROR, s1, p2, m)
               | Some (Some p, m) \<Rightarrow> rb_loop ok junk (unat (rb_buf_len p)) (rb_first_4bytes p - rb_buf_len p) s1 p m)
           else Some (CONN_SUCCESS, s1, p2, m))"
        by (subst rb_loop.simps) (simp add: r d Some p2_def [symmetric] Let_def)
      consider "of_nat (length d) < wanted" | "\<not> of_nat (length d) < wanted" "fst (rb_buf p2) = NULL" | "\<not> of_nat (length d) < wanted" "fst (rb_buf p2) \<noteq> NULL"
        by blast
      then show ?thesis
      proof cases
        case 1
        then show ?thesis using IH(1) unfolding L R by simp
      next
        case 2
        have IH2: "same_outcome (read_loop ok junk (unat (rb_buf_len p3)) (rb_first_4bytes p3 - rb_buf_len p3) s1 (as_peer x p3) m3)
            (rb_loop ok junk (unat (rb_buf_len p3)) (rb_first_4bytes p3 - rb_buf_len p3) s1 p3 m3)" if "rb_start ok junk p2 m = Some (Some p3, m3)" for p3 m3
          by (rule IH(2) [OF 2 that refl refl])
        show ?thesis
        proof (cases "rb_start ok junk p2 m")
          case None
          then show ?thesis using 2 unfolding L R start_as_peer by (simp add: same_outcome_def)
        next
          case (Some q)
          then show ?thesis using 2 IH2 unfolding L R start_as_peer
            by (cases q; cases "fst q") (simp_all, simp add: same_outcome_def)
        qed
      next
        case 3
        then show ?thesis unfolding L R by (simp add: same_outcome_def)
      qed
    qed
  qed
qed

text \<open>A socket that always gives what it has.\<close>

abbreviation (input) giving :: "socket \<Rightarrow> bool" where "giving s \<equiv> \<forall>n. \<exists>k. so_offer s n = O_bytes k"

lemma recv_giving: "giving s \<Longrightarrow> recv n s = (r, s1) \<Longrightarrow> giving s1 \<and> r \<noteq> R_error \<and> (r = R_again \<longrightarrow> so_stream s1 = [])"
proof -
  assume g: "giving s" and r: "recv n s = (r, s1)"
  then obtain k where "so_offer s (so_calls s) = O_bytes k" by blast
  then show ?thesis using g r by (auto simp: recv_def Let_def split: if_splits)
qed

lemma read_loop_drained:
  "giving s \<Longrightarrow> read_loop ok junk off wanted s x m = Some (RO_again, s', x', m') \<Longrightarrow> so_stream s' = []"
proof (induction ok junk off wanted s x m rule: read_loop.induct)
  case (1 ok junk off wanted s x m)
  obtain r s1 where r: "recv (unat wanted) s = (r, s1)" by force
  note g = recv_giving [OF "1.prems"(1) r]
  show ?case
  proof (cases "\<exists>d. r = R_bytes d \<and> d \<noteq> []")
    case False
    then show ?thesis using "1.prems"(2) g by (subst (asm) read_loop.simps) (auto simp: r split: recv_result.splits)
  next
    case True
    then obtain d where d: "r = R_bytes d" "d \<noteq> []" by blast
    then obtain y where y: "store_read off d x = Some y"
      using "1.prems"(2) by (subst (asm) read_loop.simps) (auto simp: r split: option.splits)
    note L = read_loop_data [OF r [unfolded d(1)] d(2) y refl, of ok junk m]
    define z where "z = y\<lparr>buf_len := buf_len y + of_nat (length d)\<rparr>"
    note IH = "1.IH" [OF r [symmetric, unfolded d(1)] refl d(2) y z_def]
    have "length d < 2 ^ 32" using recv_bytes(2) [OF r [unfolded d(1)] d(2)] unsigned_less [of wanted, where 'a = nat] by simp
    then have lt: "length d < unat wanted \<longleftrightarrow> of_nat (length d) < wanted" by (simp add: word_less_nat_alt unat_of_nat_u32)
    show ?thesis
    proof (cases "of_nat (length d) < wanted")
      case True
      then show ?thesis using IH(1) [OF True] "1.prems"(2) g unfolding L z_def [symmetric] lt by simp
    next
      case False
      then obtain x3 m1 where s: "fst (p_buf z) = NULL" "start_message ok junk z m = Some (Some x3, m1)"
        "read_loop ok junk (unat (buf_len x3)) (first_4bytes x3 - buf_len x3) s1 x3 m1 = Some (RO_again, s', x', m')"
        using "1.prems"(2) unfolding L z_def [symmetric] lt by (auto split: option.splits prod.splits if_splits)
      show ?thesis by (rule IH(2) [OF False s(1,2) refl refl]) (use g s(3) in auto)
    qed
  qed
qed

lemma frame_cut:
  assumes "next_frame msg = F_msg msg []" and "msg @ rest = D @ tail"
  shows "next_frame D = F_msg M [] \<Longrightarrow> M = msg \<and> tail = rest" and "length msg \<le> length D \<Longrightarrow> next_frame D \<noteq> F_more"
    and "next_frame D \<noteq> F_bad"
proof -
  have m: "4 \<le> length msg" "20 \<le> frame_len msg" "frame_len msg \<le> 65536" "frame_len msg = length msg"
    using assms(1) by (auto simp: next_frame_def split: if_splits)
  have D: "frame_len D = length msg" if "4 \<le> length D"
    using frame_len_prefix [OF m(1), of rest] frame_len_prefix [OF that, of tail] assms(2) m(4) by simp
  show "length msg \<le> length D \<Longrightarrow> next_frame D \<noteq> F_more" using D m by (auto simp: next_frame_def)
  show "next_frame D \<noteq> F_bad" using D m by (auto simp: next_frame_def)
  assume n: "next_frame D = F_msg M []"
  then have l: "4 \<le> length D" "M = take (frame_len D) D" "drop (frame_len D) D = []" "frame_len D \<le> length D"
    by (auto simp: next_frame_def split: if_splits)
  then have "length D = length msg" "M = D" using D by auto
  then show "M = msg \<and> tail = rest" using assms(2) by simp
qed

lemma sip_read_outcome:
  assumes "\<And>n. ok n" and "giving s"
  shows "\<exists>c s' p m' D. sip_do_read ok junk s reset_read_buffer m = Some (c, s', p, m') \<and> so_stream s = D @ so_stream s' \<and>
    (case c of CONN_SUCCESS \<Rightarrow> next_frame D = F_msg (take (unat (rb_buf_len p)) (snd (rb_buf p))) []
     | CONN_CLOSED \<Rightarrow> so_fin s \<and> so_stream s' = [] \<and> next_frame D = F_more
     | CONN_ERROR \<Rightarrow> next_frame D = F_bad \<or> so_stream s' = [] \<and> next_frame D = F_more)"
proof -
  obtain x :: peer where True by blast
  let ?x = "as_peer x reset_read_buffer"
  have b: "buf_len ?x = 0" "p_buf ?x = (NULL, [])" by (simp_all add: reset_read_buffer_def)
  have wf: "read_wf ?x" and h: "held ?x = []" and l: "length (target ?x) = 4" using b by (simp_all add: read_wf_def target_def held_def)
  have "reads_to ok s ?x (read_loop ok junk 0 4 s ?x m)" by (rule read_loop_spec [OF wf]) (use b l in simp_all)
  then obtain out s' x' m' D where r: "read_loop ok junk 0 4 s ?x m = Some (out, s', x', m')" "read_result ok s ?x out s' x' D"
    unfolding reads_to_def by blast
  have "sip_do_read ok junk s reset_read_buffer m = rb_loop ok junk 0 4 s reset_read_buffer m"
    by (simp add: sip_do_read_def reset_read_buffer_def)
  then obtain c p where c: "sip_do_read ok junk s reset_read_buffer m = Some (c, s', p, m')"
    "case out of RO_msg (b, msg) \<Rightarrow> c = CONN_SUCCESS \<and> fst (rb_buf p) = b \<and> take (unat (rb_buf_len p)) (snd (rb_buf p)) = msg
      | RO_fin \<Rightarrow> c = CONN_CLOSED | _ \<Rightarrow> c = CONN_ERROR"
    using rb_loop_as_peer [of ok junk 0 4 s x reset_read_buffer m] unfolding r(1) same_outcome_def by auto
  have more: "read_wf x' \<Longrightarrow> held x' = D \<Longrightarrow> next_frame D = F_more" using read_wf_more by blast
  have dr: "out = RO_again \<Longrightarrow> so_stream s' = []" using read_loop_drained [OF assms(2)] r(1) by blast
  have ne: "\<nexists>n. so_offer s n = O_error" using assms(2) by (metis recv_offer.distinct(3))
  show ?thesis
    by (rule exI [of _ c], rule exI [of _ s'], rule exI [of _ p], rule exI [of _ m'], rule exI [of _ D])
      (use c r(2) h more dr ne assms(1) in \<open>cases out; auto simp: read_result_def split: prod.splits\<close>)
qed

text \<open>
  (C40) A request of the SIP server is served only when it is there as a whole. When the socket holds a
  complete message, exactly that message is read, inside its block, and the rest of the stream is
  left for the next round. But when the socket holds only the first part of a message, as TCP may deliver it,
  nothing to read at the moment counts as an error: the part is thrown away and the connection is closed.
\<close>

theorem sip_request_read:
  assumes ok: "\<And>n. env_ok (ne_peer e) n" and s: "giving s" and msg: "next_frame msg = F_msg msg []"
  shows "(\<forall>rest. so_stream s = msg @ rest \<longrightarrow>
      (\<exists>s' p m'. sip_do_read (env_ok (ne_peer e)) junk s reset_read_buffer m = Some (CONN_SUCCESS, s', p, m') \<and>
        take (unat (rb_buf_len p)) (snd (rb_buf p)) = msg \<and> so_stream s' = rest)) \<and>
    (\<forall>part rest. msg = part @ rest \<and> rest \<noteq> [] \<and> so_stream s = part \<and> \<not> so_fin s \<longrightarrow>
      (\<exists>s' c'. sip_readable e junk rnd appref i s c = Some (False, s', c') \<and> so_stream s' = [] \<and>
        sc_ctx c' = sc_ctx c \<and> sc_writes c' = sc_writes c \<and> pw_writes (nd_pw (sc_node c')) = pw_writes (nd_pw (sc_node c))))"
proof (intro conjI allI impI)
  fix rest
  assume st: "so_stream s = msg @ rest"
  obtain r s' p m' D where r: "sip_do_read (env_ok (ne_peer e)) junk s reset_read_buffer m = Some (r, s', p, m')" "so_stream s = D @ so_stream s'"
    and o: "case r of CONN_SUCCESS \<Rightarrow> next_frame D = F_msg (take (unat (rb_buf_len p)) (snd (rb_buf p))) []
     | CONN_CLOSED \<Rightarrow> so_fin s \<and> so_stream s' = [] \<and> next_frame D = F_more
     | CONN_ERROR \<Rightarrow> next_frame D = F_bad \<or> so_stream s' = [] \<and> next_frame D = F_more"
    using sip_read_outcome [where ok = "env_ok (ne_peer e)", OF ok s] by blast
  have cut: "msg @ rest = D @ so_stream s'" using st r(2) by simp
  have "length msg \<le> length D" if "so_stream s' = []" using cut that by (metis append.right_neutral length_append le_add1)
  then have "r = CONN_SUCCESS" using o frame_cut(2,3) [OF msg cut] by (cases r) auto
  then show "\<exists>s' p m'. sip_do_read (env_ok (ne_peer e)) junk s reset_read_buffer m = Some (CONN_SUCCESS, s', p, m') \<and>
      take (unat (rb_buf_len p)) (snd (rb_buf p)) = msg \<and> so_stream s' = rest"
    using r(1) o frame_cut(1) [OF msg cut] by auto
next
  fix part rest
  assume h: "msg = part @ rest \<and> rest \<noteq> [] \<and> so_stream s = part \<and> \<not> so_fin s"
  let ?m = "nd_shm (sc_node c)"
  obtain r s' p m' D where r: "sip_do_read (env_ok (ne_peer e)) junk s reset_read_buffer ?m = Some (r, s', p, m')" "so_stream s = D @ so_stream s'"
    and o: "case r of CONN_SUCCESS \<Rightarrow> next_frame D = F_msg (take (unat (rb_buf_len p)) (snd (rb_buf p))) []
     | CONN_CLOSED \<Rightarrow> so_fin s \<and> so_stream s' = [] \<and> next_frame D = F_more
     | CONN_ERROR \<Rightarrow> next_frame D = F_bad \<or> so_stream s' = [] \<and> next_frame D = F_more"
    using sip_read_outcome [where ok = "env_ok (ne_peer e)", OF ok s] by blast
  have cut: "msg @ [] = D @ so_stream s' @ rest" using h r(2) by simp
  have "so_stream s' @ rest \<noteq> []" using h by simp
  then have "r = CONN_ERROR" "so_stream s' = []" using o h frame_cut(1,3) [OF msg cut] by (cases r; auto)+
  then show "\<exists>s' c'. sip_readable e junk rnd appref i s c = Some (False, s', c') \<and> so_stream s' = [] \<and>
        sc_ctx c' = sc_ctx c \<and> sc_writes c' = sc_writes c \<and> pw_writes (nd_pw (sc_node c')) = pw_writes (nd_pw (sc_node c))"
    using r(1) by (simp add: sip_readable_def set_shm_def)
qed

text \<open>A message that is only a header, in one piece and cut after ten bytes.\<close>

definition sip_sample :: sip_client where
  "sip_sample = \<lparr>sc_node = \<lparr>nd_pw = sample_pair, nd_sw = sample_world\<rparr>,
     sc_ctx = [9 \<mapsto> \<lparr>ctx_in_port = 5, ctx_serviceType = 54, ctx_sip_msg_id = 77\<rparr>], sc_calls = 0, sc_writes = []\<rparr>"

definition sip_header :: bytes where
  "sip_header = [1, 0, 0, 20] @ replicate 16 0"

definition sip_socket :: "bytes \<Rightarrow> socket" where
  "sip_socket b = \<lparr>so_stream = b, so_fin = False, so_calls = 0, so_offer = (\<lambda>_. O_bytes 3)\<rparr>"

theorem sip_request_read_witness:
  "(\<exists>s' p m'. sip_do_read (\<lambda>_. True) (\<lambda>_. 0) (sip_socket (sip_header @ [7])) reset_read_buffer shm_init = Some (CONN_SUCCESS, s', p, m') \<and>
      take (unat (rb_buf_len p)) (snd (rb_buf p)) = sip_header \<and> so_stream s' = [7]) \<and>
   (\<exists>s' c'. sip_readable (sample_node_env AAA_CLIENT (\<lambda>_. W_error)) (\<lambda>_. 0) 1 2 5 (sip_socket (take 10 sip_header)) sip_sample = Some (False, s', c'))"
proof -
  let ?e = "sample_node_env AAA_CLIENT (\<lambda>_. W_error)"
  have ok: "env_ok (ne_peer ?e) = (\<lambda>_. True)" by (simp add: sample_node_env_def sample_env_def)
  have f: "next_frame sip_header = F_msg sip_header []" by (simp add: next_frame_def frame_len_def sip_header_def of_be32_def nth_append)
  have g: "\<forall>n. \<exists>k. so_offer (sip_socket b) n = O_bytes k" for b by (simp add: sip_socket_def)
  have ok': "env_ok (ne_peer ?e) n" for n by (simp add: ok)
  note T = sip_request_read [OF ok' g f]
  have h: "sip_header = take 10 sip_header @ drop 10 sip_header" "drop 10 sip_header \<noteq> []" by (simp, simp add: sip_header_def)
  have s: "so_stream (sip_socket b) = b" "\<not> so_fin (sip_socket b)" for b by (simp_all add: sip_socket_def)
  have 1: "\<exists>s' p m'. sip_do_read (\<lambda>_. True) (\<lambda>_. 0) (sip_socket (sip_header @ [7])) reset_read_buffer shm_init = Some (CONN_SUCCESS, s', p, m') \<and>
      take (unat (rb_buf_len p)) (snd (rb_buf p)) = sip_header \<and> so_stream s' = [7]"
    using T [of "sip_header @ [7]" "\<lambda>_. 0" shm_init, THEN conjunct1, rule_format, OF s(1)] unfolding ok .
  have 2: "\<exists>s' c'. sip_readable ?e (\<lambda>_. 0) 1 2 5 (sip_socket (take 10 sip_header)) sip_sample = Some (False, s', c')"
    using T [of "take 10 sip_header" "\<lambda>_. 0" shm_init, THEN conjunct2, rule_format, OF conjI [OF h(1) conjI [OF h(2) conjI [OF s]]], of 1 2 5 sip_sample] by blast
  show ?thesis using 1 2 by blast
qed

section \<open>The answer is never written\<close>

lemma new_avp_length:
  "length (avp_data a) \<le> n \<Longrightarrow> msg_len (a # l) \<le> msg_len l + 15 + n"
  by (auto simp: msg_len_wire avp_wire_len_def AVP_HDR_SIZE_def pad_len_def)

lemma new_avp_front:
  assumes "new_avp ok code s d AVP_DUPLICATE_DATA (\<lambda>_. NULL) msg m = (r, msg', m')"
  shows "if r then \<exists>a. avpList msg' = a # avpList msg \<and> avp_code a = code \<and> avp_data a = d else avpList msg' = avpList msg"
proof (cases "AAACreateAVP ok code 0 0 s d AVP_DUPLICATE_DATA m")
  case (Pair x m1)
  show ?thesis
  proof (cases x)
    case None
    then show ?thesis using assms Pair by (auto simp: new_avp_def)
  next
    case (Some a)
    then have "avp_code a = code \<and> avp_data a = d"
      using Pair by (auto simp: AAACreateAVP_def Let_def set_avp_fields_def split: prod.splits if_splits)
    then show ?thesis using assms Pair Some by (auto simp: new_avp_def AAAAddAVPToMessage_def set_shortcut_def split: if_splits)
  qed
qed

lemma send_to_sip_fails:
  assumes "msg_len (avpList msg) < 2 ^ 31"
  shows "\<exists>msg' m. send_to_sip e wr ticks myctx msg c = Some (- 1, msg', c\<lparr>sc_node := set_shm m (sc_node c)\<rparr>)"
proof -
  obtain r msg' m where "AAABuildMsgBuffer (env_ok (ne_peer e)) msg (nd_shm (sc_node c)) = Some (r, msg', m)" "r \<noteq> AAA_ERR_SUCCESS"
    using build_msg_spec [OF assms, of "env_ok (ne_peer e)" "nd_shm (sc_node c)"] by (simp add: Let_def split: prod.splits if_splits)
  then have "send_to_sip e wr ticks myctx msg c = Some (- 1, msg', c\<lparr>sc_node := set_shm m (sc_node c)\<rparr>)" by (simp add: send_to_sip_def)
  then show ?thesis by blast
qed

lemma set_shm_twice [simp]: "set_shm m (set_shm m' n) = set_shm m n" "nd_shm (set_shm m n) = m"
  by (simp_all add: set_shm_def nd_shm_def)

text \<open>
  (C39) The SIP server never gets an answer. Whatever answer comes for a session with a context, and
  whatever the allocator and the socket do, the module returns an error, writes nothing to the socket
  and does not start the timer of the session: \<open>AAABuildMsgBuffer\<close> returns 1 for success, which the module
  compares with \<open>AAA_ERR_SUCCESS\<close>, which is 0.
\<close>

theorem sip_answer_never_written:
  assumes "sc_ctx c context = Some myctx" and "msg_len (avpList msg) < 2 ^ 30"
  shows "\<exists>msg' m. sip_mod_msg e wr ticks (Some msg) context c = Some (- 1, Some msg', c\<lparr>sc_node := set_shm m (sc_node c)\<rparr>)"
proof (cases "context = NULL \<or> is_req msg \<or> commandCode msg \<noteq> 265 \<and> commandCode msg \<noteq> 271")
  case True
  have "c = c\<lparr>sc_node := set_shm (nd_shm (sc_node c)) (sc_node c)\<rparr>" by simp
  moreover have "sip_mod_msg e wr ticks (Some msg) context c = Some (- 1, Some msg, c)" using True by (simp add: sip_mod_msg_def)
  ultimately show ?thesis by metis
next
  case False
  obtain r1 msg1 m1 where 1: "new_avp (env_ok (ne_peer e)) AVP_SIP_MSGID context (le32 (ctx_sip_msg_id myctx)) AVP_DUPLICATE_DATA (\<lambda>_. NULL) msg
      (nd_shm (sc_node c)) = (r1, msg1, m1)" by (metis prod_cases3)
  obtain r2 msg2 m2 where 2: "new_avp (env_ok (ne_peer e)) 404 context [ctx_serviceType myctx] AVP_DUPLICATE_DATA (\<lambda>_. NULL) msg1 m1 = (r2, msg2, m2)"
    by (metis prod_cases3)
  have d: "sip_mod_msg e wr ticks (Some msg) context c =
      (if \<not> r1 then Some (- 1, Some msg1, c\<lparr>sc_node := set_shm m1 (sc_node c)\<rparr>)
       else if \<not> r2 then Some (- 1, Some msg2, c\<lparr>sc_node := set_shm m2 (sc_node c)\<rparr>)
       else do { (r, msg, c) \<leftarrow> send_to_sip e wr ticks myctx msg2 (c\<lparr>sc_node := set_shm m2 (sc_node c)\<rparr>); Some (r, Some msg, c) })"
    unfolding sip_mod_msg_def option.case if_not_P [OF False] by (simp add: assms(1) 1 2)
  show ?thesis
  proof (cases "r1 \<and> r2")
    case True
    then obtain a b where "avpList msg1 = a # avpList msg" "length (avp_data a) = 4" "avpList msg2 = b # avpList msg1" "length (avp_data b) = 1"
      using new_avp_front [OF 1] new_avp_front [OF 2] by auto
    then have "msg_len (avpList msg2) < 2 ^ 31" using assms(2) new_avp_length [of a 4 "avpList msg"] new_avp_length [of b 1 "avpList msg1"] by simp
    from send_to_sip_fails [OF this, of e wr ticks myctx "c\<lparr>sc_node := set_shm m2 (sc_node c)\<rparr>"]
    show ?thesis using True unfolding d by auto
  next
    case False
    then show ?thesis unfolding d by auto
  qed
qed

theorem sip_answer_never_written_witness:
  "\<exists>msg' m. sip_mod_msg (sample_node_env AAA_CLIENT (\<lambda>_. W_error)) (\<lambda>_. W_bytes 1000) 3 (Some ((zero_msg 20)\<lparr>commandCode := 265\<rparr>)) 9 sip_sample =
    Some (- 1, Some msg', sip_sample\<lparr>sc_node := set_shm m (sc_node sip_sample)\<rparr>)"
  by (rule sip_answer_never_written [where myctx = "\<lparr>ctx_in_port = 5, ctx_serviceType = 54, ctx_sip_msg_id = 77\<rparr>"])
    (simp_all add: sip_sample_def zero_msg_def msg_len_def AAA_MSG_HDR_SIZE_def)

end
