(* ===== verification/Spec2Isabelle.thy ===== *)
theory Spec2Isabelle
  imports Utils Timer Hash_Table Avp_List Message_Codec Session_Id Session_Machine Transaction Peer_Msg Peer_Machine Peer_Invariant Tcp_Receive Receive_Thread Uri_Parser Route Sender Server Error_Reply Client Qm_Safety Module_Loader Config_File Sip_Auth Sip_Client
begin

text \<open>
  Verification of DISC, a Diameter (AAA) server and client. File names are relative to src/disc/src.

  \<^bold>\<open>The program.\<close> A node keeps connections to peers. Receive threads assemble messages from TCP streams
  (transport/tcp\_receive.c); base protocol messages drive the state machine of the peer
  (transport/peer.c), all others go into a queue. Worker threads take them from there: a server
  (server.c) gives a request to a module, forwards it along a route (route.c) or answers it with an
  error, and sends answers back where the request came from; a client (client.c) gives answers to
  the session they belong to. Requests that wait for an answer are transactions (transport/trans.c) in hash
  tables (hash\_table.c) and timer lists (timer.c); sessions (diameter\_api/session.c) belong to
  modules (aaa\_module.c), which send messages by diameter\_api/sender.c. Messages are built and read
  in diameter\_msg. Memory comes from the pool of mem/q\_malloc.c. The configuration is read by
  cfg\_parser.c and cfg\_init.c. The modules sipauth of client and server authenticate the users of a
  SIP server.

  \<^bold>\<open>Theories and sources.\<close>
  \<^item> Disc\_Prelude: C integers as words, byte buffers with checked reads and writes, the allocator as
    an oracle and its contract (locale \<open>allocator\<close>), shared lemmas. Utils: utils.h. List\_Head: list.h on a
    store of pointers (locale \<open>entry_list\<close>). Timer: timer.c (locale \<open>timer_queue\<close>). Hash\_Table:
    hash\_table.c (locale \<open>cell_store\<close>).
  \<^item> Diameter\_Msg and Avp\_List: diameter\_msg/avp.c on sequences and on pointers, with one interface for
    both (locale \<open>avp_sequence\<close>). Message\_Codec: diameter\_msg/message.c.
  \<^item> Session\_Id, Session\_Machine: diameter\_api/session.c. Transaction: transport/trans.c.
  \<^item> Peer\_Msg, Peer\_Machine, Peer\_Invariant: transport/peer.c. Tcp\_Receive, Receive\_Thread:
    transport/tcp\_receive.c. Uri\_Parser: aaa\_parse\_uri.c. Route: route.c.
  \<^item> Sender: diameter\_api/sender.c; a node of this theory holds peers, transactions and sessions over
    one shared memory. Server and Error\_Reply: server.c. Client: client.c.
  \<^item> Q\_Malloc (definitions), Qm\_Heap, Qm\_Invariant, Qm\_Contract, Qm\_Safety: mem/q\_malloc.c, with and without
    the debugging fields.
  \<^item> Module\_Loader: aaa\_module.c. Cfg\_Parser, Cfg\_Line, Cfg\_Init, Config\_File: parser\_f.h,
    cfg\_parser.c and cfg\_init.c.
  \<^item> server/modules/sipauth: Md5 (md5.c), Digest\_Parser and Digest\_Cred (trim.h, param\_parser.c,
    digest\_parser.c), Digest\_Hash (ut.h, nonce.c, rfc2617.c, challenge.c), Sip\_Db (db.c), Sip\_Auth (sipauth.c).
    client/modules/sipauth: Sip\_Client (sipauth.c, tcp\_socket.c).

  A definition has the name of the function, type or macro it models, or a name of its own when it
  models a part of a function. Structures are records, enumerations datatypes. Functions take
  the state they change and return it. The properties stand in the theories of their components.

  \<^bold>\<open>Conventions.\<close> The value None of a definition with an option type is undefined behaviour of the C code
  (an access outside a buffer, a null or freed pointer that is followed) or a loop that does not end
  (\<open>partial_function\<close>); so a theorem that the result is Some excludes both. Error returns are ordinary
  values. The allocator is an oracle that may fail at any call, the outcomes of system calls,
  the handlers of modules, fnmatch, libltdl, MySQL, the clock and the contents of uninitialised
  memory are parameters. Pointers to structures are addresses, 0 is null. Sections under a lock are
  atomic, and interleavings of threads are step relations (\<open>race_step\<close>, \<open>life_step\<close>, the steps of Peer\_Invariant).
  The machine is the little-endian 32-bit one that the source asks for. There is no fuel
  except for the depth to which configuration files include each other. A length is a nat where
  the code cannot overflow for lengths that memory allows, and the bound is a hypothesis
  otherwise.

  \<^bold>\<open>What is shown.\<close>
  \<^item> Messages: what is built is read back, received bytes are never read out of bounds, answers belong
    to their requests. Lists, timers and hash tables behave as sequences and maps; the code on pointers
    refines them.
  \<^item> Sessions and transactions: identifiers are unique and lead back; no session or transaction is used
    after it is freed or lost, in every interleaving.
  \<^item> Peers: no peer is forgotten in any run; streams are cut into messages however TCP delivers them;
    every round of a receive thread is a sequence of abstract peer steps.
  \<^item> Nodes: forwarding is transparent, requests of a client get their answer or their timeout, rejected
    requests get the right error. Routes are used in their order.
  \<^item> The pool of q\_malloc stays well-formed under any use and implements the allocator contract.
  \<^item> Configuration files have the effect of their assignments; loaded modules are distinct.
  \<^item> SIP authentication: MD5 and the hashes are those of the RFCs, credentials are read back in any
    notation, a client is let in exactly with a fresh nonce of the server and the right response, and
    the record of a call is the statement that is meant.
  \<^item> Errors of the code that modelling showed are theorems where their effect is stated: the second peer
    of a route, Proxy-Info AVPs, AVPs of length 0, lines without value, requests to the SIP client
    that arrive in parts and its answers that are never written.

  \<^bold>\<open>Not modelled.\<close> Start-up, threads, sockets and pipes as such (aaa\_core.c, init\_conf.c, tcp\_accept.c,
  tcp\_shell.c), address conversions (ip\_addr.h, resolve.h), locks, logging: they consist of
  calls of the operating system. The alternative allocators, the print modules, the tests and the
  command language of server/, which is not built. The vendored libltdl. Of modelled files: functions that only
  free everything at the end, and debug output.
\<close>

end
